(* ===== verification/Prelude.thy ===== *)
theory Prelude
  imports Main "HOL-Library.Word" "HOL-Library.State_Monad" "HOL-Library.AList"
    "HOL-Library.Sublist" "HOL-Library.Char_ord" "HOL-Library.List_Lexorder"
begin

text \<open>
  What every component of the tusd model shares: Go's \<open>int64\<close> as an integer with its
  wrap-around written out, Go maps as association lists, the state-and-error actions in
  which the request handlers are written with their pre- and postconditions, and the generic
  lemmas and collections the component proofs use.
\<close>

section \<open>Types\<close>

text \<open>
  A Go string or byte slice is a list of bytes, and HOL's \<open>char\<close> is exactly a byte.
  A Go map is an association list with distinct keys; its order stands for the order in
  which the runtime happens to iterate over the map.
\<close>

type_synonym bytes = "char list"
type_synonym 'v gomap = "(string \<times> 'v) list"

text \<open>An action on a world \<open>'w\<close> that yields an error or a value.\<close>

type_synonym ('w, 'e, 'a) action = "('w, 'e + 'a) state"

section \<open>Collections of rules\<close>

named_theorems go_simps \<open>unfolding of the model's plain data operations\<close>
named_theorems io_intros \<open>composition rules for pre- and postconditions of actions\<close>

section \<open>Go's int64\<close>

definition MaxInt64 :: int where
  "MaxInt64 = 9223372036854775807"

definition MinInt64 :: int where
  "MinInt64 = - 9223372036854775808"

definition wrap64 :: "int \<Rightarrow> int" where
  "wrap64 x = (x + 9223372036854775808) mod 18446744073709551616 - 9223372036854775808"

definition is_int64 :: "int \<Rightarrow> bool" where
  "is_int64 x \<longleftrightarrow> MinInt64 \<le> x \<and> x \<le> MaxInt64"

definition add64 :: "int \<Rightarrow> int \<Rightarrow> int" where
  "add64 a b = wrap64 (a + b)"

definition sub64 :: "int \<Rightarrow> int \<Rightarrow> int" where
  "sub64 a b = wrap64 (a - b)"

definition mul64 :: "int \<Rightarrow> int \<Rightarrow> int" where
  "mul64 a b = wrap64 (a * b)"

lemmas int64_defs = MaxInt64_def MinInt64_def is_int64_def

text \<open>The wrap-around is the one of a 64-bit two's complement word.\<close>

lemma wrap64_signed_take_bit: "wrap64 x = signed_take_bit 63 x"
  by (simp add: wrap64_def signed_take_bit_eq_take_bit_shift take_bit_eq_mod)

lemma wrap64_sint: "wrap64 x = sint (word_of_int x :: 64 word)"
  by (simp add: wrap64_signed_take_bit sint_sbintrunc')

lemma wrap64_id: "is_int64 x \<Longrightarrow> wrap64 x = x"
  by (auto simp: wrap64_def int64_defs)

lemma wrap64_range [simp]: "is_int64 (wrap64 x)"
proof -
  have "0 \<le> (x + 9223372036854775808) mod 18446744073709551616"
    and "(x + 9223372036854775808) mod 18446744073709551616 < 18446744073709551616"
    by simp_all
  then show ?thesis by (simp add: wrap64_def int64_defs)
qed

lemma add64_id: "is_int64 (a + b) \<Longrightarrow> add64 a b = a + b"
  by (simp add: add64_def wrap64_id)

lemma sub64_id: "is_int64 (a - b) \<Longrightarrow> sub64 a b = a - b"
  by (simp add: sub64_def wrap64_id)

lemma mul64_id: "is_int64 (a * b) \<Longrightarrow> mul64 a b = a * b"
  by (simp add: mul64_def wrap64_id)

lemma add64_word: "add64 a b = sint (word_of_int a + word_of_int b :: 64 word)"
  by (simp only: add64_def wrap64_sint wi_hom_add)

text \<open>Where both summands are nonnegative, an overflowing sum is negative.\<close>

lemma add64_overflow:
  assumes "0 \<le> a" "a \<le> MaxInt64" "0 \<le> b" "b \<le> MaxInt64" "MaxInt64 < a + b"
  shows "add64 a b = a + b - 18446744073709551616"
proof -
  have "(a + b + 9223372036854775808) mod 18446744073709551616
      = (a + b - 9223372036854775808) mod 18446744073709551616"
    using mod_add_self2 [of "a + b - 9223372036854775808" "18446744073709551616 :: int"]
    by (simp add: algebra_simps)
  also have "\<dots> = a + b - 9223372036854775808"
    using assms by (intro mod_pos_pos_trivial) (auto simp: int64_defs)
  finally show ?thesis by (simp add: add64_def wrap64_def)
qed

section \<open>Go maps\<close>

definition map_get :: "'v gomap \<Rightarrow> string \<Rightarrow> 'v option" where
  "map_get m k = map_of m k"

text \<open>Reading an absent key of a \<open>map[string]string\<close> gives the empty string.\<close>

definition map_str :: "string gomap \<Rightarrow> string \<Rightarrow> string" where
  "map_str m k = (case map_of m k of None \<Rightarrow> [] | Some v \<Rightarrow> v)"

definition map_set :: "string \<Rightarrow> 'v \<Rightarrow> 'v gomap \<Rightarrow> 'v gomap" where
  "map_set k v m = AList.update k v m"

definition map_del :: "string \<Rightarrow> 'v gomap \<Rightarrow> 'v gomap" where
  "map_del k m = AList.delete k m"

text \<open>\<open>maps.Copy\<close>: every pair of the source map is stored into the destination.\<close>

definition map_copy :: "'v gomap \<Rightarrow> 'v gomap \<Rightarrow> 'v gomap" where
  "map_copy dst src = fold (\<lambda>(k, v) m. map_set k v m) src dst"

definition wf_map :: "'v gomap \<Rightarrow> bool" where
  "wf_map m \<longleftrightarrow> distinct (map fst m)"

lemma map_of_set [simp]: "map_of (map_set k v m) = (map_of m)(k \<mapsto> v)"
  by (simp add: map_set_def update_conv')

lemma wf_map_set [simp]: "wf_map m \<Longrightarrow> wf_map (map_set k v m)"
  by (simp add: wf_map_def map_set_def distinct_update)

lemma wf_map_Nil [simp]: "wf_map []"
  by (simp add: wf_map_def)

lemma map_get_set [simp]: "map_get (map_set k v m) k' = (if k' = k then Some v else map_get m k')"
  by (simp add: map_get_def)

lemma map_str_set [simp]: "map_str (map_set k v m) k' = (if k' = k then v else map_str m k')"
  by (simp add: map_str_def)

lemma map_copy_Nil [simp]: "map_copy m [] = m"
  by (simp add: map_copy_def)

lemma map_copy_Cons [simp]: "map_copy m ((k, v) # src) = map_copy (map_set k v m) src"
  by (simp add: map_copy_def)

lemma map_of_copy:
  "wf_map src \<Longrightarrow> map_of (map_copy dst src) = map_of dst ++ map_of src"
proof (induction src arbitrary: dst)
  case Nil
  then show ?case by simp
next
  case (Cons p src)
  obtain k v where p: "p = (k, v)" by force
  with Cons.prems have k: "map_of src k = None" and wf: "wf_map src"
    by (auto simp: wf_map_def map_of_eq_None_iff)
  from Cons.IH [OF wf, of "map_set k v dst"]
  have "map_of (map_copy dst (p # src)) = (map_of dst)(k \<mapsto> v) ++ map_of src"
    by (simp add: p del: fun_upd_apply)
  also have "\<dots> = map_of dst ++ map_of (p # src)"
    using k by (auto simp: p map_add_def fun_eq_iff split: option.splits)
  finally show ?case .
qed

lemma wf_map_copy [simp]: "wf_map dst \<Longrightarrow> wf_map (map_copy dst src)"
  by (induction src arbitrary: dst) auto

section \<open>Actions: state and error\<close>

text \<open>
  \<open>bindE m f\<close> runs \<open>m\<close> and, when it yields an error, stops with that error: the
  \<^verbatim>\<open>if err != nil { ...; return }\<close> after a call.
\<close>

definition bindE :: "('w, 'e, 'a) action \<Rightarrow> ('a \<Rightarrow> ('w, 'e, 'b) action) \<Rightarrow> ('w, 'e, 'b) action" where
  "bindE m f = do { r \<leftarrow> m;
     case r of Inl e \<Rightarrow> State_Monad.return (Inl e) | Inr x \<Rightarrow> f x }"

definition okE :: "'a \<Rightarrow> ('w, 'e, 'a) action" where
  "okE x = State_Monad.return (Inr x)"

definition failE :: "'e \<Rightarrow> ('w, 'e, 'a) action" where
  "failE e = State_Monad.return (Inl e)"

definition liftE :: "'e + 'a \<Rightarrow> ('w, 'e, 'a) action" where
  "liftE r = State_Monad.return r"

text \<open>Run a plain action and go on with its value.\<close>

definition thenE :: "('w, 'a) state \<Rightarrow> ('a \<Rightarrow> ('w, 'e, 'b) action) \<Rightarrow> ('w, 'e, 'b) action" where
  "thenE m f = do { x \<leftarrow> m; f x }"

definition modify :: "('w \<Rightarrow> 'w) \<Rightarrow> ('w, unit) state" where
  "modify f = State (\<lambda>w. ((), f w))"

lemma run_bindE [simp]:
  "run_state (bindE m f) w =
     (case run_state m w of (Inl e, w') \<Rightarrow> (Inl e, w') | (Inr x, w') \<Rightarrow> run_state (f x) w')"
  by (simp add: bindE_def split: prod.splits sum.splits)

lemma run_okE [simp]: "run_state (okE x) w = (Inr x, w)"
  by (simp add: okE_def)

lemma run_failE [simp]: "run_state (failE e) w = (Inl e, w)"
  by (simp add: failE_def)

lemma run_liftE [simp]: "run_state (liftE r) w = (r, w)"
  by (simp add: liftE_def)

lemma run_thenE [simp]:
  "run_state (thenE m f) w = (case run_state m w of (x, w') \<Rightarrow> run_state (f x) w')"
  by (simp add: thenE_def split: prod.splits)

lemma run_modify [simp]: "run_state (modify f) w = ((), f w)"
  by (simp add: modify_def)

section \<open>Pre- and postconditions of actions\<close>

text \<open>
  \<open>triple P m Q\<close>: started in a world that satisfies \<open>P\<close>, the action \<open>m\<close> ends with a
  result and a world that satisfy \<open>Q\<close>. Actions are total, so this is total correctness.
  The rules follow the structure of an action; \<open>triple_bindE\<close> asks for a condition \<open>R\<close>
  between the two parts that also implies the postcondition on errors.
\<close>

definition triple :: "('w \<Rightarrow> bool) \<Rightarrow> ('w, 'a) state \<Rightarrow> ('a \<Rightarrow> 'w \<Rightarrow> bool) \<Rightarrow> bool" where
  "triple P m Q \<longleftrightarrow> (\<forall>w. P w \<longrightarrow> (case run_state m w of (r, w') \<Rightarrow> Q r w'))"

lemma tripleI: "(\<And>w r w'. P w \<Longrightarrow> run_state m w = (r, w') \<Longrightarrow> Q r w') \<Longrightarrow> triple P m Q"
  by (auto simp: triple_def)

lemma tripleD: "triple P m Q \<Longrightarrow> P w \<Longrightarrow> run_state m w = (r, w') \<Longrightarrow> Q r w'"
  by (auto simp: triple_def)

lemma triple_weaken:
  "triple P m Q \<Longrightarrow> (\<And>w. P' w \<Longrightarrow> P w) \<Longrightarrow> (\<And>r w. Q r w \<Longrightarrow> Q' r w) \<Longrightarrow> triple P' m Q'"
  by (fastforce simp: triple_def)

lemma triple_weaken_pre: "triple P m Q \<Longrightarrow> (\<And>w. P' w \<Longrightarrow> P w) \<Longrightarrow> triple P' m Q"
  by (fastforce simp: triple_def)

lemma triple_conj:
  "triple P m Q \<Longrightarrow> triple P' m Q' \<Longrightarrow> triple (\<lambda>w. P w \<and> P' w) m (\<lambda>r w. Q r w \<and> Q' r w)"
  by (fastforce simp: triple_def)

lemma triple_return [io_intros]: "(\<And>w. P w \<Longrightarrow> Q x w) \<Longrightarrow> triple P (State_Monad.return x) Q"
  by (simp add: triple_def)

lemma triple_okE [io_intros]: "(\<And>w. P w \<Longrightarrow> Q (Inr x) w) \<Longrightarrow> triple P (okE x) Q"
  by (simp add: triple_def)

lemma triple_failE [io_intros]: "(\<And>w. P w \<Longrightarrow> Q (Inl e) w) \<Longrightarrow> triple P (failE e) Q"
  by (simp add: triple_def)

lemma triple_liftE [io_intros]: "(\<And>w. P w \<Longrightarrow> Q r w) \<Longrightarrow> triple P (liftE r) Q"
  by (simp add: triple_def)

lemma triple_modify [io_intros]: "(\<And>w. P w \<Longrightarrow> Q () (f w)) \<Longrightarrow> triple P (modify f) Q"
  by (simp add: triple_def)

lemma triple_bind:
  "triple P m R \<Longrightarrow> (\<And>x. triple (R x) (f x) Q) \<Longrightarrow> triple P (State_Monad.bind m f) Q"
  by (fastforce simp: triple_def split: prod.splits)

lemma triple_thenE:
  "triple P m R \<Longrightarrow> (\<And>x. triple (R x) (f x) Q) \<Longrightarrow> triple P (thenE m f) Q"
  by (simp add: thenE_def triple_bind)

lemma triple_bindE:
  assumes "triple P m R" "\<And>e w. R (Inl e) w \<Longrightarrow> Q (Inl e) w" "\<And>x. triple (R (Inr x)) (f x) Q"
  shows "triple P (bindE m f) Q"
  unfolding bindE_def
proof (rule triple_bind [OF assms(1)])
  fix r
  show "triple (R r) (case r of Inl e \<Rightarrow> State_Monad.return (Inl e) | Inr x \<Rightarrow> f x) Q"
    using assms(2,3) by (cases r) (auto intro: triple_return)
qed

lemma triple_if [io_intros]:
  "(b \<Longrightarrow> triple P m Q) \<Longrightarrow> (\<not> b \<Longrightarrow> triple P n Q) \<Longrightarrow> triple P (if b then m else n) Q"
  by simp

lemma triple_case_option [io_intros]:
  "(x = None \<Longrightarrow> triple P m Q) \<Longrightarrow> (\<And>y. x = Some y \<Longrightarrow> triple P (f y) Q) \<Longrightarrow>
     triple P (case x of None \<Rightarrow> m | Some y \<Rightarrow> f y) Q"
  by (cases x) auto

lemma triple_case_sum [io_intros]:
  "(\<And>y. x = Inl y \<Longrightarrow> triple P (f y) Q) \<Longrightarrow> (\<And>y. x = Inr y \<Longrightarrow> triple P (g y) Q) \<Longrightarrow>
     triple P (case x of Inl y \<Rightarrow> f y | Inr y \<Rightarrow> g y) Q"
  by (cases x) auto

lemma triple_case_prod [io_intros]:
  "(\<And>a b. x = (a, b) \<Longrightarrow> triple P (f a b) Q) \<Longrightarrow> triple P (case x of (a, b) \<Rightarrow> f a b) Q"
  by (cases x) auto

lemma triple_Let [io_intros]: "(\<And>y. y = x \<Longrightarrow> triple P (f y) Q) \<Longrightarrow> triple P (Let x f) Q"
  by (simp add: Let_def)

lemma triple_pre: "(\<And>w. P w \<Longrightarrow> triple (\<lambda>v. v = w) m Q) \<Longrightarrow> triple P m Q"
  by (simp add: triple_def)

lemma triple_False [io_intros]: "triple (\<lambda>w. False) m Q"
  by (simp add: triple_def)

text \<open>Facts that do not depend on the world can be assumed, and carried along.\<close>

lemma triple_const: "triple P m Q \<Longrightarrow> triple (\<lambda>w. P w \<and> A) m (\<lambda>r w. Q r w \<and> A)"
  by (auto simp: triple_def)

lemma triple_fact: "(A \<Longrightarrow> triple P m Q) \<Longrightarrow> triple (\<lambda>w. A \<and> P w) m Q"
  by (auto simp: triple_def)

lemma triple_ex: "(\<And>x. triple (P x) m Q) \<Longrightarrow> triple (\<lambda>w. \<exists>x. P x w) m Q"
  by (rule tripleI) (auto dest: tripleD)

lemma triple_disj: "triple P m Q \<Longrightarrow> triple P' m Q \<Longrightarrow> triple (\<lambda>w. P w \<or> P' w) m Q"
  by (auto simp: triple_def)

text \<open>An invariant kept whatever the result is.\<close>

abbreviation keeps :: "('w \<Rightarrow> bool) \<Rightarrow> ('w, 'a) state \<Rightarrow> bool" where
  "keeps I m \<equiv> triple I m (\<lambda>_. I)"

lemma keeps_bind [io_intros]:
  "keeps I m \<Longrightarrow> (\<And>x. keeps I (f x)) \<Longrightarrow> keeps I (State_Monad.bind m f)"
  by (rule triple_bind)

lemma keeps_thenE [io_intros]: "keeps I m \<Longrightarrow> (\<And>x. keeps I (f x)) \<Longrightarrow> keeps I (thenE m f)"
  by (rule triple_thenE)

lemma keeps_bindE [io_intros]: "keeps I m \<Longrightarrow> (\<And>x. keeps I (f x)) \<Longrightarrow> keeps I (bindE m f)"
  by (rule triple_bindE)

end
