(* ===== verification/GoLib.thy ===== *)
theory GoLib
  imports Prelude
begin

text \<open>
  The parts of Go's standard library that tusd's sources call on strings: the functions of
  \<^verbatim>\<open>strings\<close>, \<^verbatim>\<open>strconv\<close>, \<^verbatim>\<open>encoding/base64\<close>, \<^verbatim>\<open>encoding/hex\<close>,
  \<^verbatim>\<open>path/filepath\<close> (on Unix), \<^verbatim>\<open>unicode/utf8\<close> and the canonical form of HTTP header
  names, all on byte strings.
\<close>

section \<open>strings\<close>

definition HasPrefix :: "string \<Rightarrow> string \<Rightarrow> bool" where
  "HasPrefix s p \<longleftrightarrow> prefix p s"

definition HasSuffix :: "string \<Rightarrow> string \<Rightarrow> bool" where
  "HasSuffix s p \<longleftrightarrow> suffix p s"

definition TrimSuffix :: "string \<Rightarrow> string \<Rightarrow> string" where
  "TrimSuffix s p = (if suffix p s then take (length s - length p) s else s)"

text \<open>\<open>strings.Trim(s, "/")\<close>, for a one-character cutset.\<close>

definition TrimChar :: "char \<Rightarrow> string \<Rightarrow> string" where
  "TrimChar c s = rev (dropWhile (\<lambda>x. x = c) (rev (dropWhile (\<lambda>x. x = c) s)))"

text \<open>\<open>strings.Split\<close> and \<open>strings.SplitSeq\<close> with a one-character separator.\<close>

fun Split :: "char \<Rightarrow> string \<Rightarrow> string list" where
  "Split c [] = [[]]"
| "Split c (x # xs) =
     (if x = c then [] # Split c xs
      else (case Split c xs of [] \<Rightarrow> [[x]] | y # ys \<Rightarrow> (x # y) # ys))"

fun Join :: "string \<Rightarrow> string list \<Rightarrow> string" where
  "Join sep [] = []"
| "Join sep [x] = x"
| "Join sep (x # y # ys) = x @ sep @ Join sep (y # ys)"

text \<open>\<open>strings.Cut\<close>: around the first occurrence of the separator.\<close>

fun Cut :: "string \<Rightarrow> string \<Rightarrow> (string \<times> string) option" where
  "Cut [] sep = (if sep = [] then Some ([], []) else None)"
| "Cut (c # cs) sep =
     (if prefix sep (c # cs) then Some ([], drop (length sep) (c # cs))
      else map_option (\<lambda>(a, b). (c # a, b)) (Cut cs sep))"

text \<open>\<open>strings.LastIndex\<close> of a one-character string.\<close>

fun LastIndex :: "string \<Rightarrow> char \<Rightarrow> nat option" where
  "LastIndex [] c = None"
| "LastIndex (x # xs) c =
     (case LastIndex xs c of Some i \<Rightarrow> Some (Suc i) | None \<Rightarrow> if x = c then Some 0 else None)"

text \<open>
  \<open>strings.TrimSpace\<close>: the UTF-8 encodings of the code points for which
  \<open>unicode.IsSpace\<close> holds.
\<close>

definition space_encodings :: "string list" where
  "space_encodings =
     [[CHR 0x09], [CHR 0x0A], [CHR 0x0B], [CHR 0x0C], [CHR 0x0D], [CHR 0x20],
      [CHR 0xC2, CHR 0x85], [CHR 0xC2, CHR 0xA0], [CHR 0xE1, CHR 0x9A, CHR 0x80]] @
     map (\<lambda>i. [CHR 0xE2, CHR 0x80, char_of (i :: nat)]) [0x80..<0x8B] @
     [[CHR 0xE2, CHR 0x80, CHR 0xA8], [CHR 0xE2, CHR 0x80, CHR 0xA9],
      [CHR 0xE2, CHR 0x80, CHR 0xAF], [CHR 0xE2, CHR 0x81, CHR 0x9F],
      [CHR 0xE3, CHR 0x80, CHR 0x80]]"

function trim_left_with :: "string list \<Rightarrow> string \<Rightarrow> string" where
  "trim_left_with encs s =
     (case find (\<lambda>e. e \<noteq> [] \<and> prefix e s) encs of
        None \<Rightarrow> s
      | Some e \<Rightarrow> trim_left_with encs (drop (length e) s))"
  by pat_completeness auto
termination
  by (relation "measure (\<lambda>(encs, s). length s)")
    (auto simp: find_Some_iff prefix_def)

declare trim_left_with.simps [simp del]

definition TrimSpace :: "string \<Rightarrow> string" where
  "TrimSpace s = rev (trim_left_with (map rev space_encodings)
                   (rev (trim_left_with space_encodings s)))"

section \<open>strconv\<close>

definition is_digit :: "char \<Rightarrow> bool" where
  "is_digit c \<longleftrightarrow> 48 \<le> (of_char c :: nat) \<and> (of_char c :: nat) \<le> 57"

definition digits_value :: "string \<Rightarrow> int" where
  "digits_value s = foldl (\<lambda>a c. 10 * a + (of_char c - 48)) 0 s"

definition parse_digits :: "string \<Rightarrow> int option" where
  "parse_digits s = (if s \<noteq> [] \<and> list_all is_digit s then Some (digits_value s) else None)"

text \<open>\<open>strconv.ParseInt(s, 10, 64)\<close>; \<open>None\<close> is a non-nil error (syntax or range).\<close>

definition ParseInt :: "string \<Rightarrow> int option" where
  "ParseInt s =
     (case s of
        [] \<Rightarrow> None
      | c # cs \<Rightarrow>
          (let v = (if c = CHR ''-'' then map_option uminus (parse_digits cs)
                    else if c = CHR ''+'' then parse_digits cs
                    else parse_digits s)
           in case v of None \<Rightarrow> None | Some i \<Rightarrow> if is_int64 i then Some i else None))"

fun format_nat :: "nat \<Rightarrow> string" where
  "format_nat n =
     (if n < 10 then [char_of (48 + n)] else format_nat (n div 10) @ [char_of (48 + n mod 10)])"

declare format_nat.simps [simp del]

text \<open>\<open>strconv.FormatInt(i, 10)\<close> and \<open>strconv.Itoa\<close>.\<close>

definition FormatInt :: "int \<Rightarrow> string" where
  "FormatInt i = (if i < 0 then CHR ''-'' # format_nat (nat (- i)) else format_nat (nat i))"

section \<open>encoding/base64\<close>

text \<open>The alphabet \<^verbatim>\<open>A-Z a-z 0-9 + /\<close>.\<close>

definition b64_char :: "nat \<Rightarrow> char" where
  "b64_char n = char_of
     (if n < 26 then n + 65 else if n < 52 then n + 71 else if n < 62 then n - 4
      else if n = 62 then 43 else 47)"

definition b64_val :: "char \<Rightarrow> nat option" where
  "b64_val c =
     (let n = of_char c in
      if 65 \<le> n \<and> n \<le> 90 then Some (n - 65)
      else if 97 \<le> n \<and> n \<le> 122 then Some (n - 71)
      else if 48 \<le> n \<and> n \<le> 57 then Some (n + 4)
      else if n = 43 then Some 62
      else if n = 47 then Some 63
      else None)"

definition b64_pad :: char where
  "b64_pad = CHR ''=''"

text \<open>\<open>base64.StdEncoding.EncodeToString\<close>.\<close>

fun b64_encode :: "bytes \<Rightarrow> string" where
  "b64_encode [] = []"
| "b64_encode [a] =
     (let n = of_char a * 65536
      in [b64_char (n div 262144), b64_char (n div 4096 mod 64), b64_pad, b64_pad])"
| "b64_encode [a, b] =
     (let n = of_char a * 65536 + of_char b * 256
      in [b64_char (n div 262144), b64_char (n div 4096 mod 64), b64_char (n div 64 mod 64), b64_pad])"
| "b64_encode (a # b # c # rest) =
     (let n = of_char a * 65536 + of_char b * 256 + of_char c
      in b64_char (n div 262144) # b64_char (n div 4096 mod 64) #
         b64_char (n div 64 mod 64) # b64_char (n mod 64) # b64_encode rest)"

text \<open>
  \<open>base64.StdEncoding.DecodeString\<close>: carriage returns and newlines are skipped, padding
  is required, and only the last group of four may be padded. \<open>None\<close> is a
  \<open>CorruptInputError\<close>.
\<close>

fun b64_groups :: "string \<Rightarrow> bytes option" where
  "b64_groups [] = Some []"
| "b64_groups (a # b # c # d # rest) =
     (case (b64_val a, b64_val b) of
        (Some x, Some y) \<Rightarrow>
          (if c = b64_pad then
             (if d = b64_pad \<and> rest = [] then Some [char_of (x * 4 + y div 16)] else None)
           else (case b64_val c of
             None \<Rightarrow> None
           | Some z \<Rightarrow>
               (if d = b64_pad then
                  (if rest = [] then Some [char_of (x * 4 + y div 16),
                                           char_of (y mod 16 * 16 + z div 4)] else None)
                else (case b64_val d of
                  None \<Rightarrow> None
                | Some u \<Rightarrow>
                    map_option (\<lambda>r. char_of (x * 4 + y div 16) #
                                    char_of (y mod 16 * 16 + z div 4) #
                                    char_of (z mod 4 * 64 + u) # r) (b64_groups rest)))))
      | _ \<Rightarrow> None)"
| "b64_groups s = None"

definition b64_decode :: "string \<Rightarrow> bytes option" where
  "b64_decode s = b64_groups (filter (\<lambda>c. c \<noteq> CHR 0x0A \<and> c \<noteq> CHR 0x0D) s)"

section \<open>encoding/hex\<close>

definition hex_char :: "nat \<Rightarrow> char" where
  "hex_char n = ''0123456789abcdef'' ! n"

fun hex_encode :: "bytes \<Rightarrow> string" where
  "hex_encode [] = []"
| "hex_encode (b # bs) =
     hex_char (of_char b div 16) # hex_char (of_char b mod 16) # hex_encode bs"

section \<open>path/filepath on Unix\<close>

fun clean_step :: "bool \<Rightarrow> string list \<Rightarrow> string \<Rightarrow> string list" where
  "clean_step rooted stack part =
     (if part = [] \<or> part = ''.'' then stack
      else if part = ''..'' then
        (case stack of
           [] \<Rightarrow> if rooted then [] else [''..'']
         | t # rest \<Rightarrow> if t = ''..'' then ''..'' # stack else rest)
      else part # stack)"

text \<open>\<open>filepath.Clean\<close>: the component stack is kept in reverse.\<close>

definition Clean :: "string \<Rightarrow> string" where
  "Clean p =
     (if p = [] then ''.''
      else let rooted = (hd p = CHR ''/'');
               stack = foldl (clean_step rooted) [] (Split (CHR ''/'') p);
               body = Join ''/'' (rev stack)
           in if rooted then CHR ''/'' # body else if body = [] then ''.'' else body)"

text \<open>\<open>filepath.Join\<close> of two elements, of which empty ones are ignored.\<close>

definition FilepathJoin :: "string \<Rightarrow> string \<Rightarrow> string" where
  "FilepathJoin a b =
     (if a = [] then (if b = [] then [] else Clean b)
      else if b = [] then Clean a else Clean (a @ ''/'' @ b))"

definition IsAbsPath :: "string \<Rightarrow> bool" where
  "IsAbsPath p = HasPrefix p ''/''"

text \<open>\<open>filepath.Dir\<close>: everything up to the last slash, cleaned.\<close>

definition FilepathDir :: "string \<Rightarrow> string" where
  "FilepathDir p =
     Clean (rev (dropWhile (\<lambda>c. c \<noteq> CHR ''/'') (rev p)))"

section \<open>unicode/utf8\<close>

definition in_range :: "char \<Rightarrow> nat \<Rightarrow> nat \<Rightarrow> bool" where
  "in_range c lo hi \<longleftrightarrow> lo \<le> (of_char c :: nat) \<and> (of_char c :: nat) \<le> hi"

text \<open>
  The number of bytes of the first UTF-8 encoded rune, as \<open>utf8.DecodeRuneInString\<close>
  accepts it; \<open>None\<close> for an invalid encoding (of which Go skips one byte).
\<close>

fun rune_len :: "string \<Rightarrow> nat option" where
  "rune_len [] = None"
| "rune_len (a # s) =
     (if in_range a 0 0x7F then Some 1
      else if in_range a 0xC2 0xDF then
        (case s of b # _ \<Rightarrow> if in_range b 0x80 0xBF then Some 2 else None | _ \<Rightarrow> None)
      else if in_range a 0xE0 0xEF then
        (case s of b # c # _ \<Rightarrow>
           (if in_range b (if a = CHR 0xE0 then 0xA0 else 0x80) (if a = CHR 0xED then 0x9F else 0xBF) \<and>
               in_range c 0x80 0xBF then Some 3 else None)
         | _ \<Rightarrow> None)
      else if in_range a 0xF0 0xF4 then
        (case s of b # c # d # _ \<Rightarrow>
           (if in_range b (if a = CHR 0xF0 then 0x90 else 0x80) (if a = CHR 0xF4 then 0x8F else 0xBF) \<and>
               in_range c 0x80 0xBF \<and> in_range d 0x80 0xBF then Some 4 else None)
         | _ \<Rightarrow> None)
      else None)"

text \<open>
  The runes of a string, as byte strings, and \<open>None\<close> for each byte that is not part of a
  valid encoding: what \<open>for _, r := range s\<close> visits.
\<close>

function runes :: "string \<Rightarrow> string option list" where
  "runes s =
     (if s = [] then []
      else case rune_len s of
        None \<Rightarrow> None # runes (drop 1 s)
      | Some n \<Rightarrow> Some (take (max 1 n) s) # runes (drop (max 1 n) s))"
  by pat_completeness auto
termination
  by (relation "measure length") auto

declare runes.simps [simp del]

text \<open>\<open>encoding/json\<close> writes U+FFFD for every invalid byte of a string.\<close>

definition to_valid_utf8 :: "string \<Rightarrow> string" where
  "to_valid_utf8 s =
     concat (map (\<lambda>r. case r of None \<Rightarrow> [CHR 0xEF, CHR 0xBF, CHR 0xBD] | Some e \<Rightarrow> e) (runes s))"

definition valid_utf8 :: "string \<Rightarrow> bool" where
  "valid_utf8 s \<longleftrightarrow> list_all (\<lambda>r. r \<noteq> None) (runes s)"

section \<open>net/http: canonical header names\<close>

definition is_lower_char :: "char \<Rightarrow> bool" where
  "is_lower_char c \<longleftrightarrow> in_range c 97 122"

definition is_upper_char :: "char \<Rightarrow> bool" where
  "is_upper_char c \<longleftrightarrow> in_range c 65 90"

definition valid_header_byte :: "char \<Rightarrow> bool" where
  "valid_header_byte c \<longleftrightarrow> is_lower_char c \<or> is_upper_char c \<or> is_digit c \<or>
     List.member ([CHR ''!'', CHR ''#'', CHR ''$'', CHR ''%'', CHR ''&'', CHR 0x27, CHR ''*'',
       CHR ''+'', CHR ''-'', CHR ''.'', CHR ''^'', CHR ''_'', CHR 0x60, CHR ''|'', CHR ''~'']) c"

fun canon_from :: "bool \<Rightarrow> string \<Rightarrow> string" where
  "canon_from upper [] = []"
| "canon_from upper (c # cs) =
     (let c' = (if upper \<and> is_lower_char c then char_of (of_char c - 32 :: nat)
                else if \<not> upper \<and> is_upper_char c then char_of (of_char c + 32 :: nat)
                else c)
      in c' # canon_from (c' = CHR ''-'') cs)"

text \<open>\<open>textproto.CanonicalMIMEHeaderKey\<close>.\<close>

definition CanonicalHeaderKey :: "string \<Rightarrow> string" where
  "CanonicalHeaderKey s = (if list_all valid_header_byte s then canon_from True s else s)"

section \<open>Facts\<close>

lemma of_char_less [simp]: "(of_char c :: nat) < 256"
  using of_char_mod_256 by (metis mod_less_divisor zero_less_numeral)

lemma of_char_char_of_nat [simp]: "n < 256 \<Longrightarrow> of_char (char_of n :: char) = (n :: nat)"
  by (simp add: of_char_of)

lemma of_char_b64_char:
  "n < 64 \<Longrightarrow> (of_char (b64_char n) :: nat) =
     (if n < 26 then n + 65 else if n < 52 then n + 71 else if n < 62 then n - 4
      else if n = 62 then 43 else 47)"
  by (simp add: b64_char_def)

lemma b64_val_char [simp]: "n < 64 \<Longrightarrow> b64_val (b64_char n) = Some n"
  by (auto simp: b64_val_def of_char_b64_char Let_def)

lemma b64_char_neq [simp]:
  assumes "n < 64"
  shows "b64_char n \<noteq> b64_pad" "b64_char n \<noteq> CHR 0x0A" "b64_char n \<noteq> CHR 0x0D"
  using of_char_b64_char [OF assms] by (auto simp: b64_pad_def split: if_splits)

lemma b64_digits:
  fixes a b c :: nat
  assumes abc: "a < 256" "b < 256" "c < 256" and n: "n = a * 65536 + b * 256 + c"
  shows "n div 262144 < 64"
    and "n div 262144 * 4 + n div 4096 mod 64 div 16 = a"
    and "n div 4096 mod 64 mod 16 * 16 + n div 64 mod 64 div 4 = b"
    and "n div 64 mod 64 mod 4 * 64 + n mod 64 = c"
proof -
  have m1: "m mod 64 div 16 = m div 16 mod 4" and m2: "m mod 64 mod 16 = m mod 16" for m :: nat
    using mod_mult2_eq [of m 16 4] by simp_all
  have m3: "m mod 64 div 4 = m div 4 mod 16" and m4: "m mod 64 mod 4 = m mod 4" for m :: nat
    using mod_mult2_eq [of m 4 16] by simp_all
  have "n < 16777216" using abc n by simp
  then show "n div 262144 < 64" by simp
  have n': "n = c + (a * 256 + b) * 256" using n by simp
  have q: "n div 256 = b + a * 256" and c: "n mod 256 = c"
    using abc unfolding n' by (simp_all only: div_mult_self1 mod_mult_self1) simp_all
  have b: "n div 256 mod 256 = b" and "n div 256 div 256 = a"
    using abc unfolding q by (simp_all only: div_mult_self1 mod_mult_self1) simp_all
  then have a: "n div 65536 = a" by (simp add: div_mult2_eq [symmetric])
  have "n div 262144 * 4 + n div 4096 mod 64 div 16 = n div 65536 div 4 * 4 + n div 65536 mod 4"
    by (simp add: m1 div_mult2_eq [symmetric])
  then show "n div 262144 * 4 + n div 4096 mod 64 div 16 = a"
    by (simp add: a)
  have "n div 4096 mod 64 mod 16 * 16 + n div 64 mod 64 div 4 =
      n div 256 div 16 mod 16 * 16 + n div 256 mod 16"
    by (simp add: m2 m3 div_mult2_eq [symmetric])
  also have "\<dots> = n div 256 mod 256"
    using mod_mult2_eq [of "n div 256" 16 16] by simp
  finally show "n div 4096 mod 64 mod 16 * 16 + n div 64 mod 64 div 4 = b"
    by (simp add: b)
  have "n div 64 mod 64 mod 4 * 64 + n mod 64 = n div 64 mod 4 * 64 + n mod 64"
    by (simp add: m4)
  also have "\<dots> = n mod 256"
    using mod_mult2_eq [of n 64 4] by simp
  finally show "n div 64 mod 64 mod 4 * 64 + n mod 64 = c" by (simp add: c)
qed

lemma b64_groups_full:
  assumes "x < 64" "y < 64" "z < 64" "u < 64"
  shows "b64_groups (b64_char x # b64_char y # b64_char z # b64_char u # rest) =
    map_option (\<lambda>r. char_of (x * 4 + y div 16) # char_of (y mod 16 * 16 + z div 4) #
                   char_of (z mod 4 * 64 + u) # r) (b64_groups rest)"
  using assms by simp

lemma b64_groups_pad1:
  assumes "x < 64" "y < 64" "z < 64"
  shows "b64_groups [b64_char x, b64_char y, b64_char z, b64_pad] =
    Some [char_of (x * 4 + y div 16), char_of (y mod 16 * 16 + z div 4)]"
  using assms by simp

lemma b64_groups_pad2:
  assumes "x < 64" "y < 64"
  shows "b64_groups [b64_char x, b64_char y, b64_pad, b64_pad] = Some [char_of (x * 4 + y div 16)]"
  using assms by simp

lemma b64_groups_encode: "b64_groups (b64_encode bs) = Some bs"
proof (induction bs rule: b64_encode.induct)
  case 1
  show ?case by simp
next
  case (2 a)
  define n where "n = of_char a * 65536 + 0 * 256 + (0 :: nat)"
  note d = b64_digits [OF of_char_less _ _ n_def]
  have "of_char a * 65536 = n" by (simp add: n_def)
  with d show ?case
    by (simp only: b64_encode.simps Let_def) (simp add: b64_groups_pad2)
next
  case (3 a b)
  define n where "n = of_char a * 65536 + of_char b * 256 + (0 :: nat)"
  note d = b64_digits [OF of_char_less of_char_less _ n_def]
  have "of_char a * 65536 + of_char b * 256 = n" by (simp add: n_def)
  with d show ?case
    by (simp only: b64_encode.simps Let_def) (simp add: b64_groups_pad1)
next
  case (4 a b c rest)
  define n where "n = of_char a * 65536 + of_char b * 256 + (of_char c :: nat)"
  note d = b64_digits [OF of_char_less of_char_less of_char_less n_def]
  show ?case
    using d 4 by (simp add: Let_def b64_groups_full flip: n_def)
qed

lemma of_char_b64_pad: "of_char b64_pad = (61 :: nat)"
  by (simp add: b64_pad_def)

definition is_b64 :: "char \<Rightarrow> bool" where
  "is_b64 c \<longleftrightarrow> c = b64_pad \<or> (\<exists>n<64. c = b64_char n)"

lemma is_b64_intros [simp]: "is_b64 b64_pad" "n < 64 \<Longrightarrow> is_b64 (b64_char n)" "is_b64 (b64_char (m mod 64))"
  by (auto simp: is_b64_def) (metis mod_less_divisor zero_less_numeral)

lemma b64_encode_chars: "list_all is_b64 (b64_encode bs)"
proof (induction bs rule: b64_encode.induct)
  case (2 a)
  have "of_char a * 65536 div 262144 < (64 :: nat)"
    using b64_digits(1) [OF of_char_less [of a] _ _ refl, of 0 0] by simp
  then show ?case by (simp add: Let_def del: mult_Suc)
next
  case (3 a b)
  have "(of_char a * 65536 + of_char b * 256) div 262144 < (64 :: nat)"
    using b64_digits(1) [OF of_char_less [of a] of_char_less [of b] _ refl, of 0] by simp
  then show ?case by (simp add: Let_def)
next
  case (4 a b c rest)
  have "(of_char a * 65536 + of_char b * 256 + of_char c) div 262144 < (64 :: nat)"
    using b64_digits(1) [OF of_char_less of_char_less of_char_less refl] .
  with 4 show ?case by (simp add: Let_def)
qed simp

text \<open>No character of an encoded value is a newline, a space or a comma.\<close>

lemma b64_encode_safe:
  assumes "c \<in> set (b64_encode bs)"
  shows "(of_char c :: nat) \<in> {43, 47, 61} \<union> {48..57} \<union> {65..90} \<union> {97..122}"
  using b64_encode_chars [of bs] assms
  by (auto simp: list_all_iff is_b64_def of_char_b64_char of_char_b64_pad split: if_splits)

lemma b64_decode_encode [simp]: "b64_decode (b64_encode bs) = Some bs"
proof -
  have "filter (\<lambda>c. c \<noteq> CHR 0x0A \<and> c \<noteq> CHR 0x0D) (b64_encode bs) = b64_encode bs"
    by (rule filter_True) (use b64_encode_safe in fastforce)
  then show ?thesis by (simp add: b64_decode_def b64_groups_encode)
qed

text \<open>Decimal numbers: parsing undoes formatting.\<close>

lemma digits_value_snoc: "digits_value (s @ [c]) = 10 * digits_value s + (of_char c - 48)"
  by (simp add: digits_value_def)

lemma of_char_int: "(of_char c :: int) = int (of_char c)"
  by (cases c) (simp add: of_char_Char)

lemma format_nat_digits: "list_all is_digit (format_nat n) \<and> format_nat n \<noteq> []"
proof (induction n rule: format_nat.induct)
  case (1 n)
  have "is_digit (char_of (48 + m))" if "m < 10" for m :: nat
    using that by (simp add: is_digit_def)
  with 1 show ?case by (subst (1 2) format_nat.simps) simp
qed

lemma digits_value_format: "digits_value (format_nat n) = int n"
proof (induction n rule: format_nat.induct)
  case (1 n)
  have d: "(of_char (char_of (48 + m) :: char) :: int) - 48 = int m" if "m < 10" for m :: nat
    using that by (simp add: of_char_int)
  show ?case
  proof (cases "n < 10")
    case True
    then show ?thesis by (subst format_nat.simps) (simp add: digits_value_def d)
  next
    case False
    with 1 have "digits_value (format_nat (n div 10)) = int (n div 10)" by simp
    with False show ?thesis
      using div_mult_mod_eq [of "int n" 10]
      by (subst format_nat.simps) (simp add: digits_value_snoc d zdiv_int zmod_int)
  qed
qed

lemma parse_digits_format: "parse_digits (format_nat n) = Some (int n)"
  using format_nat_digits by (simp add: parse_digits_def digits_value_format)

lemma hd_format_nat: "is_digit (hd (format_nat n))"
  using format_nat_digits [of n] by (cases "format_nat n") auto

lemma ParseInt_FormatInt: "is_int64 i \<Longrightarrow> ParseInt (FormatInt i) = Some i"
proof -
  assume i: "is_int64 i"
  show ?thesis
  proof (cases "i < 0")
    case True
    with i show ?thesis by (simp add: ParseInt_def FormatInt_def parse_digits_format)
  next
    case False
    obtain c cs where f: "format_nat (nat i) = c # cs"
      using format_nat_digits [of "nat i"] by (cases "format_nat (nat i)") auto
    with hd_format_nat [of "nat i"] have "is_digit c" by simp
    then have "c \<noteq> CHR ''-''" "c \<noteq> CHR ''+''" by (auto simp: is_digit_def)
    with False i f show ?thesis
      using parse_digits_format [of "nat i"] by (simp add: ParseInt_def FormatInt_def)
  qed
qed

lemma digits_value_nonneg: "list_all is_digit s \<Longrightarrow> 0 \<le> digits_value s"
proof (induction s rule: rev_induct)
  case (snoc c s)
  then have "0 \<le> digits_value s" and "(of_char c :: int) - 48 \<ge> 0"
    by (auto simp: is_digit_def of_char_int)
  then show ?case by (simp add: digits_value_snoc)
qed (simp add: digits_value_def)

lemma ParseInt_int64: "ParseInt s = Some i \<Longrightarrow> is_int64 i"
  by (auto simp: ParseInt_def Let_def split: list.splits option.splits if_splits)

text \<open>Splitting and joining at a character.\<close>

lemma Split_not_Nil [simp]: "Split c s \<noteq> []"
  by (induction c s rule: Split.induct) (auto split: list.splits)

lemma Split_no_sep: "c \<notin> set s \<Longrightarrow> Split c s = [s]"
  by (induction s) auto

lemma Split_append_sep: "c \<notin> set a \<Longrightarrow> Split c (a @ c # b) = a # Split c b"
  by (induction a) auto

lemma Split_Join:
  "xs \<noteq> [] \<Longrightarrow> (\<forall>x \<in> set xs. c \<notin> set x) \<Longrightarrow> Split c (Join [c] xs) = xs"
  by (induction "[c]" xs rule: Join.induct) (auto simp: Split_no_sep Split_append_sep)

lemma Join_Split: "Join [c] (Split c s) = s"
proof (induction c s rule: Split.induct)
  case (2 c x xs)
  obtain y ys where y: "Split c xs = y # ys" by (cases "Split c xs") auto
  with 2 show ?case by (cases ys) auto
qed simp

lemma Split_parts: "x \<in> set (Split c s) \<Longrightarrow> c \<notin> set x"
proof (induction c s arbitrary: x rule: Split.induct)
  case (2 c y ys)
  obtain z zs where z: "Split c ys = z # zs" by (cases "Split c ys") auto
  with 2 show ?case by (auto split: if_splits)
qed simp

text \<open>The two halves of a cut, and where the separator was first found.\<close>

lemma Cut_Some: "Cut s sep = Some (a, b) \<Longrightarrow> s = a @ sep @ b"
proof (induction s sep arbitrary: a rule: Cut.induct)
  case (2 c cs sep)
  then show ?case
    by (auto split: if_splits simp: prefix_def)
qed (auto split: if_splits)

lemma Cut_prefix: "prefix sep s \<Longrightarrow> Cut s sep = Some ([], drop (length sep) s)"
  by (cases s) (auto simp: prefix_def)

lemma Cut_None: "Cut s sep = None \<longleftrightarrow> \<not> (\<exists>a b. s = a @ sep @ b)"
proof
  assume "Cut s sep = None"
  then show "\<not> (\<exists>a b. s = a @ sep @ b)"
  proof (induction s sep rule: Cut.induct)
    case (2 c cs sep)
    then show ?case
      by (auto split: if_splits simp: prefix_def Cons_eq_append_conv)
  qed (auto split: if_splits)
next
  assume "\<not> (\<exists>a b. s = a @ sep @ b)"
  then show "Cut s sep = None" using Cut_Some [of s sep] by (cases "Cut s sep") auto
qed

lemma LastIndex_None: "LastIndex s c = None \<longleftrightarrow> c \<notin> set s"
  by (induction s) (auto split: option.splits)

lemma LastIndex_append: "c \<notin> set b \<Longrightarrow> LastIndex (a @ c # b) c = Some (length a)"
proof (induction a)
  case Nil
  then have "LastIndex b c = None" by (simp add: LastIndex_None)
  then show ?case by simp
qed simp

lemma TrimSuffix_append [simp]: "TrimSuffix (s @ p) p = s"
  by (simp add: TrimSuffix_def suffix_def)

text \<open>Trimming slashes.\<close>

lemma dropWhile_id: "s = [] \<or> \<not> P (hd s) \<Longrightarrow> dropWhile P s = s"
  by (cases s) auto

lemma TrimChar_id:
  "s = [] \<or> hd s \<noteq> c \<and> last s \<noteq> c \<Longrightarrow> TrimChar c s = s"
  by (auto simp: TrimChar_def dropWhile_id hd_rev)

lemma dropWhile_hd: "dropWhile P s = [] \<or> \<not> P (hd (dropWhile P s))"
  using hd_dropWhile [of P s] by blast

lemma dropWhile_last: "dropWhile P s \<noteq> [] \<Longrightarrow> last (dropWhile P s) = last s"
  by (induction s) auto

lemma TrimChar_ends:
  "TrimChar c s = [] \<or> hd (TrimChar c s) \<noteq> c \<and> last (TrimChar c s) \<noteq> c"
proof (cases "TrimChar c s = []")
  case False
  let ?a = "dropWhile (\<lambda>x. x = c) s"
  let ?b = "dropWhile (\<lambda>x. x = c) (rev ?a)"
  from False have b: "?b \<noteq> []" by (simp add: TrimChar_def)
  then have a: "?a \<noteq> []" by (metis dropWhile.simps(1) rev.simps(1))
  have "hd ?b \<noteq> c" using dropWhile_hd [of "\<lambda>x. x = c" "rev ?a"] b by blast
  moreover have "last ?b = hd ?a" using dropWhile_last [OF b] a by (simp add: last_rev)
  moreover have "hd ?a \<noteq> c" using dropWhile_hd [of "\<lambda>x. x = c" s] a by blast
  ultimately show ?thesis using b by (simp add: TrimChar_def hd_rev last_rev)
qed simp

lemma TrimChar_idem [simp]: "TrimChar c (TrimChar c s) = TrimChar c s"
  using TrimChar_ends TrimChar_id by blast

end
