(* ===== verification/HttpTypes.thy ===== *)
theory HttpTypes
  imports GoLib
begin

text \<open>
  The HTTP side of the handler package: responses and their merging
  (\<^verbatim>\<open>pkg/handler/http.go\<close>), errors that carry a response (\<^verbatim>\<open>error.go\<close> and the error
  values of \<^verbatim>\<open>unrouted_handler.go\<close>), the request and the response writer of
  \<^verbatim>\<open>net/http\<close> as far as the handlers see them, and the usage counters
  (\<^verbatim>\<open>metrics.go\<close>).
\<close>

section \<open>Responses\<close>

type_synonym HTTPHeader = "string gomap"

record HTTPResponse =
  StatusCode :: int
  Body :: string
  Header :: HTTPHeader

text \<open>The zero value \<^verbatim>\<open>HTTPResponse{}\<close>.\<close>

definition emptyResponse :: HTTPResponse where
  "emptyResponse = \<lparr>StatusCode = 0, Body = [], Header = []\<rparr>"

definition MergeWith :: "HTTPResponse \<Rightarrow> HTTPResponse \<Rightarrow> HTTPResponse" where
  "MergeWith resp1 resp2 =
     \<lparr>StatusCode = (if StatusCode resp2 \<noteq> 0 then StatusCode resp2 else StatusCode resp1),
      Body = (if length (Body resp2) > 0 then Body resp2 else Body resp1),
      Header = map_copy (map_copy [] (Header resp1)) (Header resp2)\<rparr>"

text \<open>Setting one header of a response: \<^verbatim>\<open>resp.Header[k] = v\<close>.\<close>

definition set_header :: "string \<Rightarrow> string \<Rightarrow> HTTPResponse \<Rightarrow> HTTPResponse" where
  "set_header k v resp = resp\<lparr>Header := map_set k v (Header resp)\<rparr>"

section \<open>Errors\<close>

record Error =
  ErrorCode :: string
  Message :: string
  HTTPResp :: HTTPResponse

text \<open>The method \<^verbatim>\<open>Error\<close> of an \<^verbatim>\<open>Error\<close>: its text.\<close>

definition Error_text :: "Error \<Rightarrow> string" where
  "Error_text e = ErrorCode e @ '': '' @ Message e"

definition Error_Is :: "Error \<Rightarrow> Error \<Rightarrow> bool" where
  "Error_Is e1 e2 \<longleftrightarrow> ErrorCode e1 = ErrorCode e2"

definition NewError :: "string \<Rightarrow> string \<Rightarrow> int \<Rightarrow> Error" where
  "NewError errCode message statusCode =
     \<lparr>ErrorCode = errCode, Message = message,
      HTTPResp = \<lparr>StatusCode = statusCode,
                  Body = errCode @ '': '' @ message @ [CHR 0x0A],
                  Header = [(''Content-Type'', ''text/plain; charset=utf-8'')]\<rparr>\<rparr>"

text \<open>
  The values of Go's interface type \<^verbatim>\<open>error\<close> that reach the handler: a tusd
  \<open>Error\<close>, the sentinel errors of \<^verbatim>\<open>io\<close> and \<^verbatim>\<open>net/http\<close> that the sources compare
  with, a network error with its timeout flags, a missing file, an error that wraps another
  (\<^verbatim>\<open>%w\<close>), and any other error by its text. \<open>Panic\<close> is a run-time panic, which
  \<^verbatim>\<open>net/http\<close> turns into an aborted connection.
\<close>

datatype err =
    TusError Error
  | PlainError string
  | WrappedError string err
  | EOF
  | IoUnexpectedEOF
  | IoClosedPipe
  | BodyReadAfterClose
  | MaxBytesError
  | NetError string bool bool
  | NotExistError string
  | Panic string

fun err_text :: "err \<Rightarrow> string" where
  "err_text (TusError e) = Error_text e"
| "err_text (PlainError s) = s"
| "err_text (WrappedError s e) = s @ err_text e"
| "err_text EOF = ''EOF''"
| "err_text IoUnexpectedEOF = ''unexpected EOF''"
| "err_text IoClosedPipe = ''io: read/write on closed pipe''"
| "err_text BodyReadAfterClose = ''http: invalid Read on closed Body''"
| "err_text MaxBytesError = ''http: request body too large''"
| "err_text (NetError s timeout deadline) = s"
| "err_text (NotExistError s) = s"
| "err_text (Panic s) = s"

text \<open>\<^verbatim>\<open>errors.As\<close> with a target of type \<open>Error\<close>, and \<^verbatim>\<open>errors.Is\<close> with such a target.\<close>

fun as_Error :: "err \<Rightarrow> Error option" where
  "as_Error (TusError e) = Some e"
| "as_Error (WrappedError s e) = as_Error e"
| "as_Error _ = None"

definition errors_Is :: "err option \<Rightarrow> Error \<Rightarrow> bool" where
  "errors_Is e target =
     (case e of None \<Rightarrow> False
      | Some x \<Rightarrow> (case as_Error x of None \<Rightarrow> False | Some y \<Rightarrow> Error_Is y target))"

definition ErrUnsupportedVersion :: Error where
  "ErrUnsupportedVersion = NewError ''ERR_UNSUPPORTED_VERSION'' ''missing, invalid or unsupported Tus-Resumable header'' 412"

definition ErrMaxSizeExceeded :: Error where
  "ErrMaxSizeExceeded = NewError ''ERR_MAX_SIZE_EXCEEDED'' ''maximum size exceeded'' 413"

definition ErrInvalidContentType :: Error where
  "ErrInvalidContentType = NewError ''ERR_INVALID_CONTENT_TYPE'' ''missing or invalid Content-Type header'' 400"

definition ErrInvalidUploadLength :: Error where
  "ErrInvalidUploadLength = NewError ''ERR_INVALID_UPLOAD_LENGTH'' ''missing or invalid Upload-Length header'' 400"

definition ErrInvalidOffset :: Error where
  "ErrInvalidOffset = NewError ''ERR_INVALID_OFFSET'' ''missing or invalid Upload-Offset header'' 400"

definition ErrNotFound :: Error where
  "ErrNotFound = NewError ''ERR_UPLOAD_NOT_FOUND'' ''upload not found'' 404"

definition ErrFileLocked :: Error where
  "ErrFileLocked = NewError ''ERR_UPLOAD_LOCKED'' ''file currently locked'' 423"

definition ErrLockTimeout :: Error where
  "ErrLockTimeout = NewError ''ERR_LOCK_TIMEOUT'' ''failed to acquire lock before timeout'' 500"

definition ErrMismatchOffset :: Error where
  "ErrMismatchOffset = NewError ''ERR_MISMATCHED_OFFSET'' ''mismatched offset'' 409"

definition ErrSizeExceeded :: Error where
  "ErrSizeExceeded = NewError ''ERR_UPLOAD_SIZE_EXCEEDED'' (''upload'' @ [CHR 0x27] @ ''s size exceeded'') 413"

definition ErrNotImplemented :: Error where
  "ErrNotImplemented = NewError ''ERR_NOT_IMPLEMENTED'' ''feature not implemented'' 501"

definition ErrUploadNotFinished :: Error where
  "ErrUploadNotFinished = NewError ''ERR_UPLOAD_NOT_FINISHED'' ''one of the partial uploads is not finished'' 400"

definition ErrInvalidConcat :: Error where
  "ErrInvalidConcat = NewError ''ERR_INVALID_CONCAT'' ''invalid Upload-Concat header'' 400"

definition ErrConcatenationUnsupported :: Error where
  "ErrConcatenationUnsupported = NewError ''ERR_CONCATENATION_UNSUPPORTED'' ''Upload-Concat header is not supported by server'' 400"

definition ErrModifyFinal :: Error where
  "ErrModifyFinal = NewError ''ERR_MODIFY_FINAL'' ''modifying a final upload is not allowed'' 403"

definition ErrUploadLengthAndUploadDeferLength :: Error where
  "ErrUploadLengthAndUploadDeferLength = NewError ''ERR_AMBIGUOUS_UPLOAD_LENGTH'' ''provided both Upload-Length and Upload-Defer-Length'' 400"

definition ErrInvalidUploadDeferLength :: Error where
  "ErrInvalidUploadDeferLength = NewError ''ERR_INVALID_UPLOAD_LENGTH_DEFER'' ''invalid Upload-Defer-Length header'' 400"

definition ErrUploadStoppedByServer :: Error where
  "ErrUploadStoppedByServer = NewError ''ERR_UPLOAD_STOPPED'' ''upload has been stopped by server'' 400"

definition ErrUploadRejectedByServer :: Error where
  "ErrUploadRejectedByServer = NewError ''ERR_UPLOAD_REJECTED'' ''upload creation has been rejected by server'' 400"

definition ErrUploadTerminationRejected :: Error where
  "ErrUploadTerminationRejected = NewError ''ERR_UPLOAD_TERMINATION_REJECTED'' ''upload termination has been rejected by server'' 400"

definition ErrUploadInterrupted :: Error where
  "ErrUploadInterrupted = NewError ''ERR_UPLOAD_INTERRUPTED'' ''upload has been interrupted by another request for this upload resource'' 400"

definition ErrServerShutdown :: Error where
  "ErrServerShutdown = NewError ''ERR_SERVER_SHUTDOWN'' ''request has been interrupted because the server is shutting down'' 503"

definition ErrOriginNotAllowed :: Error where
  "ErrOriginNotAllowed = NewError ''ERR_ORIGIN_NOT_ALLOWED'' ''request origin is not allowed'' 403"

definition ErrUnexpectedEOF :: Error where
  "ErrUnexpectedEOF = NewError ''ERR_UNEXPECTED_EOF'' ''server expected to receive more bytes'' 400"

definition ErrReadTimeout :: Error where
  "ErrReadTimeout = NewError ''ERR_READ_TIMEOUT'' ''timeout while reading request body'' 500"

definition ErrConnectionReset :: Error where
  "ErrConnectionReset = NewError ''ERR_CONNECTION_RESET'' ''TCP connection reset by peer'' 500"

section \<open>Requests\<close>

text \<open>
  What a read of the request body meets next: bytes that have arrived, possibly together
  with an error of the connection, or the closing of the body with an error by the goroutine
  of \<^verbatim>\<open>context.go\<close> (an interrupted, stopped or shut down request).
\<close>

datatype body_event = Chunk bytes "err option" | CloseWith err

text \<open>
  An incoming \<^verbatim>\<open>http.Request\<close>. Header names are stored in canonical form, as
  \<^verbatim>\<open>net/http\<close> does; the body is the sequence of events its reader will meet;
  \<open>ProgressSamples\<close> are the byte counts that the progress goroutine observes at its
  ticks and at the end of the request.
\<close>

record Request =
  Method :: string
  URLPath :: string
  ReqHeader :: "string list gomap"
  ContentLength :: int
  ReqBody :: "body_event list option"
  Host :: string
  UsesTLS :: bool
  RequestURI :: string
  RemoteAddr :: string
  ProgressSamples :: "int list"

definition header_Get :: "string list gomap \<Rightarrow> string \<Rightarrow> string" where
  "header_Get h k =
     (case map_of h (CanonicalHeaderKey k) of Some (v # vs) \<Rightarrow> v | _ \<Rightarrow> [])"

definition header_Set :: "string \<Rightarrow> string \<Rightarrow> string list gomap \<Rightarrow> string list gomap" where
  "header_Set k v h = map_set (CanonicalHeaderKey k) [v] h"

definition header_Add :: "string \<Rightarrow> string \<Rightarrow> string list gomap \<Rightarrow> string list gomap" where
  "header_Add k v h =
     (case map_of h (CanonicalHeaderKey k) of
        None \<Rightarrow> map_set (CanonicalHeaderKey k) [v] h
      | Some vs \<Rightarrow> map_set (CanonicalHeaderKey k) (vs @ [v]) h)"

definition header_Del :: "string \<Rightarrow> string list gomap \<Rightarrow> string list gomap" where
  "header_Del k h = map_del (CanonicalHeaderKey k) h"

abbreviation req_header :: "Request \<Rightarrow> string \<Rightarrow> string" where
  "req_header r k \<equiv> header_Get (ReqHeader r) k"

text \<open>The request details passed to hooks.\<close>

record HTTPRequest =
  hr_Method :: string
  hr_URI :: string
  hr_RemoteAddr :: string
  hr_Header :: "string list gomap"

section \<open>The response writer\<close>

text \<open>
  \<^verbatim>\<open>http.ResponseWriter\<close>: the header map, the interim (1xx) responses sent, the final
  status with the headers sent with it, and the bytes given to \<^verbatim>\<open>Write\<close>.
  \<open>rw_panic\<close> records a status code that \<^verbatim>\<open>WriteHeader\<close> panics on.
\<close>

record ResponseWriter =
  rw_header :: "string list gomap"
  rw_interim :: "(int \<times> string list gomap) list"
  rw_status :: "(int \<times> string list gomap) option"
  rw_body :: bytes
  rw_panic :: bool

definition newResponseWriter :: ResponseWriter where
  "newResponseWriter =
     \<lparr>rw_header = [], rw_interim = [], rw_status = None, rw_body = [], rw_panic = False\<rparr>"

definition WriteHeader :: "int \<Rightarrow> ResponseWriter \<Rightarrow> ResponseWriter" where
  "WriteHeader code w =
     (if rw_status w \<noteq> None then w
      else if code < 100 \<or> code > 999 then w\<lparr>rw_panic := True\<rparr>
      else if code \<le> 199 \<and> code \<noteq> 101 then
        w\<lparr>rw_interim := rw_interim w @ [(code, rw_header w)]\<rparr>
      else w\<lparr>rw_status := Some (code, rw_header w)\<rparr>)"

definition rw_Write :: "bytes \<Rightarrow> ResponseWriter \<Rightarrow> ResponseWriter" where
  "rw_Write bs w =
     (let w' = (if rw_status w = None then WriteHeader 200 w else w)
      in w'\<lparr>rw_body := rw_body w' @ bs\<rparr>)"

definition set_rw_header :: "string \<Rightarrow> string \<Rightarrow> ResponseWriter \<Rightarrow> ResponseWriter" where
  "set_rw_header k v w = w\<lparr>rw_header := header_Set k v (rw_header w)\<rparr>"

definition add_rw_header :: "string \<Rightarrow> string \<Rightarrow> ResponseWriter \<Rightarrow> ResponseWriter" where
  "add_rw_header k v w = w\<lparr>rw_header := header_Add k v (rw_header w)\<rparr>"

definition writeTo :: "HTTPResponse \<Rightarrow> ResponseWriter \<Rightarrow> ResponseWriter" where
  "writeTo resp w =
     (let w1 = fold (\<lambda>(key, value) w. set_rw_header key value w) (Header resp) w;
          w2 = (if length (Body resp) > 0
                then set_rw_header ''Content-Length'' (FormatInt (int (length (Body resp)))) w1
                else w1);
          w3 = WriteHeader (StatusCode resp) w2
      in if length (Body resp) > 0 then rw_Write (Body resp) w3 else w3)"

section \<open>Metrics\<close>

type_synonym uint64 = "64 word"

record ErrorsTotalMapEntry =
  EntryErrorCode :: string
  EntryStatusCode :: int

type_synonym ErrorsTotalMap = "(ErrorsTotalMapEntry \<times> uint64) list"

record Metrics =
  RequestsTotal :: "uint64 gomap"
  ErrorsTotal :: ErrorsTotalMap
  BytesReceived :: uint64
  UploadsFinished :: uint64
  UploadsCreated :: uint64
  UploadsTerminated :: uint64

definition newMetrics :: Metrics where
  "newMetrics =
     \<lparr>RequestsTotal = [(''GET'', 0), (''HEAD'', 0), (''POST'', 0), (''PATCH'', 0),
                       (''DELETE'', 0), (''OPTIONS'', 0)],
      ErrorsTotal = [], BytesReceived = 0, UploadsFinished = 0, UploadsCreated = 0,
      UploadsTerminated = 0\<rparr>"

definition incRequestsTotal :: "string \<Rightarrow> Metrics \<Rightarrow> Metrics" where
  "incRequestsTotal method m =
     (case map_of (RequestsTotal m) method of
        Some v \<Rightarrow> m\<lparr>RequestsTotal := map_set method (v + 1) (RequestsTotal m)\<rparr>
      | None \<Rightarrow> m)"

definition errorEntry :: "Error \<Rightarrow> ErrorsTotalMapEntry" where
  "errorEntry e = \<lparr>EntryErrorCode = ErrorCode e, EntryStatusCode = StatusCode (HTTPResp e)\<rparr>"

text \<open>The counter of an error, created as zero when the map has none yet.\<close>

definition retrievePointerFor :: "Error \<Rightarrow> ErrorsTotalMap \<Rightarrow> ErrorsTotalMap" where
  "retrievePointerFor e m =
     (case map_of m (errorEntry e) of
        Some _ \<Rightarrow> m
      | None \<Rightarrow> AList.update (errorEntry e) 0 m)"

definition incErrorsTotal :: "Error \<Rightarrow> Metrics \<Rightarrow> Metrics" where
  "incErrorsTotal e m =
     (let et = retrievePointerFor e (ErrorsTotal m)
      in case map_of et (errorEntry e) of
           Some v \<Rightarrow> m\<lparr>ErrorsTotal := AList.update (errorEntry e) (v + 1) et\<rparr>
         | None \<Rightarrow> m\<lparr>ErrorsTotal := et\<rparr>)"

text \<open>\<^verbatim>\<open>ErrorsTotalMap.Load\<close>: a copy of the counters.\<close>

definition ErrorsTotal_Load :: "ErrorsTotalMap \<Rightarrow> ErrorsTotalMap" where
  "ErrorsTotal_Load m = fold (\<lambda>(k, v) acc. AList.update k v acc) m []"

definition incBytesReceived :: "uint64 \<Rightarrow> Metrics \<Rightarrow> Metrics" where
  "incBytesReceived delta m = m\<lparr>BytesReceived := BytesReceived m + delta\<rparr>"

definition incUploadsFinished :: "Metrics \<Rightarrow> Metrics" where
  "incUploadsFinished m = m\<lparr>UploadsFinished := UploadsFinished m + 1\<rparr>"

definition incUploadsCreated :: "Metrics \<Rightarrow> Metrics" where
  "incUploadsCreated m = m\<lparr>UploadsCreated := UploadsCreated m + 1\<rparr>"

definition incUploadsTerminated :: "Metrics \<Rightarrow> Metrics" where
  "incUploadsTerminated m = m\<lparr>UploadsTerminated := UploadsTerminated m + 1\<rparr>"

section \<open>Facts\<close>

lemmas tus_error_defs = NewError_def
  ErrUnsupportedVersion_def ErrMaxSizeExceeded_def ErrInvalidContentType_def ErrInvalidUploadLength_def ErrInvalidOffset_def ErrNotFound_def ErrFileLocked_def ErrLockTimeout_def ErrMismatchOffset_def ErrSizeExceeded_def ErrNotImplemented_def ErrUploadNotFinished_def ErrInvalidConcat_def ErrConcatenationUnsupported_def ErrModifyFinal_def ErrUploadLengthAndUploadDeferLength_def ErrInvalidUploadDeferLength_def ErrUploadStoppedByServer_def ErrUploadRejectedByServer_def ErrUploadTerminationRejected_def ErrUploadInterrupted_def ErrServerShutdown_def ErrOriginNotAllowed_def ErrUnexpectedEOF_def ErrReadTimeout_def ErrConnectionReset_def

lemma MergeWith_simps [simp]:
  "StatusCode (MergeWith r1 r2) = (if StatusCode r2 \<noteq> 0 then StatusCode r2 else StatusCode r1)"
  "Body (MergeWith r1 r2) = (if Body r2 \<noteq> [] then Body r2 else Body r1)"
  by (simp_all add: MergeWith_def)

lemma map_of_Header_MergeWith:
  assumes "wf_map (Header r1)" "wf_map (Header r2)"
  shows "map_of (Header (MergeWith r1 r2)) = map_of (Header r1) ++ map_of (Header r2)"
  using assms by (simp add: MergeWith_def map_of_copy)

lemma wf_Header_MergeWith [simp]: "wf_map (Header (MergeWith r1 r2))"
  by (simp add: MergeWith_def)

lemma set_header_simps [simp]:
  "StatusCode (set_header k v r) = StatusCode r"
  "Body (set_header k v r) = Body r"
  "map_of (Header (set_header k v r)) = (map_of (Header r))(k \<mapsto> v)"
  "wf_map (Header r) \<Longrightarrow> wf_map (Header (set_header k v r))"
  by (simp_all add: set_header_def)

text \<open>Only the first final status is sent; later ones are ignored.\<close>

lemma WriteHeader_sent: "rw_status w = Some s \<Longrightarrow> WriteHeader code w = w"
  by (simp add: WriteHeader_def)

lemma rw_status_Write: "rw_status w = Some s \<Longrightarrow> rw_status (rw_Write bs w) = Some s"
  by (simp add: rw_Write_def)

lemma set_rw_header_simps [simp]:
  "rw_status (set_rw_header k v w) = rw_status w"
  "rw_body (set_rw_header k v w) = rw_body w"
  "rw_status (add_rw_header k v w) = rw_status w"
  by (simp_all add: set_rw_header_def add_rw_header_def)

lemma fold_set_rw_header_status [simp]:
  "rw_status (fold (\<lambda>(k, v) w. set_rw_header k v w) kvs w) = rw_status w"
  by (induction kvs arbitrary: w) auto

lemma writeTo_status:
  assumes "rw_status w = None" "200 \<le> StatusCode resp" "StatusCode resp \<le> 999"
  shows "\<exists>h. rw_status (writeTo resp w) = Some (StatusCode resp, h)"
  using assms by (auto simp: writeTo_def Let_def WriteHeader_def rw_Write_def)

lemma writeTo_status_sent: "rw_status w = Some s \<Longrightarrow> rw_status (writeTo resp w) = Some s"
  by (auto simp: writeTo_def Let_def WriteHeader_def rw_Write_def)

lemma incErrorsTotal_count:
  "map_of (ErrorsTotal (incErrorsTotal e m)) (errorEntry e) =
     Some ((case map_of (ErrorsTotal m) (errorEntry e) of None \<Rightarrow> 0 | Some v \<Rightarrow> v) + 1)"
  by (auto simp: incErrorsTotal_def retrievePointerFor_def update_conv' Let_def split: option.splits)

lemma incErrorsTotal_other:
  "k \<noteq> errorEntry e \<Longrightarrow> map_of (ErrorsTotal (incErrorsTotal e m)) k = map_of (ErrorsTotal m) k"
  by (auto simp: incErrorsTotal_def retrievePointerFor_def update_conv' Let_def split: option.splits)

end
