(* ===== verification/BodyReader.thy ===== *)
theory BodyReader
  imports HttpTypes
begin

text \<open>
  The reader around the request body (\<^verbatim>\<open>pkg/handler/body_reader.go\<close>). The events of the
  request body are read through \<^verbatim>\<open>http.MaxBytesReader\<close>, errors are kept back from the
  data store and stored, and the bytes are counted. The closed form \<open>body_run\<close> says what
  the reader delivers and which error it keeps, whatever the size of the read buffer.
\<close>

section \<open>The reader\<close>

text \<open>
  \<open>br_limit\<close> and \<open>br_limitErr\<close> are the remaining bytes and the sticky error of the
  \<^verbatim>\<open>MaxBytesReader\<close>, \<open>br_src\<close> the events of the request body that are still to come.
\<close>

record bodyReader =
  bytesCounter :: int
  br_src :: "body_event list"
  br_limit :: int
  br_limitErr :: "err option"
  br_err :: "err option"

definition newBodyReader :: "body_event list \<Rightarrow> int \<Rightarrow> bodyReader" where
  "newBodyReader src maxSize =
     \<lparr>bytesCounter = 0, br_src = src, br_limit = (if maxSize < 0 then 0 else maxSize),
      br_limitErr = None, br_err = None\<rparr>"

text \<open>One read of the connection with a buffer of \<open>k\<close> bytes.\<close>

fun raw_Read :: "nat \<Rightarrow> body_event list \<Rightarrow> (bytes \<times> err option) \<times> body_event list" where
  "raw_Read k [] = (([], Some EOF), [])"
| "raw_Read k (Chunk d e # es) =
     (if length d \<le> k then ((d, e), es)
      else ((take k d, None), Chunk (drop k d) e # es))"
| "raw_Read k (CloseWith e # es) = (([], Some BodyReadAfterClose), CloseWith e # es)"

text \<open>
  \<^verbatim>\<open>http.MaxBytesReader\<close>'s \<^verbatim>\<open>Read\<close>: at most one byte more than the remaining limit is
  asked for, which is enough to see that the limit is passed.
\<close>

definition limit_buf :: "nat \<Rightarrow> int \<Rightarrow> nat" where
  "limit_buf k n = (if int k - 1 > n then nat (n + 1) else k)"

definition limit_Read :: "nat \<Rightarrow> bodyReader \<Rightarrow> (bytes \<times> err option) \<times> bodyReader" where
  "limit_Read k r =
     (case br_limitErr r of
        Some e \<Rightarrow> (([], Some e), r)
      | None \<Rightarrow>
          if k = 0 then (([], None), r)
          else
            (let ((d, e), src') = raw_Read (limit_buf k (br_limit r)) (br_src r)
             in if int (length d) \<le> br_limit r
                then ((d, e), r\<lparr>br_src := src', br_limit := br_limit r - int (length d),
                                br_limitErr := e\<rparr>)
                else ((take (nat (br_limit r)) d, Some MaxBytesError),
                      r\<lparr>br_src := src', br_limit := 0, br_limitErr := Some MaxBytesError\<rparr>)))"

definition is_net_timeout :: "err \<Rightarrow> bool" where
  "is_net_timeout e = (case e of NetError s timeout deadline \<Rightarrow> timeout | _ \<Rightarrow> False)"

fun is_max_bytes :: "err \<Rightarrow> bool" where
  "is_max_bytes MaxBytesError = True"
| "is_max_bytes (WrappedError s e) = is_max_bytes e"
| "is_max_bytes _ = False"

text \<open>Which error is stored for an error of the connection.\<close>

definition convert_err :: "err \<Rightarrow> err" where
  "convert_err e =
     (let e1 = (if e = IoClosedPipe \<or> e = IoUnexpectedEOF then TusError ErrUnexpectedEOF else e);
          e2 = (if HasSuffix (err_text e1) ''read: connection reset by peer''
                then TusError ErrConnectionReset else e1);
          e3 = (if is_net_timeout e2 then TusError ErrReadTimeout else e2)
      in if is_max_bytes e3 then TusError ErrSizeExceeded else e3)"

definition closeWithError :: "err \<Rightarrow> bodyReader \<Rightarrow> bodyReader" where
  "closeWithError e r = r\<lparr>br_err := Some e\<rparr>"

text \<open>
  \<^verbatim>\<open>bodyReader.Read\<close> with a buffer of \<open>k\<close> bytes. A pending \<open>CloseWith\<close> is the
  cancellation goroutine running before this read.
\<close>

definition Read :: "nat \<Rightarrow> bodyReader \<Rightarrow> (bytes \<times> err option) \<times> bodyReader" where
  "Read k r =
     (if br_err r \<noteq> None then (([], Some EOF), r)
      else case br_src r of
        CloseWith e # es \<Rightarrow> (([], Some EOF), closeWithError e (r\<lparr>br_src := es\<rparr>))
      | _ \<Rightarrow>
          (let ((d, e), r1) = limit_Read k r;
               r2 = r1\<lparr>bytesCounter := add64 (bytesCounter r1) (int (length d))\<rparr>
           in case e of
                None \<Rightarrow> ((d, None), r2)
              | Some x \<Rightarrow>
                  if x = EOF then ((d, Some EOF), r2)
                  else if x = BodyReadAfterClose then ((d, Some EOF), r2)
                  else ((d, None),
                        if br_err r2 = None then r2\<lparr>br_err := Some (convert_err x)\<rparr> else r2)))"

definition hasError :: "bodyReader \<Rightarrow> err option" where
  "hasError r = (if br_err r = Some EOF then None else br_err r)"

definition bytesRead :: "bodyReader \<Rightarrow> int" where
  "bytesRead r = bytesCounter r"

section \<open>Reading to the end\<close>

fun event_size :: "body_event \<Rightarrow> nat" where
  "event_size (Chunk d e) = Suc (length d)"
| "event_size (CloseWith e) = 1"

text \<open>What is left to read; every read that does not report the end makes it smaller.\<close>

definition br_measure :: "bodyReader \<Rightarrow> nat" where
  "br_measure r = sum_list (map event_size (br_src r)) + (if br_err r = None then 1 else 0) +
     (if br_limitErr r = None then 1 else 0)"

lemma raw_Read_size:
  "raw_Read k src = ((d, e), src') \<Longrightarrow> 0 < k \<Longrightarrow> e = None \<Longrightarrow>
     sum_list (map event_size src') < sum_list (map event_size src)"
  by (induction k src rule: raw_Read.induct) (auto split: if_splits)

lemma raw_Read_size_le:
  "raw_Read k src = ((d, e), src') \<Longrightarrow>
     sum_list (map event_size src') \<le> sum_list (map event_size src)"
  by (induction k src rule: raw_Read.induct) (auto split: if_splits)

lemma limit_Read_measure:
  assumes "limit_Read k r = ((d, e), r')" "0 < k"
  shows "br_err r' = br_err r" "br_measure r' \<le> br_measure r"
    "e = None \<Longrightarrow> br_measure r' < br_measure r"
proof -
  obtain d' e' src' where raw: "raw_Read (limit_buf k (br_limit r)) (br_src r) = ((d', e'), src')"
    by (metis surj_pair)
  note le = raw_Read_size_le [OF raw] and less = raw_Read_size [OF raw]
  have pos: "0 < limit_buf k (br_limit r) \<or> \<not> int (length d') \<le> br_limit r"
    using assms(2) by (auto simp: limit_buf_def)
  show "br_err r' = br_err r"
    using assms raw by (auto simp: limit_Read_def split: if_splits option.splits)
  show "br_measure r' \<le> br_measure r"
    using assms raw le by (auto simp: limit_Read_def br_measure_def split: if_splits option.splits)
  show "br_measure r' < br_measure r" if "e = None"
    using assms raw le less that pos
    by (auto simp: limit_Read_def br_measure_def split: if_splits option.splits)
qed

text \<open>A read that is neither after an error nor at a cancellation.\<close>

definition no_close :: "body_event list \<Rightarrow> bool" where
  "no_close src = (case src of CloseWith e # es \<Rightarrow> False | _ \<Rightarrow> True)"

lemma Read_err: "br_err r \<noteq> None \<Longrightarrow> Read k r = (([], Some EOF), r)"
  by (simp add: Read_def)

lemma Read_close:
  "br_err r = None \<Longrightarrow> br_src r = CloseWith e # es \<Longrightarrow>
     Read k r = (([], Some EOF), closeWithError e (r\<lparr>br_src := es\<rparr>))"
  by (simp add: Read_def)

lemma Read_plain:
  assumes "br_err r = None" "no_close (br_src r)" "limit_Read k r = ((d, e), r1)"
  shows "Read k r =
     (let r2 = r1\<lparr>bytesCounter := add64 (bytesCounter r1) (int (length d))\<rparr>
      in case e of
           None \<Rightarrow> ((d, None), r2)
         | Some x \<Rightarrow>
             if x = EOF then ((d, Some EOF), r2)
             else if x = BodyReadAfterClose then ((d, Some EOF), r2)
             else ((d, None),
                   if br_err r2 = None then r2\<lparr>br_err := Some (convert_err x)\<rparr> else r2))"
  using assms by (simp add: Read_def no_close_def split: list.splits body_event.splits)

lemma Read_exhaust:
  obtains (err) "br_err r \<noteq> None"
    | (close) e es where "br_err r = None" "br_src r = CloseWith e # es"
    | (plain) d e r1 where "br_err r = None" "no_close (br_src r)" "limit_Read k r = ((d, e), r1)"
proof (cases "br_err r = None")
  case True
  show thesis
  proof (cases "no_close (br_src r)")
    case True
    with \<open>br_err r = None\<close> plain show thesis by (metis surj_pair)
  next
    case False
    with \<open>br_err r = None\<close> close show thesis
      by (auto simp: no_close_def split: list.splits body_event.splits)
  qed
qed (rule err)

text \<open>The data store sees the end of the body, never an error of the connection.\<close>

lemma Read_result: "Read k r = ((d, e), r') \<Longrightarrow> e = None \<or> e = Some EOF"
  by (cases rule: Read_exhaust [where r = r and k = k])
    (auto simp: Read_err Read_close Read_plain Let_def split: option.splits if_splits)

lemma Read_measure:
  assumes "Read k r = ((d, None), r')" "0 < k"
  shows "br_measure r' < br_measure r"
proof (cases rule: Read_exhaust [where r = r and k = k])
  case (plain d1 e1 r1)
  note m = limit_Read_measure [OF plain(3) assms(2)]
  from plain m assms(1) show ?thesis
    by (auto simp: Read_plain Let_def br_measure_def split: option.splits if_splits)
qed (use assms in \<open>auto simp: Read_err Read_close\<close>)

text \<open>Read with a buffer of \<open>k\<close> bytes until the end is reported.\<close>

function drain :: "nat \<Rightarrow> bodyReader \<Rightarrow> bytes \<times> bodyReader" where
  "drain k r =
     (case Read k r of ((d, e), r') \<Rightarrow>
        if k = 0 \<or> e \<noteq> None then (d, r')
        else (case drain k r' of (ds, r'') \<Rightarrow> (d @ ds, r'')))"
  by pat_completeness auto
termination
  by (relation "measure (\<lambda>(k, r). br_measure r)") (auto intro: Read_measure [OF sym])

declare drain.simps [simp del]

text \<open>The size of the buffer that \<^verbatim>\<open>io.Copy\<close> allocates.\<close>

definition copy_buf :: nat where
  "copy_buf = 32768"

text \<open>
  \<^verbatim>\<open>io.Copy(dst, src)\<close> from the body reader into a destination whose write operation
  yields the number of bytes written and an error.
\<close>

function io_Copy ::
  "(bytes \<Rightarrow> 's \<Rightarrow> (nat \<times> err option) \<times> 's) \<Rightarrow> bodyReader \<Rightarrow> int \<Rightarrow> 's \<Rightarrow>
     (int \<times> err option) \<times> bodyReader \<times> 's" where
  "io_Copy put r written s =
     (case Read copy_buf r of ((d, er), r') \<Rightarrow>
        if d \<noteq> [] then
          (case put d s of ((n, e), s') \<Rightarrow>
             let nw = (if length d < n then 0 else n);
                 ew = (if length d < n \<and> e = None
                       then Some (PlainError ''invalid write result'') else e);
                 written' = add64 written (int nw)
             in if ew \<noteq> None then ((written', ew), r', s')
                else if nw \<noteq> length d then ((written', Some (PlainError ''short write'')), r', s')
                else if er \<noteq> None then ((written', if er = Some EOF then None else er), r', s')
                else io_Copy put r' written' s')
        else if er \<noteq> None then ((written, if er = Some EOF then None else er), r', s)
        else io_Copy put r' written s)"
  by pat_completeness auto
termination
  by (relation "measure (\<lambda>(put, r, n, s). br_measure r)")
    (auto simp: copy_buf_def intro: Read_measure [OF sym])

declare io_Copy.simps [simp del]

section \<open>What the reader delivers\<close>

text \<open>
  The bytes of a request body up to its first error or cancellation, and the error that is
  stored for it.
\<close>

definition stored_err :: "err \<Rightarrow> err option" where
  "stored_err e = (if e = EOF \<or> e = BodyReadAfterClose then None else Some (convert_err e))"

fun body_run :: "body_event list \<Rightarrow> bytes \<times> err option" where
  "body_run [] = ([], None)"
| "body_run (CloseWith e # es) = ([], Some e)"
| "body_run (Chunk d None # es) = (case body_run es of (ds, e) \<Rightarrow> (d @ ds, e))"
| "body_run (Chunk d (Some e) # es) = (d, stored_err e)"

text \<open>The part of it that fits into a limit, and the error kept when it does not.\<close>

definition limited_run :: "int \<Rightarrow> body_event list \<Rightarrow> bytes \<times> err option" where
  "limited_run n src =
     (case body_run src of (ds, e) \<Rightarrow>
        if int (length ds) \<le> n then (ds, e)
        else (take (nat n) ds, Some (TusError ErrSizeExceeded)))"

definition fresh_reader :: "bodyReader \<Rightarrow> bool" where
  "fresh_reader r \<longleftrightarrow> br_err r = None \<and> br_limitErr r = None \<and> 0 \<le> br_limit r"

lemma fresh_newBodyReader [simp]: "fresh_reader (newBodyReader src n)"
  by (simp add: fresh_reader_def newBodyReader_def)

lemma convert_MaxBytesError [simp]: "convert_err MaxBytesError = TusError ErrSizeExceeded"
  by (simp add: convert_err_def Let_def HasSuffix_def is_net_timeout_def suffix_def)

lemma limit_buf_pos: "0 < k \<Longrightarrow> 0 \<le> n \<Longrightarrow> 0 < limit_buf k n"
  by (auto simp: limit_buf_def)

text \<open>What one connection read does to the closed form.\<close>

lemma raw_Read_run:
  assumes "raw_Read k src = ((d, e), src')" "no_close src"
  shows "body_run src =
    (case e of None \<Rightarrow> (case body_run src' of (ds, x) \<Rightarrow> (d @ ds, x)) | Some x \<Rightarrow> (d, stored_err x))"
proof (cases src)
  case Nil
  with assms show ?thesis by (auto simp: stored_err_def)
next
  case (Cons ev es)
  with assms obtain c x where ev: "ev = Chunk c x"
    by (cases ev) (auto simp: no_close_def)
  with Cons assms show ?thesis
    by (cases x) (auto split: if_splits prod.splits)
qed

lemma raw_Read_length: "raw_Read k src = ((d, e), src') \<Longrightarrow> length d \<le> k"
  by (cases "(k, src)" rule: raw_Read.cases) (auto split: if_splits)

lemma limit_Read_fits:
  assumes "br_limitErr r = None" "0 < k" "int (length c) \<le> br_limit r"
    "raw_Read (limit_buf k (br_limit r)) (br_src r) = ((c, x), src')"
  shows "limit_Read k r =
    ((c, x), r\<lparr>br_src := src', br_limit := br_limit r - int (length c), br_limitErr := x\<rparr>)"
  using assms by (simp add: limit_Read_def)

lemma limit_Read_over:
  assumes "br_limitErr r = None" "0 < k" "\<not> int (length c) \<le> br_limit r"
    "raw_Read (limit_buf k (br_limit r)) (br_src r) = ((c, x), src')"
  shows "limit_Read k r =
    ((take (nat (br_limit r)) c, Some MaxBytesError),
     r\<lparr>br_src := src', br_limit := 0, br_limitErr := Some MaxBytesError\<rparr>)"
  using assms by (simp add: limit_Read_def)

lemma limited_run_prepend:
  assumes "body_run src = (case body_run src' of (ds, x) \<Rightarrow> (c @ ds, x))" "int (length c) \<le> n"
  shows "limited_run n src = (case limited_run (n - int (length c)) src' of (ds, x) \<Rightarrow> (c @ ds, x))"
proof -
  have "nat (n - int (length c)) = nat n - length c" using assms(2) by simp
  moreover have "take (nat n) c = c" using assms(2) by simp
  ultimately show ?thesis
    using assms by (cases "body_run src'") (auto simp: limited_run_def)
qed

text \<open>
  One step of the reader on a fresh state: either it is over and the closed form says how, or
  it goes on with a closed form that differs by the delivered bytes.
\<close>

lemma Read_run:
  assumes "fresh_reader r" "0 < k" "Read k r = ((d, e), r')"
  shows "(e = None \<and> fresh_reader r' \<and>
            limited_run (br_limit r) (br_src r) =
              (case limited_run (br_limit r') (br_src r') of (ds, x) \<Rightarrow> (d @ ds, x))) \<or>
         ((e = None \<longrightarrow> br_err r' \<noteq> None) \<and>
            limited_run (br_limit r) (br_src r) = (d, br_err r'))"
proof (cases rule: Read_exhaust [where r = r and k = k])
  case err
  with assms(1) show ?thesis by (simp add: fresh_reader_def)
next
  case (close x es)
  with assms show ?thesis
    by (auto simp: Read_close closeWithError_def fresh_reader_def limited_run_def)
next
  case (plain d1 e1 r1)
  have n: "0 \<le> br_limit r" "br_limitErr r = None" using assms(1) by (auto simp: fresh_reader_def)
  obtain c x src' where raw: "raw_Read (limit_buf k (br_limit r)) (br_src r) = ((c, x), src')"
    by (metis surj_pair)
  note run = raw_Read_run [OF raw plain(2)]
  show ?thesis
  proof (cases "int (length c) \<le> br_limit r")
    case True
    note read = Read_plain [OF plain(1,2) limit_Read_fits [OF n(2) assms(2) True raw]]
    show ?thesis
    proof (cases x)
      case None
      with run have "body_run (br_src r) = (case body_run src' of (ds, x) \<Rightarrow> (c @ ds, x))" by simp
      from limited_run_prepend [OF this True] assms(3) read None plain(1) True show ?thesis
        by (auto simp: fresh_reader_def)
    next
      case (Some y)
      with run True have "limited_run (br_limit r) (br_src r) = (c, stored_err y)"
        by (simp add: limited_run_def)
      with assms(3) read Some plain(1) show ?thesis
        by (auto simp: stored_err_def Let_def split: if_splits)
    qed
  next
    case False
    note read = Read_plain [OF plain(1,2) limit_Read_over [OF n(2) assms(2) False raw]]
    obtain ds z where ds: "body_run (br_src r) = (c @ ds, z)"
      using run by (cases x) (auto split: prod.splits)
    with False n have "limited_run (br_limit r) (br_src r) =
        (take (nat (br_limit r)) c, Some (TusError ErrSizeExceeded))"
      by (auto simp: limited_run_def)
    with assms(3) read plain(1) show ?thesis by (auto simp: Let_def)
  qed
qed

text \<open>
  The bytes delivered to the data store are exactly the first \<open>br_limit\<close> bytes of the
  request body up to its first error, and the error kept for the handler is the one of the
  closed form.
\<close>

lemma drain_limited_run:
  assumes "fresh_reader r" "0 < k"
  shows "fst (drain k r) = fst (limited_run (br_limit r) (br_src r)) \<and>
         br_err (snd (drain k r)) = snd (limited_run (br_limit r) (br_src r))"
  using assms
proof (induction k r rule: drain.induct)
  case (1 k r)
  obtain d e r' where read: "Read k r = ((d, e), r')" by (metis surj_pair)
  have d: "drain k r = (if e \<noteq> None then (d, r') else (d @ fst (drain k r'), snd (drain k r')))"
    using read "1.prems" by (subst drain.simps) (auto split: prod.splits)
  from Read_run [OF "1.prems" read] show ?case
  proof (elim disjE conjE)
    assume e: "e = None" and r': "fresh_reader r'"
      and run: "limited_run (br_limit r) (br_src r) =
              (case limited_run (br_limit r') (br_src r') of (ds, x) \<Rightarrow> (d @ ds, x))"
    from "1.IH" [OF read [symmetric]] e r' "1.prems"(2)
    have "fst (drain k r') = fst (limited_run (br_limit r') (br_src r')) \<and>
         br_err (snd (drain k r')) = snd (limited_run (br_limit r') (br_src r'))" by simp
    with d e run show ?thesis by (simp split: prod.splits)
  next
    assume r': "e = None \<longrightarrow> br_err r' \<noteq> None"
      and run: "limited_run (br_limit r) (br_src r) = (d, br_err r')"
    have "drain k r' = ([], r')" if "e = None"
      using r' that by (subst drain.simps) (simp add: Read_err)
    with d run show ?thesis by simp
  qed
qed

lemma limited_run_length: "0 \<le> n \<Longrightarrow> int (length (fst (limited_run n src))) \<le> n"
  by (auto simp: limited_run_def split: prod.splits)

text \<open>The bytes a reader will deliver and the error it will keep.\<close>

abbreviation reader_data :: "bodyReader \<Rightarrow> bytes" where
  "reader_data r \<equiv> fst (limited_run (br_limit r) (br_src r))"

abbreviation reader_err :: "bodyReader \<Rightarrow> err option" where
  "reader_err r \<equiv> snd (limited_run (br_limit r) (br_src r))"

section \<open>Copying the body into a destination\<close>

lemma io_Copy_err: "br_err r \<noteq> None \<Longrightarrow> io_Copy put r w s = ((w, None), r, s)"
  by (subst io_Copy.simps) (simp add: Read_err)

lemma io_Copy_empty:
  assumes "Read copy_buf r = (([], er), r1)"
  shows "io_Copy put r w s =
    (if er \<noteq> None then ((w, if er = Some EOF then None else er), r1, s) else io_Copy put r1 w s)"
  using assms by (subst io_Copy.simps) simp

lemma io_Copy_write:
  assumes "Read copy_buf r = ((d, er), r1)" "d \<noteq> []" "put d s = ((n, e), s1)" "n \<le> length d"
  shows "io_Copy put r w s =
    (if e \<noteq> None then ((add64 w (int n), e), r1, s1)
     else if n \<noteq> length d then ((add64 w (int n), Some (PlainError ''short write'')), r1, s1)
     else if er \<noteq> None then ((add64 w (int n), if er = Some EOF then None else er), r1, s1)
     else io_Copy put r1 (add64 w (int n)) s1)"
  using assms by (subst io_Copy.simps) (simp add: Let_def)

text \<open>
  The contract of a destination that appends: a write of \<open>d\<close> that reports \<open>n\<close> bytes
  has appended exactly the first \<open>n\<close> bytes of \<open>d\<close>, with or without an error.
\<close>

locale append_writer =
  fixes put :: "bytes \<Rightarrow> 's \<Rightarrow> (nat \<times> err option) \<times> 's"
    and appends :: "'s \<Rightarrow> bytes \<Rightarrow> 's \<Rightarrow> bool"
  assumes put_appends: "put d s = ((n, e), s') \<Longrightarrow> n \<le> length d \<and> appends s (take n d) s'"
    and appends_refl: "appends s [] s"
    and appends_trans: "appends s d s' \<Longrightarrow> appends s' d' s'' \<Longrightarrow> appends s (d @ d') s''"
begin

text \<open>
  Copying a fresh reader appends a prefix of what the reader delivers; the number of bytes
  reported is the number appended, and without an error everything has been appended.
\<close>

lemma io_Copy_appends:
  assumes "fresh_reader r" "0 \<le> w" "w + int (length (reader_data r)) \<le> MaxInt64"
    and "io_Copy put r w s = ((n, e), r', s')"
  shows "\<exists>m \<le> length (reader_data r). n = w + int m \<and> appends s (take m (reader_data r)) s' \<and>
           (e = None \<longrightarrow> m = length (reader_data r) \<and> br_err r' = reader_err r)"
  using assms
proof (induction "br_measure r" arbitrary: r w s rule: less_induct)
  case less
  obtain d er r1 where read: "Read copy_buf r = ((d, er), r1)" by (metis surj_pair)
  have buf: "0 < copy_buf" by (simp add: copy_buf_def)
  note er = Read_result [OF read]
  consider (more) "er = None" "fresh_reader r1"
      "limited_run (br_limit r) (br_src r) =
         (case limited_run (br_limit r1) (br_src r1) of (ds, x) \<Rightarrow> (d @ ds, x))"
    | (over) "er = None \<longrightarrow> br_err r1 \<noteq> None" "limited_run (br_limit r) (br_src r) = (d, br_err r1)"
    using Read_run [OF less.prems(1) buf read] by blast
  then show ?case
  proof cases
    case more
    then have data: "reader_data r = d @ reader_data r1" "reader_err r = reader_err r1"
      by (auto split: prod.splits)
    have sm: "br_measure r1 < br_measure r" using read more(1) buf Read_measure by blast
    show ?thesis
    proof (cases "d = []")
      case True
      with read more(1) less.prems(4) have "io_Copy put r1 w s = ((n, e), r', s')"
        by (simp add: io_Copy_empty)
      from less.hyps [OF sm more(2) less.prems(2) _ this] less.prems(3) data True
      show ?thesis by simp
    next
      case False
      obtain nw ew s1 where wr: "put d s = ((nw, ew), s1)" by (metis surj_pair)
      note ap = put_appends [OF wr]
      have w: "add64 w (int nw) = w + int nw"
        using ap less.prems(2,3) data by (intro add64_id) (auto simp: int64_defs)
      show ?thesis
      proof (cases "ew = None \<and> nw = length d")
        case True
        with wr read False more(1) less.prems(4) w
        have rec: "io_Copy put r1 (w + int nw) s1 = ((n, e), r', s')"
          by (simp add: io_Copy_write)
        from less.hyps [OF sm more(2) _ _ rec] less.prems(2,3) data True
        obtain m where "m \<le> length (reader_data r1)" "n = w + int nw + int m"
          "appends s1 (take m (reader_data r1)) s'"
          "e = None \<longrightarrow> m = length (reader_data r1) \<and> br_err r' = reader_err r1"
          by auto
        with True ap data show ?thesis
          by (intro exI [of _ "nw + m"]) (auto intro: appends_trans)
      next
        case False
        with \<open>d \<noteq> []\<close> wr ap read less.prems(4) w data show ?thesis
          by (intro exI [of _ nw]) (auto simp: io_Copy_write split: if_splits)
      qed
    qed
  next
    case over
    then have data: "reader_data r = d" "reader_err r = br_err r1" by auto
    show ?thesis
    proof (cases "d = []")
      case True
      with read er over less.prems(4) data show ?thesis
        by (auto simp: io_Copy_empty io_Copy_err appends_refl split: if_splits)
    next
      case False
      obtain nw ew s1 where wr: "put d s = ((nw, ew), s1)" by (metis surj_pair)
      note ap = put_appends [OF wr]
      have w: "add64 w (int nw) = w + int nw"
        using ap less.prems(2,3) data by (intro add64_id) (auto simp: int64_defs)
      from False wr ap read er over less.prems(4) w data show ?thesis
        by (intro exI [of _ nw]) (auto simp: io_Copy_write io_Copy_err split: if_splits)
    qed
  qed
qed

end

end
