(* ===== verification/DataStore.thy ===== *)
theory DataStore
  imports BodyReader
begin

text \<open>
  The interfaces between the handler and its storage: upload information, the data store
  and its optional extensions, the locker (\<^verbatim>\<open>pkg/handler/datastore.go\<close>), the composer that
  puts them together (\<^verbatim>\<open>composer.go\<close>), hook events (\<^verbatim>\<open>hooks.go\<close>) and the
  configuration (\<^verbatim>\<open>config.go\<close>). An interface value is a record of functions over a
  storage state \<open>'s\<close> and an upload object \<open>'u\<close>; a method that mutates its receiver
  returns the new object.
\<close>

section \<open>Upload information\<close>

text \<open>
  \<open>hasStop\<close> says whether the callback \<^verbatim>\<open>stopUpload\<close> is set; what it does is
  \<open>stopCause\<close> below.
\<close>

record FileInfo =
  ID :: string
  Size :: int
  SizeIsDeferred :: bool
  Offset :: int
  MetaData :: "string gomap"
  IsPartial :: bool
  IsFinal :: bool
  PartialUploads :: "string list"
  Storage :: "string gomap"
  hasStop :: bool

definition emptyFileInfo :: FileInfo where
  "emptyFileInfo =
     \<lparr>ID = [], Size = 0, SizeIsDeferred = False, Offset = 0, MetaData = [], IsPartial = False,
      IsFinal = False, PartialUploads = [], Storage = [], hasStop = False\<rparr>"

text \<open>
  The callback of \<^verbatim>\<open>writeChunk\<close> that \<^verbatim>\<open>StopUpload\<close> invokes cancels the request with
  this error; \<open>None\<close> when no callback is set.
\<close>

definition stopCause :: "HTTPResponse \<Rightarrow> Error" where
  "stopCause res =
     ErrUploadStoppedByServer\<lparr>HTTPResp := MergeWith (HTTPResp ErrUploadStoppedByServer) res\<rparr>"

definition StopUpload :: "FileInfo \<Rightarrow> HTTPResponse \<Rightarrow> Error option" where
  "StopUpload f response = (if hasStop f then Some (stopCause response) else None)"

record FileInfoChanges =
  ch_ID :: string
  ch_MetaData :: "string gomap option"
  ch_Storage :: "string gomap option"

definition noChanges :: FileInfoChanges where
  "noChanges = \<lparr>ch_ID = [], ch_MetaData = None, ch_Storage = None\<rparr>"

record HookEvent =
  Upload :: FileInfo
  EventRequest :: HTTPRequest

definition newHookEvent :: "Request \<Rightarrow> FileInfo \<Rightarrow> HookEvent" where
  "newHookEvent r info =
     \<lparr>Upload = info,
      EventRequest = \<lparr>hr_Method = Method r, hr_URI = RequestURI r, hr_RemoteAddr = RemoteAddr r,
                      hr_Header = header_Set ''Host'' (Host r) (ReqHeader r)\<rparr>\<rparr>"

section \<open>The storage interfaces\<close>

text \<open>
  \<^verbatim>\<open>DataStore\<close> together with the methods of the \<^verbatim>\<open>Upload\<close> objects it hands out. Reading
  an upload yields its bytes and the error with which reading ends, if any.
\<close>

record ('s, 'u) DataStore =
  NewUpload :: "FileInfo \<Rightarrow> 's \<Rightarrow> (err + 'u) \<times> 's"
  GetUpload :: "string \<Rightarrow> 's \<Rightarrow> (err + 'u) \<times> 's"
  WriteChunk :: "'u \<Rightarrow> int \<Rightarrow> bodyReader \<Rightarrow> 's \<Rightarrow> (int \<times> err option) \<times> bodyReader \<times> 'u \<times> 's"
  GetInfo :: "'u \<Rightarrow> 's \<Rightarrow> (err + FileInfo) \<times> 'u \<times> 's"
  GetReader :: "'u \<Rightarrow> 's \<Rightarrow> (err + bytes \<times> err option) \<times> 'u \<times> 's"
  FinishUpload :: "'u \<Rightarrow> 's \<Rightarrow> err option \<times> 'u \<times> 's"

text \<open>The optional extensions, each by the method of its upload objects.\<close>

type_synonym ('s, 'u) TerminaterDataStore = "'u \<Rightarrow> 's \<Rightarrow> err option \<times> 'u \<times> 's"
type_synonym ('s, 'u) ConcaterDataStore = "'u \<Rightarrow> 'u list \<Rightarrow> 's \<Rightarrow> err option \<times> 'u \<times> 's"
type_synonym ('s, 'u) LengthDeferrerDataStore = "'u \<Rightarrow> int \<Rightarrow> 's \<Rightarrow> err option \<times> 'u \<times> 's"
type_synonym ('s, 'u) ContentServerDataStore =
  "'u \<Rightarrow> Request \<Rightarrow> ResponseWriter \<Rightarrow> 's \<Rightarrow> err option \<times> ResponseWriter \<times> 's"

record ('l, 'k) LockerOps =
  NewLock :: "string \<Rightarrow> err + 'k"
  Lock :: "'k \<Rightarrow> 'l \<Rightarrow> err option \<times> 'l"
  Unlock :: "'k \<Rightarrow> 'l \<Rightarrow> err option \<times> 'l"

section \<open>The store composer\<close>

record ('s, 'u, 'l, 'k) StoreComposer =
  Core :: "('s, 'u) DataStore option"
  UsesTerminater :: bool
  Terminater :: "('s, 'u) TerminaterDataStore option"
  UsesLocker :: bool
  Locker :: "('l, 'k) LockerOps option"
  UsesConcater :: bool
  Concater :: "('s, 'u) ConcaterDataStore option"
  UsesLengthDeferrer :: bool
  LengthDeferrer :: "('s, 'u) LengthDeferrerDataStore option"
  ContentServer :: "('s, 'u) ContentServerDataStore option"
  UsesContentServer :: bool

definition NewStoreComposer :: "('s, 'u, 'l, 'k) StoreComposer" where
  "NewStoreComposer =
     \<lparr>Core = None, UsesTerminater = False, Terminater = None, UsesLocker = False, Locker = None,
      UsesConcater = False, Concater = None, UsesLengthDeferrer = False, LengthDeferrer = None,
      ContentServer = None, UsesContentServer = False\<rparr>"

text \<open>The two marks are the UTF-8 encodings of U+2713 and U+2717.\<close>

definition mark :: "bool \<Rightarrow> string" where
  "mark b = (if b then [CHR 0xE2, CHR 0x9C, CHR 0x93] else [CHR 0xE2, CHR 0x9C, CHR 0x97])"

definition Capabilities :: "('s, 'u, 'l, 'k) StoreComposer \<Rightarrow> string" where
  "Capabilities store =
     ''Core: '' @ mark (\<not> Option.is_none (Core store)) @
     '' Terminater: '' @ mark (UsesTerminater store) @
     '' Locker: '' @ mark (UsesLocker store) @
     '' Concater: '' @ mark (UsesConcater store) @
     '' LengthDeferrer: '' @ mark (UsesLengthDeferrer store)"

definition UseCore ::
  "('s, 'u) DataStore option \<Rightarrow> ('s, 'u, 'l, 'k) StoreComposer \<Rightarrow> ('s, 'u, 'l, 'k) StoreComposer" where
  "UseCore core store = store\<lparr>Core := core\<rparr>"

definition UseTerminater ::
  "('s, 'u) TerminaterDataStore option \<Rightarrow> ('s, 'u, 'l, 'k) StoreComposer \<Rightarrow> ('s, 'u, 'l, 'k) StoreComposer" where
  "UseTerminater ext store = store\<lparr>UsesTerminater := \<not> Option.is_none ext, Terminater := ext\<rparr>"

definition UseLocker ::
  "('l, 'k) LockerOps option \<Rightarrow> ('s, 'u, 'l, 'k) StoreComposer \<Rightarrow> ('s, 'u, 'l, 'k) StoreComposer" where
  "UseLocker ext store = store\<lparr>UsesLocker := \<not> Option.is_none ext, Locker := ext\<rparr>"

definition UseConcater ::
  "('s, 'u) ConcaterDataStore option \<Rightarrow> ('s, 'u, 'l, 'k) StoreComposer \<Rightarrow> ('s, 'u, 'l, 'k) StoreComposer" where
  "UseConcater ext store = store\<lparr>UsesConcater := \<not> Option.is_none ext, Concater := ext\<rparr>"

definition UseLengthDeferrer ::
  "('s, 'u) LengthDeferrerDataStore option \<Rightarrow> ('s, 'u, 'l, 'k) StoreComposer \<Rightarrow> ('s, 'u, 'l, 'k) StoreComposer" where
  "UseLengthDeferrer ext store =
     store\<lparr>UsesLengthDeferrer := \<not> Option.is_none ext, LengthDeferrer := ext\<rparr>"

definition UseContentServer ::
  "('s, 'u) ContentServerDataStore option \<Rightarrow> ('s, 'u, 'l, 'k) StoreComposer \<Rightarrow> ('s, 'u, 'l, 'k) StoreComposer" where
  "UseContentServer ext store =
     store\<lparr>UsesContentServer := \<not> Option.is_none ext, ContentServer := ext\<rparr>"

section \<open>Configuration\<close>

text \<open>A compiled regular expression is the set of strings it matches.\<close>

record CorsConfig =
  Disable :: bool
  AllowOrigin :: "string \<Rightarrow> bool"
  AllowCredentials :: bool
  AllowMethods :: string
  AllowHeaders :: string
  MaxAge :: string
  ExposeHeaders :: string

definition DefaultCorsConfig :: CorsConfig where
  "DefaultCorsConfig =
     \<lparr>Disable = False, AllowOrigin = (\<lambda>_. True), AllowCredentials = False,
      AllowMethods = ''POST, HEAD, PATCH, OPTIONS, GET, DELETE'',
      AllowHeaders = ''Authorization, Origin, X-Requested-With, X-Request-ID, X-HTTP-Method-Override, Content-Type, Upload-Length, Upload-Offset, Tus-Resumable, Upload-Metadata, Upload-Defer-Length, Upload-Concat, Upload-Incomplete, Upload-Complete, Upload-Draft-Interop-Version'',
      MaxAge = ''86400'',
      ExposeHeaders = ''Upload-Offset, Location, Upload-Length, Tus-Version, Tus-Resumable, Tus-Max-Size, Tus-Extension, Upload-Metadata, Upload-Defer-Length, Upload-Concat, Upload-Incomplete, Upload-Complete, Upload-Draft-Interop-Version''\<rparr>"

text \<open>
  The configuration. Durations are in nanoseconds. The logger is left out. Two functions of
  the standard library that only these sources pass on stand beside it: \<open>ParseMediaType\<close>
  of \<^verbatim>\<open>mime\<close> and \<open>Quote\<close> of \<^verbatim>\<open>strconv\<close>.
\<close>

record ('s, 'u, 'l, 'k) Config =
  Composer :: "('s, 'u, 'l, 'k) StoreComposer option"
  MaxSize :: int
  BasePath :: string
  isAbs :: bool
  EnableExperimentalProtocol :: bool
  DisableDownload :: bool
  DisableTermination :: bool
  DisableConcatenation :: bool
  Cors :: "CorsConfig option"
  NotifyCompleteUploads :: bool
  NotifyTerminatedUploads :: bool
  NotifyUploadProgress :: bool
  NotifyCreatedUploads :: bool
  UploadProgressInterval :: int
  RespectForwardedHeaders :: bool
  PreUploadCreateCallback :: "(HookEvent \<Rightarrow> HTTPResponse \<times> FileInfoChanges \<times> err option) option"
  PreFinishResponseCallback :: "(HookEvent \<Rightarrow> HTTPResponse \<times> err option) option"
  PreUploadTerminateCallback :: "(HookEvent \<Rightarrow> HTTPResponse \<times> err option) option"
  GracefulRequestCompletionTimeout :: int
  AcquireLockTimeout :: int
  NetworkTimeout :: int
  ParseMediaType :: "string \<Rightarrow> err + string \<times> string gomap"
  Quote :: "string \<Rightarrow> string"

text \<open>
  The zero value of the configuration, on which examples build. A media type is taken to be
  what stands before a semicolon, and a quoted string is the string in quotation marks.
\<close>

definition zeroConfig :: "('s, 'u, 'l, 'k) Config" where
  "zeroConfig =
     \<lparr>Composer = None, MaxSize = 0, BasePath = [], isAbs = False, EnableExperimentalProtocol = False,
      DisableDownload = False, DisableTermination = False, DisableConcatenation = False,
      Cors = None, NotifyCompleteUploads = False, NotifyTerminatedUploads = False,
      NotifyUploadProgress = False, NotifyCreatedUploads = False, UploadProgressInterval = 0,
      RespectForwardedHeaders = False, PreUploadCreateCallback = None,
      PreFinishResponseCallback = None, PreUploadTerminateCallback = None,
      GracefulRequestCompletionTimeout = 0, AcquireLockTimeout = 0, NetworkTimeout = 0,
      ParseMediaType = (\<lambda>s. if s = [] then Inl (PlainError ''mime: no media type'')
                             else Inr (takeWhile (\<lambda>c. c \<noteq> CHR '';'') s, [])),
      Quote = (\<lambda>s. [CHR 0x22] @ s @ [CHR 0x22])\<rparr>"

text \<open>
  \<^verbatim>\<open>config.validate\<close>. \<open>url_Parse\<close> stands for \<^verbatim>\<open>url.Parse\<close>: an error, or whether the
  parsed URL is absolute.
\<close>

definition validate_base :: "bool \<Rightarrow> string \<Rightarrow> string" where
  "validate_base isabs base =
     (let base1 = (if base \<noteq> [] \<and> last base \<noteq> CHR ''/'' then base @ ''/'' else base)
      in if \<not> isabs \<and> length base1 > 0 \<and> hd base1 \<noteq> CHR ''/'' then ''/'' @ base1 else base1)"

definition validate ::
  "(string \<Rightarrow> err + bool) \<Rightarrow> ('s, 'u, 'l, 'k) Config \<Rightarrow> err + ('s, 'u, 'l, 'k) Config" where
  "validate url_Parse config =
     (case url_Parse (BasePath config) of
        Inl e \<Rightarrow> Inl e
      | Inr isabs \<Rightarrow>
          (let c1 = config\<lparr>BasePath := validate_base isabs (BasePath config), isAbs := isabs\<rparr>
           in case Composer c1 of
                None \<Rightarrow> Inl (PlainError ''tusd: StoreComposer must no be nil'')
              | Some cmp \<Rightarrow>
                  if Option.is_none (Core cmp)
                  then Inl (PlainError ''tusd: StoreComposer in Config needs to contain a non-nil core'')
                  else Inr (c1\<lparr>
                    UploadProgressInterval :=
                      (if UploadProgressInterval c1 \<le> 0 then 1000000000 else UploadProgressInterval c1),
                    GracefulRequestCompletionTimeout :=
                      (if GracefulRequestCompletionTimeout c1 \<le> 0 then 10000000000
                       else GracefulRequestCompletionTimeout c1),
                    AcquireLockTimeout :=
                      (if AcquireLockTimeout c1 \<le> 0 then 20000000000 else AcquireLockTimeout c1),
                    NetworkTimeout :=
                      (if NetworkTimeout c1 \<le> 0 then 60000000000 else NetworkTimeout c1),
                    Cors := (case Cors c1 of None \<Rightarrow> Some DefaultCorsConfig | Some x \<Rightarrow> Some x)\<rparr>)))"

section \<open>Facts\<close>

text \<open>
  A composer built with the \<^verbatim>\<open>Use...\<close> functions flags exactly the extensions it has.
\<close>

definition composer_wf :: "('s, 'u, 'l, 'k) StoreComposer \<Rightarrow> bool" where
  "composer_wf c \<longleftrightarrow>
     (UsesTerminater c \<longleftrightarrow> Terminater c \<noteq> None) \<and>
     (UsesLocker c \<longleftrightarrow> Locker c \<noteq> None) \<and>
     (UsesConcater c \<longleftrightarrow> Concater c \<noteq> None) \<and>
     (UsesLengthDeferrer c \<longleftrightarrow> LengthDeferrer c \<noteq> None) \<and>
     (UsesContentServer c \<longleftrightarrow> ContentServer c \<noteq> None)"

lemmas Use_defs = UseCore_def UseTerminater_def UseLocker_def UseConcater_def
  UseLengthDeferrer_def UseContentServer_def

lemma is_none_iff: "(\<not> Option.is_none x) = (x \<noteq> None)"
  by (cases x) auto

lemma composer_wf_new [simp]: "composer_wf NewStoreComposer"
  by (simp add: composer_wf_def NewStoreComposer_def)

lemma composer_wf_Use [simp]:
  assumes "composer_wf c"
  shows "composer_wf (UseCore core c)" "composer_wf (UseTerminater t c)"
    "composer_wf (UseLocker l c)" "composer_wf (UseConcater k c)"
    "composer_wf (UseLengthDeferrer d c)" "composer_wf (UseContentServer s c)"
  using assms by (simp_all add: composer_wf_def Use_defs is_none_iff)

lemma validate_base_slashes:
  assumes "validate_base isabs base = b" "b \<noteq> []"
  shows "last b = CHR ''/'' \<and> (\<not> isabs \<longrightarrow> hd b = CHR ''/'')"
  using assms by (auto simp: validate_base_def Let_def split: if_splits)

lemma validate_base_idem: "validate_base isabs (validate_base isabs base) = validate_base isabs base"
  by (auto simp: validate_base_def Let_def split: if_splits)

end
