(* ===== verification/HeaderParsing.thy ===== *)
theory HeaderParsing
  imports DataStore
begin

text \<open>
  The handler value and the pure helpers of \<^verbatim>\<open>pkg/handler/unrouted_handler.go\<close>: the
  constructor, the parsing and printing of request and response headers, the headers of the
  IETF draft, upload URLs and identifiers, and the content type of downloads. Which identifiers can be
  addressed by the printed URLs is the subject of \<open>Addressing\<close>.
\<close>

section \<open>The handler\<close>

record ('s, 'u, 'l, 'k) UnroutedHandler =
  config :: "('s, 'u, 'l, 'k) Config"
  composer :: "('s, 'u, 'l, 'k) StoreComposer"
  isBasePathAbs :: bool
  basePath :: string
  extensions :: string

text \<open>The extensions that are promoted in the \<^verbatim>\<open>Tus-Extension\<close> header.\<close>

definition supported_extensions :: "('s, 'u, 'l, 'k) Config \<Rightarrow> ('s, 'u, 'l, 'k) StoreComposer \<Rightarrow> string" where
  "supported_extensions cfg c =
     (let ext0 = ''creation,creation-with-upload'';
          ext1 = (if UsesTerminater c \<and> \<not> DisableTermination cfg then ext0 @ '',termination'' else ext0);
          ext2 = (if UsesConcater c \<and> \<not> DisableConcatenation cfg then ext1 @ '',concatenation'' else ext1)
      in if UsesLengthDeferrer c then ext2 @ '',creation-defer-length'' else ext2)"

definition new_handler ::
  "('s, 'u, 'l, 'k) Config \<Rightarrow> ('s, 'u, 'l, 'k) StoreComposer \<Rightarrow> ('s, 'u, 'l, 'k) UnroutedHandler" where
  "new_handler cfg c =
     \<lparr>config = cfg, composer = c, isBasePathAbs = isAbs cfg, basePath = BasePath cfg,
      extensions = supported_extensions cfg c\<rparr>"

definition NewUnroutedHandler ::
  "(string \<Rightarrow> err + bool) \<Rightarrow> ('s, 'u, 'l, 'k) Config \<Rightarrow> err + ('s, 'u, 'l, 'k) UnroutedHandler" where
  "NewUnroutedHandler url_Parse config0 =
     (case validate url_Parse config0 of
        Inl e \<Rightarrow> Inl e
      | Inr cfg \<Rightarrow>
          (case Composer cfg of
             None \<Rightarrow> Inl (Panic ''nil pointer dereference'')
           | Some c \<Rightarrow> Inr (new_handler cfg c)))"

definition SupportedExtensions :: "('s, 'u, 'l, 'k) UnroutedHandler \<Rightarrow> string" where
  "SupportedExtensions h = extensions h"

text \<open>A handler under a base path without data store, and a request without headers.\<close>

definition bare_handler :: "string \<Rightarrow> ('s, 'u, 'l, 'k) UnroutedHandler" where
  "bare_handler base =
     \<lparr>config = zeroConfig, composer = NewStoreComposer, isBasePathAbs = False, basePath = base,
      extensions = []\<rparr>"

definition plainRequest :: "string \<Rightarrow> string \<Rightarrow> Request" where
  "plainRequest method path =
     \<lparr>Method = method, URLPath = path, ReqHeader = [], ContentLength = 0, ReqBody = Some [],
      Host = ''tus.io'', UsesTLS = True, RequestURI = path, RemoteAddr = ''127.0.0.1'',
      ProgressSamples = []\<rparr>"

section \<open>Headers of the IETF draft\<close>

definition UploadLengthDeferred :: string where
  "UploadLengthDeferred = ''1''"

definition getIETFDraftInteropVersion :: "Request \<Rightarrow> string" where
  "getIETFDraftInteropVersion r =
     (let version = req_header r ''Upload-Draft-Interop-Version''
      in if version \<in> {''3'', ''4'', ''5'', ''6''} then version else [])"

definition usesIETFDraft :: "('s, 'u, 'l, 'k) UnroutedHandler \<Rightarrow> Request \<Rightarrow> bool" where
  "usesIETFDraft h r \<longleftrightarrow>
     EnableExperimentalProtocol (config h) \<and> getIETFDraftInteropVersion r \<noteq> []"

definition isIETFDraftUploadComplete :: "Request \<Rightarrow> bool" where
  "isIETFDraftUploadComplete r =
     (let version = getIETFDraftInteropVersion r
      in if version \<in> {''4'', ''5'', ''6''} then req_header r ''Upload-Complete'' = ''?1''
         else if version = ''3'' then req_header r ''Upload-Incomplete'' = ''?0''
         else False)"

definition setIETFDraftUploadComplete :: "Request \<Rightarrow> HTTPResponse \<Rightarrow> bool \<Rightarrow> HTTPResponse" where
  "setIETFDraftUploadComplete r resp isComplete =
     (let version = getIETFDraftInteropVersion r
      in if version = ''3'' then
           set_header ''Upload-Incomplete'' (if isComplete then ''?0'' else ''?1'') resp
         else if version \<in> {''4'', ''5'', ''6''} then
           set_header ''Upload-Complete'' (if isComplete then ''?1'' else ''?0'') resp
         else resp)"

text \<open>The length of a new upload, or that it is deferred.\<close>

definition getIETFDraftUploadLength :: "Request \<Rightarrow> err + int \<times> bool" where
  "getIETFDraftUploadLength r =
     (let hasContent = isIETFDraftUploadComplete r \<and> ContentLength r \<noteq> - 1;
          uploadLengthStr = req_header r ''Upload-Length''
      in if uploadLengthStr \<noteq> [] then
           (case ParseInt uploadLengthStr of
              None \<Rightarrow> Inl (TusError ErrInvalidUploadLength)
            | Some l \<Rightarrow>
                if hasContent \<and> l \<noteq> ContentLength r then Inl (TusError ErrInvalidUploadLength)
                else Inr (l, False))
         else if hasContent then Inr (ContentLength r, False)
         else Inr (0, True))"

definition getIETFDraftUploadLimits :: "('s, 'u, 'l, 'k) UnroutedHandler \<Rightarrow> FileInfo \<Rightarrow> string" where
  "getIETFDraftUploadLimits h info =
     (if MaxSize (config h) > 0 then ''min-size=0,max-size='' @ FormatInt (MaxSize (config h))
      else if \<not> SizeIsDeferred info then ''min-size=0,max-size='' @ FormatInt (Size info)
      else ''min-size=0'')"

section \<open>Headers of tus version 1\<close>

text \<open>The size of a new upload, or that it is deferred.\<close>

definition validateNewUploadLengthHeaders ::
  "('s, 'u, 'l, 'k) UnroutedHandler \<Rightarrow> string \<Rightarrow> string \<Rightarrow> err + int \<times> bool" where
  "validateNewUploadLengthHeaders h uploadLengthHeader uploadDeferLengthHeader =
     (let haveBothLengthHeaders = uploadLengthHeader \<noteq> [] \<and> uploadDeferLengthHeader \<noteq> [];
          haveInvalidDeferHeader =
            uploadDeferLengthHeader \<noteq> [] \<and> uploadDeferLengthHeader \<noteq> UploadLengthDeferred;
          lengthIsDeferred = (uploadDeferLengthHeader = UploadLengthDeferred)
      in if lengthIsDeferred \<and> \<not> UsesLengthDeferrer (composer h) then Inl (TusError ErrNotImplemented)
         else if haveBothLengthHeaders then Inl (TusError ErrUploadLengthAndUploadDeferLength)
         else if haveInvalidDeferHeader then Inl (TusError ErrInvalidUploadDeferLength)
         else if lengthIsDeferred then Inr (0, True)
         else case ParseInt uploadLengthHeader of
                None \<Rightarrow> Inl (TusError ErrInvalidUploadLength)
              | Some l \<Rightarrow> if l < 0 then Inl (TusError ErrInvalidUploadLength) else Inr (l, False))"

text \<open>One element of the \<^verbatim>\<open>Upload-Metadata\<close> header.\<close>

definition parse_element :: "string \<Rightarrow> (string \<times> string) option" where
  "parse_element element =
     (let parts = Split (CHR '' '') (TrimSpace element)
      in if length parts > 2 then None
         else if hd parts = [] then None
         else if length parts = 2 then map_option (Pair (hd parts)) (b64_decode (parts ! 1))
         else Some (hd parts, []))"

definition ParseMetadataHeader :: "string \<Rightarrow> string gomap" where
  "ParseMetadataHeader header =
     fold (\<lambda>element meta. case parse_element element of
                            None \<Rightarrow> meta | Some (key, value) \<Rightarrow> map_set key value meta)
       (Split (CHR '','') header) []"

text \<open>The pairs are printed in the order in which the map is iterated.\<close>

definition SerializeMetadataHeader :: "string gomap \<Rightarrow> string" where
  "SerializeMetadataHeader meta =
     (let header = foldl (\<lambda>header (key, value). header @ key @ '' '' @ b64_encode value @ '','') [] meta
      in if length header > 0 then take (length header - 1) header else header)"

definition extractIDFromPath :: "string \<Rightarrow> string" where
  "extractIDFromPath path = TrimChar (CHR ''/'') path"

definition extractIDFromURL :: "string \<Rightarrow> string \<Rightarrow> err + string" where
  "extractIDFromURL url base =
     (case Cut url base of
        None \<Rightarrow> Inl (TusError ErrNotFound)
      | Some (_, i) \<Rightarrow> Inr (extractIDFromPath i))"

text \<open>The loop over the URLs of a final upload.\<close>

fun parse_partials :: "string list \<Rightarrow> string \<Rightarrow> err + string list" where
  "parse_partials [] base = Inr []"
| "parse_partials (v # vs) base =
     (let value = TrimSpace v
      in if value = [] then parse_partials vs base
         else case extractIDFromURL value base of
                Inl e \<Rightarrow> Inl e
              | Inr i \<Rightarrow> (case parse_partials vs base of Inl e \<Rightarrow> Inl e | Inr is \<Rightarrow> Inr (i # is)))"

text \<open>Whether the upload is partial, whether it is final, and its partial uploads.\<close>

definition parseConcat :: "string \<Rightarrow> string \<Rightarrow> err + bool \<times> bool \<times> string list" where
  "parseConcat header base =
     (if header = [] then Inr (False, False, [])
      else if header = ''partial'' then Inr (True, False, [])
      else
        (case (if HasPrefix header ''final;'' \<and> length header > 6
               then parse_partials (Split (CHR '' '') (drop 6 header)) base else Inr []) of
           Inl e \<Rightarrow> Inl e
         | Inr is \<Rightarrow> if is = [] then Inl (TusError ErrInvalidConcat) else Inr (False, True, is)))"

definition getRequestId :: "Request \<Rightarrow> string" where
  "getRequestId r = take 36 (req_header r ''X-Request-ID'')"

text \<open>The characters of \<^verbatim>\<open>reValidUploadId\<close>.\<close>

definition valid_id_char :: "char \<Rightarrow> bool" where
  "valid_id_char c \<longleftrightarrow> is_upper_char c \<or> is_lower_char c \<or> is_digit c \<or>
     List.member ([CHR ''-'', CHR ''.'', CHR ''_'', CHR ''~'', CHR ''%'', CHR ''!'', CHR ''$'', CHR 0x27,
       CHR ''('', CHR '')'', CHR ''*'', CHR ''+'', CHR '','', CHR '';'', CHR ''='', CHR ''/'',
       CHR '':'', CHR ''@'']) c"

definition reValidUploadId_text :: string where
  "reValidUploadId_text =
     ''^[A-Za-z0-9'' @ [CHR 0x5C] @ ''-._~%!$'' @ [CHR 0x27] @ ''()*+,;=/:@]*$''"

definition validateUploadId :: "string \<Rightarrow> err option" where
  "validateUploadId newId =
     (if newId = [] then None
      else if HasPrefix newId ''/'' \<or> HasSuffix newId ''/'' then
        Some (PlainError (''validation error in FileInfoChanges: ID must not begin or end with a forward slash (got: '' @ newId @ '')''))
      else if \<not> list_all valid_id_char newId then
        Some (PlainError (''validation error in FileInfoChanges: ID must contain only URL-safe character: '' @ reValidUploadId_text @ '' (got: '' @ newId @ '')''))
      else None)"

section \<open>Upload URLs\<close>

text \<open>
  The leftmost match of \<^verbatim>\<open>host="?([^;"]+)\<close> and of \<^verbatim>\<open>proto=(https?)\<close>: their
  submatches.
\<close>

definition host_match_at :: "string \<Rightarrow> string option" where
  "host_match_at s =
     (if prefix ''host='' s then
        (let rest = drop 5 s;
             rest' = (if prefix [CHR 0x22] rest then drop 1 rest else rest);
             host = takeWhile (\<lambda>c. c \<noteq> CHR '';'' \<and> c \<noteq> CHR 0x22) rest'
         in if host = [] then None else Some host)
      else None)"

definition proto_match_at :: "string \<Rightarrow> string option" where
  "proto_match_at s =
     (if prefix ''proto=https'' s then Some ''https''
      else if prefix ''proto=http'' s then Some ''http'' else None)"

fun leftmost :: "(string \<Rightarrow> string option) \<Rightarrow> string \<Rightarrow> string option" where
  "leftmost m [] = m []"
| "leftmost m (c # cs) = (case m (c # cs) of Some x \<Rightarrow> Some x | None \<Rightarrow> leftmost m cs)"

definition getHostAndProtocol :: "Request \<Rightarrow> bool \<Rightarrow> string \<times> string" where
  "getHostAndProtocol r allowForwarded =
     (let proto0 = (if UsesTLS r then ''https'' else ''http''); host0 = Host r
      in if \<not> allowForwarded then (host0, proto0)
         else
           (let xhost = req_header r ''X-Forwarded-Host'';
                host1 = (if xhost \<noteq> [] then xhost else host0);
                xproto = req_header r ''X-Forwarded-Proto'';
                proto1 = (if xproto = ''http'' \<or> xproto = ''https'' then xproto else proto0);
                fwd = req_header r ''Forwarded'';
                host2 = (if fwd \<noteq> [] then (case leftmost host_match_at fwd of Some x \<Rightarrow> x | None \<Rightarrow> host1)
                         else host1);
                proto2 = (if fwd \<noteq> [] then (case leftmost proto_match_at fwd of Some x \<Rightarrow> x | None \<Rightarrow> proto1)
                          else proto1);
                host3 = (if proto2 = ''http'' then TrimSuffix host2 '':80'' else host2);
                host4 = (if proto2 = ''https'' then TrimSuffix host3 '':443'' else host3)
            in (host4, proto2)))"

definition absFileURL :: "('s, 'u, 'l, 'k) UnroutedHandler \<Rightarrow> Request \<Rightarrow> string \<Rightarrow> string" where
  "absFileURL h r i =
     (if isBasePathAbs h then basePath h @ i
      else case getHostAndProtocol r (RespectForwardedHeaders (config h)) of
             (host, proto) \<Rightarrow> proto @ ''://'' @ host @ basePath h @ i)"

text \<open>The \<^verbatim>\<open>Upload-Concat\<close> header of a final upload, as \<^verbatim>\<open>HeadFile\<close> builds it.\<close>

definition final_concat_header ::
  "('s, 'u, 'l, 'k) UnroutedHandler \<Rightarrow> Request \<Rightarrow> string list \<Rightarrow> string" where
  "final_concat_header h r ids =
     (let v = foldl (\<lambda>v uploadID. v @ absFileURL h r uploadID @ '' '') ''final;'' ids
      in take (length v - 1) v)"

section \<open>Downloads\<close>

definition mimeInlineBrowserWhitelist :: "string list" where
  "mimeInlineBrowserWhitelist =
     [''text/plain'',
      ''image/png'', ''image/jpeg'', ''image/gif'', ''image/bmp'', ''image/webp'',
      ''audio/wave'', ''audio/wav'', ''audio/x-wav'', ''audio/x-pn-wav'', ''audio/webm'', ''audio/ogg'',
      ''video/mp4'', ''video/webm'', ''video/ogg'',
      ''application/ogg'']"

text \<open>
  \<open>parse_media\<close> is \<^verbatim>\<open>mime.ParseMediaType\<close> and \<open>quote\<close> is \<^verbatim>\<open>strconv.Quote\<close>.
\<close>

definition filterContentType ::
  "(string \<Rightarrow> err + string \<times> string gomap) \<Rightarrow> (string \<Rightarrow> string) \<Rightarrow> FileInfo \<Rightarrow> string \<times> string" where
  "filterContentType parse_media quote info =
     (let filetype = map_str (MetaData info) ''filetype'';
          (contentType, disp) =
            (case parse_media filetype of
               Inr (ft, _) \<Rightarrow>
                 (filetype, if List.member mimeInlineBrowserWhitelist ft then ''inline'' else ''attachment'')
             | Inl e \<Rightarrow> (''application/octet-stream'', ''attachment''));
          contentDisposition =
            (case map_get (MetaData info) ''filename'' of
               Some filename \<Rightarrow> disp @ '';filename='' @ quote filename
             | None \<Rightarrow> disp)
      in (contentType, contentDisposition))"

section \<open>Facts: white space\<close>

text \<open>Printable ASCII characters other than the space.\<close>

definition is_graphic :: "char \<Rightarrow> bool" where
  "is_graphic c \<longleftrightarrow> in_range c 0x21 0x7E"

lemma graphic_not_space: "is_graphic c \<Longrightarrow> c \<noteq> CHR '' ''"
  by (auto simp: is_graphic_def in_range_def)

lemma graphic_no_space: "list_all is_graphic s \<Longrightarrow> CHR '' '' \<notin> set s"
  by (auto simp: list_all_iff dest: graphic_not_space)

lemma trim_left_with_id:
  assumes "\<And>e. e \<in> set encs \<Longrightarrow> e = [] \<or> \<not> prefix e s"
  shows "trim_left_with encs s = s"
proof -
  have "find (\<lambda>e. e \<noteq> [] \<and> prefix e s) encs = None"
    using assms by (auto simp: find_None_iff)
  then show ?thesis by (simp add: trim_left_with.simps)
qed

text \<open>No encoding of a space starts or ends with a graphic character.\<close>

lemma space_encodings_ends:
  assumes "e \<in> set space_encodings"
  shows "e \<noteq> []" "\<not> is_graphic (hd e)" "\<not> is_graphic (last e)"
  using assms
  by (auto simp: space_encodings_def is_graphic_def in_range_def)

lemma prefix_hd: "prefix e (c # s) \<Longrightarrow> e \<noteq> [] \<Longrightarrow> hd e = c"
  by (cases e) auto

lemma trim_left_graphic:
  assumes "s = [] \<or> is_graphic (hd s)"
  shows "trim_left_with space_encodings s = s"
proof (rule trim_left_with_id)
  fix e assume "e \<in> set space_encodings"
  from space_encodings_ends [OF this] assms show "e = [] \<or> \<not> prefix e s"
    by (cases s) (auto dest: prefix_hd)
qed

lemma trim_right_graphic:
  assumes "s = [] \<or> is_graphic (last s)"
  shows "trim_left_with (map rev space_encodings) (rev s) = rev s"
proof (rule trim_left_with_id)
  fix e assume "e \<in> set (map rev space_encodings)"
  then obtain e' where e: "e = rev e'" "e' \<in> set space_encodings" by auto
  from space_encodings_ends [OF e(2)] assms show "e = [] \<or> \<not> prefix e (rev s)"
    by (cases s rule: rev_cases) (auto simp: e(1) hd_rev dest!: prefix_hd)
qed

lemma TrimSpace_graphic:
  assumes "s = [] \<or> is_graphic (hd s) \<and> is_graphic (last s)"
  shows "TrimSpace s = s"
  using assms trim_left_graphic [of s] trim_right_graphic [of s] by (auto simp: TrimSpace_def)

lemma list_all_ends: "list_all P s \<Longrightarrow> s \<noteq> [] \<Longrightarrow> P (hd s) \<and> P (last s)"
  by (auto simp: list_all_iff)

lemma TrimSpace_all_graphic: "list_all is_graphic s \<Longrightarrow> TrimSpace s = s"
  by (rule TrimSpace_graphic) (use list_all_ends in blast)

text \<open>A trailing space is removed.\<close>

lemma find_space_first: "find (\<lambda>e. e \<noteq> [] \<and> prefix e (CHR '' '' # s)) (map rev space_encodings) = Some '' ''"
  by (simp add: space_encodings_def)

lemma TrimSpace_trailing_space:
  assumes "list_all is_graphic s" "s \<noteq> []"
  shows "TrimSpace (s @ '' '') = s"
proof -
  have left: "trim_left_with space_encodings (s @ '' '') = s @ '' ''"
    by (rule trim_left_graphic) (use assms list_all_ends in auto)
  have "trim_left_with (map rev space_encodings) (CHR '' '' # rev s) =
      trim_left_with (map rev space_encodings) (rev s)"
    by (subst trim_left_with.simps) (simp add: find_space_first)
  also have "\<dots> = rev s"
    by (rule trim_right_graphic) (use assms list_all_ends in auto)
  finally show ?thesis by (simp add: TrimSpace_def left)
qed

section \<open>Facts: metadata\<close>

text \<open>The keys that the tus protocol allows: non-empty printable ASCII without space and comma.\<close>

definition meta_key :: "string \<Rightarrow> bool" where
  "meta_key k \<longleftrightarrow> k \<noteq> [] \<and> list_all (\<lambda>c. is_graphic c \<and> c \<noteq> CHR '','') k"

lemma b64_encode_graphic: "list_all (\<lambda>c. is_graphic c \<and> c \<noteq> CHR '','') (b64_encode v)"
proof -
  have "is_graphic c \<and> c \<noteq> CHR '',''" if "c \<in> set (b64_encode v)" for c
    using b64_encode_safe [OF that] by (auto simp: is_graphic_def in_range_def)
  then show ?thesis by (simp add: list_all_iff)
qed

lemma meta_key_parts:
  assumes "meta_key k"
  shows "k \<noteq> []" "list_all is_graphic k" "CHR '' '' \<notin> set k" "CHR '','' \<notin> set k"
  using assms by (auto simp: meta_key_def list_all_iff dest: graphic_not_space)

lemma b64_encode_Nil_iff: "b64_encode v = [] \<longleftrightarrow> v = []"
  by (cases v rule: b64_encode.cases) (auto simp: Let_def)

lemma parse_element_print:
  assumes "meta_key k"
  shows "parse_element (k @ '' '' @ b64_encode v) = Some (k, v)"
proof (cases "v = []")
  case True
  with meta_key_parts [OF assms] show ?thesis
    by (simp add: parse_element_def TrimSpace_trailing_space Split_no_sep)
next
  case False
  note k = meta_key_parts [OF assms]
  have b: "list_all is_graphic (b64_encode v)" "CHR '' '' \<notin> set (b64_encode v)" "b64_encode v \<noteq> []"
    using b64_encode_graphic [of v] False
    by (auto simp: list_all_iff b64_encode_Nil_iff dest: graphic_not_space)
  have "TrimSpace (k @ '' '' @ b64_encode v) = k @ '' '' @ b64_encode v"
    by (rule TrimSpace_graphic) (use k b list_all_ends [OF k(2)] list_all_ends [OF b(1)] in auto)
  then show ?thesis
    using k b by (simp add: parse_element_def Split_append_sep Split_no_sep)
qed

definition print_element :: "string \<times> string \<Rightarrow> string" where
  "print_element p = fst p @ '' '' @ b64_encode (snd p)"

lemma Serialize_foldl:
  "foldl (\<lambda>header (key, value). header @ key @ '' '' @ b64_encode value @ '','') h meta =
     h @ concat (map (\<lambda>p. print_element p @ '','') meta)"
  by (induction meta arbitrary: h) (auto simp: print_element_def)

lemma butlast_concat_sep:
  "xs \<noteq> [] \<Longrightarrow> butlast (concat (map (\<lambda>x. f x @ [c]) xs)) = Join [c] (map f xs)"
proof (induction xs)
  case (Cons x xs)
  then show ?case by (cases xs) (auto simp: butlast_append)
qed simp

lemma Serialize_Join: "SerializeMetadataHeader meta = Join '','' (map print_element meta)"
proof -
  have "SerializeMetadataHeader meta = butlast (concat (map (\<lambda>p. print_element p @ '','') meta))"
    unfolding SerializeMetadataHeader_def Serialize_foldl Let_def
    by (cases meta) (simp_all add: butlast_conv_take)
  then show ?thesis
    using butlast_concat_sep [of meta print_element "CHR '',''"] by (cases "meta = []") auto
qed

lemma fold_parse_elements:
  assumes "\<forall>p\<in>set meta. meta_key (fst p)"
  shows "fold (\<lambda>element meta. case parse_element element of
                  None \<Rightarrow> meta | Some (key, value) \<Rightarrow> map_set key value meta)
           (map print_element meta) acc = map_copy acc meta"
  using assms
  by (induction meta arbitrary: acc)
    (auto simp: print_element_def parse_element_print simp del: append.simps)

lemma map_set_fresh: "map_of m k = None \<Longrightarrow> map_set k v m = m @ [(k, v)]"
  unfolding map_set_def by (induction m) (auto split: if_splits)

lemma map_copy_fresh:
  "wf_map (dst @ src) \<Longrightarrow> map_copy dst src = dst @ src"
proof (induction src arbitrary: dst)
  case (Cons p src)
  then have "map_of dst (fst p) = None" "wf_map ((dst @ [p]) @ src)"
    by (auto simp: wf_map_def map_of_eq_None_iff)
  with Cons.IH [of "dst @ [p]"] show ?case
    by (cases p) (simp add: map_set_fresh)
qed simp

lemma print_element_comma: "meta_key (fst p) \<Longrightarrow> CHR '','' \<notin> set (print_element p)"
  using b64_encode_graphic [of "snd p"] meta_key_parts(4) [of "fst p"]
  by (auto simp: print_element_def list_all_iff)

lemma wf_ParseMetadataHeader: "wf_map (ParseMetadataHeader header)"
proof -
  have "wf_map (fold (\<lambda>element meta. case parse_element element of
          None \<Rightarrow> meta | Some (key, value) \<Rightarrow> map_set key value meta) es m)" if "wf_map m" for es m
    using that by (induction es arbitrary: m) (auto split: option.splits)
  then show ?thesis by (simp add: ParseMetadataHeader_def)
qed

text \<open>
  Property C12. Metadata whose keys are legal in the protocol survive a round trip: what
  \<^verbatim>\<open>HeadFile\<close> prints into \<^verbatim>\<open>Upload-Metadata\<close>, whatever the values' bytes and
  whatever the order of iteration, is parsed back to the same map.
\<close>

theorem metadata_roundtrip:
  assumes "wf_map meta" "\<forall>p\<in>set meta. meta_key (fst p)"
  shows "ParseMetadataHeader (SerializeMetadataHeader meta) = meta"
proof (cases "meta = []")
  case True
  then show ?thesis
    by (simp add: ParseMetadataHeader_def Serialize_Join parse_element_def TrimSpace_graphic)
next
  case False
  have "Split (CHR '','') (SerializeMetadataHeader meta) = map print_element meta"
    unfolding Serialize_Join
    by (rule Split_Join) (use assms False in \<open>auto simp: print_element_comma\<close>)
  then show ?thesis
    using assms by (simp add: ParseMetadataHeader_def fold_parse_elements map_copy_fresh)
qed

theorem metadata_roundtrip_witness:
  "ParseMetadataHeader (SerializeMetadataHeader
     [(''filename'', ''a,b c.txt''), (''is_confidential'', [])]) =
     [(''filename'', ''a,b c.txt''), (''is_confidential'', [])]"
  by (rule metadata_roundtrip)
    (simp_all add: wf_map_def meta_key_def is_graphic_def in_range_def)

section \<open>Facts: upload identifiers and URLs\<close>

lemma Cut_append: "Cut s sep = Some (a, b) \<Longrightarrow> Cut (s @ t) sep = Some (a, b @ t)"
proof (induction s arbitrary: a)
  case Nil
  then show ?case by (cases t) (auto split: if_splits)
next
  case (Cons c cs)
  show ?case
  proof (cases "prefix sep (c # cs)")
    case True
    then obtain u where u: "c # cs = sep @ u" by (auto simp: prefix_def)
    then have ut: "(c # cs) @ t = sep @ u @ t" by (metis append_assoc)
    have "Cut (c # cs) sep = Some ([], u)" "Cut ((c # cs) @ t) sep = Some ([], u @ t)"
      unfolding ut u by (simp_all add: Cut_prefix)
    with Cons.prems show ?thesis by simp
  next
    case False
    with Cons.prems obtain a' where a: "a = c # a'" "Cut cs sep = Some (a', b)"
      by auto
    have "\<not> prefix sep (c # cs @ t)"
    proof
      assume "prefix sep (c # cs @ t)"
      moreover have "prefix (c # cs) (c # cs @ t)" by simp
      moreover have "length sep \<le> length (c # cs)"
        using arg_cong [OF Cut_Some [OF a(2)], of length] by simp
      ultimately have "prefix sep (c # cs)" by (rule prefix_length_prefix)
      with False show False ..
    qed
    with Cons.IH [OF a(2)] False a show ?thesis by auto
  qed
qed

lemma HasSuffix_char: "i \<noteq> [] \<Longrightarrow> HasSuffix i [c] \<longleftrightarrow> last i = c"
  by (cases i rule: rev_cases) (auto simp: HasSuffix_def)

lemma HasPrefix_char: "i \<noteq> [] \<Longrightarrow> HasPrefix i [c] \<longleftrightarrow> hd i = c"
  by (cases i) (auto simp: HasPrefix_def)

lemma extractIDFromPath_id:
  "\<not> HasPrefix i ''/'' \<Longrightarrow> \<not> HasSuffix i ''/'' \<Longrightarrow> extractIDFromPath i = i"
  unfolding extractIDFromPath_def
  by (rule TrimChar_id) (auto simp: HasPrefix_char HasSuffix_char)

lemma validateUploadId_None:
  assumes "validateUploadId i = None"
  shows "extractIDFromPath i = i" "list_all valid_id_char i"
  using assms by (auto simp: validateUploadId_def intro: extractIDFromPath_id split: if_splits)
    (simp add: extractIDFromPath_def TrimChar_def)

lemma valid_id_char_graphic: "valid_id_char c \<Longrightarrow> is_graphic c"
  by (auto simp: valid_id_char_def is_graphic_def in_range_def is_upper_char_def is_lower_char_def
      is_digit_def)

lemma validated_id_graphic: "validateUploadId i = None \<Longrightarrow> list_all is_graphic i"
  using validateUploadId_None(2) [of i] by (auto simp: list_all_iff intro: valid_id_char_graphic)

lemma extractIDFromURL_base:
  assumes "Cut (pre @ base) base = Some (pre, [])"
  shows "extractIDFromURL (pre @ base @ i) base = Inr (extractIDFromPath i)"
  using Cut_append [OF assms, of i] by (simp add: extractIDFromURL_def)

lemma absFileURL_append: "absFileURL h r i = absFileURL h r [] @ i"
  by (simp add: absFileURL_def split: prod.splits)

lemma final_concat_header_Join:
  "ids \<noteq> [] \<Longrightarrow> final_concat_header h r ids = ''final;'' @ Join '' '' (map (absFileURL h r) ids)"
proof -
  assume ids: "ids \<noteq> []"
  have *: "foldl (\<lambda>v i. v @ absFileURL h r i @ '' '') v is = v @ concat (map (\<lambda>i. absFileURL h r i @ '' '') is)"
    for v "is" by (induction "is" arbitrary: v) auto
  show ?thesis
    unfolding final_concat_header_def Let_def * using butlast_concat_sep [OF ids, of "absFileURL h r" "CHR '' ''"] ids
    by (cases "concat (map (\<lambda>i. absFileURL h r i @ '' '') ids)") (auto simp: butlast_conv_take)
qed

lemma parse_partials_urls:
  assumes cut: "Cut (pre @ base) base = Some (pre, [])"
    and graphic: "list_all is_graphic (pre @ base)"
    and ids: "\<forall>i\<in>set ids. i \<noteq> [] \<and> validateUploadId i = None"
  shows "parse_partials (map (\<lambda>i. pre @ base @ i) ids) base = Inr ids"
  using ids
proof (induction ids)
  case (Cons i ids)
  then have i: "i \<noteq> []" "extractIDFromPath i = i" "list_all valid_id_char i"
    using validateUploadId_None by auto
  then have "TrimSpace (pre @ base @ i) = pre @ base @ i"
    using graphic by (intro TrimSpace_all_graphic) (auto simp: list_all_iff valid_id_char_graphic)
  with Cons i show ?case
    by (simp add: extractIDFromURL_base [OF cut])
qed simp

text \<open>
  Property C13. The \<^verbatim>\<open>Upload-Concat\<close> header that a HEAD request returns for a final upload
  denotes the same partial uploads when it is sent back, provided that the base path occurs
  in the upload URLs only where the handler puts it.
\<close>

theorem concat_roundtrip:
  assumes "absFileURL h r [] = pre @ basePath h" "Cut (pre @ basePath h) (basePath h) = Some (pre, [])"
    and "list_all is_graphic (pre @ basePath h)"
    and "ids \<noteq> []" "\<forall>i\<in>set ids. i \<noteq> [] \<and> validateUploadId i = None"
  shows "parseConcat (final_concat_header h r ids) (basePath h) = Inr (False, True, ids)"
proof -
  have url: "absFileURL h r = (\<lambda>i. pre @ basePath h @ i)"
    using absFileURL_append [of h r] assms(1) by (auto simp: fun_eq_iff)
  have "CHR '' '' \<notin> set (pre @ basePath h @ i)" if "i \<in> set ids" for i
    using that assms(3,5) validated_id_graphic [of i]
    by (intro graphic_no_space) simp
  then have split: "Split (CHR '' '') (Join '' '' (map (absFileURL h r) ids)) = map (absFileURL h r) ids"
    by (intro Split_Join) (use assms(4) in \<open>auto simp: url\<close>)
  have nonempty: "Join '' '' (map (absFileURL h r) ids) \<noteq> []"
    using split assms(4,5) by (cases ids) (auto simp: url)
  from parse_partials_urls [OF assms(2,3,5)] split nonempty assms(4) show ?thesis
    by (simp add: final_concat_header_Join parseConcat_def HasPrefix_def url)
qed

theorem concat_roundtrip_witness:
  "parseConcat (final_concat_header (bare_handler ''/files/'' :: (unit, unit, unit, unit) UnroutedHandler)
       (plainRequest ''HEAD'' ''/files/c'') [''a'', ''b'']) ''/files/''
     = Inr (False, True, [''a'', ''b''])"
  using concat_roundtrip [of "bare_handler ''/files/'' :: (unit, unit, unit, unit) UnroutedHandler"
      "plainRequest ''HEAD'' ''/files/c''" "''https://tus.io''" "[''a'', ''b'']"]
  by (simp add: bare_handler_def plainRequest_def zeroConfig_def absFileURL_def getHostAndProtocol_def
      is_graphic_def in_range_def validateUploadId_def HasPrefix_def HasSuffix_char valid_id_char_def
      is_lower_char_def)

section \<open>Facts: lengths and content types\<close>

text \<open>
  A new upload is accepted exactly in two cases: with no deferral and an
  \<^verbatim>\<open>Upload-Length\<close> that is a decimal number in the range of a nonnegative \<^verbatim>\<open>int64\<close>, which
  becomes its size; or with the deferral marker, no length and a data store that supports it.
\<close>

theorem new_upload_length_accepted:
  "validateNewUploadLengthHeaders h len defer = Inr (l, d) \<longleftrightarrow>
     (defer = [] \<and> \<not> d \<and> ParseInt len = Some l \<and> 0 \<le> l) \<or>
     (defer = ''1'' \<and> d \<and> l = 0 \<and> len = [] \<and> UsesLengthDeferrer (composer h))"
  by (auto simp: validateNewUploadLengthHeaders_def UploadLengthDeferred_def Let_def
      split: option.splits if_splits)

text \<open>
  A browser is told to show a download inline only when the parsed media type is
  on the list of harmless types; with any other type, and with a type that does not parse, the
  content is an attachment.
\<close>

theorem inline_only_whitelisted:
  assumes "filterContentType parse_media quote info = (ct, disp)"
  shows "(HasPrefix disp ''inline'' \<longleftrightarrow>
            (\<exists>ft ps. parse_media (map_str (MetaData info) ''filetype'') = Inr (ft, ps) \<and>
                     ft \<in> set mimeInlineBrowserWhitelist)) \<and>
         (HasPrefix disp ''inline'' \<or> HasPrefix disp ''attachment'')"
  using assms
  by (auto simp: filterContentType_def HasPrefix_def Let_def
      split: option.splits sum.splits prod.splits if_splits)

theorem inline_only_whitelisted_witness:
  "HasPrefix (snd (filterContentType (ParseMediaType (zeroConfig :: (unit, unit, unit, unit) Config)) id
      (emptyFileInfo\<lparr>MetaData := [(''filetype'', ''image/png;q=1''), (''filename'', ''x'')]\<rparr>))) ''inline'' \<and>
   \<not> HasPrefix (snd (filterContentType (ParseMediaType (zeroConfig :: (unit, unit, unit, unit) Config)) id
      (emptyFileInfo\<lparr>MetaData := [(''filetype'', ''text/html'')]\<rparr>))) ''inline''"
  using inline_only_whitelisted [OF prod.collapse [symmetric],
      of "ParseMediaType (zeroConfig :: (unit, unit, unit, unit) Config)" id
         "emptyFileInfo\<lparr>MetaData := [(''filetype'', ''image/png;q=1''), (''filename'', ''x'')]\<rparr>"]
    inline_only_whitelisted [OF prod.collapse [symmetric],
      of "ParseMediaType (zeroConfig :: (unit, unit, unit, unit) Config)" id
         "emptyFileInfo\<lparr>MetaData := [(''filetype'', ''text/html'')]\<rparr>"]
  by (simp add: zeroConfig_def emptyFileInfo_def map_str_def mimeInlineBrowserWhitelist_def)

end
