(* ===== verification/Handler.thy ===== *)
theory Handler
  imports HeaderParsing
begin

text \<open>
  The request handlers of \<^verbatim>\<open>pkg/handler/unrouted_handler.go\<close> and the routing of
  \<^verbatim>\<open>handler.go\<close>, as actions on a world that holds the data store, the locks, the usage
  counters, the notifications sent on the four channels and the response writer.

  Every handler gets two requests: \<open>c\<close> is the request of its context, which keeps the
  method the client sent, and \<open>r\<close> is the copy on which the middleware may have overridden
  the method. A \<open>Panic\<close> ends the request without a response. Each exit of the source with
  \<^verbatim>\<open>handler.sendError(c, err); return\<close> is the error result of an action, which
  \<open>respond\<close> hands to \<open>sendError\<close>.
\<close>

section \<open>The world of a request\<close>

record ('s, 'l) world =
  w_store :: 's
  w_locks :: 'l
  w_metrics :: Metrics
  w_created :: "HookEvent list"
  w_complete :: "HookEvent list"
  w_terminated :: "HookEvent list"
  w_progress :: "HookEvent list"
  w_res :: ResponseWriter

type_synonym ('s, 'l, 'a) io = "(('s, 'l) world, err, 'a) action"

definition store_op :: "('s \<Rightarrow> 'a \<times> 's) \<Rightarrow> (('s, 'l) world, 'a) state" where
  "store_op f = State (\<lambda>w. case f (w_store w) of (a, s') \<Rightarrow> (a, w\<lparr>w_store := s'\<rparr>))"

definition lock_op :: "('l \<Rightarrow> 'a \<times> 'l) \<Rightarrow> (('s, 'l) world, 'a) state" where
  "lock_op f = State (\<lambda>w. case f (w_locks w) of (a, l') \<Rightarrow> (a, w\<lparr>w_locks := l'\<rparr>))"

definition count :: "(Metrics \<Rightarrow> Metrics) \<Rightarrow> (('s, 'l) world, unit) state" where
  "count f = modify (\<lambda>w. w\<lparr>w_metrics := f (w_metrics w)\<rparr>)"

definition on_res :: "(ResponseWriter \<Rightarrow> ResponseWriter) \<Rightarrow> (('s, 'l) world, unit) state" where
  "on_res f = modify (\<lambda>w. w\<lparr>w_res := f (w_res w)\<rparr>)"

text \<open>A method call on a nil interface value.\<close>

definition nil_deref :: err where
  "nil_deref = Panic ''invalid memory address or nil pointer dereference''"

text \<open>Calls on the core data store and on the upload objects it handed out.\<close>

definition core_NewUpload :: "('s, 'u, 'l, 'k) UnroutedHandler \<Rightarrow> FileInfo \<Rightarrow> ('s, 'l, 'u) io" where
  "core_NewUpload h info =
     (case Core (composer h) of None \<Rightarrow> failE nil_deref | Some d \<Rightarrow> store_op (NewUpload d info))"

definition core_GetUpload :: "('s, 'u, 'l, 'k) UnroutedHandler \<Rightarrow> string \<Rightarrow> ('s, 'l, 'u) io" where
  "core_GetUpload h i =
     (case Core (composer h) of None \<Rightarrow> failE nil_deref | Some d \<Rightarrow> store_op (GetUpload d i))"

definition upload_GetInfo ::
  "('s, 'u, 'l, 'k) UnroutedHandler \<Rightarrow> 'u \<Rightarrow> ('s, 'l, FileInfo \<times> 'u) io" where
  "upload_GetInfo h u =
     (case Core (composer h) of
        None \<Rightarrow> failE nil_deref
      | Some d \<Rightarrow> store_op (\<lambda>s. case GetInfo d u s of
                               (Inl e, u', s') \<Rightarrow> (Inl e, s')
                             | (Inr info, u', s') \<Rightarrow> (Inr (info, u'), s')))"

definition upload_GetReader ::
  "('s, 'u, 'l, 'k) UnroutedHandler \<Rightarrow> 'u \<Rightarrow> ('s, 'l, bytes \<times> err option) io" where
  "upload_GetReader h u =
     (case Core (composer h) of
        None \<Rightarrow> failE nil_deref
      | Some d \<Rightarrow> store_op (\<lambda>s. case GetReader d u s of (res, u', s') \<Rightarrow> (res, s')))"

text \<open>An operation that yields an error or nil, as an action.\<close>

definition unit_op :: "('s \<Rightarrow> err option \<times> 'u \<times> 's) \<Rightarrow> ('s, 'l, 'u) io" where
  "unit_op f = store_op (\<lambda>s. case f s of
       (Some e, u', s') \<Rightarrow> (Inl e, s') | (None, u', s') \<Rightarrow> (Inr u', s'))"

definition upload_FinishUpload :: "('s, 'u, 'l, 'k) UnroutedHandler \<Rightarrow> 'u \<Rightarrow> ('s, 'l, 'u) io" where
  "upload_FinishUpload h u =
     (case Core (composer h) of None \<Rightarrow> failE nil_deref | Some d \<Rightarrow> unit_op (FinishUpload d u))"

definition upload_DeclareLength ::
  "('s, 'u, 'l, 'k) UnroutedHandler \<Rightarrow> 'u \<Rightarrow> int \<Rightarrow> ('s, 'l, 'u) io" where
  "upload_DeclareLength h u len =
     (case LengthDeferrer (composer h) of None \<Rightarrow> failE nil_deref | Some f \<Rightarrow> unit_op (f u len))"

definition upload_ConcatUploads ::
  "('s, 'u, 'l, 'k) UnroutedHandler \<Rightarrow> 'u \<Rightarrow> 'u list \<Rightarrow> ('s, 'l, 'u) io" where
  "upload_ConcatUploads h u partials =
     (case Concater (composer h) of None \<Rightarrow> failE nil_deref | Some f \<Rightarrow> unit_op (f u partials))"

section \<open>Responses\<close>

definition sendResp :: "HTTPResponse \<Rightarrow> (('s, 'l) world, unit) state" where
  "sendResp resp = on_res (writeTo resp)"

definition detailedErr :: "Request \<Rightarrow> err \<Rightarrow> Error" where
  "detailedErr c e =
     (let d = (case as_Error e of
                 Some x \<Rightarrow> x
               | None \<Rightarrow> NewError ''ERR_INTERNAL_SERVER_ERROR'' (err_text e) 500)
      in if Method c = ''HEAD'' then d\<lparr>HTTPResp := (HTTPResp d)\<lparr>Body := []\<rparr>\<rparr> else d)"

definition sendError :: "Request \<Rightarrow> err \<Rightarrow> (('s, 'l) world, unit) state" where
  "sendError c e =
     do { sendResp (HTTPResp (detailedErr c e)); count (incErrorsTotal (detailedErr c e)) }"

definition fail_request :: "Request \<Rightarrow> err \<Rightarrow> (('s, 'l) world, unit) state" where
  "fail_request c e =
     (case e of Panic s \<Rightarrow> on_res (\<lambda>w. w\<lparr>rw_panic := True\<rparr>) | _ \<Rightarrow> sendError c e)"

definition respond :: "Request \<Rightarrow> ('s, 'l, HTTPResponse) io \<Rightarrow> (('s, 'l) world, unit) state" where
  "respond c m =
     do { r \<leftarrow> m; case r of Inl e \<Rightarrow> fail_request c e | Inr resp \<Rightarrow> sendResp resp }"

section \<open>Locks\<close>

definition lockUpload :: "('s, 'u, 'l, 'k) UnroutedHandler \<Rightarrow> string \<Rightarrow> ('s, 'l, ('l, 'k) LockerOps \<times> 'k) io" where
  "lockUpload h i =
     (case Locker (composer h) of
        None \<Rightarrow> failE nil_deref
      | Some ops \<Rightarrow>
          (case NewLock ops i of
             Inl e \<Rightarrow> failE e
           | Inr lock \<Rightarrow>
               thenE (lock_op (Lock ops lock))
                 (\<lambda>e. case e of Some x \<Rightarrow> failE x | None \<Rightarrow> okE (ops, lock))))"

text \<open>The lock is taken when a locker is used, and the deferred unlock runs after the body.\<close>

definition withLock ::
  "('s, 'u, 'l, 'k) UnroutedHandler \<Rightarrow> Request \<Rightarrow> string \<Rightarrow> (('s, 'l) world, unit) state \<Rightarrow>
     (('s, 'l) world, unit) state" where
  "withLock h c i body =
     (if UsesLocker (composer h) then
        do { l \<leftarrow> lockUpload h i;
             case l of
               Inl e \<Rightarrow> fail_request c e
             | Inr (ops, lock) \<Rightarrow>
                 do { body; _ \<leftarrow> lock_op (Unlock ops lock); State_Monad.return () } }
      else body)"

section \<open>Writing, finishing and terminating uploads\<close>

definition emitFinishEvents ::
  "('s, 'u, 'l, 'k) UnroutedHandler \<Rightarrow> Request \<Rightarrow> HTTPResponse \<Rightarrow> FileInfo \<Rightarrow> ('s, 'l, HTTPResponse) io" where
  "emitFinishEvents h c resp info =
     bindE (case PreFinishResponseCallback (config h) of
              None \<Rightarrow> okE resp
            | Some cb \<Rightarrow> (case cb (newHookEvent c info) of
                            (resp2, Some e) \<Rightarrow> failE e
                          | (resp2, None) \<Rightarrow> okE (MergeWith resp resp2)))
       (\<lambda>resp.
         thenE (count incUploadsFinished) (\<lambda>_.
         thenE (if NotifyCompleteUploads (config h)
                then modify (\<lambda>w. w\<lparr>w_complete := w_complete w @ [newHookEvent c info]\<rparr>)
                else State_Monad.return ()) (\<lambda>_.
         okE resp)))"

definition finishUploadIfComplete ::
  "('s, 'u, 'l, 'k) UnroutedHandler \<Rightarrow> Request \<Rightarrow> HTTPResponse \<Rightarrow> 'u \<Rightarrow> FileInfo \<Rightarrow>
     ('s, 'l, HTTPResponse \<times> 'u) io" where
  "finishUploadIfComplete h c resp u info =
     (if \<not> SizeIsDeferred info \<and> Offset info = Size info then
        bindE (upload_FinishUpload h u) (\<lambda>u.
        bindE (emitFinishEvents h c resp info) (\<lambda>resp.
        okE (resp, u)))
      else okE (resp, u))"

definition terminateUpload ::
  "('s, 'u, 'l, 'k) UnroutedHandler \<Rightarrow> Request \<Rightarrow> 'u \<Rightarrow> FileInfo \<Rightarrow>
     (('s, 'l) world, err option \<times> 'u) state" where
  "terminateUpload h c u info =
     (case Terminater (composer h) of
        None \<Rightarrow> State_Monad.return (Some nil_deref, u)
      | Some f \<Rightarrow>
          do { r \<leftarrow> store_op (\<lambda>s. case f u s of (e, u', s') \<Rightarrow> ((e, u'), s'));
               case r of
                 (Some e, u') \<Rightarrow> State_Monad.return (Some e, u')
               | (None, u') \<Rightarrow>
                   do { (if NotifyTerminatedUploads (config h)
                         then modify (\<lambda>w. w\<lparr>w_terminated := w_terminated w @ [newHookEvent c info]\<rparr>)
                         else State_Monad.return ());
                        count incUploadsTerminated;
                        State_Monad.return (None, u') } })"

text \<open>
  The progress notifications for the byte counts observed while the body is read: one for
  every change of the offset.
\<close>

fun progress_events :: "HookEvent \<Rightarrow> int \<Rightarrow> int \<Rightarrow> int list \<Rightarrow> HookEvent list" where
  "progress_events hook originalOffset previousOffset [] = []"
| "progress_events hook originalOffset previousOffset (b # bs) =
     (let off = add64 originalOffset b
      in if off \<noteq> previousOffset
         then hook\<lparr>Upload := (Upload hook)\<lparr>Offset := off\<rparr>\<rparr> # progress_events hook originalOffset off bs
         else progress_events hook originalOffset previousOffset bs)"

definition sendProgressMessages :: "Request \<Rightarrow> FileInfo \<Rightarrow> (('s, 'l) world, unit) state" where
  "sendProgressMessages c info =
     modify (\<lambda>w. w\<lparr>w_progress := w_progress w @
       progress_events (newHookEvent c info) (Offset info) 0 (ProgressSamples c)\<rparr>)"

text \<open>
  The goroutine of \<^verbatim>\<open>newContext\<close> closes the body only for the causes of the handler itself;
  any other cancellation does not reach the reader.
\<close>

definition relayed_cause :: "err \<Rightarrow> bool" where
  "relayed_cause e \<longleftrightarrow> errors_Is (Some e) ErrServerShutdown \<or> errors_Is (Some e) ErrUploadInterrupted \<or>
     errors_Is (Some e) ErrUploadStoppedByServer"

definition relayed_events :: "body_event list \<Rightarrow> body_event list" where
  "relayed_events = filter (\<lambda>ev. case ev of CloseWith e \<Rightarrow> relayed_cause e | _ \<Rightarrow> True)"

text \<open>How many bytes of the body \<^verbatim>\<open>writeChunk\<close> allows.\<close>

definition chunk_limit :: "('s, 'u, 'l, 'k) UnroutedHandler \<Rightarrow> FileInfo \<Rightarrow> int \<Rightarrow> int" where
  "chunk_limit h info len =
     (let maxSize0 = sub64 (Size info) (Offset info);
          maxSize1 = (if SizeIsDeferred info then
                        (if MaxSize (config h) > 0 then sub64 (MaxSize (config h)) (Offset info)
                         else MaxInt64)
                      else maxSize0)
      in if len > 0 then len else maxSize1)"

text \<open>
  The part of \<^verbatim>\<open>writeChunk\<close> that needs a body: the chunk is stored, and the upload is
  terminated when the server stopped it. It yields the bytes written, the error, and the
  upload object.
\<close>

definition store_body ::
  "('s, 'u, 'l, 'k) UnroutedHandler \<Rightarrow> Request \<Rightarrow> 'u \<Rightarrow> FileInfo \<Rightarrow> body_event list \<Rightarrow>
     ('s, 'l, int \<times> err option \<times> 'u) io" where
  "store_body h c u info src =
     (case Core (composer h) of
        None \<Rightarrow> failE nil_deref
      | Some d \<Rightarrow>
          (let body = newBodyReader (relayed_events src) (chunk_limit h info (ContentLength c));
               info = info\<lparr>hasStop := True\<rparr>
           in thenE (if NotifyUploadProgress (config h) then sendProgressMessages c info
                     else State_Monad.return ()) (\<lambda>_.
              thenE (store_op (\<lambda>s. case WriteChunk d u (Offset info) body s of
                                     (res, body', u', s') \<Rightarrow> ((res, body', u'), s')))
                (\<lambda>((bytesWritten, e), body', u').
                  let bodyErr = hasError body';
                      e1 = (case e of None \<Rightarrow> bodyErr | Some x \<Rightarrow> Some x)
                  in if errors_Is bodyErr ErrUploadStoppedByServer \<and> UsesTerminater (composer h) then
                       thenE (terminateUpload h c u' info)
                         (\<lambda>(te, u''). case te of
                              Some (Panic s) \<Rightarrow> failE (Panic s)
                            | _ \<Rightarrow> okE (bytesWritten, e1, u''))
                     else okE (bytesWritten, e1, u')))))"

text \<open>
  An error of the chunk goes before the one of the completion, unless the completion has panicked.
\<close>

definition prior_error :: "err \<Rightarrow> err + 'a \<Rightarrow> err" where
  "prior_error x fin = (case fin of Inl (Panic s) \<Rightarrow> Panic s | _ \<Rightarrow> x)"

definition writeChunk ::
  "('s, 'u, 'l, 'k) UnroutedHandler \<Rightarrow> Request \<Rightarrow> HTTPResponse \<Rightarrow> 'u \<Rightarrow> FileInfo \<Rightarrow>
     ('s, 'l, HTTPResponse \<times> 'u) io" where
  "writeChunk h c resp u info =
     (let len = ContentLength c; offset = Offset info
      in if \<not> SizeIsDeferred info \<and> add64 offset len > Size info then
           failE (TusError ErrSizeExceeded)
         else
           bindE (case ReqBody c of
                    None \<Rightarrow> okE (0, None, u)
                  | Some src \<Rightarrow> store_body h c u info src)
             (\<lambda>(bytesWritten, e, u).
               let newOffset = add64 offset bytesWritten;
                   resp = set_header ''Upload-Offset'' (FormatInt newOffset) resp;
                   info = info\<lparr>Offset := newOffset, hasStop := (hasStop info \<or> ReqBody c \<noteq> None)\<rparr>
               in thenE (count (incBytesReceived (word_of_int bytesWritten))) (\<lambda>_.
                  thenE (finishUploadIfComplete h c resp u info) (\<lambda>fin.
                  case e of Some x \<Rightarrow> failE (prior_error x fin) | None \<Rightarrow> liftE fin))))"

section \<open>Creating uploads\<close>

text \<open>The pre-create hook and its changes, the same in both versions of the protocol.\<close>

definition pre_create ::
  "('s, 'u, 'l, 'k) UnroutedHandler \<Rightarrow> Request \<Rightarrow> FileInfo \<Rightarrow> HTTPResponse \<Rightarrow>
     ('s, 'l, FileInfo \<times> HTTPResponse) io" where
  "pre_create h c info resp =
     (case PreUploadCreateCallback (config h) of
        None \<Rightarrow> okE (info, resp)
      | Some cb \<Rightarrow>
          (case cb (newHookEvent c info) of
             (resp2, changes, Some e) \<Rightarrow> failE e
           | (resp2, changes, None) \<Rightarrow>
               (let resp = MergeWith resp resp2
                in case (if ch_ID changes \<noteq> [] then validateUploadId (ch_ID changes) else None) of
                     Some e \<Rightarrow> failE e
                   | None \<Rightarrow>
                       (let info1 = (if ch_ID changes \<noteq> [] then info\<lparr>ID := ch_ID changes\<rparr> else info);
                            info2 = (case ch_MetaData changes of
                                       Some m \<Rightarrow> info1\<lparr>MetaData := m\<rparr> | None \<Rightarrow> info1);
                            info3 = (case ch_Storage changes of
                                       Some m \<Rightarrow> info2\<lparr>Storage := m\<rparr> | None \<Rightarrow> info2)
                        in okE (info3, resp)))))"

text \<open>The uploads to be concatenated and the sum of their sizes.\<close>

fun sizeOfUploads ::
  "('s, 'u, 'l, 'k) UnroutedHandler \<Rightarrow> string list \<Rightarrow> 'u list \<Rightarrow> int \<Rightarrow> ('s, 'l, 'u list \<times> int) io" where
  "sizeOfUploads h [] partialUploads acc = okE (partialUploads, acc)"
| "sizeOfUploads h (i # ids) partialUploads acc =
     bindE (core_GetUpload h i) (\<lambda>u.
     bindE (upload_GetInfo h u) (\<lambda>(info, u).
       if SizeIsDeferred info \<or> Offset info \<noteq> Size info then failE (TusError ErrUploadNotFinished)
       else sizeOfUploads h ids (partialUploads @ [u]) (add64 acc (Size info))))"

text \<open>
  \<^verbatim>\<open>PostFile\<close> up to the point where the upload exists: the checks, the hook, the creation
  and, for a final upload, the concatenation.
\<close>

record 'u created =
  cr_resp :: HTTPResponse
  cr_upload :: 'u
  cr_info :: FileInfo
  cr_size :: int
  cr_deferred :: bool

definition notify_created ::
  "('s, 'u, 'l, 'k) UnroutedHandler \<Rightarrow> Request \<Rightarrow> FileInfo \<Rightarrow> (('s, 'l) world, unit) state" where
  "notify_created h c info =
     (if NotifyCreatedUploads (config h)
      then modify (\<lambda>w. w\<lparr>w_created := w_created w @ [newHookEvent c info]\<rparr>)
      else State_Monad.return ())"

definition post_size ::
  "('s, 'u, 'l, 'k) UnroutedHandler \<Rightarrow> Request \<Rightarrow> bool \<Rightarrow> bool \<Rightarrow> string list \<Rightarrow>
     ('s, 'l, 'u list \<times> int \<times> bool) io" where
  "post_size h r containsChunk isFinal partialIDs =
     (if isFinal then
        (if containsChunk then failE (TusError ErrModifyFinal)
         else bindE (sizeOfUploads h partialIDs [] 0) (\<lambda>(us, total_size). okE (us, total_size, False)))
      else
        (case validateNewUploadLengthHeaders h (req_header r ''Upload-Length'')
                (req_header r ''Upload-Defer-Length'') of
           Inl e \<Rightarrow> failE e
         | Inr (total_size, deferred) \<Rightarrow> okE ([], total_size, deferred)))"

text \<open>The upload is created and its information read back.\<close>

definition start_upload :: "('s, 'u, 'l, 'k) UnroutedHandler \<Rightarrow> FileInfo \<Rightarrow> ('s, 'l, FileInfo \<times> 'u) io" where
  "start_upload h info = bindE (core_NewUpload h info) (upload_GetInfo h)"

text \<open>A final upload gets its content from the partial uploads.\<close>

definition concat_created ::
  "('s, 'u, 'l, 'k) UnroutedHandler \<Rightarrow> Request \<Rightarrow> bool \<Rightarrow> 'u list \<Rightarrow> 'u created \<Rightarrow> ('s, 'l, 'u created) io" where
  "concat_created h c isFinal partialUploads cr =
     (if isFinal then
        bindE (upload_ConcatUploads h (cr_upload cr) partialUploads) (\<lambda>u.
        let info = (cr_info cr)\<lparr>Offset := cr_size cr\<rparr>
        in bindE (emitFinishEvents h c (cr_resp cr) info) (\<lambda>resp.
           okE (cr\<lparr>cr_resp := resp, cr_upload := u, cr_info := info\<rparr>)))
      else okE cr)"

text \<open>From the hook to the point where the upload exists with its content.\<close>

definition create_upload ::
  "('s, 'u, 'l, 'k) UnroutedHandler \<Rightarrow> Request \<Rightarrow> Request \<Rightarrow> 'u list \<Rightarrow> FileInfo \<Rightarrow> ('s, 'l, 'u created) io" where
  "create_upload h c r partialUploads info0 =
     bindE (pre_create h c info0 (emptyResponse\<lparr>StatusCode := 201\<rparr>)) (\<lambda>(info, resp).
     bindE (start_upload h info) (\<lambda>(info, u).
     let resp = set_header ''Location'' (absFileURL h r (ID info)) resp
     in thenE (count incUploadsCreated) (\<lambda>_.
        thenE (notify_created h c info) (\<lambda>_.
        concat_created h c (IsFinal info0) partialUploads
          \<lparr>cr_resp = resp, cr_upload = u, cr_info = info, cr_size = Size info0,
           cr_deferred = SizeIsDeferred info0\<rparr>))))"

definition post_create ::
  "('s, 'u, 'l, 'k) UnroutedHandler \<Rightarrow> Request \<Rightarrow> Request \<Rightarrow> bool \<Rightarrow> ('s, 'l, 'u created) io" where
  "post_create h c r containsChunk =
     (let concatHeader = (if UsesConcater (composer h) then req_header r ''Upload-Concat'' else [])
      in if concatHeader \<noteq> [] \<and> DisableConcatenation (config h) then
           failE (TusError ErrConcatenationUnsupported)
         else case parseConcat concatHeader (basePath h) of
           Inl e \<Rightarrow> failE e
         | Inr (isPartial, isFinal, partialIDs) \<Rightarrow>
             bindE (post_size h r containsChunk isFinal partialIDs) (\<lambda>(partialUploads, total_size, deferred).
             if MaxSize (config h) > 0 \<and> total_size > MaxSize (config h) then
               failE (TusError ErrMaxSizeExceeded)
             else
               create_upload h c r partialUploads
                 (emptyFileInfo\<lparr>Size := total_size, SizeIsDeferred := deferred,
                    MetaData := ParseMetadataHeader (req_header r ''Upload-Metadata''),
                    IsPartial := isPartial, IsFinal := isFinal, PartialUploads := partialIDs\<rparr>)))"

text \<open>
  Creation in the IETF draft: the upload object, the response so far and the information,
  after the interim response 104 has been sent.
\<close>

definition draft_info ::
  "('s, 'u, 'l, 'k) UnroutedHandler \<Rightarrow> Request \<Rightarrow> err + FileInfo" where
  "draft_info h r =
     (case getIETFDraftUploadLength r of
        Inl e \<Rightarrow> Inl e
      | Inr (total_size, deferred) \<Rightarrow>
          if deferred \<and> \<not> UsesLengthDeferrer (composer h) then Inl (TusError ErrNotImplemented)
          else
            (let info0 = (if deferred then emptyFileInfo\<lparr>SizeIsDeferred := True\<rparr>
                          else emptyFileInfo\<lparr>Size := total_size\<rparr>);
                 contentType = req_header r ''Content-Type'';
                 contentDisposition = req_header r ''Content-Disposition''
             in case (if contentType \<noteq> [] then map_sum id fst (ParseMediaType (config h) contentType)
                      else Inr []) of
                  Inl e \<Rightarrow> Inl e
                | Inr fileType \<Rightarrow>
                    (let info1 = (if contentType \<noteq> []
                                  then info0\<lparr>MetaData := map_set ''filetype'' fileType (MetaData info0)\<rparr>
                                  else info0)
                     in case (if contentDisposition \<noteq> []
                              then map_sum id snd (ParseMediaType (config h) contentDisposition)
                              else Inr []) of
                          Inl e \<Rightarrow> Inl e
                        | Inr values \<Rightarrow>
                            Inr (if contentDisposition \<noteq> [] \<and> map_str values ''filename'' \<noteq> []
                                 then info1\<lparr>MetaData := map_set ''filename'' (map_str values ''filename'') (MetaData info1)\<rparr>
                                 else info1))))"

definition draft_create ::
  "('s, 'u, 'l, 'k) UnroutedHandler \<Rightarrow> Request \<Rightarrow> Request \<Rightarrow> ('s, 'l, HTTPResponse \<times> 'u \<times> FileInfo) io" where
  "draft_create h c r =
     bindE (liftE (draft_info h r)) (\<lambda>info.
     bindE (pre_create h c info (emptyResponse\<lparr>StatusCode := 201\<rparr>)) (\<lambda>(info, resp).
     bindE (start_upload h info) (\<lambda>(info, u).
     let url = absFileURL h r (ID info);
         limits = getIETFDraftUploadLimits h info;
         resp = set_header ''Upload-Limit'' limits (set_header ''Location'' url resp)
     in thenE (on_res (\<lambda>w. WriteHeader 104
                 (set_rw_header ''Upload-Limit'' limits
                 (set_rw_header ''Upload-Draft-Interop-Version'' (getIETFDraftInteropVersion r)
                 (set_rw_header ''Location'' url w))))) (\<lambda>_.
        thenE (count incUploadsCreated) (\<lambda>_.
        thenE (notify_created h c info) (\<lambda>_.
        okE (resp, u, info)))))))"

text \<open>
  When the client says that the upload is complete with this request and its length was
  deferred, the length is declared and the upload finished.
\<close>

definition complete_deferred ::
  "('s, 'u, 'l, 'k) UnroutedHandler \<Rightarrow> Request \<Rightarrow> Request \<Rightarrow> FileInfo \<Rightarrow> HTTPResponse \<times> 'u \<Rightarrow>
     ('s, 'l, HTTPResponse) io" where
  "complete_deferred h c r info ru =
     (case ru of (resp, u) \<Rightarrow>
        if isIETFDraftUploadComplete r \<and> SizeIsDeferred info then
          bindE (upload_GetInfo h u) (\<lambda>(info, u).
          let uploadLength = Offset info
          in bindE (upload_DeclareLength h u uploadLength) (\<lambda>u.
             bindE (finishUploadIfComplete h c resp u
                      (info\<lparr>Size := uploadLength, SizeIsDeferred := False\<rparr>)) (\<lambda>(resp, u).
             okE resp)))
        else okE resp)"

definition PostFileV2 ::
  "('s, 'u, 'l, 'k) UnroutedHandler \<Rightarrow> Request \<Rightarrow> Request \<Rightarrow> (('s, 'l) world, unit) state" where
  "PostFileV2 h c r =
     do { p \<leftarrow> draft_create h c r;
          case p of
            Inl e \<Rightarrow> fail_request c e
          | Inr (resp, u, info) \<Rightarrow>
              withLock h c (ID info)
                (respond c (bindE (writeChunk h c resp u info) (complete_deferred h c r info))) }"

definition PostFile ::
  "('s, 'u, 'l, 'k) UnroutedHandler \<Rightarrow> Request \<Rightarrow> Request \<Rightarrow> (('s, 'l) world, unit) state" where
  "PostFile h c r =
     (if usesIETFDraft h r then PostFileV2 h c r
      else
        (let containsChunk = (req_header r ''Content-Type'' = ''application/offset+octet-stream'')
         in do { p \<leftarrow> post_create h c r containsChunk;
                 case p of
                   Inl e \<Rightarrow> fail_request c e
                 | Inr cr \<Rightarrow>
                     if containsChunk then
                       withLock h c (ID (cr_info cr))
                         (respond c (bindE (writeChunk h c (cr_resp cr) (cr_upload cr) (cr_info cr))
                            (\<lambda>(resp, u). okE resp)))
                     else if \<not> cr_deferred cr \<and> cr_size cr = 0 then
                       respond c (bindE (finishUploadIfComplete h c (cr_resp cr) (cr_upload cr) (cr_info cr))
                         (\<lambda>(resp, u). okE resp))
                     else sendResp (cr_resp cr) }))"

section \<open>Reading, appending to, downloading and deleting uploads\<close>

definition head_response ::
  "('s, 'u, 'l, 'k) UnroutedHandler \<Rightarrow> Request \<Rightarrow> FileInfo \<Rightarrow> HTTPResponse" where
  "head_response h r info =
     (let resp0 = emptyResponse\<lparr>Header := [(''Cache-Control'', ''no-store''),
                                          (''Upload-Offset'', FormatInt (Offset info))]\<rparr>
      in if \<not> usesIETFDraft h r then
           (let resp1 = (if IsPartial info then set_header ''Upload-Concat'' ''partial'' resp0 else resp0);
                resp2 = (if IsFinal info
                         then set_header ''Upload-Concat'' (final_concat_header h r (PartialUploads info)) resp1
                         else resp1);
                resp3 = (if length (MetaData info) \<noteq> 0
                         then set_header ''Upload-Metadata'' (SerializeMetadataHeader (MetaData info)) resp2
                         else resp2);
                resp4 = (if SizeIsDeferred info
                         then set_header ''Upload-Defer-Length'' UploadLengthDeferred resp3
                         else set_header ''Content-Length'' (FormatInt (Size info))
                                (set_header ''Upload-Length'' (FormatInt (Size info)) resp3))
            in resp4\<lparr>StatusCode := 200\<rparr>)
         else
           (let complete = (\<not> SizeIsDeferred info \<and> Offset info = Size info);
                resp1 = setIETFDraftUploadComplete r resp0 complete;
                resp2 = set_header ''Upload-Draft-Interop-Version'' (getIETFDraftInteropVersion r) resp1;
                resp3 = (if \<not> SizeIsDeferred info
                         then set_header ''Upload-Length'' (FormatInt (Size info)) resp2 else resp2);
                resp4 = set_header ''Upload-Limit'' (getIETFDraftUploadLimits h info) resp3
            in resp4\<lparr>StatusCode := 204\<rparr>))"

definition head_upload ::
  "('s, 'u, 'l, 'k) UnroutedHandler \<Rightarrow> Request \<Rightarrow> string \<Rightarrow> ('s, 'l, HTTPResponse) io" where
  "head_upload h r i =
     bindE (core_GetUpload h i) (\<lambda>u.
     bindE (upload_GetInfo h u) (\<lambda>(info, u).
     okE (head_response h r info)))"

definition HeadFile ::
  "('s, 'u, 'l, 'k) UnroutedHandler \<Rightarrow> Request \<Rightarrow> Request \<Rightarrow> (('s, 'l) world, unit) state" where
  "HeadFile h c r =
     (let i = extractIDFromPath (URLPath r)
      in withLock h c i (respond c (head_upload h r i)))"

text \<open>\<^verbatim>\<open>PatchFile\<close> under the lock.\<close>

definition declare_length ::
  "('s, 'u, 'l, 'k) UnroutedHandler \<Rightarrow> Request \<Rightarrow> 'u \<Rightarrow> FileInfo \<Rightarrow> ('s, 'l, 'u \<times> FileInfo) io" where
  "declare_length h r u info =
     (if req_header r ''Upload-Length'' \<noteq> [] then
        (if \<not> UsesLengthDeferrer (composer h) then failE (TusError ErrNotImplemented)
         else if \<not> SizeIsDeferred info then failE (TusError ErrInvalidUploadLength)
         else case ParseInt (req_header r ''Upload-Length'') of
           None \<Rightarrow> failE (TusError ErrInvalidUploadLength)
         | Some uploadLength \<Rightarrow>
             if uploadLength < 0 \<or> uploadLength < Offset info \<or>
                (MaxSize (config h) > 0 \<and> uploadLength > MaxSize (config h)) then
               failE (TusError ErrInvalidUploadLength)
             else
               bindE (upload_DeclareLength h u uploadLength) (\<lambda>u.
               okE (u, info\<lparr>Size := uploadLength, SizeIsDeferred := False\<rparr>)))
      else okE (u, info))"

text \<open>The part of \<^verbatim>\<open>PatchFile\<close> that works on the upload information it has read.\<close>

definition patch_checked ::
  "('s, 'u, 'l, 'k) UnroutedHandler \<Rightarrow> Request \<Rightarrow> Request \<Rightarrow> int \<Rightarrow> 'u \<Rightarrow> FileInfo \<Rightarrow> ('s, 'l, HTTPResponse) io" where
  "patch_checked h c r offset u info =
     (if IsFinal info then failE (TusError ErrModifyFinal)
      else if offset \<noteq> Offset info then failE (TusError ErrMismatchOffset)
      else
        (let resp = emptyResponse\<lparr>StatusCode := 204\<rparr>
         in if \<not> SizeIsDeferred info \<and> Offset info = Size info then
              okE (set_header ''Upload-Offset'' (FormatInt offset) resp)
            else
              bindE (declare_length h r u info) (\<lambda>(u, info).
              bindE (writeChunk h c resp u info) (\<lambda>ru.
              complete_deferred h c r info ru))))"

definition patch_upload ::
  "('s, 'u, 'l, 'k) UnroutedHandler \<Rightarrow> Request \<Rightarrow> Request \<Rightarrow> string \<Rightarrow> int \<Rightarrow> ('s, 'l, HTTPResponse) io" where
  "patch_upload h c r i offset =
     bindE (core_GetUpload h i) (\<lambda>u.
     bindE (upload_GetInfo h u) (\<lambda>(info, u).
     patch_checked h c r offset u info))"

definition PatchFile ::
  "('s, 'u, 'l, 'k) UnroutedHandler \<Rightarrow> Request \<Rightarrow> Request \<Rightarrow> (('s, 'l) world, unit) state" where
  "PatchFile h c r =
     (let isTusV1 = (\<not> usesIETFDraft h r); contentType = req_header r ''Content-Type''
      in if isTusV1 \<and> contentType \<noteq> ''application/offset+octet-stream'' then
           sendError c (TusError ErrInvalidContentType)
         else if \<not> isTusV1 \<and> getIETFDraftInteropVersion r \<notin> {''3'', ''4'', ''5''} \<and>
                 contentType \<noteq> ''application/partial-upload'' then
           sendError c (TusError ErrInvalidContentType)
         else case ParseInt (req_header r ''Upload-Offset'') of
           None \<Rightarrow> sendError c (TusError ErrInvalidOffset)
         | Some offset \<Rightarrow>
             if offset < 0 then sendError c (TusError ErrInvalidOffset)
             else
               (let i = extractIDFromPath (URLPath r)
                in withLock h c i (respond c (patch_upload h c r i offset))))"

definition serve_content ::
  "('s, 'u) ContentServerDataStore \<Rightarrow> 'u \<Rightarrow> Request \<Rightarrow> (('s, 'l) world, err option) state" where
  "serve_content serve u r =
     State (\<lambda>w. case serve u r (w_res w) (w_store w) of
                  (e, res, s') \<Rightarrow> (e, w\<lparr>w_store := s', w_res := res\<rparr>))"

definition get_upload ::
  "('s, 'u, 'l, 'k) UnroutedHandler \<Rightarrow> Request \<Rightarrow> Request \<Rightarrow> string \<Rightarrow> ('s, 'l, unit) io" where
  "get_upload h c r i =
     bindE (core_GetUpload h i) (\<lambda>u.
     bindE (upload_GetInfo h u) (\<lambda>(info, u).
     case filterContentType (ParseMediaType (config h)) (Quote (config h)) info of
       (contentType, contentDisposition) \<Rightarrow>
         (let resp = emptyResponse\<lparr>StatusCode := 200,
                Header := [(''Content-Length'', FormatInt (Offset info)), (''Content-Type'', contentType),
                           (''Content-Disposition'', contentDisposition)]\<rparr>
          in if UsesContentServer (composer h) then
               (case ContentServer (composer h) of
                  None \<Rightarrow> failE nil_deref
                | Some serve \<Rightarrow>
                    thenE (on_res (\<lambda>w. set_rw_header ''Content-Disposition'' contentDisposition
                                        (set_rw_header ''Content-Type'' contentType w))) (\<lambda>_.
                    thenE (serve_content serve u r) (\<lambda>e.
                    case e of Some x \<Rightarrow> failE x | None \<Rightarrow> okE ())))
             else if Offset info = 0 then
               thenE (sendResp (resp\<lparr>StatusCode := 204\<rparr>)) (\<lambda>_. okE ())
             else
               bindE (upload_GetReader h u) (\<lambda>(content, e).
               thenE (sendResp resp) (\<lambda>_.
               thenE (if content \<noteq> [] then on_res (rw_Write content) else State_Monad.return ()) (\<lambda>_.
               case e of Some x \<Rightarrow> failE x | None \<Rightarrow> okE ()))))))"

definition GetFile ::
  "('s, 'u, 'l, 'k) UnroutedHandler \<Rightarrow> Request \<Rightarrow> Request \<Rightarrow> (('s, 'l) world, unit) state" where
  "GetFile h c r =
     (let i = extractIDFromPath (URLPath r)
      in withLock h c i
           (do { res \<leftarrow> get_upload h c r i;
                 case res of Inl e \<Rightarrow> fail_request c e | Inr _ \<Rightarrow> State_Monad.return () }))"

definition delete_upload ::
  "('s, 'u, 'l, 'k) UnroutedHandler \<Rightarrow> Request \<Rightarrow> string \<Rightarrow> ('s, 'l, HTTPResponse) io" where
  "delete_upload h c i =
     bindE (core_GetUpload h i) (\<lambda>u.
     bindE (if NotifyTerminatedUploads (config h) \<or> PreUploadTerminateCallback (config h) \<noteq> None
            then upload_GetInfo h u else okE (emptyFileInfo, u)) (\<lambda>(info, u).
     bindE (case PreUploadTerminateCallback (config h) of
              None \<Rightarrow> okE (emptyResponse\<lparr>StatusCode := 204\<rparr>)
            | Some cb \<Rightarrow> (case cb (newHookEvent c info) of
                            (resp2, Some e) \<Rightarrow> failE e
                          | (resp2, None) \<Rightarrow> okE (MergeWith (emptyResponse\<lparr>StatusCode := 204\<rparr>) resp2)))
       (\<lambda>resp.
     thenE (terminateUpload h c u info) (\<lambda>(e, u).
     case e of Some x \<Rightarrow> failE x | None \<Rightarrow> okE resp))))"

definition DelFile ::
  "('s, 'u, 'l, 'k) UnroutedHandler \<Rightarrow> Request \<Rightarrow> Request \<Rightarrow> (('s, 'l) world, unit) state" where
  "DelFile h c r =
     (if \<not> UsesTerminater (composer h) then sendError c (TusError ErrNotImplemented)
      else let i = extractIDFromPath (URLPath r)
           in withLock h c i (respond c (delete_upload h c i)))"

section \<open>Middleware and routing\<close>

definition override_method :: "Request \<Rightarrow> Request" where
  "override_method r =
     (if Method r = ''POST'' \<and> req_header r ''X-HTTP-Method-Override'' \<noteq> []
      then r\<lparr>Method := req_header r ''X-HTTP-Method-Override''\<rparr> else r)"

text \<open>The headers of an accepted cross-origin request.\<close>

definition cors_headers :: "CorsConfig \<Rightarrow> Request \<Rightarrow> string \<Rightarrow> ResponseWriter \<Rightarrow> ResponseWriter" where
  "cors_headers cors r origin w =
     (let w1 = set_rw_header ''Vary'' ''Origin'' (set_rw_header ''Access-Control-Allow-Origin'' origin w);
          w2 = (if AllowCredentials cors
                then add_rw_header ''Access-Control-Allow-Credentials'' ''true'' w1 else w1)
      in if Method r = ''OPTIONS'' then
           set_rw_header ''Access-Control-Max-Age'' (MaxAge cors)
             (add_rw_header ''Access-Control-Allow-Headers'' (AllowHeaders cors)
             (add_rw_header ''Access-Control-Allow-Methods'' (AllowMethods cors) w2))
         else add_rw_header ''Access-Control-Expose-Headers'' (ExposeHeaders cors) w2)"

definition options_headers ::
  "('s, 'u, 'l, 'k) UnroutedHandler \<Rightarrow> Request \<Rightarrow> ResponseWriter \<Rightarrow> ResponseWriter" where
  "options_headers h r w =
     (let maxSizeStr = FormatInt (MaxSize (config h));
          w1 = (if MaxSize (config h) > 0 then set_rw_header ''Tus-Max-Size'' maxSizeStr w else w);
          limits = (if MaxSize (config h) > 0 then ''min-size=0,max-size='' @ maxSizeStr else ''min-size=0'');
          w2 = (if usesIETFDraft h r then set_rw_header ''Upload-Limit'' limits w1 else w1)
      in set_rw_header ''Tus-Extension'' (extensions h) (set_rw_header ''Tus-Version'' ''1.0.0'' w2))"

definition Middleware ::
  "('s, 'u, 'l, 'k) UnroutedHandler \<Rightarrow> (Request \<Rightarrow> Request \<Rightarrow> (('s, 'l) world, unit) state) \<Rightarrow>
     Request \<Rightarrow> (('s, 'l) world, unit) state" where
  "Middleware h next_handler c =
     (let r = override_method c; origin = req_header r ''Origin''
      in do {
        count (incRequestsTotal (Method r));
        case Cors (config h) of
          None \<Rightarrow> fail_request c nil_deref
        | Some cors \<Rightarrow>
            if \<not> Disable cors \<and> origin \<noteq> [] \<and> \<not> AllowOrigin cors origin then
              sendError c (TusError ErrOriginNotAllowed)
            else do {
              (if \<not> Disable cors \<and> origin \<noteq> [] then on_res (cors_headers cors r origin)
               else State_Monad.return ());
              (if \<not> usesIETFDraft h r then on_res (set_rw_header ''Tus-Resumable'' ''1.0.0'')
               else State_Monad.return ());
              on_res (set_rw_header ''X-Content-Type-Options'' ''nosniff'');
              (if Method r = ''OPTIONS'' then do {
                 on_res (options_headers h r);
                 sendResp (emptyResponse\<lparr>StatusCode := 200\<rparr>) }
               else if Method r \<noteq> ''GET'' \<and> Method r \<noteq> ''HEAD'' \<and>
                       req_header r ''Tus-Resumable'' \<noteq> ''1.0.0'' \<and> \<not> usesIETFDraft h r then
                 sendError c (TusError ErrUnsupportedVersion)
               else next_handler c r) } })"

definition method_not_allowed :: "string \<Rightarrow> (('s, 'l) world, unit) state" where
  "method_not_allowed allow =
     on_res (\<lambda>w. rw_Write ''method not allowed'' (WriteHeader 405 (add_rw_header ''Allow'' allow w)))"

definition mux ::
  "('s, 'u, 'l, 'k) UnroutedHandler \<Rightarrow> Request \<Rightarrow> Request \<Rightarrow> (('s, 'l) world, unit) state" where
  "mux h c r =
     (let method = Method r; path = TrimChar (CHR ''/'') (URLPath r)
      in if path = [] then
           (if method = ''POST'' then PostFile h c r else method_not_allowed ''POST'')
         else if method = ''HEAD'' \<and> URLPath r \<noteq> [] then HeadFile h c r
         else if method = ''PATCH'' \<and> URLPath r \<noteq> [] then PatchFile h c r
         else if method = ''GET'' \<and> URLPath r \<noteq> [] \<and> \<not> DisableDownload (config h) then GetFile h c r
         else if method = ''DELETE'' \<and> URLPath r \<noteq> [] \<and> UsesTerminater (composer h) \<and>
                 \<not> DisableTermination (config h) then DelFile h c r
         else method_not_allowed ''GET, HEAD, PATCH, DELETE'')"

text \<open>The routed handler: what it does with a request.\<close>

definition ServeHTTP ::
  "('s, 'u, 'l, 'k) UnroutedHandler \<Rightarrow> Request \<Rightarrow> (('s, 'l) world, unit) state" where
  "ServeHTTP h = Middleware h (mux h)"

definition NewHandler ::
  "(string \<Rightarrow> err + bool) \<Rightarrow> ('s, 'u, 'l, 'k) Config \<Rightarrow> err + (Request \<Rightarrow> (('s, 'l) world, unit) state)" where
  "NewHandler url_Parse config0 =
     (case validate url_Parse config0 of
        Inl e \<Rightarrow> Inl e
      | Inr cfg \<Rightarrow> (case NewUnroutedHandler url_Parse cfg of Inl e \<Rightarrow> Inl e | Inr h \<Rightarrow> Inr (ServeHTTP h)))"

end
