(* ===== verification/StoreContract.thy ===== *)
theory StoreContract
  imports Handler
begin

text \<open>
  What the handler relies on in a data store, as a contract over an abstract view: for every
  upload identifier its information and the bytes stored so far. The handlers are then proved
  against the contract, for every store that keeps it, including stores whose operations fail
  halfway. \<open>same i j\<close> says that two identifiers name the same stored upload.
\<close>

section \<open>Vocabulary\<close>

type_synonym uploads = "string \<Rightarrow> (FileInfo \<times> bytes) option"

text \<open>The fields of the upload information on which the handlers decide.\<close>

definition core_eq :: "FileInfo \<Rightarrow> FileInfo \<Rightarrow> bool" where
  "core_eq a b \<longleftrightarrow> Size a = Size b \<and> SizeIsDeferred a = SizeIsDeferred b \<and> Offset a = Offset b \<and>
     IsPartial a = IsPartial b \<and> IsFinal a = IsFinal b"

text \<open>Only the upload \<open>i\<close> may have changed.\<close>

definition frame :: "(string \<Rightarrow> string \<Rightarrow> bool) \<Rightarrow> string \<Rightarrow> uploads \<Rightarrow> uploads \<Rightarrow> bool" where
  "frame same i v v' \<longleftrightarrow> (\<forall>j. \<not> same i j \<longrightarrow> v' j = v j)"

text \<open>The bytes that a request brings: its body up to the first error or interruption.\<close>

definition body_events :: "Request \<Rightarrow> body_event list" where
  "body_events c = (case ReqBody c of None \<Rightarrow> [] | Some src \<Rightarrow> relayed_events src)"

definition request_bytes :: "Request \<Rightarrow> bytes" where
  "request_bytes c = fst (body_run (body_events c))"

definition request_err :: "Request \<Rightarrow> err option" where
  "request_err c = snd (body_run (body_events c))"

lemma core_eq_refl [simp]: "core_eq a a"
  by (simp add: core_eq_def)

lemma frame_refl [simp]: "frame same i v v"
  by (simp add: frame_def)

lemma frame_trans: "frame same i u v \<Longrightarrow> frame same i v w \<Longrightarrow> frame same i u w"
  by (simp add: frame_def)

text \<open>Some first bytes of \<open>data\<close> have been appended to an upload.\<close>

definition grown :: "nat \<Rightarrow> bytes \<Rightarrow> FileInfo \<times> bytes \<Rightarrow> FileInfo \<times> bytes" where
  "grown m data x = (case x of (info, c) \<Rightarrow> (info\<lparr>Offset := Offset info + int m\<rparr>, c @ take m data))"

lemma grown_0 [simp]: "grown 0 data x = x"
  by (cases x) (simp add: grown_def)

text \<open>An upload keeps its kind, and its size once the size is known.\<close>

definition kind_kept :: "FileInfo \<Rightarrow> FileInfo \<Rightarrow> bool" where
  "kind_kept a b \<longleftrightarrow> IsFinal b = IsFinal a \<and> IsPartial b = IsPartial a \<and>
     (\<not> SizeIsDeferred a \<longrightarrow> Size b = Size a \<and> \<not> SizeIsDeferred b)"

lemma kind_kept_refl [simp]: "kind_kept a a"
  by (simp add: kind_kept_def)

lemma kind_kept_trans: "kind_kept a b \<Longrightarrow> kind_kept b c \<Longrightarrow> kind_kept a c"
  by (simp add: kind_kept_def)

text \<open>What a request may do to one upload: append some of its bytes, or lose the upload.\<close>

definition advances :: "bytes \<Rightarrow> FileInfo \<times> bytes \<Rightarrow> (FileInfo \<times> bytes) option \<Rightarrow> bool" where
  "advances data x y \<longleftrightarrow>
     y = None \<or> (\<exists>info m. y = Some (info, snd x @ take m data) \<and> kind_kept (fst x) info)"

lemma advances_refl [simp]: "advances data x (Some x)"
  by (cases x) (auto simp: advances_def intro!: exI [of _ 0])

lemma advances_None [simp]: "advances data x None"
  by (simp add: advances_def)

lemma advances_grown:
  assumes "kind_kept info0 info1" "data = take k bytes"
  shows "advances bytes (info0, c0) (Some (grown m data (info1, c0)))"
proof -
  have "take m data = take (min k m) bytes" using assms(2) by (simp add: min.commute)
  moreover have "kind_kept info0 (info1\<lparr>Offset := n\<rparr>)" for n
    using assms(1) by (simp add: kind_kept_def)
  ultimately show ?thesis by (auto simp: advances_def grown_def)
qed

lemma advances_trans:
  assumes "advances data x (Some (info, c))" "y = None \<or> (\<exists>info'. y = Some (info', c) \<and> kind_kept info info')"
  shows "advances data x y"
  using assms by (auto simp: advances_def intro: kind_kept_trans)

text \<open>
  What a successful append means: all bytes of the request are stored behind the old content,
  and the response says how many bytes the upload has now.
\<close>

definition appended ::
  "('s, 'u, 'l, 'k) UnroutedHandler \<Rightarrow> Request \<Rightarrow> HTTPResponse \<Rightarrow> bytes \<Rightarrow> (FileInfo \<times> bytes) option \<Rightarrow>
     HTTPResponse \<Rightarrow> bool" where
  "appended h c resp c0 y resp' \<longleftrightarrow>
     request_err c = None \<and> (\<exists>info. y = Some (info, c0 @ request_bytes c)) \<and>
     (PreFinishResponseCallback (config h) = None \<longrightarrow>
        resp' = set_header ''Upload-Offset'' (FormatInt (int (length (c0 @ request_bytes c)))) resp)"

text \<open>
  What a PATCH request at an offset may do to the upload \<open>x\<close>, and what a success of it
  means. A final upload and a wrong offset leave everything as it is.
\<close>

definition patch_effect :: "Request \<Rightarrow> int \<Rightarrow> (FileInfo \<times> bytes) option \<Rightarrow> (FileInfo \<times> bytes) option \<Rightarrow> bool" where
  "patch_effect c offset x y \<longleftrightarrow>
     (case x of
        None \<Rightarrow> y = None
      | Some (info, content) \<Rightarrow>
          if IsFinal info \<or> offset \<noteq> int (length content) then y = x
          else advances (request_bytes c) (info, content) y)"

definition patch_success ::
  "('s, 'u, 'l, 'k) UnroutedHandler \<Rightarrow> Request \<Rightarrow> int \<Rightarrow> (FileInfo \<times> bytes) option \<Rightarrow>
     (FileInfo \<times> bytes) option \<Rightarrow> HTTPResponse \<Rightarrow> bool" where
  "patch_success h c offset x y resp \<longleftrightarrow>
     (\<exists>info content. x = Some (info, content) \<and> \<not> IsFinal info \<and> offset = int (length content) \<and>
        (if \<not> SizeIsDeferred info \<and> Size info = int (length content)
         then y = x \<and> resp = set_header ''Upload-Offset'' (FormatInt offset) (emptyResponse\<lparr>StatusCode := 204\<rparr>)
         else appended h c (emptyResponse\<lparr>StatusCode := 204\<rparr>) content y resp))"

text \<open>The reader that \<^verbatim>\<open>writeChunk\<close> hands to the data store.\<close>

definition chunk_reader :: "('s, 'u, 'l, 'k) UnroutedHandler \<Rightarrow> Request \<Rightarrow> FileInfo \<Rightarrow> bodyReader" where
  "chunk_reader h c info = newBodyReader (body_events c) (chunk_limit h info (ContentLength c))"

lemma fresh_chunk_reader [simp]: "fresh_reader (chunk_reader h c info)"
  by (simp add: chunk_reader_def)

lemma convert_err_not_EOF: "e \<noteq> EOF \<Longrightarrow> convert_err e \<noteq> EOF"
  by (simp add: convert_err_def Let_def)

lemma relayed_not_EOF: "relayed_cause e \<Longrightarrow> e \<noteq> EOF"
  by (auto simp: relayed_cause_def errors_Is_def)

lemma body_run_not_EOF: "snd (body_run (relayed_events src)) \<noteq> Some EOF"
proof (induction src)
  case (Cons ev src)
  show ?case
  proof (cases ev)
    case (Chunk d e)
    with Cons show ?thesis
      by (cases e) (auto simp: relayed_events_def stored_err_def convert_err_not_EOF split: prod.splits)
  next
    case (CloseWith e)
    with Cons relayed_not_EOF [of e] show ?thesis by (cases "relayed_cause e") (auto simp: relayed_events_def)
  qed
qed (simp add: relayed_events_def)

lemma reader_err_not_EOF: "reader_err (chunk_reader h c info) \<noteq> Some EOF"
proof -
  have "snd (body_run (body_events c)) \<noteq> Some EOF"
    using body_run_not_EOF by (auto simp: body_events_def split: option.splits)
  then show ?thesis
    by (auto simp: chunk_reader_def newBodyReader_def limited_run_def split: prod.splits if_splits)
qed

text \<open>The data store sees a prefix of the request's bytes, and all of them when no error is kept.\<close>

lemma reader_data_prefix: "\<exists>k. reader_data (chunk_reader h c info) = take k (request_bytes c)"
proof -
  obtain ds e where run: "body_run (body_events c) = (ds, e)" by force
  have "take (length ds) ds = ds" by simp
  with run show ?thesis
    by (auto simp: chunk_reader_def newBodyReader_def limited_run_def request_bytes_def
        intro: exI [of _ "length ds"])
qed

lemma reader_data_all:
  "reader_err (chunk_reader h c info) = None \<Longrightarrow>
     reader_data (chunk_reader h c info) = request_bytes c \<and> request_err c = None"
  by (auto simp: chunk_reader_def newBodyReader_def limited_run_def request_bytes_def request_err_def
      split: prod.splits if_splits)

lemma no_body_reader:
  "ReqBody c = None \<Longrightarrow> reader_data (chunk_reader h c info) = [] \<and> reader_err (chunk_reader h c info) = None"
  by (simp add: chunk_reader_def newBodyReader_def limited_run_def body_events_def)

text \<open>The offset header of a HEAD response survives the headers that are added after it.\<close>

lemma set_header_other:
  "map_of (Header r) k = Some x \<Longrightarrow> k' \<noteq> k \<Longrightarrow> map_of (Header (set_header k' v r)) k = Some x"
  by simp

lemma setComplete_other:
  assumes "map_of (Header resp) ''Upload-Offset'' = Some x"
  shows "map_of (Header (setIETFDraftUploadComplete r resp b)) ''Upload-Offset'' = Some x"
  using assms by (simp add: setIETFDraftUploadComplete_def Let_def)

lemma head_response_offset:
  "map_of (Header (head_response h r info)) ''Upload-Offset'' = Some (FormatInt (Offset info))"
proof -
  let ?r0 = "emptyResponse\<lparr>Header := [(''Cache-Control'', ''no-store''), (''Upload-Offset'', FormatInt (Offset info))]\<rparr>"
  have r0: "map_of (Header ?r0) ''Upload-Offset'' = Some (FormatInt (Offset info))" by simp
  have status: "Header (resp\<lparr>StatusCode := n\<rparr>) = Header resp" for resp :: HTTPResponse and n by simp
  have if_other: "map_of (Header (if b then x else y)) k = Some v"
    if "map_of (Header x) k = Some v" "map_of (Header y) k = Some v" for b x y k v using that by simp
  show ?thesis
    unfolding head_response_def Let_def
    by (rule if_other; unfold status; intro if_other set_header_other setComplete_other r0) simp_all
qed

text \<open>An action that does not touch the store.\<close>

lemma emitFinishEvents_store:
  "triple (\<lambda>w. P (w_store w)) (emitFinishEvents h c resp info)
     (\<lambda>r w. P (w_store w) \<and>
        (\<forall>resp'. r = Inr resp' \<longrightarrow> PreFinishResponseCallback (config h) = None \<longrightarrow> resp' = resp))"
  by (rule tripleI)
    (auto simp: emitFinishEvents_def count_def split: option.splits prod.splits if_splits)

section \<open>The contract of the core data store\<close>

locale upload_store =
  fixes d :: "('s, 'u) DataStore"
    and sinv :: "'s \<Rightarrow> bool"
    and view :: "'s \<Rightarrow> uploads"
    and handle :: "'u \<Rightarrow> 's \<Rightarrow> string \<Rightarrow> bool"
    and owner :: "'u \<Rightarrow> string \<Rightarrow> bool"
    and same :: "string \<Rightarrow> string \<Rightarrow> bool"
  assumes view_offset: "sinv s \<Longrightarrow> view s i = Some (info, c) \<Longrightarrow> Offset info = int (length c)"
    and handle_owner: "handle u s i \<Longrightarrow> owner u i"
    and handle_view: "handle u s i \<Longrightarrow> view s i \<noteq> None"
    and same_refl: "same i i"
    and GetUpload_law:
      "sinv s \<Longrightarrow> GetUpload d i s = (r, s') \<Longrightarrow>
         sinv s' \<and> view s' = view s \<and> (\<forall>u. r = Inr u \<longrightarrow> handle u s' i)"
    and GetInfo_law:
      "sinv s \<Longrightarrow> handle u s i \<Longrightarrow> GetInfo d u s = (ri, u', s') \<Longrightarrow>
         sinv s' \<and> view s' = view s \<and>
         (\<forall>info. ri = Inr info \<longrightarrow> handle u' s' i \<and> (\<exists>info0 c. view s i = Some (info0, c) \<and> core_eq info info0))"
    and opened_law:
      "sinv s \<Longrightarrow> GetUpload d i s = (Inr u, s1) \<Longrightarrow> GetInfo d u s1 = (Inr info, u', s2) \<Longrightarrow>
         \<exists>c. view s i = Some (info, c)"
    and WriteChunk_law:
      "sinv s \<Longrightarrow> handle u s i \<Longrightarrow> view s i = Some (info, c) \<Longrightarrow> fresh_reader b \<Longrightarrow>
       int (length c) + int (length (reader_data b)) \<le> MaxInt64 \<Longrightarrow>
       WriteChunk d u (Offset info) b s = ((n, e), b', u', s') \<Longrightarrow>
         sinv s' \<and> handle u' s' i \<and> frame same i (view s) (view s') \<and>
         (\<exists>m \<le> length (reader_data b). n = int m \<and>
            view s' i = Some (info\<lparr>Offset := Offset info + int m\<rparr>, c @ take m (reader_data b)) \<and>
            (e = None \<longrightarrow> m = length (reader_data b) \<and> br_err b' = reader_err b))"
    and FinishUpload_law:
      "sinv s \<Longrightarrow> owner u i \<Longrightarrow> FinishUpload d u s = (e, u', s') \<Longrightarrow>
         sinv s' \<and> view s' = view s \<and> owner u' i \<and> (e = None \<longrightarrow> handle u s i \<longrightarrow> handle u' s' i)"
    and GetReader_law:
      "sinv s \<Longrightarrow> handle u s i \<Longrightarrow> view s i = Some (info, c) \<Longrightarrow> GetReader d u s = (rr, u', s') \<Longrightarrow>
         sinv s' \<and> view s' = view s \<and> (\<forall>bs e. rr = Inr (bs, e) \<longrightarrow> prefix bs c \<and> (e = None \<longrightarrow> bs = c))"

section \<open>The contract with the extensions\<close>

locale extended_store = upload_store d sinv view handle owner same
  for d :: "('s, 'u) DataStore" and sinv view handle owner same +
  fixes terminate_upload :: "('s, 'u) TerminaterDataStore"
    and declare_len :: "('s, 'u) LengthDeferrerDataStore"
  assumes Terminate_law:
      "sinv s \<Longrightarrow> handle u s i \<Longrightarrow> terminate_upload u s = (e, u', s') \<Longrightarrow>
         sinv s' \<and> owner u' i \<and> frame same i (view s) (view s') \<and>
         (view s' i = None \<or> e \<noteq> None \<and> view s' i = view s i)"
    and DeclareLength_law:
      "sinv s \<Longrightarrow> handle u s i \<Longrightarrow> view s i = Some (info, c) \<Longrightarrow> declare_len u len s = (e, u', s') \<Longrightarrow>
         sinv s' \<and> frame same i (view s) (view s') \<and>
         (if e = None
          then handle u' s' i \<and> view s' i = Some (info\<lparr>Size := len, SizeIsDeferred := False\<rparr>, c)
          else view s' i \<in> {None, view s i, Some (info\<lparr>Size := len, SizeIsDeferred := False\<rparr>, c)})"

section \<open>A handler on such a store\<close>

locale handler_store = extended_store d sinv view handle owner same terminate_upload declare_len
  for d :: "('s, 'u) DataStore" and sinv view handle owner same terminate_upload declare_len +
  fixes h :: "('s, 'u, 'l, 'k) UnroutedHandler"
  assumes core: "Core (composer h) = Some d"
    and terminater: "Terminater (composer h) = Some f \<Longrightarrow> f = terminate_upload"
    and deferrer: "LengthDeferrer (composer h) = Some g \<Longrightarrow> g = declare_len"
begin

lemma triple_store_op:
  "(\<And>w a s'. P w \<Longrightarrow> f (w_store w) = (a, s') \<Longrightarrow> Q a (w\<lparr>w_store := s'\<rparr>)) \<Longrightarrow> triple P (store_op f) Q"
  by (rule tripleI) (auto simp: store_op_def split: prod.splits)

lemma triple_unit_op:
  assumes "\<And>w e u' s'. P w \<Longrightarrow> f (w_store w) = (e, u', s') \<Longrightarrow>
     Q (case e of None \<Rightarrow> Inr u' | Some x \<Rightarrow> Inl x) (w\<lparr>w_store := s'\<rparr>)"
  shows "triple P (unit_op f) Q"
  unfolding unit_op_def
proof (rule triple_store_op)
  fix w a s'
  assume P: "P w" and "(case f (w_store w) of (Some e, u', s') \<Rightarrow> (Inl e, s') | (None, u', s') \<Rightarrow> (Inr u', s')) = (a, s')"
  then obtain e u' where "f (w_store w) = (e, u', s')" "a = (case e of None \<Rightarrow> Inr u' | Some x \<Rightarrow> Inl x)"
    by (auto split: prod.splits option.splits)
  with assms [OF P] show "Q a (w\<lparr>w_store := s'\<rparr>)" by auto
qed

lemma GetUpload_spec:
  "triple (\<lambda>w. sinv (w_store w) \<and> view (w_store w) = v) (core_GetUpload h i)
     (\<lambda>r w. sinv (w_store w) \<and> view (w_store w) = v \<and> (\<forall>u. r = Inr u \<longrightarrow> handle u (w_store w) i))"
  unfolding core_GetUpload_def core option.case
  by (rule triple_store_op) (auto dest: GetUpload_law)

lemma GetInfo_spec:
  "triple (\<lambda>w. sinv (w_store w) \<and> view (w_store w) = v \<and> handle u (w_store w) i) (upload_GetInfo h u)
     (\<lambda>r w. sinv (w_store w) \<and> view (w_store w) = v \<and>
        (\<forall>info u'. r = Inr (info, u') \<longrightarrow> handle u' (w_store w) i \<and>
           (\<exists>info0 c. v i = Some (info0, c) \<and> core_eq info info0)))"
  unfolding upload_GetInfo_def core option.case
  by (rule triple_store_op) (fastforce dest: GetInfo_law split: prod.splits sum.splits)

lemma terminateUpload_spec:
  "triple (\<lambda>w. sinv (w_store w) \<and> view (w_store w) = v \<and> handle u (w_store w) i) (terminateUpload h c u info)
     (\<lambda>(e, u') w. sinv (w_store w) \<and> owner u' i \<and> frame same i v (view (w_store w)) \<and>
        (view (w_store w) i = None \<or> e \<noteq> None \<and> view (w_store w) i = v i))"
proof (cases "Terminater (composer h)")
  case None
  then show ?thesis
    by (auto simp: terminateUpload_def dest: handle_owner intro!: triple_return)
next
  case (Some f)
  let ?Q = "\<lambda>(e, u') w. sinv (w_store w) \<and> owner u' i \<and> frame same i v (view (w_store w)) \<and>
        (view (w_store w) i = None \<or> e \<noteq> None \<and> view (w_store w) i = v i)"
  have step: "triple (\<lambda>w :: ('s, 'l) world. sinv (w_store w) \<and> view (w_store w) = v \<and> handle u (w_store w) i)
    (store_op (\<lambda>s. case terminate_upload u s of (e, u', s') \<Rightarrow> ((e, u'), s'))) ?Q"
  proof (rule triple_store_op)
    fix w :: "('s, 'l) world" and a s'
    assume pre: "sinv (w_store w) \<and> view (w_store w) = v \<and> handle u (w_store w) i"
      and "(case terminate_upload u (w_store w) of (e, u', s') \<Rightarrow> ((e, u'), s')) = (a, s')"
    then obtain e u' where t: "terminate_upload u (w_store w) = (e, u', s')" and a: "a = (e, u')"
      by (auto split: prod.splits)
    from pre Terminate_law [of "w_store w" u i, OF _ _ t] show "?Q a (w\<lparr>w_store := s'\<rparr>)" by (auto simp: a)
  qed
  show ?thesis
    unfolding terminateUpload_def Some option.case terminater [OF Some]
    apply (rule triple_bind [OF step])
    subgoal for x
      by (cases "fst x"; cases x)
        (auto simp: count_def intro!: triple_return triple_modify triple_bind [where R = "\<lambda>_. ?Q x"] triple_if)
    done
qed

lemma WriteChunk_spec:
  assumes "Offset info = Offset info0" "fresh_reader b"
    "int (length c0) + int (length (reader_data b)) \<le> MaxInt64"
  shows "triple (\<lambda>w :: ('s, 'l) world.
      sinv (w_store w) \<and> view (w_store w) = v \<and> handle u (w_store w) i \<and> v i = Some (info0, c0))
    (store_op (\<lambda>s. case WriteChunk d u (Offset info) b s of (res, b', u', s') \<Rightarrow> ((res, b', u'), s')))
    (\<lambda>((n, e), b', u') w. sinv (w_store w) \<and> handle u' (w_store w) i \<and> frame same i v (view (w_store w)) \<and>
       (\<exists>m \<le> length (reader_data b). n = int m \<and>
          view (w_store w) i = Some (grown m (reader_data b) (info0, c0)) \<and>
          (e = None \<longrightarrow> m = length (reader_data b) \<and> br_err b' = reader_err b)))"
    (is "triple _ _ ?Q")
proof (rule triple_store_op)
  fix w :: "('s, 'l) world" and a s'
  assume pre: "sinv (w_store w) \<and> view (w_store w) = v \<and> handle u (w_store w) i \<and> v i = Some (info0, c0)"
    and "(case WriteChunk d u (Offset info) b (w_store w) of (res, b', u', s') \<Rightarrow> ((res, b', u'), s')) = (a, s')"
  then obtain n e b' u' where t: "WriteChunk d u (Offset info0) b (w_store w) = ((n, e), b', u', s')"
    and a: "a = ((n, e), b', u')" using assms(1) by (auto split: prod.splits)
  from pre WriteChunk_law [of "w_store w" u i info0 c0, OF _ _ _ assms(2,3) t]
  show "?Q a (w\<lparr>w_store := s'\<rparr>)"
    by (simp add: a grown_def)
qed

text \<open>
  What \<open>store_body\<close> leaves behind: some of the reader's bytes have been appended, or the
  upload is gone because the server stopped it; without an error all bytes have been appended.
\<close>

abbreviation body_post ::
  "uploads \<Rightarrow> string \<Rightarrow> FileInfo \<times> bytes \<Rightarrow> bodyReader \<Rightarrow> err + int \<times> err option \<times> 'u \<Rightarrow> ('s, 'l) world \<Rightarrow> bool" where
  "body_post v i x b r w \<equiv>
     sinv (w_store w) \<and> frame same i v (view (w_store w)) \<and>
     (\<exists>m \<le> length (reader_data b).
        view (w_store w) i \<in> {None, Some (grown m (reader_data b) x)} \<and>
        (\<forall>n e u'. r = Inr (n, e, u') \<longrightarrow> n = int m \<and> owner u' i \<and>
           (e = None \<longrightarrow> m = length (reader_data b) \<and> reader_err b = None \<and>
              handle u' (w_store w) i \<and> view (w_store w) i = Some (grown m (reader_data b) x))))"

lemma stopped_body_spec:
  assumes "sinv (w_store w1)" "handle u (w_store w1) i" "frame same i v (view (w_store w1))"
    "view (w_store w1) i = Some (grown m (reader_data b) x)" "m \<le> length (reader_data b)" "e \<noteq> None"
  shows "triple (\<lambda>w. w = w1)
    (thenE (terminateUpload h c u info)
       (\<lambda>(te, u''). case te of Some (Panic s) \<Rightarrow> failE (Panic s) | _ \<Rightarrow> okE (int m, e, u'')))
    (body_post v i x b)"
proof (rule triple_thenE)
  show "triple (\<lambda>w. w = w1) (terminateUpload h c u info)
     (\<lambda>(te, u'') w. sinv (w_store w) \<and> owner u'' i \<and> frame same i (view (w_store w1)) (view (w_store w)) \<and>
        view (w_store w) i \<in> {None, view (w_store w1) i})"
    by (rule triple_weaken [OF terminateUpload_spec [of "view (w_store w1)" u i]]) (use assms in auto)
  fix y :: "err option \<times> 'u"
  show "triple ((\<lambda>(te, u'') w. sinv (w_store w) \<and> owner u'' i \<and> frame same i (view (w_store w1)) (view (w_store w)) \<and>
        view (w_store w) i \<in> {None, view (w_store w1) i}) y)
     (case y of (te, u'') \<Rightarrow> case te of Some (Panic s) \<Rightarrow> failE (Panic s) | _ \<Rightarrow> okE (int m, e, u''))
     (body_post v i x b)"
    using assms(3-6) by (cases y)
      (auto split: option.splits err.splits intro!: triple_okE triple_failE exI [of _ m] elim: frame_trans)
qed

lemma store_body_spec:
  assumes src: "ReqBody c = Some src" and eq: "core_eq info info0"
    and bound: "int (length c0) + int (length (reader_data (chunk_reader h c info))) \<le> MaxInt64"
  shows "triple (\<lambda>w. sinv (w_store w) \<and> view (w_store w) = v \<and> handle u (w_store w) i \<and> v i = Some (info0, c0))
    (store_body h c u info src) (body_post v i (info0, c0) (chunk_reader h c info))"
proof -
  let ?b = "chunk_reader h c info" and ?info = "info\<lparr>hasStop := True\<rparr>"
  have b: "newBodyReader (relayed_events src) (chunk_limit h info (ContentLength c)) = ?b"
    by (simp add: chunk_reader_def body_events_def src)
  have off: "Offset ?info = Offset info0" using eq by (simp add: core_eq_def)
  show ?thesis
    unfolding store_body_def core option.case Let_def b
    apply (rule triple_thenE [where R = "\<lambda>_ w. sinv (w_store w) \<and> view (w_store w) = v \<and>
        handle u (w_store w) i \<and> v i = Some (info0, c0)"])
     apply (auto simp: sendProgressMessages_def intro!: triple_if triple_return triple_modify) [1]
    apply (rule triple_thenE [OF WriteChunk_spec [OF off fresh_chunk_reader bound]])
    subgoal for x y
    proof -
      obtain n e b' u' where y: "y = ((n, e), b', u')" by (metis surj_pair)
      show ?thesis
        unfolding y prod.case
      proof (rule triple_pre)
        fix w1 :: "('s, 'l) world"
        assume w1: "sinv (w_store w1) \<and> handle u' (w_store w1) i \<and> frame same i v (view (w_store w1)) \<and>
          (\<exists>m \<le> length (reader_data ?b). n = int m \<and>
             view (w_store w1) i = Some (grown m (reader_data ?b) (info0, c0)) \<and>
             (e = None \<longrightarrow> m = length (reader_data ?b) \<and> br_err b' = reader_err ?b))"
        then obtain m where m: "m \<le> length (reader_data ?b)" "n = int m"
          "view (w_store w1) i = Some (grown m (reader_data ?b) (info0, c0))"
          "e = None \<longrightarrow> m = length (reader_data ?b) \<and> br_err b' = reader_err ?b" by blast
        let ?e1 = "case e of None \<Rightarrow> hasError b' | Some x \<Rightarrow> Some x"
        have plain: "triple (\<lambda>v. v = w1) (okE (n, ?e1, u')) (body_post v i (info0, c0) ?b)"
          using w1 m reader_err_not_EOF [of h c info]
          by (auto simp: hasError_def intro!: triple_okE exI [of _ m] handle_owner split: option.splits if_splits)
        have stop: "triple (\<lambda>v. v = w1) (thenE (terminateUpload h c u' ?info)
            (\<lambda>(te, u''). case te of Some (Panic s) \<Rightarrow> failE (Panic s) | _ \<Rightarrow> okE (n, ?e1, u'')))
            (body_post v i (info0, c0) ?b)"
          if "errors_Is (hasError b') ErrUploadStoppedByServer"
          unfolding m(2) by (rule stopped_body_spec)
            (use that w1 m in \<open>auto simp: errors_Is_def split: option.splits\<close>)
        show "triple (\<lambda>v. v = w1)
          (if errors_Is (hasError b') ErrUploadStoppedByServer \<and> UsesTerminater (composer h)
           then thenE (terminateUpload h c u' ?info)
                  (\<lambda>(te, u''). case te of Some (Panic s) \<Rightarrow> failE (Panic s) | _ \<Rightarrow> okE (n, ?e1, u''))
           else okE (n, ?e1, u')) (body_post v i (info0, c0) ?b)"
          by (rule triple_if) (use stop plain in blast)+
      qed
    qed
    done
qed

lemma FinishUpload_spec:
  "triple (\<lambda>w. sinv (w_store w) \<and> view (w_store w) = v \<and> owner u i \<and> (H \<longrightarrow> handle u (w_store w) i))
     (upload_FinishUpload h u)
     (\<lambda>r w. sinv (w_store w) \<and> view (w_store w) = v \<and>
        (\<forall>u'. r = Inr u' \<longrightarrow> owner u' i \<and> (H \<longrightarrow> handle u' (w_store w) i)))"
  unfolding upload_FinishUpload_def core option.case
proof (rule triple_unit_op)
  fix w :: "('s, 'l) world" and e u' s'
  assume pre: "sinv (w_store w) \<and> view (w_store w) = v \<and> owner u i \<and> (H \<longrightarrow> handle u (w_store w) i)"
    and "FinishUpload d u (w_store w) = (e, u', s')"
  from pre FinishUpload_law [of "w_store w" u i, OF _ _ this(2)]
  show "sinv (w_store (w\<lparr>w_store := s'\<rparr>)) \<and> view (w_store (w\<lparr>w_store := s'\<rparr>)) = v \<and>
      (\<forall>ua. (case e of None \<Rightarrow> Inr u' | Some x \<Rightarrow> Inl x) = Inr ua \<longrightarrow>
        owner ua i \<and> (H \<longrightarrow> handle ua (w_store (w\<lparr>w_store := s'\<rparr>)) i))"
    by (auto split: option.splits)
qed

lemma finishUploadIfComplete_spec:
  "triple (\<lambda>w. sinv (w_store w) \<and> view (w_store w) = v \<and> owner u i \<and> (H \<longrightarrow> handle u (w_store w) i))
     (finishUploadIfComplete h c resp u info)
     (\<lambda>r w. sinv (w_store w) \<and> view (w_store w) = v \<and>
        (\<forall>resp' u'. r = Inr (resp', u') \<longrightarrow> owner u' i \<and> (H \<longrightarrow> handle u' (w_store w) i) \<and>
           (PreFinishResponseCallback (config h) = None \<longrightarrow> resp' = resp)))"
  (is "triple ?P _ ?Q")
proof -
  let ?S = "\<lambda>u s. sinv s \<and> view s = v \<and> owner u i \<and> (H \<longrightarrow> handle u s i)"
  have emit: "triple (\<lambda>w. ?S u' (w_store w))
      (bindE (emitFinishEvents h c resp info) (\<lambda>resp. okE (resp, u'))) ?Q" for u'
    by (rule triple_bindE [OF emitFinishEvents_store [where P = "?S u'"]])
      (auto intro!: triple_okE)
  have "triple ?P (bindE (upload_FinishUpload h u) (\<lambda>u'.
      bindE (emitFinishEvents h c resp info) (\<lambda>resp. okE (resp, u')))) ?Q"
    by (rule triple_bindE [OF FinishUpload_spec]) (auto intro: triple_weaken [OF emit])
  then show ?thesis
    by (auto simp: finishUploadIfComplete_def intro!: triple_okE)
qed

text \<open>
  What \<^verbatim>\<open>writeChunk\<close> leaves behind. When it succeeds, all bytes of the reader are stored,
  no error was kept, and the response carries the new offset.
\<close>

abbreviation chunk_post ::
  "uploads \<Rightarrow> string \<Rightarrow> FileInfo \<times> bytes \<Rightarrow> bodyReader \<Rightarrow> HTTPResponse \<Rightarrow>
     err + HTTPResponse \<times> 'u \<Rightarrow> ('s, 'l) world \<Rightarrow> bool" where
  "chunk_post v i x b resp r w \<equiv>
     sinv (w_store w) \<and> frame same i v (view (w_store w)) \<and>
     (\<exists>m \<le> length (reader_data b).
        view (w_store w) i \<in> {None, Some (grown m (reader_data b) x)} \<and>
        (\<forall>resp' u'. r = Inr (resp', u') \<longrightarrow> m = length (reader_data b) \<and> reader_err b = None \<and>
           handle u' (w_store w) i \<and> view (w_store w) i = Some (grown m (reader_data b) x) \<and>
           (PreFinishResponseCallback (config h) = None \<longrightarrow>
              resp' = set_header ''Upload-Offset'' (FormatInt (Offset (fst x) + int m)) resp)))"

lemma finish_chunk_spec:
  assumes "body_post v i x b (Inr (n, e, u)) w1"
    "resp1 = set_header ''Upload-Offset'' (FormatInt (Offset (fst x) + n)) resp"
  shows "triple (\<lambda>w. w = w1)
    (thenE (finishUploadIfComplete h c resp1 u info) (\<lambda>fin. case e of Some y \<Rightarrow> failE (prior_error y fin) | None \<Rightarrow> liftE fin))
    (chunk_post v i x b resp)"
proof -
  from assms(1) obtain m where m: "sinv (w_store w1)" "frame same i v (view (w_store w1))"
    "m \<le> length (reader_data b)" "view (w_store w1) i \<in> {None, Some (grown m (reader_data b) x)}"
    "n = int m" "owner u i"
    "e = None \<longrightarrow> m = length (reader_data b) \<and> reader_err b = None \<and>
       handle u (w_store w1) i \<and> view (w_store w1) i = Some (grown m (reader_data b) x)" by blast
  note fin = finishUploadIfComplete_spec [of "view (w_store w1)" u i "e = None" c resp1 info]
  show ?thesis
  proof (rule triple_thenE [OF triple_weaken_pre [OF fin]])
    show "sinv (w_store w) \<and> view (w_store w) = view (w_store w1) \<and> owner u i \<and>
        (e = None \<longrightarrow> handle u (w_store w) i)" if "w = w1" for w
      using that m by simp
    show "triple (\<lambda>w. sinv (w_store w) \<and> view (w_store w) = view (w_store w1) \<and>
        (\<forall>resp' u'. fin = Inr (resp', u') \<longrightarrow> owner u' i \<and> (e = None \<longrightarrow> handle u' (w_store w) i) \<and>
           (PreFinishResponseCallback (config h) = None \<longrightarrow> resp' = resp1)))
      (case e of Some y \<Rightarrow> failE (prior_error y fin) | None \<Rightarrow> liftE fin) (chunk_post v i x b resp)" for fin
      using m assms(2) by (cases e) (auto intro!: triple_failE triple_liftE exI [of _ m])
  qed
qed

lemma writeChunk_spec:
  assumes eq: "core_eq info info0" and off: "Offset info0 = int (length c0)"
    and bound: "int (length c0) + int (length (reader_data (chunk_reader h c info))) \<le> MaxInt64"
  shows "triple (\<lambda>w. sinv (w_store w) \<and> view (w_store w) = v \<and> handle u (w_store w) i \<and> v i = Some (info0, c0))
    (writeChunk h c resp u info) (chunk_post v i (info0, c0) (chunk_reader h c info) resp)"
proof -
  let ?b = "chunk_reader h c info" and ?x = "(info0, c0)"
  let ?P = "\<lambda>w. sinv (w_store w) \<and> view (w_store w) = v \<and> handle u (w_store w) i \<and> v i = Some ?x"
  have fail: "triple ?P (failE e) (chunk_post v i ?x ?b resp)" for e
    by (rule triple_failE) (auto intro!: exI [of _ 0])
  have body: "triple ?P (case ReqBody c of None \<Rightarrow> okE (0, None, u) | Some src \<Rightarrow> store_body h c u info src)
      (body_post v i ?x ?b)"
  proof (cases "ReqBody c")
    case None
    with no_body_reader [of c h info] show ?thesis
      by (auto intro!: triple_okE dest: handle_owner)
  next
    case (Some src)
    show ?thesis unfolding Some option.case by (rule store_body_spec [OF Some eq bound])
  qed
  have rest: "triple (body_post v i ?x ?b (Inr (n, e, u')))
      (thenE (count (incBytesReceived (word_of_int n))) (\<lambda>_.
       thenE (finishUploadIfComplete h c
          (set_header ''Upload-Offset'' (FormatInt (add64 (Offset info) n)) resp) u'
          (info\<lparr>Offset := add64 (Offset info) n, hasStop := (hasStop info \<or> ReqBody c \<noteq> None)\<rparr>))
         (\<lambda>fin. case e of Some y \<Rightarrow> failE (prior_error y fin) | None \<Rightarrow> liftE fin)))
      (chunk_post v i ?x ?b resp)" for n e u'
  proof (rule triple_thenE [where R = "\<lambda>_. body_post v i ?x ?b (Inr (n, e, u'))"])
    show "triple (body_post v i ?x ?b (Inr (n, e, u'))) (count (incBytesReceived (word_of_int n)))
       (\<lambda>_. body_post v i ?x ?b (Inr (n, e, u')))"
      by (auto simp: count_def intro!: triple_modify)
    show "triple (body_post v i ?x ?b (Inr (n, e, u')))
       (thenE (finishUploadIfComplete h c
          (set_header ''Upload-Offset'' (FormatInt (add64 (Offset info) n)) resp) u'
          (info\<lparr>Offset := add64 (Offset info) n, hasStop := (hasStop info \<or> ReqBody c \<noteq> None)\<rparr>))
         (\<lambda>fin. case e of Some y \<Rightarrow> failE (prior_error y fin) | None \<Rightarrow> liftE fin))
      (chunk_post v i ?x ?b resp)"
    proof (rule triple_pre)
      fix w1 assume w1: "body_post v i ?x ?b (Inr (n, e, u')) w1"
      then have "add64 (Offset info) n = Offset info0 + n"
        using eq off bound by (auto simp: core_eq_def int64_defs intro!: add64_id)
      then show "triple (\<lambda>w. w = w1) (thenE (finishUploadIfComplete h c
          (set_header ''Upload-Offset'' (FormatInt (add64 (Offset info) n)) resp) u'
          (info\<lparr>Offset := add64 (Offset info) n, hasStop := (hasStop info \<or> ReqBody c \<noteq> None)\<rparr>))
         (\<lambda>fin. case e of Some y \<Rightarrow> failE (prior_error y fin) | None \<Rightarrow> liftE fin)) (chunk_post v i ?x ?b resp)"
        by (intro finish_chunk_spec [OF w1]) simp
    qed
  qed
  show ?thesis
    unfolding writeChunk_def Let_def
    by (intro triple_if fail triple_bindE [OF body]) (use rest in \<open>auto split: prod.split\<close>)
qed

lemma DeclareLength_spec:
  "triple (\<lambda>w. sinv (w_store w) \<and> view (w_store w) = v \<and> handle u (w_store w) i \<and> v i = Some (info, c))
     (upload_DeclareLength h u len)
     (\<lambda>r w. sinv (w_store w) \<and> frame same i v (view (w_store w)) \<and>
        (case r of
           Inl e \<Rightarrow> view (w_store w) i \<in> {None, Some (info, c), Some (info\<lparr>Size := len, SizeIsDeferred := False\<rparr>, c)}
         | Inr u' \<Rightarrow> handle u' (w_store w) i \<and>
             view (w_store w) i = Some (info\<lparr>Size := len, SizeIsDeferred := False\<rparr>, c)))"
    (is "triple ?P _ ?Q")
proof (cases "LengthDeferrer (composer h)")
  case None
  then show ?thesis by (auto simp: upload_DeclareLength_def intro!: triple_failE)
next
  case (Some g)
  show ?thesis
    unfolding upload_DeclareLength_def Some option.case deferrer [OF Some]
  proof (rule triple_unit_op)
    fix w :: "('s, 'l) world" and e u' s'
    assume pre: "?P w" and eq: "declare_len u len (w_store w) = (e, u', s')"
    from pre DeclareLength_law [of "w_store w" u i info c, OF _ _ _ eq]
    show "?Q (case e of None \<Rightarrow> Inr u' | Some x \<Rightarrow> Inl x) (w\<lparr>w_store := s'\<rparr>)"
      by (auto split: option.splits)
  qed
qed

lemma declare_length_spec:
  assumes "core_eq info info0"
  shows "triple (\<lambda>w. sinv (w_store w) \<and> view (w_store w) = v \<and> handle u (w_store w) i \<and> v i = Some (info0, c0))
     (declare_length h r u info)
     (\<lambda>res w. sinv (w_store w) \<and> frame same i v (view (w_store w)) \<and>
        (case res of
           Inl e \<Rightarrow> view (w_store w) i = None \<or> (\<exists>info1. view (w_store w) i = Some (info1, c0) \<and> kind_kept info0 info1)
         | Inr (u', info') \<Rightarrow> handle u' (w_store w) i \<and>
             (\<exists>info1. view (w_store w) i = Some (info1, c0) \<and> core_eq info' info1 \<and> kind_kept info0 info1)))"
    (is "triple ?P _ ?Q")
proof -
  have fail: "triple ?P (failE e) ?Q" for e
    by (rule triple_failE) auto
  have decl: "triple ?P (bindE (upload_DeclareLength h u len)
      (\<lambda>u. okE (u, info\<lparr>Size := len, SizeIsDeferred := False\<rparr>))) ?Q" if "SizeIsDeferred info" for len
    by (rule triple_bindE [OF DeclareLength_spec])
      (use assms that in \<open>auto simp: core_eq_def kind_kept_def intro!: triple_okE\<close>)
  show ?thesis
    unfolding declare_length_def
    by (intro triple_if triple_case_option fail decl triple_okE) (use assms in auto)
qed

lemma complete_deferred_spec:
  assumes "SizeIsDeferred info = SizeIsDeferred info1"
  shows "triple (\<lambda>w. sinv (w_store w) \<and> view (w_store w) = v \<and> handle u (w_store w) i \<and> v i = Some (info1, c1))
     (complete_deferred h c r info (resp, u))
     (\<lambda>res w. sinv (w_store w) \<and> frame same i v (view (w_store w)) \<and>
        (view (w_store w) i = None \<or> (\<exists>info'. view (w_store w) i = Some (info', c1) \<and> kind_kept info1 info')) \<and>
        (\<forall>resp'. res = Inr resp' \<longrightarrow> view (w_store w) i \<noteq> None \<and>
           (PreFinishResponseCallback (config h) = None \<longrightarrow> resp' = resp)))"
    (is "triple ?P _ ?Q")
proof -
  have finish: "triple (\<lambda>w. sinv (w_store w) \<and> frame same i v (view (w_store w)) \<and> handle u' (w_store w) i \<and>
        view (w_store w) i = Some (info1\<lparr>Size := len, SizeIsDeferred := False\<rparr>, c1))
      (bindE (finishUploadIfComplete h c resp u' info2) (\<lambda>(resp, u). okE resp)) ?Q"
    if "SizeIsDeferred info1" for u' len info2
  proof (rule triple_pre)
    fix w1 :: "('s, 'l) world"
    assume w1: "sinv (w_store w1) \<and> frame same i v (view (w_store w1)) \<and> handle u' (w_store w1) i \<and>
        view (w_store w1) i = Some (info1\<lparr>Size := len, SizeIsDeferred := False\<rparr>, c1)"
    show "triple (\<lambda>w. w = w1) (bindE (finishUploadIfComplete h c resp u' info2) (\<lambda>(resp, u). okE resp)) ?Q"
      by (rule triple_bindE [OF triple_weaken_pre
            [OF finishUploadIfComplete_spec [of "view (w_store w1)" u' i True c resp info2]]])
        (use w1 that in \<open>auto simp: kind_kept_def dest: handle_owner intro!: triple_okE\<close>)
  qed
  have decl: "triple (\<lambda>w. sinv (w_store w) \<and> view (w_store w) = v \<and> handle u2 (w_store w) i \<and> v i = Some (info1, c1))
      (bindE (upload_DeclareLength h u2 len) (\<lambda>u.
       bindE (finishUploadIfComplete h c resp u info2) (\<lambda>(resp, u). okE resp))) ?Q"
    if deferred: "SizeIsDeferred info1" for u2 len info2
  proof (rule triple_bindE [OF DeclareLength_spec])
    show "triple (\<lambda>w. sinv (w_store w) \<and> frame same i v (view (w_store w)) \<and>
        (case Inr u' of
           Inl e \<Rightarrow> view (w_store w) i \<in> {None, Some (info1, c1), Some (info1\<lparr>Size := len, SizeIsDeferred := False\<rparr>, c1)}
         | Inr u' \<Rightarrow> handle u' (w_store w) i \<and>
             view (w_store w) i = Some (info1\<lparr>Size := len, SizeIsDeferred := False\<rparr>, c1)))
        (bindE (finishUploadIfComplete h c resp u' info2) (\<lambda>(resp, u). okE resp)) ?Q" for u'
      using finish [OF deferred, of u' len info2] by simp
  qed (use deferred in \<open>auto simp: kind_kept_def\<close>)
  have get: "triple ?P (upload_GetInfo h u) (\<lambda>res w. sinv (w_store w) \<and> view (w_store w) = v \<and>
      v i = Some (info1, c1) \<and> (\<forall>info u'. res = Inr (info, u') \<longrightarrow> handle u' (w_store w) i))"
    by (rule triple_weaken [OF triple_const [OF GetInfo_spec [of v u i], of "v i = Some (info1, c1)"]]) auto
  have "triple ?P (bindE (upload_GetInfo h u) (\<lambda>(info, u).
      bindE (upload_DeclareLength h u (Offset info)) (\<lambda>u.
      bindE (finishUploadIfComplete h c resp u (info\<lparr>Size := Offset info, SizeIsDeferred := False\<rparr>))
        (\<lambda>(resp, u). okE resp)))) ?Q" if "SizeIsDeferred info1"
    apply (rule triple_bindE [OF get])
     apply simp
    subgoal for y
      by (cases y, simp only: prod.case) (rule triple_weaken_pre [OF decl [OF that]], simp)
    done
  then show ?thesis
    using assms by (auto simp: complete_deferred_def Let_def intro!: triple_okE)
qed

text \<open>Writing the body and, when the client says so, completing an upload of deferred length.\<close>

lemma write_and_complete_spec:
  assumes w1: "sinv (w_store w1)" "frame same i v (view (w_store w1))" "handle u (w_store w1) i"
      "view (w_store w1) i = Some (info1, c0)"
    and eq: "core_eq info info1" and kind: "kind_kept info0 info1"
    and bound: "int (length c0) + int (length (request_bytes c)) \<le> MaxInt64"
  shows "triple (\<lambda>w. w = w1) (bindE (writeChunk h c resp u info) (complete_deferred h c r info))
    (\<lambda>res w. sinv (w_store w) \<and> frame same i v (view (w_store w)) \<and>
       advances (request_bytes c) (info0, c0) (view (w_store w) i) \<and>
       (\<forall>resp'. res = Inr resp' \<longrightarrow> appended h c resp c0 (view (w_store w) i) resp'))"
    (is "triple _ _ ?Q")
proof -
  let ?b = "chunk_reader h c info"
  have off: "Offset info1 = int (length c0)" using view_offset w1 by blast
  obtain k where k: "reader_data ?b = take k (request_bytes c)" using reader_data_prefix by blast
  then have bound': "int (length c0) + int (length (reader_data ?b)) \<le> MaxInt64" using bound by simp
  note chunk = writeChunk_spec [OF eq off bound', of "view (w_store w1)" u i resp]
  have grown: "advances (request_bytes c) (info0, c0) (Some (grown m (reader_data ?b) (info1, c0)))" for m
    by (rule advances_grown [OF kind k])
  show ?thesis
  proof (rule triple_bindE [OF triple_weaken_pre [OF chunk]])
    fix e w2
    assume "chunk_post (view (w_store w1)) i (info1, c0) ?b resp (Inl e) w2"
    then show "?Q (Inl e) w2" using w1(2) grown by (auto intro: frame_trans)
  next
    fix y :: "HTTPResponse \<times> 'u"
    show "triple (chunk_post (view (w_store w1)) i (info1, c0) ?b resp (Inr y)) (complete_deferred h c r info y) ?Q"
    proof (rule triple_pre)
      fix w2 assume post: "chunk_post (view (w_store w1)) i (info1, c0) ?b resp (Inr y) w2"
      obtain resp2 u2 where y: "y = (resp2, u2)" by force
      let ?x = "grown (length (reader_data ?b)) (reader_data ?b) (info1, c0)"
      have w2: "sinv (w_store w2)" "frame same i v (view (w_store w2))" "handle u2 (w_store w2) i"
        "view (w_store w2) i = Some ?x" "reader_err ?b = None"
        and resp2: "PreFinishResponseCallback (config h) = None \<longrightarrow>
           resp2 = set_header ''Upload-Offset'' (FormatInt (Offset info1 + int (length (reader_data ?b)))) resp"
        using post w1(2) y by (auto intro: frame_trans)
      obtain info2 where x: "?x = (info2, c0 @ request_bytes c)" and def: "SizeIsDeferred info = SizeIsDeferred info2"
        using reader_data_all [OF w2(5)] eq by (auto simp: grown_def core_eq_def)
      have adv: "advances (request_bytes c) (info0, c0) (Some (info2, c0 @ request_bytes c))"
        using grown [of "length (reader_data ?b)"] x by simp
      have resp3: "FormatInt (Offset info1 + int (length (reader_data ?b))) = FormatInt (int (length (c0 @ request_bytes c)))"
        using reader_data_all [OF w2(5)] off by simp
      show "triple (\<lambda>w. w = w2) (complete_deferred h c r info y) ?Q"
        unfolding y
      proof (rule triple_weaken [OF complete_deferred_spec [OF def, of "view (w_store w2)" u2 i "c0 @ request_bytes c" c r resp2]])
        fix res :: "err + HTTPResponse" and w :: "('s, 'l) world"
        assume "sinv (w_store w) \<and> frame same i (view (w_store w2)) (view (w_store w)) \<and>
          (view (w_store w) i = None \<or>
           (\<exists>info'. view (w_store w) i = Some (info', c0 @ request_bytes c) \<and> kind_kept info2 info')) \<and>
          (\<forall>resp'. res = Inr resp' \<longrightarrow> view (w_store w) i \<noteq> None \<and>
             (PreFinishResponseCallback (config h) = None \<longrightarrow> resp' = resp2))"
        then show "?Q res w"
          using w2(2) adv reader_data_all [OF w2(5)] resp2 resp3
          by (auto simp: appended_def intro: frame_trans advances_trans)
      qed (use w2 x in auto)
    qed
  qed (use w1 in auto)
qed

lemma patch_tail_spec:
  assumes w1: "sinv (w_store w1)" "view (w_store w1) = v" "handle u (w_store w1) i" "v i = Some (info0, c0)"
    and eq: "core_eq info info0" and ok: "\<not> IsFinal info0" "offset = int (length c0)"
      "\<not> (\<not> SizeIsDeferred info0 \<and> Size info0 = int (length c0))"
    and bound: "int (length c0) + int (length (request_bytes c)) \<le> MaxInt64"
  shows "triple (\<lambda>w. w = w1)
    (bindE (declare_length h r u info) (\<lambda>(u, info).
     bindE (writeChunk h c (emptyResponse\<lparr>StatusCode := 204\<rparr>) u info) (\<lambda>ru.
     complete_deferred h c r info ru)))
    (\<lambda>res w. sinv (w_store w) \<and> frame same i v (view (w_store w)) \<and>
       patch_effect c offset (v i) (view (w_store w) i) \<and>
       (\<forall>resp. res = Inr resp \<longrightarrow> patch_success h c offset (v i) (view (w_store w) i) resp))"
    (is "triple _ _ ?Q")
proof (rule triple_bindE [OF triple_weaken_pre [OF declare_length_spec [OF eq, of v u i c0 r]]])
  let ?D = "\<lambda>res w. sinv (w_store w) \<and> frame same i v (view (w_store w)) \<and>
        (case res of
           Inl e \<Rightarrow> view (w_store w) i = None \<or> (\<exists>info1. view (w_store w) i = Some (info1, c0) \<and> kind_kept info0 info1)
         | Inr (u', info') \<Rightarrow> handle u' (w_store w) i \<and>
             (\<exists>info1. view (w_store w) i = Some (info1, c0) \<and> core_eq info' info1 \<and> kind_kept info0 info1))"
  show "?Q (Inl e) w" if "?D (Inl e) w" for e :: err and w :: "('s, 'l) world"
    using that w1(4) ok by (auto simp: patch_effect_def intro: advances_trans [OF advances_refl])
  show "triple (?D (Inr y)) (case y of (u, info) \<Rightarrow>
     bindE (writeChunk h c (emptyResponse\<lparr>StatusCode := 204\<rparr>) u info) (\<lambda>ru. complete_deferred h c r info ru)) ?Q"
    for y :: "'u \<times> FileInfo"
  proof (rule triple_pre)
    fix w2 :: "('s, 'l) world" assume D: "?D (Inr y) w2"
    obtain u' info' where y: "y = (u', info')" by force
    with D obtain info1 where w2: "sinv (w_store w2)" "frame same i v (view (w_store w2))"
      "handle u' (w_store w2) i" "view (w_store w2) i = Some (info1, c0)" "core_eq info' info1" "kind_kept info0 info1"
      by auto
    show "triple (\<lambda>w. w = w2) (case y of (u, info) \<Rightarrow>
        bindE (writeChunk h c (emptyResponse\<lparr>StatusCode := 204\<rparr>) u info) (\<lambda>ru. complete_deferred h c r info ru)) ?Q"
      unfolding y prod.case
      by (rule triple_weaken [OF write_and_complete_spec [OF w2 bound]])
        (use w1(4) ok in \<open>auto simp: patch_effect_def patch_success_def\<close>)
  qed
qed (use w1 in auto)

text \<open>The postcondition of a PATCH request, for the view \<open>v\<close> before it.\<close>

abbreviation patch_post ::
  "uploads \<Rightarrow> string \<Rightarrow> Request \<Rightarrow> int \<Rightarrow> err + HTTPResponse \<Rightarrow> ('s, 'l) world \<Rightarrow> bool" where
  "patch_post v i c offset res w \<equiv>
     sinv (w_store w) \<and> frame same i v (view (w_store w)) \<and>
     patch_effect c offset (v i) (view (w_store w) i) \<and>
     (\<forall>resp. res = Inr resp \<longrightarrow> patch_success h c offset (v i) (view (w_store w) i) resp)"

lemma patch_post_unchanged:
  "sinv (w_store w) \<Longrightarrow> view (w_store w) = v \<Longrightarrow> patch_post v i c offset (Inl e) w"
  by (auto simp: patch_effect_def split: option.splits prod.splits)

lemma patch_checked_spec:
  assumes w1: "sinv (w_store w1)" "view (w_store w1) = v" "handle u (w_store w1) i" "v i = Some (info0, c0)"
    and eq: "core_eq info info0"
    and bound: "int (length c0) + int (length (request_bytes c)) \<le> MaxInt64"
  shows "triple (\<lambda>w. w = w1) (patch_checked h c r offset u info) (patch_post v i c offset)"
proof -
  have off: "Offset info0 = int (length c0)" using view_offset w1 by blast
  have fail: "triple (\<lambda>w. w = w1) (failE e) (patch_post v i c offset)" for e
    by (rule triple_failE) (use w1 patch_post_unchanged in blast)
  have complete: "triple (\<lambda>w. w = w1)
      (okE (set_header ''Upload-Offset'' (FormatInt offset) (emptyResponse\<lparr>StatusCode := 204\<rparr>)))
      (patch_post v i c offset)"
    if "\<not> IsFinal info" "\<not> offset \<noteq> Offset info" "\<not> SizeIsDeferred info \<and> Offset info = Size info"
    by (rule triple_okE) (use that w1 eq off in \<open>auto simp: patch_effect_def patch_success_def core_eq_def\<close>)
  show ?thesis
    unfolding patch_checked_def Let_def
    by (intro triple_if fail complete patch_tail_spec [OF w1 eq _ _ _ bound])
      (use eq off in \<open>auto simp: core_eq_def\<close>)
qed

lemma patch_upload_spec:
  assumes bound: "\<And>info0 c0. v i = Some (info0, c0) \<Longrightarrow>
    int (length c0) + int (length (request_bytes c)) \<le> MaxInt64"
  shows "triple (\<lambda>w. sinv (w_store w) \<and> view (w_store w) = v) (patch_upload h c r i offset)
    (patch_post v i c offset)"
  unfolding patch_upload_def
proof (rule triple_bindE [OF GetUpload_spec])
  fix u
  show "triple (\<lambda>w. sinv (w_store w) \<and> view (w_store w) = v \<and> (\<forall>u'. Inr u = Inr u' \<longrightarrow> handle u' (w_store w) i))
    (bindE (upload_GetInfo h u) (\<lambda>(info, u). patch_checked h c r offset u info)) (patch_post v i c offset)"
  proof (rule triple_bindE [OF triple_weaken_pre [OF GetInfo_spec [of v u i]]])
    fix y :: "FileInfo \<times> 'u"
    show "triple (\<lambda>w. sinv (w_store w) \<and> view (w_store w) = v \<and>
        (\<forall>info u'. Inr y = Inr (info, u') \<longrightarrow> handle u' (w_store w) i \<and>
           (\<exists>info0 c. v i = Some (info0, c) \<and> core_eq info info0)))
      (case y of (info, u) \<Rightarrow> patch_checked h c r offset u info) (patch_post v i c offset)"
      by (cases y, rule triple_pre) (auto intro!: patch_checked_spec bound)
  qed (use patch_post_unchanged in auto)
qed (use patch_post_unchanged in auto)

section \<open>Reading and deleting\<close>

text \<open>A HEAD request reports the stored information and changes nothing.\<close>

lemma head_upload_spec:
  assumes "sinv (w_store w)" "run_state (head_upload h r i) w = (res, w')"
  shows "sinv (w_store w') \<and> view (w_store w') = view (w_store w) \<and>
    (\<forall>resp. res = Inr resp \<longrightarrow>
       (\<exists>info c. view (w_store w) i = Some (info, c) \<and> resp = head_response h r info))"
proof -
  let ?s = "w_store w"
  obtain r1 s1 where g: "GetUpload d i ?s = (r1, s1)" by force
  note law = GetUpload_law [OF assms(1) g]
  show ?thesis
  proof (cases r1)
    case (Inl e)
    with assms g law show ?thesis
      by (auto simp: head_upload_def core_GetUpload_def core store_op_def)
  next
    case (Inr u)
    obtain r2 u2 s2 where i: "GetInfo d u s1 = (r2, u2, s2)" by (metis surj_pair)
    have u: "handle u s1 i" "sinv s1" "view s1 = view ?s" using law Inr by auto
    note law2 = GetInfo_law [OF u(2,1) i]
    show ?thesis
    proof (cases r2)
      case (Inl e)
      with assms g Inr i law2 u show ?thesis
        by (auto simp: head_upload_def core_GetUpload_def upload_GetInfo_def core store_op_def)
    next
      case info: (Inr info)
      from opened_law [OF assms(1)] g Inr i info obtain c where "view ?s i = Some (info, c)" by blast
      with assms g Inr i info law2 u show ?thesis
        by (auto simp: head_upload_def core_GetUpload_def upload_GetInfo_def core store_op_def)
    qed
  qed
qed

text \<open>The offset that a HEAD request reports is the number of bytes stored.\<close>

lemma head_offset:
  assumes "sinv (w_store w)" "run_state (head_upload h r i) w = (Inr resp, w')"
  obtains info c where "view (w_store w) i = Some (info, c)" "view (w_store w') = view (w_store w)"
    "sinv (w_store w')" "map_of (Header resp) ''Upload-Offset'' = Some (FormatInt (int (length c)))"
proof -
  from head_upload_spec [OF assms] obtain info c where v: "view (w_store w) i = Some (info, c)"
    "resp = head_response h r info" "view (w_store w') = view (w_store w)" "sinv (w_store w')" by blast
  have "map_of (Header resp) ''Upload-Offset'' = Some (FormatInt (int (length c)))"
    using view_offset [OF assms(1) v(1)] head_response_offset [of h r info] by (simp add: v(2))
  with v show thesis by (intro that)
qed

text \<open>
  A DELETE request that succeeds has removed the upload; any other request for it fails then.
\<close>

lemma delete_upload_spec:
  "triple (\<lambda>w. sinv (w_store w) \<and> view (w_store w) = v) (delete_upload h c i)
    (\<lambda>res w. sinv (w_store w) \<and> frame same i v (view (w_store w)) \<and>
       (view (w_store w) i = None \<or> view (w_store w) i = v i) \<and>
       (\<forall>resp. res = Inr resp \<longrightarrow> v i \<noteq> None \<and> view (w_store w) i = None))"
    (is "triple ?P _ ?Q")
proof -
  let ?H = "\<lambda>u w. sinv (w_store w) \<and> view (w_store w) = v \<and> handle u (w_store w) i"
  have found: "v i \<noteq> None" if "?H u w" for u and w :: "('s, 'l) world" using that handle_view by blast
  have tail: "triple (?H u) (thenE (terminateUpload h c u info)
      (\<lambda>(e, u). case e of Some x \<Rightarrow> failE x | None \<Rightarrow> okE resp)) ?Q" for u info resp
  proof (rule triple_pre)
    fix w1 :: "('s, 'l) world" assume w1: "?H u w1"
    show "triple (\<lambda>w. w = w1) (thenE (terminateUpload h c u info)
        (\<lambda>(e, u). case e of Some x \<Rightarrow> failE x | None \<Rightarrow> okE resp)) ?Q"
    proof (rule triple_thenE [OF triple_weaken_pre [OF terminateUpload_spec [of v u i]]])
      fix x :: "err option \<times> 'u"
      show "triple ((\<lambda>(e, u') w. sinv (w_store w) \<and> owner u' i \<and> frame same i v (view (w_store w)) \<and>
          (view (w_store w) i = None \<or> e \<noteq> None \<and> view (w_store w) i = v i)) x)
        (case x of (e, u) \<Rightarrow> case e of Some x \<Rightarrow> failE x | None \<Rightarrow> okE resp) ?Q"
        using found [OF w1] by (cases x; cases "fst x") (auto intro!: triple_okE triple_failE)
    qed (use w1 in auto)
  qed
  have hook: "triple (?H u) (bindE (case PreUploadTerminateCallback (config h) of
              None \<Rightarrow> okE (emptyResponse\<lparr>StatusCode := 204\<rparr>)
            | Some cb \<Rightarrow> (case cb (newHookEvent c info) of
                            (resp2, Some e) \<Rightarrow> failE e
                          | (resp2, None) \<Rightarrow> okE (MergeWith (emptyResponse\<lparr>StatusCode := 204\<rparr>) resp2)))
       (\<lambda>resp. thenE (terminateUpload h c u info)
          (\<lambda>(e, u). case e of Some x \<Rightarrow> failE x | None \<Rightarrow> okE resp))) ?Q" for u info
    apply (rule triple_bindE [where R = "\<lambda>_. ?H u"])
      apply (auto intro!: triple_okE triple_failE split: option.splits prod.splits) [2]
    by (rule tail)
  show ?thesis
    unfolding delete_upload_def
  proof (rule triple_bindE [OF GetUpload_spec])
    fix u
    let ?G = "if NotifyTerminatedUploads (config h) \<or> PreUploadTerminateCallback (config h) \<noteq> None
            then upload_GetInfo h u else okE (emptyFileInfo, u)"
    have info: "triple (?H u) ?G (\<lambda>r w. sinv (w_store w) \<and> view (w_store w) = v \<and>
        (\<forall>info u'. r = Inr (info, u') \<longrightarrow> handle u' (w_store w) i))"
      by (rule triple_if) (auto intro!: triple_okE intro: triple_weaken [OF GetInfo_spec [of v u i]])
    show "triple (\<lambda>w. sinv (w_store w) \<and> view (w_store w) = v \<and> (\<forall>u'. Inr u = Inr u' \<longrightarrow> handle u' (w_store w) i))
      (bindE ?G (\<lambda>(info, u). bindE (case PreUploadTerminateCallback (config h) of
              None \<Rightarrow> okE (emptyResponse\<lparr>StatusCode := 204\<rparr>)
            | Some cb \<Rightarrow> (case cb (newHookEvent c info) of
                            (resp2, Some e) \<Rightarrow> failE e
                          | (resp2, None) \<Rightarrow> okE (MergeWith (emptyResponse\<lparr>StatusCode := 204\<rparr>) resp2)))
        (\<lambda>resp. thenE (terminateUpload h c u info)
           (\<lambda>(e, u). case e of Some x \<Rightarrow> failE x | None \<Rightarrow> okE resp)))) ?Q"
      apply (rule triple_bindE [OF triple_weaken_pre [OF info]])
        apply simp_all [2]
      subgoal for x
        by (cases x, simp only: prod.case) (rule triple_weaken_pre [OF hook], simp)
      done
  qed auto
qed

end

end
