(* ===== verification/FileStore.thy ===== *)
theory FileStore
  imports StoreContract
begin

text \<open>
  The storage backend on the local file system (\<^verbatim>\<open>pkg/filestore/filestore.go\<close>, with
  \<^verbatim>\<open>internal/uid/uid.go\<close>) over a model of the file system in which any operation may fail
  and any write may be cut short. Paths are compared as strings; permissions are carried along
  but not enforced.
\<close>

section \<open>The file system\<close>

text \<open>
  The content of a file is a sequence of bytes and of JSON documents: \<open>J info\<close> stands for
  the text that \<^verbatim>\<open>json.Marshal\<close> prints for \<open>info\<close>, which is read back as a whole or, when
  it was cut off, not at all.
\<close>

datatype atom = B char | J FileInfo

type_synonym contents = "atom list"

text \<open>A failing operation, and how many atoms a failing write has written before.\<close>

record fault =
  fault_written :: nat
  fault_text :: string

text \<open>
  Operations are numbered by \<open>fs_clock\<close> and \<open>fs_faults\<close> says which of them fail.
  \<open>fs_rand\<close> is the source of random bytes and \<open>fs_json\<close> the text of JSON documents.
\<close>

record filesys =
  fs_files :: "contents gomap"
  fs_dirs :: "string list"
  fs_faults :: "nat \<Rightarrow> fault option"
  fs_clock :: nat
  fs_rand :: "nat \<Rightarrow> bytes option"
  fs_drawn :: nat
  fs_json :: "FileInfo \<Rightarrow> bytes"

definition tick :: "filesys \<Rightarrow> fault option \<times> filesys" where
  "tick s = (fs_faults s (fs_clock s), s\<lparr>fs_clock := Suc (fs_clock s)\<rparr>)"

definition path_error :: "string \<Rightarrow> string \<Rightarrow> string \<Rightarrow> string" where
  "path_error operation p msg = operation @ '' '' @ p @ '': '' @ msg"

text \<open>The directories above a path, from the top: its prefixes that end before a slash.\<close>

definition parent_dirs :: "string \<Rightarrow> string list" where
  "parent_dirs p =
     filter (\<lambda>d. d \<noteq> []) (map (\<lambda>i. take i p) (filter (\<lambda>i. p ! i = CHR ''/'') [0..<length p]))"

text \<open>Why a path is missing: one of its parents is a file, or it just does not exist.\<close>

definition missing :: "string \<Rightarrow> string \<Rightarrow> filesys \<Rightarrow> err" where
  "missing operation p s =
     (if list_ex (\<lambda>d. map_of (fs_files s) d \<noteq> None) (parent_dirs p)
      then PlainError (path_error operation p ''not a directory'')
      else NotExistError (path_error operation p ''no such file or directory''))"

definition render :: "filesys \<Rightarrow> contents \<Rightarrow> bytes" where
  "render s f = concat (map (\<lambda>a. case a of B c \<Rightarrow> [c] | J info \<Rightarrow> fs_json s info) f)"

text \<open>\<^verbatim>\<open>os.OpenFile\<close> with \<^verbatim>\<open>O_CREATE|O_WRONLY|O_TRUNC\<close>.\<close>

definition os_create :: "string \<Rightarrow> filesys \<Rightarrow> err option \<times> filesys" where
  "os_create p s =
     (case tick s of
        (Some f, s1) \<Rightarrow> (Some (PlainError (path_error ''open'' p (fault_text f))), s1)
      | (None, s1) \<Rightarrow>
          if List.member (fs_dirs s1) p then (Some (PlainError (path_error ''open'' p ''is a directory'')), s1)
          else if map_of (fs_files s1) p \<noteq> None \<or> List.member (fs_dirs s1) (FilepathDir p)
          then (None, s1\<lparr>fs_files := map_set p [] (fs_files s1)\<rparr>)
          else (Some (missing ''open'' p s1), s1))"

text \<open>\<^verbatim>\<open>os.OpenFile\<close> with \<^verbatim>\<open>O_WRONLY|O_APPEND\<close>, and \<^verbatim>\<open>os.Open\<close>.\<close>

definition os_open :: "string \<Rightarrow> filesys \<Rightarrow> err option \<times> filesys" where
  "os_open p s =
     (case tick s of
        (Some f, s1) \<Rightarrow> (Some (PlainError (path_error ''open'' p (fault_text f))), s1)
      | (None, s1) \<Rightarrow>
          if List.member (fs_dirs s1) p then (Some (PlainError (path_error ''open'' p ''is a directory'')), s1)
          else if map_of (fs_files s1) p \<noteq> None then (None, s1)
          else (Some (missing ''open'' p s1), s1))"

definition os_ReadFile :: "string \<Rightarrow> filesys \<Rightarrow> (err + contents) \<times> filesys" where
  "os_ReadFile p s =
     (case os_open p s of
        (Some e, s1) \<Rightarrow> (Inl e, s1)
      | (None, s1) \<Rightarrow>
          (case tick s1 of
             (Some f, s2) \<Rightarrow> (Inl (PlainError (path_error ''read'' p (fault_text f))), s2)
           | (None, s2) \<Rightarrow>
               (case map_of (fs_files s2) p of
                  Some f \<Rightarrow> (Inr f, s2)
                | None \<Rightarrow> (Inl (missing ''open'' p s2), s2))))"

text \<open>\<^verbatim>\<open>os.Stat\<close>: the size. A directory has the size of one block.\<close>

definition os_Stat :: "string \<Rightarrow> filesys \<Rightarrow> (err + int) \<times> filesys" where
  "os_Stat p s =
     (case tick s of
        (Some f, s1) \<Rightarrow> (Inl (PlainError (path_error ''stat'' p (fault_text f))), s1)
      | (None, s1) \<Rightarrow>
          (case map_of (fs_files s1) p of
             Some f \<Rightarrow> (Inr (int (length (render s1 f))), s1)
           | None \<Rightarrow> if List.member (fs_dirs s1) p then (Inr 4096, s1)
                     else (Inl (missing ''stat'' p s1), s1)))"

definition append_to :: "string \<Rightarrow> contents \<Rightarrow> filesys \<Rightarrow> filesys" where
  "append_to p data s =
     (case map_of (fs_files s) p of
        None \<Rightarrow> s
      | Some f \<Rightarrow> s\<lparr>fs_files := map_set p (f @ data) (fs_files s)\<rparr>)"

text \<open>\<^verbatim>\<open>file.Write\<close> of a file opened for appending (or just truncated).\<close>

definition file_Write :: "string \<Rightarrow> contents \<Rightarrow> filesys \<Rightarrow> (nat \<times> err option) \<times> filesys" where
  "file_Write p data s =
     (case tick s of
        (Some f, s1) \<Rightarrow>
          (let n = min (fault_written f) (length data)
           in ((n, Some (PlainError (path_error ''write'' p (fault_text f)))), append_to p (take n data) s1))
      | (None, s1) \<Rightarrow> ((length data, None), append_to p data s1))"

definition file_Close :: "string \<Rightarrow> filesys \<Rightarrow> err option \<times> filesys" where
  "file_Close p s =
     (case tick s of
        (Some f, s1) \<Rightarrow> (Some (PlainError (path_error ''close'' p (fault_text f))), s1)
      | (None, s1) \<Rightarrow> (None, s1))"

text \<open>\<^verbatim>\<open>os.Remove\<close> of a file or an empty directory.\<close>

definition os_Remove :: "string \<Rightarrow> filesys \<Rightarrow> err option \<times> filesys" where
  "os_Remove p s =
     (case tick s of
        (Some f, s1) \<Rightarrow> (Some (PlainError (path_error ''remove'' p (fault_text f))), s1)
      | (None, s1) \<Rightarrow>
          if map_of (fs_files s1) p \<noteq> None then (None, s1\<lparr>fs_files := map_del p (fs_files s1)\<rparr>)
          else if List.member (fs_dirs s1) p then
            (if list_ex (\<lambda>q. prefix (p @ ''/'') q) (map fst (fs_files s1) @ fs_dirs s1)
             then (Some (PlainError (path_error ''remove'' p ''directory not empty'')), s1)
             else (None, s1\<lparr>fs_dirs := filter (\<lambda>d. d \<noteq> p) (fs_dirs s1)\<rparr>))
          else (Some (missing ''remove'' p s1), s1))"

definition os_MkdirAll :: "string \<Rightarrow> filesys \<Rightarrow> err option \<times> filesys" where
  "os_MkdirAll p s =
     (case tick s of
        (Some f, s1) \<Rightarrow> (Some (PlainError (path_error ''mkdir'' p (fault_text f))), s1)
      | (None, s1) \<Rightarrow>
          if list_ex (\<lambda>d. map_of (fs_files s1) d \<noteq> None) (parent_dirs p @ [p])
          then (Some (PlainError (path_error ''mkdir'' p ''not a directory'')), s1)
          else (None, s1\<lparr>fs_dirs := fs_dirs s1 @ filter (\<lambda>d. \<not> List.member (fs_dirs s1) d) (parent_dirs p @ [p])\<rparr>))"

definition IsNotExist :: "err \<Rightarrow> bool" where
  "IsNotExist e = (case e of NotExistError s \<Rightarrow> True | _ \<Rightarrow> False)"

section \<open>Upload information as JSON\<close>

text \<open>
  What is left of the information after it has been printed and read back: JSON strings are
  valid UTF-8, and the callback is not part of the document.
\<close>

definition json_map :: "string gomap \<Rightarrow> string gomap" where
  "json_map m = map_copy [] (map (\<lambda>(k, v). (to_valid_utf8 k, to_valid_utf8 v)) m)"

definition json_norm :: "FileInfo \<Rightarrow> FileInfo" where
  "json_norm info = info\<lparr>ID := to_valid_utf8 (ID info), MetaData := json_map (MetaData info),
     PartialUploads := map to_valid_utf8 (PartialUploads info), Storage := json_map (Storage info),
     hasStop := False\<rparr>"

definition json_Marshal :: "FileInfo \<Rightarrow> contents" where
  "json_Marshal info = [J (json_norm info)]"

fun json_Unmarshal :: "contents \<Rightarrow> err + FileInfo" where
  "json_Unmarshal [J info] = Inr info"
| "json_Unmarshal _ = Inl (PlainError ''unexpected end of JSON input'')"

section \<open>The store\<close>

record FileStore =
  st_Path :: string
  DirModePerm :: int
  FileModePerm :: int

definition New :: "string \<Rightarrow> FileStore" where
  "New path = \<lparr>st_Path = path, DirModePerm = 509, FileModePerm = 436\<rparr>"

record fileUpload =
  fu_info :: FileInfo
  fu_infoPath :: string
  fu_binPath :: string
  fu_dirModePerm :: int
  fu_fileModePerm :: int

definition defaultBinPath :: "FileStore \<Rightarrow> string \<Rightarrow> string" where
  "defaultBinPath store i = FilepathJoin (st_Path store) i"

definition infoPath :: "FileStore \<Rightarrow> string \<Rightarrow> string" where
  "infoPath store i = FilepathJoin (st_Path store) (i @ ''.info'')"

definition Uid :: "filesys \<Rightarrow> (err + string) \<times> filesys" where
  "Uid s =
     (case fs_rand s (fs_drawn s) of
        None \<Rightarrow> (Inl (Panic ''no random bytes''), s\<lparr>fs_drawn := Suc (fs_drawn s)\<rparr>)
      | Some bs \<Rightarrow> (Inr (hex_encode bs), s\<lparr>fs_drawn := Suc (fs_drawn s)\<rparr>))"

definition write_and_close :: "string \<Rightarrow> contents option \<Rightarrow> filesys \<Rightarrow> err option \<times> filesys" where
  "write_and_close path content s =
     (case content of
        None \<Rightarrow> file_Close path s
      | Some data \<Rightarrow>
          (case file_Write path data s of
             ((n, Some e), s1) \<Rightarrow> (Some e, s1)
           | ((n, None), s1) \<Rightarrow> file_Close path s1))"

definition createFile :: "string \<Rightarrow> contents option \<Rightarrow> filesys \<Rightarrow> err option \<times> filesys" where
  "createFile path content s =
     (case os_create path s of
        (None, s1) \<Rightarrow> write_and_close path content s1
      | (Some e, s1) \<Rightarrow>
          if IsNotExist e then
            (case os_MkdirAll (FilepathDir path) s1 of
               (Some e2, s2) \<Rightarrow>
                 (Some (PlainError (''failed to create directory for '' @ path @ '': '' @ err_text e2)), s2)
             | (None, s2) \<Rightarrow>
                 (case os_create path s2 of
                    (Some e3, s3) \<Rightarrow> (Some e3, s3)
                  | (None, s3) \<Rightarrow> write_and_close path content s3))
          else (Some e, s1))"

definition writeInfo :: "fileUpload \<Rightarrow> filesys \<Rightarrow> err option \<times> filesys" where
  "writeInfo u s = createFile (fu_infoPath u) (Some (json_Marshal (fu_info u))) s"

text \<open>Where the content of a new upload goes.\<close>

definition chooseBinPath :: "FileStore \<Rightarrow> FileInfo \<Rightarrow> string" where
  "chooseBinPath store info =
     (let p = map_str (Storage info) ''Path''
      in if p \<noteq> [] then (if IsAbsPath p then p else FilepathJoin (st_Path store) p)
         else defaultBinPath store (ID info))"

definition newFileUpload :: "FileStore \<Rightarrow> FileInfo \<Rightarrow> fileUpload" where
  "newFileUpload store info =
     (let binPath = chooseBinPath store info
      in \<lparr>fu_info = info\<lparr>Storage := [(''Type'', ''filestore''), (''Path'', binPath),
                                    (''InfoPath'', infoPath store (ID info))]\<rparr>,
          fu_infoPath = infoPath store (ID info), fu_binPath = binPath,
          fu_dirModePerm = DirModePerm store, fu_fileModePerm = FileModePerm store\<rparr>)"

definition fs_NewUpload :: "FileStore \<Rightarrow> FileInfo \<Rightarrow> filesys \<Rightarrow> (err + fileUpload) \<times> filesys" where
  "fs_NewUpload store info s =
     (case (if ID info = [] then Uid s else (Inr (ID info), s)) of
        (Inl e, s0) \<Rightarrow> (Inl e, s0)
      | (Inr i, s0) \<Rightarrow>
          (let u = newFileUpload store (info\<lparr>ID := i\<rparr>)
           in case createFile (fu_binPath u) None s0 of
                (Some e, s1) \<Rightarrow> (Inl e, s1)
              | (None, s1) \<Rightarrow>
                  (case writeInfo u s1 of
                     (Some e, s2) \<Rightarrow> (Inl e, s2)
                   | (None, s2) \<Rightarrow> (Inr u, s2))))"

definition not_found :: "err \<Rightarrow> err" where
  "not_found e = (if IsNotExist e then TusError ErrNotFound else e)"

text \<open>The path of the content of a stored upload.\<close>

definition storedBinPath :: "FileStore \<Rightarrow> FileInfo \<Rightarrow> string" where
  "storedBinPath store info =
     (if map_str (Storage info) ''Path'' \<noteq> [] then map_str (Storage info) ''Path''
      else defaultBinPath store (ID info))"

definition fs_GetUpload :: "FileStore \<Rightarrow> string \<Rightarrow> filesys \<Rightarrow> (err + fileUpload) \<times> filesys" where
  "fs_GetUpload store i s =
     (case os_ReadFile (infoPath store i) s of
        (Inl e, s1) \<Rightarrow> (Inl (not_found e), s1)
      | (Inr data, s1) \<Rightarrow>
          (case json_Unmarshal data of
             Inl e \<Rightarrow> (Inl e, s1)
           | Inr info \<Rightarrow>
               (case os_Stat (storedBinPath store info) s1 of
                  (Inl e, s2) \<Rightarrow> (Inl (not_found e), s2)
                | (Inr len, s2) \<Rightarrow>
                    (Inr \<lparr>fu_info = info\<lparr>Offset := len\<rparr>, fu_infoPath = infoPath store i,
                          fu_binPath = storedBinPath store info, fu_dirModePerm = DirModePerm store,
                          fu_fileModePerm = FileModePerm store\<rparr>, s2))))"

definition fs_GetInfo :: "fileUpload \<Rightarrow> filesys \<Rightarrow> (err + FileInfo) \<times> fileUpload \<times> filesys" where
  "fs_GetInfo u s = (Inr (fu_info u), u, s)"

definition add_offset :: "int \<Rightarrow> fileUpload \<Rightarrow> fileUpload" where
  "add_offset n u = u\<lparr>fu_info := (fu_info u)\<lparr>Offset := add64 (Offset (fu_info u)) n\<rparr>\<rparr>"

definition fs_WriteChunk ::
  "fileUpload \<Rightarrow> int \<Rightarrow> bodyReader \<Rightarrow> filesys \<Rightarrow> (int \<times> err option) \<times> bodyReader \<times> fileUpload \<times> filesys" where
  "fs_WriteChunk u offset src s =
     (case os_open (fu_binPath u) s of
        (Some e, s1) \<Rightarrow> ((0, Some e), src, u, s1)
      | (None, s1) \<Rightarrow>
          (case io_Copy (\<lambda>d. file_Write (fu_binPath u) (map B d)) src 0 s1 of
             ((n, e), src', s2) \<Rightarrow>
               (case file_Close (fu_binPath u) s2 of
                  (ce, s3) \<Rightarrow> ((n, if e \<noteq> None then e else ce), src', add_offset n u, s3))))"

text \<open>\<^verbatim>\<open>GetReader\<close>, with the reading of the returned file by the caller.\<close>

definition fs_GetReader :: "fileUpload \<Rightarrow> filesys \<Rightarrow> (err + bytes \<times> err option) \<times> fileUpload \<times> filesys" where
  "fs_GetReader u s =
     (case os_open (fu_binPath u) s of
        (Some e, s1) \<Rightarrow> (Inl e, u, s1)
      | (None, s1) \<Rightarrow>
          (let content = (case map_of (fs_files s1) (fu_binPath u) of None \<Rightarrow> [] | Some f \<Rightarrow> render s1 f)
           in case tick s1 of
                (Some f, s2) \<Rightarrow>
                  (Inr (take (fault_written f) content,
                        Some (PlainError (path_error ''read'' (fu_binPath u) (fault_text f)))), u, s2)
              | (None, s2) \<Rightarrow> (Inr (content, None), u, s2)))"

definition fs_Terminate :: "fileUpload \<Rightarrow> filesys \<Rightarrow> err option \<times> fileUpload \<times> filesys" where
  "fs_Terminate u s =
     (case os_Remove (fu_binPath u) s of
        (e, s1) \<Rightarrow>
          if (case e of Some x \<Rightarrow> \<not> IsNotExist x | None \<Rightarrow> False) then (e, u, s1)
          else (case os_Remove (fu_infoPath u) s1 of
                  (e2, s2) \<Rightarrow>
                    if (case e2 of Some x \<Rightarrow> \<not> IsNotExist x | None \<Rightarrow> False) then (e2, u, s2)
                    else (None, u, s2)))"

text \<open>
  \<^verbatim>\<open>appendTo\<close>: the content of one file is copied to the end of another one. A fault of the
  read is noticed before, a fault of the write after, part of the content has been written.
\<close>

definition appendTo :: "fileUpload \<Rightarrow> string \<Rightarrow> filesys \<Rightarrow> err option \<times> filesys" where
  "appendTo u dst s =
     (case os_ReadFile (fu_binPath u) s of
        (Inl e, s1) \<Rightarrow> (Some e, s1)
      | (Inr data, s1) \<Rightarrow>
          (case file_Write dst data s1 of
             ((n, Some e), s2) \<Rightarrow> (case file_Close (fu_binPath u) s2 of (_, s3) \<Rightarrow> (Some e, s3))
           | ((n, None), s2) \<Rightarrow> file_Close (fu_binPath u) s2))"

fun append_all :: "fileUpload list \<Rightarrow> string \<Rightarrow> filesys \<Rightarrow> err option \<times> filesys" where
  "append_all [] dst s = (None, s)"
| "append_all (u # us) dst s =
     (case appendTo u dst s of
        (Some e, s1) \<Rightarrow> (Some e, s1)
      | (None, s1) \<Rightarrow> append_all us dst s1)"

definition fs_ConcatUploads ::
  "fileUpload \<Rightarrow> fileUpload list \<Rightarrow> filesys \<Rightarrow> err option \<times> fileUpload \<times> filesys" where
  "fs_ConcatUploads u uploads s =
     (case os_open (fu_binPath u) s of
        (Some e, s1) \<Rightarrow> (Some e, u, s1)
      | (None, s1) \<Rightarrow>
          (case append_all uploads (fu_binPath u) s1 of
             (e, s2) \<Rightarrow> (case file_Close (fu_binPath u) s2 of
                           (ce, s3) \<Rightarrow> (if e = None then ce else e, u, s3))))"

definition fs_DeclareLength :: "fileUpload \<Rightarrow> int \<Rightarrow> filesys \<Rightarrow> err option \<times> fileUpload \<times> filesys" where
  "fs_DeclareLength u len s =
     (let u' = u\<lparr>fu_info := (fu_info u)\<lparr>Size := len, SizeIsDeferred := False\<rparr>\<rparr>
      in case writeInfo u' s of (e, s1) \<Rightarrow> (e, u', s1))"

definition fs_FinishUpload :: "fileUpload \<Rightarrow> filesys \<Rightarrow> err option \<times> fileUpload \<times> filesys" where
  "fs_FinishUpload u s = (None, u, s)"

text \<open>\<open>http_ServeFile\<close> is \<^verbatim>\<open>http.ServeFile\<close>, given the content of the file.\<close>

definition fs_ServeContent ::
  "(bytes option \<Rightarrow> Request \<Rightarrow> ResponseWriter \<Rightarrow> ResponseWriter) \<Rightarrow> fileUpload \<Rightarrow> Request \<Rightarrow>
     ResponseWriter \<Rightarrow> filesys \<Rightarrow> err option \<times> ResponseWriter \<times> filesys" where
  "fs_ServeContent http_ServeFile u r w s =
     (None, http_ServeFile (map_option (render s) (map_of (fs_files s) (fu_binPath u))) r w, s)"

definition fileStore :: "FileStore \<Rightarrow> (filesys, fileUpload) DataStore" where
  "fileStore store =
     \<lparr>NewUpload = fs_NewUpload store, GetUpload = fs_GetUpload store, WriteChunk = fs_WriteChunk,
      GetInfo = fs_GetInfo, GetReader = fs_GetReader, FinishUpload = fs_FinishUpload\<rparr>"

definition UseIn ::
  "(bytes option \<Rightarrow> Request \<Rightarrow> ResponseWriter \<Rightarrow> ResponseWriter) \<Rightarrow> FileStore \<Rightarrow>
     (filesys, fileUpload, 'l, 'k) StoreComposer \<Rightarrow> (filesys, fileUpload, 'l, 'k) StoreComposer" where
  "UseIn http_ServeFile store c =
     UseContentServer (Some (fs_ServeContent http_ServeFile))
       (UseLengthDeferrer (Some fs_DeclareLength)
       (UseConcater (Some fs_ConcatUploads)
       (UseTerminater (Some fs_Terminate)
       (UseCore (Some (fileStore store)) c))))"

section \<open>The uploads of a file system\<close>

text \<open>
  The uploads that a store sees depend on the files only: an information file that holds one
  JSON document, and the content file that it names.
\<close>

type_synonym files = "string \<Rightarrow> contents option"

abbreviation files_of :: "filesys \<Rightarrow> files" where
  "files_of s \<equiv> map_of (fs_files s)"

fun bytes_of :: "contents \<Rightarrow> bytes option" where
  "bytes_of [] = Some []"
| "bytes_of (B c # f) = map_option (Cons c) (bytes_of f)"
| "bytes_of (J info # f) = None"

definition stored :: "FileStore \<Rightarrow> files \<Rightarrow> string \<Rightarrow> (FileInfo \<times> contents) option" where
  "stored store m i =
     (case m (infoPath store i) of
        Some [J info] \<Rightarrow> map_option (Pair info) (m (storedBinPath store info))
      | _ \<Rightarrow> None)"

definition fs_view :: "FileStore \<Rightarrow> files \<Rightarrow> uploads" where
  "fs_view store m i =
     (case stored store m i of
        None \<Rightarrow> None
      | Some (info, f) \<Rightarrow>
          map_option (\<lambda>bs. (info\<lparr>Offset := int (length bs)\<rparr>, bs)) (bytes_of f))"

text \<open>
  The invariant: stored information is what JSON can hold, content files hold bytes, and no two
  uploads share a content file.
\<close>

definition fs_inv :: "FileStore \<Rightarrow> files \<Rightarrow> bool" where
  "fs_inv store m \<longleftrightarrow>
     (\<forall>i info f. stored store m i = Some (info, f) \<longrightarrow>
        json_norm info = info \<and> bytes_of f \<noteq> None \<and>
        (\<forall>j info' f'. stored store m j = Some (info', f') \<longrightarrow>
           infoPath store i = infoPath store j \<or> storedBinPath store info \<noteq> storedBinPath store info'))"

definition fs_same :: "FileStore \<Rightarrow> string \<Rightarrow> string \<Rightarrow> bool" where
  "fs_same store i j \<longleftrightarrow> infoPath store i = infoPath store j"

definition fs_owner :: "FileStore \<Rightarrow> fileUpload \<Rightarrow> string \<Rightarrow> bool" where
  "fs_owner store u i \<longleftrightarrow> fu_infoPath u = infoPath store i"

text \<open>An upload object that is up to date.\<close>

definition fs_handle :: "FileStore \<Rightarrow> fileUpload \<Rightarrow> files \<Rightarrow> string \<Rightarrow> bool" where
  "fs_handle store u m i \<longleftrightarrow>
     (\<exists>info bs. stored store m i = Some (info, map B bs) \<and> fu_infoPath u = infoPath store i \<and>
        fu_binPath u = storedBinPath store info \<and>
        json_norm (fu_info u) = info\<lparr>Offset := int (length bs)\<rparr>)"

section \<open>Facts: files\<close>

lemma bytes_of_map [simp]: "bytes_of (map B bs) = Some bs"
  by (induction bs) auto

lemma bytes_of_Some: "bytes_of f = Some bs \<longleftrightarrow> f = map B bs"
  by (induction f arbitrary: bs rule: bytes_of.induct) auto

lemma render_map [simp]: "render s (map B bs) = bs"
  by (induction bs) (auto simp: render_def)

lemma map_of_del [simp]: "map_of (map_del k m) = (map_of m)(k := None)"
  by (simp add: map_del_def delete_conv')

lemma stored_Some:
  "stored store m i = Some (info, f) \<longleftrightarrow>
     m (infoPath store i) = Some [J info] \<and> m (storedBinPath store info) = Some f"
  by (auto simp: stored_def split: option.splits list.splits atom.splits)

lemma stored_None_not_doc:
  "(\<And>info. m (infoPath store i) \<noteq> Some [J info]) \<Longrightarrow> stored store m i = None"
  by (auto simp: stored_def split: option.splits list.splits atom.splits)

lemma fs_invD:
  assumes "fs_inv store m" "stored store m i = Some (info, f)"
  shows "json_norm info = info" "\<exists>bs. f = map B bs"
    "stored store m j = Some (info', f') \<Longrightarrow> infoPath store i \<noteq> infoPath store j \<Longrightarrow>
       storedBinPath store info \<noteq> storedBinPath store info'"
proof -
  show "json_norm info = info" "\<exists>bs. f = map B bs"
    using assms by (auto simp: fs_inv_def bytes_of_Some)
  show "storedBinPath store info \<noteq> storedBinPath store info'"
    if "stored store m j = Some (info', f')" "infoPath store i \<noteq> infoPath store j"
    using assms that unfolding fs_inv_def by metis
qed

lemma fs_view_stored:
  "stored store m i = Some (info, map B bs) \<Longrightarrow> fs_view store m i = Some (info\<lparr>Offset := int (length bs)\<rparr>, bs)"
  by (simp add: fs_view_def)

lemma fs_view_None: "stored store m i = None \<Longrightarrow> fs_view store m i = None"
  by (simp add: fs_view_def)

text \<open>A content file holds bytes, so it is not an information file.\<close>

lemma bin_not_info:
  assumes "fs_inv store m" "stored store m i = Some (info, f)" "m p = Some [J info']"
  shows "storedBinPath store info \<noteq> p"
  using assms by (auto simp: stored_Some dest!: fs_invD(2))

section \<open>Facts: how changes of files change the uploads\<close>

text \<open>Rewriting the content of one upload.\<close>

lemma stored_rewrite:
  assumes inv: "fs_inv store m" and i: "stored store m i = Some (info, f)"
  shows "stored store (m(storedBinPath store info \<mapsto> map B bs)) j =
    (if infoPath store j = infoPath store i then Some (info, map B bs) else stored store m j)"
proof -
  let ?p = "storedBinPath store info" and ?m = "m(storedBinPath store info \<mapsto> map B bs)"
  have bytes: "\<exists>bs. m ?p = Some (map B bs)" using fs_invD(2) [OF inv i] i by (auto simp: stored_Some)
  show ?thesis
  proof (cases "infoPath store j = infoPath store i")
    case True
    with i bin_not_info [OF inv i, of "infoPath store i" info] show ?thesis by (auto simp: stored_Some)
  next
    case False
    show ?thesis
    proof (cases "stored store m j")
      case None
      have "stored store ?m j = None"
      proof (rule ccontr)
        assume "stored store ?m j \<noteq> None"
        then obtain info' f' where m': "?m (infoPath store j) = Some [J info']" "?m (storedBinPath store info') = Some f'"
          by (auto simp: stored_Some)
        then have "m (infoPath store j) = Some [J info']" by (auto split: if_splits)
        moreover have "\<exists>f0. m (storedBinPath store info') = Some f0"
          using m'(2) bytes by (auto split: if_splits)
        ultimately have "\<exists>f0. stored store m j = Some (info', f0)" by (auto simp: stored_Some)
        with None show False by simp
      qed
      with None False show ?thesis by simp
    next
      case (Some x)
      then obtain info' f' where x: "x = (info', f')" "stored store m j = Some (info', f')"
        by (cases x) auto
      then have "m (infoPath store j) = Some [J info']" "m (storedBinPath store info') = Some f'"
        by (simp_all add: stored_Some)
      moreover have "infoPath store j \<noteq> ?p"
        using bin_not_info [OF inv i calculation(1)] by metis
      moreover have "storedBinPath store info' \<noteq> ?p"
        using fs_invD(3) [OF inv i x(2)] False by metis
      ultimately have "stored store ?m j = Some (info', f')" by (simp add: stored_Some)
      with x False show ?thesis by simp
    qed
  qed
qed

text \<open>The invariant is kept when no upload changes its content file.\<close>

lemma fs_inv_sub:
  assumes inv: "fs_inv store m"
    and sub: "\<And>j info f. stored store m' j = Some (info, f) \<Longrightarrow>
      json_norm info = info \<and> bytes_of f \<noteq> None \<and>
      (\<exists>info0 f0. stored store m j = Some (info0, f0) \<and> storedBinPath store info = storedBinPath store info0)"
  shows "fs_inv store m'"
  unfolding fs_inv_def
proof (intro allI impI conjI)
  fix i info f assume i: "stored store m' i = Some (info, f)"
  from sub [OF i] show "json_norm info = info" "bytes_of f \<noteq> None" by blast+
  fix j info' f' assume j: "stored store m' j = Some (info', f')"
  from sub [OF i] obtain info0 f0 where i0: "stored store m i = Some (info0, f0)"
    "storedBinPath store info = storedBinPath store info0" by blast
  from sub [OF j] obtain info1 f1 where j0: "stored store m j = Some (info1, f1)"
    "storedBinPath store info' = storedBinPath store info1" by blast
  from fs_invD(3) [OF inv i0(1) j0(1)] i0(2) j0(2)
  show "infoPath store i = infoPath store j \<or> storedBinPath store info \<noteq> storedBinPath store info'"
    by metis
qed

lemma stored_same: "infoPath store j = infoPath store i \<Longrightarrow> stored store m j = stored store m i"
  by (simp add: stored_def)

lemma fs_inv_rewrite:
  assumes inv: "fs_inv store m" and i: "stored store m i = Some (info, f)"
  shows "fs_inv store (m(storedBinPath store info \<mapsto> map B bs))"
proof (rule fs_inv_sub [OF inv])
  fix j info1 f1
  assume "stored store (m(storedBinPath store info \<mapsto> map B bs)) j = Some (info1, f1)"
  then show "json_norm info1 = info1 \<and> bytes_of f1 \<noteq> None \<and>
      (\<exists>info0 f0. stored store m j = Some (info0, f0) \<and> storedBinPath store info1 = storedBinPath store info0)"
    using fs_invD(1,2) [OF inv, of j info1 f1] fs_invD(1) [OF inv i] i stored_same [of store j i m]
    unfolding stored_rewrite [OF inv i] by (auto split: if_splits)
qed

lemma rewrite_content:
  assumes inv: "fs_inv store m" and i: "stored store m i = Some (info, f)"
    and m': "m' = m(storedBinPath store info \<mapsto> map B bs)"
  shows "fs_inv store m'" "stored store m' i = Some (info, map B bs)"
    "frame (fs_same store) i (fs_view store m) (fs_view store m')"
  using fs_inv_rewrite [OF inv i] stored_rewrite [OF inv i]
  by (auto simp: m' frame_def fs_same_def fs_view_def)

text \<open>
  Rewriting the information file of an upload: with a document for the same content file the
  upload has the new information; with anything else the upload is gone.
\<close>

lemma stored_info_other:
  assumes inv: "fs_inv store m" and doc: "m (infoPath store i) = Some [J info]"
    and j: "infoPath store j \<noteq> infoPath store i"
  shows "stored store (m(infoPath store i := y)) j = stored store m j"
proof -
  have "storedBinPath store info' \<noteq> infoPath store i" if "stored store m j = Some (info', f')" for info' f'
    using bin_not_info [OF inv that doc] .
  then show ?thesis
    using j doc by (auto simp: stored_def split: option.splits list.splits atom.splits)
qed

lemma frame_info:
  assumes "fs_inv store m" "m (infoPath store i) = Some [J info]"
  shows "frame (fs_same store) i (fs_view store m) (fs_view store (m(infoPath store i := y)))"
  using stored_info_other [OF assms] by (simp add: frame_def fs_same_def fs_view_def)

lemma rewrite_info:
  assumes inv: "fs_inv store m" and i: "stored store m i = Some (info, f)"
    and m': "m' = m(infoPath store i \<mapsto> [J info'])"
    and info': "storedBinPath store info' = storedBinPath store info" "json_norm info' = info'"
  shows "fs_inv store m'" "stored store m' i = Some (info', f)"
    "frame (fs_same store) i (fs_view store m) (fs_view store m')"
proof -
  have doc: "m (infoPath store i) = Some [J info]" using i by (simp add: stored_Some)
  show i': "stored store m' i = Some (info', f)"
    using i bin_not_info [OF inv i doc] by (simp add: m' stored_Some info')
  show "frame (fs_same store) i (fs_view store m) (fs_view store m')"
    unfolding m' by (rule frame_info [OF inv doc])
  show "fs_inv store m'"
  proof (rule fs_inv_sub [OF inv])
    fix j info1 f1 assume j: "stored store m' j = Some (info1, f1)"
    show "json_norm info1 = info1 \<and> bytes_of f1 \<noteq> None \<and>
        (\<exists>info0 f0. stored store m j = Some (info0, f0) \<and> storedBinPath store info1 = storedBinPath store info0)"
    proof (cases "infoPath store j = infoPath store i")
      case True
      with j i' i info' fs_invD(2) [OF inv i] stored_same [of store j i] show ?thesis by fastforce
    next
      case False
      then have "stored store m j = Some (info1, f1)"
        using j stored_info_other [OF inv doc False] by (simp add: m')
      with fs_invD(1,2) [OF inv this] show ?thesis by auto
    qed
  qed
qed

lemma lose_info:
  assumes inv: "fs_inv store m" and doc: "m (infoPath store i) = Some [J info]"
    and m': "m' = m(infoPath store i := y)" and y: "\<And>info'. y \<noteq> Some [J info']"
  shows "fs_inv store m'" "fs_view store m' i = None"
    "frame (fs_same store) i (fs_view store m) (fs_view store m')"
proof -
  have gone: "stored store m' j = None" if "infoPath store j = infoPath store i" for j
    using y that by (intro stored_None_not_doc) (simp add: m')
  then show "fs_view store m' i = None" by (simp add: fs_view_def)
  show "frame (fs_same store) i (fs_view store m) (fs_view store m')"
    unfolding m' by (rule frame_info [OF inv doc])
  show "fs_inv store m'"
  proof (rule fs_inv_sub [OF inv])
    fix j info1 f1 assume j: "stored store m' j = Some (info1, f1)"
    with gone have "infoPath store j \<noteq> infoPath store i" by force
    then have "stored store m j = Some (info1, f1)"
      using j stored_info_other [OF inv doc] by (simp add: m')
    with fs_invD(1,2) [OF inv this] show "json_norm info1 = info1 \<and> bytes_of f1 \<noteq> None \<and>
        (\<exists>info0 f0. stored store m j = Some (info0, f0) \<and> storedBinPath store info1 = storedBinPath store info0)"
      by auto
  qed
qed

text \<open>Removing the content file.\<close>

lemma lose_content:
  assumes inv: "fs_inv store m" and i: "stored store m i = Some (info, f)"
    and m': "m' = m(storedBinPath store info := None)"
  shows "fs_inv store m'" "fs_view store m' i = None"
    "frame (fs_same store) i (fs_view store m) (fs_view store m')"
    "m' (infoPath store i) = Some [J info]"
proof -
  have doc: "m (infoPath store i) = Some [J info]" using i by (simp add: stored_Some)
  then show doc': "m' (infoPath store i) = Some [J info]"
    using bin_not_info [OF inv i doc] by (auto simp: m')
  have other: "stored store m' j = (if infoPath store j = infoPath store i then None else stored store m j)" for j
  proof (cases "infoPath store j = infoPath store i")
    case True
    with doc' show ?thesis by (simp add: stored_def m')
  next
    case False
    have "stored store m' j = stored store m j"
    proof (cases "stored store m j")
      case None
      have "stored store m' j = None"
      proof (rule ccontr)
        assume "stored store m' j \<noteq> None"
        then obtain info' f' where "stored store m' j = Some (info', f')" by auto
        then have "stored store m j = Some (info', f')" by (auto simp: stored_Some m' split: if_splits)
        with None show False by simp
      qed
      with None show ?thesis by simp
    next
      case (Some x)
      then obtain info' f' where j: "stored store m j = Some (info', f')" by (cases x) auto
      then have "infoPath store j \<noteq> storedBinPath store info"
        using bin_not_info [OF inv i, of "infoPath store j" info'] by (auto simp: stored_Some)
      with j fs_invD(3) [OF inv i j] False have "stored store m' j = Some (info', f')"
        by (auto simp: stored_Some m')
      with j show ?thesis by simp
    qed
    with False show ?thesis by simp
  qed
  show "fs_view store m' i = None" by (simp add: fs_view_def other)
  show "frame (fs_same store) i (fs_view store m) (fs_view store m')"
    by (simp add: frame_def fs_same_def fs_view_def other)
  show "fs_inv store m'"
    by (rule fs_inv_sub [OF inv]) (use fs_invD(1,2) [OF inv] in \<open>auto simp: other bytes_of_Some split: if_splits\<close>)
qed

section \<open>Facts: the operations of the file system\<close>

text \<open>Everything but the clock stays the same.\<close>

definition quiet :: "filesys \<Rightarrow> filesys \<Rightarrow> bool" where
  "quiet s s' \<longleftrightarrow> files_of s' = files_of s \<and> fs_dirs s' = fs_dirs s \<and> fs_faults s' = fs_faults s \<and>
     fs_json s' = fs_json s"

lemma quiet_refl [simp]: "quiet s s"
  by (simp add: quiet_def)

lemma quiet_trans: "quiet s s1 \<Longrightarrow> quiet s1 s2 \<Longrightarrow> quiet s s2"
  by (simp add: quiet_def)

lemma quiet_tick: "tick s = (f, s') \<Longrightarrow> quiet s s' \<and> f = fs_faults s (fs_clock s)"
  by (auto simp: tick_def quiet_def)

lemma os_open_facts:
  assumes "os_open p s = (e, s')"
  shows "quiet s s'" "e = None \<Longrightarrow> files_of s p \<noteq> None"
  using assms by (auto simp: os_open_def quiet_def tick_def split: prod.splits option.splits if_splits)

lemma file_Close_quiet: "file_Close p s = (e, s') \<Longrightarrow> quiet s s'"
  by (auto simp: file_Close_def quiet_def tick_def split: prod.splits option.splits)

lemma os_ReadFile_facts:
  assumes "os_ReadFile p s = (r, s')"
  shows "quiet s s'" "r = Inr f \<Longrightarrow> files_of s p = Some f"
proof -
  obtain e s1 where o: "os_open p s = (e, s1)" by force
  note q = os_open_facts [OF o]
  show "quiet s s'" "r = Inr f \<Longrightarrow> files_of s p = Some f"
    using assms o q by (auto simp: os_ReadFile_def quiet_def tick_def split: option.splits)
qed

lemma os_Stat_facts:
  assumes "os_Stat p s = (r, s')"
  shows "quiet s s'"
    "r = Inr len \<Longrightarrow> \<not> List.member (fs_dirs s) p \<Longrightarrow> \<exists>f. files_of s p = Some f \<and> len = int (length (render s f))"
  using assms by (auto simp: os_Stat_def quiet_def tick_def render_def split: prod.splits option.splits if_splits)

text \<open>What a write does to the file \<open>p\<close>.\<close>

definition file_appends :: "string \<Rightarrow> filesys \<Rightarrow> bytes \<Rightarrow> filesys \<Rightarrow> bool" where
  "file_appends p s d s' \<longleftrightarrow>
     files_of s' = (case files_of s p of None \<Rightarrow> files_of s | Some f \<Rightarrow> (files_of s)(p \<mapsto> f @ map B d)) \<and>
     fs_dirs s' = fs_dirs s \<and> fs_faults s' = fs_faults s \<and> fs_json s' = fs_json s"

interpretation file_writer: append_writer "\<lambda>d. file_Write p (map B d)" "file_appends p" for p
proof
  fix d s n e s'
  assume "file_Write p (map B d) s = ((n, e), s')"
  then show "n \<le> length d \<and> file_appends p s (take n d) s'"
    by (auto simp: file_Write_def file_appends_def append_to_def tick_def take_map Let_def
        split: option.splits)
qed (auto simp: file_appends_def split: option.splits)

lemma file_appends_Some:
  "file_appends p s d s' \<Longrightarrow> files_of s p = Some f \<Longrightarrow> files_of s' = (files_of s)(p \<mapsto> f @ map B d)"
  by (simp add: file_appends_def)

section \<open>Facts: the contract of the store\<close>

text \<open>
  The invariant of the file system: the one of its files, and no directory where the content of
  an upload should be.
\<close>

definition fs_sinv :: "FileStore \<Rightarrow> filesys \<Rightarrow> bool" where
  "fs_sinv store s \<longleftrightarrow> fs_inv store (files_of s) \<and>
     (\<forall>i info. files_of s (infoPath store i) = Some [J info] \<longrightarrow>
        \<not> List.member (fs_dirs s) (storedBinPath store info))"

lemma quiet_sinv: "quiet s s' \<Longrightarrow> fs_sinv store s' = fs_sinv store s"
  by (simp add: quiet_def fs_sinv_def)

lemma json_norm_simps [simp]:
  "json_norm (info\<lparr>Offset := n\<rparr>) = (json_norm info)\<lparr>Offset := n\<rparr>"
  "json_norm (info\<lparr>Size := n\<rparr>) = (json_norm info)\<lparr>Size := n\<rparr>"
  "json_norm (info\<lparr>SizeIsDeferred := b\<rparr>) = (json_norm info)\<lparr>SizeIsDeferred := b\<rparr>"
  "Size (json_norm info) = Size info" "SizeIsDeferred (json_norm info) = SizeIsDeferred info"
  "Offset (json_norm info) = Offset info" "IsFinal (json_norm info) = IsFinal info"
  "IsPartial (json_norm info) = IsPartial info"
  by (simp_all add: json_norm_def)

lemma storedBinPath_simps [simp]:
  "storedBinPath store (info\<lparr>Offset := n\<rparr>) = storedBinPath store info"
  "storedBinPath store (info\<lparr>Size := n\<rparr>) = storedBinPath store info"
  "storedBinPath store (info\<lparr>SizeIsDeferred := b\<rparr>) = storedBinPath store info"
  by (simp_all add: storedBinPath_def)

lemma json_Unmarshal_Inr: "json_Unmarshal f = Inr info \<longleftrightarrow> f = [J info]"
  by (cases f rule: json_Unmarshal.cases) auto

lemma fs_GetUpload_facts:
  assumes "fs_sinv store s" "fs_GetUpload store i s = (r, s')"
  shows "quiet s s'"
    "r = Inr u \<Longrightarrow> fs_handle store u (files_of s) i \<and>
       (\<exists>c. fs_view store (files_of s) i = Some (fu_info u, c))"
proof -
  obtain r1 s1 where rd: "os_ReadFile (infoPath store i) s = (r1, s1)" by force
  note f1 = os_ReadFile_facts [OF rd]
  show "quiet s s'"
    using assms(2) rd f1(1) os_Stat_facts(1)
    by (auto simp: fs_GetUpload_def split: sum.splits prod.splits intro: quiet_trans)
  assume r: "r = Inr u"
  then obtain data info len s2 where steps: "r1 = Inr data" "json_Unmarshal data = Inr info"
    "os_Stat (storedBinPath store info) s1 = (Inr len, s2)"
    and u: "u = \<lparr>fu_info = info\<lparr>Offset := len\<rparr>, fu_infoPath = infoPath store i,
                fu_binPath = storedBinPath store info, fu_dirModePerm = DirModePerm store,
                fu_fileModePerm = FileModePerm store\<rparr>"
    using assms(2) rd by (auto simp: fs_GetUpload_def split: sum.splits prod.splits)
  have doc: "files_of s (infoPath store i) = Some [J info]"
    using f1(2) steps by (simp add: json_Unmarshal_Inr)
  then have "\<not> List.member (fs_dirs s1) (storedBinPath store info)"
    using assms(1) f1(1) by (auto simp: fs_sinv_def quiet_def)
  with os_Stat_facts(2) [OF steps(3) refl] obtain f where
    f: "files_of s (storedBinPath store info) = Some f" "len = int (length (render s1 f))"
    using f1(1) by (auto simp: quiet_def)
  have st: "stored store (files_of s) i = Some (info, f)" using doc f by (simp add: stored_Some)
  have inv: "fs_inv store (files_of s)" using assms(1) by (simp add: fs_sinv_def)
  from fs_invD(1,2) [OF inv st] obtain bs where "f = map B bs" "json_norm info = info" by auto
  with st f(2) u show "fs_handle store u (files_of s) i \<and>
       (\<exists>c. fs_view store (files_of s) i = Some (fu_info u, c))"
    by (auto simp: fs_handle_def fs_view_stored)
qed

lemma fs_handleE:
  assumes "fs_sinv store s" "fs_handle store u (files_of s) i"
    "fs_view store (files_of s) i = Some (info, c)"
  obtains info0 where "stored store (files_of s) i = Some (info0, map B c)" "info = info0\<lparr>Offset := int (length c)\<rparr>"
    "json_norm info0 = info0" "fu_infoPath u = infoPath store i" "fu_binPath u = storedBinPath store info0"
    "json_norm (fu_info u) = info" "fs_inv store (files_of s)"
    "files_of s (infoPath store i) = Some [J info0]" "files_of s (storedBinPath store info0) = Some (map B c)"
    "\<not> List.member (fs_dirs s) (storedBinPath store info0)"
proof -
  from assms(2) obtain info0 bs where st: "stored store (files_of s) i = Some (info0, map B bs)"
    "fu_infoPath u = infoPath store i" "fu_binPath u = storedBinPath store info0"
    "json_norm (fu_info u) = info0\<lparr>Offset := int (length bs)\<rparr>" by (auto simp: fs_handle_def)
  have inv: "fs_inv store (files_of s)" using assms(1) by (simp add: fs_sinv_def)
  from st(1) assms(3) have "bs = c" "info = info0\<lparr>Offset := int (length c)\<rparr>" by (auto simp: fs_view_stored)
  with st inv fs_invD(1) [OF inv st(1)] assms(1) show thesis
    by (intro that [of info0]) (auto simp: stored_Some fs_sinv_def)
qed

lemma sinv_rewrite_content:
  assumes "fs_sinv store s" "stored store (files_of s) i = Some (info0, f)"
    "files_of s' = (files_of s)(storedBinPath store info0 \<mapsto> map B bs)" "fs_dirs s' = fs_dirs s"
  shows "fs_sinv store s'" "stored store (files_of s') i = Some (info0, map B bs)"
    "frame (fs_same store) i (fs_view store (files_of s)) (fs_view store (files_of s'))"
proof -
  have inv: "fs_inv store (files_of s)" using assms(1) by (simp add: fs_sinv_def)
  note rw = rewrite_content [OF inv assms(2,3)]
  have "files_of s (infoPath store j) = Some [J info]" if "files_of s' (infoPath store j) = Some [J info]" for j info
    using that assms(3) by (auto split: if_splits)
  with rw(1) assms(1,4) show "fs_sinv store s'" by (auto simp: fs_sinv_def)
qed (use rewrite_content [OF _ assms(2,3)] assms(1) in \<open>auto simp: fs_sinv_def\<close>)

lemma fs_WriteChunk_facts:
  assumes sinv: "fs_sinv store s" and handle: "fs_handle store u (files_of s) i"
    and view: "fs_view store (files_of s) i = Some (info, c)" and fresh: "fresh_reader b"
    and bound: "int (length c) + int (length (reader_data b)) \<le> MaxInt64"
    and run: "fs_WriteChunk u off b s = ((n, e), b', u', s')"
  shows "fs_sinv store s' \<and> fs_handle store u' (files_of s') i \<and>
    frame (fs_same store) i (fs_view store (files_of s)) (fs_view store (files_of s')) \<and>
    (\<exists>m \<le> length (reader_data b). n = int m \<and>
       fs_view store (files_of s') i = Some (info\<lparr>Offset := Offset info + int m\<rparr>, c @ take m (reader_data b)) \<and>
       (e = None \<longrightarrow> m = length (reader_data b) \<and> br_err b' = reader_err b))"
proof -
  from fs_handleE [OF sinv handle view] obtain info0 where
    st: "stored store (files_of s) i = Some (info0, map B c)" and info: "info = info0\<lparr>Offset := int (length c)\<rparr>"
    and up: "fu_infoPath u = infoPath store i" "fu_binPath u = storedBinPath store info0" "json_norm (fu_info u) = info"
    and files: "files_of s (storedBinPath store info0) = Some (map B c)" .
  let ?p = "storedBinPath store info0"
  obtain oe s1 where open1: "os_open ?p s = (oe, s1)" by force
  note q1 = os_open_facts(1) [OF open1]
  have offu: "Offset (fu_info u) = int (length c)" using arg_cong [OF up(3), of Offset] info by simp
  show ?thesis
  proof (cases oe)
    case (Some x)
    with run open1 up have "n = 0" "e = Some x" "u' = u" "s' = s1" by (auto simp: fs_WriteChunk_def)
    moreover have "files_of s1 = files_of s" "fs_sinv store s1"
      using q1 quiet_sinv [OF q1] sinv by (auto simp: quiet_def)
    ultimately show ?thesis using handle view by (auto intro!: exI [of _ 0])
  next
    case None
    obtain n1 e1 b1 s2 where copy: "io_Copy (\<lambda>d. file_Write ?p (map B d)) b 0 s1 = ((n1, e1), b1, s2)"
      by (metis surj_pair)
    obtain ce s3 where close: "file_Close ?p s2 = (ce, s3)" by force
    have res: "n = n1" "e = (if e1 \<noteq> None then e1 else ce)" "b' = b1" "u' = add_offset n1 u" "s' = s3"
      using run open1 up None copy close by (auto simp: fs_WriteChunk_def)
    from file_writer.io_Copy_appends [OF fresh _ _ copy] bound obtain m where
      m: "m \<le> length (reader_data b)" "n1 = int m" "file_appends ?p s1 (take m (reader_data b)) s2"
        "e1 = None \<longrightarrow> m = length (reader_data b) \<and> br_err b1 = reader_err b" by auto
    have new: "files_of s3 = (files_of s)(?p \<mapsto> map B (c @ take m (reader_data b)))" "fs_dirs s3 = fs_dirs s"
      using m(3) q1 file_Close_quiet [OF close] files by (auto simp: file_appends_def quiet_def)
    note rw = sinv_rewrite_content [OF sinv st new]
    have "add64 (int (length c)) (int m) = int (length c) + int m"
      using m(1) bound by (intro add64_id) (auto simp: int64_defs)
    then have "fs_handle store u' (files_of s3) i"
      unfolding res(4) m(2) add_offset_def fs_handle_def
      using rw(2) up offu m(1) info by (auto intro!: exI [of _ info0] exI [of _ "c @ take m (reader_data b)"])
    moreover have "fs_view store (files_of s3) i =
        Some (info\<lparr>Offset := Offset info + int m\<rparr>, c @ take m (reader_data b))"
      using fs_view_stored [OF rw(2)] info m(1) by simp
    ultimately show ?thesis using rw(1,3) m res by auto
  qed
qed

lemma os_Remove_file:
  assumes "os_Remove p s = (e, s')" "files_of s p \<noteq> None"
  shows "fs_dirs s' = fs_dirs s"
    "e = None \<and> files_of s' = (files_of s)(p := None) \<or>
     (\<exists>x. e = Some x \<and> \<not> IsNotExist x) \<and> files_of s' = files_of s"
  using assms by (auto simp: os_Remove_def tick_def IsNotExist_def split: option.splits)

lemma fs_Terminate_facts:
  assumes sinv: "fs_sinv store s" and handle: "fs_handle store u (files_of s) i"
    and run: "fs_Terminate u s = (e, u', s')"
  shows "fs_sinv store s' \<and> fs_owner store u' i \<and>
    frame (fs_same store) i (fs_view store (files_of s)) (fs_view store (files_of s')) \<and>
    (fs_view store (files_of s') i = None \<or>
     e \<noteq> None \<and> fs_view store (files_of s') i = fs_view store (files_of s) i)"
proof -
  from handle obtain info0 bs where st: "stored store (files_of s) i = Some (info0, map B bs)"
    and up: "fu_infoPath u = infoPath store i" "fu_binPath u = storedBinPath store info0"
    by (auto simp: fs_handle_def)
  have inv: "fs_inv store (files_of s)" using sinv by (simp add: fs_sinv_def)
  let ?p = "storedBinPath store info0"
  obtain e1 s1 where r1: "os_Remove ?p s = (e1, s1)" by force
  note f1 = os_Remove_file [OF r1]
  have u': "u' = u" using run by (auto simp: fs_Terminate_def split: prod.splits if_splits)
  show ?thesis
  proof (cases "e1 = None")
    case False
    with f1 st have "files_of s1 = files_of s" "fs_dirs s1 = fs_dirs s" "\<exists>x. e1 = Some x \<and> \<not> IsNotExist x"
      by (auto simp: stored_Some)
    with run r1 up have "s' = s1" "e \<noteq> None" by (auto simp: fs_Terminate_def)
    with \<open>files_of s1 = files_of s\<close> \<open>fs_dirs s1 = fs_dirs s\<close> sinv up u' show ?thesis
      by (simp add: fs_sinv_def fs_owner_def)
  next
    case True
    with f1 st have m1: "files_of s1 = (files_of s)(?p := None)" "fs_dirs s1 = fs_dirs s"
      by (auto simp: stored_Some)
    note lc = lose_content [OF inv st m1(1)]
    obtain e2 s2 where r2: "os_Remove (infoPath store i) s1 = (e2, s2)" by force
    have "files_of s1 (infoPath store i) \<noteq> None" using lc(4) by simp
    note f2 = os_Remove_file [OF r2 this]
    have s': "s' = s2" using run r1 up True r2 by (auto simp: fs_Terminate_def split: if_splits)
    have "files_of s2 (infoPath store j) = Some [J x] \<Longrightarrow> files_of s (infoPath store j) = Some [J x]" for j x
      using f2(2) m1(1) by (auto split: if_splits)
    moreover have "fs_inv store (files_of s2) \<and> fs_view store (files_of s2) i = None \<and>
       frame (fs_same store) i (fs_view store (files_of s1)) (fs_view store (files_of s2))"
      using f2(2) lc(1,2) lose_info [OF lc(1,4) refl, of None] by auto
    ultimately show ?thesis
      using s' sinv f2(1) m1(2) lc(3) up u' by (auto simp: fs_sinv_def fs_owner_def intro: frame_trans)
  qed
qed

lemma take_single: "take n [x] = (if n = 0 then [] else [x])"
  by (cases n) auto

lemma createFile_existing:
  assumes "createFile p (Some [J doc]) s = (e, s')" "files_of s p = Some f"
  shows "fs_dirs s' = fs_dirs s"
    "e = None \<and> files_of s' = (files_of s)(p \<mapsto> [J doc]) \<or>
     e \<noteq> None \<and> files_of s' \<in> {files_of s, (files_of s)(p \<mapsto> []), (files_of s)(p \<mapsto> [J doc])}"
proof -
  obtain e1 s1 where c: "os_create p s = (e1, s1)" by force
  with assms(2) have f1: "fs_dirs s1 = fs_dirs s"
    "e1 = None \<and> files_of s1 = (files_of s)(p \<mapsto> []) \<or>
     (\<exists>x. e1 = Some x \<and> \<not> IsNotExist x) \<and> files_of s1 = files_of s"
    by (auto simp: os_create_def tick_def IsNotExist_def split: option.splits if_splits)
  have w: "fs_dirs s2 = fs_dirs s1 \<and>
      (e2 = None \<and> files_of s2 = (files_of s1)(p \<mapsto> [J doc]) \<or>
       e2 \<noteq> None \<and> files_of s2 \<in> {files_of s1, (files_of s1)(p \<mapsto> [J doc])})"
    if "write_and_close p (Some [J doc]) s1 = (e2, s2)" "files_of s1 p = Some []" for e2 s2
    using that
    by (auto simp: write_and_close_def file_Write_def append_to_def file_Close_def tick_def take_single fun_upd_idem Let_def
        split: option.splits prod.splits if_splits)
  have "e1 = None \<Longrightarrow> write_and_close p (Some [J doc]) s1 = (e, s')"
    "e1 = Some x \<Longrightarrow> \<not> IsNotExist x \<Longrightarrow> e = Some x \<and> s' = s1" for x
    using assms(1) c by (auto simp: createFile_def)
  note run = this
  have "fs_dirs s' = fs_dirs s \<and>
    (e = None \<and> files_of s' = (files_of s)(p \<mapsto> [J doc]) \<or>
     e \<noteq> None \<and> files_of s' \<in> {files_of s, (files_of s)(p \<mapsto> []), (files_of s)(p \<mapsto> [J doc])})"
  proof (cases e1)
    case None
    with f1 have m1: "files_of s1 = (files_of s)(p \<mapsto> [])" by simp
    from w [OF run(1) [OF None]] f1(1) show ?thesis by (auto simp: m1)
  next
    case (Some x)
    with f1 run(2) show ?thesis by auto
  qed
  then show "fs_dirs s' = fs_dirs s"
    "e = None \<and> files_of s' = (files_of s)(p \<mapsto> [J doc]) \<or>
     e \<noteq> None \<and> files_of s' \<in> {files_of s, (files_of s)(p \<mapsto> []), (files_of s)(p \<mapsto> [J doc])}"
    by simp_all
qed

lemma fs_DeclareLength_facts:
  assumes sinv: "fs_sinv store s" and handle: "fs_handle store u (files_of s) i"
    and view: "fs_view store (files_of s) i = Some (info, c)"
    and run: "fs_DeclareLength u len s = (e, u', s')"
  shows "fs_sinv store s' \<and> frame (fs_same store) i (fs_view store (files_of s)) (fs_view store (files_of s')) \<and>
    (if e = None
     then fs_handle store u' (files_of s') i \<and>
       fs_view store (files_of s') i = Some (info\<lparr>Size := len, SizeIsDeferred := False\<rparr>, c)
     else fs_view store (files_of s') i \<in> {None, fs_view store (files_of s) i,
            Some (info\<lparr>Size := len, SizeIsDeferred := False\<rparr>, c)})"
proof -
  from fs_handleE [OF sinv handle view] obtain info0 where
    st: "stored store (files_of s) i = Some (info0, map B c)" and info: "info = info0\<lparr>Offset := int (length c)\<rparr>"
    and norm: "json_norm info0 = info0"
    and up: "fu_infoPath u = infoPath store i" "fu_binPath u = storedBinPath store info0" "json_norm (fu_info u) = info"
    and inv: "fs_inv store (files_of s)" and doc: "files_of s (infoPath store i) = Some [J info0]"
    and nodir: "\<not> List.member (fs_dirs s) (storedBinPath store info0)" .
  let ?info = "info\<lparr>Size := len, SizeIsDeferred := False\<rparr>"
  have u': "u' = u\<lparr>fu_info := (fu_info u)\<lparr>Size := len, SizeIsDeferred := False\<rparr>\<rparr>"
    and cf: "createFile (infoPath store i) (Some [J ?info]) s = (e, s')"
    using run up by (auto simp: fs_DeclareLength_def writeInfo_def json_Marshal_def split: prod.splits)
  note f = createFile_existing [OF cf doc]
  have bin: "storedBinPath store ?info = storedBinPath store info0" "json_norm ?info = ?info"
    using info norm by simp_all
  have full: "fs_sinv store s'" "fs_handle store u' (files_of s') i"
    "frame (fs_same store) i (fs_view store (files_of s)) (fs_view store (files_of s'))"
    "fs_view store (files_of s') i = Some (?info, c)"
    if m': "files_of s' = (files_of s)(infoPath store i \<mapsto> [J ?info])"
  proof -
    note rw = rewrite_info [OF inv st m' bin]
    have "\<not> List.member (fs_dirs s') (storedBinPath store x)"
      if "files_of s' (infoPath store j) = Some [J x]" for j x
      using that m' sinv nodir bin(1) f(1) by (auto simp: fs_sinv_def split: if_splits)
    with rw(1) show "fs_sinv store s'" by (simp add: fs_sinv_def)
    show "fs_view store (files_of s') i = Some (?info, c)"
      using fs_view_stored [OF rw(2)] info by simp
    show "fs_handle store u' (files_of s') i"
      using rw(2) up bin(1) info u' by (auto simp: fs_handle_def)
  qed (rule rewrite_info(3) [OF inv st that bin])
  have lost: "fs_sinv store s' \<and> fs_view store (files_of s') i = None \<and>
      frame (fs_same store) i (fs_view store (files_of s)) (fs_view store (files_of s'))"
    if m': "files_of s' = (files_of s)(infoPath store i \<mapsto> [])"
  proof -
    note li = lose_info [OF inv doc m']
    have "\<not> List.member (fs_dirs s') (storedBinPath store x)"
      if "files_of s' (infoPath store j) = Some [J x]" for j x
      using that m' sinv f(1) by (auto simp: fs_sinv_def split: if_splits)
    with li show ?thesis by (simp add: fs_sinv_def)
  qed
  have unchanged: "fs_sinv store s'" if "files_of s' = files_of s"
    using that sinv f(1) by (simp add: fs_sinv_def)
  from f(2) show ?thesis
    by (elim disjE conjE insertE emptyE) (use full lost unchanged in auto)
qed

lemma fs_GetReader_facts:
  assumes sinv: "fs_sinv store s" and handle: "fs_handle store u (files_of s) i"
    and view: "fs_view store (files_of s) i = Some (info, c)" and run: "fs_GetReader u s = (r, u', s')"
  shows "fs_sinv store s' \<and> fs_view store (files_of s') = fs_view store (files_of s) \<and>
      (\<forall>bs e. r = Inr (bs, e) \<longrightarrow> prefix bs c \<and> (e = None \<longrightarrow> bs = c))"
proof -
  from fs_handleE [OF sinv handle view] obtain info0 where up: "fu_binPath u = storedBinPath store info0"
    and files: "files_of s (storedBinPath store info0) = Some (map B c)" .
  obtain oe s1 where open1: "os_open (storedBinPath store info0) s = (oe, s1)" by force
  note q1 = os_open_facts(1) [OF open1]
  have content: "files_of s1 (storedBinPath store info0) = Some (map B c)" using q1 files by (simp add: quiet_def)
  have "quiet s1 s' \<and> (\<forall>bs e. r = Inr (bs, e) \<longrightarrow> prefix bs c \<and> (e = None \<longrightarrow> bs = c))"
    using run open1 up content
    by (auto simp: fs_GetReader_def tick_def quiet_def take_is_prefix split: option.splits)
  then have "quiet s s'" and r: "\<forall>bs e. r = Inr (bs, e) \<longrightarrow> prefix bs c \<and> (e = None \<longrightarrow> bs = c)"
    using q1 quiet_trans by blast+
  then show ?thesis using quiet_sinv [OF \<open>quiet s s'\<close>] sinv by (simp add: quiet_def)
qed

text \<open>The local file system keeps the contract of the handler's data store.\<close>

interpretation filestore: extended_store "fileStore store" "fs_sinv store"
  "\<lambda>s. fs_view store (files_of s)" "\<lambda>u s i. fs_handle store u (files_of s) i" "fs_owner store"
  "fs_same store" fs_Terminate fs_DeclareLength for store
proof
  fix s i info c
  assume "fs_view store (files_of s) i = Some (info, c)"
  then show "Offset info = int (length c)"
    by (auto simp: fs_view_def split: option.splits prod.splits)
next
  fix u s i
  assume "fs_handle store u (files_of s) i"
  then show "fs_owner store u i" "fs_view store (files_of s) i \<noteq> None"
    by (auto simp: fs_handle_def fs_owner_def fs_view_stored)
next
  fix i show "fs_same store i i" by (simp add: fs_same_def)
next
  fix s i r s'
  assume "fs_sinv store s" "GetUpload (fileStore store) i s = (r, s')"
  then have run: "fs_sinv store s" "fs_GetUpload store i s = (r, s')" by (simp_all add: fileStore_def)
  note f = fs_GetUpload_facts [OF run]
  have "files_of s' = files_of s" using f(1) by (simp add: quiet_def)
  then show "fs_sinv store s' \<and> fs_view store (files_of s') = fs_view store (files_of s) \<and>
      (\<forall>u. r = Inr u \<longrightarrow> fs_handle store u (files_of s') i)"
    using f run(1) quiet_sinv [OF f(1)] by simp
next
  fix s u i r u' s'
  assume h: "fs_sinv store s" "fs_handle store u (files_of s) i" "GetInfo (fileStore store) u s = (r, u', s')"
  then have same: "r = Inr (fu_info u)" "u' = u" "s' = s" by (auto simp: fileStore_def fs_GetInfo_def)
  from h(2) obtain info bs where v: "fs_view store (files_of s) i = Some (info\<lparr>Offset := int (length bs)\<rparr>, bs)"
    and n: "json_norm (fu_info u) = info\<lparr>Offset := int (length bs)\<rparr>"
    by (auto simp: fs_handle_def fs_view_stored)
  have "core_eq (fu_info u) (json_norm (fu_info u))" by (simp add: core_eq_def)
  then show "fs_sinv store s' \<and> fs_view store (files_of s') = fs_view store (files_of s) \<and>
      (\<forall>info. r = Inr info \<longrightarrow> fs_handle store u' (files_of s') i \<and>
        (\<exists>info0 c. fs_view store (files_of s) i = Some (info0, c) \<and> core_eq info info0))"
    using h(1,2) v n by (auto simp: same)
next
  fix s i u s1 info u' s2
  assume "fs_sinv store s" "GetUpload (fileStore store) i s = (Inr u, s1)"
    "GetInfo (fileStore store) u s1 = (Inr info, u', s2)"
  then show "\<exists>c. fs_view store (files_of s) i = Some (info, c)"
    using fs_GetUpload_facts(2) [of store s i "Inr u" s1 u] by (auto simp: fileStore_def fs_GetInfo_def)
next
  fix s u i info c b n e b' u' s'
  assume "fs_sinv store s" "fs_handle store u (files_of s) i" "fs_view store (files_of s) i = Some (info, c)"
    "fresh_reader b" "int (length c) + int (length (reader_data b)) \<le> MaxInt64"
    "WriteChunk (fileStore store) u (Offset info) b s = ((n, e), b', u', s')"
  then show "fs_sinv store s' \<and> fs_handle store u' (files_of s') i \<and>
      frame (fs_same store) i (fs_view store (files_of s)) (fs_view store (files_of s')) \<and>
      (\<exists>m \<le> length (reader_data b). n = int m \<and>
         fs_view store (files_of s') i = Some (info\<lparr>Offset := Offset info + int m\<rparr>, c @ take m (reader_data b)) \<and>
         (e = None \<longrightarrow> m = length (reader_data b) \<and> br_err b' = reader_err b))"
    by (intro fs_WriteChunk_facts) (simp_all add: fileStore_def)
next
  fix s u i e u' s'
  assume "fs_sinv store s" "fs_owner store u i" "FinishUpload (fileStore store) u s = (e, u', s')"
  then show "fs_sinv store s' \<and> fs_view store (files_of s') = fs_view store (files_of s) \<and> fs_owner store u' i \<and>
      (e = None \<longrightarrow> fs_handle store u (files_of s) i \<longrightarrow> fs_handle store u' (files_of s') i)"
    by (simp add: fileStore_def fs_FinishUpload_def)
next
  fix s u i info c r u' s'
  assume h: "fs_sinv store s" "fs_handle store u (files_of s) i" "fs_view store (files_of s) i = Some (info, c)"
    "GetReader (fileStore store) u s = (r, u', s')"
  then show "fs_sinv store s' \<and> fs_view store (files_of s') = fs_view store (files_of s) \<and>
      (\<forall>bs e. r = Inr (bs, e) \<longrightarrow> prefix bs c \<and> (e = None \<longrightarrow> bs = c))"
    by (intro fs_GetReader_facts) (simp_all add: fileStore_def)
next
  fix s u i e u' s'
  assume "fs_sinv store s" "fs_handle store u (files_of s) i" "fs_Terminate u s = (e, u', s')"
  then show "fs_sinv store s' \<and> fs_owner store u' i \<and>
      frame (fs_same store) i (fs_view store (files_of s)) (fs_view store (files_of s')) \<and>
      (fs_view store (files_of s') i = None \<or>
       e \<noteq> None \<and> fs_view store (files_of s') i = fs_view store (files_of s) i)"
    by (rule fs_Terminate_facts)
next
  fix s u i info c len e u' s'
  assume "fs_sinv store s" "fs_handle store u (files_of s) i" "fs_view store (files_of s) i = Some (info, c)"
    "fs_DeclareLength u len s = (e, u', s')"
  then show "fs_sinv store s' \<and> frame (fs_same store) i (fs_view store (files_of s)) (fs_view store (files_of s')) \<and>
      (if e = None
       then fs_handle store u' (files_of s') i \<and>
         fs_view store (files_of s') i = Some (info\<lparr>Size := len, SizeIsDeferred := False\<rparr>, c)
       else fs_view store (files_of s') i \<in> {None, fs_view store (files_of s) i,
              Some (info\<lparr>Size := len, SizeIsDeferred := False\<rparr>, c)})"
    by (rule fs_DeclareLength_facts)
qed

end
