(* ===== verification/FileHandler.thy ===== *)
theory FileHandler
  imports FileStore
begin

text \<open>
  The handler on the local file system, as \<^verbatim>\<open>cmd/tusd/cli/composer.go\<close> puts it together: the
  file store with all its extensions and an optional locker. The contract of
  \<open>StoreContract\<close> holds for it, so the facts about the handlers do.
\<close>

section \<open>The composition\<close>

definition file_composer ::
  "(bytes option \<Rightarrow> Request \<Rightarrow> ResponseWriter \<Rightarrow> ResponseWriter) \<Rightarrow> FileStore \<Rightarrow> ('l, 'k) LockerOps option \<Rightarrow>
     (filesys, fileUpload, 'l, 'k) StoreComposer" where
  "file_composer http_ServeFile store locker = UseLocker locker (UseIn http_ServeFile store NewStoreComposer)"

definition file_handler ::
  "(bytes option \<Rightarrow> Request \<Rightarrow> ResponseWriter \<Rightarrow> ResponseWriter) \<Rightarrow> FileStore \<Rightarrow> ('l, 'k) LockerOps option \<Rightarrow>
     (filesys, fileUpload, 'l, 'k) Config \<Rightarrow> (filesys, fileUpload, 'l, 'k) UnroutedHandler" where
  "file_handler http_ServeFile store locker cfg = new_handler cfg (file_composer http_ServeFile store locker)"

text \<open>The uploads that a store sees in a world.\<close>

abbreviation uploads_in :: "FileStore \<Rightarrow> (filesys, 'l) world \<Rightarrow> uploads" where
  "uploads_in store w \<equiv> fs_view store (files_of (w_store w))"

abbreviation ok_world :: "FileStore \<Rightarrow> (filesys, 'l) world \<Rightarrow> bool" where
  "ok_world store w \<equiv> fs_sinv store (w_store w)"

text \<open>Uploads stay below the range of an \<^verbatim>\<open>int64\<close>.\<close>

definition fits :: "(FileInfo \<times> bytes) option \<Rightarrow> Request \<Rightarrow> bool" where
  "fits x c = (case x of None \<Rightarrow> True
     | Some (info, content) \<Rightarrow> int (length content) + int (length (request_bytes c)) \<le> MaxInt64)"

lemma file_composer_fields [simp]:
  "Core (file_composer serve store locker) = Some (fileStore store)"
  "Terminater (file_composer serve store locker) = Some fs_Terminate"
  "UsesTerminater (file_composer serve store locker)"
  "LengthDeferrer (file_composer serve store locker) = Some fs_DeclareLength"
  "UsesLengthDeferrer (file_composer serve store locker)"
  "Concater (file_composer serve store locker) = Some fs_ConcatUploads"
  "UsesConcater (file_composer serve store locker)"
  "Locker (file_composer serve store locker) = locker"
  "UsesLocker (file_composer serve store locker) = (locker \<noteq> None)"
  "UsesContentServer (file_composer serve store locker)"
  "ContentServer (file_composer serve store locker) = Some (fs_ServeContent serve)"
  by (simp_all add: file_composer_def UseIn_def Use_defs NewStoreComposer_def is_none_iff)

lemma file_handler_fields [simp]:
  "composer (file_handler serve store locker cfg) = file_composer serve store locker"
  "config (file_handler serve store locker cfg) = cfg"
  "basePath (file_handler serve store locker cfg) = BasePath cfg"
  "isBasePathAbs (file_handler serve store locker cfg) = isAbs cfg"
  by (simp_all add: file_handler_def new_handler_def)

interpretation file_server: handler_store "fileStore store" "fs_sinv store"
  "\<lambda>s. fs_view store (files_of s)" "\<lambda>u s i. fs_handle store u (files_of s) i" "fs_owner store"
  "fs_same store" fs_Terminate fs_DeclareLength "file_handler serve store locker cfg" for store serve locker cfg
  by unfold_locales auto

section \<open>An example: one upload in a directory\<close>

definition demo_info :: "int \<Rightarrow> FileInfo" where
  "demo_info len = emptyFileInfo\<lparr>ID := ''a'', Size := len, Storage := [(''Path'', ''d/a'')]\<rparr>"

definition demo_fs :: "int \<Rightarrow> bytes \<Rightarrow> filesys" where
  "demo_fs len content =
     \<lparr>fs_files = [(''d/a.info'', [J (demo_info len)]), (''d/a'', map B content)], fs_dirs = [''.'', ''d''],
      fs_faults = (\<lambda>_. None), fs_clock = 0, fs_rand = (\<lambda>_. Some ''0123456789abcdef''), fs_drawn = 0, fs_json = (\<lambda>_. [])\<rparr>"

definition demo_world :: "filesys \<Rightarrow> (filesys, unit) world" where
  "demo_world s =
     \<lparr>w_store = s, w_locks = (), w_metrics = newMetrics, w_created = [], w_complete = [], w_terminated = [],
      w_progress = [], w_res = newResponseWriter\<rparr>"

definition demo_config :: "(filesys, fileUpload, unit, unit) Config" where
  "demo_config = zeroConfig\<lparr>BasePath := ''/files/'', Cors := Some DefaultCorsConfig\<rparr>"

text \<open>A content server that sends nothing.\<close>

definition demo_serve :: "bytes option \<Rightarrow> Request \<Rightarrow> ResponseWriter \<Rightarrow> ResponseWriter" where
  "demo_serve content r w = w"

definition demo_handler :: "(filesys, fileUpload, unit, unit) UnroutedHandler" where
  "demo_handler = file_handler demo_serve (New ''d'') None demo_config"

definition demo_patch :: "bytes \<Rightarrow> Request" where
  "demo_patch data = (plainRequest ''PATCH'' ''/a'')\<lparr>ContentLength := int (length data), ReqBody := Some [Chunk data None]\<rparr>"

text \<open>Facts about the example, for its evaluation.\<close>

lemma demo_path [simp]: "infoPath (New ''d'') ''a'' = ''d/a.info''"
  by (simp add: infoPath_def FilepathJoin_def Clean_def New_def Let_def)

lemma demo_bin [simp]: "storedBinPath (New ''d'') (demo_info n) = ''d/a''"
  by (simp add: storedBinPath_def demo_info_def map_str_def)

lemma demo_norm [simp]: "json_norm (demo_info n) = demo_info n"
  by (simp add: json_norm_def demo_info_def emptyFileInfo_def json_map_def to_valid_utf8_def runes.simps
      in_range_def map_set_def)

lemma demo_store [simp]: "w_store (demo_world s) = s"
  by (simp add: demo_world_def)

lemma demo_sinv [simp]: "fs_sinv (New ''d'') (demo_fs n bs)"
  by (auto simp: fs_sinv_def fs_inv_def stored_Some demo_fs_def split: if_splits)

lemma demo_view [simp]:
  "fs_view (New ''d'') (files_of (demo_fs n bs)) ''a'' = Some ((demo_info n)\<lparr>Offset := int (length bs)\<rparr>, bs)"
  by (simp add: fs_view_def stored_def demo_fs_def)

lemma demo_request [simp]:
  "request_bytes (demo_patch bs) = bs" "request_err (demo_patch bs) = None"
  "ReqBody (demo_patch bs) = Some [Chunk bs None]" "ContentLength (demo_patch bs) = int (length bs)"
  by (simp_all add: request_bytes_def request_err_def body_events_def demo_patch_def relayed_events_def)

lemma demo_config_fields [simp]:
  "PreFinishResponseCallback demo_config = None" "PreUploadCreateCallback demo_config = None"
  "PreUploadTerminateCallback demo_config = None" "MaxSize demo_config = 0"
  by (simp_all add: demo_config_def zeroConfig_def)

lemma header_Get_Nil [simp]: "header_Get [] k = []"
  by (simp add: header_Get_def)

lemma demo_info_fields [simp]:
  "Size (demo_info n) = n" "IsFinal (demo_info n) = False" "SizeIsDeferred (demo_info n) = False"
  "IsPartial (demo_info n) = False"
  by (simp_all add: demo_info_def emptyFileInfo_def)

end
