(* ===== verification/Reliability.thy ===== *)
theory Reliability
  imports FileHandler
begin

text \<open>
  When the data store does not fail, requests succeed: the counterpart of the contract in
  \<open>StoreContract\<close>, which says what holds whether or not operations fail.
\<close>

section \<open>A destination that does not fail\<close>

locale reliable_writer = append_writer put appends
  for put :: "bytes \<Rightarrow> 's \<Rightarrow> (nat \<times> err option) \<times> 's" and appends +
  fixes ok :: "'s \<Rightarrow> bool"
  assumes put_ok: "ok s \<Longrightarrow> \<exists>s'. put d s = ((length d, None), s') \<and> ok s'"
begin

lemma io_Copy_ok:
  assumes "ok s" "io_Copy put r w s = ((n, e), r', s')"
  shows "e = None \<and> ok s'"
  using assms
proof (induction "br_measure r" arbitrary: r w s rule: less_induct)
  case less
  obtain d er r1 where read: "Read copy_buf r = ((d, er), r1)" by (metis surj_pair)
  have more: "br_measure r1 < br_measure r" if "er = None"
    using read that Read_measure [of copy_buf r d r1] by (simp add: copy_buf_def)
  show ?case
  proof (cases "d = []")
    case True
    with less read Read_result [OF read] more show ?thesis
      by (auto simp: io_Copy_empty split: if_splits)
  next
    case False
    from put_ok [OF less.prems(1)] obtain s1 where put: "put d s = ((length d, None), s1)" "ok s1" by blast
    from less.prems(2) less.hyps [OF more put(2)] io_Copy_write [of r d er r1 put s "length d" None s1 w, OF read False put(1)] Read_result [OF read]
      put(2)
    show ?thesis by (auto split: if_splits)
  qed
qed

end

section \<open>A data store that does not fail\<close>

locale reliable_handler = handler_store d sinv view handle owner same terminate_upload declare_len h
  for d :: "('s, 'u) DataStore" and sinv view handle owner same terminate_upload declare_len
    and h :: "('s, 'u, 'l, 'k) UnroutedHandler" +
  fixes ok :: "'s \<Rightarrow> bool"
  assumes GetUpload_ok:
      "sinv s \<Longrightarrow> ok s \<Longrightarrow> view s i = Some x \<Longrightarrow> \<exists>u s'. GetUpload d i s = (Inr u, s') \<and> ok s'"
    and GetInfo_ok:
      "sinv s \<Longrightarrow> ok s \<Longrightarrow> handle u s i \<Longrightarrow> \<exists>info u' s'. GetInfo d u s = (Inr info, u', s') \<and> ok s'"
    and WriteChunk_ok:
      "sinv s \<Longrightarrow> ok s \<Longrightarrow> handle u s i \<Longrightarrow> WriteChunk d u n b s = ((k, e), b', u', s') \<Longrightarrow> e = None \<and> ok s'"
    and FinishUpload_ok: "sinv s \<Longrightarrow> ok s \<Longrightarrow> FinishUpload d u s = (e, u', s') \<Longrightarrow> e = None \<and> ok s'"
begin

lemma finish_ok:
  assumes "PreFinishResponseCallback (config h) = None"
  shows "triple (\<lambda>w. sinv (w_store w) \<and> ok (w_store w)) (finishUploadIfComplete h c resp u info)
    (\<lambda>r w. ok (w_store w) \<and> (\<exists>resp' u'. r = Inr (resp', u')))"
proof (rule tripleI)
  fix w :: "('s, 'l) world" and r w'
  assume w: "sinv (w_store w) \<and> ok (w_store w)"
    and run: "run_state (finishUploadIfComplete h c resp u info) w = (r, w')"
  obtain e u' s' where fin: "FinishUpload d u (w_store w) = (e, u', s')" by (metis surj_pair)
  with FinishUpload_ok [OF _ _ fin] w have "e = None" "ok s'" by auto
  with run fin w assms show "ok (w_store w') \<and> (\<exists>resp' u'. r = Inr (resp', u'))"
    by (auto simp: finishUploadIfComplete_def upload_FinishUpload_def core unit_op_def store_op_def
        emitFinishEvents_def count_def split: if_splits)
qed

text \<open>A chunk whose bytes all fit is stored without an error.\<close>

lemma store_body_ok:
  assumes src: "ReqBody c = Some src" and noerr: "reader_err (chunk_reader h c info) = None"
    and eq: "core_eq info info0"
    and bound: "int (length c0) + int (length (reader_data (chunk_reader h c info))) \<le> MaxInt64"
  shows "triple (\<lambda>w. sinv (w_store w) \<and> view (w_store w) i = Some (info0, c0) \<and> handle u (w_store w) i \<and> ok (w_store w))
    (store_body h c u info src)
    (\<lambda>r w. sinv (w_store w) \<and> ok (w_store w) \<and> (\<exists>n u'. r = Inr (n, None, u')))"
proof (rule tripleI)
  fix w :: "('s, 'l) world" and r w'
  assume w: "sinv (w_store w) \<and> view (w_store w) i = Some (info0, c0) \<and> handle u (w_store w) i \<and> ok (w_store w)"
    and run: "run_state (store_body h c u info src) w = (r, w')"
  let ?b = "chunk_reader h c info"
  have b: "newBodyReader (relayed_events src) (chunk_limit h info (ContentLength c)) = ?b"
    by (simp add: chunk_reader_def body_events_def src)
  obtain n e b' u' s' where wc: "WriteChunk d u (Offset info0) ?b (w_store w) = ((n, e), b', u', s')"
    by (metis surj_pair)
  have off: "Offset info = Offset info0" using eq by (simp add: core_eq_def)
  from WriteChunk_ok [OF _ _ _ wc] w have e: "e = None" "ok s'" by auto
  from WriteChunk_law [of "w_store w" u i info0 c0, OF _ _ _ fresh_chunk_reader bound wc] w e(1) noerr
  have s': "sinv s'" "br_err b' = None" by auto
  show "sinv (w_store w') \<and> ok (w_store w') \<and> (\<exists>n u'. r = Inr (n, None, u'))"
    using run wc e s' unfolding store_body_def core option.case Let_def b
    by (auto simp: sendProgressMessages_def store_op_def hasError_def errors_Is_def off split: if_splits)
qed

lemma writeChunk_ok:
  assumes src: "ReqBody c = Some src" and noerr: "reader_err (chunk_reader h c info) = None"
    and eq: "core_eq info info0"
    and bound: "int (length c0) + int (length (reader_data (chunk_reader h c info))) \<le> MaxInt64"
    and fit: "SizeIsDeferred info \<or> add64 (Offset info) (ContentLength c) \<le> Size info"
    and cb: "PreFinishResponseCallback (config h) = None"
  shows "triple (\<lambda>w. sinv (w_store w) \<and> view (w_store w) i = Some (info0, c0) \<and> handle u (w_store w) i \<and> ok (w_store w))
    (writeChunk h c resp u info)
    (\<lambda>r w. ok (w_store w) \<and> (\<exists>resp' u'. r = Inr (resp', u')))"
proof (rule tripleI)
  fix w :: "('s, 'l) world" and r w'
  assume w: "sinv (w_store w) \<and> view (w_store w) i = Some (info0, c0) \<and> handle u (w_store w) i \<and> ok (w_store w)"
    and run: "run_state (writeChunk h c resp u info) w = (r, w')"
  obtain r1 w1 where body: "run_state (store_body h c u info src) w = (r1, w1)" by force
  from tripleD [OF store_body_ok [OF src noerr eq bound] w body] obtain n u1 where
    r1: "r1 = Inr (n, None, u1)" "sinv (w_store w1)" "ok (w_store w1)" by blast
  let ?resp = "set_header ''Upload-Offset'' (FormatInt (add64 (Offset info) n)) resp"
  let ?info = "info\<lparr>Offset := add64 (Offset info) n, hasStop := True\<rparr>"
  let ?w2 = "w1\<lparr>w_metrics := incBytesReceived (word_of_int n) (w_metrics w1)\<rparr>"
  have "run_state (finishUploadIfComplete h c ?resp u1 ?info) ?w2 = (r, w')"
    using run body r1(1) fit src unfolding writeChunk_def Let_def
    by (auto simp: count_def split: prod.splits)
  from tripleD [OF finish_ok [OF cb] _ this] r1
  show "ok (w_store w') \<and> (\<exists>resp' u'. r = Inr (resp', u'))" by simp
qed

text \<open>
  A PATCH request at the right offset to an unfinished upload of known size, whose body is
  complete, announced truthfully and fits, succeeds.
\<close>

lemma patch_upload_ok:
  assumes w: "sinv (w_store w)" "ok (w_store w)" "view (w_store w) i = Some (info, content)"
    and open_upload: "\<not> IsFinal info" "\<not> SizeIsDeferred info" "Size info \<le> MaxInt64"
    and nolen: "req_header r ''Upload-Length'' = []"
    and src: "ReqBody c = Some src" and noerr: "request_err c = None"
    and len: "ContentLength c \<le> 0 \<and> MinInt64 \<le> ContentLength c \<or> ContentLength c = int (length (request_bytes c))"
    and fit: "int (length content) + int (length (request_bytes c)) \<le> Size info"
    and cb: "PreFinishResponseCallback (config h) = None"
  shows "\<exists>resp w'. run_state (patch_upload h c r i (int (length content))) w = (Inr resp, w') \<and> ok (w_store w')"
proof -
  from GetUpload_ok [OF w] obtain u s1 where g: "GetUpload d i (w_store w) = (Inr u, s1)" "ok s1" by blast
  from GetUpload_law [OF w(1) g(1)] have s1: "sinv s1" "view s1 = view (w_store w)" "handle u s1 i" by auto
  from GetInfo_ok [OF s1(1) g(2) s1(3)] obtain info1 u2 s2 where gi: "GetInfo d u s1 = (Inr info1, u2, s2)" "ok s2" by blast
  from GetInfo_law [OF s1(1,3) gi(1)] s1(2) w(3) have s2: "sinv s2" "view s2 i = Some (info, content)" "handle u2 s2 i"
    "core_eq info1 info" by auto
  have off: "Offset info = int (length content)" using view_offset [OF w(1,3)] .
  note eq = s2(4) [unfolded core_eq_def]
  let ?b = "chunk_reader h c info1"
  have bound: "int (length content) + int (length (request_bytes c)) \<le> MaxInt64" using fit open_upload(3) by simp
  have a64: "add64 (Offset info1) (ContentLength c) \<le> Size info1"
    using eq off len fit open_upload(3) by (auto simp: add64_id int64_defs)
  have lim: "int (length (request_bytes c)) \<le> chunk_limit h info1 (ContentLength c)"
    using eq off len fit open_upload(2,3)
    by (auto simp: chunk_limit_def sub64_id Let_def int64_defs)
  have "limited_run (br_limit ?b) (br_src ?b) = body_run (body_events c)"
    using lim by (auto simp: chunk_reader_def newBodyReader_def limited_run_def request_bytes_def split: prod.splits)
  then have rd: "reader_err ?b = None" "reader_data ?b = request_bytes c"
    using noerr by (simp_all add: request_err_def request_bytes_def)
  let ?w = "w\<lparr>w_store := s2\<rparr>" and ?resp = "emptyResponse\<lparr>StatusCode := 204\<rparr>"
  obtain r3 w3 where wc: "run_state (writeChunk h c ?resp u2 info1) ?w = (r3, w3)" by force
  have "ok (w_store w3) \<and> (\<exists>resp' u'. r3 = Inr (resp', u'))"
    by (rule tripleD [OF writeChunk_ok [OF src rd(1) s2(4) _ _ cb] _ wc, of content i])
      (use rd(2) bound a64 s2 gi(2) in auto)
  moreover have "run_state (core_GetUpload h i) w = (Inr u, w\<lparr>w_store := s1\<rparr>)"
    "run_state (upload_GetInfo h u) (w\<lparr>w_store := s1\<rparr>) = (Inr (info1, u2), ?w)"
    using g(1) gi(1) by (simp_all add: core_GetUpload_def upload_GetInfo_def core store_op_def)
  ultimately show ?thesis
    using wc gi(2) eq off open_upload nolen
    by (auto simp: patch_upload_def patch_checked_def Let_def declare_length_def complete_deferred_def)
qed

end

section \<open>The local file system without faults\<close>

text \<open>No operation fails, and no path is both a file and a directory.\<close>

definition fs_calm :: "filesys \<Rightarrow> bool" where
  "fs_calm s \<longleftrightarrow> (\<forall>n. fs_faults s n = None) \<and> (\<forall>p. files_of s p \<noteq> None \<longrightarrow> \<not> List.member (fs_dirs s) p)"

lemma fs_calm_quiet: "quiet s s' \<Longrightarrow> fs_calm s' = fs_calm s"
  by (simp add: fs_calm_def quiet_def)

lemma fs_calm_append: "file_appends p s d s' \<Longrightarrow> fs_calm s \<Longrightarrow> fs_calm s'"
  by (auto simp: fs_calm_def file_appends_def split: option.splits)

interpretation calm_writer: reliable_writer "\<lambda>d. file_Write p (map B d)" "file_appends p" fs_calm for p
proof
  fix s d
  assume ok: "fs_calm s"
  obtain n e s' where w: "file_Write p (map B d) s = ((n, e), s')" by (metis surj_pair)
  moreover have "n = length d" "e = None"
    using w ok by (auto simp: file_Write_def tick_def fs_calm_def)
  moreover have "fs_calm s'" using file_writer.put_appends [OF w] fs_calm_append ok by blast
  ultimately show "\<exists>s'. file_Write p (map B d) s = ((length d, None), s') \<and> fs_calm s'" by simp
qed

lemma os_open_calm: "fs_calm s \<Longrightarrow> files_of s p = Some f \<Longrightarrow> \<exists>s'. os_open p s = (None, s') \<and> quiet s s'"
  by (auto simp: os_open_def tick_def fs_calm_def quiet_def)

lemma os_ReadFile_calm: "fs_calm s \<Longrightarrow> files_of s p = Some f \<Longrightarrow> \<exists>s'. os_ReadFile p s = (Inr f, s') \<and> quiet s s'"
  by (auto simp: os_ReadFile_def os_open_def tick_def fs_calm_def quiet_def)

lemma os_Stat_calm: "fs_calm s \<Longrightarrow> files_of s p = Some f \<Longrightarrow> \<exists>n s'. os_Stat p s = (Inr n, s') \<and> quiet s s'"
  by (auto simp: os_Stat_def tick_def fs_calm_def quiet_def)

lemma fs_GetUpload_calm:
  assumes "fs_calm s" "fs_view store (files_of s) i = Some x"
  shows "\<exists>u s'. fs_GetUpload store i s = (Inr u, s') \<and> fs_calm s'"
proof -
  from assms(2) obtain info f where st: "files_of s (infoPath store i) = Some [J info]"
    "files_of s (storedBinPath store info) = Some f"
    by (auto simp: fs_view_def stored_Some split: option.splits)
  from os_ReadFile_calm [OF assms(1) st(1)] obtain s1 where
    s1: "os_ReadFile (infoPath store i) s = (Inr [J info], s1)" "quiet s s1" by blast
  with assms(1) st(2) fs_calm_quiet [OF s1(2)] have "fs_calm s1" "files_of s1 (storedBinPath store info) = Some f"
    by (simp_all add: quiet_def)
  from os_Stat_calm [OF this] obtain n s2 where
    s2: "os_Stat (storedBinPath store info) s1 = (Inr n, s2)" "quiet s1 s2" by blast
  with s1 fs_calm_quiet [OF s2(2)] \<open>fs_calm s1\<close> show ?thesis by (simp add: fs_GetUpload_def)
qed

lemma fs_WriteChunk_calm:
  assumes "fs_calm s" "fs_handle store u (files_of s) i" "fs_WriteChunk u n b s = ((k, e), b', u', s')"
  shows "e = None \<and> fs_calm s'"
proof -
  from assms(2) obtain f where f: "files_of s (fu_binPath u) = Some f" by (auto simp: fs_handle_def stored_Some)
  from os_open_calm [OF assms(1) f] obtain s1 where s1: "os_open (fu_binPath u) s = (None, s1)" "quiet s s1" by blast
  then have "fs_calm s1" using assms(1) fs_calm_quiet by blast
  obtain m e1 b1 s2 where cp: "io_Copy (\<lambda>d. file_Write (fu_binPath u) (map B d)) b 0 s1 = ((m, e1), b1, s2)"
    by (metis surj_pair)
  from calm_writer.io_Copy_ok [OF \<open>fs_calm s1\<close> cp] have s2: "e1 = None" "fs_calm s2" by simp_all
  obtain ce s3 where cl: "file_Close (fu_binPath u) s2 = (ce, s3)" by force
  with s2(2) have ce: "ce = None" "quiet s2 s3" by (auto simp: file_Close_def tick_def fs_calm_def quiet_def)
  with assms(3) s1 cp cl s2 fs_calm_quiet [OF ce(2)] show ?thesis by (simp add: fs_WriteChunk_def)
qed

interpretation calm_server: reliable_handler "fileStore store" "fs_sinv store"
  "\<lambda>s. fs_view store (files_of s)" "\<lambda>u s i. fs_handle store u (files_of s) i" "fs_owner store"
  "fs_same store" fs_Terminate fs_DeclareLength "file_handler serve store locker cfg" fs_calm
  for store serve locker cfg
proof
  show "\<exists>u s'. GetUpload (fileStore store) i s = (Inr u, s') \<and> fs_calm s'"
    if "fs_calm s" "fs_view store (files_of s) i = Some x" for s i x
    using fs_GetUpload_calm [OF that] by (simp add: fileStore_def)
  show "\<exists>info u' s'. GetInfo (fileStore store) u s = (Inr info, u', s') \<and> fs_calm s'" if "fs_calm s" for s u
    using that by (simp add: fileStore_def fs_GetInfo_def)
  show "e = None \<and> fs_calm s'" if "fs_calm s" "fs_handle store u (files_of s) i"
    "WriteChunk (fileStore store) u n b s = ((k, e), b', u', s')" for s u i n b k e b' u' s'
    using that by (simp add: fileStore_def fs_WriteChunk_calm)
  show "e = None \<and> fs_calm s'" if "fs_calm s" "FinishUpload (fileStore store) u s = (e, u', s')" for s u e u' s'
    using that by (simp add: fileStore_def fs_FinishUpload_def)
qed

end
