(* ===== verification/Server.thy ===== *)
theory Server
  imports Reliability
begin

text \<open>
  The whole handlers on a store that keeps the contract: the lock around the work and the
  response after it do not touch the store, so what a request may do to the uploads is what
  its work does.
\<close>

section \<open>Locks and responses leave the store alone\<close>

lemma run_lock_op [simp]: "run_state (lock_op f) w = (case f (w_locks w) of (a, l) \<Rightarrow> (a, w\<lparr>w_locks := l\<rparr>))"
  by (simp add: lock_op_def)

lemma run_on_res [simp]: "run_state (on_res f) w = ((), w\<lparr>w_res := f (w_res w)\<rparr>)"
  by (simp add: on_res_def)

lemma run_count [simp]: "run_state (count f) w = ((), w\<lparr>w_metrics := f (w_metrics w)\<rparr>)"
  by (simp add: count_def)

lemma triple_sendError: "(\<And>w. P w \<Longrightarrow> Q (w_store w)) \<Longrightarrow> triple P (sendError c e) (\<lambda>_ w. Q (w_store w))"
  by (rule tripleI) (auto simp: sendError_def sendResp_def)

lemma triple_sendResp: "(\<And>w. P w \<Longrightarrow> Q (w_store w)) \<Longrightarrow> triple P (sendResp resp) (\<lambda>_ w. Q (w_store w))"
  by (rule tripleI) (auto simp: sendResp_def)

lemma triple_fail_request: "(\<And>w. P w \<Longrightarrow> Q (w_store w)) \<Longrightarrow> triple P (fail_request c e) (\<lambda>_ w. Q (w_store w))"
  by (rule tripleI) (auto simp: fail_request_def sendError_def sendResp_def split: err.splits)

lemma triple_respond:
  assumes "triple P m (\<lambda>_ w. Q (w_store w))"
  shows "triple P (respond c m) (\<lambda>_ w. Q (w_store w))"
  unfolding respond_def
  by (rule triple_bind [OF assms]) (auto intro!: triple_sendResp triple_fail_request split: sum.splits)

lemma lockUpload_store: "triple (\<lambda>w. Q (w_store w)) (lockUpload h i) (\<lambda>_ w. Q (w_store w))"
  by (rule tripleI) (auto simp: lockUpload_def split: option.splits sum.splits prod.splits)

lemma unlock_store:
  "triple (\<lambda>w. Q (w_store w)) (do { _ \<leftarrow> lock_op f; State_Monad.return () }) (\<lambda>_ w. Q (w_store w))"
  by (rule tripleI) (auto split: prod.splits)

lemma triple_withLock:
  assumes body: "triple (\<lambda>w. P (w_store w)) m (\<lambda>_ w. Q (w_store w))" and stay: "\<And>s. P s \<Longrightarrow> Q s"
  shows "triple (\<lambda>w. P (w_store w)) (withLock h c i m) (\<lambda>_ w. Q (w_store w))"
  unfolding withLock_def
proof (rule triple_if [OF _ body])
  show "triple (\<lambda>w. P (w_store w)) (do { l \<leftarrow> lockUpload h i;
             case l of
               Inl e \<Rightarrow> fail_request c e
             | Inr (ops, lock) \<Rightarrow>
                 do { m; _ \<leftarrow> lock_op (Unlock ops lock); State_Monad.return () } }) (\<lambda>_ w. Q (w_store w))"
    by (rule triple_bind [OF lockUpload_store])
      (auto intro!: triple_fail_request triple_bind [OF body] unlock_store stay split: sum.splits)
qed

section \<open>Refused requests\<close>

text \<open>A PATCH request for a final upload or at a wrong offset.\<close>

context handler_store
begin

lemma patch_refused:
  assumes w: "sinv (w_store w)" "view (w_store w) i = Some (info0, c0)" "IsFinal info0 \<or> offset \<noteq> int (length c0)"
    and run: "run_state (patch_upload h c r i offset) w = (res, w')"
  shows "sinv (w_store w') \<and> view (w_store w') = view (w_store w) \<and> (\<exists>e. res = Inl e)"
proof -
  have off: "Offset info0 = int (length c0)" using view_offset w(1,2) by blast
  let ?v = "view (w_store w)"
  have refuse: "triple (\<lambda>w. sinv (w_store w) \<and> view (w_store w) = ?v \<and>
        (\<forall>info u'. Inr x = Inr (info, u') \<longrightarrow> handle u' (w_store w) i \<and>
           (\<exists>info0 c. ?v i = Some (info0, c) \<and> core_eq info info0)))
      (case x of (info, u) \<Rightarrow> patch_checked h c r offset u info)
      (\<lambda>res w. sinv (w_store w) \<and> view (w_store w) = ?v \<and> (\<exists>e. res = Inl e))" for x :: "FileInfo \<times> 'u"
    by (cases x, rule tripleI) (use w(2,3) off in \<open>auto simp: patch_checked_def core_eq_def\<close>)
  have "triple (\<lambda>w. sinv (w_store w) \<and> view (w_store w) = ?v) (patch_upload h c r i offset)
      (\<lambda>res w. sinv (w_store w) \<and> view (w_store w) = ?v \<and> (\<exists>e. res = Inl e))"
    unfolding patch_upload_def
    apply (rule triple_bindE [OF GetUpload_spec])
     apply simp
    apply (rule triple_bindE [OF triple_weaken_pre [OF GetInfo_spec [of ?v _ i]] _ refuse])
     apply simp_all
    done
  from tripleD [OF this _ run] w(1) show ?thesis by simp
qed

end

section \<open>What a request may do to the uploads\<close>

text \<open>
  Every upload keeps the bytes it has, in front of some of the request's bytes, and its kind; or
  it is gone. No upload appears.
\<close>

definition served :: "bytes \<Rightarrow> uploads \<Rightarrow> uploads \<Rightarrow> bool" where
  "served data v v' \<longleftrightarrow>
     (\<forall>j. case v j of None \<Rightarrow> v' j = None | Some x \<Rightarrow> advances data x (v' j))"

lemma served_refl [simp]: "served data v v"
  by (simp add: served_def split: option.splits)

locale server_store = handler_store d sinv view handle owner same terminate_upload declare_len h
  for d :: "('s, 'u) DataStore" and sinv view handle owner same terminate_upload declare_len
    and h :: "('s, 'u, 'l, 'k) UnroutedHandler" +
  assumes same_view: "same i j \<Longrightarrow> view s j = view s i"
    and serve_law: "ContentServer (composer h) = Some serve \<Longrightarrow> sinv s \<Longrightarrow> serve u r rw s = (e, rw', s') \<Longrightarrow>
      sinv s' \<and> view s' = view s"
begin

lemma served_frame:
  assumes "frame same i v (view s)" "\<And>j. same i j \<Longrightarrow> v j = v i"
    "case v i of None \<Rightarrow> view s i = None | Some x \<Rightarrow> advances data x (view s i)"
  shows "served data v (view s)"
  unfolding served_def
proof
  fix j
  show "case v j of None \<Rightarrow> view s j = None | Some x \<Rightarrow> advances data x (view s j)"
  proof (cases "same i j")
    case True
    show ?thesis unfolding assms(2) [OF True] same_view [OF True] by (rule assms(3))
  next
    case False
    then have "view s j = v j" using assms(1) by (simp add: frame_def)
    then show ?thesis by (simp split: option.splits)
  qed
qed

lemma patch_effect_served:
  "patch_effect c offset x y \<Longrightarrow> case x of None \<Rightarrow> y = None | Some p \<Rightarrow> advances (request_bytes c) p y"
  by (auto simp: patch_effect_def split: option.splits prod.splits if_splits)

abbreviation stays :: "uploads \<Rightarrow> 's \<Rightarrow> bool" where
  "stays v s \<equiv> sinv s \<and> view s = v"

abbreviation serves :: "bytes \<Rightarrow> uploads \<Rightarrow> 's \<Rightarrow> bool" where
  "serves data v s \<equiv> sinv s \<and> served data v (view s)"

lemma HeadFile_spec: "triple (\<lambda>w. stays v (w_store w)) (HeadFile h c r) (\<lambda>_ w. stays v (w_store w))"
  unfolding HeadFile_def Let_def
  by (intro triple_withLock triple_respond tripleI) (use head_upload_spec in \<open>fastforce+\<close>)

lemma PatchFile_spec:
  assumes bound: "\<And>j info0 c0. v j = Some (info0, c0) \<Longrightarrow>
    int (length c0) + int (length (request_bytes c)) \<le> MaxInt64"
  shows "triple (\<lambda>w. stays v (w_store w)) (PatchFile h c r) (\<lambda>_ w. serves (request_bytes c) v (w_store w))"
proof -
  let ?i = "extractIDFromPath (URLPath r)"
  have work: "triple (\<lambda>w. stays v (w_store w)) (patch_upload h c r ?i offset) (\<lambda>_ w. serves (request_bytes c) v (w_store w))"
    for offset
  proof (rule tripleI)
    fix w res w'
    assume pre: "stays v (w_store w)" and run: "run_state (patch_upload h c r ?i offset) w = (res, w')"
    from tripleD [OF patch_upload_spec [OF bound] pre run]
    have post: "sinv (w_store w')" "frame same ?i v (view (w_store w'))"
      "patch_effect c offset (v ?i) (view (w_store w') ?i)" by auto
    have "v j = v ?i" if "same ?i j" for j using pre same_view [OF that] by auto
    with served_frame [OF post(2) _ patch_effect_served [OF post(3)]] post(1)
    show "serves (request_bytes c) v (w_store w')" by simp
  qed
  show ?thesis
    unfolding PatchFile_def Let_def
    by (intro triple_if triple_case_option triple_sendError triple_withLock triple_respond work) auto
qed

lemma DelFile_spec: "triple (\<lambda>w. stays v (w_store w)) (DelFile h c r) (\<lambda>_ w. serves (request_bytes c) v (w_store w))"
proof -
  let ?i = "extractIDFromPath (URLPath r)"
  have work: "triple (\<lambda>w. stays v (w_store w)) (delete_upload h c ?i) (\<lambda>_ w. serves (request_bytes c) v (w_store w))"
  proof (rule tripleI)
    fix w res w'
    assume pre: "stays v (w_store w)" and run: "run_state (delete_upload h c ?i) w = (res, w')"
    from tripleD [OF delete_upload_spec pre run]
    have post: "sinv (w_store w')" "frame same ?i v (view (w_store w'))"
      "view (w_store w') ?i = None \<or> view (w_store w') ?i = v ?i" by auto
    have "v j = v ?i" if "same ?i j" for j using pre same_view [OF that] by auto
    moreover have "case v ?i of None \<Rightarrow> view (w_store w') ?i = None
        | Some x \<Rightarrow> advances (request_bytes c) x (view (w_store w') ?i)"
      using post(3) by (auto split: option.splits)
    ultimately show "serves (request_bytes c) v (w_store w')"
      using served_frame [OF post(2)] post(1) by blast
  qed
  show ?thesis
    unfolding DelFile_def Let_def
    by (intro triple_if triple_sendError triple_withLock triple_respond work) auto
qed

lemma get_upload_spec: "triple (\<lambda>w. stays v (w_store w)) (get_upload h c r i) (\<lambda>_ w. stays v (w_store w))"
  unfolding get_upload_def
proof (rule triple_bindE [OF GetUpload_spec])
  fix u
  let ?H = "\<lambda>u w. stays v (w_store w) \<and> handle u (w_store w) i"
  have serve: "triple (\<lambda>w. stays v (w_store w)) (serve_content serve u r) (\<lambda>_ w. stays v (w_store w))"
    if "ContentServer (composer h) = Some serve" for serve u
    by (rule tripleI) (use serve_law [OF that] in \<open>auto simp: serve_content_def split: prod.splits\<close>)
  have reader: "triple (?H u) (upload_GetReader h u) (\<lambda>_ w. stays v (w_store w))" for u
    unfolding upload_GetReader_def core option.case
  proof (rule triple_store_op)
    fix w :: "('s, 'l) world" and a s'
    assume H: "?H u w" and "(case GetReader d u (w_store w) of (res, u', s') \<Rightarrow> (res, s')) = (a, s')"
    then obtain u' where g: "GetReader d u (w_store w) = (a, u', s')" by (auto split: prod.splits)
    obtain info c where "view (w_store w) i = Some (info, c)" using handle_view H by fast
    from GetReader_law [OF _ _ this g] H show "stays v (w_store (w\<lparr>w_store := s'\<rparr>))" by simp
  qed
  have quiet: "triple (\<lambda>w. stays v (w_store w)) (on_res f) (\<lambda>_ w. stays v (w_store w))" for f
    by (rule tripleI) auto
  show "triple (\<lambda>w. sinv (w_store w) \<and> view (w_store w) = v \<and> (\<forall>u'. Inr u = Inr u' \<longrightarrow> handle u' (w_store w) i))
    (bindE (upload_GetInfo h u) (\<lambda>(info, u).
     case filterContentType (ParseMediaType (config h)) (Quote (config h)) info of
       (contentType, contentDisposition) \<Rightarrow>
         (let resp = emptyResponse\<lparr>StatusCode := 200,
                Header := [(''Content-Length'', FormatInt (Offset info)), (''Content-Type'', contentType),
                           (''Content-Disposition'', contentDisposition)]\<rparr>
          in if UsesContentServer (composer h) then
               (case ContentServer (composer h) of
                  None \<Rightarrow> failE nil_deref
                | Some serve \<Rightarrow>
                    thenE (on_res (\<lambda>w. set_rw_header ''Content-Disposition'' contentDisposition
                                        (set_rw_header ''Content-Type'' contentType w))) (\<lambda>_.
                    thenE (serve_content serve u r) (\<lambda>e.
                    case e of Some x \<Rightarrow> failE x | None \<Rightarrow> okE ())))
             else if Offset info = 0 then
               thenE (sendResp (resp\<lparr>StatusCode := 204\<rparr>)) (\<lambda>_. okE ())
             else
               bindE (upload_GetReader h u) (\<lambda>(content, e).
               thenE (sendResp resp) (\<lambda>_.
               thenE (if content \<noteq> [] then on_res (rw_Write content) else State_Monad.return ()) (\<lambda>_.
               case e of Some x \<Rightarrow> failE x | None \<Rightarrow> okE ()))))))
    (\<lambda>_ w. stays v (w_store w))"
    apply (rule triple_bindE [OF triple_weaken_pre [OF GetInfo_spec [of v u i]]])
      apply simp_all [2]
    subgoal for x
    proof -
      obtain info u2 where x: "x = (info, u2)" by force
      have weak: "triple (?H u2) m Q" if "triple (\<lambda>w. stays v (w_store w)) m Q"
        for m :: "(('s, 'l) world, 'b) state" and Q
        by (rule triple_weaken_pre [OF that]) simp
      show ?thesis
        unfolding x prod.case Let_def
        apply (rule triple_weaken_pre [where P = "?H u2"])
         apply (intro triple_case_prod triple_if triple_case_option triple_failE)
            apply simp
           apply (rule weak)
           apply (rule triple_thenE [OF quiet])
           apply (rule triple_thenE [OF serve], assumption)
           apply (auto intro!: triple_okE triple_failE split: option.splits) [1]
          apply (rule triple_thenE [OF triple_sendResp [where Q = "stays v"]])
           apply simp
          apply (auto intro!: triple_okE) [1]
         apply (rule triple_bindE [OF reader])
          apply simp
         apply (intro triple_case_prod)
         apply (rule triple_thenE [OF triple_sendResp [where Q = "stays v"]])
          apply simp
         apply (rule triple_thenE [where R = "\<lambda>_ w. stays v (w_store w)"])
          apply (auto intro!: triple_if quiet triple_return triple_okE triple_failE split: option.splits) [2]
        apply auto
        done
    qed
    done
qed simp

lemma GetFile_spec: "triple (\<lambda>w. stays v (w_store w)) (GetFile h c r) (\<lambda>_ w. stays v (w_store w))"
  unfolding GetFile_def Let_def
  by (intro triple_withLock triple_bind [OF get_upload_spec])
    (auto intro!: triple_fail_request triple_return split: sum.splits)

text \<open>
  A request that is not a POST, through the middleware and the routing, whatever its outcome:
  no stored byte changes, and no upload appears.
\<close>

lemma ServeHTTP_spec:
  assumes bound: "\<And>j info0 c0. v j = Some (info0, c0) \<Longrightarrow>
      int (length c0) + int (length (request_bytes c)) \<le> MaxInt64"
    and post: "Method (override_method c) \<noteq> ''POST''"
  shows "triple (\<lambda>w. stays v (w_store w)) (ServeHTTP h c) (\<lambda>_ w. serves (request_bytes c) v (w_store w))"
proof -
  let ?r = "override_method c"
  have keep: "triple (\<lambda>w. stays v (w_store w)) m (\<lambda>_ w. serves (request_bytes c) v (w_store w))"
    if "triple (\<lambda>w. stays v (w_store w)) m (\<lambda>_ w. stays v (w_store w))" for m :: "(('s, 'l) world, unit) state"
    by (rule triple_weaken [OF that]) auto
  have quiet: "triple (\<lambda>w. stays v (w_store w)) (on_res f) (\<lambda>_ w. stays v (w_store w))"
    "triple (\<lambda>w. stays v (w_store w)) (count g) (\<lambda>_ w. stays v (w_store w))"
    "triple (\<lambda>w. stays v (w_store w)) (State_Monad.return ()) (\<lambda>_ w. stays v (w_store w))"
    "triple (\<lambda>w. stays v (w_store w)) (sendResp resp) (\<lambda>_ w. stays v (w_store w))" for f g resp
    by (auto simp: sendResp_def intro!: tripleI)
  have mux: "triple (\<lambda>w. stays v (w_store w)) (mux h c ?r) (\<lambda>_ w. serves (request_bytes c) v (w_store w))"
    unfolding mux_def Let_def method_not_allowed_def
    by (intro triple_if keep [OF HeadFile_spec] PatchFile_spec [OF bound] keep [OF GetFile_spec]
        DelFile_spec keep [OF quiet(1)]) (use post in auto)
  show ?thesis
    unfolding ServeHTTP_def Middleware_def Let_def
    by (rule triple_bind [OF quiet(2)])
      (intro triple_case_option triple_if triple_fail_request triple_sendError mux
        triple_bind [where R = "\<lambda>_ w. stays v (w_store w)"] quiet keep [OF quiet(4)]; simp)
qed

end

interpretation file_site: server_store "fileStore store" "fs_sinv store"
  "\<lambda>s. fs_view store (files_of s)" "\<lambda>u s i. fs_handle store u (files_of s) i" "fs_owner store"
  "fs_same store" fs_Terminate fs_DeclareLength "file_handler serve store locker cfg" for store serve locker cfg
proof
  show "fs_view store (files_of s) j = fs_view store (files_of s) i" if "fs_same store i j" for i j s
    using that stored_same [of store j i] by (simp add: fs_same_def fs_view_def)
qed (auto simp: fs_ServeContent_def)

end
