(* ===== verification/Creation.thy ===== *)
theory Creation
  imports Server
begin

text \<open>
  Creating and concatenating uploads: what \<^verbatim>\<open>NewUpload\<close> and \<^verbatim>\<open>ConcatUploads\<close> of the file
  store do to the uploads, the contract that the handler needs for POST requests, and the
  POST handlers on it.
\<close>

section \<open>Printing and reading upload information\<close>

lemma rune_len_bounds: "rune_len s = Some n \<Longrightarrow> 1 \<le> n \<and> n \<le> length s"
  by (cases s rule: rune_len.cases) (auto split: if_splits list.splits)

lemma rune_len_take: "rune_len s = Some n \<Longrightarrow> rune_len (take n s @ t) = Some n"
  by (cases s rule: rune_len.cases) (auto split: if_splits list.splits)

lemma runes_valid_Cons: "rune_len e = Some (length e) \<Longrightarrow> runes (e @ t) = Some e # runes t"
proof -
  assume e: "rune_len e = Some (length e)"
  from rune_len_take [OF this, of t] have "rune_len (e @ t) = Some (length e)" by simp
  moreover have "1 \<le> length e" using rune_len_bounds [OF e] by simp
  ultimately show ?thesis by (subst runes.simps) (auto simp: max_def)
qed

text \<open>Every rune that is found is a valid encoding by itself.\<close>

lemma runes_valid: "Some e \<in> set (runes s) \<Longrightarrow> rune_len e = Some (length e)"
proof (induction s rule: runes.induct)
  case (1 s)
  show ?case
  proof (cases "rune_len s")
    case None
    with 1 show ?thesis by (subst (asm) (2) runes.simps) (auto split: if_splits)
  next
    case (Some n)
    have "rune_len (take n s) = Some (length (take n s))"
      using rune_len_take [OF Some, of "[]"] rune_len_bounds [OF Some] by simp
    with Some 1 rune_len_bounds [OF Some] show ?thesis
      by (subst (asm) (2) runes.simps) (auto simp: max_def split: if_splits)
  qed
qed

lemma runes_replaced:
  assumes "\<And>e. Some e \<in> set rs \<Longrightarrow> rune_len e = Some (length e)"
  shows "runes (concat (map (\<lambda>r. case r of None \<Rightarrow> [CHR 0xEF, CHR 0xBF, CHR 0xBD] | Some e \<Rightarrow> e) rs)) =
    map (\<lambda>r. Some (case r of None \<Rightarrow> [CHR 0xEF, CHR 0xBF, CHR 0xBD] | Some e \<Rightarrow> e)) rs"
  using assms
proof (induction rs)
  case Nil
  then show ?case by (simp add: runes.simps)
next
  case (Cons r rs)
  have "rune_len [CHR 0xEF, CHR 0xBF, CHR 0xBD] = Some 3" by (simp add: in_range_def)
  then show ?case
    using Cons by (cases r) (simp_all add: runes_valid_Cons [of "[CHR 0xEF, CHR 0xBF, CHR 0xBD]", simplified] runes_valid_Cons)
qed

lemma to_valid_utf8_idem [simp]: "to_valid_utf8 (to_valid_utf8 s) = to_valid_utf8 s"
  using runes_replaced [of "runes s", OF runes_valid]
  by (simp add: to_valid_utf8_def comp_def)

lemma map_copy_append: "wf_map (m @ src) \<Longrightarrow> map_copy m src = m @ src"
proof (induction src arbitrary: m)
  case (Cons p src)
  obtain k v where p: "p = (k, v)" by force
  have "k \<notin> fst ` set m" using Cons.prems by (auto simp: p wf_map_def)
  then have "map_set k v m = m @ [(k, v)]"
    by (induction m) (auto simp: map_set_def)
  with Cons show ?case by (simp add: p)
qed simp

lemma map_copy_entries: "set (map_copy dst src) \<subseteq> set dst \<union> set src"
proof (induction src arbitrary: dst)
  case (Cons p src)
  obtain k v where p: "p = (k, v)" by force
  have "set (map_set k v m) \<subseteq> insert (k, v) (set m)" for m
    by (induction m) (auto simp: map_set_def)
  with Cons [of "map_set k v dst"] show ?case by (fastforce simp: p)
qed simp

lemma json_map_idem [simp]: "json_map (json_map m) = json_map m"
proof -
  let ?f = "\<lambda>(k, v). (to_valid_utf8 k, to_valid_utf8 v)"
  have "set (json_map m) \<subseteq> ?f ` set m"
    using map_copy_entries [of "[]" "map ?f m"] by (auto simp: json_map_def)
  then have "map ?f (json_map m) = json_map m"
    by (intro map_idI) force
  moreover have "wf_map (json_map m)" by (simp add: json_map_def)
  ultimately show ?thesis
    using map_copy_append [of "[]" "json_map m"] by (simp add: json_map_def [of "json_map m"])
qed

lemma json_norm_idem [simp]: "json_norm (json_norm info) = json_norm info"
  by (simp add: json_norm_def)

section \<open>Creating files\<close>

text \<open>The directories that \<^verbatim>\<open>createFile\<close> may create for a path.\<close>

definition made_dirs :: "string \<Rightarrow> string list" where
  "made_dirs p = parent_dirs (FilepathDir p) @ [FilepathDir p]"

lemma os_create_facts:
  assumes "os_create p s = (e, s')"
  shows "fs_dirs s' = fs_dirs s"
    "if e = None then files_of s' = (files_of s)(p \<mapsto> []) \<and> \<not> List.member (fs_dirs s) p else files_of s' = files_of s"
  using assms by (auto simp: os_create_def tick_def split: option.splits if_splits)

lemma os_MkdirAll_facts:
  assumes "os_MkdirAll p s = (e, s')"
  shows "files_of s' = files_of s" "set (fs_dirs s') \<subseteq> set (fs_dirs s) \<union> set (parent_dirs p @ [p])"
    "files_of s q \<noteq> None \<Longrightarrow> \<not> List.member (fs_dirs s) q \<Longrightarrow> \<not> List.member (fs_dirs s') q"
  using assms by (auto simp: os_MkdirAll_def tick_def list_ex_iff split: option.splits if_splits)

lemma ex_prefix_take: "\<exists>data. prefix data x \<and> m(p \<mapsto> take n x) = m(p \<mapsto> data)"
  using take_is_prefix by blast

lemma write_and_close_facts:
  assumes "write_and_close p content s = (e, s')" "files_of s p = Some []"
  shows "fs_dirs s' = fs_dirs s"
    "\<exists>data. prefix data (case content of None \<Rightarrow> [] | Some x \<Rightarrow> x) \<and> files_of s' = (files_of s)(p \<mapsto> data) \<and>
       (e = None \<longrightarrow> data = (case content of None \<Rightarrow> [] | Some x \<Rightarrow> x))"
  using assms
  by (auto simp: write_and_close_def file_Write_def file_Close_def append_to_def tick_def Let_def take_is_prefix
      fun_upd_idem ex_prefix_take split: option.splits prod.splits)

text \<open>
  Creating a file leaves the other files alone, writes a prefix of the content, all of it when
  there is no error, and never puts a directory where a file is.
\<close>

lemma createFile_facts:
  assumes "createFile p content s = (e, s')"
  shows "set (fs_dirs s') \<subseteq> set (fs_dirs s) \<union> set (made_dirs p)" (is ?dirs)
    "e \<noteq> None \<and> files_of s' = files_of s \<or>
     \<not> List.member (fs_dirs s') p \<and>
     (\<exists>data. prefix data (case content of None \<Rightarrow> [] | Some x \<Rightarrow> x) \<and> files_of s' = (files_of s)(p \<mapsto> data) \<and>
       (e = None \<longrightarrow> data = (case content of None \<Rightarrow> [] | Some x \<Rightarrow> x)))" (is ?files)
    "files_of s q \<noteq> None \<Longrightarrow> \<not> List.member (fs_dirs s) q \<Longrightarrow> \<not> List.member (fs_dirs s') q" (is "_ \<Longrightarrow> _ \<Longrightarrow> ?kept")
proof -
  have opened: "fs_dirs s' = fs_dirs s0 \<and> \<not> List.member (fs_dirs s') p \<and>
     (\<exists>data. prefix data (case content of None \<Rightarrow> [] | Some x \<Rightarrow> x) \<and> files_of s' = (files_of s0)(p \<mapsto> data) \<and>
       (e = None \<longrightarrow> data = (case content of None \<Rightarrow> [] | Some x \<Rightarrow> x)))"
    if "os_create p s0 = (None, s1)" "write_and_close p content s1 = (e, s')" for s0 s1
  proof -
    note c = os_create_facts [OF that(1)]
    from c(2) have "files_of s1 p = Some []" by simp
    note w = write_and_close_facts [OF that(2) this]
    from c w show ?thesis by auto
  qed
  obtain e1 s1 where c1: "os_create p s = (e1, s1)" by force
  have "?dirs \<and> ?files \<and> (files_of s q \<noteq> None \<longrightarrow> \<not> List.member (fs_dirs s) q \<longrightarrow> ?kept)"
  proof (cases e1)
    case None
    with assms c1 have "write_and_close p content s1 = (e, s')" by (simp add: createFile_def)
    from opened [OF c1 [unfolded None] this] show ?thesis by auto
  next
    case (Some x)
    note f1 = os_create_facts [OF c1]
    show ?thesis
    proof (cases "IsNotExist x")
      case False
      with assms c1 Some f1 show ?thesis by (auto simp: createFile_def)
    next
      case True
      obtain e2 s2 where c2: "os_MkdirAll (FilepathDir p) s1 = (e2, s2)" by force
      note f2 = os_MkdirAll_facts [OF c2]
      obtain e3 s3 where c3: "os_create p s2 = (e3, s3)" by force
      note f3 = os_create_facts [OF c3]
      have base: "files_of s2 = files_of s" "set (fs_dirs s2) \<subseteq> set (fs_dirs s) \<union> set (made_dirs p)"
        "files_of s q \<noteq> None \<longrightarrow> \<not> List.member (fs_dirs s) q \<longrightarrow> \<not> List.member (fs_dirs s2) q"
        using f1 f2 Some by (auto simp: made_dirs_def)
      show ?thesis
      proof (cases "e2 = None \<and> e3 = None")
        case True
        with assms c1 Some \<open>IsNotExist x\<close> c2 c3 have "write_and_close p content s3 = (e, s')"
          by (simp add: createFile_def)
        from opened [of s2, OF _ this] c3 True base show ?thesis by auto
      next
        case False
        with assms c1 Some \<open>IsNotExist x\<close> c2 c3 base f3 show ?thesis
          by (auto simp: createFile_def split: option.splits)
      qed
    qed
  qed
  then show ?dirs ?files "files_of s q \<noteq> None \<Longrightarrow> \<not> List.member (fs_dirs s) q \<Longrightarrow> ?kept" by blast+
qed

text \<open>A new file that no document names, and that is not itself a document of an upload.\<close>

lemma stored_add:
  assumes "m p = None" "\<And>j x. m (infoPath store j) = Some [J x] \<Longrightarrow> storedBinPath store x \<noteq> p"
    "infoPath store j \<noteq> p \<or> (\<forall>x. f \<noteq> [J x])"
  shows "stored store (m(p \<mapsto> f)) j = stored store m j"
proof (cases "infoPath store j = p")
  case True
  with assms(1,3) show ?thesis by (simp add: stored_None_not_doc)
next
  case False
  with assms(2) show ?thesis by (auto simp: stored_def split: option.splits list.splits atom.splits)
qed

section \<open>New uploads\<close>

text \<open>The identifier that a new upload gets, unless no random bytes are available.\<close>

definition new_id :: "FileInfo \<Rightarrow> filesys \<Rightarrow> string option" where
  "new_id info s = (if ID info = [] then map_option hex_encode (fs_rand s (fs_drawn s)) else Some (ID info))"

text \<open>
  The paths of a new upload are free: no file and no directory is there, no stored document
  names one of them or a directory above them, and the path of the content survives JSON.
\<close>

definition free_paths :: "FileStore \<Rightarrow> fileUpload \<Rightarrow> filesys \<Rightarrow> bool" where
  "free_paths store u s \<longleftrightarrow>
     files_of s (fu_binPath u) = None \<and> files_of s (fu_infoPath u) = None \<and>
     fu_binPath u \<noteq> fu_infoPath u \<and> fu_binPath u \<noteq> [] \<and> to_valid_utf8 (fu_binPath u) = fu_binPath u \<and>
     (\<forall>j x. files_of s (infoPath store j) = Some [J x] \<longrightarrow>
        storedBinPath store x \<notin> {fu_binPath u, fu_infoPath u} \<union> set (made_dirs (fu_binPath u)) \<union>
          set (made_dirs (fu_infoPath u)))"

definition fs_fresh :: "FileStore \<Rightarrow> FileInfo \<Rightarrow> filesys \<Rightarrow> bool" where
  "fs_fresh store info s \<longleftrightarrow>
     (\<forall>i. new_id info s = Some i \<longrightarrow> free_paths store (newFileUpload store (info\<lparr>ID := i\<rparr>)) s)"

lemma newFileUpload_fields [simp]:
  "fu_infoPath (newFileUpload store info) = infoPath store (ID info)"
  "fu_binPath (newFileUpload store info) = chooseBinPath store info"
  "ID (fu_info (newFileUpload store info)) = ID info"
  "Offset (fu_info (newFileUpload store info)) = Offset info"
  "Size (fu_info (newFileUpload store info)) = Size info"
  "SizeIsDeferred (fu_info (newFileUpload store info)) = SizeIsDeferred info"
  "IsFinal (fu_info (newFileUpload store info)) = IsFinal info"
  "IsPartial (fu_info (newFileUpload store info)) = IsPartial info"
  by (simp_all add: newFileUpload_def Let_def)

lemma ascii_valid: "list_all (\<lambda>c. in_range c 0 0x7F) s \<Longrightarrow> to_valid_utf8 s = s"
proof (induction s)
  case Nil
  then show ?case by (simp add: to_valid_utf8_def runes.simps)
next
  case (Cons c s)
  then have "runes ([c] @ s) = Some [c] # runes s" by (intro runes_valid_Cons) simp
  with Cons show ?case by (simp add: to_valid_utf8_def)
qed

text \<open>The document that \<^verbatim>\<open>NewUpload\<close> writes names the content file it has created.\<close>

lemma newFileUpload_binPath:
  assumes "chooseBinPath store info \<noteq> []" "to_valid_utf8 (chooseBinPath store info) = chooseBinPath store info"
  shows "storedBinPath store (json_norm (fu_info (newFileUpload store info))) = chooseBinPath store info"
proof -
  have "to_valid_utf8 ''Type'' = ''Type''" "to_valid_utf8 ''Path'' = ''Path''" "to_valid_utf8 ''InfoPath'' = ''InfoPath''"
    by (simp_all add: ascii_valid in_range_def)
  then show ?thesis
    using assms by (simp add: storedBinPath_def newFileUpload_def json_norm_def json_map_def Let_def)
qed

lemma Uid_facts:
  assumes "(if ID info = [] then Uid s else (Inr (ID info), s)) = (r, s')"
  shows "quiet s s'" "r = Inr i \<Longrightarrow> new_id info s = Some i"
  using assms by (auto simp: Uid_def new_id_def quiet_def split: if_splits option.splits)

lemma free_paths_quiet: "quiet s s' \<Longrightarrow> free_paths store u s' = free_paths store u s"
  by (simp add: free_paths_def quiet_def)

text \<open>
  Adding the two files of a new upload, completely or in part: every stored upload stays, and
  the new one is there once its document is.
\<close>

lemma free_pathsD:
  assumes "free_paths store u s" "fu_infoPath u = infoPath store i"
    "storedBinPath store (json_norm (fu_info u)) = fu_binPath u"
  shows "stored store (files_of s) i = None"
    "stored store ((files_of s)(fu_binPath u \<mapsto> [])) = stored store (files_of s)"
    "stored store ((files_of s)(fu_binPath u \<mapsto> [], fu_infoPath u \<mapsto> [])) = stored store (files_of s)"
    "stored store ((files_of s)(fu_binPath u \<mapsto> [], fu_infoPath u \<mapsto> [J (json_norm (fu_info u))])) j =
       (if infoPath store j = infoPath store i then Some (json_norm (fu_info u), []) else stored store (files_of s) j)"
proof -
  note free = assms(1) [unfolded free_paths_def]
  let ?m1 = "(files_of s)(fu_binPath u \<mapsto> [])"
  show "stored store (files_of s) i = None" using free assms(2) by (simp add: stored_def)
  show m1: "stored store ?m1 = stored store (files_of s)"
    by (rule ext, rule stored_add) (use free in auto)
  have m1_doc: "storedBinPath store x \<noteq> fu_infoPath u" if "?m1 (infoPath store j) = Some [J x]" for j x
    using that free by (auto split: if_splits)
  have m1_info: "?m1 (fu_infoPath u) = None" using free by auto
  have "stored store (?m1(fu_infoPath u \<mapsto> [])) = stored store ?m1"
    by (rule ext, rule stored_add [of ?m1 "fu_infoPath u" store, OF m1_info m1_doc]) auto
  with m1 show "stored store (?m1(fu_infoPath u \<mapsto> [])) = stored store (files_of s)" by simp
  have "stored store (?m1(fu_infoPath u \<mapsto> [J (json_norm (fu_info u))])) j = stored store ?m1 j"
    if "infoPath store j \<noteq> infoPath store i"
    by (rule stored_add [of ?m1 "fu_infoPath u" store, OF m1_info m1_doc]) (use that assms(2) in auto)
  with m1 free assms(2,3) show "stored store (?m1(fu_infoPath u \<mapsto> [J (json_norm (fu_info u))])) j =
       (if infoPath store j = infoPath store i then Some (json_norm (fu_info u), []) else stored store (files_of s) j)"
    by (auto simp: stored_Some)
qed

lemma fs_inv_stored_eq: "stored store m' = stored store m \<Longrightarrow> fs_inv store m' = fs_inv store m"
  by (simp add: fs_inv_def)

lemma fs_view_stored_eq: "stored store m' = stored store m \<Longrightarrow> fs_view store m' = fs_view store m"
  by (simp add: fs_view_def fun_eq_iff)

lemma fs_inv_new:
  assumes inv: "fs_inv store m" and free: "\<And>j info f. stored store m j = Some (info, f) \<Longrightarrow> storedBinPath store info \<noteq> storedBinPath store new"
    and m': "\<And>j. stored store m' j = (if infoPath store j = infoPath store i then Some (new, []) else stored store m j)"
    and new: "json_norm new = new"
  shows "fs_inv store m'"
  unfolding fs_inv_def
proof (intro allI impI conjI)
  fix j info f assume j: "stored store m' j = Some (info, f)"
  show "json_norm info = info" "bytes_of f \<noteq> None"
    using j m' new fs_invD(1,2) [OF inv] by (fastforce split: if_splits)+
  fix k info' f' assume k: "stored store m' k = Some (info', f')"
  show "infoPath store j = infoPath store k \<or> storedBinPath store info \<noteq> storedBinPath store info'"
    using j k m' free fs_invD(3) [OF inv] by (metis (mono_tags, lifting) option.inject prod.inject)
qed

lemma fs_NewUpload_files:
  assumes free: "free_paths store u s" and up: "fu_infoPath u = infoPath store i"
    "storedBinPath store (json_norm (fu_info u)) = fu_binPath u" "Offset (fu_info u) = 0"
    and sinv: "fs_sinv store s"
    and files: "files_of s' \<in> {files_of s, (files_of s)(fu_binPath u \<mapsto> []), (files_of s)(fu_binPath u \<mapsto> [], fu_infoPath u \<mapsto> []),
        (files_of s)(fu_binPath u \<mapsto> [], fu_infoPath u \<mapsto> [J (json_norm (fu_info u))])}"
    and dirs: "set (fs_dirs s') \<subseteq> set (fs_dirs s) \<union> set (made_dirs (fu_binPath u)) \<union> set (made_dirs (fu_infoPath u))"
      "files_of s' (fu_binPath u) \<noteq> None \<Longrightarrow> \<not> List.member (fs_dirs s') (fu_binPath u)"
  shows "fs_sinv store s'"
    "\<And>j. infoPath store j \<noteq> infoPath store i \<Longrightarrow> stored store (files_of s') j = stored store (files_of s) j"
    "fs_view store (files_of s) i = None"
    "files_of s' = (files_of s)(fu_binPath u \<mapsto> [], fu_infoPath u \<mapsto> [J (json_norm (fu_info u))]) \<Longrightarrow>
       fs_handle store u (files_of s') i \<and> fs_view store (files_of s') i = Some (json_norm (fu_info u), [])"
proof -
  note st = free_pathsD [OF free up(1,2)] and fr = free [unfolded free_paths_def]
  have inv: "fs_inv store (files_of s)" using sinv by (simp add: fs_sinv_def)
  have others: "storedBinPath store info \<noteq> storedBinPath store (json_norm (fu_info u))"
    if "stored store (files_of s) j = Some (info, f)" for j info f
    using that fr up(2) by (auto simp: stored_Some)
  have "fs_inv store ((files_of s)(fu_binPath u \<mapsto> [], fu_infoPath u \<mapsto> [J (json_norm (fu_info u))]))"
    by (rule fs_inv_new [OF inv others st(4)]) auto
  then have inv': "fs_inv store (files_of s')"
    using files inv fs_inv_stored_eq [OF st(2)] fs_inv_stored_eq [OF st(3)] by auto
  have "\<not> List.member (fs_dirs s') (storedBinPath store x)" if doc: "files_of s' (infoPath store j) = Some [J x]" for j x
  proof (cases "files_of s (infoPath store j) = Some [J x]")
    case True
    with sinv fr dirs(1) show ?thesis by (auto simp: fs_sinv_def)
  next
    case False
    with doc files have "x = json_norm (fu_info u)" "files_of s' (fu_binPath u) \<noteq> None"
      using fr by (auto split: if_splits)
    with dirs(2) up(2) show ?thesis by simp
  qed
  with inv' show "fs_sinv store s'" by (simp add: fs_sinv_def)
  show "stored store (files_of s') j = stored store (files_of s) j" if "infoPath store j \<noteq> infoPath store i" for j
    using files st(2,3,4) that by auto
  show "fs_view store (files_of s) i = None" using st(1) by (rule fs_view_None)
  assume "files_of s' = (files_of s)(fu_binPath u \<mapsto> [], fu_infoPath u \<mapsto> [J (json_norm (fu_info u))])"
  then have "stored store (files_of s') i = Some (json_norm (fu_info u), map B [])" using st(4) [of i] by simp
  moreover have "(json_norm (fu_info u))\<lparr>Offset := 0\<rparr> = json_norm (fu_info u)" using up(3) by (simp add: json_norm_def)
  ultimately show "fs_handle store u (files_of s') i \<and> fs_view store (files_of s') i = Some (json_norm (fu_info u), [])"
    using up(1,2) fs_view_stored by (fastforce simp: fs_handle_def)
qed

lemma fs_NewUpload_facts:
  assumes sinv: "fs_sinv store s" and fresh: "fs_fresh store info s" and off: "Offset info = 0"
    and run: "fs_NewUpload store info s = (r, s')"
  shows "fs_sinv store s' \<and>
    ((\<exists>e. r = Inl e \<and> files_of s' = files_of s) \<or>
     (\<exists>i. fs_view store (files_of s) i = None \<and>
        (\<forall>j. infoPath store j \<noteq> infoPath store i \<longrightarrow> stored store (files_of s') j = stored store (files_of s) j) \<and>
        (\<forall>u. r = Inr u \<longrightarrow> u = newFileUpload store (info\<lparr>ID := i\<rparr>) \<and> fs_handle store u (files_of s') i \<and>
           fs_view store (files_of s') i = Some (json_norm (fu_info u), []))))"
proof -
  obtain r0 s0 where ids: "(if ID info = [] then Uid s else (Inr (ID info), s)) = (r0, s0)" by force
  note q = Uid_facts [OF ids]
  show ?thesis
  proof (cases r0)
    case (Inl e)
    with run ids have "r = Inl e" "s' = s0" by (simp_all add: fs_NewUpload_def)
    with q(1) sinv quiet_sinv [OF q(1)] show ?thesis by (auto simp: quiet_def)
  next
    case (Inr i)
    define u where "u = newFileUpload store (info\<lparr>ID := i\<rparr>)"
    have free: "free_paths store u s0"
      using fresh q Inr free_paths_quiet [OF q(1)] by (simp add: fs_fresh_def u_def)
    then have bin: "storedBinPath store (json_norm (fu_info u)) = fu_binPath u"
      using newFileUpload_binPath [of store "info\<lparr>ID := i\<rparr>"] by (simp add: free_paths_def u_def)
    have up: "fu_infoPath u = infoPath store i" "Offset (fu_info u) = 0" using off by (simp_all add: u_def)
    have sinv0: "fs_sinv store s0" and m0: "files_of s0 = files_of s" using q(1) quiet_sinv [OF q(1)] sinv by (simp_all add: quiet_def)
    obtain e1 s1 where c1: "createFile (fu_binPath u) None s0 = (e1, s1)" by force
    note f1 = createFile_facts [OF c1]
    obtain e2 s2 where c2: "createFile (fu_infoPath u) (Some [J (json_norm (fu_info u))]) s1 = (e2, s2)" by force
    note f2 = createFile_facts [OF c2]
    have run': "(r, s') = (if e1 = None then (case e2 of None \<Rightarrow> Inr u | Some e \<Rightarrow> Inl e, s2) else (Inl (the e1), s1))"
      using run ids Inr c1 c2
      by (auto simp: fs_NewUpload_def writeInfo_def json_Marshal_def u_def Let_def split: option.splits)
    have m1: "files_of s1 = files_of s0 \<and> e1 \<noteq> None \<or> files_of s1 = (files_of s0)(fu_binPath u \<mapsto> [])
        \<and> \<not> List.member (fs_dirs s1) (fu_binPath u)"
      using f1(2) by auto
    have m2: "files_of s2 = files_of s1 \<and> e2 \<noteq> None \<or> files_of s2 = (files_of s1)(fu_infoPath u \<mapsto> []) \<and> e2 \<noteq> None \<or>
        files_of s2 = (files_of s1)(fu_infoPath u \<mapsto> [J (json_norm (fu_info u))])"
      using f2(2) by (auto simp: prefix_Cons)
    have nodir: "\<not> List.member (fs_dirs s') (fu_binPath u)" if "files_of s' (fu_binPath u) \<noteq> None"
      using that run' m1 f2(3) [of "fu_binPath u"] free by (auto simp: free_paths_def split: if_splits)
    have dirs: "set (fs_dirs s') \<subseteq> set (fs_dirs s0) \<union> set (made_dirs (fu_binPath u)) \<union> set (made_dirs (fu_infoPath u))"
      using run' f1(1) f2(1) by (auto split: if_splits)
    have files: "files_of s' \<in> {files_of s0, (files_of s0)(fu_binPath u \<mapsto> []), (files_of s0)(fu_binPath u \<mapsto> [], fu_infoPath u \<mapsto> []),
        (files_of s0)(fu_binPath u \<mapsto> [], fu_infoPath u \<mapsto> [J (json_norm (fu_info u))])}"
      using run' m1 m2 by (auto split: if_splits)
    note res = fs_NewUpload_files [OF free up(1) bin up(2) sinv0 files dirs nodir]
    have "files_of s' = (files_of s0)(fu_binPath u \<mapsto> [], fu_infoPath u \<mapsto> [J (json_norm (fu_info u))])" "v = u"
      if "r = Inr v" for v using that run' m1 m2 by (auto split: if_splits option.splits)
    with res m0 show ?thesis unfolding u_def by (intro conjI disjI2 exI [of _ i]) auto
  qed
qed

section \<open>Concatenation\<close>

lemma appendTo_facts:
  assumes "files_of s (fu_binPath u) = Some (map B bs)" "files_of s p = Some (map B c)" "appendTo u p s = (e, s')"
  shows "fs_dirs s' = fs_dirs s \<and>
    (\<exists>m. files_of s' = (files_of s)(p \<mapsto> map B (c @ take m bs)) \<and> (e = None \<longrightarrow> length bs \<le> m))"
proof -
  obtain r1 s1 where rd: "os_ReadFile (fu_binPath u) s = (r1, s1)" by force
  note f1 = os_ReadFile_facts [OF rd]
  have m1: "files_of s1 = files_of s" "fs_dirs s1 = fs_dirs s" using f1(1) by (simp_all add: quiet_def)
  show ?thesis
  proof (cases r1)
    case (Inl x)
    with assms rd m1 show ?thesis by (auto simp: appendTo_def fun_upd_idem intro!: exI [of _ 0])
  next
    case (Inr data)
    then have data: "data = map B bs" using f1(2) assms(1) by simp
    obtain n x s2 where wr: "file_Write p (map B bs) s1 = ((n, x), s2)" by (metis surj_pair)
    note ap = file_writer.put_appends [OF wr]
    then have "files_of s2 = (files_of s)(p \<mapsto> map B (c @ take n bs))" "fs_dirs s2 = fs_dirs s"
      using assms(2) m1 by (simp_all add: file_appends_def)
    moreover have "x = None \<Longrightarrow> n = length bs" using wr by (auto simp: file_Write_def Let_def split: prod.splits option.splits)
    moreover obtain ce s3 where "file_Close (fu_binPath u) s2 = (ce, s3)" by force
    ultimately show ?thesis
      using assms(3) rd Inr data wr file_Close_quiet [of "fu_binPath u" s2 ce s3]
      by (auto simp: appendTo_def quiet_def split: option.splits intro!: exI [of _ n])
  qed
qed

lemma append_all_facts:
  assumes "list_all2 (\<lambda>u bs. files_of s (fu_binPath u) = Some (map B bs) \<and> fu_binPath u \<noteq> p) us bss"
    "files_of s p = Some (map B c)" "append_all us p s = (e, s')"
  shows "fs_dirs s' = fs_dirs s \<and>
    (\<exists>m. files_of s' = (files_of s)(p \<mapsto> map B (c @ take m (concat bss))) \<and>
       (e = None \<longrightarrow> length (concat bss) \<le> m))"
  using assms
proof (induction us arbitrary: s c bss)
  case Nil
  then show ?case by (auto simp: fun_upd_idem)
next
  case (Cons u us s c bs0)
  then obtain bs bss where bs0: "bs0 = bs # bss" and bs: "files_of s (fu_binPath u) = Some (map B bs)"
    and rest: "list_all2 (\<lambda>u bs. files_of s (fu_binPath u) = Some (map B bs) \<and> fu_binPath u \<noteq> p) us bss"
    by (auto simp: list_all2_Cons1)
  obtain e1 s1 where a: "appendTo u p s = (e1, s1)" by force
  from appendTo_facts [OF bs Cons.prems(2) a] obtain m where
    s1: "fs_dirs s1 = fs_dirs s" "files_of s1 = (files_of s)(p \<mapsto> map B (c @ take m bs))" "e1 = None \<longrightarrow> length bs \<le> m"
    by blast
  show ?case
  proof (cases e1)
    case (Some x)
    with a Cons.prems(3) s1 show ?thesis
      by (auto intro!: exI [of _ "min m (length bs)"] simp: min_def bs0)
  next
    case None
    with a Cons.prems(3) have run: "append_all us p s1 = (e, s')" by simp
    have rest1: "list_all2 (\<lambda>u bs. files_of s1 (fu_binPath u) = Some (map B bs) \<and> fu_binPath u \<noteq> p) us bss"
      using rest by (rule list_all2_mono) (auto simp: s1)
    have m1: "files_of s1 = (files_of s)(p \<mapsto> map B (c @ bs))" using s1(2,3) None by simp
    have "files_of s1 p = Some (map B (c @ bs))" by (simp add: m1)
    from Cons.IH [OF rest1 this run] obtain m' where s': "fs_dirs s' = fs_dirs s1"
      "files_of s' = (files_of s1)(p \<mapsto> map B ((c @ bs) @ take m' (concat bss)))"
      "e = None \<longrightarrow> length (concat bss) \<le> m'" by blast
    have "files_of s' = (files_of s)(p \<mapsto> map B ((c @ bs) @ take m' (concat bss)))"
      unfolding s'(2) m1 by (rule fun_upd_upd)
    with s' s1(1) show ?thesis by (intro conjI exI [of _ "length bs + m'"]) (auto simp: bs0)
  qed
qed

lemma fs_ConcatUploads_facts:
  assumes sinv: "fs_sinv store s" and handle: "fs_handle store u (files_of s) i"
    and view: "fs_view store (files_of s) i = Some (info, c)"
    and partials: "list_all2 (\<lambda>u j. fs_handle store u (files_of s) j \<and> \<not> fs_same store i j) us js"
    and run: "fs_ConcatUploads u us s = (e, u', s')"
  shows "fs_sinv store s' \<and> frame (fs_same store) i (fs_view store (files_of s)) (fs_view store (files_of s')) \<and>
    fs_owner store u' i \<and>
    (\<exists>m. fs_view store (files_of s') i =
        Some (info\<lparr>Offset := int (length c + length (take m (concat (map (\<lambda>j. snd (the (fs_view store (files_of s) j))) js))))\<rparr>,
          c @ take m (concat (map (\<lambda>j. snd (the (fs_view store (files_of s) j))) js))) \<and>
      (e = None \<longrightarrow> length (concat (map (\<lambda>j. snd (the (fs_view store (files_of s) j))) js)) \<le> m))"
proof -
  let ?bss = "map (\<lambda>j. snd (the (fs_view store (files_of s) j))) js"
  from fs_handleE [OF sinv handle view] obtain info0 where
    st: "stored store (files_of s) i = Some (info0, map B c)" and info: "info = info0\<lparr>Offset := int (length c)\<rparr>"
    and up: "fu_infoPath u = infoPath store i" "fu_binPath u = storedBinPath store info0"
    and inv: "fs_inv store (files_of s)"
    and files: "files_of s (storedBinPath store info0) = Some (map B c)"
    and nodir: "\<not> List.member (fs_dirs s) (storedBinPath store info0)" .
  let ?p = "storedBinPath store info0"
  obtain e1 s1 where o: "os_open ?p s = (e1, s1)" by force
  note q = os_open_facts(1) [OF o]
  have m1: "files_of s1 = files_of s" "fs_dirs s1 = fs_dirs s" using q by (simp_all add: quiet_def)
  have written: "fs_sinv store s2 \<and> frame (fs_same store) i (fs_view store (files_of s)) (fs_view store (files_of s2)) \<and>
      fs_view store (files_of s2) i = Some (info\<lparr>Offset := int (length (c @ d))\<rparr>, c @ d)"
    if "files_of s2 = (files_of s)(?p \<mapsto> map B (c @ d))" "fs_dirs s2 = fs_dirs s" for s2 d
  proof -
    note rw = rewrite_content [OF inv st that(1)]
    have "files_of s (infoPath store j) = Some [J x]" if "files_of s2 (infoPath store j) = Some [J x]" for j x
      using that \<open>files_of s2 = _\<close> by (auto simp del: map_append split: if_splits)
    with sinv rw(1) that(2) have "fs_sinv store s2" by (auto simp: fs_sinv_def)
    with rw fs_view_stored [OF rw(2)] info show ?thesis by simp
  qed
  have u': "u' = u" using run by (auto simp: fs_ConcatUploads_def split: prod.splits option.splits)
  show ?thesis
  proof (cases e1)
    case (Some x)
    with run o up have e: "e = Some x" "s' = s1" by (auto simp: fs_ConcatUploads_def)
    with written [of s' "[]"] m1 files up u' show ?thesis
      by (intro conjI exI [of _ 0]) (auto simp: fs_owner_def fun_upd_idem)
  next
    case None
    have bss: "list_all2 (\<lambda>u bs. files_of s1 (fu_binPath u) = Some (map B bs) \<and> fu_binPath u \<noteq> ?p) us ?bss"
      unfolding list.rel_map
    proof (rule list_all2_mono [OF partials])
      fix v j assume "fs_handle store v (files_of s) j \<and> \<not> fs_same store i j"
      then obtain info1 bs where j: "stored store (files_of s) j = Some (info1, map B bs)" "fu_binPath v = storedBinPath store info1"
        "infoPath store i \<noteq> infoPath store j" by (auto simp: fs_handle_def fs_same_def)
      with fs_invD(3) [OF inv st j(1) j(3)] fs_view_stored [OF j(1)] m1
      show "files_of s1 (fu_binPath v) = Some (map B (snd (the (fs_view store (files_of s) j)))) \<and> fu_binPath v \<noteq> ?p"
        by (auto simp: stored_Some)
    qed
    obtain e2 s2 where a: "append_all us ?p s1 = (e2, s2)" by force
    from append_all_facts [OF bss _ a, of c] files m1 obtain m where
      s2: "fs_dirs s2 = fs_dirs s" "files_of s2 = (files_of s)(?p \<mapsto> map B (c @ take m (concat ?bss)))"
        "e2 = None \<longrightarrow> length (concat ?bss) \<le> m" by auto
    obtain ce s3 where cl: "file_Close ?p s2 = (ce, s3)" by force
    have "files_of s3 = files_of s2" "fs_dirs s3 = fs_dirs s2" using file_Close_quiet [OF cl] by (simp_all add: quiet_def)
    with written [of s3 "take m (concat ?bss)"] s2(1,2)
    have s3: "fs_sinv store s3" "frame (fs_same store) i (fs_view store (files_of s)) (fs_view store (files_of s3))"
      "fs_view store (files_of s3) i = Some (info\<lparr>Offset := int (length (c @ take m (concat ?bss)))\<rparr>, c @ take m (concat ?bss))"
      by auto
    have "s' = s3" "e = None \<longrightarrow> e2 = None" using run o None up a cl by (auto simp: fs_ConcatUploads_def split: if_splits)
    with s3 s2(3) up u' show ?thesis by (intro conjI exI [of _ m]) (auto simp: fs_owner_def)
  qed
qed

end
