(* ===== verification/Posting.thy ===== *)
theory Posting
  imports Creation
begin

text \<open>
  POST requests: the contract of a store that creates and concatenates uploads, and what the
  POST handlers do to the uploads on such a store.
\<close>

section \<open>The contract\<close>

text \<open>The contents of the uploads with the given identifiers, one after the other.\<close>

definition contents_of :: "uploads \<Rightarrow> string list \<Rightarrow> bytes" where
  "contents_of v js = concat (map (\<lambda>j. snd (the (v j))) js)"

text \<open>Every upload that was there is there unchanged.\<close>

definition untouched :: "uploads \<Rightarrow> uploads \<Rightarrow> bool" where
  "untouched v v' \<longleftrightarrow> (\<forall>j. v j \<noteq> None \<longrightarrow> v' j = v j)"

lemma untouched_refl [simp]: "untouched v v"
  by (simp add: untouched_def)

text \<open>Whatever information the creation hook makes of a new upload, its place in the store is free.\<close>

definition place_is_free ::
  "(FileInfo \<Rightarrow> 's \<Rightarrow> bool) \<Rightarrow> ('s, 'u, 'l, 'k) UnroutedHandler \<Rightarrow> Request \<Rightarrow> 's \<Rightarrow> bool" where
  "place_is_free fresh h c s \<longleftrightarrow>
     (\<forall>info resp info' resp' (w :: ('s, 'l) world) w'.
        ID info = [] \<longrightarrow> Storage info = [] \<longrightarrow> run_state (pre_create h c info resp) w = (Inr (info', resp'), w') \<longrightarrow>
          fresh info' s)"

locale creating_store = server_store d sinv view handle owner same terminate_upload declare_len h
  for d :: "('s, 'u) DataStore" and sinv view handle owner same terminate_upload declare_len
    and h :: "('s, 'u, 'l, 'k) UnroutedHandler" +
  fixes fresh :: "FileInfo \<Rightarrow> 's \<Rightarrow> bool"
    and concat_uploads :: "('s, 'u) ConcaterDataStore"
  assumes concater: "Concater (composer h) = Some g \<Longrightarrow> g = concat_uploads"
    and GetUpload_keeps: "sinv s \<Longrightarrow> GetUpload d i s = (r, s') \<Longrightarrow>
      (handle v s j \<longrightarrow> handle v s' j) \<and> (fresh info s \<longrightarrow> fresh info s')"
    and GetInfo_keeps: "sinv s \<Longrightarrow> GetInfo d u s = (ri, u', s') \<Longrightarrow>
      (handle v s j \<longrightarrow> handle v s' j) \<and> (fresh info s \<longrightarrow> fresh info s')"
    and NewUpload_law: "sinv s \<Longrightarrow> fresh info s \<Longrightarrow> Offset info = 0 \<Longrightarrow> NewUpload d info s = (r, s') \<Longrightarrow>
      sinv s' \<and> (\<forall>v j. handle v s j \<longrightarrow> handle v s' j) \<and>
      ((\<exists>e. r = Inl e \<and> view s' = view s) \<or>
       (\<exists>i. view s i = None \<and> frame same i (view s) (view s') \<and>
          (\<forall>u. r = Inr u \<longrightarrow> handle u s' i \<and> (\<exists>info'. view s' i = Some (info', []) \<and> core_eq info info') \<and>
             (\<forall>info1 u1 s1. GetInfo d u s' = (Inr info1, u1, s1) \<longrightarrow> ID info1 = i))))"
    and ConcatUploads_law: "sinv s \<Longrightarrow> handle u s i \<Longrightarrow> view s i = Some (info, c) \<Longrightarrow>
      list_all2 (\<lambda>u j. handle u s j \<and> \<not> same i j) us js \<Longrightarrow> concat_uploads u us s = (e, u', s') \<Longrightarrow>
      sinv s' \<and> frame same i (view s) (view s') \<and> owner u' i \<and>
      (\<exists>m. view s' i = Some (info\<lparr>Offset := int (length c + length (take m (contents_of (view s) js)))\<rparr>,
              c @ take m (contents_of (view s) js)) \<and>
         (e = None \<longrightarrow> length (contents_of (view s) js) \<le> m))"
begin

abbreviation new_ok :: "Request \<Rightarrow> 's \<Rightarrow> bool" where
  "new_ok c s \<equiv> place_is_free fresh h c s"

lemma new_okD:
  fixes w :: "('s, 'l) world"
  assumes "new_ok c s" "ID info = []" "Storage info = []" "run_state (pre_create h c info resp) w = (Inr (info', resp'), w')"
  shows "fresh info' s"
  using assms unfolding place_is_free_def by blast

lemma untouched_frame: "v i = None \<Longrightarrow> (\<And>j. same i j \<Longrightarrow> v j = v i) \<Longrightarrow> frame same i v v' \<Longrightarrow> untouched v v'"
  unfolding untouched_def frame_def by (metis)

abbreviation ready :: "uploads \<Rightarrow> Request \<Rightarrow> 'u list \<Rightarrow> string list \<Rightarrow> 's \<Rightarrow> bool" where
  "ready v c us js s \<equiv> stays v s \<and> new_ok c s \<and> list_all2 (\<lambda>u j. handle u s j) us js"

text \<open>The result of looking at the partial uploads: their objects in order, each of them complete.\<close>

abbreviation sized :: "uploads \<Rightarrow> Request \<Rightarrow> string list \<Rightarrow> string list \<Rightarrow> err + 'u list \<times> int \<Rightarrow> 's \<Rightarrow> bool" where
  "sized v c js ids r s \<equiv> stays v s \<and> new_ok c s \<and>
     (\<forall>us' t. r = Inr (us', t) \<longrightarrow> list_all2 (\<lambda>u j. handle u s j) us' (js @ ids) \<and>
        (\<forall>j\<in>set ids. \<exists>info c. v j = Some (info, c) \<and> Size info = int (length c) \<and> \<not> SizeIsDeferred info))"

lemma GetUpload_new:
  "triple (\<lambda>w. ready v c us js (w_store w))
     (core_GetUpload h i)
     (\<lambda>r w. ready v c us js (w_store w) \<and>
        (\<forall>u. r = Inr u \<longrightarrow> handle u (w_store w) i))"
  unfolding core_GetUpload_def core option.case
proof (rule triple_store_op)
  fix w :: "('s, 'l) world" and a s'
  assume pre: "ready v c us js (w_store w)"
    and g: "GetUpload d i (w_store w) = (a, s')"
  note k = GetUpload_keeps [OF _ g]
  have "new_ok c s'" using pre k unfolding place_is_free_def by blast
  moreover have "list_all2 (\<lambda>u j. handle u s' j) us js"
    using pre k by (auto intro: list_all2_mono)
  ultimately show "ready v c us js (w_store (w\<lparr>w_store := s'\<rparr>)) \<and>
      (\<forall>u. a = Inr u \<longrightarrow> handle u (w_store (w\<lparr>w_store := s'\<rparr>)) i)"
    using pre GetUpload_law [OF _ g] by simp
qed

lemma GetInfo_new:
  "triple (\<lambda>w. ready v c us js (w_store w) \<and>
        handle u (w_store w) i)
     (upload_GetInfo h u)
     (\<lambda>r w. ready v c us js (w_store w) \<and>
        (\<forall>info u'. r = Inr (info, u') \<longrightarrow> handle u' (w_store w) i \<and>
           (\<exists>info0 c. v i = Some (info0, c) \<and> core_eq info info0)))"
  unfolding upload_GetInfo_def core option.case
proof (rule triple_store_op)
  fix w :: "('s, 'l) world" and a s'
  assume pre: "ready v c us js (w_store w) \<and>
        handle u (w_store w) i"
    and "(case GetInfo d u (w_store w) of (Inl e, u', s') \<Rightarrow> (Inl e, s') | (Inr info, u', s') \<Rightarrow> (Inr (info, u'), s')) = (a, s')"
  then obtain ri u' where g: "GetInfo d u (w_store w) = (ri, u', s')"
    and a: "a = (case ri of Inl e \<Rightarrow> Inl e | Inr info \<Rightarrow> Inr (info, u'))"
    by (auto split: prod.splits sum.splits)
  note k = GetInfo_keeps [OF _ g]
  have "new_ok c s'" using pre k unfolding place_is_free_def by blast
  moreover have "list_all2 (\<lambda>u j. handle u s' j) us js"
    using pre k by (auto intro: list_all2_mono)
  ultimately show "ready v c us js (w_store (w\<lparr>w_store := s'\<rparr>)) \<and>
      (\<forall>info u'. a = Inr (info, u') \<longrightarrow> handle u' (w_store (w\<lparr>w_store := s'\<rparr>)) i \<and>
           (\<exists>info0 c. v i = Some (info0, c) \<and> core_eq info info0))"
    using pre GetInfo_law [OF _ _ g, of i] a by (auto split: sum.splits)
qed

text \<open>The partial uploads are found in order, each of them complete.\<close>

lemma sizeOfUploads_spec:
  "triple (\<lambda>w. ready v c us js (w_store w))
     (sizeOfUploads h ids us acc)
     (\<lambda>r w. sized v c js ids r (w_store w))"
proof (induction ids arbitrary: us js acc)
  case Nil
  show ?case by (auto intro!: triple_okE)
next
  case (Cons i ids)
  show ?case
    unfolding sizeOfUploads.simps
  proof (rule triple_bindE [OF GetUpload_new])
    fix u
    show "triple (\<lambda>w. ready v c us js (w_store w) \<and>
          (\<forall>u'. Inr u = Inr u' \<longrightarrow> handle u' (w_store w) i))
      (bindE (upload_GetInfo h u) (\<lambda>(info, u).
         if SizeIsDeferred info \<or> Offset info \<noteq> Size info then failE (TusError ErrUploadNotFinished)
         else sizeOfUploads h ids (us @ [u]) (add64 acc (Size info))))
      (\<lambda>r w. sized v c js (i # ids) r (w_store w))"
    proof (rule triple_bindE [OF triple_weaken_pre [OF GetInfo_new [of v c us js u i]]])
      fix x :: "FileInfo \<times> 'u"
      obtain info u' where x: "x = (info, u')" by force
      show "triple (\<lambda>w. ready v c us js (w_store w) \<and>
          (\<forall>info u'. Inr x = Inr (info, u') \<longrightarrow> handle u' (w_store w) i \<and>
             (\<exists>info0 c. v i = Some (info0, c) \<and> core_eq info info0)))
        (case x of (info, u) \<Rightarrow>
           if SizeIsDeferred info \<or> Offset info \<noteq> Size info then failE (TusError ErrUploadNotFinished)
           else sizeOfUploads h ids (us @ [u]) (add64 acc (Size info)))
        (\<lambda>r w. sized v c js (i # ids) r (w_store w))"
        unfolding x prod.case
      proof (rule triple_if)
        assume ok: "\<not> (SizeIsDeferred info \<or> Offset info \<noteq> Size info)"
        show "triple (\<lambda>w. ready v c us js (w_store w) \<and>
          (\<forall>info1 u1. Inr (info, u') = Inr (info1, u1) \<longrightarrow> handle u1 (w_store w) i \<and>
             (\<exists>info0 c. v i = Some (info0, c) \<and> core_eq info1 info0)))
          (sizeOfUploads h ids (us @ [u']) (add64 acc (Size info)))
          (\<lambda>r w. sized v c js (i # ids) r (w_store w))"
        proof (rule triple_pre)
          fix w1 :: "('s, 'l) world"
          assume w1: "ready v c us js (w_store w1) \<and>
            (\<forall>info1 u1. Inr (info, u') = Inr (info1, u1) \<longrightarrow> handle u1 (w_store w1) i \<and>
               (\<exists>info0 c. v i = Some (info0, c) \<and> core_eq info1 info0))"
          then obtain info0 c0 where v: "v i = Some (info0, c0)" "core_eq info info0" by auto
          with w1 view_offset [of "w_store w1" i info0 c0] ok
          have "Size info0 = int (length c0)" "\<not> SizeIsDeferred info0" by (auto simp: core_eq_def)
          with v show "triple (\<lambda>w. w = w1) (sizeOfUploads h ids (us @ [u']) (add64 acc (Size info)))
            (\<lambda>r w. sized v c js (i # ids) r (w_store w))"
            by (intro triple_weaken [OF Cons.IH [of "us @ [u']" "js @ [i]" "add64 acc (Size info)"]])
              (use w1 in \<open>auto intro!: list_all2_appendI\<close>)
        qed
      qed (auto intro!: triple_failE)
    qed auto
  qed auto
qed

section \<open>Creating an upload\<close>

lemma pre_create_facts:
  assumes "run_state (pre_create h c info resp) w = (r, w')"
  shows "w' = w" "r = Inr (info', resp') \<Longrightarrow> core_eq info' info"
  using assms
  by (auto simp: pre_create_def core_eq_def Let_def split: option.splits prod.splits if_splits)

lemma core_eq_trans: "core_eq a b \<Longrightarrow> core_eq b c \<Longrightarrow> core_eq a c"
  by (simp add: core_eq_def)

lemma core_eq_sym: "core_eq a b \<Longrightarrow> core_eq b a"
  by (simp add: core_eq_def)

text \<open>A fresh upload, found under the identifier that its information has.\<close>

abbreviation started ::
  "uploads \<Rightarrow> 'u list \<Rightarrow> string list \<Rightarrow> FileInfo \<Rightarrow> err + FileInfo \<times> 'u \<Rightarrow> 's \<Rightarrow> bool" where
  "started v us js info r s \<equiv> sinv s \<and> untouched v (view s) \<and>
     (\<forall>info1 u. r = Inr (info1, u) \<longrightarrow>
        v (ID info1) = None \<and> frame same (ID info1) v (view s) \<and> handle u s (ID info1) \<and>
        list_all2 (\<lambda>u j. handle u s j) us js \<and> core_eq info1 info \<and>
        (\<exists>info'. view s (ID info1) = Some (info', []) \<and> core_eq info1 info'))"

lemma start_upload_spec:
  assumes w: "stays v (w_store w)" "fresh info (w_store w)" "Offset info = 0"
    "list_all2 (\<lambda>u j. handle u (w_store w) j) us js"
    and run: "run_state (start_upload h info) w = (r, w')"
  shows "started v us js info r (w_store w')"
proof -
  obtain r1 s1 where nu: "NewUpload d info (w_store w) = (r1, s1)" by force
  note law = NewUpload_law [OF conjunct1 [OF w(1)] w(2,3) nu]
  have same: "v j = v i" if "same i j" for i j using w(1) same_view [OF that] by auto
  show ?thesis
  proof (cases r1)
    case (Inl e)
    with run nu have "r = Inl e" "w_store w' = s1"
      by (auto simp: start_upload_def core_NewUpload_def core store_op_def)
    with law w(1) Inl show ?thesis by (auto intro: untouched_frame same_view)
  next
    case (Inr u)
    from law Inr obtain i info0 where i: "v i = None" "frame same i v (view s1)" "handle u s1 i" "sinv s1"
      "view s1 i = Some (info0, [])" "core_eq info info0"
      "\<And>info1 u1 s2. GetInfo d u s1 = (Inr info1, u1, s2) \<Longrightarrow> ID info1 = i"
      and keep: "\<And>v j. handle v (w_store w) j \<Longrightarrow> handle v s1 j" using w(1) by auto
    obtain r2 u2 s2 where gi: "GetInfo d u s1 = (r2, u2, s2)" by (metis surj_pair)
    note law2 = GetInfo_law [OF i(4,3) gi] and keep2 = GetInfo_keeps [OF i(4) gi]
    have r: "r = (case r2 of Inl e \<Rightarrow> Inl e | Inr info1 \<Rightarrow> Inr (info1, u2))" "w_store w' = s2"
      using run nu Inr gi
      by (auto simp: start_upload_def core_NewUpload_def upload_GetInfo_def core store_op_def split: sum.splits)
    have "list_all2 (\<lambda>u j. handle u s2 j) us js"
      using w(4) by (rule list_all2_mono) (use keep keep2 in blast)
    moreover have "untouched v (view s2)" using law2 i(1,2) same by (auto intro: untouched_frame)
    ultimately show ?thesis
      using r law2 i gi by (auto split: sum.splits intro: core_eq_trans core_eq_sym)
  qed
qed

lemma ConcatUploads_spec:
  assumes w: "sinv (w_store w)" "handle u (w_store w) i" "view (w_store w) i = Some (info, [])"
    and partials: "list_all2 (\<lambda>u j. handle u (w_store w) j) us js" "\<forall>j\<in>set js. \<not> same i j"
    and run: "run_state (upload_ConcatUploads h u us) w = (r, w')"
  shows "sinv (w_store w') \<and> frame same i (view (w_store w)) (view (w_store w')) \<and>
    (\<forall>u'. r = Inr u' \<longrightarrow> owner u' i \<and>
       (\<exists>info'. view (w_store w') i = Some (info', contents_of (view (w_store w)) js) \<and>
          info' = info\<lparr>Offset := int (length (contents_of (view (w_store w)) js))\<rparr>))"
proof (cases "Concater (composer h)")
  case None
  with run w show ?thesis by (auto simp: upload_ConcatUploads_def)
next
  case (Some g)
  have us: "list_all2 (\<lambda>u j. handle u (w_store w) j \<and> \<not> same i j) us js"
    using partials by (auto simp: list_all2_conv_all_nth)
  obtain e u' s' where c: "concat_uploads u us (w_store w) = (e, u', s')" by (metis surj_pair)
  from ConcatUploads_law [OF w us c] obtain m where law: "sinv s'" "frame same i (view (w_store w)) (view s')" "owner u' i"
    "view s' i = Some (info\<lparr>Offset := int (length ([] :: bytes) + length (take m (contents_of (view (w_store w)) js)))\<rparr>,
       [] @ take m (contents_of (view (w_store w)) js))"
    "e = None \<longrightarrow> length (contents_of (view (w_store w)) js) \<le> m" by blast
  have "r = (case e of None \<Rightarrow> Inr u' | Some x \<Rightarrow> Inl x)" "w_store w' = s'"
    using run c Some concater [OF Some]
    by (auto simp: upload_ConcatUploads_def unit_op_def store_op_def split: option.splits)
  with law show ?thesis by (auto split: option.splits)
qed

text \<open>The upload after its creation.\<close>

abbreviation created_post ::
  "uploads \<Rightarrow> Request \<Rightarrow> string list \<Rightarrow> bool \<Rightarrow> err + 'u created \<Rightarrow> 's \<Rightarrow> bool" where
  "created_post v r js isFinal res s \<equiv> sinv s \<and> untouched v (view s) \<and>
     (\<forall>cr. res = Inr cr \<longrightarrow>
        v (ID (cr_info cr)) = None \<and> frame same (ID (cr_info cr)) v (view s) \<and> owner (cr_upload cr) (ID (cr_info cr)) \<and>
        (\<exists>info'. view s (ID (cr_info cr)) = Some (info', if isFinal then contents_of v js else []) \<and>
           Size info' = cr_size cr \<and> SizeIsDeferred info' = cr_deferred cr \<and> IsFinal info' = isFinal \<and>
           (\<not> isFinal \<longrightarrow> core_eq (cr_info cr) info')) \<and>
        (\<not> isFinal \<longrightarrow> handle (cr_upload cr) s (ID (cr_info cr)) \<and>
           map_of (Header (cr_resp cr)) ''Location'' = Some (absFileURL h r (ID (cr_info cr)))))"

lemma concat_created_spec:
  assumes w: "sinv (w_store w)" "untouched v (view (w_store w))"
    and cr: "v i = None" "frame same i v (view (w_store w))" "handle (cr_upload cr) (w_store w) i"
      "view (w_store w) i = Some (info', [])" "core_eq (cr_info cr) info'" "core_eq (cr_info cr) info0" "i = ID (cr_info cr)"
      "map_of (Header (cr_resp cr)) ''Location'' = Some (absFileURL h r i)"
      "cr_size cr = Size info0" "cr_deferred cr = SizeIsDeferred info0"
    and partials: "list_all2 (\<lambda>u j. handle u (w_store w) j) us js" "IsFinal info0 \<Longrightarrow> \<forall>j\<in>set js. v j \<noteq> None"
    and same: "\<And>j. same i j \<Longrightarrow> v j = v i"
    and run: "run_state (concat_created h c (IsFinal info0) us cr) w = (res, w')"
  shows "created_post v r js (IsFinal info0) res (w_store w')"
proof (cases "IsFinal info0")
  case False
  with run w cr handle_owner show ?thesis
    by (auto simp: concat_created_def core_eq_def)
next
  case True
  have others: "\<forall>j\<in>set js. \<not> same i j" using partials(2) [OF True] same cr(1) by metis
  have old: "contents_of (view (w_store w)) js = contents_of v js"
    using partials(2) [OF True] w(2) by (auto simp: contents_of_def untouched_def intro!: arg_cong [where f = concat])
  obtain r1 w1 where cc: "run_state (upload_ConcatUploads h (cr_upload cr) us) w = (r1, w1)" by force
  note spec = ConcatUploads_spec [OF w(1) cr(3,4) partials(1) others cc]
  have frame1: "frame same i v (view (w_store w1))" using spec cr(2) by (blast intro: frame_trans)
  have untouched1: "untouched v (view (w_store w1))" by (rule untouched_frame [OF cr(1) same frame1])
  show ?thesis
  proof (cases r1)
    case (Inl e)
    with run True cc have "res = Inl e" "w' = w1" by (auto simp: concat_created_def)
    with spec untouched1 show ?thesis by simp
  next
    case (Inr u1)
    let ?info = "(cr_info cr)\<lparr>Offset := cr_size cr\<rparr>"
    obtain r2 w2 where em: "run_state (emitFinishEvents h c (cr_resp cr) ?info) w1 = (r2, w2)" by force
    have s2: "w_store w2 = w_store w1"
      using tripleD [OF emitFinishEvents_store [of "\<lambda>s. s = w_store w1"] refl em] by simp
    have res: "w' = w2" "res = (case r2 of Inl e \<Rightarrow> Inl e | Inr resp \<Rightarrow> Inr (cr\<lparr>cr_resp := resp, cr_upload := u1, cr_info := ?info\<rparr>))"
      using run True cc Inr em by (auto simp: concat_created_def Let_def split: sum.splits)
    from spec Inr obtain info2 where i2: "owner u1 i" "view (w_store w1) i = Some (info2, contents_of v js)"
      "info2 = info'\<lparr>Offset := int (length (contents_of v js))\<rparr>" using old by auto
    have "Size info2 = Size info0" "SizeIsDeferred info2 = SizeIsDeferred info0" "IsFinal info2 = IsFinal info0"
      using i2(3) cr(5,6) by (auto simp: core_eq_def)
    with res s2 spec untouched1 frame1 i2(1,2) cr(1,7,9,10) True show ?thesis
      by (auto split: sum.splits)
  qed
qed

lemma create_upload_spec:
  assumes w: "ready v c us js (w_store w)" and info0: "ID info0 = []" "Storage info0 = []" "Offset info0 = 0"
    and partials: "IsFinal info0 \<Longrightarrow> \<forall>j\<in>set js. v j \<noteq> None"
    and run: "run_state (create_upload h c r us info0) w = (res, w')"
  shows "created_post v r js (IsFinal info0) res (w_store w') \<and>
    (\<forall>cr. res = Inr cr \<longrightarrow> cr_size cr = Size info0 \<and> cr_deferred cr = SizeIsDeferred info0)"
proof -
  let ?resp = "emptyResponse\<lparr>StatusCode := 201\<rparr>"
  obtain r1 w1 where pc: "run_state (pre_create h c info0 ?resp) w = (r1, w1)" by force
  note f1 = pre_create_facts [OF pc]
  show ?thesis
  proof (cases r1)
    case (Inl e)
    with run pc f1(1) w show ?thesis by (auto simp: create_upload_def)
  next
    case (Inr x)
    obtain info resp where x: "x = (info, resp)" by force
    have info: "fresh info (w_store w)"
      using new_okD [of c "w_store w" info0 ?resp w info resp w1] w info0 pc Inr x by simp
    have eq: "core_eq info info0" "Offset info = 0"
      using f1(2) Inr x info0(3) by (auto simp: core_eq_def)
    obtain r2 w2 where su: "run_state (start_upload h info) w = (r2, w2)" by force
    note started = start_upload_spec [OF conjunct1 [OF w] info eq(2) conjunct2 [OF conjunct2 [OF w]] su]
    show ?thesis
    proof (cases r2)
      case (Inl e)
      with run pc f1(1) \<open>r1 = Inr x\<close> x su have "res = Inl e" "w' = w2" by (auto simp: create_upload_def)
      with started show ?thesis by simp
    next
      case (Inr y)
      obtain info1 u where y: "y = (info1, u)" by force
      let ?cr = "\<lparr>cr_resp = set_header ''Location'' (absFileURL h r (ID info1)) resp, cr_upload = u, cr_info = info1,
         cr_size = Size info0, cr_deferred = SizeIsDeferred info0\<rparr>"
      obtain a w3 where nc: "run_state (notify_created h c info1) (w2\<lparr>w_metrics := incUploadsCreated (w_metrics w2)\<rparr>) = (a, w3)"
        by (metis surj_pair)
      then have w3: "w_store w3 = w_store w2" by (auto simp: notify_created_def split: if_splits)
      have cc: "run_state (concat_created h c (IsFinal info0) us ?cr) w3 = (res, w')"
        using run pc f1(1) \<open>r1 = Inr x\<close> x su Inr y nc by (auto simp: create_upload_def Let_def)
      have same: "v j = v i" if "same i j" for i j using w same_view [OF that] by auto
      from started Inr y obtain info' where st: "sinv (w_store w3)" "untouched v (view (w_store w3))" "v (ID info1) = None"
        "frame same (ID info1) v (view (w_store w3))" "handle u (w_store w3) (ID info1)"
        "view (w_store w3) (ID info1) = Some (info', [])" "core_eq info1 info'" "core_eq info1 info"
        "list_all2 (\<lambda>u j. handle u (w_store w3) j) us js" unfolding w3 by auto
      have "created_post v r js (IsFinal info0) res (w_store w')"
        by (rule concat_created_spec [OF st(1-4) _ st(6) _ _ _ _ _ _ st(9) partials same cc])
          (use st eq(1) in \<open>auto intro: core_eq_trans\<close>)
      moreover have "cr_size cr = Size info0 \<and> cr_deferred cr = SizeIsDeferred info0" if "res = Inr cr" for cr
        using cc that by (auto simp: concat_created_def Let_def split: if_splits prod.splits sum.splits)
      ultimately show ?thesis by blast
    qed
  qed
qed

section \<open>POST requests\<close>

text \<open>
  Where the bytes of a new upload come from: the partial uploads of a final one.
\<close>

lemma post_size_spec:
  "triple (\<lambda>w. stays v (w_store w) \<and> new_ok c (w_store w)) (post_size h r containsChunk isFinal ids)
     (\<lambda>res w. stays v (w_store w) \<and> new_ok c (w_store w) \<and>
        (\<forall>us t df. res = Inr (us, t, df) \<longrightarrow>
           (isFinal \<longrightarrow> \<not> containsChunk \<and> list_all2 (\<lambda>u j. handle u (w_store w) j) us ids \<and> (\<forall>j\<in>set ids. v j \<noteq> None)) \<and>
           (\<not> isFinal \<longrightarrow> us = [] \<and>
              validateNewUploadLengthHeaders h (req_header r ''Upload-Length'') (req_header r ''Upload-Defer-Length'') = Inr (t, df))))"
  unfolding post_size_def
proof (intro triple_if)
  assume "isFinal" "\<not> containsChunk"
  show "triple (\<lambda>w. stays v (w_store w) \<and> new_ok c (w_store w))
     (bindE (sizeOfUploads h ids [] 0) (\<lambda>(us, total_size). okE (us, total_size, False)))
     (\<lambda>res w. stays v (w_store w) \<and> new_ok c (w_store w) \<and>
        (\<forall>us t df. res = Inr (us, t, df) \<longrightarrow>
           (isFinal \<longrightarrow> \<not> containsChunk \<and> list_all2 (\<lambda>u j. handle u (w_store w) j) us ids \<and> (\<forall>j\<in>set ids. v j \<noteq> None)) \<and>
           (\<not> isFinal \<longrightarrow> us = [] \<and>
              validateNewUploadLengthHeaders h (req_header r ''Upload-Length'') (req_header r ''Upload-Defer-Length'') = Inr (t, df))))"
    using \<open>isFinal\<close> \<open>\<not> containsChunk\<close>
    by (intro triple_bindE [OF triple_weaken_pre [OF sizeOfUploads_spec [of v c "[]" "[]"]]])
      (fastforce split: prod.splits intro!: triple_okE)+
qed (auto split: sum.splits intro!: triple_failE triple_okE)

lemma post_create_spec:
  assumes w: "stays v (w_store w)" "new_ok c (w_store w)"
    and run: "run_state (post_create h c r containsChunk) w = (res, w')"
  shows "sinv (w_store w') \<and> untouched v (view (w_store w'))"
    "res = Inr cr \<Longrightarrow>
     \<exists>x. parseConcat (if UsesConcater (composer h) then req_header r ''Upload-Concat'' else []) (basePath h) = Inr x"
    "res = Inr cr \<Longrightarrow>
     parseConcat (if UsesConcater (composer h) then req_header r ''Upload-Concat'' else []) (basePath h) = Inr (isPartial, isFinal, ids) \<Longrightarrow>
     created_post v r ids isFinal res (w_store w') \<and> (isFinal \<longrightarrow> \<not> containsChunk) \<and>
     (\<not> isFinal \<longrightarrow> validateNewUploadLengthHeaders h (req_header r ''Upload-Length'') (req_header r ''Upload-Defer-Length'')
        = Inr (cr_size cr, cr_deferred cr))"
proof -
  let ?pc = "parseConcat (if UsesConcater (composer h) then req_header r ''Upload-Concat'' else []) (basePath h)"
  have failed: "(sinv (w_store w') \<and> untouched v (view (w_store w'))) \<and> (\<exists>e. res = Inl e)" if "?pc = Inl e" for e
    using run w that by (auto simp: post_create_def Let_def split: if_splits)
  have main: "created_post v r ids isFinal res (w_store w') \<and>
      (\<forall>cr. res = Inr cr \<longrightarrow> (isFinal \<longrightarrow> \<not> containsChunk) \<and>
        (\<not> isFinal \<longrightarrow> validateNewUploadLengthHeaders h (req_header r ''Upload-Length'') (req_header r ''Upload-Defer-Length'')
           = Inr (cr_size cr, cr_deferred cr)))"
    if pc: "?pc = Inr (isPartial, isFinal, ids)" for isPartial isFinal ids
  proof -
    obtain r1 w1 where ps: "run_state (post_size h r containsChunk isFinal ids) w = (r1, w1)" by force
    note spec = tripleD [OF post_size_spec conjI [OF w] ps]
    show ?thesis
    proof (cases "\<exists>e. res = Inl e \<and> (w' = w \<or> w' = w1)")
      case True
      with w spec show ?thesis by auto
    next
      case False
      let ?info = "\<lambda>t df. emptyFileInfo\<lparr>Size := t, SizeIsDeferred := df,
          MetaData := ParseMetadataHeader (req_header r ''Upload-Metadata''), IsPartial := isPartial,
          IsFinal := isFinal, PartialUploads := ids\<rparr>"
      from False run ps pc obtain us t df where r1: "r1 = Inr (us, t, df)"
        and cu: "run_state (create_upload h c r us (?info t df)) w1 = (res, w')"
        by (auto simp: post_create_def Let_def split: if_splits sum.splits)
      from spec r1 have w1: "ready v c us (if isFinal then ids else []) (w_store w1)" "isFinal \<Longrightarrow> \<forall>j\<in>set ids. v j \<noteq> None"
        "isFinal \<longrightarrow> \<not> containsChunk"
        "\<not> isFinal \<longrightarrow> validateNewUploadLengthHeaders h (req_header r ''Upload-Length'') (req_header r ''Upload-Defer-Length'') = Inr (t, df)"
        by auto
      have both: "created_post v r (if isFinal then ids else []) (IsFinal (?info t df)) res (w_store w') \<and>
          (\<forall>cr. res = Inr cr \<longrightarrow> cr_size cr = Size (?info t df) \<and> cr_deferred cr = SizeIsDeferred (?info t df))"
        by (rule create_upload_spec [OF w1(1) _ _ _ _ cu]) (use w1(2) in \<open>auto simp: emptyFileInfo_def\<close>)
      have cp: "created_post v r ids isFinal res (w_store w')"
        using conjunct1 [OF both] by (cases isFinal) simp_all
      show ?thesis
        by (rule conjI [OF cp]) (use conjunct2 [OF both] w1(3,4) in auto)
    qed
  qed
  show "sinv (w_store w') \<and> untouched v (view (w_store w'))"
    using failed main by (cases ?pc) force+
  show "\<exists>x. ?pc = Inr x" if "res = Inr cr" using failed that by (cases ?pc) auto
  show "created_post v r ids isFinal res (w_store w') \<and> (isFinal \<longrightarrow> \<not> containsChunk) \<and>
     (\<not> isFinal \<longrightarrow> validateNewUploadLengthHeaders h (req_header r ''Upload-Length'') (req_header r ''Upload-Defer-Length'')
        = Inr (cr_size cr, cr_deferred cr))"
    if "res = Inr cr" "?pc = Inr (isPartial, isFinal, ids)"
    using main [OF that(2)] that(1) by simp
qed

lemma draft_info_fields:
  "draft_info h r = Inr info \<Longrightarrow> ID info = [] \<and> Storage info = [] \<and> Offset info = 0"
  by (auto simp: draft_info_def emptyFileInfo_def Let_def split: sum.splits prod.splits if_splits)

lemma draft_create_spec:
  assumes w: "stays v (w_store w)" "new_ok c (w_store w)"
    and run: "run_state (draft_create h c r) w = (res, w')"
  shows "\<exists>info0. started v [] [] info0 (case res of Inl e \<Rightarrow> Inl e | Inr (resp, u, info) \<Rightarrow> Inr (info, u)) (w_store w')"
proof (cases "draft_info h r")
  case (Inl e)
  with run w show ?thesis by (auto simp: draft_create_def)
next
  case (Inr info0)
  note f0 = draft_info_fields [OF Inr]
  let ?resp = "emptyResponse\<lparr>StatusCode := 201\<rparr>"
  obtain r1 w1 where pc: "run_state (pre_create h c info0 ?resp) w = (r1, w1)" by force
  note f1 = pre_create_facts [OF pc]
  show ?thesis
  proof (cases r1)
    case (Inl e)
    with run pc f1(1) w Inr show ?thesis by (auto simp: draft_create_def)
  next
    case r1: (Inr x)
    obtain info resp where x: "x = (info, resp)" by force
    have fresh: "fresh info (w_store w)"
      using new_okD [of c "w_store w" info0 ?resp w info resp w1] w f0 pc r1 x by simp
    have off: "Offset info = 0" using f1(2) r1 x f0 by (auto simp: core_eq_def)
    obtain r2 w2 where su: "run_state (start_upload h info) w = (r2, w2)" by force
    note started = start_upload_spec [OF w(1) fresh off list_all2_Nil [THEN iffD2, OF refl] su]
    have "w_store w' = w_store w2" "(case res of Inl e \<Rightarrow> Inl e | Inr (resp, u, info) \<Rightarrow> Inr (info, u)) = r2"
      using run Inr pc f1(1) r1 x su
      by (auto simp: draft_create_def Let_def notify_created_def split: sum.splits if_splits)
    with started show ?thesis by auto
  qed
qed

text \<open>
  A POST request, whatever its outcome, leaves every upload that was there as it was.
\<close>

abbreviation posted :: "uploads \<Rightarrow> 's \<Rightarrow> bool" where
  "posted v s \<equiv> sinv s \<and> untouched v (view s)"

lemma untouched_later:
  assumes "v i = None" "\<And>j. same i j \<Longrightarrow> v j = v i" "frame same i v v1" "frame same i v1 v2"
  shows "untouched v v2"
  by (rule untouched_frame [of v i, OF assms(1,2) frame_trans [OF assms(3,4)]])

lemma chunk_created:
  assumes w1: "sinv (w_store w1)" "v i = None" "\<And>j. same i j \<Longrightarrow> v j = v i" "frame same i v (view (w_store w1))"
      "handle u (w_store w1) i" "view (w_store w1) i = Some (info0, [])" "core_eq info info0"
    and bound: "int (length (request_bytes c)) \<le> MaxInt64"
  shows "triple (\<lambda>w. w = w1) (writeChunk h c resp u info) (\<lambda>_ w. posted v (w_store w))"
    "triple (\<lambda>w. w = w1) (bindE (writeChunk h c resp u info) (complete_deferred h c r info)) (\<lambda>_ w. posted v (w_store w))"
proof -
  have off: "Offset info0 = int (length ([] :: bytes))" using view_offset [OF w1(1,6)] .
  obtain k where "reader_data (chunk_reader h c info) = take k (request_bytes c)" using reader_data_prefix by blast
  then have bound': "int (length ([] :: bytes)) + int (length (reader_data (chunk_reader h c info))) \<le> MaxInt64"
    using bound by simp
  have post: "posted v (w_store w)"
    if "sinv (w_store w)" "frame same i (view (w_store w1)) (view (w_store w))" for w :: "('s, 'l) world"
    using that untouched_later [OF w1(2,3,4) that(2)] by simp
  show "triple (\<lambda>w. w = w1) (writeChunk h c resp u info) (\<lambda>_ w. posted v (w_store w))"
    by (rule triple_weaken [OF writeChunk_spec [OF w1(7) off bound', of "view (w_store w1)" u i resp]])
      (use w1 post in auto)
  show "triple (\<lambda>w. w = w1) (bindE (writeChunk h c resp u info) (complete_deferred h c r info)) (\<lambda>_ w. posted v (w_store w))"
    by (rule triple_weaken [OF write_and_complete_spec [OF w1(1) frame_refl w1(5,6,7) kind_kept_refl]])
      (use bound post in auto)
qed

lemma PostFileV2_spec:
  assumes bound: "int (length (request_bytes c)) \<le> MaxInt64"
  shows "triple (\<lambda>w. stays v (w_store w) \<and> new_ok c (w_store w)) (PostFileV2 h c r) (\<lambda>_ w. posted v (w_store w))"
proof (rule triple_pre)
  fix w :: "('s, 'l) world" assume w: "stays v (w_store w) \<and> new_ok c (w_store w)"
  obtain p w1 where dc: "run_state (draft_create h c r) w = (p, w1)" by force
  from draft_create_spec [OF _ _ dc] w obtain info0 where
    st: "started v [] [] info0 (case p of Inl e \<Rightarrow> Inl e | Inr (resp, u, info) \<Rightarrow> Inr (info, u)) (w_store w1)" by blast
  have same: "v j = v i" if "same i j" for i j using w same_view [OF that] by auto
  let ?s = "w_store w1"
  have "triple (\<lambda>w. w_store w = ?s) (case p of
            Inl e \<Rightarrow> fail_request c e
          | Inr (resp, u, info) \<Rightarrow>
              withLock h c (ID info)
                (respond c (bindE (writeChunk h c resp u info) (complete_deferred h c r info))))
      (\<lambda>_ w. posted v (w_store w))"
  proof (cases p)
    case (Inl e)
    with st show ?thesis by (auto intro!: triple_fail_request)
  next
    case (Inr x)
    obtain resp u info where x: "x = (resp, u, info)" by (metis surj_pair)
    from st Inr x obtain info' where i: "v (ID info) = None" "frame same (ID info) v (view ?s)" "handle u ?s (ID info)"
      "view ?s (ID info) = Some (info', [])" "core_eq info info'" "sinv ?s" "untouched v (view ?s)" by auto
    have work: "triple (\<lambda>w. w_store w = ?s) (bindE (writeChunk h c resp u info) (complete_deferred h c r info))
        (\<lambda>_ w. posted v (w_store w))"
      by (rule triple_pre, rule chunk_created(2) [of _ v "ID info" u info', OF _ i(1) same _ _ _ i(5) bound])
        (use i in simp_all)
    show ?thesis
      unfolding Inr x sum.case prod.case
      by (intro triple_withLock triple_respond work) (use i in auto)
  qed
  then show "triple (\<lambda>v. v = w) (PostFileV2 h c r) (\<lambda>_ w. posted v (w_store w))"
    unfolding PostFileV2_def triple_def using dc by auto
qed

lemma PostFile_spec:
  assumes bound: "int (length (request_bytes c)) \<le> MaxInt64"
  shows "triple (\<lambda>w. stays v (w_store w) \<and> new_ok c (w_store w)) (PostFile h c r) (\<lambda>_ w. posted v (w_store w))"
  unfolding PostFile_def Let_def
proof (rule triple_if [OF PostFileV2_spec [OF bound]], rule triple_pre)
  let ?chunk = "req_header r ''Content-Type'' = ''application/offset+octet-stream''"
  fix w :: "('s, 'l) world" assume w: "stays v (w_store w) \<and> new_ok c (w_store w)"
  obtain p w1 where pc: "run_state (post_create h c r ?chunk) w = (p, w1)" by force
  note spec = post_create_spec [OF conjunct1 [OF w] conjunct2 [OF w] pc]
  have same: "v j = v i" if "same i j" for i j using w same_view [OF that] by auto
  let ?s = "w_store w1"
  let ?next = "\<lambda>cr. if ?chunk then
      withLock h c (ID (cr_info cr))
        (respond c (bindE (writeChunk h c (cr_resp cr) (cr_upload cr) (cr_info cr)) (\<lambda>(resp, u). okE resp)))
    else if \<not> cr_deferred cr \<and> cr_size cr = 0 then
      respond c (bindE (finishUploadIfComplete h c (cr_resp cr) (cr_upload cr) (cr_info cr)) (\<lambda>(resp, u). okE resp))
    else sendResp (cr_resp cr)"
  have "triple (\<lambda>w. w_store w = ?s) (?next cr) (\<lambda>_ w. posted v (w_store w))" if "p = Inr cr" for cr
  proof -
    from spec(2) [OF that] obtain isPartial isFinal ids where
      "parseConcat (if UsesConcater (composer h) then req_header r ''Upload-Concat'' else []) (basePath h) = Inr (isPartial, isFinal, ids)"
      by (metis surj_pair)
    from spec(3) [OF that this] have cp: "created_post v r ids isFinal p ?s" "isFinal \<longrightarrow> \<not> ?chunk" by blast+
    let ?i = "ID (cr_info cr)"
    from cp that obtain info' content where i: "v ?i = None" "frame same ?i v (view ?s)" "owner (cr_upload cr) ?i"
      "view ?s ?i = Some (info', content)" "sinv ?s" "untouched v (view ?s)"
      and open_upload: "\<not> isFinal \<Longrightarrow> handle (cr_upload cr) ?s ?i \<and> core_eq (cr_info cr) info' \<and> content = []" by auto
    have chunk: "triple (\<lambda>w. w_store w = ?s)
        (bindE (writeChunk h c (cr_resp cr) (cr_upload cr) (cr_info cr)) (\<lambda>(resp, u). okE resp)) (\<lambda>_ w. posted v (w_store w))"
      if "?chunk"
    proof (rule triple_pre)
      fix w2 :: "('s, 'l) world" assume w2: "w_store w2 = ?s"
      have "\<not> isFinal" using cp(2) that by blast
      note o = open_upload [OF this]
      show "triple (\<lambda>w. w = w2) (bindE (writeChunk h c (cr_resp cr) (cr_upload cr) (cr_info cr)) (\<lambda>(resp, u). okE resp))
          (\<lambda>_ w. posted v (w_store w))"
        by (rule triple_bindE [OF chunk_created(1) [of w2 v ?i _ info', OF _ i(1) same]])
          (use w2 o i bound in \<open>auto intro!: triple_okE split: prod.splits\<close>)
    qed
    have finish: "triple (\<lambda>w. w_store w = ?s)
        (bindE (finishUploadIfComplete h c (cr_resp cr) (cr_upload cr) (cr_info cr)) (\<lambda>(resp, u). okE resp)) (\<lambda>_ w. posted v (w_store w))"
      by (rule triple_bindE [OF triple_weaken_pre [OF finishUploadIfComplete_spec [of "view ?s" _ ?i False]]])
        (use i in \<open>auto intro!: triple_okE split: prod.splits\<close>)
    show ?thesis
      by (intro triple_if triple_withLock triple_respond chunk finish triple_sendResp) (use i in auto)
  qed
  moreover have "triple (\<lambda>w. w_store w = ?s) (fail_request c e) (\<lambda>_ w. posted v (w_store w))" for e
    using spec(1) by (intro triple_fail_request) auto
  ultimately have "triple (\<lambda>w. w_store w = ?s) (case p of Inl e \<Rightarrow> fail_request c e | Inr cr \<Rightarrow> ?next cr) (\<lambda>_ w. posted v (w_store w))"
    by (cases p) auto
  then show "triple (\<lambda>v. v = w) (do { p \<leftarrow> post_create h c r ?chunk;
       case p of Inl e \<Rightarrow> fail_request c e | Inr cr \<Rightarrow> ?next cr }) (\<lambda>_ w. posted v (w_store w))"
    unfolding triple_def using pc by auto
qed

text \<open>Every request, through the middleware and the routing.\<close>

lemma ServeHTTP_any:
  assumes bound: "\<And>j info0 c0. v j = Some (info0, c0) \<Longrightarrow>
      int (length c0) + int (length (request_bytes c)) \<le> MaxInt64" "int (length (request_bytes c)) \<le> MaxInt64"
  shows "triple (\<lambda>w. stays v (w_store w) \<and> (Method (override_method c) = ''POST'' \<longrightarrow> new_ok c (w_store w))) (ServeHTTP h c)
    (\<lambda>_ w. sinv (w_store w) \<and> (\<forall>j x. v j = Some x \<longrightarrow> advances (request_bytes c) x (view (w_store w) j)))"
proof (cases "Method (override_method c) = ''POST''")
  case False
  show ?thesis
    by (rule triple_weaken [OF ServeHTTP_spec [of v c, OF bound(1) False]])
      (auto simp: served_def split: option.splits)
next
  case True
  let ?r = "override_method c"
  let ?P = "\<lambda>w. stays v (w_store w) \<and> new_ok c (w_store w)"
  have quiet: "triple ?P (on_res f) (\<lambda>_. ?P)" "triple ?P (count g) (\<lambda>_. ?P)"
    "triple ?P (State_Monad.return ()) (\<lambda>_. ?P)" for f g
    by (auto intro!: tripleI)
  have keep: "triple ?P m (\<lambda>_ w. posted v (w_store w))" if "triple ?P m (\<lambda>_. ?P)" for m :: "(('s, 'l) world, unit) state"
    by (rule triple_weaken [OF that]) auto
  have mux: "triple ?P (mux h c ?r) (\<lambda>_ w. posted v (w_store w))"
    unfolding mux_def Let_def method_not_allowed_def
    by (intro triple_if PostFile_spec [OF bound(2)] keep [OF quiet(1)]) (use True in auto)
  have "triple ?P (ServeHTTP h c) (\<lambda>_ w. posted v (w_store w))"
    unfolding ServeHTTP_def Middleware_def Let_def
    by (rule triple_bind [OF quiet(2)])
      (intro triple_case_option triple_if triple_fail_request triple_sendError mux
        triple_bind [where R = "\<lambda>_. ?P"] quiet triple_sendResp; simp)
  then show ?thesis
    by (rule triple_weaken) (use True in \<open>auto simp: untouched_def\<close>)
qed

end

section \<open>The file store\<close>

lemma fs_handle_stored_eq:
  "stored store m' i = stored store m i \<Longrightarrow> fs_handle store u m' i = fs_handle store u m i"
  by (simp add: fs_handle_def)

lemma fs_GetUpload_rand:
  "fs_GetUpload store i s = (r, s') \<Longrightarrow> fs_rand s' = fs_rand s \<and> fs_drawn s' = fs_drawn s"
  by (auto simp: fs_GetUpload_def os_ReadFile_def os_open_def os_Stat_def tick_def
      split: option.splits sum.splits if_splits prod.splits)

interpretation file_maker: creating_store "fileStore store" "fs_sinv store"
  "\<lambda>s. fs_view store (files_of s)" "\<lambda>u s i. fs_handle store u (files_of s) i" "fs_owner store"
  "fs_same store" fs_Terminate fs_DeclareLength "file_handler serve store locker cfg" "fs_fresh store" fs_ConcatUploads
  for store serve locker cfg
proof
  show "(fs_handle store v (files_of s) j \<longrightarrow> fs_handle store v (files_of s') j) \<and>
      (fs_fresh store info s \<longrightarrow> fs_fresh store info s')"
    if "fs_sinv store s" "GetUpload (fileStore store) i s = (r, s')" for s i r s' v j info
  proof -
    have g: "fs_GetUpload store i s = (r, s')" using that(2) by (simp add: fileStore_def)
    note q = fs_GetUpload_facts(1) [OF that(1) g]
    have "new_id info s' = new_id info s" using fs_GetUpload_rand [OF g] by (simp add: new_id_def)
    with q free_paths_quiet [OF q] show ?thesis by (simp add: fs_fresh_def quiet_def)
  qed
  show "(fs_handle store v (files_of s) j \<longrightarrow> fs_handle store v (files_of s') j) \<and>
      (fs_fresh store info s \<longrightarrow> fs_fresh store info s')"
    if "GetInfo (fileStore store) u s = (ri, u', s')" for s u ri u' s' v j info
    using that by (simp add: fileStore_def fs_GetInfo_def)
  show "fs_sinv store s' \<and> (\<forall>v j. fs_handle store v (files_of s) j \<longrightarrow> fs_handle store v (files_of s') j) \<and>
      ((\<exists>e. r = Inl e \<and> fs_view store (files_of s') = fs_view store (files_of s)) \<or>
       (\<exists>i. fs_view store (files_of s) i = None \<and>
          frame (fs_same store) i (fs_view store (files_of s)) (fs_view store (files_of s')) \<and>
          (\<forall>u. r = Inr u \<longrightarrow> fs_handle store u (files_of s') i \<and>
             (\<exists>info'. fs_view store (files_of s') i = Some (info', []) \<and> core_eq info info') \<and>
             (\<forall>info1 u1 s1. GetInfo (fileStore store) u s' = (Inr info1, u1, s1) \<longrightarrow> ID info1 = i))))"
    if pre: "fs_sinv store s" "fs_fresh store info s" "Offset info = 0" "NewUpload (fileStore store) info s = (r, s')"
    for s info r s'
  proof -
    have run: "fs_NewUpload store info s = (r, s')" using pre(4) by (simp add: fileStore_def)
    from fs_NewUpload_facts [OF pre(1-3) run] show ?thesis
    proof (elim conjE disjE exE)
      fix i
      assume i: "fs_sinv store s'" "fs_view store (files_of s) i = None"
        "\<forall>j. infoPath store j \<noteq> infoPath store i \<longrightarrow> stored store (files_of s') j = stored store (files_of s) j"
        "\<forall>u. r = Inr u \<longrightarrow> u = newFileUpload store (info\<lparr>ID := i\<rparr>) \<and> fs_handle store u (files_of s') i \<and>
           fs_view store (files_of s') i = Some (json_norm (fu_info u), [])"
      have "frame (fs_same store) i (fs_view store (files_of s)) (fs_view store (files_of s'))"
        using i(3) by (simp add: frame_def fs_same_def fs_view_def)
      moreover have "fs_handle store v (files_of s') j" if h: "fs_handle store v (files_of s) j" for v j
      proof -
        have "infoPath store j \<noteq> infoPath store i"
          using i(2) fs_view_stored stored_same [of store j i "files_of s"] h
          unfolding fs_handle_def by fastforce
        with i(3) h show ?thesis using fs_handle_stored_eq by blast
      qed
      moreover have "core_eq info (json_norm (fu_info (newFileUpload store (info\<lparr>ID := i\<rparr>))))"
        by (simp add: core_eq_def)
      ultimately show ?thesis using i by (auto simp: fileStore_def fs_GetInfo_def)
    qed auto
  qed
  show "fs_sinv store s' \<and> frame (fs_same store) i (fs_view store (files_of s)) (fs_view store (files_of s')) \<and>
      fs_owner store u' i \<and>
      (\<exists>m. fs_view store (files_of s') i =
          Some (info\<lparr>Offset := int (length c + length (take m (contents_of (fs_view store (files_of s)) js)))\<rparr>,
            c @ take m (contents_of (fs_view store (files_of s)) js)) \<and>
         (e = None \<longrightarrow> length (contents_of (fs_view store (files_of s)) js) \<le> m))"
    if "fs_sinv store s" "fs_handle store u (files_of s) i" "fs_view store (files_of s) i = Some (info, c)"
      "list_all2 (\<lambda>u j. fs_handle store u (files_of s) j \<and> \<not> fs_same store i j) us js"
      "fs_ConcatUploads u us s = (e, u', s')" for s u i info c us js e u' s'
    unfolding contents_of_def by (rule fs_ConcatUploads_facts [OF that])
qed auto

end
