(* ===== verification/Addressing.thy ===== *)
theory Addressing
  imports HeaderParsing
begin

text \<open>
  The way from the URL of an upload back to its identifier: what \<^verbatim>\<open>net/url\<close> and the \<^verbatim>\<open>ServeMux\<close> of
  \<^verbatim>\<open>net/http\<close> do to the path of a request before the handler sees it in \<^verbatim>\<open>r.URL.Path\<close>, and for which
  identifiers the URL that \<^verbatim>\<open>absFileURL\<close> prints leads back to the upload.
\<close>

section \<open>The path of a request\<close>

definition hex_value :: "char \<Rightarrow> nat option" where
  "hex_value c =
     (if is_digit c then Some (of_char c - 48)
      else if in_range c 97 102 then Some (of_char c - 87)
      else if in_range c 65 70 then Some (of_char c - 55)
      else None)"

text \<open>\<^verbatim>\<open>url.PathUnescape\<close>, as it is applied to the path of each request: \<open>None\<close> is an invalid escape.\<close>

fun PathUnescape :: "string \<Rightarrow> string option" where
  "PathUnescape [] = Some []"
| "PathUnescape (c # cs) =
     (if c = CHR ''%'' then
        (case cs of
           a # b # rest \<Rightarrow>
             (case (hex_value a, hex_value b) of
                (Some x, Some y) \<Rightarrow> map_option (Cons (char_of (16 * x + y))) (PathUnescape rest)
              | _ \<Rightarrow> None)
         | _ \<Rightarrow> None)
      else map_option (Cons c) (PathUnescape cs))"

text \<open>The target of a request for an absolute URL, without the query and the fragment.\<close>

definition url_path :: "string \<Rightarrow> string option" where
  "url_path url =
     (case Cut url ''://'' of
        None \<Rightarrow> None
      | Some (scheme, rest) \<Rightarrow>
          Some (takeWhile (\<lambda>c. c \<noteq> CHR ''?'' \<and> c \<noteq> CHR ''#'') (dropWhile (\<lambda>c. c \<noteq> CHR ''/'') rest)))"

text \<open>\<^verbatim>\<open>cleanPath\<close> of \<^verbatim>\<open>net/http\<close>. A request whose path is not clean is redirected to the clean one.\<close>

definition cleanPath :: "string \<Rightarrow> string" where
  "cleanPath p =
     (if p = [] then ''/''
      else
        (let p = (if HasPrefix p ''/'' then p else CHR ''/'' # p); np = Clean p
         in if HasSuffix p ''/'' \<and> np \<noteq> ''/'' then np @ ''/'' else np))"

text \<open>
  The path below the prefix that \<^verbatim>\<open>http.StripPrefix\<close> removes, if a request for this URL reaches the
  handler at all: no redirect, no invalid escape, and the prefix. Then the identifier in it.
\<close>

definition handler_path :: "string \<Rightarrow> string \<Rightarrow> string option" where
  "handler_path base url =
     (case url_path url of
        None \<Rightarrow> None
      | Some raw \<Rightarrow>
          if cleanPath raw \<noteq> raw then None
          else (case PathUnescape raw of
                  None \<Rightarrow> None
                | Some p \<Rightarrow> if HasPrefix p base then Some (drop (length base) p) else None))"

definition requested_id :: "string \<Rightarrow> string \<Rightarrow> string option" where
  "requested_id base url = map_option extractIDFromPath (handler_path base url)"

section \<open>Facts\<close>

lemma PathUnescape_plain: "CHR ''%'' \<notin> set s \<Longrightarrow> PathUnescape s = Some s"
  by (induction s) auto

lemma PathUnescape_append: "CHR ''%'' \<notin> set a \<Longrightarrow> PathUnescape (a @ b) = map_option ((@) a) (PathUnescape b)"
  by (cases "PathUnescape b"; induction a) auto

text \<open>Each escape that is decoded shortens the path.\<close>

lemma PathUnescape_length:
  "PathUnescape s = Some t \<Longrightarrow> length t \<le> length s \<and> (CHR ''%'' \<in> set s \<longrightarrow> length t < length s)"
proof (induction s arbitrary: t rule: length_induct)
  case (1 s)
  show ?case
  proof (cases "\<exists>cs. s = CHR ''%'' # cs")
    case True
    with 1(2) obtain a b rest x y where s: "s = CHR ''%'' # a # b # rest" "hex_value a = Some x" "hex_value b = Some y"
      by (auto split: list.splits option.splits)
    with 1(2) obtain u where "PathUnescape rest = Some u" "length t = Suc (length u)" by auto
    with 1(1) s(1) show ?thesis by (auto dest: spec [of _ rest])
  next
    case False
    show ?thesis
    proof (cases s)
      case (Cons c cs)
      with 1(2) False obtain u where "PathUnescape cs = Some u" "length t = Suc (length u)" "c \<noteq> CHR ''%''" by auto
      with 1(1) Cons show ?thesis by auto
    qed (use 1(2) in simp)
  qed
qed

lemma TrimChar_length: "length (TrimChar c s) \<le> length s"
proof -
  have "length (dropWhile P (rev (dropWhile P s))) \<le> length s" for P
    using length_dropWhile_le [of P "rev (dropWhile P s)"] length_dropWhile_le [of P s] by simp
  then show ?thesis by (simp add: TrimChar_def)
qed

text \<open>A segment that \<^verbatim>\<open>Clean\<close> keeps.\<close>

definition kept_segment :: "string \<Rightarrow> bool" where
  "kept_segment seg \<longleftrightarrow> seg \<noteq> [] \<and> seg \<noteq> ''.'' \<and> seg \<noteq> ''..''"

lemma clean_kept:
  "list_all kept_segment xs \<Longrightarrow> foldl (clean_step True) st xs = rev xs @ st"
  by (induction xs arbitrary: st) (auto simp: kept_segment_def)

lemma clean_length:
  "''..'' \<notin> set st \<Longrightarrow> length (foldl (clean_step True) st xs) \<le> length st + length (filter kept_segment xs)"
proof (induction xs arbitrary: st)
  case (Cons x xs)
  have "''..'' \<notin> set (clean_step True st x)" using Cons.prems by (cases st) auto
  moreover have "length (clean_step True st x) \<le> (if kept_segment x then Suc (length st) else length st)"
    using Cons.prems by (cases st) (auto simp: kept_segment_def)
  ultimately show ?case using Cons.IH [of "clean_step True st x"] by (auto simp del: clean_step.simps split: if_splits)
qed simp

lemma clean_parts: "set (foldl (clean_step True) st xs) \<subseteq> set st \<union> set xs"
proof (induction xs arbitrary: st)
  case (Cons x xs)
  have "set (clean_step True st x) \<subseteq> set st \<union> {x}" by (auto split: list.splits if_splits)
  with Cons [of "clean_step True st x"] show ?case by (auto simp del: clean_step.simps)
qed simp

text \<open>A rooted path is clean exactly when it keeps all its segments.\<close>

lemma Clean_rooted:
  assumes "xs \<noteq> []" "\<forall>x \<in> set xs. CHR ''/'' \<notin> set x" "xs \<noteq> [[]]"
  shows "Clean (CHR ''/'' # Join ''/'' xs) = CHR ''/'' # Join ''/'' xs \<longleftrightarrow> list_all kept_segment xs"
proof -
  let ?st = "foldl (clean_step True) [] xs"
  have split: "Split (CHR ''/'') (CHR ''/'' # Join ''/'' xs) = [] # xs"
    using Split_Join [OF assms(1,2)] by simp
  have clean: "Clean (CHR ''/'' # Join ''/'' xs) = CHR ''/'' # Join ''/'' (rev ?st)"
    unfolding Clean_def split by (simp add: Let_def)
  show ?thesis
  proof
    assume "list_all kept_segment xs"
    then show "Clean (CHR ''/'' # Join ''/'' xs) = CHR ''/'' # Join ''/'' xs"
      using clean_kept [of xs "[]"] clean by simp
  next
    assume "Clean (CHR ''/'' # Join ''/'' xs) = CHR ''/'' # Join ''/'' xs"
    with clean have eq: "Join ''/'' (rev ?st) = Join ''/'' xs" by simp
    have "?st = [] \<or> rev ?st = xs"
    proof (cases "?st = []")
      case False
      have "\<forall>x \<in> set (rev ?st). CHR ''/'' \<notin> set x" using clean_parts [of "[]" xs] assms(2) by auto
      with Split_Join [of "rev ?st" "CHR ''/''"] Split_Join [OF assms(1,2)] eq False show ?thesis by simp
    qed simp
    moreover have "?st \<noteq> []"
    proof
      assume "?st = []"
      with eq have "Join ''/'' xs = []" by simp
      with Split_Join [OF assms(1,2)] assms(3) show False by simp
    qed
    ultimately have "length xs = length ?st" by (metis length_rev)
    with clean_length [of "[]" xs] have "length xs \<le> length (filter kept_segment xs)" by simp
    then show "list_all kept_segment xs"
      by (metis filter_True filter_id_conv length_filter_less list_all_iff not_le)
  qed
qed

lemma Join_segments:
  "ys \<noteq> [] \<Longrightarrow> Join ''/'' (xs @ ys) = concat (map (\<lambda>x. x @ ''/'') xs) @ Join ''/'' ys"
proof (induction xs)
  case (Cons x xs)
  then obtain z zs where "xs @ ys = z # zs" by (cases "xs @ ys") auto
  with Cons show ?case by simp
qed simp

text \<open>
  The base path of a server: clean, with a slash at both ends, and without escapes.
\<close>

definition plain_base :: "string list \<Rightarrow> bool" where
  "plain_base segs \<longleftrightarrow>
     list_all (\<lambda>seg. kept_segment seg \<and> list_all (\<lambda>c. c \<notin> {CHR ''/'', CHR ''%'', CHR ''?'', CHR ''#''}) seg) segs"

definition base_path :: "string list \<Rightarrow> string" where
  "base_path segs = CHR ''/'' # concat (map (\<lambda>seg. seg @ ''/'') segs)"

lemma plain_base_chars:
  assumes "plain_base segs" "c \<in> set (base_path segs)"
  shows "c \<noteq> CHR ''%'' \<and> c \<noteq> CHR ''?'' \<and> c \<noteq> CHR ''#''"
proof (cases "c = CHR ''/''")
  case False
  with assms(2) obtain seg where "seg \<in> set segs" "c \<in> set seg" by (auto simp: base_path_def split: if_splits)
  with assms(1) show ?thesis unfolding plain_base_def list_all_iff by blast
qed simp

lemma cleanPath_upload:
  assumes "plain_base segs" "i \<noteq> []" "\<not> HasPrefix i ''/''" "\<not> HasSuffix i ''/''"
  shows "cleanPath (base_path segs @ i) = base_path segs @ i \<longleftrightarrow> list_all kept_segment (Split (CHR ''/'') i)"
proof -
  let ?xs = "segs @ Split (CHR ''/'') i"
  have p: "base_path segs @ i = CHR ''/'' # Join ''/'' ?xs"
    by (simp add: base_path_def Join_segments Join_Split)
  have "\<forall>x \<in> set ?xs. CHR ''/'' \<notin> set x"
    using assms(1) Split_parts [of _ "CHR ''/''" i] by (auto simp: plain_base_def list_all_iff)
  moreover have "?xs \<noteq> [[]]"
  proof
    assume "?xs = [[]]"
    then have "Split (CHR ''/'') i = [[]]" by (cases segs) auto
    with Join_Split [of "CHR ''/''" i] assms(2) show False by simp
  qed
  ultimately have "Clean (base_path segs @ i) = base_path segs @ i \<longleftrightarrow> list_all kept_segment ?xs"
    unfolding p by (intro Clean_rooted) simp_all
  moreover have "\<not> HasSuffix (base_path segs @ i) ''/''" "HasPrefix (base_path segs @ i) ''/''"
    using assms(2,4) by (simp_all add: HasSuffix_char HasPrefix_def base_path_def)
  moreover have "list_all kept_segment segs" using assms(1) by (simp add: plain_base_def list_all_iff)
  ultimately show ?thesis
    by (simp add: cleanPath_def Let_def base_path_def)
qed

text \<open>The URL of an upload has the base path and the identifier as its path.\<close>

lemma url_path_upload:
  assumes "proto = ''http'' \<or> proto = ''https''" "CHR ''/'' \<notin> set host" "plain_base segs" "list_all valid_id_char i"
  shows "url_path (proto @ ''://'' @ host @ base_path segs @ i) = Some (base_path segs @ i)"
proof -
  have "Cut (proto @ ''://'' @ x) ''://'' = Some (proto, x)" for x using assms(1) by (auto simp: prefix_def)
  moreover have "dropWhile (\<lambda>c. c \<noteq> CHR ''/'') (host @ base_path segs @ i) = base_path segs @ i"
    using assms(2) by (induction host) (auto simp: base_path_def)
  moreover have "takeWhile (\<lambda>c. c \<noteq> CHR ''?'' \<and> c \<noteq> CHR ''#'') (base_path segs @ i) = base_path segs @ i"
  proof (intro takeWhile_eq_all_conv [THEN iffD2] ballI)
    fix c assume "c \<in> set (base_path segs @ i)"
    then have "c \<in> set (base_path segs) \<or> valid_id_char c" using assms(4) by (auto simp: list_all_iff)
    moreover have "\<not> valid_id_char (CHR ''?'')" "\<not> valid_id_char (CHR ''#'')" by code_simp+
    ultimately show "c \<noteq> CHR ''?'' \<and> c \<noteq> CHR ''#''"
      using plain_base_chars [OF assms(3), of c] by metis
  qed
  ultimately show ?thesis by (simp add: url_path_def)
qed

lemma handler_path_upload:
  assumes "proto = ''http'' \<or> proto = ''https''" "CHR ''/'' \<notin> set host" "plain_base segs" "validateUploadId i = None" "i \<noteq> []"
  shows "handler_path (base_path segs) (proto @ ''://'' @ host @ base_path segs @ i) =
    (if list_all kept_segment (Split (CHR ''/'') i) then PathUnescape i else None)"
proof -
  have i: "\<not> HasPrefix i ''/''" "\<not> HasSuffix i ''/''" "list_all valid_id_char i"
    using assms(4,5) by (auto simp: validateUploadId_def split: if_splits)
  have "CHR ''%'' \<notin> set (base_path segs)" using plain_base_chars [OF assms(3)] by blast
  from PathUnescape_append [OF this, of i] url_path_upload [OF assms(1-3) i(3)] cleanPath_upload [OF assms(3,5) i(1,2)]
  show ?thesis by (auto simp: handler_path_def HasPrefix_def split: option.splits)
qed

text \<open>
  Property C14. The URL that the handler prints for an upload leads back to it, for an identifier that
  \<^verbatim>\<open>validateUploadId\<close> accepts, exactly when the identifier has no percent sign and no part between slashes
  that is empty, \<open>.\<close> or \<open>..\<close>. Otherwise, although the identifier has been accepted, a request for its URL is
  refused, redirected or taken for one of an upload with a shorter identifier: the URL is not escaped when
  it is printed, but the path of a request is unescaped and cleaned before the handler sees it.
\<close>

theorem validated_id_is_addressable:
  assumes "validateUploadId i = None" "i \<noteq> []" "\<not> isBasePathAbs h" "basePath h = base_path segs" "plain_base segs"
    and "getHostAndProtocol r (RespectForwardedHeaders (config h)) = (host, proto)"
    and "proto = ''http'' \<or> proto = ''https''" "CHR ''/'' \<notin> set host"
  shows "(requested_id (basePath h) (absFileURL h r i) = Some i \<longleftrightarrow>
      CHR ''%'' \<notin> set i \<and> list_all kept_segment (Split (CHR ''/'') i)) \<and>
    (\<forall>j. requested_id (basePath h) (absFileURL h r i) = Some j \<longrightarrow> j = i \<or> length j < length i)"
proof -
  have url: "absFileURL h r i = proto @ ''://'' @ host @ base_path segs @ i"
    using assms(3,4,6) by (simp add: absFileURL_def)
  have req: "requested_id (basePath h) (absFileURL h r i) =
      (if list_all kept_segment (Split (CHR ''/'') i) then map_option extractIDFromPath (PathUnescape i) else None)"
    using handler_path_upload [OF assms(7,8,5,1,2)] by (simp add: requested_id_def url assms(4))
  show ?thesis
  proof (cases "CHR ''%'' \<in> set i")
    case True
    have "length j < length i" if "PathUnescape i = Some p" "j = extractIDFromPath p" for p j
      using PathUnescape_length [OF that(1)] True TrimChar_length [of "CHR ''/''" p] that(2) by (simp add: extractIDFromPath_def)
    with True show ?thesis unfolding req by (cases "PathUnescape i") auto
  next
    case False
    with PathUnescape_plain [OF this] validateUploadId_None(1) [OF assms(1)] show ?thesis unfolding req by simp
  qed
qed

definition demo_ids :: "string list" where
  "demo_ids = [''2024/a+b.c'', ''a%41'', ''a%2Fb'', ''100%'', ''a//b'', ''a/../b'']"

text \<open>Of these identifiers, all of which are accepted, the first alone is found again.\<close>

theorem validated_id_is_addressable_witness:
  "map validateUploadId demo_ids = replicate 6 None \<and>
   map (\<lambda>i. requested_id ''/files/'' (absFileURL (bare_handler ''/files/'' :: (unit, unit, unit, unit) UnroutedHandler)
      (plainRequest ''POST'' ''/files/'') i)) demo_ids = [Some ''2024/a+b.c'', Some ''aA'', Some ''a/b'', None, None, None] \<and>
   requested_id ''/files/'' (absFileURL (bare_handler ''/files/'' :: (unit, unit, unit, unit) UnroutedHandler)
      (plainRequest ''POST'' ''/files/'') ''a%41'') \<noteq> Some ''a%41''"
proof -
  let ?h = "bare_handler ''/files/'' :: (unit, unit, unit, unit) UnroutedHandler"
  have "map validateUploadId demo_ids = replicate 6 None" by code_simp
  moreover have "map (\<lambda>i. requested_id ''/files/'' (absFileURL ?h (plainRequest ''POST'' ''/files/'') i)) demo_ids =
    [Some ''2024/a+b.c'', Some ''aA'', Some ''a/b'', None, None, None]" by code_simp
  moreover have base: "plain_base [''files'']" "base_path [''files''] = ''/files/''" by code_simp+
  have "validateUploadId ''a%41'' = None" "CHR ''%'' \<in> set ''a%41''" by code_simp+
  with validated_id_is_addressable [of "''a%41''" ?h "[''files'']" "plainRequest ''POST'' ''/files/''" "''tus.io''" "''https''"] base
  have "requested_id ''/files/'' (absFileURL ?h (plainRequest ''POST'' ''/files/'') ''a%41'') \<noteq> Some ''a%41''"
    by (simp add: bare_handler_def plainRequest_def zeroConfig_def getHostAndProtocol_def)
  ultimately show ?thesis by blast
qed

end
