(* ===== verification/MemoryLocker.thy ===== *)
theory MemoryLocker
  imports Handler
begin

text \<open>
  The in-memory locker (\<^verbatim>\<open>pkg/memorylocker/memorylocker.go\<close>). The sections that the source
  protects by its mutex are functions on the lock table; the goroutines that run \<^verbatim>\<open>Lock\<close> and
  \<^verbatim>\<open>Unlock\<close> are threads of a step relation whose steps are those sections, the receive from
  the channel of a released lock, the end of a context and the close of the channel.
\<close>

section \<open>The lock table\<close>

text \<open>
  A channel is a number, and \<open>ch_closed\<close> lists the closed ones. The callback of a holder is the
  number of the goroutine that it cancels, and \<open>released\<close> lists the calls.
\<close>

record lockEntry =
  lockReleased :: nat
  requestRelease :: nat

record MemoryLocker =
  locks :: "lockEntry gomap"
  ch_made :: nat
  ch_closed :: "nat list"
  released :: "nat list"

definition NewMemoryLocker :: MemoryLocker where
  "NewMemoryLocker = \<lparr>locks = [], ch_made = 0, ch_closed = [], released = []\<rparr>"

record memoryLock =
  ml_id :: string

definition ml_NewLock :: "string \<Rightarrow> err + memoryLock" where
  "ml_NewLock i = Inr \<lparr>ml_id = i\<rparr>"

text \<open>The section under the read lock.\<close>

definition peek_entry :: "memoryLock \<Rightarrow> MemoryLocker \<Rightarrow> lockEntry option" where
  "peek_entry lock l = map_of (locks l) (ml_id lock)"

text \<open>The call of the callback of the current holder.\<close>

definition request_release :: "lockEntry \<Rightarrow> MemoryLocker \<Rightarrow> MemoryLocker" where
  "request_release entry l = l\<lparr>released := released l @ [requestRelease entry]\<rparr>"

text \<open>The section under the write lock: the entry that is there, or a new one is made.\<close>

definition try_entry :: "memoryLock \<Rightarrow> nat \<Rightarrow> MemoryLocker \<Rightarrow> lockEntry option \<times> MemoryLocker" where
  "try_entry lock caller l =
     (case map_of (locks l) (ml_id lock) of
        Some entry \<Rightarrow> (Some entry, l)
      | None \<Rightarrow>
          (None, l\<lparr>locks := map_set (ml_id lock) \<lparr>lockReleased = ch_made l, requestRelease = caller\<rparr> (locks l),
                   ch_made := Suc (ch_made l)\<rparr>))"

text \<open>\<^verbatim>\<open>Unlock\<close>: the entry is deleted under the lock, and its channel is closed afterwards.\<close>

definition delete_entry :: "memoryLock \<Rightarrow> MemoryLocker \<Rightarrow> nat option \<times> MemoryLocker" where
  "delete_entry lock l =
     (map_option lockReleased (map_of (locks l) (ml_id lock)), l\<lparr>locks := map_del (ml_id lock) (locks l)\<rparr>)"

definition close_channel :: "nat option \<Rightarrow> MemoryLocker \<Rightarrow> err option \<times> MemoryLocker" where
  "close_channel ch l =
     (case ch of
        None \<Rightarrow> (Some (Panic ''close of nil channel''), l)
      | Some n \<Rightarrow> if List.member (ch_closed l) n then (Some (Panic ''close of closed channel''), l)
                  else (None, l\<lparr>ch_closed := n # ch_closed l\<rparr>))"

definition ml_Unlock :: "memoryLock \<Rightarrow> MemoryLocker \<Rightarrow> err option \<times> MemoryLocker" where
  "ml_Unlock lock l = (case delete_entry lock l of (ch, l1) \<Rightarrow> close_channel ch l1)"

text \<open>
  \<^verbatim>\<open>Lock\<close> of one caller. What happens at each wait is given: the context ends, or the lock is
  released after other goroutines have changed the table. The context of a request ends at
  last, so an empty list stands for it.
\<close>

datatype wait_event = CtxDone | LockReleased "MemoryLocker \<Rightarrow> MemoryLocker"

fun lock_wait ::
  "memoryLock \<Rightarrow> nat \<Rightarrow> wait_event list \<Rightarrow> lockEntry \<Rightarrow> MemoryLocker \<Rightarrow> err option \<times> MemoryLocker" where
  "lock_wait lock caller [] entry l = (Some (TusError ErrLockTimeout), request_release entry l)"
| "lock_wait lock caller (CtxDone # es) entry l = (Some (TusError ErrLockTimeout), request_release entry l)"
| "lock_wait lock caller (LockReleased f # es) entry l =
     (case try_entry lock caller (f (request_release entry l)) of
        (None, l1) \<Rightarrow> (None, l1)
      | (Some entry', l1) \<Rightarrow> lock_wait lock caller es entry' l1)"

definition ml_Lock :: "nat \<Rightarrow> wait_event list \<Rightarrow> memoryLock \<Rightarrow> MemoryLocker \<Rightarrow> err option \<times> MemoryLocker" where
  "ml_Lock caller waits lock l =
     (case peek_entry lock l of
        Some entry \<Rightarrow> lock_wait lock caller waits entry l
      | None \<Rightarrow> (case try_entry lock caller l of
                    (None, l1) \<Rightarrow> (None, l1)
                  | (Some entry, l1) \<Rightarrow> lock_wait lock caller waits entry l1))"

text \<open>The locker as the handler of a request sees it, for a caller and what happens while it waits.\<close>

definition memoryLocker :: "nat \<Rightarrow> wait_event list \<Rightarrow> (MemoryLocker, memoryLock) LockerOps" where
  "memoryLocker caller waits = \<lparr>NewLock = ml_NewLock, Lock = ml_Lock caller waits, Unlock = ml_Unlock\<rparr>"

definition ml_UseIn ::
  "nat \<Rightarrow> wait_event list \<Rightarrow> ('s, 'u, MemoryLocker, memoryLock) StoreComposer \<Rightarrow>
     ('s, 'u, MemoryLocker, memoryLock) StoreComposer" where
  "ml_UseIn caller waits c = UseLocker (Some (memoryLocker caller waits)) c"

section \<open>Goroutines\<close>

text \<open>
  Where a goroutine is: it has not asked yet, it waits for the release of an entry, it is before
  the write lock, it holds the lock, it has given up, it is between the deletion and the close
  of the channel, it has crashed. All of them ask for the upload \<open>job t\<close>.
\<close>

datatype pc = Start | Waiting lockEntry | Before | Holding | TimedOut | Closing "nat option" | Crashed

record lock_state =
  table :: MemoryLocker
  pcs :: "nat \<Rightarrow> pc"

definition goto :: "nat \<Rightarrow> pc \<Rightarrow> MemoryLocker \<Rightarrow> lock_state \<Rightarrow> lock_state" where
  "goto t p l s = s\<lparr>table := l, pcs := (pcs s)(t := p)\<rparr>"

text \<open>After an entry has been seen its holder is asked to release the lock.\<close>

definition seen :: "nat \<Rightarrow> lockEntry option \<Rightarrow> MemoryLocker \<Rightarrow> lock_state \<Rightarrow> lock_state" where
  "seen t entry l s =
     (case entry of Some e \<Rightarrow> goto t (Waiting e) (request_release e l) s | None \<Rightarrow> goto t Before l s)"

inductive lock_step :: "(nat \<Rightarrow> memoryLock) \<Rightarrow> lock_state \<Rightarrow> lock_state \<Rightarrow> bool" for job where
  peek: "pcs s t = Start \<Longrightarrow> lock_step job s (seen t (peek_entry (job t) (table s)) (table s) s)"
| woken: "pcs s t = Waiting e \<Longrightarrow> List.member (ch_closed (table s)) (lockReleased e) \<Longrightarrow>
    lock_step job s (goto t Before (table s) s)"
| timeout: "pcs s t = Waiting e \<Longrightarrow> lock_step job s (goto t TimedOut (table s) s)"
| retry: "pcs s t = Before \<Longrightarrow> try_entry (job t) t (table s) = (Some e, l) \<Longrightarrow> lock_step job s (seen t (Some e) l s)"
| acquire: "pcs s t = Before \<Longrightarrow> try_entry (job t) t (table s) = (None, l) \<Longrightarrow> lock_step job s (goto t Holding l s)"
| unlock: "pcs s t = Holding \<Longrightarrow> delete_entry (job t) (table s) = (ch, l) \<Longrightarrow> lock_step job s (goto t (Closing ch) l s)"
| close: "pcs s t = Closing ch \<Longrightarrow> close_channel ch (table s) = (None, l) \<Longrightarrow> lock_step job s (goto t Start l s)"
| crash: "pcs s t = Closing ch \<Longrightarrow> close_channel ch (table s) = (Some e, l) \<Longrightarrow> lock_step job s (goto t Crashed l s)"

definition lock_init :: lock_state where
  "lock_init = \<lparr>table = NewMemoryLocker, pcs = (\<lambda>_. Start)\<rparr>"

section \<open>The invariant\<close>

text \<open>The goroutine \<open>t\<close> holds an entry of the table.\<close>

definition owns :: "(nat \<Rightarrow> memoryLock) \<Rightarrow> lock_state \<Rightarrow> nat \<Rightarrow> lockEntry \<Rightarrow> bool" where
  "owns job s t e \<longleftrightarrow> pcs s t = Holding \<and> map_of (locks (table s)) (ml_id (job t)) = Some e \<and> requestRelease e = t"

text \<open>Every entry belongs to a goroutine that holds the lock, and every holder has its entry.\<close>

definition holders_ok :: "(nat \<Rightarrow> memoryLock) \<Rightarrow> lock_state \<Rightarrow> bool" where
  "holders_ok job s \<longleftrightarrow>
     (\<forall>i e. map_of (locks (table s)) i = Some e \<longrightarrow> (\<exists>t. owns job s t e \<and> ml_id (job t) = i)) \<and>
     (\<forall>t. pcs s t = Holding \<longrightarrow> (\<exists>e. owns job s t e))"

text \<open>The channels of entries are made, open and different from each other.\<close>

definition entries_ok :: "lock_state \<Rightarrow> bool" where
  "entries_ok s \<longleftrightarrow>
     (\<forall>i e. map_of (locks (table s)) i = Some e \<longrightarrow>
        lockReleased e < ch_made (table s) \<and> lockReleased e \<notin> set (ch_closed (table s)) \<and>
        (\<forall>j e'. map_of (locks (table s)) j = Some e' \<longrightarrow> lockReleased e' = lockReleased e \<longrightarrow> j = i) \<and>
        (\<forall>t. pcs s t \<noteq> Closing (Some (lockReleased e)))) \<and>
     (\<forall>n\<in>set (ch_closed (table s)). n < ch_made (table s))"

text \<open>A goroutine that is about to close a channel has a made and open channel for itself.\<close>

definition closing_ok :: "lock_state \<Rightarrow> bool" where
  "closing_ok s \<longleftrightarrow>
     (\<forall>t ch. pcs s t = Closing ch \<longrightarrow> (\<exists>n. ch = Some n \<and> n < ch_made (table s) \<and> n \<notin> set (ch_closed (table s)) \<and>
        (\<forall>t'. pcs s t' = Closing (Some n) \<longrightarrow> t' = t))) \<and>
     (\<forall>t. pcs s t \<noteq> Crashed)"

text \<open>The entry for which a goroutine waits is in the table, about to be closed or closed.\<close>

definition waiting_ok :: "lock_state \<Rightarrow> bool" where
  "waiting_ok s \<longleftrightarrow>
     (\<forall>t e. pcs s t = Waiting e \<longrightarrow>
        (\<exists>i. map_of (locks (table s)) i = Some e) \<or> (\<exists>t'. pcs s t' = Closing (Some (lockReleased e))) \<or>
        lockReleased e \<in> set (ch_closed (table s)))"

definition lock_inv :: "(nat \<Rightarrow> memoryLock) \<Rightarrow> lock_state \<Rightarrow> bool" where
  "lock_inv job s \<longleftrightarrow> holders_ok job s \<and> entries_ok s \<and> closing_ok s \<and> waiting_ok s"

lemmas lock_inv_defs = holders_ok_def entries_ok_def closing_ok_def waiting_ok_def

lemma lock_inv_init: "lock_inv job lock_init"
  by (simp add: lock_inv_def lock_inv_defs lock_init_def NewMemoryLocker_def)

lemma map_del_of [simp]: "map_of (map_del k m) = (map_of m)(k := None)"
  by (simp add: map_del_def delete_conv')

lemma request_release_table [simp]:
  "locks (request_release e l) = locks l" "ch_made (request_release e l) = ch_made l"
  "ch_closed (request_release e l) = ch_closed l"
  by (simp_all add: request_release_def)

lemma goto_fields [simp]: "table (goto t p l s) = l" "pcs (goto t p l s) = (pcs s)(t := p)"
  by (simp_all add: goto_def)

text \<open>
  Steps that leave the table as it is, up to the calls of callbacks, and move a goroutine that
  neither holds nor closes.
\<close>

lemma lock_inv_move:
  assumes inv: "lock_inv job s" and tab: "locks l = locks (table s)" "ch_made l = ch_made (table s)" "ch_closed l = ch_closed (table s)"
    and leave: "pcs s t \<noteq> Holding" "\<forall>ch. pcs s t \<noteq> Closing ch"
    and enter: "p \<noteq> Holding" "\<forall>ch. p \<noteq> Closing ch" "p \<noteq> Crashed"
      "\<And>e. p = Waiting e \<Longrightarrow> (\<exists>i. map_of (locks (table s)) i = Some e)"
  shows "lock_inv job (goto t p l s)"
proof -
  have own: "owns job (goto t p l s) t' e = owns job s t' e" for t' e
    using leave enter tab by (auto simp: owns_def)
  have "holders_ok job (goto t p l s)" using inv tab enter by (auto simp: lock_inv_def holders_ok_def own)
  moreover have "entries_ok (goto t p l s)" using inv tab enter by (simp add: lock_inv_def entries_ok_def)
  moreover have "closing_ok (goto t p l s)" using inv tab enter unfolding lock_inv_def closing_ok_def by (simp, blast)
  moreover have "waiting_ok (goto t p l s)"
    using inv tab leave enter(4) unfolding lock_inv_def waiting_ok_def by (auto split: if_splits) (metis fun_upd_apply)+
  ultimately show ?thesis by (simp add: lock_inv_def)
qed

lemma lock_inv_seen:
  assumes "lock_inv job s" "pcs s t = Start \<or> pcs s t = Before" "\<And>e. entry = Some e \<Longrightarrow> \<exists>i. map_of (locks (table s)) i = Some e"
  shows "lock_inv job (seen t entry (table s) s)"
  using assms by (auto simp: seen_def intro!: lock_inv_move split: option.splits)

lemma lock_inv_acquire:
  assumes inv: "lock_inv job s" and t: "pcs s t = Before" and entry: "try_entry (job t) t (table s) = (None, l)"
  shows "lock_inv job (goto t Holding l s)"
proof -
  let ?e = "\<lparr>lockReleased = ch_made (table s), requestRelease = t\<rparr>"
  have free: "map_of (locks (table s)) (ml_id (job t)) = None" and l: "locks l = map_set (ml_id (job t)) ?e (locks (table s))"
    "ch_made l = Suc (ch_made (table s))" "ch_closed l = ch_closed (table s)"
    using entry by (auto simp: try_entry_def split: option.splits)
  let ?s = "goto t Holding l s"
  have own: "owns job ?s t' e" if "owns job s t' e" for t' e
    using that free t l by (auto simp: owns_def)
  have own_t: "owns job ?s t ?e" using l by (simp add: owns_def)
  have "holders_ok job ?s"
    using inv own own_t l t unfolding lock_inv_def holders_ok_def by (auto split: if_splits) blast+
  moreover have "entries_ok ?s"
    using inv l t unfolding lock_inv_def entries_ok_def closing_ok_def by (auto split: if_splits) (metis less_irrefl less_Suc_eq)+
  moreover have "closing_ok ?s"
    using inv l t unfolding lock_inv_def closing_ok_def by (auto split: if_splits) (metis less_Suc_eq)+
  moreover have "waiting_ok ?s"
    unfolding waiting_ok_def
  proof (intro allI impI)
    fix t' e assume "pcs ?s t' = Waiting e"
    then have "pcs s t' = Waiting e" by (simp split: if_splits)
    with inv consider (entry) i where "map_of (locks (table s)) i = Some e"
      | (closing) t'' where "pcs s t'' = Closing (Some (lockReleased e))" | (closed) "lockReleased e \<in> set (ch_closed (table s))"
      unfolding lock_inv_def waiting_ok_def by blast
    then show "(\<exists>i. map_of (locks (table ?s)) i = Some e) \<or> (\<exists>t'. pcs ?s t' = Closing (Some (lockReleased e))) \<or>
        lockReleased e \<in> set (ch_closed (table ?s))"
    proof cases
      case entry
      then have "map_of (locks (table ?s)) i = Some e" using l(1) free by auto
      then show ?thesis by blast
    next
      case closing
      then have "pcs ?s t'' = Closing (Some (lockReleased e))" using t by auto
      then show ?thesis by blast
    qed (use l in simp)
  qed
  ultimately show ?thesis by (simp add: lock_inv_def)
qed

lemma lock_inv_unlock:
  assumes inv: "lock_inv job s" and t: "pcs s t = Holding" and del: "delete_entry (job t) (table s) = (ch, l)"
  shows "lock_inv job (goto t (Closing ch) l s)"
proof -
  let ?s = "goto t (Closing ch) l s"
  from inv t obtain e where e: "map_of (locks (table s)) (ml_id (job t)) = Some e" "requestRelease e = t"
    unfolding lock_inv_def holders_ok_def owns_def by blast
  have ch: "ch = Some (lockReleased e)" and l: "map_of (locks l) = (map_of (locks (table s)))(ml_id (job t) := None)"
    "ch_made l = ch_made (table s)" "ch_closed l = ch_closed (table s)"
    using del e by (auto simp: delete_entry_def)
  from inv e have chan: "lockReleased e < ch_made (table s)" "lockReleased e \<notin> set (ch_closed (table s))"
    "\<And>j e'. map_of (locks (table s)) j = Some e' \<Longrightarrow> lockReleased e' = lockReleased e \<Longrightarrow> j = ml_id (job t)"
    "\<And>t'. pcs s t' \<noteq> Closing (Some (lockReleased e))"
    unfolding lock_inv_def entries_ok_def by blast+
  have other: "ml_id (job t') \<noteq> ml_id (job t)" if "pcs s t' = Holding" "t' \<noteq> t" for t'
  proof
    assume same: "ml_id (job t') = ml_id (job t)"
    from inv that(1) obtain e' where "map_of (locks (table s)) (ml_id (job t')) = Some e'" "requestRelease e' = t'"
      unfolding lock_inv_def holders_ok_def owns_def by blast
    with e same that(2) show False by simp
  qed
  have own: "owns job ?s t' e'" if "owns job s t' e'" "t' \<noteq> t" for t' e'
    using that l other by (auto simp: owns_def)
  have "holders_ok job ?s"
    unfolding holders_ok_def
  proof (intro conjI allI impI)
    fix i e' assume "map_of (locks (table ?s)) i = Some e'"
    with l have i: "map_of (locks (table s)) i = Some e'" "i \<noteq> ml_id (job t)" by (auto split: if_splits)
    with inv obtain t' where "owns job s t' e'" "ml_id (job t') = i" unfolding lock_inv_def holders_ok_def by blast
    with own [of t'] i(2) show "\<exists>t. owns job ?s t e' \<and> ml_id (job t) = i" by blast
  next
    fix t' assume "pcs ?s t' = Holding"
    then have "pcs s t' = Holding" "t' \<noteq> t" by (auto split: if_splits)
    with inv own show "\<exists>e. owns job ?s t' e" unfolding lock_inv_def holders_ok_def by blast
  qed
  moreover have "entries_ok ?s"
    using inv l ch chan unfolding lock_inv_def entries_ok_def by (auto split: if_splits)
  moreover have "closing_ok ?s"
    using inv l ch chan unfolding lock_inv_def closing_ok_def by simp blast
  moreover have "waiting_ok ?s"
    unfolding waiting_ok_def
  proof (intro allI impI)
    fix t' e' assume "pcs ?s t' = Waiting e'"
    then have "pcs s t' = Waiting e'" by (simp split: if_splits)
    with inv consider (entry) i where "map_of (locks (table s)) i = Some e'"
      | (closing) t'' where "pcs s t'' = Closing (Some (lockReleased e'))" | (closed) "lockReleased e' \<in> set (ch_closed (table s))"
      unfolding lock_inv_def waiting_ok_def by blast
    then show "(\<exists>i. map_of (locks (table ?s)) i = Some e') \<or> (\<exists>t'. pcs ?s t' = Closing (Some (lockReleased e'))) \<or>
        lockReleased e' \<in> set (ch_closed (table ?s))"
    proof cases
      case entry
      show ?thesis
      proof (cases "i = ml_id (job t)")
        case True
        with entry e ch have "pcs ?s t = Closing (Some (lockReleased e'))" by simp
        then show ?thesis by blast
      next
        case False
        with entry l(1) have "map_of (locks (table ?s)) i = Some e'" by auto
        then show ?thesis by blast
      qed
    next
      case closing
      then have "pcs ?s t'' = Closing (Some (lockReleased e'))" using t by auto
      then show ?thesis by blast
    qed (use l in simp)
  qed
  ultimately show ?thesis by (simp add: lock_inv_def)
qed

lemma lock_inv_close:
  assumes inv: "lock_inv job s" and t: "pcs s t = Closing ch" and cl: "close_channel ch (table s) = (x, l)"
  shows "x = None" "lock_inv job (goto t Start l s)"
proof -
  let ?s = "goto t Start l s"
  from inv t obtain n where n: "ch = Some n" "n < ch_made (table s)" "n \<notin> set (ch_closed (table s))"
    "\<And>t'. pcs s t' = Closing (Some n) \<Longrightarrow> t' = t" unfolding lock_inv_def closing_ok_def by blast
  have l: "locks l = locks (table s)" "ch_made l = ch_made (table s)" "ch_closed l = n # ch_closed (table s)" and x: "x = None"
    using cl n by (auto simp: close_channel_def)
  show "x = None" by (rule x)
  have own: "owns job ?s t' e = owns job s t' e" for t' e using t l by (auto simp: owns_def)
  have hold: "pcs ?s t' = Holding \<longleftrightarrow> pcs s t' = Holding" for t' using t by auto
  have "locks (table ?s) = locks (table s)" using l by simp
  then have "holders_ok job ?s" using inv unfolding lock_inv_def holders_ok_def own hold by simp
  moreover have "entries_ok ?s"
    unfolding entries_ok_def
  proof (intro conjI allI impI)
    fix i e assume "map_of (locks (table ?s)) i = Some e"
    with l have "map_of (locks (table s)) i = Some e" by simp
    with inv have e: "lockReleased e < ch_made (table s)" "lockReleased e \<notin> set (ch_closed (table s))"
      "\<And>j e'. map_of (locks (table s)) j = Some e' \<Longrightarrow> lockReleased e' = lockReleased e \<Longrightarrow> j = i"
      "\<And>t. pcs s t \<noteq> Closing (Some (lockReleased e))" unfolding lock_inv_def entries_ok_def by blast+
    then show "lockReleased e < ch_made (table ?s)" "\<And>t. pcs ?s t \<noteq> Closing (Some (lockReleased e))"
      "\<And>j e'. map_of (locks (table ?s)) j = Some e' \<Longrightarrow> lockReleased e' = lockReleased e \<Longrightarrow> j = i"
      using l by simp_all
    show "lockReleased e \<notin> set (ch_closed (table ?s))" using e(2) e(4) [of t] l t n(1) by auto
  next
    show "\<forall>k\<in>set (ch_closed (table ?s)). k < ch_made (table ?s)"
      using inv l n(2) unfolding lock_inv_def entries_ok_def by simp
  qed
  moreover have "closing_ok ?s"
    unfolding closing_ok_def
  proof (intro conjI allI impI)
    fix t' ch' assume "pcs ?s t' = Closing ch'"
    then have t': "pcs s t' = Closing ch'" "t' \<noteq> t" by (auto split: if_splits)
    with inv obtain k where k: "ch' = Some k" "k < ch_made (table s)" "k \<notin> set (ch_closed (table s))"
      "\<forall>t''. pcs s t'' = Closing (Some k) \<longrightarrow> t'' = t'" unfolding lock_inv_def closing_ok_def by blast
    have "k \<noteq> n" using t' k(1) n(4) by blast
    with k l have "ch' = Some k \<and> k < ch_made (table ?s) \<and> k \<notin> set (ch_closed (table ?s)) \<and>
        (\<forall>t''. pcs ?s t'' = Closing (Some k) \<longrightarrow> t'' = t')" by auto
    then show "\<exists>n. ch' = Some n \<and> n < ch_made (table ?s) \<and> n \<notin> set (ch_closed (table ?s)) \<and>
        (\<forall>t''. pcs ?s t'' = Closing (Some n) \<longrightarrow> t'' = t')" by blast
  next
    show "pcs ?s t' \<noteq> Crashed" for t' using inv unfolding lock_inv_def closing_ok_def by simp
  qed
  moreover have "waiting_ok ?s"
    unfolding waiting_ok_def
  proof (intro allI impI)
    fix t' e' assume "pcs ?s t' = Waiting e'"
    then have "pcs s t' = Waiting e'" by (simp split: if_splits)
    with inv consider (entry) i where "map_of (locks (table s)) i = Some e'"
      | (closing) t'' where "pcs s t'' = Closing (Some (lockReleased e'))" | (closed) "lockReleased e' \<in> set (ch_closed (table s))"
      unfolding lock_inv_def waiting_ok_def by blast
    then show "(\<exists>i. map_of (locks (table ?s)) i = Some e') \<or> (\<exists>t'. pcs ?s t' = Closing (Some (lockReleased e'))) \<or>
        lockReleased e' \<in> set (ch_closed (table ?s))"
    proof cases
      case closing
      show ?thesis
      proof (cases "t'' = t")
        case True
        with closing t n(1) have "lockReleased e' = n" by simp
        then show ?thesis using l(3) by simp
      next
        case False
        with closing have "pcs ?s t'' = Closing (Some (lockReleased e'))" by simp
        then show ?thesis by blast
      qed
    next
      case entry
      then have "map_of (locks (table ?s)) i = Some e'" using l by simp
      then show ?thesis by blast
    next
      case closed
      then show ?thesis using l by simp
    qed
  qed
  ultimately show "lock_inv job ?s" by (simp add: lock_inv_def)
qed

text \<open>The invariant holds in every state that the goroutines can reach.\<close>

lemma lock_step_inv: "lock_step job s s' \<Longrightarrow> lock_inv job s \<Longrightarrow> lock_inv job s'"
proof (induction rule: lock_step.induct)
  case (peek s t)
  then show ?case by (intro lock_inv_seen) (auto simp: peek_entry_def)
next
  case (retry s t e l)
  then have "l = table s" "map_of (locks (table s)) (ml_id (job t)) = Some e"
    by (auto simp: try_entry_def split: option.splits)
  with retry show ?case by (auto intro!: lock_inv_seen)
next
  case (crash s t ch e l)
  then show ?case using lock_inv_close(1) by blast
qed (auto intro: lock_inv_move lock_inv_acquire lock_inv_unlock lock_inv_close)

lemma lock_reachable_inv: "(lock_step job)\<^sup>*\<^sup>* lock_init s \<Longrightarrow> lock_inv job s"
  by (induction rule: rtranclp_induct) (auto intro: lock_inv_init lock_step_inv)

section \<open>Properties of the locker\<close>

text \<open>
  Property C9. Mutual exclusion: of all goroutines that ask for locks, in any interleaving, at
  most one holds the lock of an upload, and none crashes.
\<close>

theorem at_most_one_holder:
  assumes "(lock_step job)\<^sup>*\<^sup>* lock_init s"
  shows "(\<forall>t t'. pcs s t = Holding \<longrightarrow> pcs s t' = Holding \<longrightarrow> ml_id (job t) = ml_id (job t') \<longrightarrow> t = t') \<and>
    (\<forall>t. pcs s t \<noteq> Crashed)"
proof -
  note inv = lock_reachable_inv [OF assms]
  have "t = t'" if "pcs s t = Holding" "pcs s t' = Holding" "ml_id (job t) = ml_id (job t')" for t t'
  proof -
    from inv that(1,2) obtain e e' where "owns job s t e" "owns job s t' e'"
      unfolding lock_inv_def holders_ok_def by blast
    with that(3) show ?thesis by (auto simp: owns_def)
  qed
  with inv show ?thesis by (auto simp: lock_inv_def closing_ok_def)
qed

text \<open>Two goroutines that ask for the same upload: the first gets the lock, then the second waits.\<close>

definition demo_job :: "nat \<Rightarrow> memoryLock" where
  "demo_job t = \<lparr>ml_id = ''a''\<rparr>"

definition demo_entry :: lockEntry where
  "demo_entry = \<lparr>lockReleased = 0, requestRelease = 0\<rparr>"

definition demo_locked :: lock_state where
  "demo_locked = \<lparr>table = \<lparr>locks = [(''a'', demo_entry)], ch_made = 1, ch_closed = [], released = []\<rparr>,
     pcs = (\<lambda>_. Start)(0 := Holding)\<rparr>"

definition demo_waiting :: lock_state where
  "demo_waiting = goto 1 (Waiting demo_entry) (request_release demo_entry (table demo_locked)) demo_locked"

lemma demo_locked_run: "(lock_step demo_job)\<^sup>*\<^sup>* lock_init demo_locked"
proof -
  have "lock_step demo_job lock_init (seen 0 (peek_entry (demo_job 0) (table lock_init)) (table lock_init) lock_init)"
    by (rule peek) (simp add: lock_init_def)
  then have "lock_step demo_job lock_init (goto 0 Before NewMemoryLocker lock_init)"
    by (simp add: seen_def peek_entry_def lock_init_def NewMemoryLocker_def)
  moreover have "lock_step demo_job (goto 0 Before NewMemoryLocker lock_init)
      (goto 0 Holding (table demo_locked) (goto 0 Before NewMemoryLocker lock_init))"
    by (rule acquire) (simp_all add: try_entry_def NewMemoryLocker_def demo_job_def demo_locked_def demo_entry_def map_set_def)
  moreover have "goto 0 Holding (table demo_locked) (goto 0 Before NewMemoryLocker lock_init) = demo_locked"
    by (simp add: goto_def demo_locked_def lock_init_def)
  ultimately show ?thesis by (metis converse_rtranclp_into_rtranclp r_into_rtranclp)
qed

lemma demo_waiting_run: "(lock_step demo_job)\<^sup>*\<^sup>* lock_init demo_waiting"
proof -
  have "lock_step demo_job demo_locked (seen 1 (peek_entry (demo_job 1) (table demo_locked)) (table demo_locked) demo_locked)"
    by (rule peek) (simp add: demo_locked_def)
  then have "lock_step demo_job demo_locked demo_waiting"
    by (simp add: seen_def peek_entry_def demo_waiting_def demo_job_def demo_locked_def)
  with demo_locked_run show ?thesis by (rule rtranclp.rtrancl_into_rtrancl)
qed

theorem at_most_one_holder_witness:
  "{t. pcs demo_locked t = Holding} = {0} \<and> (\<forall>t. pcs demo_locked t \<noteq> Crashed)"
proof -
  have "pcs demo_locked 0 = Holding" by (simp add: demo_locked_def)
  moreover from this at_most_one_holder [OF demo_locked_run] have "t = 0" if "pcs demo_locked t = Holding" for t
    using that by (metis demo_job_def)
  ultimately show ?thesis using at_most_one_holder [OF demo_locked_run] by auto
qed

text \<open>
  Property C10. No wake-up is lost: while a goroutine waits for the release of a lock, the holder
  of that lock is there, and it is the one whose callback is registered, or the channel is
  closed, or a goroutine is just about to close it.
\<close>

theorem no_lost_wakeup:
  assumes "(lock_step job)\<^sup>*\<^sup>* lock_init s" "pcs s t = Waiting e"
  shows "pcs s (requestRelease e) = Holding \<and> (\<exists>i. map_of (locks (table s)) i = Some e) \<or>
    (\<exists>t' l. pcs s t' = Closing (Some (lockReleased e)) \<and> close_channel (Some (lockReleased e)) (table s) = (None, l)) \<or>
    List.member (ch_closed (table s)) (lockReleased e)"
proof -
  note inv = lock_reachable_inv [OF assms(1)]
  from inv assms(2) consider (entry) i where "map_of (locks (table s)) i = Some e"
    | (closing) t'' where "pcs s t'' = Closing (Some (lockReleased e))" | (closed) "lockReleased e \<in> set (ch_closed (table s))"
    unfolding lock_inv_def waiting_ok_def by blast
  then show ?thesis
  proof cases
    case entry
    with inv obtain t' where "owns job s t' e" unfolding lock_inv_def holders_ok_def by blast
    with entry show ?thesis by (auto simp: owns_def)
  next
    case closing
    with inv have "lockReleased e \<notin> set (ch_closed (table s))" unfolding lock_inv_def closing_ok_def by blast
    with closing show ?thesis by (auto simp: close_channel_def)
  qed simp
qed

theorem no_lost_wakeup_witness:
  "pcs demo_waiting 1 = Waiting demo_entry \<and> pcs demo_waiting (requestRelease demo_entry) = Holding"
proof -
  have "pcs demo_waiting 1 = Waiting demo_entry" by (simp add: demo_waiting_def)
  from no_lost_wakeup [OF demo_waiting_run this] this show ?thesis
    by (auto simp: demo_waiting_def demo_locked_def demo_entry_def split: if_splits)
qed

section \<open>Requests release their locks\<close>

text \<open>The contract of a locker: a lock is got only when it is free, and given back.\<close>

locale exclusive_locker =
  fixes ops :: "('l, 'k) LockerOps"
    and linv :: "'l \<Rightarrow> bool"
    and held :: "'l \<Rightarrow> string \<Rightarrow> bool"
    and key :: "'k \<Rightarrow> string"
  assumes NewLock_law: "NewLock ops i = Inr k \<Longrightarrow> key k = i"
    and Lock_law: "linv l \<Longrightarrow> Lock ops k l = (e, l') \<Longrightarrow> linv l' \<and>
      (if e = None then \<not> held l (key k) \<and> held l' = (held l)(key k := True) else held l' = held l)"
    and Unlock_law: "linv l \<Longrightarrow> held l (key k) \<Longrightarrow> Unlock ops k l = (e, l') \<Longrightarrow>
      linv l' \<and> e = None \<and> held l' = (held l)(key k := False)"
begin

text \<open>
  The work of a request runs while it holds the lock, and afterwards the same locks are held as
  before, whatever the work does short of touching the locks.
\<close>

lemma withLock_releases:
  fixes h :: "('s, 'u, 'l, 'k) UnroutedHandler" and m :: "(('s, 'l) world, unit) state"
  assumes locker: "Locker (composer h) = Some ops"
    and body: "\<And>l. keeps (\<lambda>w. w_locks w = l) m"
  shows "triple (\<lambda>w. linv (w_locks w) \<and> held (w_locks w) = H) (withLock h c i m)
    (\<lambda>_ w. linv (w_locks w) \<and> held (w_locks w) = H)"
proof (rule tripleI)
  fix w :: "('s, 'l) world" and u w'
  assume pre: "linv (w_locks w) \<and> held (w_locks w) = H" and run: "run_state (withLock h c i m) w = (u, w')"
  have fail: "w_locks (snd (run_state (fail_request c e) v)) = w_locks v" for e and v :: "('s, 'l) world"
    by (auto simp: fail_request_def sendError_def sendResp_def on_res_def count_def split: err.splits)
  show "linv (w_locks w') \<and> held (w_locks w') = H"
  proof (cases "UsesLocker (composer h)")
    case False
    with run have "run_state m w = (u, w')" by (simp add: withLock_def)
    from tripleD [OF body refl this] pre show ?thesis by simp
  next
    case uses: True
    obtain r w1 where lk: "run_state (lockUpload h i) w = (r, w1)" by force
    show ?thesis
    proof (cases r)
      case (Inl e)
      with run uses lk fail [of e w1] have "w_locks w' = w_locks w1" by (simp add: withLock_def)
      moreover have "linv (w_locks w1) \<and> held (w_locks w1) = H"
        using lk Inl pre locker Lock_law
        by (auto simp: lockUpload_def lock_op_def split: sum.splits option.splits prod.splits)
      ultimately show ?thesis by simp
    next
      case (Inr x)
      then obtain k where k: "x = (ops, k)" "NewLock ops i = Inr k" "Lock ops k (w_locks w) = (None, w_locks w1)"
        using lk locker by (auto simp: lockUpload_def lock_op_def split: sum.splits option.splits prod.splits)
      note ki = NewLock_law [OF k(2)]
      from Lock_law [OF _ k(3)] pre have l1: "linv (w_locks w1)" "held (w_locks w1) = H(i := True)" "\<not> H i"
        by (auto simp: ki)
      obtain u2 w2 where b: "run_state m w1 = (u2, w2)" by (metis surj_pair)
      from tripleD [OF body refl b] have w2: "w_locks w2 = w_locks w1" .
      obtain e l3 where un: "Unlock ops k (w_locks w1) = (e, l3)" by force
      from Unlock_law [OF l1(1) _ un] l1 have "linv l3" "held l3 = (H(i := True))(i := False)" by (auto simp: ki)
      moreover have "w_locks w' = l3"
        using run uses lk Inr k(1) b un w2 by (auto simp: withLock_def lock_op_def split: prod.splits)
      ultimately show ?thesis using l1(3) by (simp add: fun_upd_idem_iff)
    qed
  qed
qed

end

text \<open>The memory locker, for a caller that waits until its context ends.\<close>

definition ml_inv :: "MemoryLocker \<Rightarrow> bool" where
  "ml_inv l \<longleftrightarrow>
     (\<forall>i e. map_of (locks l) i = Some e \<longrightarrow> lockReleased e < ch_made l \<and> lockReleased e \<notin> set (ch_closed l) \<and>
        (\<forall>j e'. map_of (locks l) j = Some e' \<longrightarrow> lockReleased e' = lockReleased e \<longrightarrow> j = i)) \<and>
     (\<forall>n\<in>set (ch_closed l). n < ch_made l)"

definition ml_held :: "MemoryLocker \<Rightarrow> string \<Rightarrow> bool" where
  "ml_held l i \<longleftrightarrow> map_of (locks l) i \<noteq> None"

interpretation memory_locker: exclusive_locker "memoryLocker caller []" ml_inv ml_held ml_id for caller
proof
  show "ml_id k = i" if "NewLock (memoryLocker caller []) i = Inr k" for i k
    using that by (auto simp: memoryLocker_def ml_NewLock_def)
next
  fix l k e l'
  assume inv: "ml_inv l" and "Lock (memoryLocker caller []) k l = (e, l')"
  then have run: "ml_Lock caller [] k l = (e, l')" by (simp add: memoryLocker_def)
  show "ml_inv l' \<and> (if e = None then \<not> ml_held l (ml_id k) \<and> ml_held l' = (ml_held l)(ml_id k := True) else ml_held l' = ml_held l)"
  proof (cases "map_of (locks l) (ml_id k)")
    case (Some entry)
    with run have "e = Some (TusError ErrLockTimeout)" "l' = request_release entry l"
      by (auto simp: ml_Lock_def peek_entry_def)
    with inv show ?thesis by (simp add: ml_inv_def ml_held_def fun_eq_iff)
  next
    case None
    with run have e: "e = None" and l': "locks l' = map_set (ml_id k) \<lparr>lockReleased = ch_made l, requestRelease = caller\<rparr> (locks l)"
      "ch_made l' = Suc (ch_made l)" "ch_closed l' = ch_closed l"
      by (auto simp: ml_Lock_def peek_entry_def try_entry_def)
    have "ml_inv l'" using inv unfolding ml_inv_def l' by (auto split: if_splits simp: less_Suc_eq) (metis less_irrefl)+
    with e l'(1) None show ?thesis by (auto simp: ml_held_def fun_eq_iff)
  qed
next
  fix l k e l'
  assume inv: "ml_inv l" and held: "ml_held l (ml_id k)" and "Unlock (memoryLocker caller []) k l = (e, l')"
  then have run: "ml_Unlock k l = (e, l')" by (simp add: memoryLocker_def)
  from held obtain entry where entry: "map_of (locks l) (ml_id k) = Some entry" by (auto simp: ml_held_def)
  with inv have ch: "lockReleased entry < ch_made l" "lockReleased entry \<notin> set (ch_closed l)"
    "\<And>j e'. map_of (locks l) j = Some e' \<Longrightarrow> lockReleased e' = lockReleased entry \<Longrightarrow> j = ml_id k"
    unfolding ml_inv_def by blast+
  have e: "e = None" and l': "map_of (locks l') = (map_of (locks l))(ml_id k := None)" "ch_made l' = ch_made l"
    "ch_closed l' = lockReleased entry # ch_closed l"
    using run entry ch(2) by (auto simp: ml_Unlock_def delete_entry_def close_channel_def)
  have "ml_inv l'"
    unfolding ml_inv_def
  proof (intro conjI allI impI)
    fix i e assume "map_of (locks l') i = Some e"
    with l'(1) have i: "map_of (locks l) i = Some e" "i \<noteq> ml_id k" by (auto split: if_splits)
    with inv have "lockReleased e < ch_made l" "lockReleased e \<notin> set (ch_closed l)"
      and single: "\<And>j e'. map_of (locks l) j = Some e' \<Longrightarrow> lockReleased e' = lockReleased e \<Longrightarrow> j = i"
      unfolding ml_inv_def by blast+
    with ch(3) [OF i(1)] i(2) l' show "lockReleased e < ch_made l'" "lockReleased e \<notin> set (ch_closed l')" by auto
    show "j = i" if "map_of (locks l') j = Some e'" "lockReleased e' = lockReleased e" for j e'
      using single [of j e'] that l'(1) by (auto split: if_splits)
  next
    show "\<forall>n\<in>set (ch_closed l'). n < ch_made l'" using inv ch(1) l' unfolding ml_inv_def by simp
  qed
  with e l'(1) show "ml_inv l' \<and> e = None \<and> ml_held l' = (ml_held l)(ml_id k := False)"
    by (auto simp: ml_held_def fun_eq_iff)
qed

section \<open>The work of the handlers leaves the locks alone\<close>

lemma locks_kept [io_intros]:
  "keeps (\<lambda>w. w_locks w = l) (store_op f)" "keeps (\<lambda>w. w_locks w = l) (count g)"
  "keeps (\<lambda>w. w_locks w = l) (on_res k)" "keeps (\<lambda>w. w_locks w = l) (sendResp resp)"
  "keeps (\<lambda>w. w_locks w = l) (sendError c e)" "keeps (\<lambda>w. w_locks w = l) (fail_request c e)"
  "keeps (\<lambda>w. w_locks w = l) (unit_op u)"
  by (auto intro!: tripleI simp: store_op_def count_def on_res_def sendResp_def sendError_def fail_request_def unit_op_def
      split: prod.splits err.splits option.splits)

lemma locks_kept_modify [io_intros]:
  "(\<And>w. w_locks (f w) = w_locks w) \<Longrightarrow> keeps (\<lambda>w. w_locks w = l) (modify f)"
  by (rule tripleI) auto

lemma locks_kept_ops [io_intros]:
  "keeps (\<lambda>w. w_locks w = l) (core_GetUpload h i)" "keeps (\<lambda>w. w_locks w = l) (core_NewUpload h info)"
  "keeps (\<lambda>w. w_locks w = l) (upload_GetInfo h u)" "keeps (\<lambda>w. w_locks w = l) (upload_GetReader h u)"
  "keeps (\<lambda>w. w_locks w = l) (upload_FinishUpload h u)" "keeps (\<lambda>w. w_locks w = l) (upload_DeclareLength h u n)"
  "keeps (\<lambda>w. w_locks w = l) (upload_ConcatUploads h u us)"
  unfolding core_GetUpload_def core_NewUpload_def upload_GetInfo_def upload_GetReader_def upload_FinishUpload_def
    upload_DeclareLength_def upload_ConcatUploads_def
  by (auto intro!: io_intros split: option.splits)

lemma emitFinishEvents_locks [io_intros]: "keeps (\<lambda>w. w_locks w = l) (emitFinishEvents h c resp info)"
  unfolding emitFinishEvents_def by (intro io_intros) simp_all

lemma terminateUpload_locks [io_intros]: "keeps (\<lambda>w. w_locks w = l) (terminateUpload h c u info)"
  unfolding terminateUpload_def by (intro io_intros) simp_all

lemma sendProgressMessages_locks [io_intros]: "keeps (\<lambda>w. w_locks w = l) (sendProgressMessages c info)"
  unfolding sendProgressMessages_def by (intro io_intros) simp

lemma finishUploadIfComplete_locks [io_intros]:
  "keeps (\<lambda>w. w_locks w = l) (finishUploadIfComplete h c resp u info)"
  unfolding finishUploadIfComplete_def by (intro io_intros) simp_all

lemma store_body_locks [io_intros]: "keeps (\<lambda>w. w_locks w = l) (store_body h c u info src)"
  unfolding store_body_def Let_def by (intro io_intros | auto split: err.splits intro!: io_intros)+

lemma writeChunk_locks [io_intros]: "keeps (\<lambda>w. w_locks w = l) (writeChunk h c resp u info)"
  unfolding writeChunk_def Let_def by (intro io_intros) simp_all

lemma complete_deferred_locks [io_intros]: "keeps (\<lambda>w. w_locks w = l) (complete_deferred h c r info ru)"
  unfolding complete_deferred_def Let_def by (intro io_intros) simp_all

lemma declare_length_locks [io_intros]: "keeps (\<lambda>w. w_locks w = l) (declare_length h r u info)"
  unfolding declare_length_def by (intro io_intros) simp_all

lemma patch_upload_locks [io_intros]: "keeps (\<lambda>w. w_locks w = l) (patch_upload h c r i offset)"
  unfolding patch_upload_def patch_checked_def Let_def by (intro io_intros) simp_all

lemma head_upload_locks [io_intros]: "keeps (\<lambda>w. w_locks w = l) (head_upload h r i)"
  unfolding head_upload_def by (intro io_intros) simp_all

lemma delete_upload_locks [io_intros]: "keeps (\<lambda>w. w_locks w = l) (delete_upload h c i)"
  unfolding delete_upload_def by (intro io_intros) simp_all

lemma serve_content_locks [io_intros]: "keeps (\<lambda>w. w_locks w = l) (serve_content serve u r)"
  by (rule tripleI) (auto simp: serve_content_def split: prod.splits)

lemma get_upload_locks [io_intros]: "keeps (\<lambda>w. w_locks w = l) (get_upload h c r i)"
  unfolding get_upload_def Let_def by (intro io_intros) simp_all

lemma respond_locks [io_intros]: "keeps (\<lambda>w. w_locks w = l) m \<Longrightarrow> keeps (\<lambda>w. w_locks w = l) (respond c m)"
  unfolding respond_def by (intro io_intros)

lemma sizeOfUploads_locks [io_intros]: "keeps (\<lambda>w. w_locks w = l) (sizeOfUploads h ids us acc)"
  by (induction ids arbitrary: us acc) (auto intro!: io_intros)

lemma post_create_locks [io_intros]:
  "keeps (\<lambda>w. w_locks w = l) (post_create h c r containsChunk)" "keeps (\<lambda>w. w_locks w = l) (draft_create h c r)"
  unfolding post_create_def draft_create_def post_size_def pre_create_def create_upload_def start_upload_def concat_created_def
    notify_created_def Let_def
  by (intro io_intros; simp)+

lemma locks_frame:
  assumes "\<And>l. keeps (\<lambda>w. w_locks w = l) m"
  shows "keeps (\<lambda>w. P (w_locks w)) m"
  by (rule tripleI) (use tripleD [OF assms refl] in force)

context exclusive_locker
begin

abbreviation same_locks :: "(string \<Rightarrow> bool) \<Rightarrow> ('s, 'l) world \<Rightarrow> bool" where
  "same_locks H w \<equiv> linv (w_locks w) \<and> held (w_locks w) = H"

lemma quiet_locks: "(\<And>l. keeps (\<lambda>w. w_locks w = l) m) \<Longrightarrow> keeps (same_locks H) m"
  by (rule locks_frame [where P = "\<lambda>l. linv l \<and> held l = H"])

lemma ServeHTTP_releases:
  fixes h :: "('s, 'u, 'l, 'k) UnroutedHandler"
  assumes locker: "Locker (composer h) = Some ops"
  shows "keeps (same_locks H) (ServeHTTP h c)"
proof -
  note lock = withLock_releases [OF locker]
  have v2: "keeps (same_locks H) (PostFileV2 h c r)" for r
    unfolding PostFileV2_def
    by (rule keeps_bind [OF quiet_locks [OF post_create_locks(2)]])
      (auto split: sum.splits prod.splits intro!: lock io_intros intro: quiet_locks [OF locks_kept(6)])
  have post: "keeps (same_locks H) (PostFile h c r)" for r
    unfolding PostFile_def Let_def
    by (rule triple_if [OF v2], rule keeps_bind [OF quiet_locks [OF post_create_locks(1)]])
      (auto split: sum.splits prod.splits intro!: lock io_intros
        intro: quiet_locks [OF locks_kept(6)] quiet_locks [OF locks_kept(4)] quiet_locks [OF respond_locks])
  have get: "keeps (same_locks H) (GetFile h c r)" for r
    unfolding GetFile_def Let_def by (intro lock io_intros)
  have rest: "keeps (same_locks H) (HeadFile h c r)" "keeps (same_locks H) (PatchFile h c r)" "keeps (same_locks H) (DelFile h c r)" for r
    unfolding HeadFile_def PatchFile_def DelFile_def Let_def
    by (intro triple_if triple_case_option lock io_intros quiet_locks [OF locks_kept(5)])+
  have mux: "keeps (same_locks H) (mux h c r)" for r
    unfolding mux_def method_not_allowed_def Let_def
    by (intro triple_if post get rest quiet_locks [OF locks_kept(3)])
  show ?thesis
    unfolding ServeHTTP_def Middleware_def Let_def
    by (intro keeps_bind triple_case_option triple_if mux quiet_locks [OF locks_kept(2)] quiet_locks [OF locks_kept(3)]
        quiet_locks [OF locks_kept(4)] quiet_locks [OF locks_kept(5)] quiet_locks [OF locks_kept(6)] triple_return) auto
qed

end

text \<open>
  Property C11. With the memory locker, after a request of any method and with any outcome,
  panics included, exactly the locks are held that were held before it.
\<close>

theorem requests_release_their_locks:
  assumes "Locker (composer h) = Some (memoryLocker caller [])" "ml_inv (w_locks w)" "run_state (ServeHTTP h c) w = (u, w')"
  shows "ml_inv (w_locks w') \<and> (\<forall>i. ml_held (w_locks w') i \<longleftrightarrow> ml_held (w_locks w) i)"
  using tripleD [OF memory_locker.ServeHTTP_releases [where H = "ml_held (w_locks w)", OF assms(1)] _ assms(3)] assms(2)
  by simp

definition locked_world :: "(unit, MemoryLocker) world" where
  "locked_world =
     \<lparr>w_store = (), w_locks = NewMemoryLocker\<lparr>locks := [(''b'', demo_entry)], ch_made := 1\<rparr>, w_metrics = newMetrics,
      w_created = [], w_complete = [], w_terminated = [], w_progress = [], w_res = newResponseWriter\<rparr>"

definition locked_handler :: "(unit, unit, MemoryLocker, memoryLock) UnroutedHandler" where
  "locked_handler = (bare_handler ''/files/'')\<lparr>composer := ml_UseIn 7 [] NewStoreComposer,
     config := zeroConfig\<lparr>Cors := Some DefaultCorsConfig\<rparr>\<rparr>"

theorem requests_release_their_locks_witness:
  "let w' = snd (run_state (ServeHTTP locked_handler (plainRequest ''HEAD'' ''/a'')) locked_world)
   in ml_held (w_locks w') ''b'' \<and> \<not> ml_held (w_locks w') ''a''"
proof -
  have "Locker (composer locked_handler) = Some (memoryLocker 7 [])"
    by (simp add: locked_handler_def ml_UseIn_def UseLocker_def)
  moreover have "ml_inv (w_locks locked_world)"
    by (simp add: ml_inv_def locked_world_def NewMemoryLocker_def demo_entry_def)
  moreover have "ml_held (w_locks locked_world) ''b''" "\<not> ml_held (w_locks locked_world) ''a''"
    by (simp_all add: ml_held_def locked_world_def NewMemoryLocker_def)
  ultimately show ?thesis
    using requests_release_their_locks [OF _ _ prod.collapse [symmetric], of locked_handler 7 locked_world "plainRequest ''HEAD'' ''/a''"]
    by (simp add: Let_def)
qed

text \<open>
  Unlocking a lock that does not exist crashes, although the comment on
  \<^verbatim>\<open>Unlock\<close> promises that no error is returned then.
\<close>

theorem unlock_of_a_free_lock_panics:
  assumes "\<not> ml_held l (ml_id lock)"
  shows "\<exists>msg l'. ml_Unlock lock l = (Some (Panic msg), l')"
  using assms by (auto simp: ml_held_def ml_Unlock_def delete_entry_def close_channel_def)

theorem unlock_of_a_free_lock_panics_witness:
  "\<exists>msg l'. ml_Unlock \<lparr>ml_id = ''a''\<rparr> NewMemoryLocker = (Some (Panic msg), l')"
  by (rule unlock_of_a_free_lock_panics) (simp add: ml_held_def NewMemoryLocker_def)

end
