(* ===== verification/FileLocker.thy ===== *)
theory FileLocker
  imports FileStore
begin

text \<open>
  The locker on the file system (\<^verbatim>\<open>pkg/filelocker/filelocker.go\<close>). The lock files themselves are
  handled by the package \<^verbatim>\<open>github.com/tus/lockfile\<close>, which is a parameter: its
  \<^verbatim>\<open>TryLock\<close> and \<^verbatim>\<open>Unlock\<close>, with the errors that the source distinguishes. The waits of
  \<^verbatim>\<open>Lock\<close> are given as a list: the context ends, or time passes while others use the files.
\<close>

section \<open>The lock package and the file locker\<close>

datatype lock_error = LfNotExist | LfBusy | LfOther err

record lockfile_ops =
  lf_TryLock :: "string \<Rightarrow> filesys \<Rightarrow> lock_error option \<times> filesys"
  lf_Unlock :: "string \<Rightarrow> filesys \<Rightarrow> err option \<times> filesys"

record FileLocker =
  fl_Path :: string
  HolderPollInterval :: int
  AcquirerPollInterval :: int

text \<open>Durations are nanoseconds.\<close>

definition fl_New :: "string \<Rightarrow> FileLocker" where
  "fl_New path = \<lparr>fl_Path = path, HolderPollInterval = 5000000000, AcquirerPollInterval = 2000000000\<rparr>"

record fileUploadLock =
  fl_file :: string
  requestReleaseFile :: string
  holderPollInterval :: int
  acquirerPollInterval :: int

text \<open>\<open>filepath_Abs\<close> is \<^verbatim>\<open>filepath.Abs\<close>, which needs the working directory.\<close>

definition fl_NewLock :: "(string \<Rightarrow> err + string) \<Rightarrow> FileLocker \<Rightarrow> string \<Rightarrow> err + fileUploadLock" where
  "fl_NewLock filepath_Abs locker i =
     (case filepath_Abs (FilepathJoin (fl_Path locker) (i @ ''.lock'')) of
        Inl e \<Rightarrow> Inl e
      | Inr path \<Rightarrow> Inr \<lparr>fl_file = path, requestReleaseFile = FilepathJoin (fl_Path locker) (i @ ''.stop''),
                         holderPollInterval = HolderPollInterval locker,
                         acquirerPollInterval = AcquirerPollInterval locker\<rparr>)"

section \<open>Acquiring and releasing\<close>

datatype poll_event = CtxExpired | TimePasses "filesys \<Rightarrow> filesys"

text \<open>
  \<^verbatim>\<open>errors.Is(err, fs.ErrNotExist)\<close> for the other errors of \<^verbatim>\<open>TryLock\<close>, and the creation of the
  file that asks the holder to stop. The loop ends at the latest with the context.
\<close>

definition ask_holder :: "fileUploadLock \<Rightarrow> filesys \<Rightarrow> err option \<times> filesys" where
  "ask_holder lock s = os_create (requestReleaseFile lock) s"

fun fl_Lock ::
  "lockfile_ops \<Rightarrow> poll_event list \<Rightarrow> fileUploadLock \<Rightarrow> filesys \<Rightarrow> err option \<times> filesys" where
  "fl_Lock ops waits lock s =
     (case lf_TryLock ops (fl_file lock) s of
        (None, s1) \<Rightarrow> (None, s1)
      | (Some LfNotExist, s1) \<Rightarrow>
          (case waits of
             TimePasses f # waits' \<Rightarrow> fl_Lock ops waits' lock (f s1)
           | _ \<Rightarrow> (Some (TusError ErrLockTimeout), s1))
      | (Some (LfOther e), s1) \<Rightarrow> (Some (if IsNotExist e then TusError ErrNotFound else e), s1)
      | (Some LfBusy, s1) \<Rightarrow>
          (case ask_holder lock s1 of
             (Some e, s2) \<Rightarrow> (Some e, s2)
           | (None, s2) \<Rightarrow>
               (case waits of
                  TimePasses f # waits' \<Rightarrow> fl_Lock ops waits' lock (f s2)
                | _ \<Rightarrow> (Some (TusError ErrLockTimeout), s2))))"

declare fl_Lock.simps [simp del]

text \<open>The goroutine of the holder: does it call \<^verbatim>\<open>requestRelease\<close> before it is stopped?\<close>

datatype holder_event = StopPoll | HolderTick filesys

fun holder_poll :: "fileUploadLock \<Rightarrow> holder_event list \<Rightarrow> bool" where
  "holder_poll lock [] = False"
| "holder_poll lock (StopPoll # es) = False"
| "holder_poll lock (HolderTick s # es) =
     (case os_Stat (requestReleaseFile lock) s of
        (Inr _, s1) \<Rightarrow> True
      | (Inl _, s1) \<Rightarrow> holder_poll lock es)"

definition fl_Unlock :: "lockfile_ops \<Rightarrow> fileUploadLock \<Rightarrow> filesys \<Rightarrow> err option \<times> filesys" where
  "fl_Unlock ops lock s =
     (case lf_Unlock ops (fl_file lock) s of
        (e, s1) \<Rightarrow>
          (case os_Remove (requestReleaseFile lock) s1 of
             (_, s2) \<Rightarrow> (case e of Some x \<Rightarrow> if IsNotExist x then None else Some x | None \<Rightarrow> None, s2)))"

definition fileLocker ::
  "(string \<Rightarrow> err + string) \<Rightarrow> lockfile_ops \<Rightarrow> FileLocker \<Rightarrow> poll_event list \<Rightarrow> (filesys, fileUploadLock) LockerOps" where
  "fileLocker filepath_Abs ops locker waits =
     \<lparr>NewLock = fl_NewLock filepath_Abs locker, Lock = fl_Lock ops waits, Unlock = fl_Unlock ops\<rparr>"

definition fl_UseIn ::
  "(string \<Rightarrow> err + string) \<Rightarrow> lockfile_ops \<Rightarrow> FileLocker \<Rightarrow> poll_event list \<Rightarrow>
     ('s, 'u, filesys, fileUploadLock) StoreComposer \<Rightarrow> ('s, 'u, filesys, fileUploadLock) StoreComposer" where
  "fl_UseIn filepath_Abs ops locker waits c = UseLocker (Some (fileLocker filepath_Abs ops locker waits)) c"

section \<open>Properties\<close>

text \<open>One attempt: the result of the lock package, and how the loop goes on.\<close>

lemma fl_Lock_attempt:
  assumes "lf_TryLock ops (fl_file lock) s = (r, s1)" "ask_holder lock s1 = (e, s2)"
  shows "fl_Lock ops waits lock s =
    (case r of
       None \<Rightarrow> (None, s1)
     | Some (LfOther x) \<Rightarrow> (Some (if IsNotExist x then TusError ErrNotFound else x), s1)
     | Some LfNotExist \<Rightarrow> (case waits of TimePasses f # ws \<Rightarrow> fl_Lock ops ws lock (f s1) | _ \<Rightarrow> (Some (TusError ErrLockTimeout), s1))
     | Some LfBusy \<Rightarrow>
         if e \<noteq> None then (e, s2)
         else (case waits of TimePasses f # ws \<Rightarrow> fl_Lock ops ws lock (f s2) | _ \<Rightarrow> (Some (TusError ErrLockTimeout), s2)))"
  using assms by (subst fl_Lock.simps) (auto split: option.splits lock_error.splits)

lemma fl_Lock_acquired:
  "fl_Lock ops waits lock s = (None, s') \<Longrightarrow> \<exists>s0. lf_TryLock ops (fl_file lock) s0 = (None, s')"
proof (induction waits arbitrary: s)
  case Nil
  obtain r s1 where t: "lf_TryLock ops (fl_file lock) s = (r, s1)" by force
  obtain e s2 where a: "ask_holder lock s1 = (e, s2)" by force
  from Nil t show ?case
    unfolding fl_Lock_attempt [OF t a] by (auto split: option.splits lock_error.splits if_splits)
next
  case (Cons w waits)
  obtain r s1 where t: "lf_TryLock ops (fl_file lock) s = (r, s1)" by force
  obtain e s2 where a: "ask_holder lock s1 = (e, s2)" by force
  from Cons t show ?case
    unfolding fl_Lock_attempt [OF t a] by (auto split: option.splits lock_error.splits if_splits poll_event.splits)
qed

lemma fl_Lock_busy:
  assumes busy: "\<And>s0. fst (lf_TryLock ops (fl_file lock) s0) = Some LfBusy"
  shows "fl_Lock ops waits lock s = (e, s') \<Longrightarrow>
    e = Some (TusError ErrLockTimeout) \<or> e \<noteq> None \<and> (\<exists>s0. ask_holder lock s0 = (e, s'))"
proof (induction waits arbitrary: s)
  case Nil
  obtain s1 where t: "lf_TryLock ops (fl_file lock) s = (Some LfBusy, s1)" using busy [of s] by (metis prod.collapse)
  obtain x s2 where a: "ask_holder lock s1 = (x, s2)" by force
  from Nil a show ?case unfolding fl_Lock_attempt [OF t a] by (auto split: if_splits)
next
  case (Cons w waits)
  obtain s1 where t: "lf_TryLock ops (fl_file lock) s = (Some LfBusy, s1)" using busy [of s] by (metis prod.collapse)
  obtain x s2 where a: "ask_holder lock s1 = (x, s2)" by force
  from Cons a show ?case
    unfolding fl_Lock_attempt [OF t a] by (cases w) (auto split: if_splits)
qed

text \<open>
  Property C18. A file lock is got only by a successful \<^verbatim>\<open>TryLock\<close> of the lock package on the
  lock file of the upload, after which nothing else was done to the files; and while every
  attempt finds the lock busy, \<^verbatim>\<open>Lock\<close> ends with a timeout or because the request to the
  holder cannot be written.
\<close>

theorem file_lock_comes_from_TryLock:
  assumes "fl_Lock ops waits lock s = (e, s')"
  shows "(e = None \<longrightarrow> (\<exists>s0. lf_TryLock ops (fl_file lock) s0 = (None, s'))) \<and>
    ((\<forall>s0. fst (lf_TryLock ops (fl_file lock) s0) = Some LfBusy) \<longrightarrow>
       e = Some (TusError ErrLockTimeout) \<or> e \<noteq> None \<and> (\<exists>s0. ask_holder lock s0 = (e, s')))"
  using fl_Lock_acquired [of ops waits lock s s'] fl_Lock_busy [of ops lock waits s e s'] assms by blast

text \<open>A lock package whose locks are always busy.\<close>

definition busy_locks :: lockfile_ops where
  "busy_locks = \<lparr>lf_TryLock = (\<lambda>p s. (Some LfBusy, s)), lf_Unlock = (\<lambda>p s. (None, s))\<rparr>"

definition demo_lock :: fileUploadLock where
  "demo_lock = \<lparr>fl_file = ''/d/a.lock'', requestReleaseFile = ''d/a.stop'', holderPollInterval = 1, acquirerPollInterval = 1\<rparr>"

definition empty_dir :: filesys where
  "empty_dir = \<lparr>fs_files = [], fs_dirs = [''.'', ''d''], fs_faults = (\<lambda>_. None), fs_clock = 0, fs_rand = (\<lambda>_. None),
     fs_drawn = 0, fs_json = (\<lambda>_. [])\<rparr>"

theorem file_lock_comes_from_TryLock_witness:
  "fst (fl_Lock busy_locks [] demo_lock empty_dir) \<noteq> None"
  using file_lock_comes_from_TryLock [OF prod.collapse [symmetric], of busy_locks "[]" demo_lock empty_dir]
  by (auto simp: busy_locks_def)

text \<open>
  A request that finds the lock busy leaves the file that asks the holder to
  stop, and as long as this file is there, a poll of the holder that does not fail makes the
  holder call its callback.
\<close>

theorem holder_notices_the_request:
  assumes "lf_TryLock ops (fl_file lock) s = (Some LfBusy, s1)" "fl_Lock ops [] lock s = (Some (TusError ErrLockTimeout), s')"
    "ask_holder lock s1 = (None, s2)" "files_of sp (requestReleaseFile lock) = files_of s' (requestReleaseFile lock)"
    "fs_faults sp (fs_clock sp) = None"
  shows "holder_poll lock (HolderTick sp # es)"
proof -
  have "s' = s2" using assms(2) unfolding fl_Lock_attempt [OF assms(1,3)] by simp
  moreover have "files_of s2 (requestReleaseFile lock) = Some []"
    using assms(3) by (auto simp: ask_holder_def os_create_def tick_def split: option.splits if_splits)
  ultimately show ?thesis using assms(4,5) by (simp add: os_Stat_def tick_def)
qed

theorem holder_notices_the_request_witness:
  "holder_poll demo_lock [HolderTick (snd (fl_Lock busy_locks [] demo_lock empty_dir)), StopPoll]"
proof (rule holder_notices_the_request)
  show "lf_TryLock busy_locks (fl_file demo_lock) empty_dir = (Some LfBusy, empty_dir)" by (simp add: busy_locks_def)
  have "fst (ask_holder demo_lock empty_dir) = None" by code_simp
  then show ask: "ask_holder demo_lock empty_dir = (None, snd (ask_holder demo_lock empty_dir))" by (metis prod.collapse)
  have "fst (fl_Lock busy_locks [] demo_lock empty_dir) = Some (TusError ErrLockTimeout)" by code_simp
  then show "fl_Lock busy_locks [] demo_lock empty_dir = (Some (TusError ErrLockTimeout), snd (fl_Lock busy_locks [] demo_lock empty_dir))"
    by (metis prod.collapse)
  show "fs_faults (snd (fl_Lock busy_locks [] demo_lock empty_dir)) (fs_clock (snd (fl_Lock busy_locks [] demo_lock empty_dir))) = None"
    by code_simp
qed simp

end
