(* ===== verification/RequestContext.thy ===== *)
theory RequestContext
  imports StoreContract
begin

text \<open>
  The context of a request (\<^verbatim>\<open>pkg/handler/context.go\<close>) and its goroutines. Elsewhere a
  cancellation is an event of the request body, which takes effect between two reads. Here the
  steps are taken apart as the code has them: the goroutine that relays a cancellation to the
  body reader, the locked sections of the reader, the deadlines of the connection, and the
  second context that is cancelled with a delay. Every list of steps is an interleaving.
\<close>

section \<open>State\<close>

text \<open>What one request is given: its body, the limit on it, and two intervals of the configuration.\<close>

record ctx_setup =
  su_body :: "body_event list"
  su_maxSize :: int
  su_NetworkTimeout :: int
  su_GracefulRequestCompletionTimeout :: int

text \<open>
  The goroutine started by \<^verbatim>\<open>newContext\<close>: it waits, or has stored the error in the reader, or has
  moved the deadline too, or is over, and then it has closed the body with an error or not.
\<close>

datatype relay = RelayWaiting | RelayStored err | RelayCut err | RelayOver "err option"

text \<open>
  The goroutine of the handler: before \<^verbatim>\<open>writeChunk\<close> makes the reader, at the sections of
  \<^verbatim>\<open>bodyReader.Read\<close>, at the end of the body, and after \<^verbatim>\<open>hasError\<close> with its answer.
\<close>

datatype read_phase =
    NoBody
  | Checking
  | Fetching
  | Fetched bytes "err option"
  | Keeping bytes "err option"
  | AtEnd
  | Answered "err option"

record httpContext =
  cx_now :: int
  cx_cause :: "(err \<times> int) option"
  cx_relay :: relay
  cx_body :: "bodyReader option"
  cx_readDeadline :: "int option"
  cx_writeDeadline :: "int option"
  cx_closed :: bool
  cx_phase :: read_phase
  cx_got :: bytes
  cx_timer :: "int option"
  cx_done :: bool

definition newContext :: "int \<Rightarrow> int option \<Rightarrow> httpContext" where
  "newContext now deadline =
     \<lparr>cx_now = now, cx_cause = None, cx_relay = RelayWaiting, cx_body = None, cx_readDeadline = deadline,
      cx_writeDeadline = None, cx_closed = False, cx_phase = NoBody, cx_got = [], cx_timer = None, cx_done = False\<rparr>"

definition getContext :: "int \<Rightarrow> int option \<Rightarrow> httpContext option \<Rightarrow> httpContext" where
  "getContext now deadline stored = (case stored of Some c \<Rightarrow> c | None \<Rightarrow> newContext now deadline)"

section \<open>Steps\<close>

datatype ctx_label =
    Pass nat
  | Cancel err
  | Wake | CutDeadline | CloseBody
  | NewReader
  | CheckErr | RawRead nat | TimeOut | DoneRead | KeepErr
  | ReadResult
  | StartDelay | EndDelay

text \<open>Cancelling with a cause; only the first cancellation counts.\<close>

definition cancel :: "err \<Rightarrow> httpContext \<Rightarrow> httpContext" where
  "cancel cause s = (if cx_cause s = None then s\<lparr>cx_cause := Some (cause, cx_now s)\<rparr> else s)"

text \<open>
  The goroutine that relays a cancellation, in its three sections: the decision with the error
  stored in the reader, the deadline of the connection, and the closing of the body.
\<close>

definition relay_cause :: "err \<Rightarrow> httpContext \<Rightarrow> httpContext" where
  "relay_cause cause s =
     (case cx_body s of
        Some r \<Rightarrow>
          if relayed_cause cause then s\<lparr>cx_body := Some (closeWithError cause r), cx_relay := RelayStored cause\<rparr>
          else s\<lparr>cx_relay := RelayOver None\<rparr>
      | None \<Rightarrow> s\<lparr>cx_relay := RelayOver None\<rparr>)"

definition relay_act :: "ctx_label \<Rightarrow> httpContext \<Rightarrow> httpContext option" where
  "relay_act l s =
     (case cx_relay s of
        RelayWaiting \<Rightarrow> if l = Wake then map_option (\<lambda>(cause, t). relay_cause cause s) (cx_cause s) else None
      | RelayStored cause \<Rightarrow>
          if l = CutDeadline then Some (s\<lparr>cx_readDeadline := Some (cx_now s), cx_relay := RelayCut cause\<rparr>) else None
      | RelayCut cause \<Rightarrow>
          if l = CloseBody then Some (s\<lparr>cx_closed := True, cx_relay := RelayOver (Some cause)\<rparr>) else None
      | RelayOver x \<Rightarrow> None)"

text \<open>The error of a connection whose deadline has passed.\<close>

definition deadline_error :: err where
  "deadline_error = NetError ''i/o timeout'' True True"

definition is_deadline_exceeded :: "err option \<Rightarrow> bool" where
  "is_deadline_exceeded e = (case e of Some (NetError s timeout deadline) \<Rightarrow> deadline | _ \<Rightarrow> False)"

text \<open>A read from the connection, through the limit, that sees the events \<open>src\<close>.\<close>

definition fetch_from :: "nat \<Rightarrow> body_event list \<Rightarrow> bodyReader \<Rightarrow> (bytes \<times> err option) \<times> bodyReader" where
  "fetch_from k src r =
     (case limit_Read k (r\<lparr>br_src := src\<rparr>) of
        ((d, e), r') \<Rightarrow> ((d, e), r'\<lparr>bytesCounter := add64 (bytesCounter r') (int (length d))\<rparr>))"

text \<open>
  The sections of \<^verbatim>\<open>bodyReader.Read\<close>: the check for a stored error, the read of the connection, the
  callback that extends the deadlines, and the error that is stored.
\<close>

definition keep_err :: "err \<Rightarrow> bodyReader \<Rightarrow> bodyReader" where
  "keep_err e r = (if br_err r = None then r\<lparr>br_err := Some (convert_err e)\<rparr> else r)"

definition raw_read :: "nat \<Rightarrow> bodyReader \<Rightarrow> httpContext \<Rightarrow> httpContext option" where
  "raw_read k r s =
     (if k = 0 then None
      else if cx_closed s then
        (case fetch_from k [CloseWith EOF] r of ((d, e), r') \<Rightarrow> Some (s\<lparr>cx_body := Some (r'\<lparr>br_src := br_src r\<rparr>), cx_phase := Fetched d e\<rparr>))
      else
        (case fetch_from k (br_src r) r of ((d, e), r') \<Rightarrow> Some (s\<lparr>cx_body := Some r', cx_phase := Fetched d e\<rparr>)))"

definition late_read :: "bodyReader \<Rightarrow> httpContext \<Rightarrow> httpContext option" where
  "late_read r s =
     (case cx_readDeadline s of
        None \<Rightarrow> None
      | Some t \<Rightarrow>
          if t \<le> cx_now s \<and> \<not> cx_closed s
          then (case fetch_from 1 [Chunk [] (Some deadline_error)] r of ((d, e), r') \<Rightarrow>
                  Some (s\<lparr>cx_body := Some (r'\<lparr>br_src := br_src r\<rparr>), cx_phase := Fetched d e\<rparr>))
          else None)"

definition onReadDone :: "int \<Rightarrow> httpContext \<Rightarrow> httpContext" where
  "onReadDone timeout s =
     s\<lparr>cx_readDeadline := Some (cx_now s + timeout), cx_writeDeadline := Some (cx_now s + 2 * timeout)\<rparr>"

definition keep_result :: "bytes \<Rightarrow> err option \<Rightarrow> bodyReader \<Rightarrow> httpContext \<Rightarrow> httpContext" where
  "keep_result d e r s =
     (case e of
        None \<Rightarrow> s\<lparr>cx_got := cx_got s @ d, cx_phase := Checking\<rparr>
      | Some x \<Rightarrow>
          if x = EOF \<or> x = BodyReadAfterClose then s\<lparr>cx_got := cx_got s @ d, cx_phase := AtEnd\<rparr>
          else s\<lparr>cx_got := cx_got s @ d, cx_body := Some (keep_err x r), cx_phase := Checking\<rparr>)"

definition read_act :: "ctx_setup \<Rightarrow> ctx_label \<Rightarrow> bodyReader \<Rightarrow> httpContext \<Rightarrow> httpContext option" where
  "read_act su l r s =
     (case cx_phase s of
        Checking \<Rightarrow> if l = CheckErr then Some (s\<lparr>cx_phase := (if br_err r \<noteq> None then AtEnd else Fetching)\<rparr>) else None
      | Fetching \<Rightarrow> (case l of RawRead k \<Rightarrow> raw_read k r s | TimeOut \<Rightarrow> late_read r s | _ \<Rightarrow> None)
      | Fetched d e \<Rightarrow>
          if l = DoneRead
          then Some ((if is_deadline_exceeded e then s else onReadDone (su_NetworkTimeout su) s)\<lparr>cx_phase := Keeping d e\<rparr>)
          else None
      | Keeping d e \<Rightarrow> if l = KeepErr then Some (keep_result d e r s) else None
      | AtEnd \<Rightarrow> if l = ReadResult then Some (s\<lparr>cx_phase := Answered (hasError r)\<rparr>) else None
      | _ \<Rightarrow> None)"

text \<open>The context that is cancelled with a delay after the first one.\<close>

definition newDelayedContext :: "int \<Rightarrow> ctx_label \<Rightarrow> httpContext \<Rightarrow> httpContext option" where
  "newDelayedContext delay l s =
     (case cx_timer s of
        None \<Rightarrow> if l = StartDelay \<and> cx_cause s \<noteq> None then Some (s\<lparr>cx_timer := Some (cx_now s + delay)\<rparr>) else None
      | Some t \<Rightarrow> if l = EndDelay \<and> t \<le> cx_now s then Some (s\<lparr>cx_done := True\<rparr>) else None)"

definition ctx_act :: "ctx_setup \<Rightarrow> ctx_label \<Rightarrow> httpContext \<Rightarrow> httpContext option" where
  "ctx_act su l s =
     (case l of
        Pass n \<Rightarrow> Some (s\<lparr>cx_now := cx_now s + int n\<rparr>)
      | Cancel cause \<Rightarrow> Some (cancel cause s)
      | NewReader \<Rightarrow>
          if cx_phase s = NoBody
          then Some (s\<lparr>cx_body := Some (newBodyReader (su_body su) (su_maxSize su)), cx_phase := Checking\<rparr>)
          else None
      | Wake \<Rightarrow> relay_act l s
      | CutDeadline \<Rightarrow> relay_act l s
      | CloseBody \<Rightarrow> relay_act l s
      | StartDelay \<Rightarrow> newDelayedContext (su_GracefulRequestCompletionTimeout su) l s
      | EndDelay \<Rightarrow> newDelayedContext (su_GracefulRequestCompletionTimeout su) l s
      | _ \<Rightarrow> (case cx_body s of None \<Rightarrow> None | Some r \<Rightarrow> read_act su l r s))"

fun ctx_run :: "ctx_setup \<Rightarrow> ctx_label list \<Rightarrow> httpContext \<Rightarrow> httpContext option" where
  "ctx_run su [] s = Some s"
| "ctx_run su (l # ls) s = (case ctx_act su l s of None \<Rightarrow> None | Some s' \<Rightarrow> ctx_run su ls s')"

lemma ctx_run_append:
  "ctx_run su (xs @ ys) s = (case ctx_run su xs s of None \<Rightarrow> None | Some s' \<Rightarrow> ctx_run su ys s')"
  by (induction xs arbitrary: s) (auto split: option.splits)

text \<open>An invariant of the steps is an invariant of the runs.\<close>

lemma ctx_run_invariant:
  assumes "ctx_run su ls s = Some s'" "I s" "\<And>l s s'. ctx_act su l s = Some s' \<Longrightarrow> I s \<Longrightarrow> I s'"
  shows "I s'"
  using assms by (induction ls arbitrary: s) (auto split: option.splits)

text \<open>Without other goroutines in between, the sections make up the atomic read of the body reader.\<close>

lemma read_steps_are_Read:
  assumes "cx_phase s = Checking" "cx_body s = Some r" "\<not> cx_closed s" "no_close (br_src r)" "br_err r = None" "0 < k"
    and "Read k r = ((d, e), r')"
  shows "\<exists>s'. ctx_run su [CheckErr, RawRead k, DoneRead, KeepErr] s = Some s' \<and> cx_body s' = Some r' \<and>
    cx_got s' = cx_got s @ d \<and> cx_phase s' = (if e = None then Checking else AtEnd)"
proof -
  obtain d1 e1 r1 where lim: "limit_Read k r = ((d1, e1), r1)" by (metis surj_pair)
  have f: "fetch_from k (br_src r) r = ((d1, e1), r1\<lparr>bytesCounter := add64 (bytesCounter r1) (int (length d1))\<rparr>)"
    by (simp add: fetch_from_def lim)
  note read = Read_plain [OF assms(5,4) lim]
  show ?thesis using assms read
    by (cases e1) (auto simp: ctx_act_def read_act_def raw_read_def onReadDone_def keep_result_def f Let_def keep_err_def split: if_splits)
qed

section \<open>What the data store gets\<close>

definition is_Chunk :: "body_event \<Rightarrow> bool" where
  "is_Chunk ev = (case ev of Chunk d e \<Rightarrow> True | CloseWith e \<Rightarrow> False)"

lemma is_Chunk_simps [simp]: "is_Chunk (Chunk d x)" "\<not> is_Chunk (CloseWith e)"
  by (simp_all add: is_Chunk_def)

lemma chunks_no_close: "list_all is_Chunk src \<Longrightarrow> no_close src"
  by (auto simp: no_close_def split: list.splits body_event.splits)

lemma raw_Read_chunks: "raw_Read k src = ((d, e), src') \<Longrightarrow> list_all is_Chunk src \<Longrightarrow> list_all is_Chunk src'"
  by (induction k src rule: raw_Read.induct) (auto split: if_splits)

lemma limit_Read_chunks: "limit_Read k r = ((d, e), r') \<Longrightarrow> list_all is_Chunk (br_src r) \<Longrightarrow> list_all is_Chunk (br_src r')"
  by (auto simp: limit_Read_def dest: raw_Read_chunks split: option.splits if_splits prod.splits)

lemma limit_Read_run:
  assumes "br_limitErr r = None" "0 \<le> br_limit r" "0 < k" "no_close (br_src r)" "limit_Read k r = ((d, e), r')"
  shows "br_err r' = br_err r"
    and "e = None \<Longrightarrow> br_limitErr r' = None \<and> 0 \<le> br_limit r' \<and>
      limited_run (br_limit r) (br_src r) = (case limited_run (br_limit r') (br_src r') of (ds, x) \<Rightarrow> (d @ ds, x))"
    and "e = Some x \<Longrightarrow> limited_run (br_limit r) (br_src r) = (d, stored_err x)"
proof -
  obtain c y src' where raw: "raw_Read (limit_buf k (br_limit r)) (br_src r) = ((c, y), src')" by (metis surj_pair)
  note run = raw_Read_run [OF raw assms(4)]
  show "br_err r' = br_err r"
    using assms(1,3,5) raw by (auto simp: limit_Read_def split: if_splits)
  show "br_limitErr r' = None \<and> 0 \<le> br_limit r' \<and>
      limited_run (br_limit r) (br_src r) = (case limited_run (br_limit r') (br_src r') of (ds, x) \<Rightarrow> (d @ ds, x))" if "e = None"
  proof (cases "int (length c) \<le> br_limit r")
    case True
    from limit_Read_fits [OF assms(1,3) this raw] assms(5) that have
      eq: "d = c" "y = None" "r' = r\<lparr>br_src := src', br_limit := br_limit r - int (length c), br_limitErr := None\<rparr>" by auto
    have "body_run (br_src r) = (case body_run src' of (ds, x) \<Rightarrow> (c @ ds, x))" using run eq(2) by simp
    from limited_run_prepend [OF this True] True show ?thesis by (simp add: eq)
  next
    case False
    from limit_Read_over [OF assms(1,3) this raw] assms(5) that show ?thesis by simp
  qed
  show "limited_run (br_limit r) (br_src r) = (d, stored_err x)" if "e = Some x"
  proof (cases "int (length c) \<le> br_limit r")
    case True
    from limit_Read_fits [OF assms(1,3) this raw] assms(5) that have "d = c" "y = Some x" by auto
    with run True show ?thesis by (simp add: limited_run_def)
  next
    case False
    from limit_Read_over [OF assms(1,3) this raw] assms(5) that have
      eq: "d = take (nat (br_limit r)) c" "x = MaxBytesError" by auto
    obtain ds z where ds: "body_run (br_src r) = (c @ ds, z)" using run by (cases y) (auto split: prod.splits)
    with False assms(2) eq show ?thesis by (auto simp: limited_run_def stored_err_def)
  qed
qed

text \<open>
  What the client sent in the limit is \<open>W\<close>. A read that was not closed ends with it, or with a time-out
  after some of it.
\<close>

definition outcome :: "bytes \<times> err option \<Rightarrow> bytes \<Rightarrow> err option \<Rightarrow> bool" where
  "outcome W got e \<longleftrightarrow> (got, e) = W \<or> prefix got (fst W) \<and> e = Some (TusError ErrReadTimeout)"

abbreviation rest_of :: "bodyReader \<Rightarrow> bytes \<times> err option" where
  "rest_of r \<equiv> limited_run (br_limit r) (br_src r)"

definition goes_on :: "bytes \<times> err option \<Rightarrow> bytes \<Rightarrow> bodyReader \<Rightarrow> bool" where
  "goes_on W got r \<longleftrightarrow> br_limitErr r = None \<and> 0 \<le> br_limit r \<and> W = (case rest_of r of (ds, x) \<Rightarrow> (got @ ds, x))"

text \<open>The reader of a request that was not closed, and of one that was closed with \<open>c\<close>.\<close>

definition follows :: "bytes \<times> err option \<Rightarrow> bodyReader \<Rightarrow> bytes \<Rightarrow> read_phase \<Rightarrow> bool" where
  "follows W r got ph =
     (case ph of
        NoBody \<Rightarrow> False
      | Checking \<Rightarrow> if br_err r = None then goes_on W got r else outcome W got (br_err r)
      | Fetching \<Rightarrow> br_err r = None \<and> goes_on W got r
      | Fetched d e \<Rightarrow> br_err r = None \<and> (case e of None \<Rightarrow> goes_on W (got @ d) r | Some x \<Rightarrow> outcome W (got @ d) (stored_err x))
      | Keeping d e \<Rightarrow> br_err r = None \<and> (case e of None \<Rightarrow> goes_on W (got @ d) r | Some x \<Rightarrow> outcome W (got @ d) (stored_err x))
      | AtEnd \<Rightarrow> outcome W got (br_err r)
      | Answered e \<Rightarrow> outcome W got e)"

definition cut_off :: "err \<Rightarrow> bytes \<times> err option \<Rightarrow> bodyReader \<Rightarrow> bytes \<Rightarrow> read_phase \<Rightarrow> bool" where
  "cut_off c W r got ph \<longleftrightarrow> br_err r = Some c \<and>
     (case ph of
        NoBody \<Rightarrow> False
      | Fetching \<Rightarrow> goes_on W got r
      | Fetched d e \<Rightarrow> prefix (got @ d) (fst W)
      | Keeping d e \<Rightarrow> prefix (got @ d) (fst W)
      | Answered e \<Rightarrow> prefix got (fst W) \<and> (e = Some c \<or> outcome W got e)
      | _ \<Rightarrow> prefix got (fst W))"

definition whole :: "ctx_setup \<Rightarrow> bytes \<times> err option" where
  "whole su = rest_of (newBodyReader (su_body su) (su_maxSize su))"

text \<open>The error that the body is being closed with.\<close>

fun closing :: "relay \<Rightarrow> err option" where
  "closing RelayWaiting = None"
| "closing (RelayStored c) = Some c"
| "closing (RelayCut c) = Some c"
| "closing (RelayOver x) = x"

definition reader_inv :: "ctx_setup \<Rightarrow> httpContext \<Rightarrow> bodyReader \<Rightarrow> bool" where
  "reader_inv su s r \<longleftrightarrow> list_all is_Chunk (br_src r) \<and>
     (case closing (cx_relay s) of
        None \<Rightarrow> follows (whole su) r (cx_got s) (cx_phase s) \<and> \<not> cx_closed s
      | Some c \<Rightarrow> cut_off c (whole su) r (cx_got s) (cx_phase s) \<and> relayed_cause c \<and> map_option fst (cx_cause s) = Some c)"

definition ctx_inv :: "ctx_setup \<Rightarrow> httpContext \<Rightarrow> bool" where
  "ctx_inv su s \<longleftrightarrow>
     (case cx_body s of
        None \<Rightarrow> cx_phase s = NoBody \<and> cx_got s = [] \<and> closing (cx_relay s) = None \<and> \<not> cx_closed s
      | Some r \<Rightarrow> reader_inv su s r)"

lemma goes_on_prefix: "goes_on W got r \<Longrightarrow> prefix got (fst W)"
  by (auto simp: goes_on_def split: prod.splits)

lemma outcome_prefix: "outcome W got e \<Longrightarrow> prefix got (fst W)"
  by (auto simp: outcome_def)

lemma follows_cut_off: "follows W r got ph \<Longrightarrow> cut_off c W (closeWithError c r) got ph"
  by (auto simp: follows_def cut_off_def closeWithError_def goes_on_def outcome_def split: read_phase.splits option.splits if_splits prod.splits)

lemma fetch_from_run:
  assumes "fetch_from k src r = ((d, e), r')" "br_limitErr r = None" "0 \<le> br_limit r" "0 < k" "no_close src"
  shows "br_err r' = br_err r" "list_all is_Chunk src \<Longrightarrow> list_all is_Chunk (br_src r')"
    and "e = None \<Longrightarrow> br_limitErr r' = None \<and> 0 \<le> br_limit r' \<and>
      limited_run (br_limit r) src = (case rest_of r' of (ds, x) \<Rightarrow> (d @ ds, x))"
    and "e = Some x \<Longrightarrow> limited_run (br_limit r) src = (d, stored_err x)"
proof -
  from assms(1) obtain r1 where lim: "limit_Read k (r\<lparr>br_src := src\<rparr>) = ((d, e), r1)"
    and r': "r' = r1\<lparr>bytesCounter := add64 (bytesCounter r1) (int (length d))\<rparr>" by (auto simp: fetch_from_def split: prod.splits)
  note run = limit_Read_run [OF _ _ assms(4) _ lim]
  show "br_err r' = br_err r" using run(1) assms(2,3,5) r' by simp
  show "list_all is_Chunk src \<Longrightarrow> list_all is_Chunk (br_src r')" using limit_Read_chunks [OF lim] r' by simp
  show "e = None \<Longrightarrow> br_limitErr r' = None \<and> 0 \<le> br_limit r' \<and>
      limited_run (br_limit r) src = (case rest_of r' of (ds, x) \<Rightarrow> (d @ ds, x))" using run(2) assms(2,3,5) r' by simp
  show "e = Some x \<Longrightarrow> limited_run (br_limit r) src = (d, stored_err x)" using run(3) assms(2,3,5) by simp
qed

lemma fetch_closed: "br_limitErr r = None \<Longrightarrow> 0 < k \<Longrightarrow> 0 \<le> br_limit r \<Longrightarrow>
    fetch_from k [CloseWith x] r = (([], Some BodyReadAfterClose),
      r\<lparr>br_src := [CloseWith x], bytesCounter := add64 (bytesCounter r) 0, br_limitErr := Some BodyReadAfterClose\<rparr>)"
  by (simp add: fetch_from_def limit_Read_def)

lemma fetch_late: "br_limitErr r = None \<Longrightarrow> 0 \<le> br_limit r \<Longrightarrow>
    fetch_from 1 [Chunk [] (Some x)] r = (([], Some x),
      r\<lparr>br_src := [], bytesCounter := add64 (bytesCounter r) 0, br_limitErr := Some x\<rparr>)"
  by (simp add: fetch_from_def limit_Read_def)

lemma stored_deadline [simp]: "stored_err deadline_error = Some (TusError ErrReadTimeout)"
proof -
  have "\<not> HasSuffix ''i/o timeout'' ''read: connection reset by peer''" by (simp add: HasSuffix_def suffix_def)
  moreover have "\<not> is_max_bytes (TusError ErrReadTimeout)" by simp
  ultimately show ?thesis by (simp add: stored_err_def convert_err_def deadline_error_def is_net_timeout_def Let_def)
qed

text \<open>Every section of a read keeps the relation of the reader to what the client sent.\<close>

lemma goes_on_next:
  assumes "goes_on W got r" "fetch_from k (br_src r) r = ((d, e), r')" "0 < k" "no_close (br_src r)"
  shows "case e of None \<Rightarrow> goes_on W (got @ d) r' | Some x \<Rightarrow> W = (got @ d, stored_err x)"
  using assms fetch_from_run(3,4) [OF assms(2) _ _ assms(3,4)]
  by (auto simp: goes_on_def split: option.splits prod.splits)

lemma read_act_follows:
  assumes "read_act su l r s = Some s'" "follows W r (cx_got s) (cx_phase s)" "\<not> cx_closed s" "list_all is_Chunk (br_src r)"
    and "cx_body s = Some r" "snd W \<noteq> Some EOF"
  shows "\<exists>r'. cx_body s' = Some r' \<and> follows W r' (cx_got s') (cx_phase s') \<and> list_all is_Chunk (br_src r')"
proof (cases "cx_phase s")
  case Checking
  with assms show ?thesis by (auto simp: read_act_def follows_def split: if_splits)
next
  case Fetching
  then have g: "br_err r = None" "goes_on W (cx_got s) r" using assms(2) by (simp_all add: follows_def)
  note nc = chunks_no_close [OF assms(4)]
  consider (raw) k where "raw_read k r s = Some s'" | (late) "late_read r s = Some s'"
    using assms(1) Fetching by (auto simp: read_act_def split: ctx_label.splits)
  then show ?thesis
  proof cases
    case raw
    obtain d e r' where f: "fetch_from k (br_src r) r = ((d, e), r')" by (metis surj_pair)
    from raw f assms(3) have s': "s' = s\<lparr>cx_body := Some r', cx_phase := Fetched d e\<rparr>" "0 < k"
      by (auto simp: raw_read_def split: if_splits)
    from fetch_from_run(1,2) [OF f _ _ s'(2) nc] g assms(4) have "br_err r' = None" "list_all is_Chunk (br_src r')"
      by (simp_all add: goes_on_def)
    with goes_on_next [OF g(2) f s'(2) nc] s'(1) show ?thesis
      by (auto simp: follows_def outcome_def split: option.splits)
  next
    case late
    have "br_limitErr r = None" "0 \<le> br_limit r" using g(2) by (simp_all add: goes_on_def)
    from fetch_late [OF this] late g goes_on_prefix [OF g(2)] assms(4) show ?thesis
      by (auto simp: late_read_def follows_def outcome_def split: option.splits if_splits)
  qed
next
  case (Fetched d e)
  with assms show ?thesis by (cases e) (auto simp: read_act_def onReadDone_def follows_def split: if_splits)
next
  case (Keeping d e)
  with assms show ?thesis
    by (auto simp: read_act_def keep_result_def keep_err_def follows_def stored_err_def split: if_splits option.splits)
next
  case AtEnd
  with assms show ?thesis by (auto simp: read_act_def follows_def split: if_splits) (auto simp: hasError_def outcome_def)
qed (use assms in \<open>simp_all add: read_act_def\<close>)

lemma read_act_cut_off:
  assumes "read_act su l r s = Some s'" "cut_off c W r (cx_got s) (cx_phase s)" "list_all is_Chunk (br_src r)"
    and "cx_body s = Some r" "relayed_cause c"
  shows "\<exists>r'. cx_body s' = Some r' \<and> cut_off c W r' (cx_got s') (cx_phase s') \<and> list_all is_Chunk (br_src r')"
proof (cases "cx_phase s")
  case Checking
  with assms show ?thesis by (auto simp: read_act_def cut_off_def split: if_splits)
next
  case Fetching
  then have g: "br_err r = Some c" "goes_on W (cx_got s) r" using assms(2) by (simp_all add: cut_off_def)
  have r: "br_limitErr r = None" "0 \<le> br_limit r" using g(2) by (simp_all add: goes_on_def)
  note nc = chunks_no_close [OF assms(3)]
  consider (raw) k where "raw_read k r s = Some s'" "cx_closed s" | (open_body) k where "raw_read k r s = Some s'" "\<not> cx_closed s"
    | (late) "late_read r s = Some s'"
    using assms(1) Fetching by (auto simp: read_act_def split: ctx_label.splits)
  then show ?thesis
  proof cases
    case raw
    then have "0 < k" by (auto simp: raw_read_def split: if_splits)
    from fetch_closed [OF r(1) this r(2)] raw this g goes_on_prefix [OF g(2)] assms(3) show ?thesis
      by (auto simp: raw_read_def cut_off_def)
  next
    case open_body
    obtain d e r' where f: "fetch_from k (br_src r) r = ((d, e), r')" by (metis surj_pair)
    from open_body f have s': "s' = s\<lparr>cx_body := Some r', cx_phase := Fetched d e\<rparr>" "0 < k"
      by (auto simp: raw_read_def split: if_splits)
    have "prefix (cx_got s @ d) (fst W)" using goes_on_next [OF g(2) f s'(2) nc]
      by (auto split: option.splits dest: goes_on_prefix)
    with fetch_from_run(1,2) [OF f r s'(2) nc] g assms(3) s'(1) show ?thesis by (auto simp: cut_off_def)
  next
    case late
    from fetch_late [OF r] late g goes_on_prefix [OF g(2)] assms(3) show ?thesis
      by (auto simp: late_read_def cut_off_def split: option.splits if_splits)
  qed
next
  case (Fetched d e)
  with assms show ?thesis by (cases e) (auto simp: read_act_def onReadDone_def cut_off_def split: if_splits)
next
  case (Keeping d e)
  with assms show ?thesis
    by (auto simp: read_act_def keep_result_def keep_err_def cut_off_def split: if_splits option.splits)
next
  case AtEnd
  with assms relayed_not_EOF [OF assms(5)] show ?thesis by (auto simp: read_act_def cut_off_def hasError_def split: if_splits)
qed (use assms in \<open>simp_all add: read_act_def\<close>)

lemma read_act_frame:
  assumes "read_act su l r s = Some s'"
  shows "cx_relay s' = cx_relay s \<and> cx_closed s' = cx_closed s \<and> cx_cause s' = cx_cause s \<and>
     cx_timer s' = cx_timer s \<and> cx_done s' = cx_done s \<and> cx_now s' = cx_now s"
proof (cases "cx_phase s")
  case Fetching
  with assms show ?thesis
    by (cases l) (auto simp: read_act_def raw_read_def late_read_def split: option.splits if_splits prod.splits)
next
  case (Keeping d e)
  with assms show ?thesis by (cases e) (auto simp: read_act_def keep_result_def split: if_splits)
qed (use assms in \<open>auto simp: read_act_def onReadDone_def split: if_splits\<close>)

lemma relayed_chunks: "list_all is_Chunk src \<Longrightarrow> relayed_events src = src"
  by (induction src) (auto simp: relayed_events_def is_Chunk_def split: body_event.splits)

lemma whole_not_EOF: "list_all is_Chunk (su_body su) \<Longrightarrow> snd (whole su) \<noteq> Some EOF"
proof -
  assume "list_all is_Chunk (su_body su)"
  with body_run_not_EOF [of "su_body su"] relayed_chunks [of "su_body su"] show ?thesis
    by (auto simp: whole_def limited_run_def newBodyReader_def split: prod.splits)
qed

lemma newBodyReader_goes_on: "goes_on (whole su) [] (newBodyReader (su_body su) (su_maxSize su))"
  by (auto simp: goes_on_def whole_def newBodyReader_def split: prod.splits)

lemma reader_label_cases:
  assumes "ctx_act su l s = Some s'"
  obtains (pass) n where "l = Pass n" "s' = s\<lparr>cx_now := cx_now s + int n\<rparr>"
    | (cancel) c where "l = Cancel c" "s' = cancel c s"
    | (body) "l = NewReader" "cx_phase s = NoBody" "s' = s\<lparr>cx_body := Some (newBodyReader (su_body su) (su_maxSize su)), cx_phase := Checking\<rparr>"
    | (relay) "relay_act l s = Some s'"
    | (delay) "newDelayedContext (su_GracefulRequestCompletionTimeout su) l s = Some s'"
    | (read) r where "cx_body s = Some r" "read_act su l r s = Some s'"
proof (cases l)
  case (Pass n)
  show ?thesis by (rule pass [OF Pass]) (use assms Pass in \<open>simp add: ctx_act_def\<close>)
next
  case (Cancel c)
  show ?thesis by (rule cancel [OF Cancel]) (use assms Cancel in \<open>simp add: ctx_act_def\<close>)
next
  case NewReader
  show ?thesis by (rule body [OF NewReader]) (use assms NewReader in \<open>simp_all add: ctx_act_def split: if_splits\<close>)
qed (use assms relay delay read in \<open>simp_all add: ctx_act_def split: option.splits\<close>)

lemma ctx_inv_unchanged:
  assumes "ctx_inv su s" "cx_body s' = cx_body s" "cx_phase s' = cx_phase s" "cx_got s' = cx_got s" "cx_closed s' = cx_closed s"
    "closing (cx_relay s') = closing (cx_relay s)" "closing (cx_relay s) = None \<or> map_option fst (cx_cause s') = map_option fst (cx_cause s)"
  shows "ctx_inv su s'"
  using assms by (auto simp: ctx_inv_def reader_inv_def split: option.splits)

lemma closing_has_cause: "ctx_inv su s \<Longrightarrow> closing (cx_relay s) = None \<or> cx_cause s \<noteq> None"
  by (auto simp: ctx_inv_def reader_inv_def split: option.splits)

lemma ctx_inv_relay:
  assumes "relay_act l s = Some s'" "ctx_inv su s"
  shows "ctx_inv su s'"
proof (cases "cx_relay s")
  case RelayWaiting
  with assms obtain c t where c: "cx_cause s = Some (c, t)" "s' = relay_cause c s" by (auto simp: relay_act_def split: if_splits)
  show ?thesis
  proof (cases "cx_body s")
    case None
    with assms(2) c RelayWaiting show ?thesis by (simp add: ctx_inv_def relay_cause_def)
  next
    case (Some r)
    then have r: "reader_inv su s r" using assms(2) by (simp add: ctx_inv_def)
    then have "cut_off c (whole su) (closeWithError c r) (cx_got s) (cx_phase s)"
      using RelayWaiting by (intro follows_cut_off) (simp add: reader_inv_def)
    with c Some r RelayWaiting show ?thesis
      by (simp add: ctx_inv_def relay_cause_def reader_inv_def) (simp add: closeWithError_def)
  qed
next
  case (RelayStored c)
  with assms(1) have "s' = s\<lparr>cx_readDeadline := Some (cx_now s), cx_relay := RelayCut c\<rparr>" by (simp add: relay_act_def split: if_splits)
  with RelayStored show ?thesis by (intro ctx_inv_unchanged [OF assms(2)]) simp_all
next
  case (RelayCut c)
  with assms show ?thesis by (auto simp: relay_act_def ctx_inv_def reader_inv_def split: if_splits option.splits)
qed (use assms in \<open>simp add: relay_act_def\<close>)

lemma ctx_inv_read:
  assumes su: "list_all is_Chunk (su_body su)" and read: "cx_body s = Some r" "read_act su l r s = Some s'" and inv: "ctx_inv su s"
  shows "ctx_inv su s'"
proof -
  note fr = read_act_frame [OF read(2)]
  have r: "reader_inv su s r" using inv read(1) by (simp add: ctx_inv_def)
  then have ch: "list_all is_Chunk (br_src r)" by (simp add: reader_inv_def)
  show ?thesis
  proof (cases "closing (cx_relay s)")
    case None
    with r have "follows (whole su) r (cx_got s) (cx_phase s)" "\<not> cx_closed s" by (simp_all add: reader_inv_def)
    from read_act_follows [OF read(2) this ch read(1) whole_not_EOF [OF su]] None fr \<open>\<not> cx_closed s\<close> show ?thesis
      by (auto simp: ctx_inv_def reader_inv_def)
  next
    case (Some c)
    with r have c: "cut_off c (whole su) r (cx_got s) (cx_phase s)" "relayed_cause c" "map_option fst (cx_cause s) = Some c"
      by (simp_all add: reader_inv_def)
    from read_act_cut_off [OF read(2) c(1) ch read(1) c(2)] c(2-) Some fr show ?thesis by (auto simp: ctx_inv_def reader_inv_def)
  qed
qed

lemma ctx_inv_step:
  assumes su: "list_all is_Chunk (su_body su)" and act: "ctx_act su l s = Some s'" and inv: "ctx_inv su s"
  shows "ctx_inv su s'"
  using act
proof (cases rule: reader_label_cases)
  case (pass n)
  then show ?thesis by (intro ctx_inv_unchanged [OF inv]) simp_all
next
  case (cancel c)
  with closing_has_cause [OF inv] show ?thesis by (intro ctx_inv_unchanged [OF inv]) (auto simp: cancel_def)
next
  case body
  have fresh: "br_err (newBodyReader (su_body su) (su_maxSize su)) = None" "br_src (newBodyReader (su_body su) (su_maxSize su)) = su_body su"
    by (simp_all add: newBodyReader_def)
  from body inv have "cx_body s = None" by (auto simp: ctx_inv_def reader_inv_def follows_def cut_off_def split: option.splits)
  with body inv newBodyReader_goes_on [of su] su fresh show ?thesis
    by (simp add: ctx_inv_def reader_inv_def follows_def)
next
  case relay
  from ctx_inv_relay [OF this inv] show ?thesis .
next
  case delay
  then show ?thesis by (intro ctx_inv_unchanged [OF inv]) (auto simp: newDelayedContext_def split: option.splits if_splits)
next
  case (read r)
  from ctx_inv_read [OF su this inv] show ?thesis .
qed

lemma ctx_inv_start: "ctx_inv su (newContext now deadline)"
  by (simp add: ctx_inv_def newContext_def)

lemma ctx_inv_run:
  assumes "list_all is_Chunk (su_body su)" "ctx_run su ls (newContext now deadline) = Some s"
  shows "ctx_inv su s"
  using ctx_run_invariant [where I = "ctx_inv su", OF assms(2) ctx_inv_start] ctx_inv_step [OF assms(1)] by blast

section \<open>Properties\<close>

lemma limited_prefix: "prefix got (fst (limited_run n src)) \<Longrightarrow> 0 \<le> n \<Longrightarrow> int (length got) \<le> n"
  using limited_run_length [of n src] prefix_length_le [of got "fst (limited_run n src)"] by linarith

text \<open>
  Property C15. The concurrent reading of a request body refines the atomic one. However the goroutine
  that relays a cancellation, the deadlines and the sections of the reader interleave, the data
  store gets some first bytes of what the client sent within the limit, and the bytes and the
  error that the handler sees are those of an atomic run: of the whole body, of a body that ends
  with a time-out, or of one that is closed with the cause of the cancellation. In particular, a
  body that was cut off is never taken for a complete one.
\<close>

theorem concurrent_read_is_atomic:
  assumes "list_all is_Chunk (su_body su)" "ctx_run su ls (newContext now deadline) = Some s" "cx_phase s = Answered e"
  shows "prefix (cx_got s) (fst (whole su)) \<and> (e = None \<longrightarrow> whole su = (cx_got s, None)) \<and>
    (\<exists>src. (cx_got s, e) = rest_of (newBodyReader src (su_maxSize su)) \<and>
       (src = su_body su \<or> src = [Chunk (cx_got s) (Some deadline_error)] \<or>
        (\<exists>c t. cx_cause s = Some (c, t) \<and> relayed_cause c \<and> src = [Chunk (cx_got s) None, CloseWith c])))"
proof -
  note inv = ctx_inv_run [OF assms(1,2)]
  with assms(3) obtain r where r: "reader_inv su s r" by (auto simp: ctx_inv_def split: option.splits)
  have pre: "prefix (cx_got s) (fst (whole su))"
    using r assms(3) by (auto simp: reader_inv_def follows_def cut_off_def dest: outcome_prefix split: option.splits)
  define n where "n = (if su_maxSize su < 0 then 0 else su_maxSize su)"
  have lim: "br_limit (newBodyReader src (su_maxSize su)) = n" "br_src (newBodyReader src (su_maxSize su)) = src" for src
    by (simp_all add: newBodyReader_def n_def)
  have len: "int (length (cx_got s)) \<le> n"
    by (rule limited_prefix [OF pre [unfolded whole_def lim]]) (simp add: n_def)
  have out: "(cx_got s, x) = whole su \<or> x = Some (TusError ErrReadTimeout)" if "outcome (whole su) (cx_got s) x" for x
    using that by (auto simp: outcome_def)
  consider (whole) "(cx_got s, e) = whole su" | (late) "e = Some (TusError ErrReadTimeout)"
    | (closed) c t where "cx_cause s = Some (c, t)" "relayed_cause c" "e = Some c"
    using r assms(3) out by (auto simp: reader_inv_def follows_def cut_off_def split: option.splits)
  then show ?thesis
  proof cases
    case whole
    with pre show ?thesis unfolding whole_def by (intro conjI exI [of _ "su_body su"]) auto
  next
    case late
    have "(cx_got s, e) = rest_of (newBodyReader [Chunk (cx_got s) (Some deadline_error)] (su_maxSize su))"
      unfolding lim using late len by (simp add: limited_run_def)
    with pre late show ?thesis by blast
  next
    case (closed c t)
    have "(cx_got s, e) = rest_of (newBodyReader [Chunk (cx_got s) None, CloseWith c] (su_maxSize su))"
      unfolding lim using closed(3) len by (simp add: limited_run_def)
    with pre closed show ?thesis by blast
  qed
qed

definition slow_upload :: ctx_setup where
  "slow_upload = \<lparr>su_body = [Chunk ''ab'' None, Chunk ''cd'' (Some EOF)], su_maxSize = 10, su_NetworkTimeout = 60,
     su_GracefulRequestCompletionTimeout = 10\<rparr>"

text \<open>The lock is asked for while the reader waits for the second chunk.\<close>

definition interrupted_steps :: "ctx_label list" where
  "interrupted_steps =
     [NewReader, CheckErr, RawRead 100, DoneRead, KeepErr, CheckErr, Cancel (TusError ErrUploadInterrupted), Wake, CutDeadline,
      TimeOut, CloseBody, DoneRead, KeepErr, CheckErr, ReadResult]"

lemma interrupted_run:
  "case ctx_run slow_upload interrupted_steps (newContext 0 None) of
     None \<Rightarrow> False
   | Some s \<Rightarrow> cx_phase s = Answered (Some (TusError ErrUploadInterrupted)) \<and> cx_got s = ''ab''"
  by code_simp

theorem concurrent_read_is_atomic_witness:
  "\<exists>s. ctx_run slow_upload interrupted_steps (newContext 0 None) = Some s \<and>
     cx_phase s = Answered (Some (TusError ErrUploadInterrupted)) \<and> prefix (cx_got s) ''abcd''"
proof -
  obtain s where s: "ctx_run slow_upload interrupted_steps (newContext 0 None) = Some s"
    "cx_phase s = Answered (Some (TusError ErrUploadInterrupted))"
    using interrupted_run by (auto split: option.splits)
  have "list_all is_Chunk (su_body slow_upload)" "fst (whole slow_upload) = ''abcd''" by code_simp+
  with concurrent_read_is_atomic [OF _ s] s show ?thesis by auto
qed

text \<open>The steps of the reader, and those of them that read from the connection.\<close>

definition reader_step :: "ctx_label \<Rightarrow> bool" where
  "reader_step l = (case l of CheckErr \<Rightarrow> True | RawRead k \<Rightarrow> True | TimeOut \<Rightarrow> True | DoneRead \<Rightarrow> True | KeepErr \<Rightarrow> True
     | ReadResult \<Rightarrow> True | _ \<Rightarrow> False)"

definition fetch_step :: "ctx_label \<Rightarrow> bool" where
  "fetch_step l = (case l of RawRead k \<Rightarrow> True | TimeOut \<Rightarrow> True | _ \<Rightarrow> False)"

fun steps_left :: "read_phase \<Rightarrow> nat" where
  "steps_left NoBody = 0"
| "steps_left Fetching = 5"
| "steps_left (Fetched d e) = 4"
| "steps_left (Keeping d e) = 3"
| "steps_left Checking = 2"
| "steps_left AtEnd = 1"
| "steps_left (Answered e) = 0"

definition fetches_left :: "read_phase \<Rightarrow> nat" where
  "fetches_left ph = (if ph = Fetching then 1 else 0)"

lemma read_act_left:
  assumes "read_act su l r s = Some s'" "br_err r \<noteq> None"
  shows "reader_step l \<and> steps_left (cx_phase s') < steps_left (cx_phase s) \<and>
    fetches_left (cx_phase s') + (if fetch_step l then 1 else 0) = fetches_left (cx_phase s)"
proof (cases "cx_phase s")
  case Fetching
  with assms show ?thesis
    by (cases l) (auto simp: read_act_def raw_read_def late_read_def fetches_left_def fetch_step_def reader_step_def split: option.splits if_splits prod.splits)
next
  case (Keeping d e)
  with assms show ?thesis by (cases e) (auto simp: read_act_def keep_result_def fetches_left_def fetch_step_def reader_step_def split: if_splits)
qed (use assms in \<open>auto simp: read_act_def onReadDone_def fetches_left_def fetch_step_def reader_step_def split: if_splits\<close>)

lemma closing_stays:
  "ctx_act su l s = Some s' \<Longrightarrow> closing (cx_relay s) = Some c \<Longrightarrow> closing (cx_relay s') = Some c"
  by (erule reader_label_cases)
    (auto simp: cancel_def relay_act_def newDelayedContext_def dest: read_act_frame split: relay.splits option.splits if_splits)

lemma other_step:
  assumes "ctx_act su l s = Some s'" "\<not> reader_step l" "cx_phase s \<noteq> NoBody"
  shows "cx_phase s' = cx_phase s \<and> \<not> fetch_step l"
  using assms(2,3)
  by (cases rule: reader_label_cases [OF assms(1)])
    (auto simp: cancel_def relay_act_def relay_cause_def newDelayedContext_def read_act_def reader_step_def fetch_step_def
      split: relay.splits option.splits if_splits ctx_label.splits read_phase.splits)

lemma closing_reader:
  assumes "ctx_inv su s" "closing (cx_relay s) = Some c"
  obtains r where "cx_body s = Some r" "br_err r = Some c" "cx_phase s \<noteq> NoBody" "relayed_cause c"
proof -
  from assms have "cx_body s \<noteq> None" by (cases "cx_body s") (auto simp: ctx_inv_def)
  then obtain r where r: "cx_body s = Some r" by blast
  with assms have "cut_off c (whole su) r (cx_got s) (cx_phase s)" "relayed_cause c" by (simp_all add: ctx_inv_def reader_inv_def)
  with r that [of r] show thesis by (cases "cx_phase s") (simp_all add: cut_off_def)
qed

lemma closing_step:
  assumes "ctx_inv su s" "closing (cx_relay s) = Some c" "ctx_act su l s = Some s'"
  shows "(if reader_step l then steps_left (cx_phase s') < steps_left (cx_phase s) else cx_phase s' = cx_phase s) \<and>
    fetches_left (cx_phase s') + (if fetch_step l then 1 else 0) = fetches_left (cx_phase s)"
proof -
  from assms(1,2) obtain r where r: "cx_body s = Some r" "br_err r = Some c" "cx_phase s \<noteq> NoBody"
    by (rule closing_reader)
  show ?thesis
  proof (cases "reader_step l")
    case True
    then have "read_act su l r s = Some s'"
      using assms(3) r(1) by (cases l) (simp_all add: ctx_act_def reader_step_def)
    from read_act_left [OF this] r(2) True show ?thesis by simp
  qed (use other_step [OF assms(3) _ r(3)] in simp)
qed

lemma closing_run:
  "ctx_run su ms s = Some s' \<Longrightarrow> ctx_inv su s \<Longrightarrow> closing (cx_relay s) = Some c \<Longrightarrow> list_all is_Chunk (su_body su) \<Longrightarrow>
     length (filter reader_step ms) + steps_left (cx_phase s') \<le> steps_left (cx_phase s) \<and>
     length (filter fetch_step ms) + fetches_left (cx_phase s') = fetches_left (cx_phase s) \<and>
     closing (cx_relay s') = Some c \<and> ctx_inv su s'"
proof (induction ms arbitrary: s)
  case (Cons l ms)
  from Cons.prems(1) obtain s1 where l: "ctx_act su l s = Some s1" "ctx_run su ms s1 = Some s'" by (auto split: option.splits)
  from Cons.IH [OF l(2) ctx_inv_step [OF Cons.prems(4) l(1) Cons.prems(2)] closing_stays [OF l(1) Cons.prems(3)] Cons.prems(4)]
    closing_step [OF Cons.prems(2,3) l(1)]
  show ?case by (auto split: if_splits)
qed simp

text \<open>An answer stays as it is.\<close>

lemma answered_stays: "ctx_act su l s = Some s' \<Longrightarrow> cx_phase s = Answered e \<Longrightarrow> cx_phase s' = Answered e"
  by (erule reader_label_cases)
    (auto simp: cancel_def relay_act_def relay_cause_def newDelayedContext_def read_act_def split: relay.splits option.splits if_splits)

lemma answer_of_closing:
  "ctx_run su ms s = Some s' \<Longrightarrow> ctx_inv su s \<Longrightarrow> closing (cx_relay s) = Some c \<Longrightarrow> list_all is_Chunk (su_body su) \<Longrightarrow>
     \<forall>x. cx_phase s \<noteq> Answered x \<Longrightarrow> cx_phase s' = Answered e \<Longrightarrow> e = Some c"
proof (induction ms arbitrary: s)
  case (Cons l ms)
  from Cons.prems(1) obtain s1 where l: "ctx_act su l s = Some s1" "ctx_run su ms s1 = Some s'" by (auto split: option.splits)
  note inv1 = ctx_inv_step [OF Cons.prems(4) l(1) Cons.prems(2)] and cl1 = closing_stays [OF l(1) Cons.prems(3)]
  show ?case
  proof (cases "\<exists>x. cx_phase s1 = Answered x")
    case False
    with Cons.IH [OF l(2) inv1 cl1 Cons.prems(4)] Cons.prems(6) show ?thesis by simp
  next
    case True
    then obtain x where x: "cx_phase s1 = Answered x" by blast
    from Cons.prems(2,3) obtain r where r: "cx_body s = Some r" "br_err r = Some c" "cx_phase s \<noteq> NoBody"
      and c: "relayed_cause c" by (rule closing_reader)
    have "reader_step l" using other_step [OF l(1) _ r(3)] Cons.prems(5) x by metis
    then have "read_act su l r s = Some s1" using l(1) r(1) by (cases l) (simp_all add: ctx_act_def reader_step_def)
    with x r(2) Cons.prems(5) relayed_not_EOF [OF c] have "x = Some c"
      by (auto simp: read_act_def raw_read_def late_read_def keep_result_def hasError_def
          split: read_phase.splits ctx_label.splits option.splits if_splits prod.splits)
    moreover have "cx_phase s' = Answered x"
      using ctx_run_invariant [where I = "\<lambda>s. cx_phase s = Answered x", OF l(2) x] answered_stays by blast
    ultimately show ?thesis using Cons.prems(6) by simp
  qed
qed simp

subsection \<open>Progress of an interrupted reader\<close>

text \<open>
  The steps that end the reading: those of the reader and the two that the relaying goroutine still
  has to take. \<open>unblocked\<close> are those of them that wait for nobody. A read of the connection may
  wait for the client for ever, so it counts only when the deadline of the connection has passed or
  the body is closed; and \<^verbatim>\<open>Close\<close> of the body takes the mutex that a waiting read holds, so it does
  not count while a read is under way.
\<close>

definition ending_step :: "ctx_label \<Rightarrow> bool" where
  "ending_step l \<longleftrightarrow> reader_step l \<or> l = CutDeadline \<or> l = CloseBody"

definition unblocked :: "httpContext \<Rightarrow> ctx_label \<Rightarrow> bool" where
  "unblocked s l =
     (case l of
        CutDeadline \<Rightarrow> True
      | CloseBody \<Rightarrow> cx_phase s \<noteq> Fetching
      | RawRead k \<Rightarrow> cx_closed s
      | _ \<Rightarrow> reader_step l)"

fun relay_left :: "relay \<Rightarrow> nat" where
  "relay_left (RelayStored c) = 2"
| "relay_left (RelayCut c) = 1"
| "relay_left _ = 0"

text \<open>
  A read that is under way after the deadline has been moved has a deadline that has passed: the
  callback that extends the deadline runs only after a read, and no other read follows it.
\<close>

fun deadline_cut :: "relay \<Rightarrow> bool" where
  "deadline_cut (RelayCut c) = True"
| "deadline_cut (RelayOver (Some c)) = True"
| "deadline_cut _ = False"

definition cut_inv :: "httpContext \<Rightarrow> bool" where
  "cut_inv s \<longleftrightarrow> (deadline_cut (cx_relay s) \<and> cx_phase s = Fetching \<longrightarrow> (\<exists>t. cx_readDeadline s = Some t \<and> t \<le> cx_now s))"

lemma cut_closing: "deadline_cut x \<Longrightarrow> \<exists>c. closing x = Some c"
  by (cases x rule: deadline_cut.cases) simp_all

lemma reading_ends_at_error:
  assumes "read_act su l r s = Some s'" "br_err r \<noteq> None"
  shows "cx_phase s' \<noteq> Fetching"
proof (cases "cx_phase s")
  case Fetching
  with assms show ?thesis
    by (cases l) (auto simp: read_act_def raw_read_def late_read_def split: option.splits if_splits prod.splits)
next
  case (Keeping d e)
  with assms show ?thesis by (cases e) (auto simp: read_act_def keep_result_def split: if_splits)
qed (use assms in \<open>auto simp: read_act_def onReadDone_def split: if_splits\<close>)

lemma cut_inv_step:
  assumes "ctx_inv su s" "ctx_act su l s = Some s'" "cut_inv s"
  shows "cut_inv s'"
proof (cases rule: reader_label_cases [OF assms(2)])
  case relay: 4
  with assms(3) show ?thesis
    by (auto simp: cut_inv_def relay_act_def relay_cause_def split: relay.splits option.splits if_splits)
next
  case read: (6 r)
  show ?thesis
  proof (cases "deadline_cut (cx_relay s)")
    case True
    then obtain c where "closing (cx_relay s) = Some c" using cut_closing by blast
    from closing_reader [OF assms(1) this] read(1) have "br_err r \<noteq> None" by force
    from reading_ends_at_error [OF read(2) this] show ?thesis by (simp add: cut_inv_def)
  qed (use read_act_frame [OF read(2)] in \<open>simp add: cut_inv_def\<close>)
qed (use assms(3) in \<open>fastforce simp: cut_inv_def cancel_def newDelayedContext_def split: option.splits if_splits\<close>)+

lemma cut_inv_run:
  assumes "list_all is_Chunk (su_body su)" "ctx_run su ls s = Some s'" "ctx_inv su s" "cut_inv s"
  shows "cut_inv s'"
  using ctx_run_invariant [where I = "\<lambda>s. ctx_inv su s \<and> cut_inv s", OF assms(2)] assms(3,4) ctx_inv_step [OF assms(1)] cut_inv_step
  by blast

lemma cut_inv_start: "cut_inv (newContext now deadline)"
  by (simp add: cut_inv_def newContext_def)

lemma fetching_goes_on:
  assumes "cx_phase s = Fetching" "cx_body s = Some r" "cx_closed s \<or> (\<exists>t. cx_readDeadline s = Some t \<and> t \<le> cx_now s)"
  shows "\<exists>l s'. ending_step l \<and> unblocked s l \<and> ctx_act su l s = Some s'"
proof (cases "cx_closed s")
  case True
  have "\<exists>s'. ctx_act su (RawRead 1) s = Some s'"
    using assms(1,2) True by (simp add: ctx_act_def read_act_def raw_read_def split: prod.split)
  moreover have "ending_step (RawRead 1)" "unblocked s (RawRead 1)"
    using True by (simp_all add: ending_step_def unblocked_def reader_step_def)
  ultimately show ?thesis by blast
next
  case False
  with assms have "\<exists>s'. ctx_act su TimeOut s = Some s'"
    by (auto simp: ctx_act_def read_act_def late_read_def split: prod.split)
  moreover have "ending_step TimeOut" "unblocked s TimeOut" by (simp_all add: ending_step_def unblocked_def reader_step_def)
  ultimately show ?thesis by blast
qed

lemma closing_goes_on:
  assumes "ctx_inv su s" "cut_inv s" "closing (cx_relay s) = Some c" "\<And>e. cx_phase s \<noteq> Answered e"
  shows "\<exists>l s'. ending_step l \<and> unblocked s l \<and> ctx_act su l s = Some s'"
proof -
  from assms(1,3) obtain r where r: "cx_body s = Some r" "cx_phase s \<noteq> NoBody" by (rule closing_reader)
  have step: "\<exists>l s'. ending_step l \<and> unblocked s l \<and> ctx_act su l s = Some s'"
    if "ctx_act su l s \<noteq> None" "l \<in> {CheckErr, DoneRead, KeepErr, ReadResult, CutDeadline}" for l
    using that by (intro exI [of _ l]) (auto simp: ending_step_def unblocked_def reader_step_def)
  show ?thesis
  proof (cases "cx_phase s")
    case Fetching
    show ?thesis
    proof (cases "deadline_cut (cx_relay s)")
      case True
      from fetching_goes_on [OF Fetching r(1)] assms(2) True Fetching show ?thesis by (auto simp: cut_inv_def)
    next
      case False
      with assms(3) have "cx_relay s = RelayStored c" by (cases "cx_relay s") auto
      then show ?thesis by (intro step [of CutDeadline]) (simp_all add: ctx_act_def relay_act_def)
    qed
  next
    case Checking
    then show ?thesis using r by (intro step [of CheckErr]) (simp_all add: ctx_act_def read_act_def)
  next
    case (Fetched d e)
    then show ?thesis using r by (intro step [of DoneRead]) (simp_all add: ctx_act_def read_act_def)
  next
    case (Keeping d e)
    then show ?thesis using r by (intro step [of KeepErr]) (simp_all add: ctx_act_def read_act_def)
  next
    case AtEnd
    then show ?thesis using r by (intro step [of ReadResult]) (simp_all add: ctx_act_def read_act_def)
  qed (use r(2) assms(4) in auto)
qed

lemma read_act_label: "read_act su l r s = Some s' \<Longrightarrow> reader_step l"
  by (cases l) (simp_all add: read_act_def reader_step_def split: read_phase.splits)

lemma relay_left_step:
  assumes "ctx_act su l s = Some s'" "closing (cx_relay s) = Some c"
  shows "relay_left (cx_relay s') + (if l = CutDeadline \<or> l = CloseBody then 1 else 0) = relay_left (cx_relay s)"
proof (cases rule: reader_label_cases [OF assms(1)])
  case read: (6 r)
  with read_act_frame [OF read(2)] read_act_label [OF read(2)] show ?thesis by (auto simp: reader_step_def)
qed (use assms(2) in \<open>auto simp: cancel_def relay_act_def newDelayedContext_def split: relay.splits option.splits if_splits\<close>)

lemma relay_left_run:
  "ctx_run su ms s = Some s' \<Longrightarrow> closing (cx_relay s) = Some c \<Longrightarrow>
     length (filter (\<lambda>l. l = CutDeadline \<or> l = CloseBody) ms) + relay_left (cx_relay s') = relay_left (cx_relay s)"
proof (induction ms arbitrary: s)
  case (Cons l ms)
  from Cons.prems(1) obtain s1 where l: "ctx_act su l s = Some s1" "ctx_run su ms s1 = Some s'" by (auto split: option.splits)
  from Cons.IH [OF l(2) closing_stays [OF l(1) Cons.prems(2)]] relay_left_step [OF l(1) Cons.prems(2)] show ?case by auto
qed simp

lemma ending_steps:
  "length (filter ending_step ms) = length (filter reader_step ms) + length (filter (\<lambda>l. l = CutDeadline \<or> l = CloseBody) ms)"
  by (induction ms) (auto simp: ending_step_def reader_step_def)

text \<open>
  Property C16. A request to stop reading is obeyed. Once the goroutine has stored the cause in the reader,
  the connection is read at most once more, and at most seven steps that end the reading follow,
  five of the reader and two of the goroutine, however they are interleaved with the rest. As long
  as the handler is not answered one of them can be taken without waiting for the client or for the
  clock: a read that is under way has run into its deadline. The answer is the cause.
\<close>

theorem interrupted_reader_stops:
  assumes "list_all is_Chunk (su_body su)" "ctx_run su ls (newContext now deadline) = Some s" "closing (cx_relay s) = Some c"
    and "ctx_run su ms s = Some s'"
  shows "length (filter fetch_step ms) \<le> 1 \<and> length (filter reader_step ms) \<le> 5 \<and> length (filter ending_step ms) \<le> 7 \<and>
    ((\<exists>e. cx_phase s' = Answered e) \<or> (\<exists>l s''. ending_step l \<and> unblocked s' l \<and> ctx_act su l s' = Some s'')) \<and>
    (\<forall>e. cx_phase s' = Answered e \<longrightarrow> e = Some c \<or> cx_phase s = Answered e)"
proof -
  note inv = ctx_inv_run [OF assms(1,2)]
  note run = closing_run [OF assms(4) inv assms(3,1)]
  have "steps_left ph \<le> 5" "fetches_left ph \<le> 1" for ph by (cases ph; simp add: fetches_left_def)+
  moreover have "relay_left x \<le> 2" for x by (cases x) simp_all
  ultimately have bound: "length (filter fetch_step ms) \<le> 1" "length (filter reader_step ms) \<le> 5"
    "length (filter (\<lambda>l. l = CutDeadline \<or> l = CloseBody) ms) \<le> 2"
    using run relay_left_run [OF assms(4,3)] by (metis (no_types, lifting) add_leD1 le_trans order_refl)+
  have "cut_inv s'"
    using cut_inv_run [OF assms(1,4) inv] cut_inv_run [OF assms(1,2) ctx_inv_start cut_inv_start] by blast
  with closing_goes_on [of su s' c] run
  have "(\<exists>e. cx_phase s' = Answered e) \<or> (\<exists>l s''. ending_step l \<and> unblocked s' l \<and> ctx_act su l s' = Some s'')" by blast
  moreover have "e = Some c \<or> cx_phase s = Answered e" if a: "cx_phase s' = Answered e" for e
  proof (cases "\<exists>x. cx_phase s = Answered x")
    case True
    then obtain x where x: "cx_phase s = Answered x" by blast
    then have "cx_phase s' = Answered x"
      using ctx_run_invariant [where I = "\<lambda>s. cx_phase s = Answered x", OF assms(4) x] answered_stays by blast
    with a x show ?thesis by simp
  qed (use answer_of_closing [OF assms(4) inv assms(3,1) _ a] in auto)
  ultimately show ?thesis using bound by (simp add: ending_steps)
qed

theorem interrupted_reader_stops_witness:
  "\<exists>s s'. ctx_run slow_upload (take 8 interrupted_steps) (newContext 0 None) = Some s \<and> cx_phase s = Fetching \<and>
     ctx_run slow_upload [CutDeadline] s = Some s' \<and> (\<exists>l s''. ending_step l \<and> unblocked s' l \<and> ctx_act slow_upload l s' = Some s'')"
proof -
  have "case ctx_run slow_upload (take 8 interrupted_steps) (newContext 0 None) of None \<Rightarrow> False
    | Some s \<Rightarrow> closing (cx_relay s) = Some (TusError ErrUploadInterrupted) \<and> cx_phase s = Fetching \<and>
        (case ctx_run slow_upload [CutDeadline] s of None \<Rightarrow> False | Some s' \<Rightarrow> cx_phase s' = Fetching)"
    by code_simp
  then obtain s s' where s: "ctx_run slow_upload (take 8 interrupted_steps) (newContext 0 None) = Some s"
    "closing (cx_relay s) = Some (TusError ErrUploadInterrupted)" "cx_phase s = Fetching"
    "ctx_run slow_upload [CutDeadline] s = Some s'" "cx_phase s' = Fetching"
    by (auto split: option.splits simp del: ctx_run.simps)
  have "list_all is_Chunk (su_body slow_upload)" by code_simp
  from interrupted_reader_stops [OF this s(1,2,4)] s show ?thesis by auto
qed

text \<open>
  Property C17. A cancellation that comes before \<^verbatim>\<open>writeChunk\<close> has made the reader is lost: the goroutine finds no
  body, and nothing looks at the cause again. The body is never closed, and the whole upload is
  read as if the lock had not been asked for, although its holder was told to stop.
\<close>

theorem early_cancellation_is_lost:
  assumes "list_all is_Chunk (su_body su)" "ctx_run su (ls @ Wake # ms) (newContext now deadline) = Some s" "NewReader \<notin> set ls"
    and "cx_phase s = Answered e"
  shows "\<not> cx_closed s \<and> ((cx_got s, e) = whole su \<or> e = Some (TusError ErrReadTimeout))"
proof -
  from assms(2) obtain s1 where s1: "ctx_run su ls (newContext now deadline) = Some s1" "ctx_run su (Wake # ms) s1 = Some s"
    by (auto simp: ctx_run_append split: option.splits)
  have none: "cx_body s' = None" if "ctx_run su xs s0 = Some s'" "cx_body s0 = None" "NewReader \<notin> set xs" for xs s0 s'
    using that
  proof (induction xs arbitrary: s0)
    case (Cons l xs)
    then obtain s2 where l: "ctx_act su l s0 = Some s2" "ctx_run su xs s2 = Some s'" by (auto split: option.splits)
    have "cx_body s2 = None" using Cons.prems(2,3)
      by (cases rule: reader_label_cases [OF l(1)])
        (auto simp: cancel_def relay_act_def relay_cause_def newDelayedContext_def split: relay.splits option.splits if_splits)
    with Cons.IH [OF l(2)] Cons.prems(3) show ?case by simp
  qed simp
  have "cx_body s1 = None" by (rule none [OF s1(1) _ assms(3)]) (simp add: newContext_def)
  from s1(2) obtain s2 where s2: "ctx_act su Wake s1 = Some s2" "ctx_run su ms s2 = Some s" by (auto split: option.splits)
  have over: "cx_relay s2 = RelayOver None"
    using s2(1) \<open>cx_body s1 = None\<close> by (auto simp: ctx_act_def relay_act_def relay_cause_def split: relay.splits if_splits)
  have "cx_relay s = RelayOver None"
  proof (rule ctx_run_invariant [where I = "\<lambda>s. cx_relay s = RelayOver None", OF s2(2) over])
    show "cx_relay y = RelayOver None" if "ctx_act su l x = Some y" "cx_relay x = RelayOver None" for l x y
      using that(2) by (cases rule: reader_label_cases [OF that(1)])
        (auto simp: cancel_def relay_act_def newDelayedContext_def dest: read_act_frame split: option.splits if_splits)
  qed
  with ctx_inv_run [OF assms(1,2)] assms(4) show ?thesis
    by (auto simp: ctx_inv_def reader_inv_def follows_def outcome_def split: option.splits)
qed

text \<open>Here the lock is asked for while the handler still fetches the information of the upload.\<close>

definition early_steps :: "ctx_label list" where
  "early_steps =
     [Cancel (TusError ErrUploadInterrupted)] @ Wake #
     [NewReader, CheckErr, RawRead 100, DoneRead, KeepErr, CheckErr, RawRead 100, DoneRead, KeepErr, ReadResult]"

theorem early_cancellation_is_lost_witness:
  "\<exists>s. ctx_run slow_upload early_steps (newContext 0 None) = Some s \<and> cx_cause s = Some (TusError ErrUploadInterrupted, 0) \<and>
     cx_phase s = Answered None \<and> cx_got s = ''abcd'' \<and> \<not> cx_closed s"
proof -
  have "case ctx_run slow_upload early_steps (newContext 0 None) of None \<Rightarrow> False
    | Some s \<Rightarrow> cx_phase s = Answered None \<and> cx_cause s = Some (TusError ErrUploadInterrupted, 0)" by code_simp
  then obtain s where s: "ctx_run slow_upload early_steps (newContext 0 None) = Some s" "cx_phase s = Answered None"
    "cx_cause s = Some (TusError ErrUploadInterrupted, 0)" by (auto split: option.splits)
  have "list_all is_Chunk (su_body slow_upload)" "whole slow_upload = (''abcd'', None)" by code_simp+
  with early_cancellation_is_lost [OF _ s(1) [unfolded early_steps_def] _ s(2)] s show ?thesis by simp
qed

text \<open>What holds of the timer of the delayed context.\<close>

definition delay_inv :: "int \<Rightarrow> httpContext \<Rightarrow> bool" where
  "delay_inv delay s \<longleftrightarrow>
     (\<forall>x. cx_timer s = Some x \<longrightarrow> (\<exists>c t. cx_cause s = Some (c, t) \<and> t + delay \<le> x)) \<and>
     (\<forall>c t. cx_cause s = Some (c, t) \<longrightarrow> t \<le> cx_now s) \<and>
     (cx_done s \<longrightarrow> (\<exists>x. cx_timer s = Some x \<and> x \<le> cx_now s))"

lemma delay_inv_step:
  assumes "ctx_act su l s = Some s'" "delay_inv (su_GracefulRequestCompletionTimeout su) s"
  shows "delay_inv (su_GracefulRequestCompletionTimeout su) s'"
proof (cases rule: reader_label_cases [OF assms(1)])
  case relay: 4
  then have "cx_cause s' = cx_cause s" "cx_timer s' = cx_timer s" "cx_done s' = cx_done s" "cx_now s' = cx_now s"
    by (auto simp: relay_act_def relay_cause_def split: relay.splits option.splits if_splits)
  with assms(2) show ?thesis by (simp add: delay_inv_def)
next
  case read: (6 r)
  from read_act_frame [OF this(2)] assms(2) show ?thesis by (simp add: delay_inv_def)
next
  case delay: 5
  with assms(2) show ?thesis by (fastforce simp: newDelayedContext_def delay_inv_def split: option.splits if_splits)
next
  case cancel: (2 c)
  with assms(2) show ?thesis by (cases "cx_cause s") (auto simp: cancel_def delay_inv_def)
qed (use assms(2) in \<open>fastforce simp: delay_inv_def\<close>)+

text \<open>
  The context that the data stores are given is cancelled only after the grace time: not
  before the request was cancelled, and then the interval of the configuration has passed.
\<close>

theorem store_context_outlives_request:
  assumes "ctx_run su ls (newContext now deadline) = Some s" "cx_done s"
  shows "\<exists>c t. cx_cause s = Some (c, t) \<and> t + su_GracefulRequestCompletionTimeout su \<le> cx_now s"
proof -
  have "delay_inv (su_GracefulRequestCompletionTimeout su) (newContext now deadline)" by (simp add: delay_inv_def newContext_def)
  with ctx_run_invariant [where I = "delay_inv (su_GracefulRequestCompletionTimeout su)", OF assms(1)] delay_inv_step
  have "delay_inv (su_GracefulRequestCompletionTimeout su) s" by blast
  with assms(2) show ?thesis by (fastforce simp: delay_inv_def)
qed

theorem store_context_outlives_request_witness:
  "\<exists>s. ctx_run slow_upload [Pass 3, Cancel (PlainError ''context canceled''), StartDelay, Pass 10, EndDelay] (newContext 0 None) = Some s \<and>
     cx_done s \<and> 3 + 10 \<le> cx_now s"
proof -
  have "case ctx_run slow_upload [Pass 3, Cancel (PlainError ''context canceled''), StartDelay, Pass 10, EndDelay] (newContext 0 None) of
      None \<Rightarrow> False | Some s \<Rightarrow> cx_done s \<and> cx_cause s = Some (PlainError ''context canceled'', 3)" by code_simp
  then obtain s where s: "ctx_run slow_upload [Pass 3, Cancel (PlainError ''context canceled''), StartDelay, Pass 10, EndDelay] (newContext 0 None) = Some s"
    "cx_done s" "cx_cause s = Some (PlainError ''context canceled'', 3)" by (auto split: option.splits)
  from store_context_outlives_request [OF s(1,2)] s show ?thesis by (auto simp: slow_upload_def)
qed

end
