(* ===== verification/Session.thy ===== *)
theory Session
  imports Reliability RequestContext
begin

text \<open>
  Uploads in several PATCH requests, for stores in the cloud. The contract \<open>resumable_store\<close>
  says what the handlers need of a store whose service does not fail; against it, it is proved
  once that a PATCH request at the reported offset succeeds and appends, and that a client that
  sends its data in any number of requests ends with a finished upload that holds all of it.
  The stores interpret the contract in theories of their own.
\<close>

section \<open>Requests that append\<close>

text \<open>
  A request that is to be appended: its body is complete, not interrupted and announced
  truthfully, and it does not declare a length.
\<close>

definition append_request :: "Request \<Rightarrow> bool" where
  "append_request c \<longleftrightarrow> ReqBody c \<noteq> None \<and> request_err c = None \<and> list_all is_Chunk (body_events c) \<and> req_header c ''Upload-Length'' = [] \<and>
     (ContentLength c \<le> 0 \<and> MinInt64 \<le> ContentLength c \<or> ContentLength c = int (length (request_bytes c)))"

lemma append_request_reader:
  assumes "append_request c" "\<not> SizeIsDeferred info" "0 \<le> Offset info" "Size info \<le> MaxInt64"
    "Offset info + int (length (request_bytes c)) \<le> Size info"
  shows "add64 (Offset info) (ContentLength c) \<le> Size info" "reader_data (chunk_reader h c info) = request_bytes c"
    "reader_err (chunk_reader h c info) = None"
proof -
  let ?b = "chunk_reader h c info"
  show "add64 (Offset info) (ContentLength c) \<le> Size info"
    using assms by (auto simp: append_request_def add64_id int64_defs)
  have "int (length (request_bytes c)) \<le> chunk_limit h info (ContentLength c)"
    using assms by (auto simp: append_request_def chunk_limit_def sub64_id Let_def int64_defs)
  then have "limited_run (br_limit ?b) (br_src ?b) = body_run (body_events c)"
    by (auto simp: chunk_reader_def newBodyReader_def limited_run_def request_bytes_def split: prod.splits)
  then show "reader_data ?b = request_bytes c" "reader_err ?b = None"
    using assms(1) by (simp_all add: append_request_def request_err_def request_bytes_def)
qed

text \<open>A reader that has kept no error and will keep none.\<close>

definition quiet_reader :: "bodyReader \<Rightarrow> bool" where
  "quiet_reader r \<longleftrightarrow> br_err r = None \<and> list_all is_Chunk (br_src r) \<and>
     (case br_limitErr r of None \<Rightarrow> 0 \<le> br_limit r \<and> reader_err r = None | Some x \<Rightarrow> x = EOF \<or> x = BodyReadAfterClose)"

lemma append_request_quiet:
  assumes "append_request c" "\<not> SizeIsDeferred info" "0 \<le> Offset info" "Size info \<le> MaxInt64"
    "Offset info + int (length (request_bytes c)) \<le> Size info"
  shows "quiet_reader (chunk_reader h c info)"
  using append_request_reader(3) [OF assms, of h] assms(1)
  by (simp add: quiet_reader_def append_request_def chunk_reader_def newBodyReader_def)

lemma Read_chunks: "Read k r = ((d, e), r') \<Longrightarrow> list_all is_Chunk (br_src r) \<Longrightarrow> list_all is_Chunk (br_src r')"
  by (cases rule: Read_exhaust [where r = r and k = k])
    (auto simp: Read_err Read_close Read_plain Let_def dest!: limit_Read_chunks split: option.splits if_splits)

lemma Read_limitErr: "Read k r = ((d, Some x), r') \<Longrightarrow> br_err r' = None \<Longrightarrow> 0 < k \<Longrightarrow>
    br_limitErr r' = Some EOF \<or> br_limitErr r' = Some BodyReadAfterClose"
  by (cases rule: Read_exhaust [where r = r and k = k])
    (auto simp: Read_err Read_close closeWithError_def Read_plain Let_def limit_Read_def
       split: option.splits if_splits prod.splits)

lemma Read_quiet:
  assumes "Read k r = ((d, e), r')" "quiet_reader r" "0 < k"
  shows "quiet_reader r'"
proof (cases "br_limitErr r")
  case None
  with assms(2) have fresh: "fresh_reader r" and re: "reader_err r = None" by (simp_all add: quiet_reader_def fresh_reader_def)
  have chunks: "list_all is_Chunk (br_src r')" using Read_chunks [OF assms(1)] assms(2) by (simp add: quiet_reader_def)
  from Read_run [OF fresh assms(3,1)] show ?thesis
  proof (elim disjE conjE)
    assume "fresh_reader r'" "limited_run (br_limit r) (br_src r) = (case limited_run (br_limit r') (br_src r') of (ds, x) \<Rightarrow> (d @ ds, x))"
    with re chunks show ?thesis by (auto simp: quiet_reader_def fresh_reader_def split: prod.splits)
  next
    assume "e = None \<longrightarrow> br_err r' \<noteq> None" and run: "limited_run (br_limit r) (br_src r) = (d, br_err r')"
    moreover have "br_err r' = None" using run re by simp
    ultimately show ?thesis using Read_limitErr [of k r d _ r'] assms(1,3) chunks by (cases e) (auto simp: quiet_reader_def)
  qed
next
  case (Some x)
  with assms show ?thesis
    by (cases rule: Read_exhaust [where r = r and k = k])
      (auto simp: quiet_reader_def Read_close Read_plain Let_def limit_Read_def split: if_splits option.splits)
qed

section \<open>The contract\<close>

text \<open>
  \<open>opened s i info c k\<close>: the unfinished upload \<open>i\<close> has the information \<open>info\<close> and the bytes
  \<open>c\<close>, and at least \<open>k\<close> more chunks can be written; \<open>handle\<close> says this of an upload object,
  \<open>written\<close> of the object after a chunk, \<open>finished\<close> of an upload that is complete.
  \<open>chunk_ok\<close> is what the store asks of the bytes of a chunk.
\<close>

locale resumable_store =
  fixes d :: "('s, 'u) DataStore"
    and opened :: "'s \<Rightarrow> string \<Rightarrow> FileInfo \<Rightarrow> bytes \<Rightarrow> nat \<Rightarrow> bool"
    and handle :: "'u \<Rightarrow> 's \<Rightarrow> string \<Rightarrow> FileInfo \<Rightarrow> bytes \<Rightarrow> nat \<Rightarrow> bool"
    and written :: "'u \<Rightarrow> 's \<Rightarrow> string \<Rightarrow> FileInfo \<Rightarrow> bytes \<Rightarrow> nat \<Rightarrow> bool"
    and finished :: "'s \<Rightarrow> string \<Rightarrow> FileInfo \<Rightarrow> bytes \<Rightarrow> bool"
    and chunk_ok :: "bytes \<Rightarrow> bool"
  assumes GetUpload_law:
      "opened s i info c k \<Longrightarrow> int (length c) < Size info \<Longrightarrow> Size info \<le> MaxInt64 \<Longrightarrow>
         \<exists>u s'. GetUpload d i s = (Inr u, s') \<and> handle u s' i info c k"
    and GetInfo_law:
      "handle u s i info c k \<Longrightarrow> int (length c) < Size info \<Longrightarrow> Size info \<le> MaxInt64 \<Longrightarrow>
         \<exists>info' u' s'. GetInfo d u s = (Inr info', u', s') \<and>
           Size info' = Size info \<and> SizeIsDeferred info' = SizeIsDeferred info \<and> IsFinal info' = IsFinal info \<and>
           Offset info' = int (length c) \<and> handle u' s' i info c k"
    and WriteChunk_law:
      "handle u s i info c (Suc k) \<Longrightarrow> \<not> SizeIsDeferred info \<Longrightarrow> Size info \<le> MaxInt64 \<Longrightarrow> fresh_reader b \<Longrightarrow> quiet_reader b \<Longrightarrow>
         chunk_ok (reader_data b) \<Longrightarrow> int (length (c @ reader_data b)) \<le> Size info \<Longrightarrow> int (length c) < Size info \<Longrightarrow>
         \<exists>b' u' s'. WriteChunk d u (int (length c)) b s = ((int (length (reader_data b)), None), b', u', s') \<and>
           br_err b' = None \<and> written u' s' i info (c @ reader_data b) k"
    and written_law:
      "written u s i info c k \<Longrightarrow> int (length c) < Size info \<Longrightarrow> opened s i info c k"
    and FinishUpload_law:
      "written u s i info c k \<Longrightarrow> \<not> SizeIsDeferred info \<Longrightarrow> Size info = int (length c) \<Longrightarrow> Size info \<le> MaxInt64 \<Longrightarrow>
         \<exists>u' s'. FinishUpload d u s = (None, u', s') \<and> finished s' i info c"
begin

text \<open>Where an upload stands after \<open>c\<close> has been stored.\<close>

definition stands :: "'s \<Rightarrow> string \<Rightarrow> FileInfo \<Rightarrow> bytes \<Rightarrow> nat \<Rightarrow> bool" where
  "stands s i info c k \<longleftrightarrow>
     (if int (length c) < Size info then opened s i info c k else finished s i info c)"

lemma store_body_run:
  assumes h: "Core (composer h) = Some d" and src: "ReqBody c = Some src"
    and wr: "WriteChunk d u (Offset info) (chunk_reader h c info) (w_store w) = ((n, None), b', u', s')"
    and e: "br_err b' = None"
  shows "\<exists>w'. run_state (store_body h c u info src) w = (Inr (n, None, u'), w') \<and> w_store w' = s'"
proof -
  have b: "newBodyReader (relayed_events src) (chunk_limit h info (ContentLength c)) = chunk_reader h c info"
    by (simp add: chunk_reader_def body_events_def src)
  show ?thesis using wr e unfolding store_body_def h option.case Let_def b
    by (auto simp: sendProgressMessages_def store_op_def hasError_def errors_Is_def)
qed

lemma finish_run:
  assumes h: "Core (composer h) = Some d" "PreFinishResponseCallback (config h) = None"
    and wr: "written u (w_store w) i info0 c0 k"
    and info: "SizeIsDeferred info = SizeIsDeferred info0" "Size info = Size info0" "Offset info = int (length c0)"
    and size: "\<not> SizeIsDeferred info0" "int (length c0) \<le> Size info0" "Size info0 \<le> MaxInt64"
  shows "\<exists>u' w'. run_state (finishUploadIfComplete h c resp u info) w = (Inr (resp, u'), w') \<and>
    stands (w_store w') i info0 c0 k"
proof (cases "int (length c0) < Size info0")
  case True
  then show ?thesis using wr info written_law [OF wr] by (simp add: finishUploadIfComplete_def stands_def)
next
  case False
  then have full: "Size info0 = int (length c0)" using size(2) by simp
  from FinishUpload_law [OF wr size(1) full size(3)] obtain u' s' where
    "FinishUpload d u (w_store w) = (None, u', s')" "finished s' i info0 c0" by blast
  then show ?thesis using h info size full
    by (auto simp: finishUploadIfComplete_def upload_FinishUpload_def unit_op_def store_op_def emitFinishEvents_def
        count_def stands_def)
qed

text \<open>
  A PATCH request at the end of an unfinished upload, whose bytes fit, succeeds: it answers with the
  new offset, and the bytes are stored; the upload is finished when it has its size.
\<close>

lemma patch_appends:
  assumes h: "Core (composer h) = Some d" "PreFinishResponseCallback (config h) = None"
    and w: "opened (w_store w) i info content (Suc k)" "int (length content) < Size info"
    and info: "\<not> IsFinal info" "\<not> SizeIsDeferred info" "Size info \<le> MaxInt64"
    and c: "append_request c" "chunk_ok (request_bytes c)"
    and fit: "int (length (content @ request_bytes c)) \<le> Size info"
  shows "\<exists>w'. run_state (patch_upload h c c i (int (length content))) w =
      (Inr (set_header ''Upload-Offset'' (FormatInt (int (length (content @ request_bytes c)))) (emptyResponse\<lparr>StatusCode := 204\<rparr>)), w') \<and>
    stands (w_store w') i info (content @ request_bytes c) k"
proof -
  from GetUpload_law [OF w info(3)] obtain u s1 where g: "GetUpload d i (w_store w) = (Inr u, s1)"
    "handle u s1 i info content (Suc k)" by blast
  from GetInfo_law [OF g(2) w(2) info(3)] obtain info1 u2 s2 where gi: "GetInfo d u s1 = (Inr info1, u2, s2)"
    and eq: "Size info1 = Size info" "SizeIsDeferred info1 = SizeIsDeferred info" "Offset info1 = int (length content)"
      "IsFinal info1 = IsFinal info"
    and h2: "handle u2 s2 i info content (Suc k)" by blast
  let ?b = "chunk_reader h c info1"
  have rd: "add64 (Offset info1) (ContentLength c) \<le> Size info1" "reader_data ?b = request_bytes c" "quiet_reader ?b"
    using append_request_reader(1) [OF c(1), of info1] append_request_reader(2) [OF c(1), of info1 h]
      append_request_quiet [OF c(1), of info1 h] eq info fit by simp_all
  from WriteChunk_law [OF h2 info(2,3) fresh_chunk_reader rd(3)] rd(2) c(2) fit w(2) eq(3)
  obtain b' u3 s3 where wc: "WriteChunk d u2 (Offset info1) ?b s2 = ((int (length (request_bytes c)), None), b', u3, s3)"
    "br_err b' = None" "written u3 s3 i info (content @ request_bytes c) k" by auto
  obtain src where src: "ReqBody c = Some src" using c(1) by (auto simp: append_request_def)
  let ?w2 = "w\<lparr>w_store := s2\<rparr>" and ?resp = "emptyResponse\<lparr>StatusCode := 204\<rparr>"
  from store_body_run [OF h(1) src, of u2 info1 ?w2] wc(1,2) obtain w3 where
    body: "run_state (store_body h c u2 info1 src) ?w2 = (Inr (int (length (request_bytes c)), None, u3), w3)" "w_store w3 = s3" by auto
  have off: "add64 (Offset info1) (int (length (request_bytes c))) = int (length (content @ request_bytes c))"
    using eq(3) fit info(3) add64_id [of "int (length content)" "int (length (request_bytes c))"] by (simp add: int64_defs)
  let ?resp1 = "set_header ''Upload-Offset'' (FormatInt (int (length (content @ request_bytes c)))) ?resp"
  let ?info3 = "info1\<lparr>Offset := int (length (content @ request_bytes c)), hasStop := True\<rparr>"
  let ?w4 = "w3\<lparr>w_metrics := incBytesReceived (word_of_int (int (length (request_bytes c)))) (w_metrics w3)\<rparr>"
  have "written u3 (w_store ?w4) i info (content @ request_bytes c) k" using wc(3) body(2) by simp
  from finish_run [OF h this, of ?info3 c ?resp1] eq info fit obtain u5 w5 where
    fin: "run_state (finishUploadIfComplete h c ?resp1 u3 ?info3) ?w4 = (Inr (?resp1, u5), w5)"
      "stands (w_store w5) i info (content @ request_bytes c) k" by auto
  have "run_state (writeChunk h c ?resp u2 info1) ?w2 = (Inr (?resp1, u5), w5)"
    using body(1) fin(1) rd(1) src off unfolding writeChunk_def Let_def
    by (auto simp: count_def not_less)
  moreover have "run_state (core_GetUpload h i) w = (Inr u, w\<lparr>w_store := s1\<rparr>)"
    "run_state (upload_GetInfo h u) (w\<lparr>w_store := s1\<rparr>) = (Inr (info1, u2), ?w2)"
    using g(1) gi(1) h(1) by (simp_all add: core_GetUpload_def upload_GetInfo_def store_op_def)
  moreover have "req_header c ''Upload-Length'' = []" using c(1) by (simp add: append_request_def)
  ultimately have "run_state (patch_upload h c c i (int (length content))) w = (Inr ?resp1, w5)"
    using eq info w(2)
    by (simp add: patch_upload_def patch_checked_def Let_def declare_length_def complete_deferred_def)
  with fin(2) show ?thesis by blast
qed

text \<open>
  A client that sends its data in several requests, each at the offset that it was told: all
  requests succeed, and the finished upload holds all of the data.
\<close>

end

text \<open>The answers to these requests: each one tells the next offset.\<close>

fun session_responses :: "int \<Rightarrow> Request list \<Rightarrow> HTTPResponse list" where
  "session_responses offset [] = []"
| "session_responses offset (c # cs) =
     (let next_offset = offset + int (length (request_bytes c))
      in set_header ''Upload-Offset'' (FormatInt next_offset) (emptyResponse\<lparr>StatusCode := 204\<rparr>) # session_responses next_offset cs)"

fun patch_session ::
  "('s, 'u, 'l, 'k) UnroutedHandler \<Rightarrow> string \<Rightarrow> Request list \<Rightarrow> int \<Rightarrow> ('s, 'l, HTTPResponse list) io" where
  "patch_session h i [] offset = okE []"
| "patch_session h i (c # cs) offset =
     bindE (patch_upload h c c i offset) (\<lambda>resp.
     bindE (patch_session h i cs (offset + int (length (request_bytes c)))) (\<lambda>resps.
     okE (resp # resps)))"

context resumable_store
begin

lemma patch_session_finishes:
  assumes "Core (composer h) = Some d" "PreFinishResponseCallback (config h) = None"
    and "opened (w_store w) i info content (length cs)" "cs \<noteq> []"
    and "\<not> IsFinal info" "\<not> SizeIsDeferred info" "Size info \<le> MaxInt64"
    and "list_all append_request cs" "list_all (\<lambda>c. chunk_ok (request_bytes c)) cs"
    and "list_all (\<lambda>c. request_bytes c \<noteq> []) cs"
    and "Size info = int (length (content @ concat (map request_bytes cs)))"
  shows "\<exists>w'. run_state (patch_session h i cs (int (length content))) w = (Inr (session_responses (int (length content)) cs), w') \<and>
    finished (w_store w') i info (content @ concat (map request_bytes cs))"
  using assms(3-)
proof (induction cs arbitrary: w content)
  case (Cons c cs)
  have pos: "0 < length (request_bytes c)" using Cons.prems(8) by simp
  have fit: "int (length (content @ request_bytes c)) \<le> Size info" using Cons.prems(9) by simp
  have less: "int (length content) < Size info" using pos fit unfolding length_append by linarith
  have c: "append_request c" "chunk_ok (request_bytes c)" and k: "opened (w_store w) i info content (Suc (length cs))"
    using Cons.prems(1,6,7) by simp_all
  let ?resp = "set_header ''Upload-Offset'' (FormatInt (int (length (content @ request_bytes c)))) (emptyResponse\<lparr>StatusCode := 204\<rparr>)"
  from patch_appends [OF assms(1,2) k less Cons.prems(3,4,5) c fit] obtain w1 where
    one: "run_state (patch_upload h c c i (int (length content))) w = (Inr ?resp, w1)"
      "stands (w_store w1) i info (content @ request_bytes c) (length cs)" by blast
  show ?case
  proof (cases "cs = []")
    case True
    with one Cons.prems(9) show ?thesis by (simp add: stands_def)
  next
    case False
    then obtain c2 cs2 where cs: "cs = c2 # cs2" by (cases cs) auto
    have "0 < length (request_bytes c2)" using Cons.prems(8) by (simp add: cs)
    moreover have "Size info = int (length (content @ request_bytes c)) + int (length (request_bytes c2)) +
        int (length (concat (map request_bytes cs2)))" using Cons.prems(9) by (simp add: cs)
    ultimately have "int (length (content @ request_bytes c)) < Size info" by linarith
    then have "opened (w_store w1) i info (content @ request_bytes c) (length cs)" using one(2) by (simp add: stands_def)
    from Cons.IH [OF this False Cons.prems(3,4,5)] Cons.prems(6-9) obtain w2 where
      "run_state (patch_session h i cs (int (length (content @ request_bytes c)))) w1 =
         (Inr (session_responses (int (length (content @ request_bytes c))) cs), w2)"
      "finished (w_store w2) i info ((content @ request_bytes c) @ concat (map request_bytes cs))" by auto
    with one(1) show ?thesis by (simp add: Let_def)
  qed
qed simp

end

end
