(* ===== verification/S3Store.thy ===== *)
theory S3Store
  imports FileStore "HOL-Library.Signed_Division"
begin

text \<open>
  The storage backend for Amazon S3 (\<^verbatim>\<open>pkg/s3store/s3store.go\<close>, \<^verbatim>\<open>s3store_part_producer.go\<close> and
  \<^verbatim>\<open>serve_content.go\<close>). An upload is an S3 multipart upload, an object with its information and,
  while the last bytes do not fill a part, an object with the incomplete part. The service
  itself is not part of the repository: it is a record of operations on a state \<open>'s\<close>.

  Requests that the code sends at the same time are made one after the other here (\<open>S3Requests\<close> and
  \<open>S3Workers\<close> are about other orders); the errors of a group of requests are collected in their order. Temporary files are represented by their
  bytes, and the operations on them fail as \<open>fs_faults\<close> of the local machine says.
\<close>

section \<open>The service\<close>

text \<open>
  An error of the service: the Go type and the code that the SDK gives it, the HTTP response it
  carries, and the error value that is handed on.
\<close>

record aws_error =
  aws_type :: string
  aws_code :: string
  aws_response :: "(int \<times> string list gomap) option"
  aws_err :: err

definition isAwsError :: "string \<Rightarrow> aws_error \<Rightarrow> bool" where
  "isAwsError t e \<longleftrightarrow> aws_type e = t"

definition isAwsErrorCode :: "aws_error \<Rightarrow> string \<Rightarrow> bool" where
  "isAwsErrorCode e code \<longleftrightarrow> aws_code e = code"

record GetObjectInput =
  go_Key :: string
  go_Range :: "string option"
  go_IfMatch :: "string option"
  go_IfNoneMatch :: "string option"
  go_IfModifiedSince :: "int option"
  go_IfUnmodifiedSince :: "int option"

definition plainInput :: "string \<Rightarrow> GetObjectInput" where
  "plainInput key = \<lparr>go_Key = key, go_Range = None, go_IfMatch = None, go_IfNoneMatch = None,
     go_IfModifiedSince = None, go_IfUnmodifiedSince = None\<rparr>"

text \<open>The answer to \<^verbatim>\<open>GetObject\<close>; reading the body may end with an error.\<close>

record GetObjectOutput =
  gr_Body :: contents
  gr_BodyErr :: "err option"
  gr_AcceptRanges :: "string option"
  gr_ContentDisposition :: "string option"
  gr_ContentEncoding :: "string option"
  gr_ContentLanguage :: "string option"
  gr_ContentLength :: "int option"
  gr_ContentRange :: "string option"
  gr_ContentType :: "string option"
  gr_CacheControl :: "string option"
  gr_ETag :: "string option"
  gr_ExpiresString :: "string option"
  gr_LastModified :: "int option"

record s3Part =
  pt_number :: int
  pt_size :: int
  pt_etag :: string

record ListPartsOutput =
  lp_Parts :: "s3Part list"
  lp_IsTruncated :: "bool option"
  lp_NextPartNumberMarker :: "string option"

record 's S3API =
  svc_PutObject :: "string \<Rightarrow> string \<Rightarrow> contents \<Rightarrow> 's \<Rightarrow> aws_error option \<times> 's"
  svc_ListParts :: "string \<Rightarrow> string \<Rightarrow> string \<Rightarrow> string option \<Rightarrow> int option \<Rightarrow> 's \<Rightarrow> (aws_error + ListPartsOutput) \<times> 's"
  svc_UploadPart :: "string \<Rightarrow> string \<Rightarrow> string \<Rightarrow> int \<Rightarrow> bytes \<Rightarrow> 's \<Rightarrow> (aws_error + string) \<times> 's"
  svc_GetObject :: "string \<Rightarrow> GetObjectInput \<Rightarrow> 's \<Rightarrow> (aws_error + GetObjectOutput) \<times> 's"
  svc_HeadObject :: "string \<Rightarrow> string \<Rightarrow> 's \<Rightarrow> (aws_error + int) \<times> 's"
  svc_CreateMultipartUpload :: "string \<Rightarrow> string \<Rightarrow> string gomap \<Rightarrow> string option \<Rightarrow> 's \<Rightarrow> (aws_error + string) \<times> 's"
  svc_AbortMultipartUpload :: "string \<Rightarrow> string \<Rightarrow> string \<Rightarrow> 's \<Rightarrow> aws_error option \<times> 's"
  svc_DeleteObject :: "string \<Rightarrow> string \<Rightarrow> 's \<Rightarrow> aws_error option \<times> 's"
  svc_DeleteObjects :: "string \<Rightarrow> string list \<Rightarrow> 's \<Rightarrow> (aws_error + (string \<times> string \<times> string) list) \<times> 's"
  svc_CompleteMultipartUpload :: "string \<Rightarrow> string \<Rightarrow> string \<Rightarrow> (string \<times> int) list \<Rightarrow> 's \<Rightarrow> aws_error option \<times> 's"
  svc_UploadPartCopy :: "string \<Rightarrow> string \<Rightarrow> string \<Rightarrow> int \<Rightarrow> string \<Rightarrow> 's \<Rightarrow> (aws_error + string) \<times> 's"

text \<open>
  What the store runs on: the local machine, the service, whether the environment asks for
  parts in memory, after how many parts the context of the request is found to be done, and how
  many pages of parts are listed at most.
\<close>

record 's s3env =
  machine :: filesys
  remote :: 's
  tempMemory :: bool
  ctxDone :: "nat option"
  maxPages :: nat

definition call :: "('s \<Rightarrow> 'a \<times> 's) \<Rightarrow> 's s3env \<Rightarrow> 'a \<times> 's s3env" where
  "call f s = (case f (remote s) of (r, x) \<Rightarrow> (r, s\<lparr>remote := x\<rparr>))"

text \<open>An operation on a temporary file.\<close>

definition tmp_op :: "string \<Rightarrow> filesys \<Rightarrow> err option \<times> filesys" where
  "tmp_op name m =
     (case tick m of
        (Some f, m1) \<Rightarrow> (Some (PlainError (path_error name ''tusd-s3-tmp'' (fault_text f))), m1)
      | (None, m1) \<Rightarrow> (None, m1))"

definition on_machine :: "(filesys \<Rightarrow> 'a \<times> filesys) \<Rightarrow> 's s3env \<Rightarrow> 'a \<times> 's s3env" where
  "on_machine f s = (case f (machine s) of (r, m) \<Rightarrow> (r, s\<lparr>machine := m\<rparr>))"

section \<open>The store\<close>

text \<open>
  \<open>presign\<close> and \<open>http_Put\<close> are the presigning client of the SDK, which is there only for a
  real client, and the HTTP client with the status, the body and the \<^verbatim>\<open>ETag\<close> of its response.
\<close>

record 's S3Store =
  Bucket :: string
  ObjectPrefix :: string
  MetadataObjectPrefix :: string
  Service :: "'s S3API"
  MaxPartSize :: int
  MinPartSize :: int
  PreferredPartSize :: int
  MaxMultipartParts :: int
  MaxObjectSize :: int
  MaxBufferedParts :: int
  TemporaryDirectory :: string
  DisableContentHashes :: bool
  presign :: "(string \<Rightarrow> string \<Rightarrow> string \<Rightarrow> int \<Rightarrow> err + string) option"
  http_Put :: "string \<Rightarrow> bytes \<Rightarrow> int \<Rightarrow> 's \<Rightarrow> (err + int \<times> bytes \<times> string) \<times> 's"

definition s3_New ::
  "string \<Rightarrow> 's S3API \<Rightarrow> (string \<Rightarrow> string \<Rightarrow> string \<Rightarrow> int \<Rightarrow> err + string) option \<Rightarrow>
     (string \<Rightarrow> bytes \<Rightarrow> int \<Rightarrow> 's \<Rightarrow> (err + int \<times> bytes \<times> string) \<times> 's) \<Rightarrow> 's S3Store" where
  "s3_New bucket service sign put =
     \<lparr>Bucket = bucket, ObjectPrefix = [], MetadataObjectPrefix = [], Service = service,
      MaxPartSize = 5 * 1024 * 1024 * 1024, MinPartSize = 5 * 1024 * 1024,
      PreferredPartSize = 50 * 1024 * 1024, MaxMultipartParts = 10000,
      MaxObjectSize = 5 * 1024 * 1024 * 1024 * 1024, MaxBufferedParts = 20, TemporaryDirectory = [],
      DisableContentHashes = False, presign = sign, http_Put = put\<rparr>"

definition errIncompleteUpload :: Error where
  "errIncompleteUpload = NewError ''ERR_INCOMPLETE_UPLOAD'' ''cannot stream non-finished upload'' 400"

record s3Upload =
  objectId :: string
  multipartId :: string
  up_info :: "FileInfo option"
  up_parts :: "s3Part list"
  incompletePartSize :: int

definition withSlash :: "string \<Rightarrow> string" where
  "withSlash p = (if p \<noteq> [] \<and> \<not> HasSuffix p ''/'' then p @ ''/'' else p)"

definition keyWithPrefix :: "'s S3Store \<Rightarrow> string \<Rightarrow> string" where
  "keyWithPrefix store key = withSlash (ObjectPrefix store) @ key"

definition metadataKeyWithPrefix :: "'s S3Store \<Rightarrow> string \<Rightarrow> string" where
  "metadataKeyWithPrefix store key =
     withSlash (if MetadataObjectPrefix store = [] then ObjectPrefix store else MetadataObjectPrefix store) @ key"

definition splitIds :: "string \<Rightarrow> string \<times> string" where
  "splitIds i =
     (case LastIndex i CHR ''+'' of
        None \<Rightarrow> ([], [])
      | Some index \<Rightarrow> (take index i, drop (index + 1) i))"

text \<open>\<^verbatim>\<open>nonPrintableRegexp.ReplaceAllString(value, "?")\<close>; it works on characters, not on bytes.\<close>

definition printable :: "string \<Rightarrow> string" where
  "printable v =
     concat (map (\<lambda>r. case r of
         Some [c] \<Rightarrow> if c = CHR 0x09 \<or> in_range c 0x20 0x7E then [c] else ''?''
       | _ \<Rightarrow> ''?'') (runes v))"

definition part_size_error :: "'s S3Store \<Rightarrow> int \<Rightarrow> int \<Rightarrow> err" where
  "part_size_error store sz optimalPartSize =
     PlainError (''calcOptimalPartSize: to upload '' @ FormatInt sz @ '' bytes optimalPartSize '' @
       FormatInt optimalPartSize @ '' must exceed MaxPartSize '' @ FormatInt (MaxPartSize store))"

text \<open>Go's division truncates and panics at zero.\<close>

definition calcOptimalPartSize :: "'s S3Store \<Rightarrow> int \<Rightarrow> err + int" where
  "calcOptimalPartSize store sz =
     (if sz \<le> PreferredPartSize store \<or> sz \<le> mul64 (PreferredPartSize store) (MaxMultipartParts store)
      then (if PreferredPartSize store > MaxPartSize store
            then Inl (part_size_error store sz (PreferredPartSize store))
            else Inr (PreferredPartSize store))
      else if MaxMultipartParts store = 0 then Inl (Panic ''integer divide by zero'')
      else
        (let optimalPartSize =
           (if sz smod MaxMultipartParts store = 0 then wrap64 (sz sdiv MaxMultipartParts store)
            else add64 (wrap64 (sz sdiv MaxMultipartParts store)) 1)
         in if optimalPartSize > MaxPartSize store
            then Inl (part_size_error store sz optimalPartSize)
            else Inr optimalPartSize))"

section \<open>Requests for single objects\<close>

text \<open>The reader over a downloaded object.\<close>

definition body_bytes :: "'s s3env \<Rightarrow> GetObjectOutput \<Rightarrow> bytes" where
  "body_bytes s ob = render (machine s) (gr_Body ob)"

fun json_Decode :: "contents \<Rightarrow> err option \<Rightarrow> err + FileInfo" where
  "json_Decode (J info # rest) e = Inr info"
| "json_Decode f (Some e) = Inl e"
| "json_Decode f None = Inl (PlainError ''unexpected end of JSON input'')"

definition s3_writeInfo :: "'s S3Store \<Rightarrow> s3Upload \<Rightarrow> FileInfo \<Rightarrow> 's s3env \<Rightarrow> err option \<times> s3Upload \<times> 's s3env" where
  "s3_writeInfo store u info s =
     (case call (svc_PutObject (Service store) (Bucket store)
                   (metadataKeyWithPrefix store (objectId u @ ''.info'')) (json_Marshal info)) s of
        (e, s1) \<Rightarrow> (map_option aws_err e, u\<lparr>up_info := Some info\<rparr>, s1))"

text \<open>The loop over the pages of parts, at most \<open>n\<close> of them.\<close>

fun list_pages ::
  "nat \<Rightarrow> 's S3Store \<Rightarrow> string \<Rightarrow> string \<Rightarrow> string option \<Rightarrow> s3Part list \<Rightarrow> 's s3env \<Rightarrow>
     (aws_error + s3Part list) \<times> 's s3env" where
  "list_pages 0 store oid mid marker parts s =
     (Inl \<lparr>aws_type = [], aws_code = [], aws_response = None, aws_err = Panic ''too many pages''\<rparr>, s)"
| "list_pages (Suc n) store oid mid marker parts s =
     (case call (svc_ListParts (Service store) (Bucket store) (keyWithPrefix store oid) mid marker None) s of
        (Inl e, s1) \<Rightarrow> (Inl e, s1)
      | (Inr page, s1) \<Rightarrow>
          (let parts1 = parts @ lp_Parts page
           in if lp_IsTruncated page = Some True
              then list_pages n store oid mid (lp_NextPartNumberMarker page) parts1 s1
              else (Inr parts1, s1)))"

definition listAllParts :: "'s S3Store \<Rightarrow> string \<Rightarrow> string \<Rightarrow> 's s3env \<Rightarrow> (aws_error + s3Part list) \<times> 's s3env" where
  "listAllParts store oid mid s = list_pages (maxPages s) store oid mid None [] s"

definition getIncompletePartForUpload ::
  "'s S3Store \<Rightarrow> string \<Rightarrow> 's s3env \<Rightarrow> (err + GetObjectOutput option) \<times> 's s3env" where
  "getIncompletePartForUpload store uploadId s =
     (case call (svc_GetObject (Service store) (Bucket store)
                   (plainInput (metadataKeyWithPrefix store (uploadId @ ''.part'')))) s of
        (Inr ob, s1) \<Rightarrow> (Inr (Some ob), s1)
      | (Inl e, s1) \<Rightarrow>
          if isAwsError ''NoSuchKey'' e \<or> isAwsError ''NotFound'' e \<or> isAwsErrorCode e ''AccessDenied'' \<or> isAwsErrorCode e ''Forbidden''
          then (Inr None, s1) else (Inl (aws_err e), s1))"

definition downloadIncompletePartForUpload ::
  "'s S3Store \<Rightarrow> string \<Rightarrow> 's s3env \<Rightarrow> (err + bytes option) \<times> 's s3env" where
  "downloadIncompletePartForUpload store uploadId s =
     (case getIncompletePartForUpload store uploadId s of
        (Inl e, s1) \<Rightarrow> (Inl e, s1)
      | (Inr None, s1) \<Rightarrow> (Inr None, s1)
      | (Inr (Some ob), s1) \<Rightarrow>
          (case on_machine (tmp_op ''open'') s1 of
             (Some e, s2) \<Rightarrow> (Inl e, s2)
           | (None, s2) \<Rightarrow>
               (case on_machine (tmp_op ''write'') s2 of
                  (Some e, s3) \<Rightarrow> (Inl e, s3)
                | (None, s3) \<Rightarrow>
                    (case gr_BodyErr ob of
                       Some e \<Rightarrow> (Inl e, s3)
                     | None \<Rightarrow>
                         (case gr_ContentLength ob of
                            None \<Rightarrow> (Inl (Panic ''nil pointer dereference''), s3)
                          | Some len \<Rightarrow>
                              if int (length (body_bytes s3 ob)) < len
                              then (Inl (PlainError ''short read of incomplete upload''), s3)
                              else (case on_machine (tmp_op ''seek'') s3 of
                                      (Some e, s4) \<Rightarrow> (Inl e, s4)
                                    | (None, s4) \<Rightarrow> (Inr (Some (body_bytes s3 ob)), s4)))))))"

definition headIncompletePartForUpload :: "'s S3Store \<Rightarrow> string \<Rightarrow> 's s3env \<Rightarrow> (err + int) \<times> 's s3env" where
  "headIncompletePartForUpload store uploadId s =
     (case call (svc_HeadObject (Service store) (Bucket store)
                   (metadataKeyWithPrefix store (uploadId @ ''.part''))) s of
        (Inr len, s1) \<Rightarrow> (Inr len, s1)
      | (Inl e, s1) \<Rightarrow>
          if isAwsError ''NoSuchKey'' e \<or> isAwsError ''NotFound'' e \<or> isAwsErrorCode e ''AccessDenied'' \<or> isAwsErrorCode e ''Forbidden''
          then (Inr 0, s1) else (Inl (aws_err e), s1))"

definition putIncompletePartForUpload :: "'s S3Store \<Rightarrow> string \<Rightarrow> bytes \<Rightarrow> 's s3env \<Rightarrow> err option \<times> 's s3env" where
  "putIncompletePartForUpload store uploadId data s =
     (case call (svc_PutObject (Service store) (Bucket store)
                   (metadataKeyWithPrefix store (uploadId @ ''.part'')) (map B data)) s of
        (e, s1) \<Rightarrow> (map_option aws_err e, s1))"

definition deleteIncompletePartForUpload :: "'s S3Store \<Rightarrow> string \<Rightarrow> 's s3env \<Rightarrow> err option \<times> 's s3env" where
  "deleteIncompletePartForUpload store uploadId s =
     (case call (svc_DeleteObject (Service store) (Bucket store)
                   (metadataKeyWithPrefix store (uploadId @ ''.part''))) s of
        (e, s1) \<Rightarrow> (map_option aws_err e, s1))"

definition putPartForUpload ::
  "'s S3Store \<Rightarrow> s3Upload \<Rightarrow> int \<Rightarrow> bytes \<Rightarrow> int \<Rightarrow> 's s3env \<Rightarrow> (err + string) \<times> 's s3env" where
  "putPartForUpload store u partNumber data len s =
     (if \<not> DisableContentHashes store then
        (case call (svc_UploadPart (Service store) (Bucket store) (keyWithPrefix store (objectId u))
                      (multipartId u) partNumber data) s of
           (Inl e, s1) \<Rightarrow> (Inl (aws_err e), s1)
         | (Inr etag, s1) \<Rightarrow> (Inr etag, s1))
      else
        (case presign store of
           None \<Rightarrow> (Inl (PlainError ''s3store: failed to cast S3 service for presigning''), s)
         | Some sign \<Rightarrow>
             (case sign (Bucket store) (keyWithPrefix store (objectId u)) (multipartId u) partNumber of
                Inl e \<Rightarrow> (Inl (PlainError (''s3store: failed to presign UploadPart: '' @ err_text e)), s)
              | Inr url \<Rightarrow>
                  (case call (http_Put store url data len) s of
                     (Inl e, s1) \<Rightarrow> (Inl e, s1)
                   | (Inr (status, text, etag), s1) \<Rightarrow>
                       if status \<noteq> 200
                       then (Inl (PlainError (''s3store: unexpected response code '' @ FormatInt status @
                                              '' for presigned upload: '' @ text)), s1)
                       else (Inr etag, s1)))))"

section \<open>The information of an upload\<close>

text \<open>
  The errors of the three requests are looked at after all of them are done. A multipart upload
  that is not found has been completed.
\<close>

definition fetched_info ::
  "aws_error + GetObjectOutput \<Rightarrow> aws_error + s3Part list \<Rightarrow> err + int \<Rightarrow> err + FileInfo \<times> s3Part list \<times> int" where
  [simp]: "fetched_info infoRes partsRes sizeRes =
     (case infoRes of
        Inl e \<Rightarrow> Inl (if isAwsError ''NoSuchKey'' e then TusError ErrNotFound else aws_err e)
      | Inr ob \<Rightarrow>
          (case json_Decode (gr_Body ob) (gr_BodyErr ob) of
             Inl e \<Rightarrow> Inl e
           | Inr info \<Rightarrow>
               (case partsRes of
                  Inl e \<Rightarrow>
                    if isAwsError ''NoSuchUpload'' e \<or> isAwsErrorCode e ''NoSuchUpload'' \<or>
                       isAwsError ''NoSuchKey'' e \<or> isAwsErrorCode e ''NoSuchKey''
                    then Inr (info\<lparr>Offset := Size info\<rparr>, [], (case sizeRes of Inr n \<Rightarrow> n | Inl x \<Rightarrow> 0))
                    else Inl (aws_err e)
                | Inr parts \<Rightarrow>
                    (case sizeRes of
                       Inl e \<Rightarrow> Inl e
                     | Inr n \<Rightarrow>
                         Inr (info\<lparr>Offset := fold (\<lambda>p acc. add64 acc (pt_size p)) parts n\<rparr>, parts, n)))))"

definition fetchInfo ::
  "'s S3Store \<Rightarrow> s3Upload \<Rightarrow> 's s3env \<Rightarrow> (err + FileInfo \<times> s3Part list \<times> int) \<times> 's s3env" where
  "fetchInfo store u s =
     (case call (svc_GetObject (Service store) (Bucket store)
                   (plainInput (metadataKeyWithPrefix store (objectId u @ ''.info'')))) s of
        (infoRes, s1) \<Rightarrow>
      case listAllParts store (objectId u) (multipartId u) s1 of
        (partsRes, s2) \<Rightarrow>
      case headIncompletePartForUpload store (objectId u) s2 of
        (sizeRes, s3) \<Rightarrow> (fetched_info infoRes partsRes sizeRes, s3))"

definition getInternalInfo ::
  "'s S3Store \<Rightarrow> s3Upload \<Rightarrow> 's s3env \<Rightarrow> (err + FileInfo \<times> s3Part list \<times> int) \<times> s3Upload \<times> 's s3env" where
  "getInternalInfo store u s =
     (case up_info u of
        Some info \<Rightarrow> (Inr (info, up_parts u, incompletePartSize u), u, s)
      | None \<Rightarrow>
          (case fetchInfo store u s of
             (Inl e, s1) \<Rightarrow> (Inl e, u, s1)
           | (Inr (info, parts, n), s1) \<Rightarrow>
               (Inr (info, parts, n), u\<lparr>up_info := Some info, up_parts := parts, incompletePartSize := n\<rparr>, s1)))"

definition s3_GetInfo :: "'s S3Store \<Rightarrow> s3Upload \<Rightarrow> 's s3env \<Rightarrow> (err + FileInfo) \<times> s3Upload \<times> 's s3env" where
  "s3_GetInfo store u s =
     (case getInternalInfo store u s of
        (Inl e, u1, s1) \<Rightarrow> (Inl e, u1, s1)
      | (Inr (info, parts, n), u1, s1) \<Rightarrow> (Inr info, u1, s1))"

section \<open>Cutting the body into parts\<close>

text \<open>
  The source of the parts: the file with the incomplete part, read first, and the body. Reading
  is limited to the size of a part, by \<^verbatim>\<open>io.Copy\<close> from an \<^verbatim>\<open>io.LimitReader\<close>.
\<close>

record partSource =
  ps_pending :: bytes
  ps_body :: bodyReader

definition multi_Read :: "nat \<Rightarrow> partSource \<Rightarrow> (bytes \<times> err option) \<times> partSource" where
  "multi_Read k r =
     (if ps_pending r \<noteq> [] then ((take k (ps_pending r), None), r\<lparr>ps_pending := drop k (ps_pending r)\<rparr>)
      else (case Read k (ps_body r) of (res, b) \<Rightarrow> (res, r\<lparr>ps_body := b\<rparr>)))"

definition ps_measure :: "partSource \<Rightarrow> nat" where
  "ps_measure r = length (ps_pending r) + br_measure (ps_body r)"

lemma multi_Read_measure:
  assumes "multi_Read k r = ((d, None), r')" "0 < k"
  shows "ps_measure r' < ps_measure r"
proof (cases "ps_pending r = []")
  case True
  with assms show ?thesis
    by (auto simp: multi_Read_def ps_measure_def dest: Read_measure split: prod.splits)
next
  case False
  with assms show ?thesis by (auto simp: multi_Read_def ps_measure_def)
qed

function copy_limited :: "int \<Rightarrow> partSource \<Rightarrow> (bytes \<times> err option) \<times> partSource" where
  "copy_limited n r =
     (if n \<le> 0 then (([], None), r)
      else case multi_Read (min (nat n) copy_buf) r of
        ((d, Some e), r1) \<Rightarrow> ((d, if e = EOF then None else Some e), r1)
      | ((d, None), r1) \<Rightarrow>
          (case copy_limited (n - int (length d)) r1 of ((ds, e), r2) \<Rightarrow> ((d @ ds, e), r2)))"
  by pat_completeness auto
termination
  by (relation "measure (\<lambda>(n, r). ps_measure r)")
    (auto simp: copy_buf_def intro!: multi_Read_measure [OF sym] split: if_splits)

declare copy_limited.simps [simp del]

text \<open>A read that delivers bytes makes the source smaller, also when it reports the end.\<close>

lemma raw_Read_data:
  "raw_Read k src = ((d, e), src') \<Longrightarrow> d \<noteq> [] \<Longrightarrow>
     sum_list (map event_size src') < sum_list (map event_size src)"
  by (induction k src rule: raw_Read.induct) (auto split: if_splits)

lemma limit_Read_data:
  assumes "limit_Read k r = ((d, e), r')" "d \<noteq> []"
  shows "br_err r' = br_err r" "br_measure r' < br_measure r"
proof -
  obtain d' e' src' where raw: "raw_Read (limit_buf k (br_limit r)) (br_src r) = ((d', e'), src')"
    by (metis surj_pair)
  show "br_err r' = br_err r"
    using assms raw by (auto simp: limit_Read_def split: if_splits option.splits)
  have "d' \<noteq> []" using assms raw by (auto simp: limit_Read_def split: if_splits option.splits)
  from raw_Read_data [OF raw this] assms raw show "br_measure r' < br_measure r"
    by (auto simp: limit_Read_def br_measure_def split: if_splits option.splits)
qed

lemma Read_data:
  assumes "Read k r = ((d, e), r')" "d \<noteq> []"
  shows "br_measure r' < br_measure r"
proof (cases rule: Read_exhaust [where r = r and k = k])
  case (plain d1 e1 r1)
  from plain assms(1) have "d1 = d" by (auto simp: Read_plain Let_def split: option.splits if_splits)
  with plain limit_Read_data [OF plain(3)] assms show ?thesis
    by (auto simp: Read_plain Let_def br_measure_def split: option.splits if_splits)
qed (use assms in \<open>auto simp: Read_err Read_close\<close>)

lemma multi_Read_data:
  assumes "multi_Read k r = ((d, e), r')" "d \<noteq> []"
  shows "ps_measure r' < ps_measure r"
proof (cases "ps_pending r = []")
  case True
  with assms show ?thesis
    by (auto simp: multi_Read_def ps_measure_def dest: Read_data split: prod.splits)
next
  case False
  with assms show ?thesis by (cases k) (auto simp: multi_Read_def ps_measure_def)
qed

lemma Read_measure_le:
  assumes "Read k r = ((d, e), r')" "0 < k"
  shows "br_measure r' \<le> br_measure r"
proof (cases rule: Read_exhaust [where r = r and k = k])
  case (plain d1 e1 r1)
  note m = limit_Read_measure [OF plain(3) assms(2)]
  from plain m assms(1) show ?thesis
    by (auto simp: Read_plain Let_def br_measure_def split: option.splits if_splits)
qed (use assms in \<open>auto simp: Read_err Read_close br_measure_def closeWithError_def\<close>)

lemma multi_Read_measure_le:
  "multi_Read k r = ((d, e), r') \<Longrightarrow> 0 < k \<Longrightarrow> ps_measure r' \<le> ps_measure r"
  by (auto simp: multi_Read_def ps_measure_def dest: Read_measure_le split: if_splits prod.splits)

lemma copy_limited_measure_le: "copy_limited n r = ((d, e), r') \<Longrightarrow> ps_measure r' \<le> ps_measure r"
proof (induction n r arbitrary: d e r' rule: copy_limited.induct)
  case (1 n r)
  show ?case
  proof (cases "n \<le> 0")
    case False
    obtain d1 e1 r1 where read: "multi_Read (min (nat n) copy_buf) r = ((d1, e1), r1)"
      by (metis surj_pair)
    have le: "ps_measure r1 \<le> ps_measure r"
      using multi_Read_measure_le [OF read] False by (simp add: copy_buf_def split: if_splits)
    show ?thesis
    proof (cases e1)
      case None
      obtain ds e2 r2 where rest: "copy_limited (n - int (length d1)) r1 = ((ds, e2), r2)" by (metis surj_pair)
      from 1(1) [OF False read [symmetric] refl None rest] le 1(2) show ?thesis
        using False None rest by (subst (asm) copy_limited.simps) (simp add: read)
    qed (use le 1(2) False in \<open>subst (asm) copy_limited.simps, auto simp: read\<close>)
  qed (use 1(2) in \<open>subst (asm) copy_limited.simps, simp\<close>)
qed

lemma copy_limited_measure:
  assumes "copy_limited n r = ((d, e), r')" "d \<noteq> []"
  shows "ps_measure r' < ps_measure r"
proof -
  from assms have n: "\<not> n \<le> 0" by (subst (asm) copy_limited.simps) (auto split: if_splits)
  obtain d1 e1 r1 where read: "multi_Read (min (nat n) copy_buf) r = ((d1, e1), r1)"
    by (metis surj_pair)
  show ?thesis
  proof (cases e1)
    case None
    obtain ds e2 r2 where rest: "copy_limited (n - int (length d1)) r1 = ((ds, e2), r2)" by (metis surj_pair)
    have "ps_measure r1 < ps_measure r"
      using multi_Read_measure [OF read [unfolded None]] n by (simp add: copy_buf_def)
    with copy_limited_measure_le [OF rest] assms(1) n None show ?thesis
      by (subst (asm) copy_limited.simps) (simp add: read rest)
  next
    case (Some x)
    from assms n have "d1 = d \<and> r1 = r'" by (subst (asm) copy_limited.simps) (simp add: read Some)
    with multi_Read_data [OF read] assms(2) show ?thesis by simp
  qed
qed

record fileChunk =
  fc_reader :: bytes
  fc_inMemory :: bool
  fc_size :: int

text \<open>Closing a part and removing its file.\<close>

definition closeReader :: "fileChunk \<Rightarrow> filesys \<Rightarrow> err option \<times> filesys" where
  "closeReader c m = (if fc_inMemory c then (None, m) else tmp_op ''remove'' m)"

text \<open>
  The next part, \<open>None\<close> at the end of the source. When the write to the temporary file fails,
  \<open>fault_written\<close> says how much had been read.
\<close>

definition nextPart ::
  "bool \<Rightarrow> int \<Rightarrow> partSource \<Rightarrow> filesys \<Rightarrow> (err + fileChunk option) \<times> partSource \<times> filesys" where
  "nextPart mem partSize r m =
     (if \<not> mem then
        (case tmp_op ''open'' m of
           (Some e, m1) \<Rightarrow> (Inl e, r, m1)
         | (None, m1) \<Rightarrow>
             (case copy_limited partSize r of
                (([], Some e), r1) \<Rightarrow> (Inl e, r1, m1)
              | (([], None), r1) \<Rightarrow> (Inr None, r1, m1)
              | ((d, e), r1) \<Rightarrow>
                  (case tick m1 of
                     (Some f, m2) \<Rightarrow>
                       (Inl (PlainError (path_error ''write'' ''tusd-s3-tmp'' (fault_text f))),
                        snd (copy_limited (min partSize (int (fault_written f))) r), m2)
                   | (None, m2) \<Rightarrow>
                       (case e of
                          Some x \<Rightarrow> (Inl x, r1, m2)
                        | None \<Rightarrow>
                            (case tmp_op ''seek'' m2 of
                               (Some x, m3) \<Rightarrow> (Inl x, r1, m3)
                             | (None, m3) \<Rightarrow>
                                 (Inr (Some \<lparr>fc_reader = d, fc_inMemory = False, fc_size = int (length d)\<rparr>), r1, m3))))))
      else
        (case copy_limited partSize r of
           ((d, Some e), r1) \<Rightarrow> (Inl e, r1, m)
         | ((d, None), r1) \<Rightarrow>
             (if d = [] then Inr None
              else Inr (Some \<lparr>fc_reader = d, fc_inMemory = True, fc_size = int (length d)\<rparr>), r1, m)))"

lemma nextPart_Some:
  assumes "nextPart mem partSize r m = (Inr (Some c), r', m')"
  shows "copy_limited partSize r = ((fc_reader c, None), r')" "fc_reader c \<noteq> []"
    "fc_size c = int (length (fc_reader c))" "fc_inMemory c = mem"
  using assms by (auto simp: nextPart_def split: if_splits prod.splits option.splits list.splits)

lemma nextPart_measure: "nextPart mem partSize r m = (Inr (Some c), r', m') \<Longrightarrow> ps_measure r' < ps_measure r"
  by (rule copy_limited_measure [OF nextPart_Some(1,2)])

text \<open>
  The parts that are handed over through the channel, and the error that ended the production.
  \<open>ctx\<close> counts the parts until the context is found to be done.
\<close>

function produce ::
  "bool \<Rightarrow> int \<Rightarrow> nat option \<Rightarrow> partSource \<Rightarrow> filesys \<Rightarrow> (fileChunk list \<times> err option) \<times> partSource \<times> filesys" where
  "produce mem partSize ctx r m =
     (case nextPart mem partSize r m of
        (Inl e, r1, m1) \<Rightarrow> (([], Some e), r1, m1)
      | (Inr None, r1, m1) \<Rightarrow> (([], None), r1, m1)
      | (Inr (Some c), r1, m1) \<Rightarrow>
          if ctx = Some 0 then (([], None), r1, m1)
          else (case produce mem partSize (map_option (\<lambda>n. n - 1) ctx) r1 m1 of
                  ((cs, e), r2, m2) \<Rightarrow> ((c # cs, e), r2, m2)))"
  by pat_completeness auto
termination
  by (relation "measure (\<lambda>(mem, partSize, ctx, r, m). ps_measure r)")
    (auto intro: nextPart_measure [OF sym])

declare produce.simps [simp del]

definition producesInMemory :: "'s S3Store \<Rightarrow> 's s3env \<Rightarrow> bool" where
  "producesInMemory store s \<longleftrightarrow> tempMemory s \<or> TemporaryDirectory store = ''_memory''"

section \<open>Writing\<close>

definition wrap32 :: "int \<Rightarrow> int" where
  "wrap32 x = (x + 2147483648) mod 4294967296 - 2147483648"

text \<open>
  The part of the loop that runs as a goroutine of its own: a full or final part is uploaded and
  gets its \<^verbatim>\<open>ETag\<close>, another one is stored as the incomplete part.
\<close>

definition upload_part :: "'s S3Store \<Rightarrow> s3Upload \<Rightarrow> int \<Rightarrow> fileChunk \<Rightarrow> 's s3env \<Rightarrow> err option \<times> s3Upload \<times> 's s3env" where
  "upload_part store u num c s =
     (case putPartForUpload store u num (fc_reader c) (fc_size c) s of
        (res, s1) \<Rightarrow>
      case on_machine (closeReader c) s1 of
        (cerr, s2) \<Rightarrow>
          (case res of
             Inl e \<Rightarrow> (Some e, u\<lparr>up_parts := up_parts u @ [\<lparr>pt_number = num, pt_size = fc_size c, pt_etag = []\<rparr>]\<rparr>, s2)
           | Inr etag \<Rightarrow> (cerr, u\<lparr>up_parts := up_parts u @ [\<lparr>pt_number = num, pt_size = fc_size c, pt_etag = etag\<rparr>]\<rparr>, s2)))"

definition store_incomplete :: "'s S3Store \<Rightarrow> s3Upload \<Rightarrow> fileChunk \<Rightarrow> 's s3env \<Rightarrow> err option \<times> s3Upload \<times> 's s3env" where
  "store_incomplete store u c s =
     (case putIncompletePartForUpload store (objectId u) (fc_reader c) s of
        (res, s1) \<Rightarrow>
      case on_machine (closeReader c) s1 of
        (cerr, s2) \<Rightarrow>
          (case res of
             Some e \<Rightarrow> (Some e, u, s2)
           | None \<Rightarrow> (cerr, u\<lparr>incompletePartSize := fc_size c\<rparr>, s2)))"

text \<open>The loop over the parts: the bytes it has counted and the first error of its goroutines.\<close>

fun upload_chunks ::
  "'s S3Store \<Rightarrow> FileInfo \<Rightarrow> int \<Rightarrow> int \<Rightarrow> int \<Rightarrow> fileChunk list \<Rightarrow> s3Upload \<Rightarrow> 's s3env \<Rightarrow>
     (int \<times> err option) \<times> s3Upload \<times> 's s3env" where
  "upload_chunks store info offset bytesUploaded nextPartNum [] u s = ((bytesUploaded, None), u, s)"
| "upload_chunks store info offset bytesUploaded nextPartNum (c # cs) u s =
     (let isFinalChunk = (\<not> SizeIsDeferred info \<and> Size info = add64 (add64 offset bytesUploaded) (fc_size c))
      in case (if MinPartSize store \<le> fc_size c \<or> isFinalChunk then upload_part store u nextPartNum c s
               else store_incomplete store u c s) of
           (e, u1, s1) \<Rightarrow>
         case upload_chunks store info offset (add64 bytesUploaded (fc_size c)) (wrap32 (nextPartNum + 1)) cs u1 s1 of
           ((n, e'), u2, s2) \<Rightarrow> ((n, case e of Some x \<Rightarrow> Some x | None \<Rightarrow> e'), u2, s2))"

definition uploadParts ::
  "'s S3Store \<Rightarrow> s3Upload \<Rightarrow> int \<Rightarrow> partSource \<Rightarrow> 's s3env \<Rightarrow> (int \<times> err option) \<times> partSource \<times> s3Upload \<times> 's s3env" where
  "uploadParts store u offset src s =
     (case getInternalInfo store u s of
        (Inl e, u1, s1) \<Rightarrow> ((0, Some e), src, u1, s1)
      | (Inr (info, parts, n), u1, s1) \<Rightarrow>
          (case calcOptimalPartSize store (Size info) of
             Inl e \<Rightarrow> ((0, Some e), src, u1, s1)
           | Inr optimalPartSize \<Rightarrow>
               (case produce (producesInMemory store s1) optimalPartSize (ctxDone s1) src (machine s1) of
                  ((cs, perr), src1, m) \<Rightarrow>
                case upload_chunks store info offset 0 (wrap32 (int (length parts) + 1)) cs u1 (s1\<lparr>machine := m\<rparr>) of
                  ((bytesUploaded, Some e), u2, s2) \<Rightarrow> ((0, Some e), src1, u2, s2)
                | ((bytesUploaded, None), u2, s2) \<Rightarrow> ((bytesUploaded, perr), src1, u2, s2))))"

definition add_bytes :: "int \<Rightarrow> s3Upload \<Rightarrow> s3Upload" where
  "add_bytes n u = u\<lparr>up_info := map_option (\<lambda>info. info\<lparr>Offset := add64 (Offset info) n\<rparr>) (up_info u)\<rparr>"

text \<open>The incomplete part is taken out of the bucket, to be put in front of the body.\<close>

definition take_incomplete :: "'s S3Store \<Rightarrow> string \<Rightarrow> int \<Rightarrow> int \<Rightarrow> 's s3env \<Rightarrow> (err + bytes \<times> int) \<times> 's s3env" where
  "take_incomplete store oid partSize offset s =
     (if partSize > 0 then
        (case downloadIncompletePartForUpload store oid s of
           (Inl e, s2) \<Rightarrow> (Inl e, s2)
         | (Inr None, s2) \<Rightarrow> (Inl (PlainError ''s3store: Expected an incomplete part file but did not get any''), s2)
         | (Inr (Some pending), s2) \<Rightarrow>
             (case deleteIncompletePartForUpload store oid s2 of
                (Some e, s3) \<Rightarrow> (Inl e, s3)
              | (None, s3) \<Rightarrow> (Inr (pending, sub64 offset partSize), s3)))
      else (Inr ([], offset), s))"

definition s3_WriteChunk ::
  "'s S3Store \<Rightarrow> s3Upload \<Rightarrow> int \<Rightarrow> bodyReader \<Rightarrow> 's s3env \<Rightarrow> (int \<times> err option) \<times> bodyReader \<times> s3Upload \<times> 's s3env" where
  "s3_WriteChunk store u offset src s =
     (case getInternalInfo store u s of
        (Inl e, u1, s1) \<Rightarrow> ((0, Some e), src, u1, s1)
      | (Inr (info, parts, partSize), u1, s1) \<Rightarrow>
          (case take_incomplete store (objectId u1) partSize offset s1 of
             (Inl e, s2) \<Rightarrow> ((0, Some e), src, u1, s2)
           | (Inr (pending, offset'), s2) \<Rightarrow>
               (case uploadParts store u1 offset' \<lparr>ps_pending = pending, ps_body = src\<rparr> s2 of
                  ((bytesUploaded, e), src1, u2, s3) \<Rightarrow>
                    (let n = max (sub64 bytesUploaded partSize) 0
                     in ((n, e), ps_body src1, add_bytes n u2, s3)))))"

section \<open>Creating, reading, finishing and removing\<close>

definition s3_NewUpload :: "'s S3Store \<Rightarrow> FileInfo \<Rightarrow> 's s3env \<Rightarrow> (err + s3Upload) \<times> 's s3env" where
  "s3_NewUpload store info s =
     (if Size info > MaxObjectSize store
      then (Inl (PlainError (''s3store: upload size of '' @ FormatInt (Size info) @
                             '' bytes exceeds MaxObjectSize of '' @ FormatInt (MaxObjectSize store) @ '' bytes'')), s)
      else
        (case (if ID info = [] then on_machine Uid s else (Inr (ID info), s)) of
           (Inl e, s1) \<Rightarrow> (Inl e, s1)
         | (Inr oid, s1) \<Rightarrow>
             (case call (svc_CreateMultipartUpload (Service store) (Bucket store) (keyWithPrefix store oid)
                           (map (\<lambda>(k, v). (k, printable v)) (MetaData info)) (map_of (MetaData info) ''filetype'')) s1 of
                (Inl e, s2) \<Rightarrow>
                  (Inl (PlainError (''s3store: unable to create multipart upload:'' @ [CHR 0x0A] @ err_text (aws_err e))), s2)
              | (Inr mid, s2) \<Rightarrow>
                  (case s3_writeInfo store
                          \<lparr>objectId = oid, multipartId = mid, up_info = None, up_parts = [], incompletePartSize = 0\<rparr>
                          (info\<lparr>ID := oid @ ''+'' @ mid,
                                Storage := [(''Type'', ''s3store''), (''Bucket'', Bucket store),
                                            (''Key'', keyWithPrefix store oid)]\<rparr>) s2 of
                     (Some e, u, s3) \<Rightarrow>
                       (Inl (PlainError (''s3store: unable to create info file:'' @ [CHR 0x0A] @ err_text e)), s3)
                   | (None, u, s3) \<Rightarrow> (Inr u, s3)))))"

definition s3_GetUpload :: "'s S3Store \<Rightarrow> string \<Rightarrow> 's s3env \<Rightarrow> (err + s3Upload) \<times> 's s3env" where
  "s3_GetUpload store i s =
     (case splitIds i of (oid, mid) \<Rightarrow>
        if oid = [] \<or> mid = [] then (Inl (TusError ErrNotFound), s)
        else (Inr \<lparr>objectId = oid, multipartId = mid, up_info = None, up_parts = [], incompletePartSize = 0\<rparr>, s))"

definition s3_GetReader ::
  "'s S3Store \<Rightarrow> s3Upload \<Rightarrow> 's s3env \<Rightarrow> (err + bytes \<times> err option) \<times> s3Upload \<times> 's s3env" where
  "s3_GetReader store u s =
     (case call (svc_GetObject (Service store) (Bucket store) (plainInput (keyWithPrefix store (objectId u)))) s of
        (Inr ob, s1) \<Rightarrow> (Inr (body_bytes s1 ob, gr_BodyErr ob), u, s1)
      | (Inl e, s1) \<Rightarrow>
          if \<not> isAwsError ''NoSuchKey'' e then (Inl (aws_err e), u, s1)
          else
            (case call (svc_ListParts (Service store) (Bucket store) (keyWithPrefix store (objectId u))
                          (multipartId u) None (Some 0)) s1 of
               (Inr page, s2) \<Rightarrow> (Inl (TusError errIncompleteUpload), u, s2)
             | (Inl e2, s2) \<Rightarrow>
                 if isAwsError ''NoSuchUpload'' e2 \<or> isAwsErrorCode e2 ''NoSuchUpload''
                 then (Inl (TusError ErrNotFound), u, s2) else (Inl (aws_err e2), u, s2)))"

text \<open>\<^verbatim>\<open>errors.Join\<close>.\<close>

definition join_errors :: "err list \<Rightarrow> err option" where
  "join_errors es = (if es = [] then None else Some (PlainError (Join [CHR 0x0A] (map err_text es))))"

definition delete_error :: "string \<times> string \<times> string \<Rightarrow> err" where
  "delete_error x = (case x of (code, key, message) \<Rightarrow>
     PlainError (''AWS S3 Error ('' @ code @ '') for object '' @ key @ '': '' @ message))"

definition s3_Terminate :: "'s S3Store \<Rightarrow> s3Upload \<Rightarrow> 's s3env \<Rightarrow> err option \<times> s3Upload \<times> 's s3env" where
  "s3_Terminate store u s =
     (case call (svc_AbortMultipartUpload (Service store) (Bucket store) (keyWithPrefix store (objectId u)) (multipartId u)) s of
        (abortErr, s1) \<Rightarrow>
      case call (svc_DeleteObjects (Service store) (Bucket store)
                   [keyWithPrefix store (objectId u), metadataKeyWithPrefix store (objectId u @ ''.part''),
                    metadataKeyWithPrefix store (objectId u @ ''.info'')]) s1 of
        (res, s2) \<Rightarrow>
          (join_errors
             ((case abortErr of Some e \<Rightarrow> if isAwsError ''NoSuchUpload'' e then [] else [aws_err e] | None \<Rightarrow> []) @
              (case res of
                 Inl e \<Rightarrow> [aws_err e]
               | Inr errs \<Rightarrow> map delete_error (filter (\<lambda>x. fst x \<noteq> ''NoSuchKey'') errs))), u, s2))"

definition s3_FinishUpload :: "'s S3Store \<Rightarrow> s3Upload \<Rightarrow> 's s3env \<Rightarrow> err option \<times> s3Upload \<times> 's s3env" where
  "s3_FinishUpload store u s =
     (case getInternalInfo store u s of
        (Inl e, u1, s1) \<Rightarrow> (Some e, u, s1)
      | (Inr (info, parts, n), u1, s1) \<Rightarrow>
          (case (if parts = [] then
                   (case call (svc_UploadPart (Service store) (Bucket store) (keyWithPrefix store (objectId u))
                                 (multipartId u) 1 []) s1 of
                      (Inl e, s2) \<Rightarrow> (Inl (aws_err e), s2)
                    | (Inr etag, s2) \<Rightarrow> (Inr [\<lparr>pt_number = 1, pt_size = 0, pt_etag = etag\<rparr>], s2))
                 else (Inr parts, s1)) of
             (Inl e, s2) \<Rightarrow> (Some e, u, s2)
           | (Inr parts', s2) \<Rightarrow>
               (case call (svc_CompleteMultipartUpload (Service store) (Bucket store) (keyWithPrefix store (objectId u))
                             (multipartId u) (map (\<lambda>p. (pt_etag p, pt_number p)) parts')) s2 of
                  (e, s3) \<Rightarrow> (map_option aws_err e, u, s3))))"

definition s3_DeclareLength :: "'s S3Store \<Rightarrow> s3Upload \<Rightarrow> int \<Rightarrow> 's s3env \<Rightarrow> err option \<times> s3Upload \<times> 's s3env" where
  "s3_DeclareLength store u len s =
     (case s3_GetInfo store u s of
        (Inl e, u1, s1) \<Rightarrow> (Some e, u1, s1)
      | (Inr info, u1, s1) \<Rightarrow> s3_writeInfo store u1 (info\<lparr>Size := len, SizeIsDeferred := False\<rparr>) s1)"

section \<open>Concatenation\<close>

text \<open>Whether a partial upload is too small for a part.\<close>

fun has_small_part :: "'s S3Store \<Rightarrow> s3Upload list \<Rightarrow> 's s3env \<Rightarrow> (err + bool) \<times> 's s3env" where
  "has_small_part store [] s = (Inr False, s)"
| "has_small_part store (p # ps) s =
     (case s3_GetInfo store p s of
        (Inl e, p1, s1) \<Rightarrow> (Inl e, s1)
      | (Inr info, p1, s1) \<Rightarrow>
          (case has_small_part store ps s1 of
             (Inl e, s2) \<Rightarrow> (Inl e, s2)
           | (Inr small, s2) \<Rightarrow> (Inr (Size info < MinPartSize store \<or> small), s2)))"

text \<open>The temporary file that is filled with the objects of the partial uploads.\<close>

fun download_all :: "'s S3Store \<Rightarrow> s3Upload list \<Rightarrow> bytes \<Rightarrow> 's s3env \<Rightarrow> (err + bytes) \<times> 's s3env" where
  "download_all store [] data s = (Inr data, s)"
| "download_all store (p # ps) data s =
     (case call (svc_GetObject (Service store) (Bucket store) (plainInput (keyWithPrefix store (objectId p)))) s of
        (Inl e, s1) \<Rightarrow> (Inl (aws_err e), s1)
      | (Inr ob, s1) \<Rightarrow>
          (case on_machine (tmp_op ''write'') s1 of
             (Some e, s2) \<Rightarrow> (Inl e, s2)
           | (None, s2) \<Rightarrow>
               (case gr_BodyErr ob of
                  Some e \<Rightarrow> (Inl e, s2)
                | None \<Rightarrow> download_all store ps (data @ body_bytes s2 ob) s2)))"

definition concatUsingDownload :: "'s S3Store \<Rightarrow> s3Upload \<Rightarrow> s3Upload list \<Rightarrow> 's s3env \<Rightarrow> err option \<times> s3Upload \<times> 's s3env" where
  "concatUsingDownload store u partials s =
     (case on_machine (tmp_op ''open'') s of
        (Some e, s1) \<Rightarrow> (Some e, u, s1)
      | (None, s1) \<Rightarrow>
          (case download_all store partials [] s1 of
             (Inl e, s2) \<Rightarrow> (Some e, u, s2)
           | (Inr data, s2) \<Rightarrow>
               (case on_machine (tmp_op ''seek'') s2 of
                  (Some e, s3) \<Rightarrow> (Some e, u, s3)
                | (None, s3) \<Rightarrow>
                    (case call (svc_PutObject (Service store) (Bucket store) (keyWithPrefix store (objectId u)) (map B data)) s3 of
                       (Some e, s4) \<Rightarrow> (Some (aws_err e), u, s4)
                     | (None, s4) \<Rightarrow>
                         (case call (svc_AbortMultipartUpload (Service store) (Bucket store)
                                       (keyWithPrefix store (objectId u)) (multipartId u)) s4 of
                            (ignored, s5) \<Rightarrow> (None, u, s5))))))"

text \<open>
  The copies, numbered from one, and the first error. The entry of a part that could not be
  copied is left out; it is not read again.
\<close>

fun copy_parts ::
  "'s S3Store \<Rightarrow> s3Upload \<Rightarrow> int \<Rightarrow> s3Upload list \<Rightarrow> 's s3env \<Rightarrow> (s3Part list \<times> err option) \<times> 's s3env" where
  "copy_parts store u num [] s = (([], None), s)"
| "copy_parts store u num (p # ps) s =
     (case call (svc_UploadPartCopy (Service store) (Bucket store) (keyWithPrefix store (objectId u)) (multipartId u) num
                   (Bucket store @ ''/'' @ keyWithPrefix store (objectId p))) s of
        (res, s1) \<Rightarrow>
      case copy_parts store u (wrap32 (num + 1)) ps s1 of
        ((parts, e), s2) \<Rightarrow>
          (case res of
             Inl x \<Rightarrow> (parts, Some (aws_err x))
           | Inr etag \<Rightarrow> (\<lparr>pt_number = num, pt_size = -1, pt_etag = etag\<rparr> # parts, e), s2))"

definition concatUsingMultipart :: "'s S3Store \<Rightarrow> s3Upload \<Rightarrow> s3Upload list \<Rightarrow> 's s3env \<Rightarrow> err option \<times> s3Upload \<times> 's s3env" where
  "concatUsingMultipart store u partials s =
     (case copy_parts store u 1 partials s of
        ((parts, Some e), s1) \<Rightarrow> (Some e, u\<lparr>up_parts := parts\<rparr>, s1)
      | ((parts, None), s1) \<Rightarrow> s3_FinishUpload store (u\<lparr>up_parts := parts\<rparr>) s1)"

definition s3_ConcatUploads :: "'s S3Store \<Rightarrow> s3Upload \<Rightarrow> s3Upload list \<Rightarrow> 's s3env \<Rightarrow> err option \<times> s3Upload \<times> 's s3env" where
  "s3_ConcatUploads store u partials s =
     (case has_small_part store partials s of
        (Inl e, s1) \<Rightarrow> (Some e, u, s1)
      | (Inr small, s1) \<Rightarrow>
          if small then concatUsingDownload store u partials s1
          else concatUsingMultipart store u partials s1)"

section \<open>Serving content\<close>

text \<open>
  \<open>ParseTime\<close> and \<open>FormatTime\<close> are the conversions of \<^verbatim>\<open>net/http\<close> and \<^verbatim>\<open>time\<close> between times
  and the format of HTTP headers.
\<close>

definition opt_header :: "string \<Rightarrow> string option" where
  "opt_header v = (if v = [] then None else Some v)"

definition serve_input :: "(string \<Rightarrow> int option) \<Rightarrow> 's S3Store \<Rightarrow> s3Upload \<Rightarrow> Request \<Rightarrow> GetObjectInput" where
  "serve_input ParseTime store u r =
     \<lparr>go_Key = keyWithPrefix store (objectId u), go_Range = opt_header (req_header r ''Range''),
      go_IfMatch = opt_header (req_header r ''If-Match''),
      go_IfNoneMatch = opt_header (req_header r ''If-None-Match''),
      go_IfModifiedSince = Option.bind (opt_header (req_header r ''If-Modified-Since'')) ParseTime,
      go_IfUnmodifiedSince = Option.bind (opt_header (req_header r ''If-Unmodified-Since'')) ParseTime\<rparr>"

definition copy_header :: "string list gomap \<Rightarrow> string \<Rightarrow> ResponseWriter \<Rightarrow> ResponseWriter" where
  "copy_header h k w = (if header_Get h k = [] then w else set_rw_header k (header_Get h k) w)"

definition serve_error :: "aws_error \<Rightarrow> ResponseWriter \<Rightarrow> err option \<times> ResponseWriter" where
  "serve_error e w0 =
     (let w = w0\<lparr>rw_header := header_Del ''Content-Disposition'' (header_Del ''Content-Type'' (rw_header w0))\<rparr>
      in case aws_response e of
           None \<Rightarrow> (Some (aws_err e), w)
         | Some (status, h) \<Rightarrow>
             if status = 404 \<or> status = 403 then (Some (TusError errIncompleteUpload), w)
             else if status = 304 then
               (None, WriteHeader 304 (fold (copy_header h)
                  [''Content-Location'', ''Date'', ''ETag'', ''Vary'', ''Cache-Control'', ''Expires''] w))
             else if status = 416 then (None, WriteHeader 416 (copy_header h ''Content-Range'' w))
             else (Some (aws_err e), w))"

definition set_opt :: "string \<times> string option \<Rightarrow> ResponseWriter \<Rightarrow> ResponseWriter" where
  "set_opt p w = (case p of (k, v) \<Rightarrow> (case v of None \<Rightarrow> w | Some x \<Rightarrow> set_rw_header k x w))"

definition serve_status :: "GetObjectOutput \<Rightarrow> int" where
  "serve_status ob =
     (if gr_ContentRange ob \<noteq> None then 206
      else if gr_ContentLength ob = Some 0 then 204 else 200)"

definition serve_result :: "(int \<Rightarrow> string) \<Rightarrow> bytes \<Rightarrow> GetObjectOutput \<Rightarrow> ResponseWriter \<Rightarrow> err option \<times> ResponseWriter" where
  "serve_result FormatTime data ob w =
     (gr_BodyErr ob,
      rw_Write data (WriteHeader (serve_status ob) (fold set_opt
        [(''Accept-Ranges'', gr_AcceptRanges ob), (''Content-Disposition'', gr_ContentDisposition ob),
         (''Content-Encoding'', gr_ContentEncoding ob), (''Content-Language'', gr_ContentLanguage ob),
         (''Content-Length'', map_option FormatInt (gr_ContentLength ob)), (''Content-Range'', gr_ContentRange ob),
         (''Content-Type'', gr_ContentType ob), (''Cache-Control'', gr_CacheControl ob), (''ETag'', gr_ETag ob),
         (''Expires'', gr_ExpiresString ob), (''Last-Modified'', map_option FormatTime (gr_LastModified ob))] w)))"

definition s3_ServeContent ::
  "(string \<Rightarrow> int option) \<Rightarrow> (int \<Rightarrow> string) \<Rightarrow> 's S3Store \<Rightarrow> s3Upload \<Rightarrow> Request \<Rightarrow> ResponseWriter \<Rightarrow> 's s3env \<Rightarrow>
     err option \<times> ResponseWriter \<times> 's s3env" where
  "s3_ServeContent ParseTime FormatTime store u r w s =
     (case call (svc_GetObject (Service store) (Bucket store) (serve_input ParseTime store u r)) s of
        (Inl e, s1) \<Rightarrow> (case serve_error e w of (x, w1) \<Rightarrow> (x, w1, s1))
      | (Inr ob, s1) \<Rightarrow> (case serve_result FormatTime (body_bytes s1 ob) ob w of (x, w1) \<Rightarrow> (x, w1, s1)))"

section \<open>The data store\<close>

definition s3Store :: "'s S3Store \<Rightarrow> ('s s3env, s3Upload) DataStore" where
  "s3Store store =
     \<lparr>NewUpload = s3_NewUpload store, GetUpload = s3_GetUpload store, WriteChunk = s3_WriteChunk store,
      GetInfo = s3_GetInfo store, GetReader = s3_GetReader store, FinishUpload = s3_FinishUpload store\<rparr>"

definition s3_UseIn ::
  "(string \<Rightarrow> int option) \<Rightarrow> (int \<Rightarrow> string) \<Rightarrow> 's S3Store \<Rightarrow>
     ('s s3env, s3Upload, 'l, 'k) StoreComposer \<Rightarrow> ('s s3env, s3Upload, 'l, 'k) StoreComposer" where
  "s3_UseIn ParseTime FormatTime store c =
     UseContentServer (Some (s3_ServeContent ParseTime FormatTime store))
       (UseLengthDeferrer (Some (s3_DeclareLength store))
       (UseConcater (Some (s3_ConcatUploads store))
       (UseTerminater (Some (s3_Terminate store))
       (UseCore (Some (s3Store store)) c))))"

end
