(* ===== verification/S3Parts.thy ===== *)
theory S3Parts
  imports S3Store
begin

text \<open>
  The parts of an S3 upload: how large they are, how many there can be, how the body is cut
  into them, and how identifiers and object keys are built.
\<close>

section \<open>Identifiers\<close>

lemma splitIds_append: "CHR ''+'' \<notin> set mid \<Longrightarrow> splitIds (oid @ ''+'' @ mid) = (oid, mid)"
  using LastIndex_append [of _ mid oid] by (simp add: splitIds_def)

text \<open>
  The identifier that a new upload gets is split again into the object and the multipart
  upload it was made of, also when the object's name contains plus signs; the service must not
  put one into its own identifiers.
\<close>

theorem splitIds_roundtrip:
  assumes "CHR ''+'' \<notin> set mid"
  shows "splitIds (oid @ ''+'' @ mid) = (oid, mid)"
  using assms by (rule splitIds_append)

theorem splitIds_roundtrip_witness: "splitIds (''a+b'' @ ''+'' @ ''m1'') = (''a+b'', ''m1'')"
  by (rule splitIds_roundtrip) simp

section \<open>The size of a part\<close>

definition wf_store :: "'s S3Store \<Rightarrow> bool" where
  "wf_store store \<longleftrightarrow> 0 < MinPartSize store \<and> MinPartSize store \<le> PreferredPartSize store \<and>
     PreferredPartSize store \<le> MaxPartSize store \<and> 0 < MaxMultipartParts store \<and>
     MaxPartSize store * MaxMultipartParts store \<le> MaxInt64 \<and>
     MaxObjectSize store \<le> MaxPartSize store * MaxMultipartParts store"

lemma wf_s3_New: "wf_store (s3_New bucket service sign put)"
  by (simp add: wf_store_def s3_New_def MaxInt64_def)

lemma wf_storeD:
  assumes "wf_store store"
  shows "0 < MinPartSize store" "MinPartSize store \<le> PreferredPartSize store"
    "PreferredPartSize store \<le> MaxPartSize store" "0 < MaxMultipartParts store"
    "MaxObjectSize store \<le> MaxPartSize store * MaxMultipartParts store"
    "mul64 (PreferredPartSize store) (MaxMultipartParts store) = PreferredPartSize store * MaxMultipartParts store"
    "MaxPartSize store \<le> MaxInt64"
proof -
  note wf = assms [unfolded wf_store_def]
  then show "0 < MinPartSize store" "MinPartSize store \<le> PreferredPartSize store"
    "PreferredPartSize store \<le> MaxPartSize store" "0 < MaxMultipartParts store"
    "MaxObjectSize store \<le> MaxPartSize store * MaxMultipartParts store" by auto
  have "0 \<le> PreferredPartSize store * MaxMultipartParts store"
    "PreferredPartSize store * MaxMultipartParts store \<le> MaxPartSize store * MaxMultipartParts store"
    using wf by (auto intro: mult_right_mono)
  then have "is_int64 (PreferredPartSize store * MaxMultipartParts store)" using wf unfolding int64_defs by linarith
  then show "mul64 (PreferredPartSize store) (MaxMultipartParts store) = PreferredPartSize store * MaxMultipartParts store"
    by (rule mul64_id)
  have "MaxPartSize store * 1 \<le> MaxPartSize store * MaxMultipartParts store"
    using wf by (intro mult_left_mono) auto
  with wf show "MaxPartSize store \<le> MaxInt64" by linarith
qed

text \<open>A size that needs more than the preferred parts is divided, rounding up.\<close>

lemma ceiling_bounds:
  fixes n m :: int
  assumes "0 < m" "0 \<le> n" "q = (if n mod m = 0 then n div m else n div m + 1)"
  shows "n \<le> q * m" "n \<le> k * m \<Longrightarrow> q \<le> k" "l * m < n \<Longrightarrow> l < q"
proof -
  have n: "n = n div m * m + n mod m" by simp
  have mod: "0 \<le> n mod m" "n mod m < m" using assms(1) by simp_all
  have succ: "(n div m + 1) * m = n div m * m + m" by (simp add: distrib_right)
  have up: "n \<le> (n div m + 1) * m" unfolding succ using n mod by linarith
  then show "n \<le> q * m" using assms(3) n by (auto simp del: div_mult_mod_eq split: if_splits)
  show "l < q" if "l * m < n"
    using that \<open>n \<le> q * m\<close> assms(1) mult_less_cancel_right_pos [of m l q] by linarith
  show "q \<le> k" if "n \<le> k * m"
  proof (cases "n mod m = 0")
    case True
    then have "n div m * m \<le> k * m" using that n by simp
    with True assms(1,3) show ?thesis by simp
  next
    case False
    then have "n div m * m < k * m" using that n mod by linarith
    with False assms(1,3) show ?thesis by simp
  qed
qed

lemma calcOptimalPartSize_eq:
  assumes wf: "wf_store store" and sz: "0 \<le> sz" "sz \<le> MaxObjectSize store"
  shows "calcOptimalPartSize store sz =
    Inr (if sz \<le> PreferredPartSize store * MaxMultipartParts store then PreferredPartSize store
         else if sz mod MaxMultipartParts store = 0 then sz div MaxMultipartParts store
         else sz div MaxMultipartParts store + 1)"
proof -
  note d = wf_storeD [OF wf]
  let ?m = "MaxMultipartParts store" and ?p = "PreferredPartSize store"
  show ?thesis
  proof (cases "sz \<le> ?p * ?m")
    case True
    then show ?thesis using d by (simp add: calcOptimalPartSize_def)
  next
    case False
    have "?p * 1 \<le> ?p * ?m" using d by (intro mult_left_mono) auto
    with False have big: "\<not> sz \<le> ?p" by simp
    define q where "q = (if sz mod ?m = 0 then sz div ?m else sz div ?m + 1)"
    have le: "q \<le> MaxPartSize store" using ceiling_bounds(2) [OF d(4) sz(1) q_def] d(5) sz(2) by simp
    have pos: "0 \<le> sz div ?m" using sz d by (simp add: pos_imp_zdiv_nonneg_iff)
    have "sz div ?m \<le> q" by (simp add: q_def)
    then have w: "wrap64 (sz div ?m) = sz div ?m" using pos le d(7) by (intro wrap64_id) (simp add: int64_defs)
    have a: "add64 (sz div ?m) 1 = sz div ?m + 1" if "sz mod ?m \<noteq> 0"
      using that pos le d(7) by (intro add64_id) (simp add: int64_defs q_def)
    have s: "sz sdiv ?m = sz div ?m" "sz smod ?m = sz mod ?m"
      using sz d(4) by (simp_all add: signed_divide_int_def signed_modulo_int_def zsgn_def)
    have "\<not> q > MaxPartSize store" "?m \<noteq> 0" using le d(4) by auto
    then show ?thesis using False big w a
      by (cases "sz mod ?m = 0") (simp_all add: calcOptimalPartSize_def d(6) s q_def Let_def)
  qed
qed

lemma calcOptimalPartSize_bounds:
  assumes wf: "wf_store store" and sz: "0 \<le> sz" "sz \<le> MaxObjectSize store"
  shows "\<exists>p. calcOptimalPartSize store sz = Inr p \<and> MinPartSize store \<le> p \<and> p \<le> MaxPartSize store \<and>
    sz \<le> p * MaxMultipartParts store"
proof (cases "sz \<le> PreferredPartSize store * MaxMultipartParts store")
  case True
  then show ?thesis using calcOptimalPartSize_eq [OF assms] wf_storeD [OF wf] by auto
next
  case False
  let ?m = "MaxMultipartParts store"
  define q where "q = (if sz mod ?m = 0 then sz div ?m else sz div ?m + 1)"
  note b = ceiling_bounds [OF wf_storeD(4) [OF wf] sz(1) q_def]
  have "q \<le> MaxPartSize store" using b(2) wf_storeD(5) [OF wf] sz(2) by simp
  moreover have "PreferredPartSize store < q" using b(3) False by simp
  ultimately show ?thesis using calcOptimalPartSize_eq [OF assms] False b(1) wf_storeD(2) [OF wf]
    by (auto simp: q_def)
qed

section \<open>Cutting into slices\<close>

function slices :: "nat \<Rightarrow> 'a list \<Rightarrow> 'a list list" where
  "slices n xs = (if n = 0 \<or> xs = [] then [] else take n xs # slices n (drop n xs))"
  by pat_completeness auto
termination by (relation "measure (length \<circ> snd)") auto

declare slices.simps [simp del]

lemma slices_Nil [simp]: "slices n [] = []"
  by (simp add: slices.simps)

lemma slices_step: "0 < n \<Longrightarrow> xs \<noteq> [] \<Longrightarrow> slices n xs = take n xs # slices n (drop n xs)"
  by (subst slices.simps) simp

lemma concat_slices: "0 < n \<Longrightarrow> concat (slices n xs) = xs"
proof (induction n xs rule: slices.induct)
  case (1 n xs)
  then show ?case by (cases "xs = []") (auto simp: slices_step)
qed

lemma slices_lengths:
  "ys \<in> set (slices n xs) \<Longrightarrow> ys \<noteq> [] \<and> length ys \<le> n"
proof (induction n xs rule: slices.induct)
  case (1 n xs)
  from "1.prems" have "\<not> (n = 0 \<or> xs = [])" by (auto simp: slices.simps [of n xs] split: if_splits)
  with 1 show ?case by (auto simp: slices_step)
qed

lemma slices_full: "ys \<in> set (butlast (slices n xs)) \<Longrightarrow> length ys = n"
proof (induction n xs rule: slices.induct)
  case (1 n xs)
  from "1.prems" have ne: "\<not> (n = 0 \<or> xs = [])" by (auto simp: slices.simps [of n xs] split: if_splits)
  then have s: "slices n xs = take n xs # slices n (drop n xs)" by (simp add: slices_step)
  with 1 ne show ?case
    by (cases "length xs \<le> n") (auto split: if_splits)
qed

lemma butlast_take_subset: "x \<in> set (butlast (take k xs)) \<Longrightarrow> x \<in> set (butlast xs)"
  by (induction xs arbitrary: k) (auto simp: take_Cons' split: if_splits)

lemma slices_lower: "0 < n \<Longrightarrow> xs \<noteq> [] \<Longrightarrow> (length (slices n xs) - 1) * n < length xs"
proof (induction n xs rule: slices.induct)
  case (1 n xs)
  then show ?case
  proof (cases "drop n xs = []")
    case False
    with 1 have "(length (slices n (drop n xs)) - 1) * n < length xs - n" by simp
    moreover have "0 < length (slices n (drop n xs))" using False 1(2) by (simp add: slices_step)
    ultimately show ?thesis using False 1(2,3) by (cases "length (slices n (drop n xs))") (simp_all add: slices_step)
  qed (simp add: slices_step)
qed

lemma slices_count: "0 < n \<Longrightarrow> length xs \<le> k * n \<Longrightarrow> length (slices n xs) \<le> k"
proof (induction k arbitrary: xs)
  case (Suc k)
  then show ?case by (cases "xs = []") (auto simp: slices_step)
qed simp

text \<open>
  Property C23. For every upload that the store accepts, the size of the parts is found and is between
  the minimum and the maximum that S3 allows, and a body of that size, cut into parts of it,
  gives at most the number of parts that S3 allows.
\<close>

theorem parts_within_limits:
  assumes "wf_store store" "0 \<le> sz" "sz \<le> MaxObjectSize store"
  shows "\<exists>p. calcOptimalPartSize store sz = Inr p \<and> MinPartSize store \<le> p \<and> p \<le> MaxPartSize store \<and>
    (\<forall>body. int (length body) = sz \<longrightarrow> int (length (slices (nat p) body)) \<le> MaxMultipartParts store)"
proof -
  obtain p where p: "calcOptimalPartSize store sz = Inr p" "MinPartSize store \<le> p" "p \<le> MaxPartSize store"
    "sz \<le> p * MaxMultipartParts store"
    using calcOptimalPartSize_bounds [OF assms] by blast
  note d = wf_storeD [OF assms(1)]
  have "int (length (slices (nat p) body)) \<le> MaxMultipartParts store" if "int (length body) = sz" for body
  proof -
    have "0 \<le> p" "0 \<le> MaxMultipartParts store" using p(2) d by auto
    then have "int (length body) \<le> int (nat (MaxMultipartParts store) * nat p)"
      using that p(4) by (simp add: mult.commute)
    then have "length body \<le> nat (MaxMultipartParts store) * nat p" by (simp only: of_nat_le_iff)
    then have "length (slices (nat p) body) \<le> nat (MaxMultipartParts store)"
      using p(2) d by (intro slices_count) auto
    then show ?thesis using d by simp
  qed
  with p(1-3) show ?thesis by blast
qed

text \<open>The store with the defaults of \<^verbatim>\<open>New\<close> and an upload of the largest size, one tebibyte times five.\<close>

definition no_service :: "unit S3API" where
  "no_service =
     (let e = \<lparr>aws_type = [], aws_code = ''Unavailable'', aws_response = None, aws_err = PlainError ''unavailable''\<rparr>
      in \<lparr>svc_PutObject = (\<lambda>b k c s. (Some e, s)), svc_ListParts = (\<lambda>b k i m n s. (Inl e, s)),
          svc_UploadPart = (\<lambda>b k i n d s. (Inl e, s)), svc_GetObject = (\<lambda>b i s. (Inl e, s)),
          svc_HeadObject = (\<lambda>b k s. (Inl e, s)), svc_CreateMultipartUpload = (\<lambda>b k m t s. (Inl e, s)),
          svc_AbortMultipartUpload = (\<lambda>b k i s. (Some e, s)), svc_DeleteObject = (\<lambda>b k s. (Some e, s)),
          svc_DeleteObjects = (\<lambda>b ks s. (Inl e, s)), svc_CompleteMultipartUpload = (\<lambda>b k i ps s. (Some e, s)),
          svc_UploadPartCopy = (\<lambda>b k i n src s. (Inl e, s))\<rparr>)"

definition default_store :: "unit S3Store" where
  "default_store = s3_New ''bucket'' no_service None (\<lambda>url d n s. (Inl (PlainError ''unavailable''), s))"

theorem parts_within_limits_witness:
  "\<exists>p. calcOptimalPartSize default_store (5 * 1024 * 1024 * 1024 * 1024) = Inr p \<and> 5 * 1024 * 1024 \<le> p \<and> p \<le> 5 * 1024 * 1024 * 1024"
  using parts_within_limits [of default_store "5 * 1024 * 1024 * 1024 * 1024"] wf_s3_New [of "''bucket''" no_service]
  by (auto simp: default_store_def s3_New_def)

section \<open>What the producer hands over\<close>

text \<open>The bytes that a reader still delivers, in any state.\<close>

definition rest_data :: "bodyReader \<Rightarrow> bytes" where
  "rest_data r = (if br_err r = None \<and> br_limitErr r = None then reader_data r else [])"

definition src_data :: "partSource \<Rightarrow> bytes" where
  "src_data r = ps_pending r @ rest_data (ps_body r)"

lemma Read_end: "Read k r = ((d, Some x), r') \<Longrightarrow> 0 < k \<Longrightarrow> br_err r' \<noteq> None \<or> br_limitErr r' \<noteq> None"
  by (cases rule: Read_exhaust [where r = r and k = k])
    (auto simp: Read_err Read_close closeWithError_def Read_plain Let_def limit_Read_def
       split: option.splits if_splits prod.splits)

lemma limit_Read_length: "limit_Read k r = ((d, e), r') \<Longrightarrow> length d \<le> k"
proof -
  assume read: "limit_Read k r = ((d, e), r')"
  obtain c x src' where raw: "raw_Read (limit_buf k (br_limit r)) (br_src r) = ((c, x), src')" by (metis surj_pair)
  have "limit_buf k (br_limit r) \<le> k \<or> br_limit r < 0" by (auto simp: limit_buf_def)
  with raw_Read_length [OF raw] read raw show ?thesis
    by (auto simp: limit_Read_def limit_buf_def split: option.splits if_splits)
qed

lemma Read_length: "Read k r = ((d, e), r') \<Longrightarrow> length d \<le> k"
  by (cases rule: Read_exhaust [where r = r and k = k])
    (auto simp: Read_err Read_close Read_plain Let_def dest!: limit_Read_length split: option.splits if_splits)

lemma Read_stopped:
  assumes "Read k r = ((d, e), r')" "0 < k" "br_err r \<noteq> None \<or> br_limitErr r \<noteq> None"
  shows "d = [] \<and> (br_err r' \<noteq> None \<or> br_limitErr r' \<noteq> None) \<and> br_limit r' = br_limit r"
  using assms by (cases rule: Read_exhaust [where r = r and k = k])
    (auto simp: Read_err Read_close closeWithError_def Read_plain Let_def limit_Read_def
       split: option.splits if_splits prod.splits)

lemma Read_limit: "Read k r = ((d, e), r') \<Longrightarrow> 0 < k \<Longrightarrow> 0 \<le> br_limit r \<Longrightarrow> 0 \<le> br_limit r'"
  by (cases rule: Read_exhaust [where r = r and k = k])
    (auto simp: Read_err Read_close closeWithError_def Read_plain Let_def limit_Read_def
       split: option.splits if_splits prod.splits)

lemma Read_rest:
  assumes "Read k r = ((d, e), r')" "0 < k" "0 \<le> br_limit r"
  shows "rest_data r = d @ rest_data r'" "e \<noteq> None \<Longrightarrow> rest_data r' = []"
proof -
  have stop: "rest_data r' = []" if "e = Some x" for x
    using Read_end [OF assms(1) [unfolded that] assms(2)] by (auto simp: rest_data_def)
  then show "rest_data r' = []" if "e \<noteq> None" using that by blast
  show "rest_data r = d @ rest_data r'"
  proof (cases "fresh_reader r")
    case False
    then have "br_err r \<noteq> None \<or> br_limitErr r \<noteq> None" using assms(3) by (auto simp: fresh_reader_def)
    with Read_stopped [OF assms(1,2)] show ?thesis by (auto simp: rest_data_def)
  next
    case True
    then have r: "rest_data r = reader_data r" by (simp add: rest_data_def fresh_reader_def)
    from Read_run [OF True assms(2,1)] show ?thesis
    proof (elim disjE conjE)
      assume "fresh_reader r'" "limited_run (br_limit r) (br_src r) = (case limited_run (br_limit r') (br_src r') of (ds, x) \<Rightarrow> (d @ ds, x))"
      then show ?thesis unfolding r by (auto simp: rest_data_def fresh_reader_def split: prod.splits)
    next
      assume "e = None \<longrightarrow> br_err r' \<noteq> None" "limited_run (br_limit r) (br_src r) = (d, br_err r')"
      moreover have "rest_data r' = []"
        using \<open>e = None \<longrightarrow> br_err r' \<noteq> None\<close> stop by (cases e) (auto simp: rest_data_def)
      ultimately show ?thesis unfolding r by simp
    qed
  qed
qed

definition ok_source :: "partSource \<Rightarrow> bool" where
  "ok_source r \<longleftrightarrow> 0 \<le> br_limit (ps_body r)"

lemma multi_Read_rest:
  assumes "multi_Read k r = ((d, e), r')" "0 < k" "ok_source r"
  shows "src_data r = d @ src_data r'" "ok_source r'" "length d \<le> k" "e \<noteq> None \<Longrightarrow> src_data r' = []" "e = None \<or> e = Some EOF"
proof -
  show "src_data r = d @ src_data r'" "ok_source r'" "length d \<le> k" "e \<noteq> None \<Longrightarrow> src_data r' = []" "e = None \<or> e = Some EOF"
    using assms Read_rest [of k "ps_body r"] Read_limit [of k "ps_body r"] Read_length [of k "ps_body r"] Read_result [of k "ps_body r"]
    by (auto simp: multi_Read_def src_data_def ok_source_def append_assoc [symmetric] simp del: append_assoc
        split: if_splits prod.splits)
qed

lemma copy_limited_data:
  "copy_limited n r = ((d, e), r') \<Longrightarrow> ok_source r \<Longrightarrow>
     d = take (nat n) (src_data r) \<and> src_data r' = drop (nat n) (src_data r) \<and> e = None \<and> ok_source r'"
proof (induction n r arbitrary: d e r' rule: copy_limited.induct)
  case (1 n r)
  show ?case
  proof (cases "n \<le> 0")
    case True
    with 1(2) have "d = [] \<and> e = None \<and> r' = r" by (subst (asm) copy_limited.simps) simp
    with True 1(3) show ?thesis by simp
  next
    case False
    let ?k = "min (nat n) copy_buf"
    have k: "0 < ?k" "?k \<le> nat n" using False by (auto simp: copy_buf_def)
    obtain d1 e1 r1 where read: "multi_Read ?k r = ((d1, e1), r1)" by (metis surj_pair)
    note m = multi_Read_rest [OF read k(1) 1(3)]
    have len: "length d1 \<le> nat n" using m(3) k(2) by simp
    show ?thesis
    proof (cases e1)
      case None
      obtain ds e2 r2 where rest: "copy_limited (n - int (length d1)) r1 = ((ds, e2), r2)" by (metis surj_pair)
      have nat: "nat (n - int (length d1)) = nat n - length d1" by simp
      from 1(1) [OF False read [symmetric] refl None rest m(2)]
      have "ds = take (nat n - length d1) (src_data r1) \<and> src_data r2 = drop (nat n - length d1) (src_data r1) \<and> e2 = None \<and> ok_source r2"
        unfolding nat .
      moreover have "d = d1 @ ds \<and> e = e2 \<and> r' = r2"
        using 1(2) False None rest by (subst (asm) copy_limited.simps) (simp add: read)
      ultimately show ?thesis using m(1) len by simp
    next
      case (Some x)
      with m(4,5) have "src_data r1 = []" "x = EOF" by auto
      moreover have "d = d1 \<and> e = None \<and> r' = r1"
        using 1(2) False Some \<open>x = EOF\<close> by (subst (asm) copy_limited.simps) (auto simp: read)
      ultimately show ?thesis using m(1,2) len by simp
    qed
  qed
qed

lemma nextPart_None:
  assumes "nextPart mem partSize r m = (Inr None, r', m')" "ok_source r" "0 < partSize"
  shows "src_data r = []"
proof -
  obtain d e r1 where copy: "copy_limited partSize r = ((d, e), r1)" by (metis surj_pair)
  from assms(1) copy have "d = []"
    by (auto simp: nextPart_def split: if_splits prod.splits option.splits list.splits)
  with copy_limited_data [OF copy assms(2)] assms(3) show ?thesis by auto
qed

lemma produce_parts:
  "produce mem partSize ctx r m = ((cs, e), r', m') \<Longrightarrow> ok_source r \<Longrightarrow> 0 < partSize \<Longrightarrow>
     (\<exists>k. map fc_reader cs = take k (slices (nat partSize) (src_data r))) \<and>
     (e = None \<and> ctx = None \<longrightarrow> map fc_reader cs = slices (nat partSize) (src_data r)) \<and>
     (\<forall>c \<in> set cs. fc_size c = int (length (fc_reader c)) \<and> fc_inMemory c = mem)"
proof (induction mem partSize ctx r m arbitrary: cs e r' m' rule: produce.induct)
  case (1 mem partSize ctx r m)
  obtain res r1 m1 where np: "nextPart mem partSize r m = (res, r1, m1)" by (metis surj_pair)
  consider (err) x where "res = Inl x" | (eof) "res = Inr None" | (stop) c where "res = Inr (Some c)" "ctx = Some 0"
    | (part) c where "res = Inr (Some c)" "ctx \<noteq> Some 0"
    by (metis old.sum.exhaust option.exhaust)
  moreover note step = 1(2) [unfolded produce.simps [of mem partSize ctx r m] np]
  ultimately show ?case
  proof cases
    case (part c)
    obtain cs1 e1 r2 m2 where rest: "produce mem partSize (map_option (\<lambda>n. n - 1) ctx) r1 m1 = ((cs1, e1), r2, m2)"
      by (metis surj_pair)
    note c = nextPart_Some [OF np [unfolded part(1)]]
    note d = copy_limited_data [OF c(1) 1(3)]
    have ne: "src_data r \<noteq> []" using d c(2) by auto
    note IH = 1(1) [OF np [symmetric] part(1) refl refl part(2) rest _ 1(4)]
    have eq: "cs = c # cs1" "e = e1"
      using step part rest by simp_all
    have s: "slices (nat partSize) (src_data r) = fc_reader c # slices (nat partSize) (src_data r1)"
      using slices_step [of "nat partSize" "src_data r"] 1(4) ne d by simp
    obtain k where "map fc_reader cs1 = take k (slices (nat partSize) (src_data r1))" using IH d by blast
    then have "map fc_reader cs = take (Suc k) (slices (nat partSize) (src_data r))" by (simp add: eq s)
    moreover have "e = None \<and> ctx = None \<longrightarrow> map fc_reader cs = slices (nat partSize) (src_data r)"
      using IH d by (simp add: eq s)
    moreover have "\<forall>c \<in> set cs. fc_size c = int (length (fc_reader c)) \<and> fc_inMemory c = mem"
      using IH d c(3,4) by (simp add: eq)
    ultimately show ?thesis by blast
  next
    case eof
    with step nextPart_None [OF np [unfolded eof] 1(3,4)] show ?thesis by simp
  qed (use step in \<open>auto intro: exI [of _ 0]\<close>)
qed

text \<open>For evaluation, the two sizes are compared as integers.\<close>

lemma copy_limited_code [code]:
  "copy_limited n r =
     (if n \<le> 0 then (([], None), r)
      else case multi_Read (if n < 32768 then nat n else copy_buf) r of
        ((d, Some e), r1) \<Rightarrow> ((d, if e = EOF then None else Some e), r1)
      | ((d, None), r1) \<Rightarrow>
          (case copy_limited (n - int (length d)) r1 of ((ds, e), r2) \<Rightarrow> ((d @ ds, e), r2)))"
proof -
  have "(if n < 32768 then nat n else copy_buf) = min (nat n) copy_buf" by (auto simp: copy_buf_def)
  then show ?thesis by (simp only: copy_limited.simps [of n r])
qed

text \<open>
  The parts that are produced from an incomplete part and the body of a request are
  consecutive pieces of their bytes, from the start and in order. All of them but the last one
  have the chosen size. Without an error and a cancelled context nothing is left out.
\<close>

theorem parts_are_consecutive:
  assumes "fresh_reader b" "0 < partSize"
    "produce mem partSize ctx \<lparr>ps_pending = pending, ps_body = b\<rparr> m = ((cs, e), r', m')"
  shows "prefix (concat (map fc_reader cs)) (pending @ reader_data b) \<and>
    (\<forall>c \<in> set cs. fc_reader c \<noteq> [] \<and> fc_size c = int (length (fc_reader c)) \<and> fc_size c \<le> partSize) \<and>
    (\<forall>c \<in> set (butlast cs). fc_size c = partSize) \<and>
    (e = None \<and> ctx = None \<longrightarrow> concat (map fc_reader cs) = pending @ reader_data b)"
proof -
  let ?r = "\<lparr>ps_pending = pending, ps_body = b\<rparr>" and ?n = "nat partSize"
  have data: "src_data ?r = pending @ reader_data b" and ok: "ok_source ?r"
    using assms(1) by (simp_all add: src_data_def rest_data_def fresh_reader_def ok_source_def)
  from produce_parts [OF assms(3) ok assms(2)] obtain k where
    k: "map fc_reader cs = take k (slices ?n (pending @ reader_data b))"
    and all: "e = None \<and> ctx = None \<longrightarrow> map fc_reader cs = slices ?n (pending @ reader_data b)"
    and sizes: "\<forall>c \<in> set cs. fc_size c = int (length (fc_reader c))" unfolding data by blast
  note whole = concat_slices [of ?n "pending @ reader_data b"]
  have "concat (map fc_reader cs) @ concat (drop k (slices ?n (pending @ reader_data b))) = pending @ reader_data b"
    unfolding k concat_append [symmetric] append_take_drop_id using whole assms(2) by simp
  then have "prefix (concat (map fc_reader cs)) (pending @ reader_data b)" by (metis prefixI)
  moreover have "fc_reader c \<noteq> [] \<and> fc_size c \<le> partSize" if "c \<in> set cs" for c
  proof -
    have "fc_reader c \<in> set (slices ?n (pending @ reader_data b))"
      using that k by (metis in_set_takeD image_eqI list.set_map)
    from slices_lengths [OF this] sizes that assms(2) show ?thesis by auto
  qed
  moreover have "fc_size c = partSize" if "c \<in> set (butlast cs)" for c
  proof -
    have "fc_reader c \<in> set (butlast (take k (slices ?n (pending @ reader_data b))))"
      using that k by (metis image_eqI list.set_map map_butlast)
    then have "fc_reader c \<in> set (butlast (slices ?n (pending @ reader_data b)))"
      by (rule butlast_take_subset)
    from slices_full [OF this] sizes in_set_butlastD [OF that] assms(2) show ?thesis by simp
  qed
  ultimately show ?thesis using all whole sizes assms(2) by auto
qed

definition demo_parts :: "(fileChunk list \<times> err option) \<times> partSource \<times> filesys" where
  "demo_parts = produce True 3 None \<lparr>ps_pending = ''ab'', ps_body = newBodyReader [Chunk ''cdef'' None, Chunk ''g'' (Some EOF)] 9\<rparr>
     \<lparr>fs_files = [], fs_dirs = [], fs_faults = (\<lambda>_. None), fs_clock = 0, fs_rand = (\<lambda>_. None), fs_drawn = 0, fs_json = (\<lambda>_. [])\<rparr>"

theorem parts_are_consecutive_witness: "concat (map fc_reader (fst (fst demo_parts))) = ''abcdefg''"
proof -
  obtain cs e r' m' where run: "demo_parts = ((cs, e), r', m')" by (metis surj_pair)
  have "snd (fst demo_parts) = None" by code_simp
  then have "e = None" by (simp only: run fst_conv snd_conv)
  moreover have "reader_data (newBodyReader [Chunk ''cdef'' None, Chunk ''g'' (Some EOF)] 9) = ''cdefg''" by code_simp
  ultimately show ?thesis
    using parts_are_consecutive [OF fresh_newBodyReader _ run [unfolded demo_parts_def]] by (simp only: run fst_conv) simp
qed

end
