(* ===== verification/S3Service.thy ===== *)
theory S3Service
  imports S3Parts
begin

text \<open>
  What the store relies on of the S3 service, as the documentation of its interface states it,
  for a bucket whose requests do not fail; and an example of such a service.
\<close>

section \<open>The contents of a bucket\<close>

text \<open>
  The objects by their keys, and the multipart uploads by key and identifier: the parts in
  ascending order, each with its number, its bytes and its \<^verbatim>\<open>ETag\<close>.
\<close>

type_synonym parts = "(int \<times> bytes \<times> string) list"

record bucket =
  bk_objs :: "string \<Rightarrow> contents option"
  bk_mps :: "string \<Rightarrow> string \<Rightarrow> parts option"

fun put_part :: "int \<Rightarrow> bytes \<Rightarrow> string \<Rightarrow> parts \<Rightarrow> parts" where
  "put_part n d e [] = [(n, d, e)]"
| "put_part n d e ((m, x) # ps) =
     (if n < m then (n, d, e) # (m, x) # ps
      else if n = m then (n, d, e) # ps
      else (m, x) # put_part n d e ps)"

definition part_list :: "parts \<Rightarrow> s3Part list" where
  "part_list ps = map (\<lambda>(n, d, e). \<lparr>pt_number = n, pt_size = int (length d), pt_etag = e\<rparr>) ps"

definition part_data :: "parts \<Rightarrow> bytes" where
  "part_data ps = concat (map (fst \<circ> snd) ps)"

definition set_obj :: "string \<Rightarrow> contents option \<Rightarrow> bucket \<Rightarrow> bucket" where
  "set_obj k c b = b\<lparr>bk_objs := (bk_objs b)(k := c)\<rparr>"

definition set_mp :: "string \<Rightarrow> string \<Rightarrow> parts option \<Rightarrow> bucket \<Rightarrow> bucket" where
  "set_mp k i ps b = b\<lparr>bk_mps := (bk_mps b)(k := (bk_mps b k)(i := ps))\<rparr>"

section \<open>The documented behaviour\<close>

definition put_ok :: "'s S3API \<Rightarrow> string \<Rightarrow> ('s \<Rightarrow> bucket) \<Rightarrow> bool" where
  "put_ok svc b view \<longleftrightarrow>
     (\<forall>k c s e s'. svc_PutObject svc b k c s = (e, s') \<longrightarrow> e = None \<and> view s' = set_obj k (Some c) (view s))"

definition get_ok :: "'s S3API \<Rightarrow> string \<Rightarrow> ('s \<Rightarrow> bucket) \<Rightarrow> bool" where
  "get_ok svc b view \<longleftrightarrow>
     (\<forall>k s r s'. svc_GetObject svc b (plainInput k) s = (r, s') \<longrightarrow> view s' = view s \<and>
        (\<forall>c. bk_objs (view s) k = Some c \<longrightarrow>
           (\<exists>ob. r = Inr ob \<and> gr_Body ob = c \<and> gr_BodyErr ob = None \<and>
             (\<forall>d. c = map B d \<longrightarrow> gr_ContentLength ob = Some (int (length d))))))"

text \<open>The answer when there is no such object, of which most operations need nothing.\<close>

definition missing_ok :: "'s S3API \<Rightarrow> string \<Rightarrow> ('s \<Rightarrow> bucket) \<Rightarrow> bool" where
  "missing_ok svc b view \<longleftrightarrow>
     (\<forall>k s. bk_objs (view s) k = None \<longrightarrow>
        (\<exists>e s'. svc_GetObject svc b (plainInput k) s = (Inl e, s') \<and> isAwsError ''NoSuchKey'' e))"

definition head_ok :: "'s S3API \<Rightarrow> string \<Rightarrow> ('s \<Rightarrow> bucket) \<Rightarrow> bool" where
  "head_ok svc b view \<longleftrightarrow>
     (\<forall>k s r s'. svc_HeadObject svc b k s = (r, s') \<longrightarrow> view s' = view s \<and>
        (case bk_objs (view s) k of
           None \<Rightarrow> \<exists>e. r = Inl e \<and> isAwsError ''NotFound'' e
         | Some c \<Rightarrow> \<exists>n. r = Inr n \<and> (\<forall>d. c = map B d \<longrightarrow> n = int (length d))))"

text \<open>A page starts after the marker, is not empty and says whether more parts follow.\<close>

definition marker_num :: "string option \<Rightarrow> int" where
  "marker_num m = (case m of None \<Rightarrow> 0 | Some x \<Rightarrow> (case ParseInt x of None \<Rightarrow> 0 | Some n \<Rightarrow> n))"

definition page_of :: "int option \<Rightarrow> parts \<Rightarrow> ListPartsOutput \<Rightarrow> bool" where
  "page_of limit rest page \<longleftrightarrow>
     (\<exists>n. lp_Parts page = part_list (take n rest) \<and> (limit = None \<longrightarrow> 0 < n) \<and>
        (if n < length rest
         then lp_IsTruncated page = Some True \<and>
              (0 < n \<longrightarrow> lp_NextPartNumberMarker page = Some (FormatInt (fst (rest ! (n - 1)))))
         else lp_IsTruncated page \<noteq> Some True))"

definition list_ok :: "'s S3API \<Rightarrow> string \<Rightarrow> ('s \<Rightarrow> bucket) \<Rightarrow> bool" where
  "list_ok svc b view \<longleftrightarrow>
     (\<forall>k i marker limit s r s'. svc_ListParts svc b k i marker limit s = (r, s') \<longrightarrow> view s' = view s \<and>
        (case bk_mps (view s) k i of
           None \<Rightarrow> \<exists>e. r = Inl e \<and> isAwsError ''NoSuchUpload'' e
         | Some ps \<Rightarrow> \<exists>page. r = Inr page \<and> page_of limit (dropWhile (\<lambda>p. fst p \<le> marker_num marker) ps) page))"

definition part_ok :: "int \<Rightarrow> 's S3API \<Rightarrow> string \<Rightarrow> ('s \<Rightarrow> bucket) \<Rightarrow> bool" where
  "part_ok maxParts svc b view \<longleftrightarrow>
     (\<forall>k i n d s r s' ps. svc_UploadPart svc b k i n d s = (r, s') \<longrightarrow>
        bk_mps (view s) k i = Some ps \<longrightarrow> 1 \<le> n \<longrightarrow> n \<le> maxParts \<longrightarrow>
        (\<exists>etag. r = Inr etag \<and> view s' = set_mp k i (Some (put_part n d etag ps)) (view s)))"

definition copy_ok :: "int \<Rightarrow> 's S3API \<Rightarrow> string \<Rightarrow> ('s \<Rightarrow> bucket) \<Rightarrow> bool" where
  "copy_ok maxParts svc b view \<longleftrightarrow>
     (\<forall>k i n src d s r s' ps. svc_UploadPartCopy svc b k i n (b @ ''/'' @ src) s = (r, s') \<longrightarrow>
        bk_mps (view s) k i = Some ps \<longrightarrow> bk_objs (view s) src = Some (map B d) \<longrightarrow> 1 \<le> n \<longrightarrow> n \<le> maxParts \<longrightarrow>
        (\<exists>etag. r = Inr etag \<and> view s' = set_mp k i (Some (put_part n d etag ps)) (view s)))"

definition create_ok :: "'s S3API \<Rightarrow> string \<Rightarrow> ('s \<Rightarrow> bucket) \<Rightarrow> bool" where
  "create_ok svc b view \<longleftrightarrow>
     (\<forall>k meta t s r s'. svc_CreateMultipartUpload svc b k meta t s = (r, s') \<longrightarrow>
        (\<exists>i. r = Inr i \<and> i \<noteq> [] \<and> CHR ''+'' \<notin> set i \<and> bk_mps (view s) k i = None \<and>
           view s' = set_mp k i (Some []) (view s)))"

text \<open>
  An upload is completed from all of its parts, of which there must be one at least and only the
  last one may be smaller than the minimum.
\<close>

definition complete_ok :: "int \<Rightarrow> 's S3API \<Rightarrow> string \<Rightarrow> ('s \<Rightarrow> bucket) \<Rightarrow> bool" where
  "complete_ok minSize svc b view \<longleftrightarrow>
     (\<forall>k i s e s' ps. svc_CompleteMultipartUpload svc b k i (map (\<lambda>(n, d, etag). (etag, n)) ps) s = (e, s') \<longrightarrow>
        bk_mps (view s) k i = Some ps \<longrightarrow> ps \<noteq> [] \<longrightarrow> (\<forall>(n, d, etag) \<in> set (butlast ps). minSize \<le> int (length d)) \<longrightarrow>
        e = None \<and> view s' = set_mp k i None (set_obj k (Some (map B (part_data ps))) (view s)))"

definition abort_ok :: "'s S3API \<Rightarrow> string \<Rightarrow> ('s \<Rightarrow> bucket) \<Rightarrow> bool" where
  "abort_ok svc b view \<longleftrightarrow>
     (\<forall>k i s e s'. svc_AbortMultipartUpload svc b k i s = (e, s') \<longrightarrow>
        view s' = set_mp k i None (view s) \<and>
        (case bk_mps (view s) k i of None \<Rightarrow> \<exists>x. e = Some x \<and> isAwsError ''NoSuchUpload'' x | Some ps \<Rightarrow> e = None))"

definition delete_ok :: "'s S3API \<Rightarrow> string \<Rightarrow> ('s \<Rightarrow> bucket) \<Rightarrow> bool" where
  "delete_ok svc b view \<longleftrightarrow>
     (\<forall>k s e s'. svc_DeleteObject svc b k s = (e, s') \<longrightarrow> e = None \<and> view s' = set_obj k None (view s)) \<and>
     (\<forall>ks s r s'. svc_DeleteObjects svc b ks s = (r, s') \<longrightarrow>
        view s' = fold (\<lambda>k. set_obj k None) ks (view s) \<and>
        (\<exists>errs. r = Inr errs \<and> (\<forall>x \<in> set errs. fst x = ''NoSuchKey'')))"

definition s3_reliable :: "'s S3Store \<Rightarrow> ('s \<Rightarrow> bucket) \<Rightarrow> bool" where
  "s3_reliable store view \<longleftrightarrow>
     (let svc = Service store; b = Bucket store in
        put_ok svc b view \<and> get_ok svc b view \<and> head_ok svc b view \<and> list_ok svc b view \<and>
        part_ok (MaxMultipartParts store) svc b view \<and> copy_ok (MaxMultipartParts store) svc b view \<and>
        create_ok svc b view \<and> complete_ok (MinPartSize store) svc b view \<and> abort_ok svc b view \<and> delete_ok svc b view)"

lemma reliableD:
  assumes "s3_reliable store view"
  shows "put_ok (Service store) (Bucket store) view" "get_ok (Service store) (Bucket store) view"
    "head_ok (Service store) (Bucket store) view" "list_ok (Service store) (Bucket store) view"
    "part_ok (MaxMultipartParts store) (Service store) (Bucket store) view"
    "copy_ok (MaxMultipartParts store) (Service store) (Bucket store) view"
    "create_ok (Service store) (Bucket store) view" "complete_ok (MinPartSize store) (Service store) (Bucket store) view"
    "abort_ok (Service store) (Bucket store) view" "delete_ok (Service store) (Bucket store) view"
  using assms by (simp_all add: s3_reliable_def Let_def)

section \<open>Facts on buckets\<close>

lemma bucket_sel [simp]:
  "bk_objs (set_obj k c b) = (bk_objs b)(k := c)" "bk_mps (set_obj k c b) = bk_mps b"
  "bk_objs (set_mp k i ps b) = bk_objs b" "bk_mps (set_mp k i ps b) = (bk_mps b)(k := (bk_mps b k)(i := ps))"
  by (simp_all add: set_obj_def set_mp_def)

lemma put_part_append: "\<forall>p \<in> set ps. fst p < n \<Longrightarrow> put_part n d e ps = ps @ [(n, d, e)]"
  by (induction ps) auto

lemma part_data_simps [simp]: "part_data [] = []" "part_data (ps @ qs) = part_data ps @ part_data qs" "part_data [(n, d, e)] = d"
  by (simp_all add: part_data_def)

lemma part_list_simps [simp]:
  "part_list [] = []" "part_list (ps @ qs) = part_list ps @ part_list qs" "length (part_list ps) = length ps"
  "part_list [(n, d, e)] = [\<lparr>pt_number = n, pt_size = int (length d), pt_etag = e\<rparr>]" "part_list ps = [] \<longleftrightarrow> ps = []"
  by (simp_all add: part_list_def)

lemma part_list_completed: "map (\<lambda>p. (pt_etag p, pt_number p)) (part_list ps) = map (\<lambda>(n, d, etag). (etag, n)) ps"
  by (simp add: part_list_def case_prod_beta)

text \<open>Parts that are numbered from one on.\<close>

definition numbered :: "parts \<Rightarrow> bool" where
  "numbered ps \<longleftrightarrow> map fst ps = map int [1..<length ps + 1]"

lemma numbered_Nil [simp]: "numbered []"
  by (simp add: numbered_def)

lemma numbered_snoc: "numbered ps \<Longrightarrow> n = int (length ps) + 1 \<Longrightarrow> numbered (ps @ [(n, d, e)])"
  by (simp add: numbered_def)

lemma numbered_nth: "numbered ps \<Longrightarrow> i < length ps \<Longrightarrow> fst (ps ! i) = int i + 1"
proof -
  assume "numbered ps" "i < length ps"
  then have "map fst ps ! i = map int [1..<length ps + 1] ! i" by (simp add: numbered_def)
  with \<open>i < length ps\<close> show ?thesis by (simp del: upt_Suc)
qed

lemma numbered_less: "numbered ps \<Longrightarrow> p \<in> set ps \<Longrightarrow> 1 \<le> fst p \<and> fst p < int (length ps) + 1"
  by (auto simp: in_set_conv_nth numbered_nth)

lemma numbered_dropWhile:
  assumes "numbered ps"
  shows "dropWhile (\<lambda>p. fst p \<le> int n) ps = drop n ps"
proof -
  have "dropWhile (\<lambda>p. fst p \<le> int n) (take n ps @ drop n ps) = dropWhile (\<lambda>p. fst p \<le> int n) (drop n ps)"
  proof (rule dropWhile_append2)
    fix p
    assume "p \<in> set (take n ps)"
    then obtain i where "i < length ps" "i < n" "p = ps ! i" by (auto simp: in_set_conv_nth)
    with numbered_nth [OF assms] show "fst p \<le> int n" by simp
  qed
  moreover have "dropWhile (\<lambda>p. fst p \<le> int n) (drop n ps) = drop n ps"
    using numbered_nth [OF assms, of n] by (cases "n < length ps") (simp_all add: dropWhile_id hd_drop_conv_nth)
  ultimately show ?thesis by simp
qed

section \<open>A service in memory\<close>

text \<open>
  A service for examples. Requests are numbered, and \<open>fails\<close> says which of them fail; a page has
  two parts.
\<close>

record mem_s3 =
  ms_objs :: "contents gomap"
  ms_mps :: "((string \<times> string) \<times> parts) list"
  ms_clock :: nat

definition aws_failure :: "string \<Rightarrow> aws_error" where
  "aws_failure t = \<lparr>aws_type = t, aws_code = t, aws_response = None, aws_err = PlainError t\<rparr>"

definition ms_try :: "(nat \<Rightarrow> bool) \<Rightarrow> (mem_s3 \<Rightarrow> (aws_error + 'a) \<times> mem_s3) \<Rightarrow> mem_s3 \<Rightarrow> (aws_error + 'a) \<times> mem_s3" where
  "ms_try fails f s =
     (let s' = s\<lparr>ms_clock := Suc (ms_clock s)\<rparr>
      in if fails (ms_clock s) then (Inl (aws_failure ''Unavailable''), s') else f s')"

definition ms_do :: "(nat \<Rightarrow> bool) \<Rightarrow> (mem_s3 \<Rightarrow> aws_error option \<times> mem_s3) \<Rightarrow> mem_s3 \<Rightarrow> aws_error option \<times> mem_s3" where
  "ms_do fails f s =
     (let s' = s\<lparr>ms_clock := Suc (ms_clock s)\<rparr>
      in if fails (ms_clock s) then (Some (aws_failure ''Unavailable''), s') else f s')"

definition ms_new_part :: "string \<Rightarrow> string \<Rightarrow> int \<Rightarrow> bytes \<Rightarrow> mem_s3 \<Rightarrow> (aws_error + string) \<times> mem_s3" where
  "ms_new_part k i n d s =
     (case map_of (ms_mps s) (k, i) of
        None \<Rightarrow> (Inl (aws_failure ''NoSuchUpload''), s)
      | Some ps \<Rightarrow> (let etag = ''e'' @ FormatInt (int (ms_clock s))
                    in (Inr etag, s\<lparr>ms_mps := AList.update (k, i) (put_part n d etag ps) (ms_mps s)\<rparr>)))"

definition ms_list :: "string \<Rightarrow> string \<Rightarrow> string option \<Rightarrow> int option \<Rightarrow> mem_s3 \<Rightarrow> (aws_error + ListPartsOutput) \<times> mem_s3" where
  "ms_list k i marker limit s =
     (case map_of (ms_mps s) (k, i) of
        None \<Rightarrow> (Inl (aws_failure ''NoSuchUpload''), s)
      | Some ps \<Rightarrow>
          (let rest = dropWhile (\<lambda>p. fst p \<le> marker_num marker) ps;
               n = (case limit of None \<Rightarrow> 2 | Some l \<Rightarrow> nat l)
           in (Inr \<lparr>lp_Parts = part_list (take n rest), lp_IsTruncated = Some (n < length rest),
                    lp_NextPartNumberMarker = (if 0 < n \<and> n < length rest then Some (FormatInt (fst (rest ! (n - 1)))) else None)\<rparr>, s)))"

definition ms_get :: "string \<Rightarrow> mem_s3 \<Rightarrow> (aws_error + GetObjectOutput) \<times> mem_s3" where
  "ms_get k s =
     (case map_of (ms_objs s) k of
        None \<Rightarrow> (Inl (aws_failure ''NoSuchKey''), s)
      | Some c \<Rightarrow>
          (Inr \<lparr>gr_Body = c, gr_BodyErr = None, gr_AcceptRanges = None, gr_ContentDisposition = None,
                gr_ContentEncoding = None, gr_ContentLanguage = None, gr_ContentLength = Some (int (length c)),
                gr_ContentRange = None, gr_ContentType = None, gr_CacheControl = None, gr_ETag = None,
                gr_ExpiresString = None, gr_LastModified = None\<rparr>, s))"

definition ms_complete :: "int \<Rightarrow> string \<Rightarrow> string \<Rightarrow> (string \<times> int) list \<Rightarrow> mem_s3 \<Rightarrow> aws_error option \<times> mem_s3" where
  "ms_complete minSize k i cs s =
     (case map_of (ms_mps s) (k, i) of
        None \<Rightarrow> (Some (aws_failure ''NoSuchUpload''), s)
      | Some ps \<Rightarrow>
          if map (\<lambda>(n, d, etag). (etag, n)) ps \<noteq> cs \<or> ps = [] then (Some (aws_failure ''InvalidPart''), s)
          else if \<not> list_all (\<lambda>(n, d, etag). minSize \<le> int (length d)) (butlast ps) then (Some (aws_failure ''EntityTooSmall''), s)
          else (None, s\<lparr>ms_objs := map_set k (map B (part_data ps)) (ms_objs s), ms_mps := AList.delete (k, i) (ms_mps s)\<rparr>))"

text \<open>A new identifier is longer than those in use.\<close>

definition ms_new_id :: "mem_s3 \<Rightarrow> string" where
  "ms_new_id s = replicate (Suc (fold max (map (length \<circ> snd \<circ> fst) (ms_mps s)) 0)) CHR ''m''"

definition memory_s3 :: "int \<Rightarrow> (nat \<Rightarrow> bool) \<Rightarrow> mem_s3 S3API" where
  "memory_s3 minSize fails =
     \<lparr>svc_PutObject = (\<lambda>b k c. ms_do fails (\<lambda>s. (None, s\<lparr>ms_objs := map_set k c (ms_objs s)\<rparr>))),
      svc_ListParts = (\<lambda>b k i marker limit. ms_try fails (ms_list k i marker limit)),
      svc_UploadPart = (\<lambda>b k i n d. ms_try fails (ms_new_part k i n d)),
      svc_GetObject = (\<lambda>b inp. ms_try fails (ms_get (go_Key inp))),
      svc_HeadObject = (\<lambda>b k. ms_try fails (\<lambda>s.
         case map_of (ms_objs s) k of None \<Rightarrow> (Inl (aws_failure ''NotFound''), s) | Some c \<Rightarrow> (Inr (int (length c)), s))),
      svc_CreateMultipartUpload = (\<lambda>b k meta t. ms_try fails (\<lambda>s.
         (Inr (ms_new_id s), s\<lparr>ms_mps := AList.update (k, ms_new_id s) [] (ms_mps s)\<rparr>))),
      svc_AbortMultipartUpload = (\<lambda>b k i. ms_do fails (\<lambda>s.
         (case map_of (ms_mps s) (k, i) of None \<Rightarrow> Some (aws_failure ''NoSuchUpload'') | Some ps \<Rightarrow> None,
          s\<lparr>ms_mps := AList.delete (k, i) (ms_mps s)\<rparr>))),
      svc_DeleteObject = (\<lambda>b k. ms_do fails (\<lambda>s. (None, s\<lparr>ms_objs := map_del k (ms_objs s)\<rparr>))),
      svc_DeleteObjects = (\<lambda>b ks. ms_try fails (\<lambda>s. (Inr [], s\<lparr>ms_objs := fold map_del ks (ms_objs s)\<rparr>))),
      svc_CompleteMultipartUpload = (\<lambda>b k i cs. ms_do fails (ms_complete minSize k i cs)),
      svc_UploadPartCopy = (\<lambda>b k i n src. ms_try fails (\<lambda>s.
         case map_of (ms_objs s) (drop (length b + 1) src) of
           None \<Rightarrow> (Inl (aws_failure ''NoSuchKey''), s)
         | Some c \<Rightarrow> (case bytes_of c of
              None \<Rightarrow> (Inl (aws_failure ''InvalidRequest''), s)
            | Some d \<Rightarrow> ms_new_part k i n d s)))\<rparr>"

definition ms_view :: "mem_s3 \<Rightarrow> bucket" where
  "ms_view s = \<lparr>bk_objs = map_of (ms_objs s), bk_mps = (\<lambda>k i. map_of (ms_mps s) (k, i))\<rparr>"

lemma map_of_map_del: "map_of (map_del k m) = (map_of m)(k := None)"
  by (simp add: map_del_def delete_conv')

lemmas ms_run = memory_s3_def ms_try_def ms_do_def Let_def ms_view_def set_obj_def set_mp_def map_of_map_del
  update_conv' delete_conv' fun_eq_iff

lemma ms_new_part_view:
  assumes "ms_new_part k i n d s = (r, s')" "map_of (ms_mps s) (k, i) = Some ps"
  shows "\<exists>etag. r = Inr etag \<and> ms_view s' = set_mp k i (Some (put_part n d etag ps)) (ms_view s)"
  using assms by (auto simp: ms_new_part_def ms_run)

lemma ms_view_clock [simp]: "ms_view (s\<lparr>ms_clock := n\<rparr>) = ms_view s"
  by (simp add: ms_view_def)

lemma ms_view_sel: "bk_objs (ms_view s) k = map_of (ms_objs s) k" "bk_mps (ms_view s) k i = map_of (ms_mps s) (k, i)"
  by (simp_all add: ms_view_def)

lemma ms_delete_view:
  "\<lparr>bk_objs = map_of (fold map_del ks m), bk_mps = f\<rparr> = fold (\<lambda>k. set_obj k None) ks \<lparr>bk_objs = map_of m, bk_mps = f\<rparr>"
  by (induction ks arbitrary: m) (simp_all add: set_obj_def map_of_map_del)

lemma ms_new_id_fresh: "map_of (ms_mps s) (k, ms_new_id s) = None"
proof (rule ccontr)
  assume "map_of (ms_mps s) (k, ms_new_id s) \<noteq> None"
  then obtain x where "((k, ms_new_id s), x) \<in> set (ms_mps s)" by (auto dest: map_of_SomeD)
  then have "length (ms_new_id s) \<in> set (0 # map (length \<circ> snd \<circ> fst) (ms_mps s))" by force
  then have "length (ms_new_id s) \<le> fold max (map (length \<circ> snd \<circ> fst) (ms_mps s)) 0"
    unfolding Max.set_eq_fold [symmetric] by (intro Max_ge) simp_all
  then show False by (simp add: ms_new_id_def)
qed

lemma ms_list_page:
  assumes "ms_list k i marker limit s = (r, s')"
  shows "s' = s \<and>
    (case map_of (ms_mps s) (k, i) of
       None \<Rightarrow> \<exists>e. r = Inl e \<and> isAwsError ''NoSuchUpload'' e
     | Some ps \<Rightarrow> \<exists>page. r = Inr page \<and> page_of limit (dropWhile (\<lambda>p. fst p \<le> marker_num marker) ps) page)"
proof (cases "map_of (ms_mps s) (k, i)")
  case None
  with assms show ?thesis by (auto simp: ms_list_def aws_failure_def isAwsError_def)
next
  case (Some ps)
  define n where "n = (case limit of None \<Rightarrow> 2 | Some l \<Rightarrow> nat l)"
  define rest where "rest = dropWhile (\<lambda>p. fst p \<le> marker_num marker) ps"
  from assms [unfolded ms_list_def Some option.case Let_def, folded rest_def n_def] have "s' = s" and r: "r = Inr \<lparr>lp_Parts = part_list (take n rest), lp_IsTruncated = Some (n < length rest),
       lp_NextPartNumberMarker = (if 0 < n \<and> n < length rest then Some (FormatInt (fst (rest ! (n - 1)))) else None)\<rparr>"
    by auto
  moreover have "0 < n" if "limit = None" using that by (simp add: n_def)
  ultimately show ?thesis
    unfolding Some option.case rest_def [symmetric] page_of_def by (intro conjI exI [of _ n] exI) auto
qed

lemma memory_laws:
  "put_ok (memory_s3 m (\<lambda>_. False)) b ms_view" "get_ok (memory_s3 m (\<lambda>_. False)) b ms_view"
  "head_ok (memory_s3 m (\<lambda>_. False)) b ms_view" "list_ok (memory_s3 m (\<lambda>_. False)) b ms_view"
  "part_ok n (memory_s3 m (\<lambda>_. False)) b ms_view" "copy_ok n (memory_s3 m (\<lambda>_. False)) b ms_view"
  "create_ok (memory_s3 m (\<lambda>_. False)) b ms_view" "complete_ok m (memory_s3 m (\<lambda>_. False)) b ms_view"
  "abort_ok (memory_s3 m (\<lambda>_. False)) b ms_view" "delete_ok (memory_s3 m (\<lambda>_. False)) b ms_view"
proof -
  show "put_ok (memory_s3 m (\<lambda>_. False)) b ms_view" by (simp add: put_ok_def ms_run)
  show "get_ok (memory_s3 m (\<lambda>_. False)) b ms_view"
    by (auto simp: get_ok_def ms_run ms_get_def plainInput_def split: option.splits)
  show "head_ok (memory_s3 m (\<lambda>_. False)) b ms_view"
    by (auto simp: head_ok_def ms_run aws_failure_def isAwsError_def split: option.splits)
  show "list_ok (memory_s3 m (\<lambda>_. False)) b ms_view"
    unfolding list_ok_def memory_s3_def ms_try_def ms_view_sel S3API.simps Let_def if_False
    by (intro allI impI) (drule ms_list_page, simp)
  show "part_ok n (memory_s3 m (\<lambda>_. False)) b ms_view"
    unfolding part_ok_def memory_s3_def ms_try_def ms_view_sel S3API.simps Let_def if_False
    by (intro allI impI) (erule ms_new_part_view [where s = "s\<lparr>ms_clock := n\<rparr>" for s n, simplified], simp)
  show "copy_ok n (memory_s3 m (\<lambda>_. False)) b ms_view"
    unfolding copy_ok_def memory_s3_def ms_try_def ms_view_sel S3API.simps Let_def if_False
    by (intro allI impI) (rule ms_new_part_view [where s = "s\<lparr>ms_clock := n\<rparr>" for s n, simplified], simp_all)
  show "create_ok (memory_s3 m (\<lambda>_. False)) b ms_view"
    using ms_new_id_fresh by (auto simp: create_ok_def ms_run) (auto simp: ms_new_id_def)
  show "complete_ok m (memory_s3 m (\<lambda>_. False)) b ms_view"
    by (auto simp: complete_ok_def ms_run ms_complete_def list_all_iff)
  show "abort_ok (memory_s3 m (\<lambda>_. False)) b ms_view"
    by (auto simp: abort_ok_def ms_run aws_failure_def isAwsError_def split: option.splits)
  show "delete_ok (memory_s3 m (\<lambda>_. False)) b ms_view"
    by (auto simp: delete_ok_def memory_s3_def ms_try_def ms_do_def Let_def ms_view_def set_obj_def map_of_map_del ms_delete_view)
qed

lemma memory_missing: "missing_ok (memory_s3 m (\<lambda>_. False)) b ms_view"
  by (auto simp: missing_ok_def ms_run ms_get_def plainInput_def aws_failure_def isAwsError_def)

lemma memory_reliable:
  "Service store = memory_s3 (MinPartSize store) (\<lambda>_. False) \<Longrightarrow> s3_reliable store ms_view"
  by (simp add: s3_reliable_def Let_def memory_laws)

end
