(* ===== verification/S3Log.thy ===== *)
theory S3Log
  imports S3Service
begin

text \<open>
  The client of S3 that logs its calls (\<^verbatim>\<open>internal/s3log/s3log.go\<close>), which the command line puts
  before the real client for \<^verbatim>\<open>-s3-log-api-calls\<close>. It passes every call on, and writes a record
  with the input, the output or the error, and the duration. It is shown that a service keeps the
  behaviour on which the store relies, except that a failed \<^verbatim>\<open>GetObject\<close> ends in a panic.
\<close>

section \<open>What is logged\<close>

text \<open>
  The inputs and outputs of the calls as values of the SDK, as far as the store uses them. A body
  that is absent has been set to nil; \<open>NilObject\<close> and \<open>NilOutput\<close> are the nil pointers that the SDK
  returns beside an error.
\<close>

datatype s3_value =
    PutObjectInput string string "contents option"
  | UploadPartInput string string string int "bytes option"
  | ObjectOutput "contents option" GetObjectOutput
  | NilObject
  | ListPartsInput string string string "string option" "int option"
  | PartsOutput ListPartsOutput
  | ObjectInput string GetObjectInput
  | KeyInput string string
  | LengthOutput int
  | CreateInput string string "string gomap" "string option"
  | UploadInput string string string
  | ObjectKeys string "string list"
  | FailedKeys "(string \<times> string \<times> string) list"
  | CompleteInput string string string "(string \<times> int) list"
  | CopyInput string string string int string
  | TextOutput string
  | EmptyOutput
  | NilOutput

text \<open>The answer to \<^verbatim>\<open>GetObject\<close> without its body.\<close>

definition object_head :: "GetObjectOutput \<Rightarrow> GetObjectOutput" where
  "object_head ob = ob\<lparr>gr_Body := [], gr_BodyErr := None\<rparr>"

definition object_output :: "GetObjectOutput \<Rightarrow> s3_value" where
  "object_output ob = ObjectOutput (Some (gr_Body ob)) (object_head ob)"

text \<open>
  A copy of a value without its body; \<open>None\<close> is the panic when the nil pointer to an object is
  dereferenced.
\<close>

fun sanitizeForLogging :: "s3_value \<Rightarrow> s3_value option" where
  "sanitizeForLogging (PutObjectInput b k body) = Some (PutObjectInput b k None)"
| "sanitizeForLogging (UploadPartInput b k i n body) = Some (UploadPartInput b k i n None)"
| "sanitizeForLogging (ObjectOutput body ob) = Some (ObjectOutput None ob)"
| "sanitizeForLogging NilObject = None"
| "sanitizeForLogging v = Some v"

text \<open>The arguments are the encoding as JSON and the duration of the n-th call in milliseconds.\<close>

record Logger =
  MarshalValue :: "s3_value \<Rightarrow> err + string"
  Milliseconds :: "nat \<Rightarrow> int"

definition jsonEncode :: "Logger \<Rightarrow> s3_value \<Rightarrow> string" where
  "jsonEncode l v =
     (case MarshalValue l v of
        Inl e \<Rightarrow> ''{'' @ [CHR 0x22] @ ''error'' @ [CHR 0x22] @ '':'' @ [CHR 0x22] @ ''failed to marshal: '' @
                 err_text e @ [CHR 0x22] @ ''}''
      | Inr t \<Rightarrow> t)"

text \<open>A record has either the text of the error or the output.\<close>

record LogRecord =
  lr_operation :: string
  lr_input :: string
  lr_duration_ms :: int
  lr_outcome :: "string + string"

definition logCall ::
  "Logger \<Rightarrow> string \<Rightarrow> s3_value \<Rightarrow> s3_value \<Rightarrow> err option \<Rightarrow> LogRecord list \<Rightarrow> LogRecord list option" where
  "logCall l operation input output e log =
     (case sanitizeForLogging input of
        None \<Rightarrow> None
      | Some sanitizedInput \<Rightarrow>
          (case sanitizeForLogging output of
             None \<Rightarrow> None
           | Some sanitizedOutput \<Rightarrow>
               Some (log @ [\<lparr>lr_operation = operation, lr_input = jsonEncode l sanitizedInput,
                             lr_duration_ms = Milliseconds l (length log),
                             lr_outcome = (case e of Some x \<Rightarrow> Inl (err_text x)
                                                   | None \<Rightarrow> Inr (jsonEncode l sanitizedOutput))\<rparr>])))"

section \<open>The client\<close>

record 's logged =
  wrapped :: 's
  s3_log :: "LogRecord list"

text \<open>A panic is an error that no caller handles, as elsewhere.\<close>

definition nil_dereference :: aws_error where
  "nil_dereference = \<lparr>aws_type = [], aws_code = [], aws_response = None, aws_err = Panic ''nil pointer dereference''\<rparr>"

text \<open>Calls with an output, and calls whose output the store does not use.\<close>

definition log_output ::
  "Logger \<Rightarrow> string \<Rightarrow> s3_value \<Rightarrow> ('r \<Rightarrow> s3_value) \<Rightarrow> s3_value \<Rightarrow> ('s \<Rightarrow> (aws_error + 'r) \<times> 's) \<Rightarrow>
     's logged \<Rightarrow> (aws_error + 'r) \<times> 's logged" where
  "log_output l operation input out nil_out f s =
     (case f (wrapped s) of
        (r, x) \<Rightarrow>
          (case logCall l operation input (case r of Inl e \<Rightarrow> nil_out | Inr v \<Rightarrow> out v)
                  (case r of Inl e \<Rightarrow> Some (aws_err e) | Inr v \<Rightarrow> None) (s3_log s) of
             None \<Rightarrow> (Inl nil_dereference, s\<lparr>wrapped := x\<rparr>)
           | Some log \<Rightarrow> (r, s\<lparr>wrapped := x, s3_log := log\<rparr>)))"

definition log_status ::
  "Logger \<Rightarrow> string \<Rightarrow> s3_value \<Rightarrow> ('s \<Rightarrow> aws_error option \<times> 's) \<Rightarrow> 's logged \<Rightarrow> aws_error option \<times> 's logged" where
  "log_status l operation input f s =
     (case f (wrapped s) of
        (r, x) \<Rightarrow>
          (case logCall l operation input (case r of Some e \<Rightarrow> NilOutput | None \<Rightarrow> EmptyOutput)
                  (map_option aws_err r) (s3_log s) of
             None \<Rightarrow> (Some nil_dereference, s\<lparr>wrapped := x\<rparr>)
           | Some log \<Rightarrow> (r, s\<lparr>wrapped := x, s3_log := log\<rparr>)))"

definition loggingS3API :: "Logger \<Rightarrow> 's S3API \<Rightarrow> 's logged S3API" where
  "loggingS3API l svc =
     \<lparr>svc_PutObject = (\<lambda>b k c. log_status l ''PutObject'' (PutObjectInput b k (Some c)) (svc_PutObject svc b k c)),
      svc_ListParts = (\<lambda>b k i marker limit.
        log_output l ''ListParts'' (ListPartsInput b k i marker limit) PartsOutput NilOutput (svc_ListParts svc b k i marker limit)),
      svc_UploadPart = (\<lambda>b k i n d.
        log_output l ''UploadPart'' (UploadPartInput b k i n (Some d)) TextOutput NilOutput (svc_UploadPart svc b k i n d)),
      svc_GetObject = (\<lambda>b inp.
        log_output l ''GetObject'' (ObjectInput b inp) object_output NilObject (svc_GetObject svc b inp)),
      svc_HeadObject = (\<lambda>b k.
        log_output l ''HeadObject'' (KeyInput b k) LengthOutput NilOutput (svc_HeadObject svc b k)),
      svc_CreateMultipartUpload = (\<lambda>b k meta t.
        log_output l ''CreateMultipartUpload'' (CreateInput b k meta t) TextOutput NilOutput (svc_CreateMultipartUpload svc b k meta t)),
      svc_AbortMultipartUpload = (\<lambda>b k i.
        log_status l ''AbortMultipartUpload'' (UploadInput b k i) (svc_AbortMultipartUpload svc b k i)),
      svc_DeleteObject = (\<lambda>b k. log_status l ''DeleteObject'' (KeyInput b k) (svc_DeleteObject svc b k)),
      svc_DeleteObjects = (\<lambda>b ks.
        log_output l ''DeleteObjects'' (ObjectKeys b ks) FailedKeys NilOutput (svc_DeleteObjects svc b ks)),
      svc_CompleteMultipartUpload = (\<lambda>b k i cs.
        log_status l ''CompleteMultipartUpload'' (CompleteInput b k i cs) (svc_CompleteMultipartUpload svc b k i cs)),
      svc_UploadPartCopy = (\<lambda>b k i n src.
        log_output l ''UploadPartCopy'' (CopyInput b k i n src) TextOutput NilOutput (svc_UploadPartCopy svc b k i n src))\<rparr>"

text \<open>
  The store with this client. The client is no \<^verbatim>\<open>*s3.Client\<close>, with which requests could be
  presigned, and requests over HTTP do not go through it.
\<close>

definition unlogged :: "('s \<Rightarrow> 'r \<times> 's) \<Rightarrow> 's logged \<Rightarrow> 'r \<times> 's logged" where
  "unlogged f s = (case f (wrapped s) of (r, x) \<Rightarrow> (r, s\<lparr>wrapped := x\<rparr>))"

definition logging_store :: "Logger \<Rightarrow> 's S3Store \<Rightarrow> 's logged S3Store" where
  "logging_store l store =
     \<lparr>Bucket = Bucket store, ObjectPrefix = ObjectPrefix store, MetadataObjectPrefix = MetadataObjectPrefix store,
      Service = loggingS3API l (Service store), MaxPartSize = MaxPartSize store, MinPartSize = MinPartSize store,
      PreferredPartSize = PreferredPartSize store, MaxMultipartParts = MaxMultipartParts store,
      MaxObjectSize = MaxObjectSize store, MaxBufferedParts = MaxBufferedParts store,
      TemporaryDirectory = TemporaryDirectory store, DisableContentHashes = DisableContentHashes store,
      presign = None, http_Put = (\<lambda>url d n. unlogged (http_Put store url d n))\<rparr>"

section \<open>Calls are passed on\<close>

text \<open>An operation that answers like another one and adds one record to the log.\<close>

definition passes :: "('s logged \<Rightarrow> 'r \<times> 's logged) \<Rightarrow> ('s \<Rightarrow> 'r \<times> 's) \<Rightarrow> bool" where
  "passes g f \<longleftrightarrow>
     (\<forall>s r s'. g s = (r, s') \<longrightarrow> f (wrapped s) = (r, wrapped s') \<and> (\<exists>x. s3_log s' = s3_log s @ [x]))"

lemma passesD: "passes g f \<Longrightarrow> g s = (r, s') \<Longrightarrow> f (wrapped s) = (r, wrapped s')"
  by (simp add: passes_def)

lemma sanitize_nil: "sanitizeForLogging v = None \<longleftrightarrow> v = NilObject"
  by (cases v) simp_all

lemma log_output_passes:
  assumes "input \<noteq> NilObject" "nil_out \<noteq> NilObject" "\<And>v. out v \<noteq> NilObject"
  shows "passes (log_output l op input out nil_out f) f"
  unfolding passes_def log_output_def logCall_def
  using assms sanitize_nil by (fastforce split: prod.splits sum.splits option.splits)

lemma log_status_passes: "input \<noteq> NilObject \<Longrightarrow> passes (log_status l op input f) f"
  unfolding passes_def log_status_def logCall_def
  using sanitize_nil by (fastforce split: prod.splits option.splits)

lemma calls_pass:
  "passes (svc_PutObject (loggingS3API l svc) b k c) (svc_PutObject svc b k c)"
  "passes (svc_ListParts (loggingS3API l svc) b k i marker limit) (svc_ListParts svc b k i marker limit)"
  "passes (svc_UploadPart (loggingS3API l svc) b k i n d) (svc_UploadPart svc b k i n d)"
  "passes (svc_HeadObject (loggingS3API l svc) b k) (svc_HeadObject svc b k)"
  "passes (svc_CreateMultipartUpload (loggingS3API l svc) b k meta t) (svc_CreateMultipartUpload svc b k meta t)"
  "passes (svc_AbortMultipartUpload (loggingS3API l svc) b k i) (svc_AbortMultipartUpload svc b k i)"
  "passes (svc_DeleteObject (loggingS3API l svc) b k) (svc_DeleteObject svc b k)"
  "passes (svc_DeleteObjects (loggingS3API l svc) b ks) (svc_DeleteObjects svc b ks)"
  "passes (svc_CompleteMultipartUpload (loggingS3API l svc) b k i cs) (svc_CompleteMultipartUpload svc b k i cs)"
  "passes (svc_UploadPartCopy (loggingS3API l svc) b k i n src) (svc_UploadPartCopy svc b k i n src)"
  by (simp_all add: loggingS3API_def log_output_passes log_status_passes)

text \<open>\<^verbatim>\<open>GetObject\<close> passes objects on, and its log record needs an object.\<close>

lemma logged_get:
  assumes "svc_GetObject svc b inp (wrapped s) = (r, x)"
  shows "svc_GetObject (loggingS3API l svc) b inp s =
    (case r of
       Inl e \<Rightarrow> (Inl nil_dereference, s\<lparr>wrapped := x\<rparr>)
     | Inr ob \<Rightarrow> (Inr ob, s\<lparr>wrapped := x, s3_log := s3_log s @ [\<lparr>lr_operation = ''GetObject'',
         lr_input = jsonEncode l (ObjectInput b inp), lr_duration_ms = Milliseconds l (length (s3_log s)),
         lr_outcome = Inr (jsonEncode l (ObjectOutput None (object_head ob)))\<rparr>]\<rparr>))"
  using assms by (simp add: loggingS3API_def log_output_def logCall_def object_output_def split: sum.splits)

lemma logging_store_fields [simp]:
  "Service (logging_store l store) = loggingS3API l (Service store)" "Bucket (logging_store l store) = Bucket store"
  "ObjectPrefix (logging_store l store) = ObjectPrefix store"
  "MetadataObjectPrefix (logging_store l store) = MetadataObjectPrefix store"
  "MaxPartSize (logging_store l store) = MaxPartSize store" "MinPartSize (logging_store l store) = MinPartSize store"
  "PreferredPartSize (logging_store l store) = PreferredPartSize store"
  "MaxMultipartParts (logging_store l store) = MaxMultipartParts store" "MaxObjectSize (logging_store l store) = MaxObjectSize store"
  "MaxBufferedParts (logging_store l store) = MaxBufferedParts store"
  "DisableContentHashes (logging_store l store) = DisableContentHashes store" "presign (logging_store l store) = None"
  by (simp_all add: logging_store_def)

lemma logging_keys [simp]:
  "keyWithPrefix (logging_store l store) = keyWithPrefix store"
  "metadataKeyWithPrefix (logging_store l store) = metadataKeyWithPrefix store"
  by (simp_all add: fun_eq_iff keyWithPrefix_def metadataKeyWithPrefix_def)

text \<open>A reliable service is one for the store that logs, too; the bucket does not change.\<close>

lemma logging_reliable:
  assumes "s3_reliable store view"
  shows "s3_reliable (logging_store l store) (\<lambda>s. view (wrapped s))"
proof -
  note r = reliableD [OF assms] and p = calls_pass [where l = l and svc = "Service store", THEN passesD]
  have "get_ok (loggingS3API l (Service store)) (Bucket store) (\<lambda>s. view (wrapped s))"
    unfolding get_ok_def
  proof (intro allI impI)
    fix k s r' s'
    assume run: "svc_GetObject (loggingS3API l (Service store)) (Bucket store) (plainInput k) s = (r', s')"
    obtain r0 x where x: "svc_GetObject (Service store) (Bucket store) (plainInput k) (wrapped s) = (r0, x)" by (metis surj_pair)
    from r(2) [unfolded get_ok_def, rule_format, OF x] logged_get [OF x, of l] run
    show "view (wrapped s') = view (wrapped s) \<and>
        (\<forall>c. bk_objs (view (wrapped s)) k = Some c \<longrightarrow>
           (\<exists>ob. r' = Inr ob \<and> gr_Body ob = c \<and> gr_BodyErr ob = None \<and>
             (\<forall>d. c = map B d \<longrightarrow> gr_ContentLength ob = Some (int (length d)))))"
      by (auto split: sum.splits)
  qed
  moreover have "put_ok (loggingS3API l (Service store)) (Bucket store) (\<lambda>s. view (wrapped s))"
    using r(1) p(1) unfolding put_ok_def by blast
  moreover have "head_ok (loggingS3API l (Service store)) (Bucket store) (\<lambda>s. view (wrapped s))"
    using r(3) p(4) unfolding head_ok_def by blast
  moreover have "list_ok (loggingS3API l (Service store)) (Bucket store) (\<lambda>s. view (wrapped s))"
    using r(4) p(2) unfolding list_ok_def by blast
  moreover have "part_ok (MaxMultipartParts store) (loggingS3API l (Service store)) (Bucket store) (\<lambda>s. view (wrapped s))"
    using r(5) p(3) unfolding part_ok_def by blast
  moreover have "copy_ok (MaxMultipartParts store) (loggingS3API l (Service store)) (Bucket store) (\<lambda>s. view (wrapped s))"
    using r(6) p(10) unfolding copy_ok_def by blast
  moreover have "create_ok (loggingS3API l (Service store)) (Bucket store) (\<lambda>s. view (wrapped s))"
    using r(7) p(5) unfolding create_ok_def by blast
  moreover have "complete_ok (MinPartSize store) (loggingS3API l (Service store)) (Bucket store) (\<lambda>s. view (wrapped s))"
    using r(8) p(9) unfolding complete_ok_def by blast
  moreover have "abort_ok (loggingS3API l (Service store)) (Bucket store) (\<lambda>s. view (wrapped s))"
    using r(9) p(6) unfolding abort_ok_def by blast
  moreover have "delete_ok (loggingS3API l (Service store)) (Bucket store) (\<lambda>s. view (wrapped s))"
    using r(10) p(7,8) unfolding delete_ok_def by blast
  ultimately show ?thesis by (simp add: s3_reliable_def Let_def)
qed

section \<open>Bodies are not logged\<close>

text \<open>
  Uploads of different bytes that are answered alike leave the same records, and so do two
  objects that differ in their body only.
\<close>

lemma bodies_are_not_logged:
  "svc_UploadPart (loggingS3API l svc) b k i n d s = (r, s1) \<Longrightarrow>
     svc_UploadPart (loggingS3API l svc') b k i n d' s = (r, s2) \<Longrightarrow> s3_log s1 = s3_log s2"
  "svc_PutObject (loggingS3API l svc) b k c s = (r', s3) \<Longrightarrow>
     svc_PutObject (loggingS3API l svc') b k c' s = (r', s4) \<Longrightarrow> s3_log s3 = s3_log s4"
  by (auto simp: loggingS3API_def log_output_def log_status_def logCall_def split: prod.splits sum.splits option.splits)

lemma object_bodies_are_not_logged:
  assumes "svc_GetObject (loggingS3API l svc) b inp s = (Inr ob, s1)"
    "svc_GetObject (loggingS3API l svc') b inp s = (Inr ob', s2)" "object_head ob = object_head ob'"
  shows "s3_log s1 = s3_log s2"
  using assms by (auto simp: loggingS3API_def log_output_def logCall_def object_output_def split: prod.splits sum.splits option.splits)

section \<open>Failed requests for objects\<close>

text \<open>
  Property C27. With \<^verbatim>\<open>-s3-log-api-calls\<close>, a request for an upload whose information is not in the
  bucket ends in a panic: the nil pointer that the SDK returns beside its error is dereferenced
  for the log. The request runs in a goroutine of its own, so that the panic ends the whole server,
  which anyone can cause with an unknown identifier; without logging the answer is that the upload
  is not found.
\<close>

theorem logged_lookup_panics:
  assumes "svc_GetObject (Service store) (Bucket store)
      (plainInput (metadataKeyWithPrefix store (objectId u @ ''.info''))) (wrapped (remote s)) = (Inl e, x)"
    and "isAwsError ''NoSuchKey'' e" "up_info u = None" "remote plain = wrapped (remote s)"
  shows "fst (s3_GetInfo (logging_store l store) u s) = Inl (Panic ''nil pointer dereference'') \<and>
    fst (s3_GetInfo store u plain) = Inl (TusError ErrNotFound)"
proof -
  let ?inp = "plainInput (metadataKeyWithPrefix store (objectId u @ ''.info''))"
  have "fst (call (svc_GetObject (loggingS3API l (Service store)) (Bucket store) ?inp) s) = Inl nil_dereference"
    using logged_get [OF assms(1), of l] by (simp add: call_def)
  moreover have "fst (call (svc_GetObject (Service store) (Bucket store) ?inp) plain) = Inl e"
    using assms(1,4) by (simp add: call_def)
  moreover have "\<not> isAwsError ''NoSuchKey'' nil_dereference" "aws_err nil_dereference = Panic ''nil pointer dereference''"
    by (simp_all add: isAwsError_def nil_dereference_def)
  ultimately show ?thesis using assms(2,3)
    by (auto simp: s3_GetInfo_def getInternalInfo_def fetchInfo_def split: prod.splits)
qed

text \<open>A request for an unknown upload in an empty bucket.\<close>

definition logged_env :: "mem_s3 \<Rightarrow> mem_s3 logged s3env" where
  "logged_env m =
     \<lparr>machine = \<lparr>fs_files = [], fs_dirs = [], fs_faults = (\<lambda>_. None), fs_clock = 0, fs_rand = (\<lambda>_. None), fs_drawn = 0, fs_json = (\<lambda>_. [])\<rparr>,
      remote = \<lparr>wrapped = m, s3_log = []\<rparr>, tempMemory = True, ctxDone = None, maxPages = 20\<rparr>"

definition demo_logger :: Logger where
  "demo_logger = \<lparr>MarshalValue = (\<lambda>_. Inr ''{}''), Milliseconds = (\<lambda>_. 0)\<rparr>"

definition any_store :: "mem_s3 S3Store" where
  "any_store = s3_New ''b'' (memory_s3 2 (\<lambda>_. False)) None (\<lambda>url d n s. (Inl (PlainError ''unavailable''), s))"

definition unknown_upload :: s3Upload where
  "unknown_upload = \<lparr>objectId = ''x'', multipartId = ''y'', up_info = None, up_parts = [], incompletePartSize = 0\<rparr>"

theorem logged_lookup_panics_witness:
  "fst (s3_GetInfo (logging_store demo_logger any_store) unknown_upload (logged_env \<lparr>ms_objs = [], ms_mps = [], ms_clock = 0\<rparr>)) =
     Inl (Panic ''nil pointer dereference'')"
proof -
  let ?m = "\<lparr>ms_objs = [], ms_mps = [], ms_clock = 0\<rparr>"
  have "missing_ok (Service any_store) (Bucket any_store) ms_view" by (simp add: any_store_def s3_New_def memory_missing)
  then obtain e x where "svc_GetObject (Service any_store) (Bucket any_store)
      (plainInput (metadataKeyWithPrefix any_store (objectId unknown_upload @ ''.info''))) ?m = (Inl e, x)" "isAwsError ''NoSuchKey'' e"
    unfolding missing_ok_def by (metis bucket.select_convs(1) map_of.simps(1) mem_s3.select_convs(1) ms_view_def)
  with logged_lookup_panics [of any_store unknown_upload "logged_env ?m" e x "\<lparr>machine = machine (logged_env ?m), remote = ?m, tempMemory = True, ctxDone = None, maxPages = 20\<rparr>" demo_logger]
  show ?thesis by (simp add: logged_env_def unknown_upload_def)
qed

text \<open>Parts cannot be sent by presigned requests, which the flag for content hashes asks for.\<close>

lemma logged_parts_are_not_presigned:
  assumes "DisableContentHashes store"
  shows "putPartForUpload (logging_store l store) u n d len s =
    (Inl (PlainError ''s3store: failed to cast S3 service for presigning''), s)"
  using assms by (simp add: putPartForUpload_def)

end
