(* ===== verification/S3Facts.thy ===== *)
theory S3Facts
  imports S3Service
begin

text \<open>
  What the operations of the S3 store do to a bucket whose service behaves as documented.
\<close>

section \<open>Single requests\<close>

text \<open>What requests and temporary files leave alone.\<close>

definition setting :: "'s s3env \<Rightarrow> (nat \<Rightarrow> fault option) \<times> bool \<times> nat option \<times> nat" where
  "setting s = (fs_faults (machine s), tempMemory s, ctxDone s, maxPages s)"

definition calm :: "'s s3env \<Rightarrow> bool" where
  "calm s \<longleftrightarrow> (\<forall>n. fs_faults (machine s) n = None) \<and> ctxDone s = None"

lemma setting_calm: "setting s' = setting s \<Longrightarrow> calm s' = calm s"
  by (simp add: setting_def calm_def)

lemma callE:
  assumes "call f s = (r, s')"
  obtains x where "f (remote s) = (r, x)" "remote s' = x" "setting s' = setting s" "machine s' = machine s"
  using assms by (auto simp: call_def setting_def split: prod.splits)

lemma on_machine_tmp:
  assumes "on_machine (tmp_op name) s = (e, s')"
  shows "remote s' = remote s" "setting s' = setting s" "calm s \<Longrightarrow> e = None"
  using assms by (auto simp: on_machine_def tmp_op_def tick_def setting_def calm_def split: prod.splits option.splits)

lemma on_machine_close:
  assumes "on_machine (closeReader c) s = (e, s')"
  shows "remote s' = remote s" "setting s' = setting s" "calm s \<Longrightarrow> e = None"
  using assms by (auto simp: closeReader_def on_machine_def tmp_op_def tick_def setting_def calm_def
      split: prod.splits option.splits if_splits)

lemma set_mp_twice [simp]: "set_mp k i x (set_mp k i y b) = set_mp k i x b"
  by (simp add: set_mp_def)

lemma set_mp_same: "bk_mps b k i = x \<Longrightarrow> set_mp k i x b = b"
  by (cases b) (auto simp: set_mp_def)

lemma set_obj_same: "bk_objs b k = x \<Longrightarrow> set_obj k x b = b"
  by (cases b) (auto simp: set_obj_def)

lemma set_obj_mp: "set_obj k c (set_mp k' i ps b) = set_mp k' i ps (set_obj k c b)"
  by (simp add: set_obj_def set_mp_def)

lemma set_obj_twice [simp]: "set_obj k x (set_obj k y b) = set_obj k x b"
  by (simp add: set_obj_def)

abbreviation upload_key :: "'s S3Store \<Rightarrow> string \<Rightarrow> string" where
  "upload_key store oid \<equiv> keyWithPrefix store oid"

abbreviation info_key :: "'s S3Store \<Rightarrow> string \<Rightarrow> string" where
  "info_key store oid \<equiv> metadataKeyWithPrefix store (oid @ ''.info'')"

abbreviation part_key :: "'s S3Store \<Rightarrow> string \<Rightarrow> string" where
  "part_key store oid \<equiv> metadataKeyWithPrefix store (oid @ ''.part'')"

lemma info_key_neq [simp]: "info_key store oid \<noteq> part_key store oid" "part_key store oid \<noteq> info_key store oid"
  by (simp_all add: metadataKeyWithPrefix_def)

lemma upload_part_ok:
  assumes rel: "s3_reliable store view" and hashes: "\<not> DisableContentHashes store"
    and ps: "bk_mps (view (remote s)) (upload_key store (objectId u)) (multipartId u) = Some ps" "numbered ps"
    and num: "num = int (length ps) + 1" "num \<le> MaxMultipartParts store"
    and calm: "calm s" and c: "fc_size c = int (length (fc_reader c))"
    and run: "upload_part store u num c s = (e, u', s')"
  shows "\<exists>etag. e = None \<and> u' = u\<lparr>up_parts := up_parts u @ part_list [(num, fc_reader c, etag)]\<rparr> \<and>
    view (remote s') = set_mp (upload_key store (objectId u)) (multipartId u) (Some (ps @ [(num, fc_reader c, etag)])) (view (remote s)) \<and>
    numbered (ps @ [(num, fc_reader c, etag)]) \<and> setting s' = setting s"
proof -
  obtain r s1 where call: "call (svc_UploadPart (Service store) (Bucket store) (upload_key store (objectId u))
      (multipartId u) num (fc_reader c)) s = (r, s1)" by (metis surj_pair)
  from call obtain x where x: "svc_UploadPart (Service store) (Bucket store) (upload_key store (objectId u))
      (multipartId u) num (fc_reader c) (remote s) = (r, x)" "remote s1 = x" "setting s1 = setting s"
    by (rule callE)
  with reliableD(5) [OF rel, unfolded part_ok_def, rule_format, OF x(1) ps(1)] num obtain etag where
    r: "r = Inr etag" "view (remote s1) = set_mp (upload_key store (objectId u)) (multipartId u)
      (Some (put_part num (fc_reader c) etag ps)) (view (remote s))" by auto
  have pp: "put_part num (fc_reader c) etag ps = ps @ [(num, fc_reader c, etag)]"
    using numbered_less [OF ps(2)] num(1) by (intro put_part_append) auto
  obtain ce s2 where cl: "on_machine (closeReader c) s1 = (ce, s2)" by force
  have "calm s1" using calm setting_calm x(3) by metis
  with on_machine_close [OF cl] run call r cl hashes pp x(3) c numbered_snoc [OF ps(2) num(1)]
  show ?thesis by (auto simp: upload_part_def putPartForUpload_def)
qed

lemma store_incomplete_ok:
  assumes rel: "s3_reliable store view" and calm: "calm s" and run: "store_incomplete store u c s = (e, u', s')"
  shows "e = None \<and> u' = u\<lparr>incompletePartSize := fc_size c\<rparr> \<and> setting s' = setting s \<and>
    view (remote s') = set_obj (part_key store (objectId u)) (Some (map B (fc_reader c))) (view (remote s))"
proof -
  obtain r s1 where call: "call (svc_PutObject (Service store) (Bucket store) (part_key store (objectId u)) (map B (fc_reader c))) s = (r, s1)"
    by (metis surj_pair)
  from call obtain x where x: "svc_PutObject (Service store) (Bucket store) (part_key store (objectId u)) (map B (fc_reader c)) (remote s) = (r, x)"
    "remote s1 = x" "setting s1 = setting s" by (rule callE)
  with reliableD(1) [OF rel, unfolded put_ok_def, rule_format, OF x(1)]
  have r: "r = None" "view (remote s1) = set_obj (part_key store (objectId u)) (Some (map B (fc_reader c))) (view (remote s))" by auto
  obtain ce s2 where cl: "on_machine (closeReader c) s1 = (ce, s2)" by force
  have "calm s1" using calm setting_calm x(3) by metis
  with on_machine_close [OF cl] run call r cl x(3)
  show ?thesis by (auto simp: store_incomplete_def putIncompletePartForUpload_def)
qed

section \<open>Storing the parts\<close>

text \<open>
  What the loop over the parts adds to a multipart upload: the new parts \<open>qs\<close> and the new
  incomplete part \<open>inc\<close>, which is there unless the last part is full or completes the upload.
\<close>

definition stored_parts :: "'s S3Store \<Rightarrow> bool \<Rightarrow> bytes \<Rightarrow> parts \<Rightarrow> bytes \<Rightarrow> bool" where
  "stored_parts store complete data qs inc \<longleftrightarrow>
     data = part_data qs @ inc \<and> int (length inc) < MinPartSize store \<and> (complete \<longrightarrow> inc = []) \<and>
     (\<forall>(n, d, e) \<in> set (butlast qs). MinPartSize store \<le> int (length d)) \<and>
     ((\<forall>(n, d, e) \<in> set qs. MinPartSize store \<le> int (length d)) \<or> complete)"

definition with_incomplete :: "'s S3Store \<Rightarrow> string \<Rightarrow> bytes \<Rightarrow> bucket \<Rightarrow> bucket" where
  "with_incomplete store oid inc b = (if inc = [] then b else set_obj (part_key store oid) (Some (map B inc)) b)"

abbreviation chunk_data :: "fileChunk list \<Rightarrow> bytes" where
  "chunk_data cs \<equiv> concat (map fc_reader cs)"

definition good_chunks :: "'s S3Store \<Rightarrow> fileChunk list \<Rightarrow> bool" where
  "good_chunks store cs \<longleftrightarrow>
     (\<forall>c \<in> set cs. fc_reader c \<noteq> [] \<and> fc_size c = int (length (fc_reader c))) \<and>
     (\<forall>c \<in> set (butlast cs). MinPartSize store \<le> fc_size c)"

definition grown_upload :: "s3Upload \<Rightarrow> parts \<Rightarrow> bytes \<Rightarrow> s3Upload" where
  "grown_upload u qs inc =
     u\<lparr>up_parts := up_parts u @ part_list qs,
       incompletePartSize := (if inc = [] then incompletePartSize u else int (length inc))\<rparr>"

lemma grown_upload_simps [simp]:
  "objectId (grown_upload u qs inc) = objectId u" "multipartId (grown_upload u qs inc) = multipartId u"
  "up_info (grown_upload u qs inc) = up_info u" "up_parts (grown_upload u qs inc) = up_parts u @ part_list qs"
  by (simp_all add: grown_upload_def)

lemma grown_upload_Nil: "grown_upload u qs [] = u\<lparr>up_parts := up_parts u @ part_list qs\<rparr>"
  by (cases u) (simp add: grown_upload_def)

lemma part_data_Cons: "part_data ((n, d, e) # ps) = d @ part_data ps"
  by (simp add: part_data_def)

lemma part_list_Cons: "part_list ((n, d, e) # ps) = \<lparr>pt_number = n, pt_size = int (length d), pt_etag = e\<rparr> # part_list ps"
  by (simp add: part_list_def)

lemma stored_parts_Cons:
  assumes "stored_parts store complete data qs inc" "MinPartSize store \<le> int (length d)"
  shows "stored_parts store complete (d @ data) ((n, d, e) # qs) inc"
  using assms by (auto simp: stored_parts_def part_data_Cons)

lemma stored_parts_last:
  assumes "0 < MinPartSize store" "MinPartSize store \<le> int (length d) \<or> complete"
  shows "stored_parts store complete d [(n, d, e)] []"
  using assms by (auto simp: stored_parts_def)

lemma upload_chunks_ok:
  assumes rel: "s3_reliable store view" and hashes: "\<not> DisableContentHashes store"
    and lims: "MaxMultipartParts store < 2147483647" "0 < MinPartSize store"
  shows "upload_chunks store info off n0 num cs u s = ((n, e), u', s') \<Longrightarrow>
    bk_mps (view (remote s)) (upload_key store (objectId u)) (multipartId u) = Some ps \<Longrightarrow> numbered ps \<Longrightarrow>
    num = int (length ps) + 1 \<Longrightarrow> int (length ps) + int (length cs) \<le> MaxMultipartParts store \<Longrightarrow> good_chunks store cs \<Longrightarrow>
    calm s \<Longrightarrow> 0 \<le> off \<Longrightarrow> 0 \<le> n0 \<Longrightarrow> off + n0 + int (length (chunk_data cs)) \<le> MaxInt64 \<Longrightarrow>
    \<exists>qs inc. e = None \<and> n = n0 + int (length (chunk_data cs)) \<and> u' = grown_upload u qs inc \<and> setting s' = setting s \<and>
      numbered (ps @ qs) \<and>
      view (remote s') = with_incomplete store (objectId u) inc
        (set_mp (upload_key store (objectId u)) (multipartId u) (Some (ps @ qs)) (view (remote s))) \<and>
      stored_parts store (\<not> SizeIsDeferred info \<and> Size info = off + n0 + int (length (chunk_data cs))) (chunk_data cs) qs inc"
proof (induction cs arbitrary: n0 num u s ps n e u' s')
  case Nil
  then show ?case using lims(2)
    by (intro exI [of _ "[]"]) (simp add: grown_upload_def with_incomplete_def stored_parts_def set_mp_same)
next
  case (Cons c cs)
  let ?k = "upload_key store (objectId u)" and ?i = "multipartId u" and ?d = "fc_reader c"
  from Cons.prems(6) have c: "?d \<noteq> []" "fc_size c = int (length ?d)" by (simp_all add: good_chunks_def)
  have sums: "add64 off n0 = off + n0" "add64 (off + n0) (fc_size c) = off + n0 + int (length ?d)"
    "add64 n0 (fc_size c) = n0 + int (length ?d)"
    using Cons.prems(8,9,10) c by (auto intro!: add64_id [THEN trans] simp: int64_defs)
  define part where "part \<longleftrightarrow> MinPartSize store \<le> fc_size c \<or> \<not> SizeIsDeferred info \<and> Size info = off + n0 + int (length ?d)"
  obtain e1 u1 s1 where one: "(if part then upload_part store u num c s else store_incomplete store u c s) = (e1, u1, s1)"
    by (metis surj_pair)
  obtain n2 e2 u2 s2 where rest: "upload_chunks store info off (n0 + int (length ?d)) (wrap32 (num + 1)) cs u1 s1 = ((n2, e2), u2, s2)"
    by (metis surj_pair)
  have run: "n = n2" "e = (case e1 of Some x \<Rightarrow> Some x | None \<Rightarrow> e2)" "u' = u2" "s' = s2"
    using Cons.prems(1) one rest unfolding part_def by (simp_all add: sums Let_def)
  show ?case
  proof (cases part)
    case True
    from upload_part_ok [OF rel hashes Cons.prems(2,3,4) _ Cons.prems(7) c(2)] one True Cons.prems(4,5)
    obtain etag where p: "e1 = None" "u1 = u\<lparr>up_parts := up_parts u @ part_list [(num, ?d, etag)]\<rparr>"
      "view (remote s1) = set_mp ?k ?i (Some (ps @ [(num, ?d, etag)])) (view (remote s))"
      "numbered (ps @ [(num, ?d, etag)])" "setting s1 = setting s" by auto
    show ?thesis
    proof (cases "cs = []")
      case last: True
      then have "stored_parts store (\<not> SizeIsDeferred info \<and> Size info = off + n0 + int (length (chunk_data (c # cs))))
          (chunk_data (c # cs)) [(num, ?d, etag)] []"
        using True lims(2) c(2) stored_parts_last [of store ?d] by (simp add: part_def)
      with last rest run p show ?thesis
        by (intro exI [of _ "[(num, ?d, etag)]"] exI [of _ "[]"]) (auto simp: grown_upload_Nil with_incomplete_def)
    next
      case False
      then have full: "MinPartSize store \<le> int (length ?d)" using Cons.prems(6) c by (simp add: good_chunks_def)
      have next_num: "wrap32 (num + 1) = int (length (ps @ [(num, ?d, etag)])) + 1"
        using Cons.prems(4,5) lims(1) by (simp add: wrap32_def)
      have good: "good_chunks store cs" using Cons.prems(6) False by (simp add: good_chunks_def)
      have calm1: "calm s1" using Cons.prems(7) setting_calm [OF p(5)] by simp
      have mps: "bk_mps (view (remote s1)) (upload_key store (objectId u1)) (multipartId u1) = Some (ps @ [(num, ?d, etag)])"
        by (simp add: p)
      have "int (length (ps @ [(num, ?d, etag)])) + int (length cs) \<le> MaxMultipartParts store" using Cons.prems(5) by simp
      from Cons.IH [OF rest mps p(4) next_num this good calm1 Cons.prems(8)] Cons.prems(9,10)
      obtain qs inc where
        q: "e2 = None" "n2 = n0 + int (length ?d) + int (length (chunk_data cs))" "u2 = grown_upload u1 qs inc" "setting s2 = setting s1"
        "numbered ((ps @ [(num, ?d, etag)]) @ qs)"
        "view (remote s2) = with_incomplete store (objectId u1) inc
          (set_mp (upload_key store (objectId u1)) (multipartId u1) (Some ((ps @ [(num, ?d, etag)]) @ qs)) (view (remote s1)))"
        "stored_parts store (\<not> SizeIsDeferred info \<and> Size info = off + (n0 + int (length ?d)) + int (length (chunk_data cs))) (chunk_data cs) qs inc"
        by auto
      from stored_parts_Cons [OF q(7) full, of num etag] q(1-6) p run show ?thesis
        by (intro exI [of _ "(num, ?d, etag) # qs"] exI [of _ inc])
          (simp add: grown_upload_def part_list_Cons add.assoc)
    qed
  next
    case False
    then have last: "cs = []" using Cons.prems(6) by (cases "cs = []") (auto simp: part_def good_chunks_def)
    from store_incomplete_ok [OF rel Cons.prems(7)] one False
    have "e1 = None" "u1 = u\<lparr>incompletePartSize := fc_size c\<rparr>" "setting s1 = setting s"
      "view (remote s1) = set_obj (part_key store (objectId u)) (Some (map B ?d)) (view (remote s))" by auto
    with rest run last c False Cons.prems(2,3) show ?thesis
      by (intro exI [of _ "[]"] exI [of _ ?d])
        (auto simp: grown_upload_def with_incomplete_def stored_parts_def part_def set_mp_same)
  qed
qed

section \<open>Fetching the information\<close>

text \<open>
  Parts in ascending order, as the service lists them, with the number before a position. Those of an
  upload are numbered from one on, unless a request for one of them has failed.
\<close>

definition ascending :: "parts \<Rightarrow> bool" where
  "ascending ps \<longleftrightarrow> sorted_wrt (\<lambda>p q. fst p < fst q) ps \<and> (\<forall>p \<in> set ps. 1 \<le> fst p \<and> fst p \<le> MaxInt64)"

definition number_before :: "parts \<Rightarrow> nat \<Rightarrow> int" where
  "number_before ps m = (if m = 0 then 0 else fst (ps ! (m - 1)))"

lemma ascending_dropWhile:
  assumes "ascending ps" "m \<le> length ps"
  shows "dropWhile (\<lambda>p. fst p \<le> number_before ps m) ps = drop m ps"
proof -
  have less: "i < j \<Longrightarrow> j < length ps \<Longrightarrow> fst (ps ! i) < fst (ps ! j)" for i j
    using assms(1) by (auto simp: ascending_def sorted_wrt_iff_nth_less)
  have pos: "i < length ps \<Longrightarrow> 1 \<le> fst (ps ! i)" for i using assms(1) by (auto simp: ascending_def)
  have before: "fst (ps ! i) \<le> number_before ps m" if "i < m" for i
  proof (cases "i = m - 1")
    case False
    then have "fst (ps ! i) < fst (ps ! (m - 1))" using that assms(2) by (intro less) auto
    then show ?thesis using that by (simp add: number_before_def)
  qed (use that in \<open>simp add: number_before_def\<close>)
  have "dropWhile (\<lambda>p. fst p \<le> number_before ps m) (take m ps @ drop m ps) = dropWhile (\<lambda>p. fst p \<le> number_before ps m) (drop m ps)"
  proof (rule dropWhile_append2)
    fix p assume "p \<in> set (take m ps)"
    then obtain i where "i < m" "p = ps ! i" by (auto simp: in_set_conv_nth)
    with before show "fst p \<le> number_before ps m" by simp
  qed
  moreover have "\<not> fst (ps ! m) \<le> number_before ps m" if "m < length ps"
    using less [of "m - 1" m] pos [OF that] that by (auto simp: number_before_def)
  then have "dropWhile (\<lambda>p. fst p \<le> number_before ps m) (drop m ps) = drop m ps"
    by (cases "m < length ps") (simp_all add: dropWhile_id hd_drop_conv_nth)
  ultimately show ?thesis by simp
qed

lemma numbered_ascending: "numbered ps \<Longrightarrow> int (length ps) \<le> MaxInt64 \<Longrightarrow> ascending ps"
  using numbered_less [of ps] by (force simp: ascending_def sorted_wrt_iff_nth_less numbered_nth)

lemma numbered_before: "numbered ps \<Longrightarrow> m \<le> length ps \<Longrightarrow> number_before ps m = int m"
  by (auto simp: number_before_def numbered_nth)

text \<open>A page continues the listing; its marker tells how far it came.\<close>

lemma list_page_ok:
  assumes rel: "s3_reliable store view" and ps: "ascending ps" "m \<le> length ps"
    and run: "call (svc_ListParts (Service store) (Bucket store) (upload_key store oid) mid marker None) s = (r, s')"
    and mp: "bk_mps (view (remote s)) (upload_key store oid) mid = Some ps" and m: "marker_num marker = number_before ps m"
  shows "view (remote s') = view (remote s) \<and> setting s' = setting s \<and>
    (\<exists>page k. r = Inr page \<and> 0 < k \<and> part_list (take m ps) @ lp_Parts page = part_list (take (m + k) ps) \<and>
       (if m + k < length ps
        then lp_IsTruncated page = Some True \<and> marker_num (lp_NextPartNumberMarker page) = number_before ps (m + k)
        else lp_IsTruncated page \<noteq> Some True))"
proof -
  from run obtain x where x: "svc_ListParts (Service store) (Bucket store) (upload_key store oid) mid marker None (remote s) = (r, x)"
    "remote s' = x" "setting s' = setting s" by (rule callE)
  from reliableD(4) [OF rel, unfolded list_ok_def, rule_format, OF x(1)] mp m ascending_dropWhile [OF ps] x(2)
  obtain page where page: "r = Inr page" "page_of None (drop m ps) page" and v: "view (remote s') = view (remote s)" by auto
  from page(2) obtain k where k: "lp_Parts page = part_list (take k (drop m ps))" "0 < k"
    "if k < length (drop m ps)
     then lp_IsTruncated page = Some True \<and> lp_NextPartNumberMarker page = Some (FormatInt (fst (drop m ps ! (k - 1))))
     else lp_IsTruncated page \<noteq> Some True" by (auto simp: page_of_def)
  have acc: "part_list (take m ps) @ lp_Parts page = part_list (take (m + k) ps)" using k(1) by (simp add: take_add)
  have "marker_num (lp_NextPartNumberMarker page) = number_before ps (m + k)" if less: "k < length (drop m ps)"
  proof -
    have before: "fst (drop m ps ! (k - 1)) = number_before ps (m + k)" using less k(2) by (simp add: number_before_def)
    then have "number_before ps (m + k) \<in> fst ` set ps" using less k(2) by (auto simp: number_before_def)
    then have "is_int64 (number_before ps (m + k))" using ps(1) by (auto simp: ascending_def int64_defs)
    with k(3) less before show ?thesis by (simp add: marker_num_def ParseInt_FormatInt)
  qed
  with k(3) have "if m + k < length ps
       then lp_IsTruncated page = Some True \<and> marker_num (lp_NextPartNumberMarker page) = number_before ps (m + k)
       else lp_IsTruncated page \<noteq> Some True"
    by (auto split: if_splits)
  with page(1) v x(3) k(2) acc show ?thesis by blast
qed

lemma list_pages_ok:
  assumes rel: "s3_reliable store view" and ps: "ascending ps"
  shows "list_pages n store oid mid marker acc s = (r, s') \<Longrightarrow>
    bk_mps (view (remote s)) (upload_key store oid) mid = Some ps \<Longrightarrow> marker_num marker = number_before ps m \<Longrightarrow> m \<le> length ps \<Longrightarrow>
    acc = part_list (take m ps) \<Longrightarrow> length ps - m < n \<Longrightarrow>
    r = Inr (part_list ps) \<and> view (remote s') = view (remote s) \<and> setting s' = setting s"
proof (induction n arbitrary: marker m acc s)
  case (Suc n)
  obtain r1 s1 where call: "call (svc_ListParts (Service store) (Bucket store) (upload_key store oid) mid marker None) s = (r1, s1)"
    by (metis surj_pair)
  from list_page_ok [OF rel ps Suc.prems(4) call Suc.prems(2,3)] obtain page k where
    v: "view (remote s1) = view (remote s)" "setting s1 = setting s" and page: "r1 = Inr page" "0 < k"
      "part_list (take m ps) @ lp_Parts page = part_list (take (m + k) ps)"
    and more: "if m + k < length ps
       then lp_IsTruncated page = Some True \<and> marker_num (lp_NextPartNumberMarker page) = number_before ps (m + k)
       else lp_IsTruncated page \<noteq> Some True" by blast
  show ?case
  proof (cases "m + k < length ps")
    case True
    with more have trunc: "lp_IsTruncated page = Some True"
      and num: "marker_num (lp_NextPartNumberMarker page) = number_before ps (m + k)" by simp_all
    have "list_pages n store oid mid (lp_NextPartNumberMarker page) (part_list (take (m + k) ps)) s1 = (r, s')"
      using Suc.prems(1,5) call page(1,3) trunc by (simp add: Let_def)
    from Suc.IH [OF this _ num _ refl] True Suc.prems(2,6) v page(2) show ?thesis by auto
  next
    case False
    with more page(3) Suc.prems(1,5) call page(1) v show ?thesis by (auto simp: Let_def)
  qed
qed simp

text \<open>
  An upload as it is kept: its information, its parts and its incomplete part. What has been
  stored is the bytes of the parts followed by those of the incomplete part.
\<close>

definition s3_holds :: "'s S3Store \<Rightarrow> bucket \<Rightarrow> string \<Rightarrow> string \<Rightarrow> FileInfo \<Rightarrow> parts \<Rightarrow> bytes \<Rightarrow> bool" where
  "s3_holds store b oid mid info ps inc \<longleftrightarrow>
     bk_objs b (info_key store oid) = Some [J info] \<and> bk_mps b (upload_key store oid) mid = Some ps \<and> numbered ps \<and>
     bk_objs b (part_key store oid) = (if inc = [] then None else Some (map B inc))"

definition s3_content :: "parts \<Rightarrow> bytes \<Rightarrow> bytes" where
  "s3_content ps inc = part_data ps @ inc"

lemma head_incomplete_ok:
  assumes rel: "s3_reliable store view" and run: "headIncompletePartForUpload store oid s = (r, s')"
    and inc: "bk_objs (view (remote s)) (part_key store oid) = (if inc = [] then None else Some (map B inc))"
  shows "r = Inr (int (length inc)) \<and> view (remote s') = view (remote s) \<and> setting s' = setting s"
proof -
  obtain r1 s1 where call: "call (svc_HeadObject (Service store) (Bucket store) (part_key store oid)) s = (r1, s1)" by (metis surj_pair)
  from call obtain x where x: "svc_HeadObject (Service store) (Bucket store) (part_key store oid) (remote s) = (r1, x)"
    "remote s1 = x" "setting s1 = setting s" by (rule callE)
  from reliableD(3) [OF rel, unfolded head_ok_def, rule_format, OF x(1)] inc x(2,3) run call
  show ?thesis by (auto simp: headIncompletePartForUpload_def split: if_splits)
qed

lemma part_sizes: "fold (\<lambda>p acc. add64 acc (pt_size p)) (part_list ps) n = n + int (length (part_data ps))"
  if "0 \<le> n" "n + int (length (part_data ps)) \<le> MaxInt64"
  using that
proof (induction ps arbitrary: n)
  case (Cons p ps)
  obtain k d e where p: "p = (k, d, e)" by (cases p)
  have "add64 n (int (length d)) = n + int (length d)"
    using Cons.prems by (intro add64_id) (simp add: p part_data_Cons int64_defs)
  with Cons show ?case by (simp add: p part_list_Cons part_data_Cons)
qed simp

lemma fetchInfo_parts:
  assumes rel: "s3_reliable store view" and ps: "ascending ps"
    and info: "bk_objs (view (remote s)) (info_key store (objectId u)) = Some [J info]"
    and mp: "bk_mps (view (remote s)) (upload_key store (objectId u)) (multipartId u) = Some ps"
    and inc: "bk_objs (view (remote s)) (part_key store (objectId u)) = (if inc = [] then None else Some (map B inc))"
    and bounds: "int (length (s3_content ps inc)) \<le> MaxInt64" "length ps < maxPages s"
    and run: "fetchInfo store u s = (r, s')"
  shows "r = Inr (info\<lparr>Offset := int (length (s3_content ps inc))\<rparr>, part_list ps, int (length inc)) \<and>
    view (remote s') = view (remote s) \<and> setting s' = setting s"
proof -
  let ?info = "plainInput (info_key store (objectId u))"
  obtain r1 s1 where call: "call (svc_GetObject (Service store) (Bucket store) ?info) s = (r1, s1)" by (metis surj_pair)
  from call obtain x where x: "svc_GetObject (Service store) (Bucket store) ?info (remote s) = (r1, x)"
    "remote s1 = x" "setting s1 = setting s" by (rule callE)
  from reliableD(2) [OF rel, unfolded get_ok_def, rule_format, OF x(1)] info x(2)
  obtain ob where ob: "r1 = Inr ob" "gr_Body ob = [J info]" "view (remote s1) = view (remote s)" by auto
  obtain r2 s2 where list: "listAllParts store (objectId u) (multipartId u) s1 = (r2, s2)" by (metis surj_pair)
  have pages: "maxPages s1 = maxPages s" using x(3) by (simp add: setting_def)
  from list_pages_ok [OF rel ps list [unfolded listAllParts_def], where m = 0] mp ob(3) bounds(2) pages
  have l: "r2 = Inr (part_list ps)" "view (remote s2) = view (remote s)" "setting s2 = setting s"
    using x(3) by (auto simp: marker_num_def number_before_def)
  obtain r3 s3 where head: "headIncompletePartForUpload store (objectId u) s2 = (r3, s3)" by (metis surj_pair)
  from head_incomplete_ok [OF rel head, of inc] inc l
  have hd: "r3 = Inr (int (length inc))" "view (remote s3) = view (remote s)" "setting s3 = setting s" by auto
  have "fold (\<lambda>p acc. add64 acc (pt_size p)) (part_list ps) (int (length inc)) = int (length (s3_content ps inc))"
    using part_sizes [of "int (length inc)" ps] bounds(1) by (simp add: s3_content_def)
  with run call list head ob l hd show ?thesis by (auto simp: fetchInfo_def)
qed

lemma fetchInfo_ok:
  assumes rel: "s3_reliable store view" and holds: "s3_holds store (view (remote s)) (objectId u) (multipartId u) info ps inc"
    and bounds: "int (length (s3_content ps inc)) \<le> MaxInt64" "int (length ps) \<le> MaxInt64" "length ps < maxPages s"
    and run: "fetchInfo store u s = (r, s')"
  shows "r = Inr (info\<lparr>Offset := int (length (s3_content ps inc))\<rparr>, part_list ps, int (length inc)) \<and>
    view (remote s') = view (remote s) \<and> setting s' = setting s"
  using fetchInfo_parts [OF rel numbered_ascending [OF _ bounds(2)] _ _ _ bounds(1,3) run, of info] holds
  by (simp add: s3_holds_def)

section \<open>Writing\<close>

lemma download_incomplete_ok:
  assumes rel: "s3_reliable store view" and calm: "calm s" and run: "downloadIncompletePartForUpload store oid s = (r, s')"
    and inc: "bk_objs (view (remote s)) (part_key store oid) = Some (map B inc)"
  shows "r = Inr (Some inc) \<and> view (remote s') = view (remote s) \<and> setting s' = setting s"
proof -
  let ?inp = "plainInput (part_key store oid)"
  obtain r1 s1 where call: "call (svc_GetObject (Service store) (Bucket store) ?inp) s = (r1, s1)" by (metis surj_pair)
  from call obtain x where x: "svc_GetObject (Service store) (Bucket store) ?inp (remote s) = (r1, x)"
    "remote s1 = x" "setting s1 = setting s" by (rule callE)
  from reliableD(2) [OF rel, unfolded get_ok_def, rule_format, OF x(1)] inc x(2)
  obtain ob where ob: "r1 = Inr ob" "gr_Body ob = map B inc" "gr_BodyErr ob = None" "gr_ContentLength ob = Some (int (length inc))"
    "view (remote s1) = view (remote s)" by auto
  obtain e2 s2 e3 s3 e4 s4 where ops: "on_machine (tmp_op ''open'') s1 = (e2, s2)" "on_machine (tmp_op ''write'') s2 = (e3, s3)"
    "on_machine (tmp_op ''seek'') s3 = (e4, s4)" by (metis surj_pair)
  note t = on_machine_tmp [OF ops(1)] on_machine_tmp [OF ops(2)] on_machine_tmp [OF ops(3)]
  have "calm s1" "calm s2" "calm s3"
    using calm setting_calm [OF x(3)] setting_calm [OF t(2)] setting_calm [OF t(5)] by simp_all
  with t have "e2 = None" "e3 = None" "e4 = None" by simp_all
  moreover have "body_bytes s3 ob = inc" using ob(2) by (simp add: body_bytes_def)
  moreover have "getIncompletePartForUpload store oid s = (Inr (Some ob), s1)"
    by (simp add: getIncompletePartForUpload_def call ob(1))
  ultimately have "downloadIncompletePartForUpload store oid s = (Inr (Some inc), s4)"
    by (simp add: downloadIncompletePartForUpload_def ops ob(3,4))
  with run t x(2,3) ob(5) show ?thesis by auto
qed

lemma delete_incomplete_ok:
  assumes rel: "s3_reliable store view" and run: "deleteIncompletePartForUpload store oid s = (e, s')"
  shows "e = None \<and> view (remote s') = set_obj (part_key store oid) None (view (remote s)) \<and> setting s' = setting s"
proof -
  obtain r1 s1 where call: "call (svc_DeleteObject (Service store) (Bucket store) (part_key store oid)) s = (r1, s1)" by (metis surj_pair)
  from call obtain x where x: "svc_DeleteObject (Service store) (Bucket store) (part_key store oid) (remote s) = (r1, x)"
    "remote s1 = x" "setting s1 = setting s" by (rule callE)
  from reliableD(10) [OF rel, unfolded delete_ok_def, THEN conjunct1, rule_format, OF x(1)] x(2,3) run call
  show ?thesis by (auto simp: deleteIncompletePartForUpload_def)
qed

lemma tmp_op_calm: "\<forall>n. fs_faults m n = None \<Longrightarrow> tmp_op name m = (None, m\<lparr>fs_clock := Suc (fs_clock m)\<rparr>)"
  by (simp add: tmp_op_def tick_def)

lemma nextPart_calm:
  assumes "nextPart mem partSize r m = (res, r', m')" "\<forall>n. fs_faults m n = None" "ok_source r"
  shows "\<exists>c. res = Inr c" "fs_faults m' = fs_faults m" "ok_source r'"
proof -
  obtain d e r1 where copy: "copy_limited partSize r = ((d, e), r1)" by (metis surj_pair)
  have data: "e = None" "ok_source r1" using copy_limited_data [OF copy assms(3)] by auto
  show "\<exists>c. res = Inr c" "fs_faults m' = fs_faults m" "ok_source r'"
    using assms(1) data unfolding nextPart_def copy tmp_op_calm [OF assms(2)]
    by (cases mem; cases d; auto simp: tmp_op_calm assms(2) tick_def)+
qed

lemma produce_calm:
  "produce mem partSize ctx r m = ((cs, e), r', m') \<Longrightarrow> \<forall>n. fs_faults m n = None \<Longrightarrow> ok_source r \<Longrightarrow>
     e = None \<and> fs_faults m' = fs_faults m"
proof (induction mem partSize ctx r m arbitrary: cs e r' m' rule: produce.induct)
  case (1 mem partSize ctx r m)
  obtain res r1 m1 where np: "nextPart mem partSize r m = (res, r1, m1)" by (metis surj_pair)
  note calm = nextPart_calm [OF np 1(3,4)]
  note step = 1(2) [unfolded produce.simps [of mem partSize ctx r m] np]
  obtain oc where oc: "res = Inr oc" using calm(1) by blast
  show ?case
  proof (cases "\<exists>c. oc = Some c \<and> ctx \<noteq> Some 0")
    case True
    then obtain c where c: "oc = Some c" "ctx \<noteq> Some 0" by blast
    obtain cs1 e1 r2 m2 where rest: "produce mem partSize (map_option (\<lambda>n. n - 1) ctx) r1 m1 = ((cs1, e1), r2, m2)"
      by (metis surj_pair)
    from 1(1) [OF np [symmetric] oc c(1) refl c(2) rest _ calm(3)] calm(2) 1(3) step oc c rest show ?thesis by auto
  next
    case False
    with step oc calm(2) show ?thesis by (auto split: option.splits)
  qed
qed

text \<open>Undisturbed, the producer cuts all of the data into parts.\<close>

lemma produced_chunks:
  assumes "produce mem p (ctxDone s) \<lparr>ps_pending = pending, ps_body = b\<rparr> (machine s) = ((cs, e), src, m)"
    "fresh_reader b" "calm s" "0 < p"
  shows "e = None" "fs_faults m = fs_faults (machine s)"
    "map fc_reader cs = slices (nat p) (pending @ reader_data b)" "\<forall>c \<in> set cs. fc_size c = int (length (fc_reader c))"
proof -
  have ok: "ok_source \<lparr>ps_pending = pending, ps_body = b\<rparr>" "src_data \<lparr>ps_pending = pending, ps_body = b\<rparr> = pending @ reader_data b"
    using assms(2) by (auto simp: ok_source_def src_data_def rest_data_def fresh_reader_def)
  have ctx: "ctxDone s = None" "\<forall>n. fs_faults (machine s) n = None" using assms(3) by (simp_all add: calm_def)
  note pc = produce_calm [OF assms(1) ctx(2) ok(1)]
  with produce_parts [OF assms(1) ok(1) assms(4)] ctx(1) ok(2)
  show "e = None" "fs_faults m = fs_faults (machine s)"
    "map fc_reader cs = slices (nat p) (pending @ reader_data b)" "\<forall>c \<in> set cs. fc_size c = int (length (fc_reader c))" by auto
qed

lemma uploadParts_ok:
  assumes rel: "s3_reliable store view" and hashes: "\<not> DisableContentHashes store"
    and wf: "wf_store store" "MaxMultipartParts store < 2147483647"
    and u: "up_info u = Some info" "up_parts u = part_list ps"
    and mps: "bk_mps (view (remote s)) (upload_key store (objectId u)) (multipartId u) = Some ps" "numbered ps"
    and sz: "0 \<le> Size info" "Size info \<le> MaxObjectSize store" "calcOptimalPartSize store (Size info) = Inr p"
    and count: "int (length ps) + int (length (slices (nat p) (pending @ reader_data b))) \<le> MaxMultipartParts store"
    and calm: "calm s" and b: "fresh_reader b"
    and off: "0 \<le> off" "off + int (length (pending @ reader_data b)) \<le> MaxInt64"
    and run: "uploadParts store u off \<lparr>ps_pending = pending, ps_body = b\<rparr> s = ((n, e), src', u', s')"
  shows "\<exists>qs inc. e = None \<and> n = int (length (pending @ reader_data b)) \<and> u' = grown_upload u qs inc \<and> setting s' = setting s \<and>
      numbered (ps @ qs) \<and>
      view (remote s') = with_incomplete store (objectId u) inc
        (set_mp (upload_key store (objectId u)) (multipartId u) (Some (ps @ qs)) (view (remote s))) \<and>
      stored_parts store (\<not> SizeIsDeferred info \<and> Size info = off + int (length (pending @ reader_data b))) (pending @ reader_data b) qs inc"
proof -
  let ?src = "\<lparr>ps_pending = pending, ps_body = b\<rparr>" and ?data = "pending @ reader_data b"
  from calcOptimalPartSize_bounds [OF wf(1) sz(1,2)] sz(3) have p: "MinPartSize store \<le> p" by auto
  note min = wf_storeD(1) [OF wf(1)]
  obtain cs e1 src1 m where prod: "produce (producesInMemory store s) p (ctxDone s) ?src (machine s) = ((cs, e1), src1, m)"
    by (metis surj_pair)
  have pos: "0 < p" using p min by simp
  note pc = produced_chunks [OF prod b calm pos] and cs = produced_chunks(3,4) [OF prod b calm pos]
  have data: "chunk_data cs = ?data" using cs(1) concat_slices [of "nat p" ?data] p min by simp
  have "fc_size c = p" if "c \<in> set (butlast cs)" for c
  proof -
    have "fc_reader c \<in> set (butlast (slices (nat p) ?data))"
      using that cs(1) by (metis image_eqI list.set_map map_butlast)
    from slices_full [OF this] cs(2) in_set_butlastD [OF that] p min show ?thesis by simp
  qed
  moreover have "fc_reader c \<noteq> []" if "c \<in> set cs" for c
    using slices_lengths [of "fc_reader c" "nat p" ?data] that cs(1) by (metis image_eqI list.set_map)
  ultimately have good: "good_chunks store cs" using cs(2) p by (simp add: good_chunks_def)
  let ?s = "s\<lparr>machine := m\<rparr>"
  have set: "setting ?s = setting s" "remote ?s = remote s" using pc by (simp_all add: setting_def)
  have len: "length cs = length (slices (nat p) ?data)" using cs(1) by (metis length_map)
  obtain n2 e2 u2 s2 where up: "upload_chunks store info off 0 (int (length ps) + 1) cs u ?s = ((n2, e2), u2, s2)"
    by (metis surj_pair)
  have "wrap32 (int (length (part_list ps)) + 1) = int (length ps) + 1" using count wf(2) by (simp add: wrap32_def)
  with run u sz(3) prod up pc have out: "(n, e) = (case e2 of Some x \<Rightarrow> (0, Some x) | None \<Rightarrow> (n2, None))" "u' = u2" "s' = s2"
    by (auto simp: uploadParts_def getInternalInfo_def split: option.splits)
  have "calm ?s" using calm setting_calm [OF set(1)] by simp
  from upload_chunks_ok [OF rel hashes wf(2) min up _ mps(2) refl _ good this off(1) order_refl] mps(1) set count len off(2)
  obtain qs inc where q: "e2 = None" "n2 = int (length ?data)" "u2 = grown_upload u qs inc" "setting s2 = setting s" "numbered (ps @ qs)"
    "view (remote s2) = with_incomplete store (objectId u) inc
       (set_mp (upload_key store (objectId u)) (multipartId u) (Some (ps @ qs)) (view (remote s)))"
    "stored_parts store (\<not> SizeIsDeferred info \<and> Size info = off + int (length ?data)) ?data qs inc"
    by (auto simp: data)
  from out(1) q(1) have "e = None" "n = n2" by simp_all
  with q out(2,3) show ?thesis by blast
qed

lemma take_incomplete_ok:
  assumes rel: "s3_reliable store view" and calm: "calm s"
    and inc: "bk_objs (view (remote s)) (part_key store oid) = (if inc = [] then None else Some (map B inc))"
    and off: "int (length inc) \<le> offset" "offset \<le> MaxInt64"
    and run: "take_incomplete store oid (int (length inc)) offset s = (r, s')"
  shows "r = Inr (inc, offset - int (length inc)) \<and> setting s' = setting s \<and>
    view (remote s') = set_obj (part_key store oid) None (view (remote s))"
proof (cases "inc = []")
  case True
  with run inc show ?thesis by (auto simp: take_incomplete_def set_obj_same)
next
  case False
  obtain r1 s1 where dl: "downloadIncompletePartForUpload store oid s = (r1, s1)" by (metis surj_pair)
  obtain e2 s2 where del: "deleteIncompletePartForUpload store oid s1 = (e2, s2)" by (metis surj_pair)
  have "sub64 offset (int (length inc)) = offset - int (length inc)"
    using off by (intro sub64_id) (simp add: int64_defs)
  with download_incomplete_ok [OF rel calm dl] delete_incomplete_ok [OF rel del] inc False run dl del
  show ?thesis by (auto simp: take_incomplete_def)
qed

text \<open>An upload object whose cached information, if there is any, is up to date.\<close>

definition s3_handle :: "'s S3Store \<Rightarrow> bucket \<Rightarrow> s3Upload \<Rightarrow> FileInfo \<Rightarrow> parts \<Rightarrow> bytes \<Rightarrow> bool" where
  "s3_handle store b u info ps inc \<longleftrightarrow>
     s3_holds store b (objectId u) (multipartId u) info ps inc \<and>
     (case up_info u of
        None \<Rightarrow> True
      | Some i \<Rightarrow> Size i = Size info \<and> SizeIsDeferred i = SizeIsDeferred info \<and>
          Offset i = int (length (s3_content ps inc)) \<and> up_parts u = part_list ps \<and> incompletePartSize u = int (length inc))"

lemma getInternalInfo_ok:
  assumes rel: "s3_reliable store view" and handle: "s3_handle store (view (remote s)) u info ps inc"
    and bounds: "int (length (s3_content ps inc)) \<le> MaxInt64" "int (length ps) \<le> MaxInt64" "length ps < maxPages s"
    and run: "getInternalInfo store u s = (r, u', s')"
  shows "\<exists>i. r = Inr (i, part_list ps, int (length inc)) \<and> Size i = Size info \<and> SizeIsDeferred i = SizeIsDeferred info \<and>
    Offset i = int (length (s3_content ps inc)) \<and>
    u' = u\<lparr>up_info := Some i, up_parts := part_list ps, incompletePartSize := int (length inc)\<rparr> \<and>
    view (remote s') = view (remote s) \<and> setting s' = setting s"
proof (cases "up_info u")
  case None
  obtain r1 s1 where fetch: "fetchInfo store u s = (r1, s1)" by (metis surj_pair)
  from fetchInfo_ok [OF rel _ bounds fetch] handle fetch run None show ?thesis
    by (auto simp: s3_handle_def getInternalInfo_def)
next
  case (Some i)
  with handle run show ?thesis by (cases u) (auto simp: s3_handle_def getInternalInfo_def)
qed

lemma s3_WriteChunk_ok:
  assumes rel: "s3_reliable store view" and hashes: "\<not> DisableContentHashes store"
    and wf: "wf_store store" "MaxMultipartParts store < 2147483647"
    and handle: "s3_handle store (view (remote s)) u info ps inc"
    and sz: "0 \<le> Size info" "Size info \<le> MaxObjectSize store" "calcOptimalPartSize store (Size info) = Inr p"
    and count: "int (length ps) + int (length (slices (nat p) (inc @ reader_data b))) \<le> MaxMultipartParts store"
    and calm: "calm s" "length ps < maxPages s" and b: "fresh_reader b"
    and fits: "int (length (s3_content ps inc)) + int (length (reader_data b)) \<le> MaxInt64"
    and run: "s3_WriteChunk store u (int (length (s3_content ps inc))) b s = ((n, e), b', u', s')"
  shows "\<exists>qs inc'. e = None \<and> n = int (length (reader_data b)) \<and> setting s' = setting s \<and>
    objectId u' = objectId u \<and> multipartId u' = multipartId u \<and> up_parts u' = part_list (ps @ qs) \<and>
    up_info u' \<noteq> None \<and> numbered (ps @ qs) \<and>
    view (remote s') = with_incomplete store (objectId u) inc'
      (set_mp (upload_key store (objectId u)) (multipartId u) (Some (ps @ qs))
        (set_obj (part_key store (objectId u)) None (view (remote s)))) \<and>
    stored_parts store (\<not> SizeIsDeferred info \<and> Size info = int (length (s3_content ps inc @ reader_data b)))
      (inc @ reader_data b) qs inc'"
proof -
  have h: "s3_holds store (view (remote s)) (objectId u) (multipartId u) info ps inc" using handle by (simp add: s3_handle_def)
  note h = h [unfolded s3_holds_def]
  let ?len = "int (length (s3_content ps inc))"
  obtain r1 u1 s1 where fetch: "getInternalInfo store u s = (r1, u1, s1)" by (metis surj_pair)
  have "int (length ps) \<le> MaxInt64" using count wf(2) by (simp add: int64_defs)
  with getInternalInfo_ok [OF rel handle _ _ calm(2) fetch] fits obtain i where
    i: "Size i = Size info" "SizeIsDeferred i = SizeIsDeferred info"
    and f: "r1 = Inr (i, part_list ps, int (length inc))" "view (remote s1) = view (remote s)" "setting s1 = setting s"
    and u1: "u1 = u\<lparr>up_info := Some i, up_parts := part_list ps, incompletePartSize := int (length inc)\<rparr>" by auto
  have calm1: "calm s1" using calm(1) setting_calm [OF f(3)] by simp
  obtain r2 s2 where tk: "take_incomplete store (objectId u) (int (length inc)) ?len s1 = (r2, s2)" by (metis surj_pair)
  from take_incomplete_ok [OF rel calm1 _ _ _ tk] h f(2,3) fits
  have t: "r2 = Inr (inc, int (length (part_data ps)))" "setting s2 = setting s"
    "view (remote s2) = set_obj (part_key store (objectId u)) None (view (remote s))" by (auto simp: s3_content_def)
  obtain n2 e2 src2 u2 s3 where up: "uploadParts store u1 (int (length (part_data ps))) \<lparr>ps_pending = inc, ps_body = b\<rparr> s2 = ((n2, e2), src2, u2, s3)"
    by (metis surj_pair)
  have run': "e = e2" "n = max (sub64 n2 (int (length inc))) 0" "u' = add_bytes n u2" "s' = s3"
    using run fetch f(1) tk t(1) up u1 by (auto simp: s3_WriteChunk_def Let_def)
  have calm2: "calm s2" using calm(1) setting_calm [OF t(2)] by simp
  have data: "int (length (part_data ps)) + int (length (inc @ reader_data b)) = int (length (s3_content ps inc @ reader_data b))"
    by (simp add: s3_content_def)
  from uploadParts_ok [OF rel hashes wf, of u1 i ps s2 p inc b "int (length (part_data ps))" n2 e2 src2 u2 s3]
    h t(3) sz count calm2 b fits up u1 i
  obtain qs inc' where q: "e2 = None" "n2 = int (length (inc @ reader_data b))" "u2 = grown_upload u1 qs inc'" "setting s3 = setting s2"
    "numbered (ps @ qs)"
    "view (remote s3) = with_incomplete store (objectId u) inc'
       (set_mp (upload_key store (objectId u)) (multipartId u) (Some (ps @ qs)) (view (remote s2)))"
    "stored_parts store (\<not> SizeIsDeferred info \<and> Size info = int (length (s3_content ps inc @ reader_data b))) (inc @ reader_data b) qs inc'"
    unfolding data by (auto simp: s3_content_def)
  have "sub64 n2 (int (length inc)) = int (length (reader_data b))"
    using fits q(2) by (subst sub64_id) (auto simp: int64_defs s3_content_def)
  then have n: "n = int (length (reader_data b))" using run'(2) by simp
  from q n run' t(2,3) u1 show ?thesis by (intro exI [of _ qs] exI [of _ inc']) (auto simp: add_bytes_def)
qed

end
