(* ===== verification/S3Requests.thy ===== *)
theory S3Requests
  imports S3Facts
begin

text \<open>
  The requests that the S3 store sends at the same time when it fetches the information of an upload
  (\<^verbatim>\<open>fetchInfo\<close> of \<^verbatim>\<open>pkg/s3store/s3store.go\<close>) and when it terminates one (\<^verbatim>\<open>Terminate\<close>). \<open>S3Store\<close> has them
  one after the other; here they are steps that interleave, and it is shown that for a service that
  does not fail their order does not matter.
\<close>

section \<open>Fetching the information\<close>

text \<open>
  The results of the three goroutines, as far as they are there. The goroutine that lists the parts
  sends a request for every page; before it is done it has the next marker, the parts that it has
  found and the number of pages that it may still ask for.
\<close>

datatype fetch_step = FetchObject | FetchPage | FetchSize

record 's fetching =
  fg_info :: "(aws_error + GetObjectOutput) option"
  fg_pages :: "string option \<times> s3Part list \<times> nat + aws_error + s3Part list"
  fg_size :: "(err + int) option"
  fg_env :: "'s s3env"

definition start_fetching :: "'s s3env \<Rightarrow> 's fetching" where
  "start_fetching s = \<lparr>fg_info = None, fg_pages = Inl (None, [], maxPages s), fg_size = None, fg_env = s\<rparr>"

definition fetch_page ::
  "'s S3Store \<Rightarrow> s3Upload \<Rightarrow> string option \<times> s3Part list \<times> nat \<Rightarrow> 's s3env \<Rightarrow>
     (string option \<times> s3Part list \<times> nat + aws_error + s3Part list) \<times> 's s3env" where
  "fetch_page store u p s =
     (case p of
        (marker, parts, 0) \<Rightarrow>
          (Inr (Inl \<lparr>aws_type = [], aws_code = [], aws_response = None, aws_err = Panic ''too many pages''\<rparr>), s)
      | (marker, parts, Suc n) \<Rightarrow>
          (case call (svc_ListParts (Service store) (Bucket store) (keyWithPrefix store (objectId u)) (multipartId u) marker None) s of
             (Inl e, s1) \<Rightarrow> (Inr (Inl e), s1)
           | (Inr page, s1) \<Rightarrow>
               (let parts1 = parts @ lp_Parts page
                in if lp_IsTruncated page = Some True then (Inl (lp_NextPartNumberMarker page, parts1, n), s1)
                   else (Inr (Inr parts1), s1))))"

definition fetch_act :: "'s S3Store \<Rightarrow> s3Upload \<Rightarrow> fetch_step \<Rightarrow> 's fetching \<Rightarrow> 's fetching option" where
  "fetch_act store u a f =
     (case a of
        FetchObject \<Rightarrow>
          if fg_info f \<noteq> None then None
          else (case call (svc_GetObject (Service store) (Bucket store)
                             (plainInput (metadataKeyWithPrefix store (objectId u @ ''.info'')))) (fg_env f) of
                  (r, s) \<Rightarrow> Some (f\<lparr>fg_info := Some r, fg_env := s\<rparr>))
      | FetchSize \<Rightarrow>
          if fg_size f \<noteq> None then None
          else (case headIncompletePartForUpload store (objectId u) (fg_env f) of
                  (r, s) \<Rightarrow> Some (f\<lparr>fg_size := Some r, fg_env := s\<rparr>))
      | FetchPage \<Rightarrow>
          (case fg_pages f of
             Inr r \<Rightarrow> None
           | Inl p \<Rightarrow> (case fetch_page store u p (fg_env f) of (r, s) \<Rightarrow> Some (f\<lparr>fg_pages := r, fg_env := s\<rparr>))))"

fun fetch_run :: "'s S3Store \<Rightarrow> s3Upload \<Rightarrow> fetch_step list \<Rightarrow> 's fetching \<Rightarrow> 's fetching option" where
  "fetch_run store u [] f = Some f"
| "fetch_run store u (a # as) f = (case fetch_act store u a f of None \<Rightarrow> None | Some f1 \<Rightarrow> fetch_run store u as f1)"

text \<open>What comes out when all three are done.\<close>

definition fetch_result :: "'s fetching \<Rightarrow> (err + FileInfo \<times> s3Part list \<times> int) option" where
  "fetch_result f =
     (case (fg_info f, fg_pages f, fg_size f) of
        (Some infoRes, Inr partsRes, Some sizeRes) \<Rightarrow> Some (fetched_info infoRes partsRes sizeRes)
      | _ \<Rightarrow> None)"

subsection \<open>One after the other\<close>

lemma fetch_run_append:
  "fetch_run store u (as @ bs) f = (case fetch_run store u as f of None \<Rightarrow> None | Some g \<Rightarrow> fetch_run store u bs g)"
  by (induction as arbitrary: f) (auto split: option.splits)

lemma fetch_pages_run:
  "list_pages n store (objectId u) (multipartId u) marker parts (fg_env f) = (r, s) \<Longrightarrow> fg_pages f = Inl (marker, parts, n) \<Longrightarrow>
     \<exists>k. fetch_run store u (replicate k FetchPage) f = Some (f\<lparr>fg_pages := Inr r, fg_env := s\<rparr>)"
proof (induction n arbitrary: marker parts f)
  case 0
  then show ?case by (intro exI [of _ 1]) (simp add: fetch_act_def fetch_page_def)
next
  case (Suc n)
  obtain r1 s1 where call: "call (svc_ListParts (Service store) (Bucket store) (keyWithPrefix store (objectId u)) (multipartId u) marker None)
      (fg_env f) = (r1, s1)" by (metis surj_pair)
  show ?case
  proof (cases "\<exists>page. r1 = Inr page \<and> lp_IsTruncated page = Some True")
    case True
    then obtain page where page: "r1 = Inr page" "lp_IsTruncated page = Some True" by blast
    let ?g = "f\<lparr>fg_pages := Inl (lp_NextPartNumberMarker page, parts @ lp_Parts page, n), fg_env := s1\<rparr>"
    have "list_pages n store (objectId u) (multipartId u) (lp_NextPartNumberMarker page) (parts @ lp_Parts page) (fg_env ?g) = (r, s)"
      using Suc.prems(1) call page by (simp add: Let_def)
    from Suc.IH [OF this] obtain k where "fetch_run store u (replicate k FetchPage) ?g = Some (f\<lparr>fg_pages := Inr r, fg_env := s\<rparr>)"
      by auto
    then show ?thesis using call page Suc.prems(2)
      by (intro exI [of _ "Suc k"]) (simp add: fetch_act_def fetch_page_def Let_def)
  next
    case False
    then show ?thesis using call Suc.prems
      by (intro exI [of _ 1]) (auto simp: fetch_act_def fetch_page_def Let_def split: sum.splits if_splits)
  qed
qed

text \<open>The requests in the order of \<open>fetchInfo\<close> are one of the interleavings, for any service.\<close>

lemma fetchInfo_is_a_run:
  assumes "fetchInfo store u s = (r, s')"
  shows "\<exists>as f. fetch_run store u as (start_fetching s) = Some f \<and> fetch_result f = Some r \<and> fg_env f = s'"
proof -
  obtain infoRes s1 where info: "call (svc_GetObject (Service store) (Bucket store)
      (plainInput (metadataKeyWithPrefix store (objectId u @ ''.info'')))) s = (infoRes, s1)" by (metis surj_pair)
  obtain partsRes s2 where parts: "listAllParts store (objectId u) (multipartId u) s1 = (partsRes, s2)" by (metis surj_pair)
  obtain sizeRes s3 where size: "headIncompletePartForUpload store (objectId u) s2 = (sizeRes, s3)" by (metis surj_pair)
  let ?f = "\<lparr>fg_info = Some infoRes, fg_pages = Inl (None, [], maxPages s), fg_size = None, fg_env = s1\<rparr>"
  have "maxPages s1 = maxPages s" using info by (auto simp: call_def split: prod.splits)
  then obtain k where k: "fetch_run store u (replicate k FetchPage) ?f = Some (?f\<lparr>fg_pages := Inr partsRes, fg_env := s2\<rparr>)"
    using fetch_pages_run [of "maxPages s" store u None "[]" ?f partsRes s2] parts by (auto simp: listAllParts_def)
  have "fetch_run store u ([FetchObject] @ replicate k FetchPage @ [FetchSize]) (start_fetching s) =
      Some \<lparr>fg_info = Some infoRes, fg_pages = Inr partsRes, fg_size = Some sizeRes, fg_env = s3\<rparr>"
    unfolding fetch_run_append using info k size by (simp add: start_fetching_def fetch_act_def)
  moreover have "r = fetched_info infoRes partsRes sizeRes" "s' = s3"
    using assms info parts size by (simp_all add: fetchInfo_def del: fetched_info_def)
  ultimately show ?thesis
    by (intro exI [of _ "[FetchObject] @ replicate k FetchPage @ [FetchSize]"]
        exI [of _ "\<lparr>fg_info = Some infoRes, fg_pages = Inr partsRes, fg_size = Some sizeRes, fg_env = s3\<rparr>"])
      (simp only: fetch_result_def fetching.select_convs prod.case option.case sum.case simp_thms)
qed

subsection \<open>In any order\<close>

text \<open>What the goroutines have found of an upload that is kept, at any time.\<close>

definition fetch_inv ::
  "('s \<Rightarrow> bucket) \<Rightarrow> 's s3env \<Rightarrow> FileInfo \<Rightarrow> parts \<Rightarrow> bytes \<Rightarrow> 's fetching \<Rightarrow> bool" where
  "fetch_inv view s0 info ps inc f \<longleftrightarrow>
     view (remote (fg_env f)) = view (remote s0) \<and> setting (fg_env f) = setting s0 \<and>
     (\<forall>r. fg_info f = Some r \<longrightarrow> (\<exists>ob. r = Inr ob \<and> gr_Body ob = [J info])) \<and>
     (\<forall>r. fg_size f = Some r \<longrightarrow> r = Inr (int (length inc))) \<and>
     (\<forall>r. fg_pages f = Inr r \<longrightarrow> r = Inr (part_list ps)) \<and>
     (\<forall>marker acc n. fg_pages f = Inl (marker, acc, n) \<longrightarrow>
        (\<exists>m. marker_num marker = int m \<and> m \<le> length ps \<and> acc = part_list (take m ps) \<and> length ps - m < n))"

definition fetch_left :: "'s fetching \<Rightarrow> nat" where
  "fetch_left f =
     (if fg_info f = None then 1 else 0) + (if fg_size f = None then 1 else 0) +
     (case fg_pages f of Inl (marker, acc, n) \<Rightarrow> n | Inr r \<Rightarrow> 0)"

lemma fetch_page_ok:
  assumes rel: "s3_reliable store view" and ps: "numbered ps" "int (length ps) \<le> MaxInt64"
    and mp: "bk_mps (view (remote s)) (upload_key store (objectId u)) (multipartId u) = Some ps"
    and p: "marker_num marker = int m" "m \<le> length ps" "length ps - m < n"
    and run: "fetch_page store u (marker, part_list (take m ps), n) s = (r, s')"
  shows "view (remote s') = view (remote s) \<and> setting s' = setting s \<and>
    (r = Inr (Inr (part_list ps)) \<or>
     (\<exists>marker' m'. r = Inl (marker', part_list (take m' ps), n - 1) \<and> marker_num marker' = int m' \<and> m' \<le> length ps \<and>
        length ps - m' < n - 1)) \<and> 0 < n"
proof -
  obtain n' where n: "n = Suc n'" using p(3) by (cases n) auto
  obtain r1 s1 where call: "call (svc_ListParts (Service store) (Bucket store) (upload_key store (objectId u)) (multipartId u) marker None) s = (r1, s1)"
    by (metis surj_pair)
  from list_page_ok [OF rel numbered_ascending [OF ps] p(2) call mp] p(1,2) numbered_before [OF ps(1)] obtain page k where
    v: "view (remote s1) = view (remote s)" "setting s1 = setting s" and page: "r1 = Inr page" "0 < k"
      "part_list (take m ps) @ lp_Parts page = part_list (take (m + k) ps)"
    and more: "if m + k < length ps
       then lp_IsTruncated page = Some True \<and> marker_num (lp_NextPartNumberMarker page) = int (m + k)
       else lp_IsTruncated page \<noteq> Some True" by (metis less_imp_le)
  show ?thesis
  proof (cases "m + k < length ps")
    case True
    with more run call page(1,3) n have "r = Inl (lp_NextPartNumberMarker page, part_list (take (m + k) ps), n - 1)" "s' = s1"
      by (auto simp: fetch_page_def Let_def)
    moreover have "length ps - (m + k) < n - 1" using p(3) n page(2) True by linarith
    ultimately show ?thesis using more True v n by auto
  next
    case False
    with more run call page(1,3) n v show ?thesis by (auto simp: fetch_page_def Let_def)
  qed
qed

lemma fetch_act_inv:
  assumes rel: "s3_reliable store view" and holds: "s3_holds store (view (remote s0)) (objectId u) (multipartId u) info ps inc"
    and len: "int (length ps) \<le> MaxInt64" and inv: "fetch_inv view s0 info ps inc f" and run: "fetch_act store u a f = Some g"
  shows "fetch_inv view s0 info ps inc g \<and> fetch_left g < fetch_left f"
proof (cases a)
  case FetchObject
  let ?inp = "plainInput (info_key store (objectId u))"
  obtain r s where call: "call (svc_GetObject (Service store) (Bucket store) ?inp) (fg_env f) = (r, s)" by (metis surj_pair)
  from call obtain x where x: "svc_GetObject (Service store) (Bucket store) ?inp (remote (fg_env f)) = (r, x)"
    "remote s = x" "setting s = setting (fg_env f)" by (rule callE)
  from reliableD(2) [OF rel, unfolded get_ok_def, rule_format, OF x(1)] holds inv x(2)
  have "view (remote s) = view (remote s0)" "\<exists>ob. r = Inr ob \<and> gr_Body ob = [J info]"
    by (auto simp: s3_holds_def fetch_inv_def)
  then show ?thesis using FetchObject run call inv x(3)
    by (auto simp: fetch_act_def fetch_inv_def fetch_left_def split: if_splits)
next
  case FetchSize
  obtain r s where head: "headIncompletePartForUpload store (objectId u) (fg_env f) = (r, s)" by (metis surj_pair)
  from head_incomplete_ok [OF rel head, of inc] holds inv
  have "r = Inr (int (length inc))" "view (remote s) = view (remote s0)" "setting s = setting s0"
    by (auto simp: s3_holds_def fetch_inv_def)
  then show ?thesis using FetchSize run head inv
    by (auto simp: fetch_act_def fetch_inv_def fetch_left_def split: if_splits)
next
  case FetchPage
  with run obtain marker acc n r s where p: "fg_pages f = Inl (marker, acc, n)" "fetch_page store u (marker, acc, n) (fg_env f) = (r, s)"
    and g: "g = f\<lparr>fg_pages := r, fg_env := s\<rparr>" by (auto simp: fetch_act_def split: sum.splits prod.splits)
  from inv p(1) obtain m where m: "marker_num marker = int m" "m \<le> length ps" "acc = part_list (take m ps)" "length ps - m < n"
    by (auto simp: fetch_inv_def)
  from fetch_page_ok [OF rel _ len _ m(1,2,4) p(2) [unfolded m(3)]] holds inv
  have "view (remote s) = view (remote s0)" "setting s = setting s0" "0 < n"
    "r = Inr (Inr (part_list ps)) \<or>
     (\<exists>marker' m'. r = Inl (marker', part_list (take m' ps), n - 1) \<and> marker_num marker' = int m' \<and> m' \<le> length ps \<and>
        length ps - m' < n - 1)"
    by (auto simp: s3_holds_def fetch_inv_def)
  then show ?thesis using g inv p(1) by (auto simp: fetch_inv_def fetch_left_def)
qed

lemma fetch_run_inv:
  assumes rel: "s3_reliable store view" and holds: "s3_holds store (view (remote s0)) (objectId u) (multipartId u) info ps inc"
    and len: "int (length ps) \<le> MaxInt64"
  shows "fetch_run store u as f = Some g \<Longrightarrow> fetch_inv view s0 info ps inc f \<Longrightarrow>
    fetch_inv view s0 info ps inc g \<and> length as + fetch_left g \<le> fetch_left f"
proof (induction as arbitrary: f)
  case (Cons a as)
  then obtain f1 where f1: "fetch_act store u a f = Some f1" "fetch_run store u as f1 = Some g" by (auto split: option.splits)
  from fetch_act_inv [OF rel holds len Cons.prems(2) f1(1)] Cons.IH [OF f1(2)] show ?case by auto
qed simp

lemma fetch_goes_on: "fetch_result f = None \<Longrightarrow> \<exists>a g. fetch_act store u a f = Some g"
proof -
  assume "fetch_result f = None"
  then consider "fg_info f = None" | "fg_size f = None" | p where "fg_pages f = Inl p"
    by (auto simp: fetch_result_def simp del: fetched_info_def split: option.splits sum.splits)
  then show ?thesis
  proof cases
    case 1
    then show ?thesis by (intro exI [of _ FetchObject]) (simp add: fetch_act_def split: prod.splits)
  next
    case 2
    then show ?thesis by (intro exI [of _ FetchSize]) (simp add: fetch_act_def split: prod.splits)
  next
    case 3
    then show ?thesis by (intro exI [of _ FetchPage]) (simp add: fetch_act_def split: prod.splits)
  qed
qed

text \<open>
  The requests for the information of an upload may be sent and answered in any order, also
  between the pages of the listing: there are at most as many as there are pages and two more, one can
  always be sent until all results are there, and these are what \<open>fetchInfo\<close> finds one after the other.
\<close>

theorem fetching_in_any_order:
  assumes rel: "s3_reliable store view" and holds: "s3_holds store (view (remote s)) (objectId u) (multipartId u) info ps inc"
    and bounds: "int (length (s3_content ps inc)) \<le> MaxInt64" "int (length ps) \<le> MaxInt64" "length ps < maxPages s"
    and run: "fetch_run store u as (start_fetching s) = Some f"
  shows "length as \<le> maxPages s + 2 \<and>
    (case fetch_result f of
       None \<Rightarrow> \<exists>a g. fetch_act store u a f = Some g
     | Some r \<Rightarrow> r = fst (fetchInfo store u s) \<and> view (remote (fg_env f)) = view (remote s))"
proof -
  have "fetch_inv view s info ps inc (start_fetching s)"
    using bounds(3) by (simp add: fetch_inv_def start_fetching_def marker_num_def part_list_def)
  from fetch_run_inv [OF rel holds bounds(2) run this]
  have inv: "fetch_inv view s info ps inc f" and left: "length as + fetch_left f \<le> fetch_left (start_fetching s)" by simp_all
  obtain r' s' where seq: "fetchInfo store u s = (r', s')" by (metis surj_pair)
  from fetchInfo_ok [OF rel holds bounds seq]
  have r': "r' = Inr (info\<lparr>Offset := int (length (s3_content ps inc))\<rparr>, part_list ps, int (length inc))" by simp
  have sizes: "fold (\<lambda>p acc. add64 acc (pt_size p)) (part_list ps) (int (length inc)) = int (length (s3_content ps inc))"
    using part_sizes [of "int (length inc)" ps] bounds(1) by (simp add: s3_content_def)
  have "r = r'" if "fetch_result f = Some r" for r
    using that inv sizes r' by (auto simp: fetch_result_def fetch_inv_def split: option.splits sum.splits)
  moreover have "view (remote (fg_env f)) = view (remote s)" using inv by (simp add: fetch_inv_def)
  moreover have "length as \<le> maxPages s + 2" using left by (simp add: fetch_left_def start_fetching_def)
  ultimately show ?thesis using seq fetch_goes_on [of f store u] by (auto split: option.splits)
qed

section \<open>Terminating\<close>

text \<open>The requests of \<^verbatim>\<open>Terminate\<close>, each with the errors that it sends to the channel.\<close>

datatype terminate_step = AbortUpload | DeleteFiles

definition terminate_request :: "'s S3Store \<Rightarrow> s3Upload \<Rightarrow> terminate_step \<Rightarrow> 's s3env \<Rightarrow> err list \<times> 's s3env" where
  "terminate_request store u a s =
     (case a of
        AbortUpload \<Rightarrow>
          (case call (svc_AbortMultipartUpload (Service store) (Bucket store) (keyWithPrefix store (objectId u)) (multipartId u)) s of
             (abortErr, s1) \<Rightarrow>
               (case abortErr of Some e \<Rightarrow> if isAwsError ''NoSuchUpload'' e then [] else [aws_err e] | None \<Rightarrow> [], s1))
      | DeleteFiles \<Rightarrow>
          (case call (svc_DeleteObjects (Service store) (Bucket store)
                        [keyWithPrefix store (objectId u), metadataKeyWithPrefix store (objectId u @ ''.part''),
                         metadataKeyWithPrefix store (objectId u @ ''.info'')]) s of
             (res, s1) \<Rightarrow>
               (case res of Inl e \<Rightarrow> [aws_err e] | Inr errs \<Rightarrow> map delete_error (filter (\<lambda>x. fst x \<noteq> ''NoSuchKey'') errs), s1)))"

fun terminate_run :: "'s S3Store \<Rightarrow> s3Upload \<Rightarrow> terminate_step list \<Rightarrow> 's s3env \<Rightarrow> err list \<times> 's s3env" where
  "terminate_run store u [] s = ([], s)"
| "terminate_run store u (a # as) s =
     (case terminate_request store u a s of (es, s1) \<Rightarrow> (case terminate_run store u as s1 of (es', s2) \<Rightarrow> (es @ es', s2)))"

lemma s3_Terminate_is_a_run:
  "s3_Terminate store u s =
     (case terminate_run store u [AbortUpload, DeleteFiles] s of (es, s1) \<Rightarrow> (join_errors es, u, s1))"
  by (simp add: s3_Terminate_def terminate_request_def split: prod.splits)

lemma terminate_request_ok:
  assumes rel: "s3_reliable store view" and run: "terminate_request store u a s = (es, s')"
  shows "es = [] \<and> setting s' = setting s \<and> view (remote s') =
    (case a of
       AbortUpload \<Rightarrow> set_mp (upload_key store (objectId u)) (multipartId u) None (view (remote s))
     | DeleteFiles \<Rightarrow> fold (\<lambda>k. set_obj k None)
         [upload_key store (objectId u), part_key store (objectId u), info_key store (objectId u)] (view (remote s)))"
proof (cases a)
  case AbortUpload
  let ?f = "svc_AbortMultipartUpload (Service store) (Bucket store) (upload_key store (objectId u)) (multipartId u)"
  obtain r1 s1 where call: "call ?f s = (r1, s1)" by (metis surj_pair)
  from call obtain x where x: "?f (remote s) = (r1, x)" "remote s1 = x" "setting s1 = setting s" by (rule callE)
  from reliableD(9) [OF rel, unfolded abort_ok_def, rule_format, OF x(1)] x(2,3) run call AbortUpload
  show ?thesis by (auto simp: terminate_request_def split: option.splits)
next
  case DeleteFiles
  let ?ks = "[upload_key store (objectId u), part_key store (objectId u), info_key store (objectId u)]"
  let ?f = "svc_DeleteObjects (Service store) (Bucket store) ?ks"
  obtain r1 s1 where call: "call ?f s = (r1, s1)" by (metis surj_pair)
  from call obtain x where x: "?f (remote s) = (r1, x)" "remote s1 = x" "setting s1 = setting s" by (rule callE)
  from reliableD(10) [OF rel, unfolded delete_ok_def, THEN conjunct2, rule_format, OF x(1)]
  obtain errs where errs: "r1 = Inr errs" "\<forall>y \<in> set errs. fst y = ''NoSuchKey''" "view x = fold (\<lambda>k. set_obj k None) ?ks (view (remote s))" by blast
  have "filter (\<lambda>y. fst y \<noteq> ''NoSuchKey'') errs = []" using errs(2) by (simp add: filter_empty_conv)
  with run call DeleteFiles errs(1,3) x(2,3) show ?thesis by (simp add: terminate_request_def)
qed

text \<open>The upload is gone, and the bucket is the same, in which order the requests may be answered.\<close>

lemma terminating_in_any_order:
  assumes rel: "s3_reliable store view" and run: "terminate_run store u [DeleteFiles, AbortUpload] s = (es, s')"
  shows "es = [] \<and> view (remote s') = view (remote (snd (snd (s3_Terminate store u s))))"
proof -
  obtain es1 s1 where d: "terminate_request store u DeleteFiles s = (es1, s1)" by (metis surj_pair)
  obtain es2 s2 where a: "terminate_request store u AbortUpload s1 = (es2, s2)" by (metis surj_pair)
  obtain es3 s3 where a': "terminate_request store u AbortUpload s = (es3, s3)" by (metis surj_pair)
  obtain es4 s4 where d': "terminate_request store u DeleteFiles s3 = (es4, s4)" by (metis surj_pair)
  note ok = terminate_request_ok [OF rel d] terminate_request_ok [OF rel a] terminate_request_ok [OF rel a'] terminate_request_ok [OF rel d']
  have "es = es1 @ es2" "s' = s2" using run d a by simp_all
  moreover have "snd (snd (s3_Terminate store u s)) = s4" by (simp add: s3_Terminate_is_a_run a' d')
  ultimately show ?thesis using ok by (simp add: set_obj_mp)
qed

end
