(* ===== verification/S3Upload.thy ===== *)
theory S3Upload
  imports S3Requests
begin

text \<open>
  The life of an upload in S3: creation, appending, completion, reading, removal and
  concatenation, when the service behaves as documented; and what happens to stored bytes when
  the length of an upload is declared at its end. Refused parts are in \<open>S3Holes\<close>.
\<close>

section \<open>Completing and reading\<close>

lemma s3_FinishUpload_ok:
  assumes rel: "s3_reliable store view" and max: "0 < MaxMultipartParts store"
    and u: "up_info u \<noteq> None" "map (\<lambda>p. (pt_etag p, pt_number p)) (up_parts u) = map (\<lambda>(n, d, etag). (etag, n)) ps"
    and mps: "bk_mps (view (remote s)) (upload_key store (objectId u)) (multipartId u) = Some ps"
    and full: "\<forall>(n, d, e) \<in> set (butlast ps). MinPartSize store \<le> int (length d)"
    and run: "s3_FinishUpload store u s = (e, u', s')"
  shows "e = None \<and> u' = u \<and> setting s' = setting s \<and>
    view (remote s') = set_mp (upload_key store (objectId u)) (multipartId u) None
      (set_obj (upload_key store (objectId u)) (Some (map B (part_data ps))) (view (remote s)))"
proof -
  let ?k = "upload_key store (objectId u)" and ?i = "multipartId u"
  obtain i where i: "up_info u = Some i" using u(1) by blast
  have empty: "up_parts u = [] \<longleftrightarrow> ps = []" using arg_cong [OF u(2), of length] by auto
  note complete = reliableD(8) [OF rel, unfolded complete_ok_def, rule_format]
  show ?thesis
  proof (cases "ps = []")
    case False
    let ?f = "svc_CompleteMultipartUpload (Service store) (Bucket store) ?k ?i (map (\<lambda>(n, d, etag). (etag, n)) ps)"
    obtain r s1 where call: "call ?f s = (r, s1)" by (metis surj_pair)
    from call obtain x where x: "?f (remote s) = (r, x)" "remote s1 = x" "setting s1 = setting s" by (rule callE)
    from complete [OF x(1) mps False] full x(2,3) run call i u(2) empty False show ?thesis
      by (auto simp: s3_FinishUpload_def getInternalInfo_def)
  next
    case True
    let ?g = "svc_UploadPart (Service store) (Bucket store) ?k ?i 1 []"
    obtain r0 s0 where call0: "call ?g s = (r0, s0)" by (metis surj_pair)
    from call0 obtain y where y: "?g (remote s) = (r0, y)" "remote s0 = y" "setting s0 = setting s" by (rule callE)
    from reliableD(5) [OF rel, unfolded part_ok_def, rule_format, OF y(1) mps] max True y(2)
    obtain etag where etag: "r0 = Inr etag" "view (remote s0) = set_mp ?k ?i (Some [(1, [], etag)]) (view (remote s))" by auto
    let ?f = "svc_CompleteMultipartUpload (Service store) (Bucket store) ?k ?i (map (\<lambda>(n, d, etag). (etag, n)) [(1, [] :: bytes, etag)])"
    obtain r s1 where call: "call ?f s0 = (r, s1)" by (metis surj_pair)
    from call obtain x where x: "?f (remote s0) = (r, x)" "remote s1 = x" "setting s1 = setting s0" by (rule callE)
    from complete [OF x(1)] etag(2) x(2,3) y(3) run call0 call etag(1) i empty True show ?thesis
      by (auto simp: s3_FinishUpload_def getInternalInfo_def part_data_def set_obj_mp)
  qed
qed

lemma s3_GetReader_ok:
  assumes rel: "s3_reliable store view" and obj: "bk_objs (view (remote s)) (upload_key store (objectId u)) = Some (map B data)"
    and run: "s3_GetReader store u s = (r, u', s')"
  shows "r = Inr (data, None) \<and> view (remote s') = view (remote s) \<and> setting s' = setting s"
proof -
  let ?f = "svc_GetObject (Service store) (Bucket store) (plainInput (upload_key store (objectId u)))"
  obtain r1 s1 where call: "call ?f s = (r1, s1)" by (metis surj_pair)
  from call obtain x where x: "?f (remote s) = (r1, x)" "remote s1 = x" "setting s1 = setting s" by (rule callE)
  from reliableD(2) [OF rel, unfolded get_ok_def, rule_format, OF x(1)] obj x(2,3) run call
  show ?thesis by (auto simp: s3_GetReader_def body_bytes_def)
qed

section \<open>Creating\<close>

lemma s3_NewUpload_ok:
  assumes rel: "s3_reliable store view" and sz: "Size info \<le> MaxObjectSize store" and oid: "ID info = oid" "oid \<noteq> []"
    and free: "bk_objs (view (remote s)) (part_key store oid) = None"
    and run: "s3_NewUpload store info s = (r, s')"
  shows "\<exists>u info'. r = Inr u \<and> setting s' = setting s \<and> objectId u = oid \<and> multipartId u \<noteq> [] \<and> CHR ''+'' \<notin> set (multipartId u) \<and>
    ID info' = oid @ ''+'' @ multipartId u \<and> Size info' = Size info \<and> SizeIsDeferred info' = SizeIsDeferred info \<and>
    (Offset info = 0 \<longrightarrow> s3_handle store (view (remote s')) u (json_norm info') [] [])"
proof -
  let ?k = "upload_key store oid"
  let ?f = "svc_CreateMultipartUpload (Service store) (Bucket store) ?k
      (map (\<lambda>(k, v). (k, printable v)) (MetaData info)) (map_of (MetaData info) ''filetype'')"
  obtain r1 s1 where call: "call ?f s = (r1, s1)" by (metis surj_pair)
  from call obtain x where x: "?f (remote s) = (r1, x)" "remote s1 = x" "setting s1 = setting s" by (rule callE)
  from reliableD(7) [OF rel, unfolded create_ok_def, rule_format, OF x(1)] x(2)
  obtain mid where mid: "r1 = Inr mid" "mid \<noteq> []" "CHR ''+'' \<notin> set mid" "view (remote s1) = set_mp ?k mid (Some []) (view (remote s))" by auto
  let ?info = "info\<lparr>ID := oid @ ''+'' @ mid, Storage := [(''Type'', ''s3store''), (''Bucket'', Bucket store), (''Key'', ?k)]\<rparr>"
  let ?g = "svc_PutObject (Service store) (Bucket store) (info_key store oid) (json_Marshal ?info)"
  obtain r2 s2 where call2: "call ?g s1 = (r2, s2)" by (metis surj_pair)
  from call2 obtain y where y: "?g (remote s1) = (r2, y)" "remote s2 = y" "setting s2 = setting s1" by (rule callE)
  from reliableD(1) [OF rel, unfolded put_ok_def, rule_format, OF y(1)] y(2)
  have put: "r2 = None" "view (remote s2) = set_obj (info_key store oid) (Some [J (json_norm ?info)]) (view (remote s1))"
    by (auto simp: json_Marshal_def)
  let ?u = "\<lparr>objectId = oid, multipartId = mid, up_info = Some ?info, up_parts = [], incompletePartSize = 0\<rparr>"
  have out: "r = Inr ?u" "s' = s2" using run sz oid call mid(1) call2 put(1)
    by (auto simp: s3_NewUpload_def s3_writeInfo_def)
  have "s3_handle store (view (remote s')) ?u (json_norm ?info) [] []" if "Offset info = 0"
    using that put(2) mid(4) free by (simp add: s3_handle_def s3_holds_def s3_content_def json_norm_def out(2))
  with out x(3) y(3) mid oid(1) show ?thesis by (intro exI [of _ ?u] exI [of _ ?info]) simp
qed

section \<open>Uploading in several requests\<close>

text \<open>
  An upload that is not complete: all its parts are full. There are few enough of them, because
  together they are not larger than the upload.
\<close>

definition s3_open :: "'s S3Store \<Rightarrow> bucket \<Rightarrow> string \<Rightarrow> string \<Rightarrow> FileInfo \<Rightarrow> parts \<Rightarrow> bytes \<Rightarrow> bool" where
  "s3_open store b oid mid info ps inc \<longleftrightarrow>
     s3_holds store b oid mid info ps inc \<and> \<not> SizeIsDeferred info \<and> int (length (s3_content ps inc)) < Size info \<and>
     (\<forall>(n, d, e) \<in> set ps. MinPartSize store \<le> int (length d))"

lemma part_data_lower:
  "\<forall>(n, d, e) \<in> set ps. m \<le> length d \<Longrightarrow> length ps * m \<le> length (part_data ps)"
  by (induction ps) (auto simp: part_data_Cons)

lemma part_count:
  assumes "\<forall>(n, d, e) \<in> set ps. m \<le> length d" "0 < m" "m \<le> p" "length (part_data ps @ xs) \<le> m * k"
  shows "length ps + length (slices p xs) \<le> k"
proof (cases "xs = []")
  case True
  then have "length ps * m \<le> m * k" using order_trans [OF part_data_lower [OF assms(1)]] assms(4) by simp
  then have "length ps * m \<le> k * m" by (simp only: mult.commute)
  with True assms(2) show ?thesis by simp
next
  case False
  let ?n = "length (slices p xs)"
  have n: "0 < ?n" using False assms(2,3) by (simp add: slices_step)
  have "(?n - 1) * m \<le> (?n - 1) * p" using assms(3) by simp
  also have "\<dots> < length xs" using slices_lower [of p xs] False assms(2,3) by simp
  finally have rest: "(?n - 1) * m < length xs" .
  have "(length ps + (?n - 1)) * m = length ps * m + (?n - 1) * m" by (rule distrib_right)
  also have "\<dots> < m * k" using part_data_lower [OF assms(1)] rest assms(4) unfolding length_append by linarith
  finally have "(length ps + (?n - 1)) * m < k * m" by (simp only: mult.commute)
  then have "length ps + (?n - 1) < k" using assms(2) by simp
  with n show ?thesis by simp
qed

text \<open>What a PATCH request does to the store, the steps of \<^verbatim>\<open>PatchFile\<close> in their order.\<close>

definition s3_patch :: "'s S3Store \<Rightarrow> string \<Rightarrow> bodyReader \<Rightarrow> 's s3env \<Rightarrow> err option \<times> 's s3env" where
  "s3_patch store i b s =
     (case s3_GetUpload store i s of
        (Inl e, s1) \<Rightarrow> (Some e, s1)
      | (Inr u, s1) \<Rightarrow>
          (case s3_GetInfo store u s1 of
             (Inl e, u1, s2) \<Rightarrow> (Some e, s2)
           | (Inr info, u1, s2) \<Rightarrow>
               if \<not> SizeIsDeferred info \<and> Offset info = Size info then (None, s2)
               else
                 (case s3_WriteChunk store u1 (Offset info) b s2 of
                    ((n, Some e), b1, u2, s3) \<Rightarrow> (Some e, s3)
                  | ((n, None), b1, u2, s3) \<Rightarrow>
                      if \<not> SizeIsDeferred info \<and> Offset info + n = Size info
                      then (case s3_FinishUpload store u2 s3 of (e, u3, s4) \<Rightarrow> (e, s4))
                      else (None, s3))))"

fun s3_patches :: "'s S3Store \<Rightarrow> string \<Rightarrow> bodyReader list \<Rightarrow> 's s3env \<Rightarrow> err option \<times> 's s3env" where
  "s3_patches store i [] s = (None, s)"
| "s3_patches store i (b # bs) s =
     (case s3_patch store i b s of
        (Some e, s1) \<Rightarrow> (Some e, s1)
      | (None, s1) \<Rightarrow> s3_patches store i bs s1)"

text \<open>What is needed of the store and its surroundings.\<close>

definition s3_usable :: "'s S3Store \<Rightarrow> ('s \<Rightarrow> bucket) \<Rightarrow> 's s3env \<Rightarrow> bool" where
  "s3_usable store view s \<longleftrightarrow>
     s3_reliable store view \<and> wf_store store \<and> \<not> DisableContentHashes store \<and> MaxMultipartParts store < 2147483647 \<and>
     calm s \<and> MaxMultipartParts store < int (maxPages s)"

lemma s3_usable_setting: "setting s' = setting s \<Longrightarrow> s3_usable store view s' = s3_usable store view s"
  by (auto simp: s3_usable_def setting_def calm_def)

definition s3_size_ok :: "'s S3Store \<Rightarrow> FileInfo \<Rightarrow> bool" where
  "s3_size_ok store info \<longleftrightarrow>
     0 \<le> Size info \<and> Size info \<le> MaxObjectSize store \<and> Size info \<le> MinPartSize store * MaxMultipartParts store"

lemma holds_extended:
  assumes holds: "s3_holds store b oid mid info ps inc" and nums: "numbered (ps @ qs)"
  shows "s3_holds store (with_incomplete store oid inc' (set_mp (upload_key store oid) mid (Some (ps @ qs))
      (set_obj (part_key store oid) None b))) oid mid info (ps @ qs) inc'"
  using assms by (simp add: s3_holds_def with_incomplete_def)

lemma s3_room:
  assumes use: "s3_usable store view s" and opn: "s3_open store b oid mid info ps inc" and sz: "s3_size_ok store info"
    and fits: "int (length (s3_content ps inc @ d)) \<le> Size info"
  shows "\<exists>p. calcOptimalPartSize store (Size info) = Inr p \<and>
      int (length ps) + int (length (slices (nat p) (inc @ d))) \<le> MaxMultipartParts store"
    "Size info \<le> MaxInt64" "int (length (s3_content ps inc)) \<le> MaxInt64" "int (length ps) \<le> MaxInt64" "length ps < maxPages s"
proof -
  have wf: "wf_store store" using use by (simp add: s3_usable_def)
  note st = wf_storeD [OF wf]
  obtain p where p: "calcOptimalPartSize store (Size info) = Inr p" "MinPartSize store \<le> p"
    using calcOptimalPartSize_bounds [OF wf] sz by (auto simp: s3_size_ok_def)
  define m where "m = nat (MinPartSize store)"
  have m: "int m = MinPartSize store" "0 < m" "m \<le> nat p" using st(1) p(2) by (auto simp: m_def)
  have "int (length (part_data ps @ (inc @ d))) \<le> int (m * nat (MaxMultipartParts store))"
    using fits sz st(4) m(1) by (simp add: s3_content_def s3_size_ok_def)
  then have "length (part_data ps @ (inc @ d)) \<le> m * nat (MaxMultipartParts store)" by (simp only: of_nat_le_iff)
  moreover have "\<forall>(n, d, e) \<in> set ps. m \<le> length d" using opn m(1) by (auto simp: s3_open_def simp flip: of_nat_le_iff)
  ultimately have "length ps + length (slices (nat p) (inc @ d)) \<le> nat (MaxMultipartParts store)"
    using part_count m by blast
  then have count: "int (length ps) + int (length (slices (nat p) (inc @ d))) \<le> MaxMultipartParts store" using st(4) by linarith
  with p show "\<exists>p. calcOptimalPartSize store (Size info) = Inr p \<and>
      int (length ps) + int (length (slices (nat p) (inc @ d))) \<le> MaxMultipartParts store" by blast
  show max: "Size info \<le> MaxInt64" using sz st(5) wf by (auto simp: s3_size_ok_def wf_store_def)
  show "int (length (s3_content ps inc)) \<le> MaxInt64" "int (length ps) \<le> MaxInt64" "length ps < maxPages s"
    using opn max count use by (auto simp: int64_defs s3_open_def s3_usable_def)
qed

text \<open>
  After a chunk that fits, all parts but the last one are full; all of them are when the upload
  is not finished, and nothing is left behind when it is.
\<close>

definition s3_ready :: "'s S3Store \<Rightarrow> bucket \<Rightarrow> string \<Rightarrow> string \<Rightarrow> FileInfo \<Rightarrow> parts \<Rightarrow> bytes \<Rightarrow> bool" where
  "s3_ready store b oid mid info ps inc \<longleftrightarrow>
     (if int (length (s3_content ps inc)) < Size info then s3_open store b oid mid info ps inc
      else inc = [] \<and> bk_mps b (upload_key store oid) mid = Some ps \<and>
        (\<forall>(n, d, e) \<in> set (butlast ps). MinPartSize store \<le> int (length d)))"

lemma s3_write_open:
  assumes use: "s3_usable store view s" and opn: "s3_open store (view (remote s)) (objectId u) (multipartId u) info ps inc"
    and handle: "s3_handle store (view (remote s)) u info ps inc" and sz: "s3_size_ok store info" and b: "fresh_reader b"
    and fits: "int (length (s3_content ps inc @ reader_data b)) \<le> Size info"
    and run: "s3_WriteChunk store u (int (length (s3_content ps inc))) b s = ((n, e), b', u', s')"
  shows "\<exists>ps' inc'. e = None \<and> n = int (length (reader_data b)) \<and> setting s' = setting s \<and>
    objectId u' = objectId u \<and> multipartId u' = multipartId u \<and> up_parts u' = part_list ps' \<and> up_info u' \<noteq> None \<and>
    s3_content ps' inc' = s3_content ps inc @ reader_data b \<and>
    s3_ready store (view (remote s')) (objectId u) (multipartId u) info ps' inc'"
proof -
  note us = use [unfolded s3_usable_def]
  from opn have holds: "s3_holds store (view (remote s)) (objectId u) (multipartId u) info ps inc" and nd: "\<not> SizeIsDeferred info"
    and full: "\<forall>(n, d, e) \<in> set ps. MinPartSize store \<le> int (length d)" by (simp_all add: s3_open_def)
  note room = s3_room [OF use opn sz fits]
  from room(1) obtain p where p: "calcOptimalPartSize store (Size info) = Inr p"
    "int (length ps) + int (length (slices (nat p) (inc @ reader_data b))) \<le> MaxMultipartParts store" by blast
  have rel: "s3_reliable store view" using us by simp
  from s3_WriteChunk_ok [OF rel _ _ _ handle _ _ p _ room(5) b _ run] us sz fits room(2)
  obtain qs inc' where q: "e = None" "n = int (length (reader_data b))" "setting s' = setting s"
    "objectId u' = objectId u" "multipartId u' = multipartId u" "up_parts u' = part_list (ps @ qs)" "up_info u' \<noteq> None" "numbered (ps @ qs)"
    "view (remote s') = with_incomplete store (objectId u) inc' (set_mp (upload_key store (objectId u)) (multipartId u) (Some (ps @ qs))
       (set_obj (part_key store (objectId u)) None (view (remote s))))"
    "stored_parts store (Size info = int (length (s3_content ps inc @ reader_data b))) (inc @ reader_data b) qs inc'"
    using nd by (auto simp: s3_size_ok_def)
  have content: "s3_content (ps @ qs) inc' = s3_content ps inc @ reader_data b"
    using q(10) by (simp add: s3_content_def stored_parts_def)
  note holds2 = holds_extended [OF holds q(8), of inc', folded q(9)]
  have "s3_ready store (view (remote s')) (objectId u) (multipartId u) info (ps @ qs) inc'"
  proof (cases "int (length (s3_content ps inc @ reader_data b)) < Size info")
    case True
    then have "s3_open store (view (remote s')) (objectId u) (multipartId u) info (ps @ qs) inc'"
      using holds2 nd full content q(10) by (auto simp: s3_open_def stored_parts_def)
    then show ?thesis using True content by (simp add: s3_ready_def)
  next
    case False
    then have "Size info = int (length (s3_content ps inc @ reader_data b))" using fits by simp
    then have inc': "inc' = []" and small: "\<forall>(n, d, e) \<in> set (butlast qs). MinPartSize store \<le> int (length d)"
      using q(10) by (auto simp: stored_parts_def)
    have "\<forall>(n, d, e) \<in> set (butlast (ps @ qs)). MinPartSize store \<le> int (length d)"
      using full small by (auto simp: butlast_append dest: in_set_butlastD split: if_splits)
    then show ?thesis using False inc' content holds2 by (simp add: s3_ready_def s3_holds_def)
  qed
  with q(1-7) content show ?thesis by blast
qed

lemma s3_finish_ready:
  assumes use: "s3_usable store view s" and rdy: "s3_ready store (view (remote s)) (objectId u) (multipartId u) info ps inc"
    and u: "up_parts u = part_list ps" "up_info u \<noteq> None" and full: "\<not> int (length (s3_content ps inc)) < Size info"
    and run: "s3_FinishUpload store u s = (e, u', s')"
  shows "e = None \<and> setting s' = setting s \<and>
    bk_objs (view (remote s')) (upload_key store (objectId u)) = Some (map B (s3_content ps inc))"
proof -
  have rel: "s3_reliable store view" and wf: "wf_store store" using use by (simp_all add: s3_usable_def)
  from rdy full have r: "inc = []" "bk_mps (view (remote s)) (upload_key store (objectId u)) (multipartId u) = Some ps"
    "\<forall>(n, d, e) \<in> set (butlast ps). MinPartSize store \<le> int (length d)" by (simp_all add: s3_ready_def)
  have parts: "map (\<lambda>p. (pt_etag p, pt_number p)) (up_parts u) = map (\<lambda>(n, d, etag). (etag, n)) ps"
    unfolding u(1) by (rule part_list_completed)
  from s3_FinishUpload_ok [OF rel wf_storeD(4) [OF wf] u(2) parts r(2,3) run] r(1) show ?thesis by (auto simp: s3_content_def)
qed

lemma s3_patch_ok:
  assumes use: "s3_usable store view s" and opn: "s3_open store (view (remote s)) oid mid info ps inc" and sz: "s3_size_ok store info"
    and ids: "oid \<noteq> []" "mid \<noteq> []" "CHR ''+'' \<notin> set mid" and b: "fresh_reader b"
    and fits: "int (length (s3_content ps inc @ reader_data b)) \<le> Size info"
    and run: "s3_patch store (oid @ ''+'' @ mid) b s = (e, s')"
  shows "e = None \<and> setting s' = setting s \<and>
    (if int (length (s3_content ps inc @ reader_data b)) < Size info
     then \<exists>ps' inc'. s3_open store (view (remote s')) oid mid info ps' inc' \<and> s3_content ps' inc' = s3_content ps inc @ reader_data b
     else bk_objs (view (remote s')) (upload_key store oid) = Some (map B (s3_content ps inc @ reader_data b)))"
proof -
  from opn have holds: "s3_holds store (view (remote s)) oid mid info ps inc" and nd: "\<not> SizeIsDeferred info"
    and less: "int (length (s3_content ps inc)) < Size info" by (simp_all add: s3_open_def)
  let ?u = "\<lparr>objectId = oid, multipartId = mid, up_info = None, up_parts = [], incompletePartSize = 0\<rparr>"
  have get: "s3_GetUpload store (oid @ ''+'' @ mid) s = (Inr ?u, s)"
    using ids splitIds_append [OF ids(3), of oid] by (simp add: s3_GetUpload_def)
  have rel: "s3_reliable store view" using use by (simp add: s3_usable_def)
  obtain r1 u1 s1 where info: "getInternalInfo store ?u s = (r1, u1, s1)" by (metis surj_pair)
  have handle: "s3_handle store (view (remote s)) ?u info ps inc" using holds by (simp add: s3_handle_def)
  from getInternalInfo_ok [OF rel handle s3_room(3,4,5) [OF use opn sz fits] info] obtain i where
    i: "r1 = Inr (i, part_list ps, int (length inc))" "Size i = Size info" "SizeIsDeferred i = SizeIsDeferred info"
    "Offset i = int (length (s3_content ps inc))"
    and u1: "u1 = ?u\<lparr>up_info := Some i, up_parts := part_list ps, incompletePartSize := int (length inc)\<rparr>"
    and s1: "view (remote s1) = view (remote s)" "setting s1 = setting s" by auto
  have gi: "s3_GetInfo store ?u s = (Inr i, u1, s1)" by (simp add: s3_GetInfo_def info i(1))
  have handle1: "s3_handle store (view (remote s1)) u1 info ps inc" using holds i u1 s1(1) by (simp add: s3_handle_def)
  have use1: "s3_usable store view s1" using use s3_usable_setting [OF s1(2)] by simp
  have opn1: "s3_open store (view (remote s1)) (objectId u1) (multipartId u1) info ps inc" using opn s1(1) u1 by simp
  obtain n e2 b2 u2 s2 where wr: "s3_WriteChunk store u1 (int (length (s3_content ps inc))) b s1 = ((n, e2), b2, u2, s2)" by (metis surj_pair)
  from s3_write_open [OF use1 opn1 handle1 sz b fits wr] s1(2) u1 obtain ps' inc' where
    q: "e2 = None" "n = int (length (reader_data b))" "setting s2 = setting s" "objectId u2 = oid" "multipartId u2 = mid"
      "up_parts u2 = part_list ps'" "up_info u2 \<noteq> None" "s3_content ps' inc' = s3_content ps inc @ reader_data b"
      "s3_ready store (view (remote s2)) oid mid info ps' inc'" by auto
  show ?thesis
  proof (cases "int (length (s3_content ps inc @ reader_data b)) < Size info")
    case True
    moreover have "e = None \<and> s' = s2" using run get gi i nd less wr q(1,2) True by (simp add: s3_patch_def)
    ultimately show ?thesis using q(3,8,9) by (auto simp: s3_ready_def)
  next
    case False
    obtain e3 u3 s3 where fin: "s3_FinishUpload store u2 s2 = (e3, u3, s3)" by (metis surj_pair)
    have use2: "s3_usable store view s2" using use s3_usable_setting [OF q(3)] by simp
    from s3_finish_ready [OF use2 _ q(6,7) _ fin, of info inc'] q False
    have "e3 = None" "setting s3 = setting s" "bk_objs (view (remote s3)) (upload_key store oid) = Some (map B (s3_content ps inc @ reader_data b))"
      by simp_all
    moreover have "e = e3 \<and> s' = s3" using run get gi i nd less wr q(1,2) False fits fin by (simp add: s3_patch_def)
    ultimately show ?thesis using False by auto
  qed
qed

lemma s3_patches_ok:
  "s3_patches store (oid @ ''+'' @ mid) bs s = (e, s') \<Longrightarrow> s3_usable store view s \<Longrightarrow>
   s3_open store (view (remote s)) oid mid info ps inc \<Longrightarrow> s3_size_ok store info \<Longrightarrow>
   oid \<noteq> [] \<Longrightarrow> mid \<noteq> [] \<Longrightarrow> CHR ''+'' \<notin> set mid \<Longrightarrow> list_all fresh_reader bs \<Longrightarrow> bs \<noteq> [] \<Longrightarrow> reader_data (last bs) \<noteq> [] \<Longrightarrow>
   int (length (s3_content ps inc @ concat (map reader_data bs))) = Size info \<Longrightarrow>
   e = None \<and> setting s' = setting s \<and>
   bk_objs (view (remote s')) (upload_key store oid) = Some (map B (s3_content ps inc @ concat (map reader_data bs)))"
proof (induction bs arbitrary: s ps inc)
  case (Cons b bs)
  let ?i = "oid @ ''+'' @ mid"
  obtain e1 s1 where one: "s3_patch store ?i b s = (e1, s1)" by (metis surj_pair)
  have b: "fresh_reader b" "list_all fresh_reader bs" using Cons.prems(8) by simp_all
  have fits: "int (length (s3_content ps inc @ reader_data b)) \<le> Size info" using Cons.prems(11) by simp
  note step = s3_patch_ok [OF Cons.prems(2,3,4,5,6,7) b(1) fits one]
  show ?case
  proof (cases "bs = []")
    case True
    with step Cons.prems(1,11) one show ?thesis by auto
  next
    case False
    then have "reader_data (last bs) \<noteq> []" "last bs \<in> set bs" using Cons.prems(10) by simp_all
    then have "0 < length (concat (map reader_data bs))" unfolding length_greater_0_conv by auto
    moreover have "int (length (s3_content ps inc @ reader_data b)) + int (length (concat (map reader_data bs))) = Size info"
      using Cons.prems(11) by simp
    ultimately have "int (length (s3_content ps inc @ reader_data b)) < Size info" by linarith
    with step obtain ps' inc' where p: "e1 = None" "setting s1 = setting s" "s3_open store (view (remote s1)) oid mid info ps' inc'"
      "s3_content ps' inc' = s3_content ps inc @ reader_data b" by auto
    have run: "s3_patches store ?i bs s1 = (e, s')" using Cons.prems(1) one p(1) by simp
    have use: "s3_usable store view s1" using Cons.prems(2) s3_usable_setting [OF p(2)] by simp
    from Cons.IH [OF run use p(3) Cons.prems(4,5,6,7) b(2) False] Cons.prems(10,11) False p(2,4)
    show ?thesis by simp
  qed
qed simp

text \<open>
  Writing a chunk to S3 appends all of its bytes to what is stored, whether they fill
  parts or stay behind in the incomplete part: the reported number is the number of the bytes,
  the parts are numbered without gaps, the incomplete part is smaller than the smallest part,
  and it is empty once the upload has its full size.
\<close>

theorem s3_write_appends:
  assumes "s3_usable store view s" "s3_handle store (view (remote s)) u info ps inc" "0 \<le> Size info"
    "Size info \<le> MaxObjectSize store" "calcOptimalPartSize store (Size info) = Inr p"
    "int (length ps) + int (length (slices (nat p) (inc @ reader_data b))) \<le> MaxMultipartParts store" "fresh_reader b"
    "int (length (s3_content ps inc)) + int (length (reader_data b)) \<le> MaxInt64"
    "s3_WriteChunk store u (int (length (s3_content ps inc))) b s = ((n, e), b', u', s')"
  shows "e = None \<and> n = int (length (reader_data b)) \<and>
    (\<exists>ps' inc'. s3_holds store (view (remote s')) (objectId u) (multipartId u) info ps' inc' \<and>
       s3_content ps' inc' = s3_content ps inc @ reader_data b \<and> up_parts u' = part_list ps' \<and>
       int (length inc') < MinPartSize store \<and>
       (\<not> SizeIsDeferred info \<and> Size info = int (length (s3_content ps' inc')) \<longrightarrow> inc' = []))"
proof -
  have holds: "s3_holds store (view (remote s)) (objectId u) (multipartId u) info ps inc" using assms(2) by (simp add: s3_handle_def)
  have pages: "length ps < maxPages s" using assms(1,6) by (simp add: s3_usable_def)
  have rel: "s3_reliable store view" using assms(1) by (simp add: s3_usable_def)
  from s3_WriteChunk_ok [OF rel _ _ _ assms(2-6) _ pages assms(7-9)] assms(1) obtain qs inc' where
    q: "e = None" "n = int (length (reader_data b))" "up_parts u' = part_list (ps @ qs)" "numbered (ps @ qs)"
    "view (remote s') = with_incomplete store (objectId u) inc'
      (set_mp (upload_key store (objectId u)) (multipartId u) (Some (ps @ qs))
        (set_obj (part_key store (objectId u)) None (view (remote s))))"
    "stored_parts store (\<not> SizeIsDeferred info \<and> Size info = int (length (s3_content ps inc @ reader_data b)))
      (inc @ reader_data b) qs inc'" by (auto simp: s3_usable_def)
  have "s3_content (ps @ qs) inc' = s3_content ps inc @ reader_data b" using q(6) by (simp add: s3_content_def stored_parts_def)
  with holds_extended [OF holds q(4), of inc', folded q(5)] q show ?thesis
    by (intro conjI exI [of _ "ps @ qs"] exI [of _ inc']) (auto simp: stored_parts_def)
qed

text \<open>
  Property C19. An upload to S3 in any number of requests: what is created, sent in pieces and
  completed is read back as the concatenation of the pieces. The upload must not need more
  parts of the smallest size than S3 allows.
\<close>

theorem s3_upload_roundtrip:
  assumes "s3_usable store view s" "s3_size_ok store info" "0 < Size info" "\<not> SizeIsDeferred info" "Offset info = 0"
    "ID info \<noteq> []" "bk_objs (view (remote s)) (part_key store (ID info)) = None"
    "list_all fresh_reader bs" "bs \<noteq> []" "reader_data (last bs) \<noteq> []" "int (length (concat (map reader_data bs))) = Size info"
  shows "\<exists>u s1 s2. s3_NewUpload store info s = (Inr u, s1) \<and>
    s3_patches store (objectId u @ ''+'' @ multipartId u) bs s1 = (None, s2) \<and>
    fst (s3_GetReader store u s2) = Inr (concat (map reader_data bs), None)"
proof -
  have rel: "s3_reliable store view" and max: "Size info \<le> MaxObjectSize store" using assms(1,2) by (simp_all add: s3_usable_def s3_size_ok_def)
  obtain r s1 where new: "s3_NewUpload store info s = (r, s1)" by (metis surj_pair)
  from s3_NewUpload_ok [OF rel max refl assms(6,7) new] obtain u info' where
    n: "r = Inr u" "setting s1 = setting s" "objectId u = ID info" "multipartId u \<noteq> []" "CHR ''+'' \<notin> set (multipartId u)"
    "Size info' = Size info" "SizeIsDeferred info' = SizeIsDeferred info" "s3_handle store (view (remote s1)) u (json_norm info') [] []"
    using assms(5) by auto
  have opn: "s3_open store (view (remote s1)) (ID info) (multipartId u) (json_norm info') [] []"
    using n assms(3,4) by (simp add: s3_open_def s3_handle_def s3_content_def json_norm_def)
  have sz: "s3_size_ok store (json_norm info')" using assms(2) n by (simp add: s3_size_ok_def json_norm_def)
  have use: "s3_usable store view s1" using assms(1) s3_usable_setting [OF n(2)] by simp
  obtain e s2 where run: "s3_patches store (ID info @ ''+'' @ multipartId u) bs s1 = (e, s2)" by (metis surj_pair)
  have len: "int (length (s3_content [] [] @ concat (map reader_data bs))) = Size (json_norm info')"
    using assms(11) n by (simp add: s3_content_def json_norm_def)
  from s3_patches_ok [OF run use opn sz assms(6) n(4,5) assms(8-10) len] n(3)
  have obj: "e = None" "bk_objs (view (remote s2)) (upload_key store (objectId u)) = Some (map B (concat (map reader_data bs)))"
    by (auto simp: s3_content_def)
  obtain rr u' s3 where rd: "s3_GetReader store u s2 = (rr, u', s3)" by (metis surj_pair)
  from s3_GetReader_ok [OF rel obj(2) rd] new n(1,3) run obj(1) rd show ?thesis by auto
qed

text \<open>A small bucket: parts have two to four bytes, and there are at most ten.\<close>

definition small_store :: "(nat \<Rightarrow> bool) \<Rightarrow> mem_s3 S3Store" where
  "small_store fails =
     (s3_New ''b'' (memory_s3 2 fails) None (\<lambda>url d n s. (Inl (PlainError ''unavailable''), s)))
       \<lparr>MinPartSize := 2, PreferredPartSize := 2, MaxPartSize := 4, MaxMultipartParts := 10, MaxObjectSize := 40\<rparr>"

definition small_env :: "mem_s3 \<Rightarrow> mem_s3 s3env" where
  "small_env m =
     \<lparr>machine = \<lparr>fs_files = [], fs_dirs = [], fs_faults = (\<lambda>_. None), fs_clock = 0, fs_rand = (\<lambda>_. None), fs_drawn = 0, fs_json = (\<lambda>_. [])\<rparr>,
      remote = m, tempMemory = True, ctxDone = None, maxPages = 20\<rparr>"

definition empty_s3 :: mem_s3 where
  "empty_s3 = \<lparr>ms_objs = [], ms_mps = [], ms_clock = 0\<rparr>"

definition small_body :: "bytes \<Rightarrow> bodyReader" where
  "small_body d = newBodyReader [Chunk d (Some EOF)] 40"

lemma small_usable: "s3_usable (small_store (\<lambda>_. False)) ms_view (small_env m)"
proof -
  have "s3_reliable (small_store (\<lambda>_. False)) ms_view" by (rule memory_reliable) (simp add: small_store_def s3_New_def)
  then show ?thesis by (simp add: s3_usable_def small_store_def s3_New_def wf_store_def calm_def small_env_def MaxInt64_def)
qed

lemma small_body_facts: "fresh_reader (small_body d)" "length d \<le> 40 \<Longrightarrow> reader_data (small_body d) = d"
  by (simp_all add: small_body_def) (simp add: newBodyReader_def limited_run_def)

theorem s3_upload_roundtrip_witness:
  "\<exists>u s1 s2. s3_NewUpload (small_store (\<lambda>_. False)) (emptyFileInfo\<lparr>ID := ''o'', Size := 5\<rparr>) (small_env empty_s3) = (Inr u, s1) \<and>
    s3_patches (small_store (\<lambda>_. False)) (objectId u @ ''+'' @ multipartId u) [small_body ''abc'', small_body ''de''] s1 = (None, s2) \<and>
    fst (s3_GetReader (small_store (\<lambda>_. False)) u s2) = Inr (''abcde'', None)"
proof -
  let ?info = "emptyFileInfo\<lparr>ID := ''o'', Size := 5\<rparr>" and ?bs = "[small_body ''abc'', small_body ''de'']"
  have "s3_size_ok (small_store (\<lambda>_. False)) ?info" by (simp add: s3_size_ok_def small_store_def s3_New_def emptyFileInfo_def)
  moreover have "bk_objs (ms_view (remote (small_env empty_s3))) (part_key (small_store (\<lambda>_. False)) (ID ?info)) = None"
    by (simp add: ms_view_def small_env_def empty_s3_def)
  ultimately show ?thesis
    using s3_upload_roundtrip [of "small_store (\<lambda>_. False)" ms_view "small_env empty_s3" ?info ?bs] small_usable
    by (simp add: small_body_facts emptyFileInfo_def)
qed

text \<open>An upload of four bytes of which three are stored, one of them in the incomplete part.\<close>

definition small_info :: FileInfo where
  "small_info = emptyFileInfo\<lparr>ID := ''o+m'', Size := 4\<rparr>"

definition half_s3 :: mem_s3 where
  "half_s3 = \<lparr>ms_objs = [(''o.info'', [J small_info]), (''o.part'', map B ''c'')],
     ms_mps = [((''o'', ''m''), [(1, ''ab'', ''e0'')])], ms_clock = 0\<rparr>"

definition small_upload :: s3Upload where
  "small_upload = \<lparr>objectId = ''o'', multipartId = ''m'', up_info = None, up_parts = [], incompletePartSize = 0\<rparr>"

lemma small_upload_fields [simp]: "objectId small_upload = ''o''" "multipartId small_upload = ''m''" "up_info small_upload = None"
  by (simp_all add: small_upload_def)

lemma small_keys [simp]: "keyWithPrefix (small_store f) k = k" "metadataKeyWithPrefix (small_store f) k = k"
  by (simp_all add: keyWithPrefix_def metadataKeyWithPrefix_def withSlash_def small_store_def s3_New_def)

lemma small_handle: "s3_handle (small_store f) (ms_view (remote (small_env half_s3))) small_upload small_info [(1, ''ab'', ''e0'')] ''c''"
  by (simp add: s3_handle_def s3_holds_def small_env_def half_s3_def ms_view_def numbered_def)

theorem s3_write_appends_witness:
  "\<exists>b' u' s'. s3_WriteChunk (small_store (\<lambda>_. False)) small_upload 3 (small_body ''d'') (small_env half_s3) = ((1, None), b', u', s') \<and>
    (\<exists>ps' inc'. s3_content ps' inc' = ''abcd'' \<and> up_parts u' = part_list ps')"
proof -
  let ?st = "small_store (\<lambda>_. False)"
  obtain n e b' u' s' where run: "s3_WriteChunk ?st small_upload (int (length (s3_content [(1, ''ab'', ''e0'')] ''c''))) (small_body ''d'') (small_env half_s3)
      = ((n, e), b', u', s')" by (metis surj_pair)
  have sizes: "calcOptimalPartSize ?st (Size small_info) = Inr 2" "0 \<le> Size small_info" "Size small_info \<le> MaxObjectSize ?st" "MaxMultipartParts ?st = 10"
    by (simp_all add: calcOptimalPartSize_def mul64_def wrap64_def small_store_def s3_New_def small_info_def emptyFileInfo_def)
  have "slices (nat 2) ''cd'' = [''cd'']" by (simp add: slices.simps)
  then have "int (length [(1 :: int, ''ab'', ''e0'')]) + int (length (slices (nat 2) (''c'' @ reader_data (small_body ''d'')))) \<le> MaxMultipartParts ?st"
    by (simp add: small_body_facts sizes)
  moreover have "int (length (s3_content [(1, ''ab'', ''e0'')] ''c'')) + int (length (reader_data (small_body ''d''))) \<le> MaxInt64"
    by (simp add: small_body_facts s3_content_def part_data_def MaxInt64_def)
  ultimately have "e = None \<and> n = int (length (reader_data (small_body ''d''))) \<and>
    (\<exists>ps' inc'. s3_content ps' inc' = s3_content [(1, ''ab'', ''e0'')] ''c'' @ reader_data (small_body ''d'') \<and> up_parts u' = part_list ps')"
    using s3_write_appends [OF small_usable small_handle sizes(2,3,1) _ small_body_facts(1) _ run] by blast
  then have "e = None \<and> n = 1 \<and> (\<exists>ps' inc'. s3_content ps' inc' = ''abcd'' \<and> up_parts u' = part_list ps')"
    by (simp add: small_body_facts s3_content_def part_data_def)
  with run show ?thesis by (auto simp: s3_content_def part_data_def)
qed

section \<open>Removing\<close>

lemma s3_Terminate_ok:
  assumes rel: "s3_reliable store view" and run: "s3_Terminate store u s = (e, u', s')"
  shows "e = None \<and> u' = u \<and> setting s' = setting s \<and>
    view (remote s') = fold (\<lambda>k. set_obj k None)
      [upload_key store (objectId u), part_key store (objectId u), info_key store (objectId u)]
      (set_mp (upload_key store (objectId u)) (multipartId u) None (view (remote s)))"
proof -
  obtain es1 s1 where a: "terminate_request store u AbortUpload s = (es1, s1)" by (metis surj_pair)
  obtain es2 s2 where d: "terminate_request store u DeleteFiles s1 = (es2, s2)" by (metis surj_pair)
  from run have "e = join_errors (es1 @ es2)" "u' = u" "s' = s2" by (simp_all add: s3_Terminate_is_a_run a d)
  with terminate_request_ok [OF rel a] terminate_request_ok [OF rel d] show ?thesis by (simp add: join_errors_def)
qed

text \<open>
  The termination of an upload succeeds, also when it has been completed before: its
  object, its incomplete part, its information and its multipart upload are gone, nothing
  else in the bucket has changed, and the upload is not found any more.
\<close>

theorem s3_terminate_removes:
  assumes "s3_usable store view s" "s3_Terminate store u s = (e, u', s')" "up_info u = None"
    and miss: "missing_ok (Service store) (Bucket store) view"
  shows "e = None \<and> bk_mps (view (remote s')) (upload_key store (objectId u)) (multipartId u) = None \<and>
    (\<forall>k. bk_objs (view (remote s')) k =
       (if k \<in> {upload_key store (objectId u), part_key store (objectId u), info_key store (objectId u)} then None
        else bk_objs (view (remote s)) k)) \<and>
    fst (s3_GetInfo store u s') = Inl (TusError ErrNotFound)"
proof -
  have rel: "s3_reliable store view" using assms(1) by (simp add: s3_usable_def)
  note t = s3_Terminate_ok [OF rel assms(2)]
  let ?f = "svc_GetObject (Service store) (Bucket store) (plainInput (info_key store (objectId u)))"
  obtain r1 s1 where call: "call ?f s' = (r1, s1)" by (metis surj_pair)
  from call obtain x where x: "?f (remote s') = (r1, x)" "remote s1 = x" "setting s1 = setting s'" by (rule callE)
  have "bk_objs (view (remote s')) (info_key store (objectId u)) = None" using t by simp
  from miss [unfolded missing_ok_def, rule_format, OF this] x(1)
  obtain e1 where "r1 = Inl e1" "isAwsError ''NoSuchKey'' e1" by auto
  then have "fst (s3_GetInfo store u s') = Inl (TusError ErrNotFound)"
    using call assms(3) by (simp add: s3_GetInfo_def getInternalInfo_def fetchInfo_def split: prod.splits)
  with t show ?thesis by auto
qed

theorem s3_terminate_removes_witness:
  "let s' = snd (snd (s3_Terminate (small_store (\<lambda>_. False)) small_upload (small_env half_s3)))
   in bk_objs (ms_view (remote s')) ''o.info'' = None \<and> fst (s3_GetInfo (small_store (\<lambda>_. False)) small_upload s') = Inl (TusError ErrNotFound)"
proof -
  obtain e u' s' where run: "s3_Terminate (small_store (\<lambda>_. False)) small_upload (small_env half_s3) = (e, u', s')" by (metis surj_pair)
  have "missing_ok (Service (small_store (\<lambda>_. False))) (Bucket (small_store (\<lambda>_. False))) ms_view"
    by (simp add: small_store_def s3_New_def memory_missing)
  from s3_terminate_removes [OF small_usable run small_upload_fields(3) this] show ?thesis by (simp add: run Let_def)
qed

text \<open>The requests for the information of this upload in another order.\<close>

lemma fetching_in_any_order_example:
  "map_option fetch_result
     (fetch_run (small_store (\<lambda>_. False)) small_upload [FetchSize, FetchPage, FetchObject] (start_fetching (small_env half_s3))) =
   Some (Some (fst (fetchInfo (small_store (\<lambda>_. False)) small_upload (small_env half_s3))))"
  by code_simp

section \<open>Concatenation\<close>

text \<open>The objects of completed partial uploads.\<close>

definition partial_data :: "'s S3Store \<Rightarrow> bucket \<Rightarrow> s3Upload \<Rightarrow> bytes \<Rightarrow> bool" where
  "partial_data store b p d \<longleftrightarrow> bk_objs b (upload_key store (objectId p)) = Some (map B d)"

lemma download_all_ok:
  assumes rel: "s3_reliable store view"
  shows "download_all store ps acc s = (r, s') \<Longrightarrow> list_all2 (partial_data store (view (remote s))) ps ds \<Longrightarrow> calm s \<Longrightarrow>
    r = Inr (acc @ concat ds) \<and> view (remote s') = view (remote s) \<and> setting s' = setting s"
proof (induction ps arbitrary: ds acc s)
  case (Cons p ps)
  from Cons.prems(2) obtain d ds' where ds: "ds = d # ds'" "partial_data store (view (remote s)) p d"
    "list_all2 (partial_data store (view (remote s))) ps ds'" by (auto simp: list_all2_Cons1)
  let ?f = "svc_GetObject (Service store) (Bucket store) (plainInput (upload_key store (objectId p)))"
  obtain r1 s1 where call: "call ?f s = (r1, s1)" by (metis surj_pair)
  from call obtain x where x: "?f (remote s) = (r1, x)" "remote s1 = x" "setting s1 = setting s" by (rule callE)
  from reliableD(2) [OF rel, unfolded get_ok_def, rule_format, OF x(1)] ds(2) x(2) obtain ob where
    ob: "r1 = Inr ob" "gr_Body ob = map B d" "gr_BodyErr ob = None" "view (remote s1) = view (remote s)" by (auto simp: partial_data_def)
  obtain e2 s2 where tmp: "on_machine (tmp_op ''write'') s1 = (e2, s2)" by (metis surj_pair)
  note t = on_machine_tmp [OF tmp]
  have "calm s1" "calm s2" using Cons.prems(3) setting_calm [OF x(3)] setting_calm [OF t(2)] by simp_all
  then have run: "download_all store ps (acc @ d) s2 = (r, s')"
    using Cons.prems(1) call ob tmp t(3) by (simp add: body_bytes_def)
  from Cons.IH [OF run _ \<open>calm s2\<close>] ds ob(4) t(1,2) x(3) show ?case by simp
qed simp

lemma copy_parts_ok:
  assumes rel: "s3_reliable store view" and max: "MaxMultipartParts store < 2147483647"
  shows "copy_parts store u num ps s = ((cs, e), s') \<Longrightarrow> list_all2 (partial_data store (view (remote s))) ps ds \<Longrightarrow>
    bk_mps (view (remote s)) (upload_key store (objectId u)) (multipartId u) = Some qs \<Longrightarrow> numbered qs \<Longrightarrow>
    num = int (length qs) + 1 \<Longrightarrow> int (length qs) + int (length ps) \<le> MaxMultipartParts store \<Longrightarrow>
    \<exists>rs. e = None \<and> setting s' = setting s \<and> map (fst \<circ> snd) rs = ds \<and>
      map (\<lambda>p. (pt_etag p, pt_number p)) cs = map (\<lambda>(n, d, etag). (etag, n)) rs \<and>
      view (remote s') = set_mp (upload_key store (objectId u)) (multipartId u) (Some (qs @ rs)) (view (remote s))"
proof (induction ps arbitrary: ds num s qs cs e s')
  case Nil
  then show ?case by (auto simp: set_mp_same)
next
  case (Cons p ps)
  from Cons.prems(2) obtain d ds' where ds: "ds = d # ds'" "partial_data store (view (remote s)) p d"
    "list_all2 (partial_data store (view (remote s))) ps ds'" by (auto simp: list_all2_Cons1)
  let ?k = "upload_key store (objectId u)" and ?i = "multipartId u"
  let ?f = "svc_UploadPartCopy (Service store) (Bucket store) ?k ?i num (Bucket store @ ''/'' @ upload_key store (objectId p))"
  obtain r1 s1 where call: "call ?f s = (r1, s1)" by (metis surj_pair)
  from call obtain x where x: "?f (remote s) = (r1, x)" "remote s1 = x" "setting s1 = setting s" by (rule callE)
  from reliableD(6) [OF rel, unfolded copy_ok_def, rule_format, OF x(1) Cons.prems(3) ds(2) [unfolded partial_data_def]] Cons.prems(5,6) x(2)
  obtain etag where etag: "r1 = Inr etag" "view (remote s1) = set_mp ?k ?i (Some (put_part num d etag qs)) (view (remote s))" by auto
  have pp: "put_part num d etag qs = qs @ [(num, d, etag)]"
    using numbered_less [OF Cons.prems(4)] Cons.prems(5) by (intro put_part_append) auto
  obtain cs2 e2 s2 where rest: "copy_parts store u (wrap32 (num + 1)) ps s1 = ((cs2, e2), s2)" by (metis surj_pair)
  have run: "cs = \<lparr>pt_number = num, pt_size = -1, pt_etag = etag\<rparr> # cs2" "e = e2" "s' = s2"
    using Cons.prems(1) call rest etag(1) by simp_all
  have num: "wrap32 (num + 1) = int (length (qs @ [(num, d, etag)])) + 1"
    using Cons.prems(5,6) max by (simp add: wrap32_def)
  have data: "list_all2 (partial_data store (view (remote s1))) ps ds'" using ds(3) by (simp add: etag(2) partial_data_def [abs_def])
  have mps: "bk_mps (view (remote s1)) ?k ?i = Some (qs @ [(num, d, etag)])" by (simp add: etag(2) pp)
  have count: "int (length (qs @ [(num, d, etag)])) + int (length ps) \<le> MaxMultipartParts store" using Cons.prems(6) by simp
  from Cons.IH [OF rest data mps numbered_snoc [OF Cons.prems(4,5)] num count] obtain rs where
    "e2 = None" "setting s2 = setting s1" "map (fst \<circ> snd) rs = ds'"
    "map (\<lambda>p. (pt_etag p, pt_number p)) cs2 = map (\<lambda>(n, d, etag). (etag, n)) rs"
    "view (remote s2) = set_mp ?k ?i (Some ((qs @ [(num, d, etag)]) @ rs)) (view (remote s1))" by blast
  with run x(3) ds(1) etag(2) show ?case by (intro exI [of _ "(num, d, etag) # rs"]) (simp add: comp_def)
qed

text \<open>
  Property C24. The two ways to concatenate uploads in S3 agree: copying the partial uploads as
  parts and downloading them into one file both succeed and both make the same object, the
  concatenation of the partial uploads. Copying needs partial uploads that are large enough
  for a part, which is why the code chooses between the two.
\<close>

theorem s3_concat_methods_agree:
  assumes "s3_usable store view s" "list_all2 (partial_data store (view (remote s))) partials ds"
    "list_all (\<lambda>d. MinPartSize store \<le> int (length d)) ds" "int (length partials) \<le> MaxMultipartParts store"
    "up_info u \<noteq> None" "bk_mps (view (remote s)) (upload_key store (objectId u)) (multipartId u) = Some []"
    "concatUsingMultipart store u partials s = (e1, u1, s1)" "concatUsingDownload store u partials s = (e2, u2, s2)"
  shows "e1 = None \<and> e2 = None \<and>
    bk_objs (view (remote s1)) (upload_key store (objectId u)) = Some (map B (concat ds)) \<and>
    view (remote s2) = view (remote s1)"
proof -
  let ?k = "upload_key store (objectId u)" and ?i = "multipartId u"
  let ?final = "set_mp ?k ?i None (set_obj ?k (Some (map B (concat ds))) (view (remote s)))"
  note us = assms(1) [unfolded s3_usable_def]
  then have rel: "s3_reliable store view" and pos: "0 < MaxMultipartParts store" using wf_storeD by auto
  obtain cs e s3 where cp: "copy_parts store u 1 partials s = ((cs, e), s3)" by (metis surj_pair)
  from copy_parts_ok [OF rel _ cp assms(2,6)] us assms(4) obtain rs where
    rs: "e = None" "map (fst \<circ> snd) rs = ds" "map (\<lambda>p. (pt_etag p, pt_number p)) cs = map (\<lambda>(n, d, etag). (etag, n)) rs"
    "view (remote s3) = set_mp ?k ?i (Some rs) (view (remote s))" by auto
  have "\<forall>(n, d, e) \<in> set rs. MinPartSize store \<le> int (length d)" using assms(3) unfolding rs(2) [symmetric] by (auto simp: list_all_iff)
  then have full: "\<forall>(n, d, e) \<in> set (butlast rs). MinPartSize store \<le> int (length d)" by (auto dest: in_set_butlastD)
  have fin: "s3_FinishUpload store (u\<lparr>up_parts := cs\<rparr>) s3 = (e1, u1, s1)" using assms(7) cp rs(1) by (simp add: concatUsingMultipart_def)
  have data: "part_data rs = concat ds" by (simp add: part_data_def rs(2))
  from s3_FinishUpload_ok [OF rel pos _ _ _ full fin] rs(3,4) assms(5)
  have multi: "e1 = None" "view (remote s1) = ?final" by (simp_all add: data set_obj_mp)
  obtain t1 a1 r2 a2 t3 a3 where ops: "on_machine (tmp_op ''open'') s = (t1, a1)" "download_all store partials [] a1 = (r2, a2)"
    "on_machine (tmp_op ''seek'') a2 = (t3, a3)" by (metis surj_pair)
  note o = on_machine_tmp [OF ops(1)]
  have c1: "calm a1" using us setting_calm [OF o(2)] by simp
  from download_all_ok [OF rel ops(2) _ c1] assms(2) o(1)
  have dl: "r2 = Inr (concat ds)" "view (remote a2) = view (remote s)" "setting a2 = setting a1" by simp_all
  note k = on_machine_tmp [OF ops(3)]
  have c2: "calm a2" using c1 setting_calm [OF dl(3)] by simp
  let ?f = "svc_PutObject (Service store) (Bucket store) ?k (map B (concat ds))"
  obtain r4 a4 where call: "call ?f a3 = (r4, a4)" by (metis surj_pair)
  from call obtain x where x: "?f (remote a3) = (r4, x)" "remote a4 = x" by (rule callE)
  from reliableD(1) [OF rel, unfolded put_ok_def, rule_format, OF x(1)] x(2) k(1) dl(2)
  have put: "r4 = None" "view (remote a4) = set_obj ?k (Some (map B (concat ds))) (view (remote s))" by auto
  let ?g = "svc_AbortMultipartUpload (Service store) (Bucket store) ?k ?i"
  obtain r5 a5 where call2: "call ?g a4 = (r5, a5)" by (metis surj_pair)
  from call2 obtain y where y: "?g (remote a4) = (r5, y)" "remote a5 = y" by (rule callE)
  from reliableD(9) [OF rel, unfolded abort_ok_def, rule_format, OF y(1)] put(2) y(2) have "view (remote a5) = ?final" by simp
  moreover have "e2 = None \<and> s2 = a5"
    using assms(8) ops us o(3) k(3) c2 dl(1) call put(1) call2 by (simp add: concatUsingDownload_def)
  ultimately show ?thesis using multi by simp
qed

definition two_objects :: mem_s3 where
  "two_objects = \<lparr>ms_objs = [(''x'', map B ''abc''), (''y'', map B ''de'')], ms_mps = [((''o'', ''m''), [])], ms_clock = 0\<rparr>"

theorem s3_concat_methods_agree_witness:
  "\<exists>e u s'. concatUsingMultipart (small_store (\<lambda>_. False)) (small_upload\<lparr>up_info := Some small_info\<rparr>)
      [small_upload\<lparr>objectId := ''x''\<rparr>, small_upload\<lparr>objectId := ''y''\<rparr>] (small_env two_objects) = (None, u, s') \<and>
    bk_objs (ms_view (remote s')) ''o'' = Some (map B ''abcde'')"
proof -
  let ?st = "small_store (\<lambda>_. False)" and ?u = "small_upload\<lparr>up_info := Some small_info\<rparr>"
  let ?ps = "[small_upload\<lparr>objectId := ''x''\<rparr>, small_upload\<lparr>objectId := ''y''\<rparr>]" and ?s = "small_env two_objects"
  obtain e1 u1 s1 e2 u2 s2 where runs: "concatUsingMultipart ?st ?u ?ps ?s = (e1, u1, s1)" "concatUsingDownload ?st ?u ?ps ?s = (e2, u2, s2)"
    by (metis surj_pair)
  have "list_all2 (partial_data ?st (ms_view (remote ?s))) ?ps [''abc'', ''de'']"
    "bk_mps (ms_view (remote ?s)) (upload_key ?st (objectId ?u)) (multipartId ?u) = Some []"
    by (simp_all add: partial_data_def small_env_def two_objects_def ms_view_def)
  moreover have "MinPartSize ?st = 2" "MaxMultipartParts ?st = 10" by (simp_all add: small_store_def s3_New_def)
  ultimately show ?thesis using s3_concat_methods_agree [OF small_usable _ _ _ _ _ runs, of "[''abc'', ''de'']"] runs(1) by simp
qed

section \<open>What is lost\<close>

lemma s3_DeclareLength_ok:
  assumes rel: "s3_reliable store view" and handle: "s3_handle store (view (remote s)) u info ps inc"
    and bounds: "int (length (s3_content ps inc)) \<le> MaxInt64" "int (length ps) \<le> MaxInt64" "length ps < maxPages s"
    and run: "s3_DeclareLength store u len s = (e, u', s')"
  shows "\<exists>i. e = None \<and> Size i = len \<and> \<not> SizeIsDeferred i \<and> setting s' = setting s \<and> objectId u' = objectId u \<and>
    multipartId u' = multipartId u \<and> up_info u' \<noteq> None \<and> up_parts u' = part_list ps \<and>
    view (remote s') = set_obj (info_key store (objectId u)) (Some [J (json_norm i)]) (view (remote s))"
proof -
  obtain r1 u1 s1 where info: "getInternalInfo store u s = (r1, u1, s1)" by (metis surj_pair)
  from getInternalInfo_ok [OF rel handle bounds info] obtain i where
    i: "r1 = Inr (i, part_list ps, int (length inc))"
    "u1 = u\<lparr>up_info := Some i, up_parts := part_list ps, incompletePartSize := int (length inc)\<rparr>"
    "view (remote s1) = view (remote s)" "setting s1 = setting s" by auto
  let ?i = "i\<lparr>Size := len, SizeIsDeferred := False\<rparr>"
  let ?f = "svc_PutObject (Service store) (Bucket store) (info_key store (objectId u)) (json_Marshal ?i)"
  obtain r2 s2 where call: "call ?f s1 = (r2, s2)" by (metis surj_pair)
  from call obtain x where x: "?f (remote s1) = (r2, x)" "remote s2 = x" "setting s2 = setting s1" by (rule callE)
  from reliableD(1) [OF rel, unfolded put_ok_def, rule_format, OF x(1)] x i run call info show ?thesis
    by (intro exI [of _ ?i]) (auto simp: s3_DeclareLength_def s3_GetInfo_def s3_writeInfo_def json_Marshal_def)
qed

text \<open>
  Property C25. When the length of an upload is declared after its last bytes have been written, as
  \<^verbatim>\<open>PatchFile\<close> does for uploads of unknown length, the incomplete part is not part of the
  completed object: everything succeeds, and the last bytes of the upload are missing.
\<close>

theorem s3_late_length_loses_the_tail:
  assumes "s3_usable store view s" "s3_handle store (view (remote s)) u info ps inc" "inc \<noteq> []"
    "\<forall>(n, d, e) \<in> set ps. MinPartSize store \<le> int (length d)" "int (length (s3_content ps inc)) \<le> MaxInt64"
    "int (length ps) \<le> MaxMultipartParts store"
    "s3_DeclareLength store u (int (length (s3_content ps inc))) s = (e1, u1, s1)" "s3_FinishUpload store u1 s1 = (e2, u2, s2)"
  shows "e1 = None \<and> e2 = None \<and>
    (\<exists>stored. bk_objs (view (remote s2)) (upload_key store (objectId u)) = Some (map B stored) \<and>
       stored @ inc = s3_content ps inc \<and> stored \<noteq> s3_content ps inc)"
proof -
  have rel: "s3_reliable store view" and pos: "0 < MaxMultipartParts store" using assms(1) wf_storeD(4) by (auto simp: s3_usable_def)
  have bounds: "int (length ps) \<le> MaxInt64" "length ps < maxPages s" using assms(1,6) by (auto simp: s3_usable_def int64_defs)
  from s3_DeclareLength_ok [OF rel assms(2,5) bounds assms(7)] obtain i where
    d: "e1 = None" "objectId u1 = objectId u" "multipartId u1 = multipartId u" "up_info u1 \<noteq> None" "up_parts u1 = part_list ps"
    "view (remote s1) = set_obj (info_key store (objectId u)) (Some [J (json_norm i)]) (view (remote s))" by auto
  have mps: "bk_mps (view (remote s1)) (upload_key store (objectId u1)) (multipartId u1) = Some ps"
    using assms(2) d by (simp add: s3_handle_def s3_holds_def)
  have full: "\<forall>(n, d, e) \<in> set (butlast ps). MinPartSize store \<le> int (length d)" using assms(4) by (auto dest: in_set_butlastD)
  have parts: "map (\<lambda>p. (pt_etag p, pt_number p)) (up_parts u1) = map (\<lambda>(n, d, etag). (etag, n)) ps"
    unfolding d(5) by (rule part_list_completed)
  from s3_FinishUpload_ok [OF rel pos d(4) parts mps full assms(8)] d(1,2) assms(3) show ?thesis
    by (auto simp: s3_content_def)
qed

theorem s3_late_length_loses_the_tail_witness:
  "\<exists>e1 u1 s1 e2 u2 s2. s3_DeclareLength (small_store (\<lambda>_. False)) small_upload 3 (small_env half_s3) = (None, u1, s1) \<and>
    s3_FinishUpload (small_store (\<lambda>_. False)) u1 s1 = (None, u2, s2) \<and> bk_objs (ms_view (remote s2)) ''o'' = Some (map B ''ab'')"
proof -
  let ?st = "small_store (\<lambda>_. False)" and ?ps = "[(1 :: int, ''ab'', ''e0'')]"
  obtain e1 u1 s1 where dec: "s3_DeclareLength ?st small_upload (int (length (s3_content ?ps ''c''))) (small_env half_s3) = (e1, u1, s1)" by (metis surj_pair)
  obtain e2 u2 s2 where fin: "s3_FinishUpload ?st u1 s1 = (e2, u2, s2)" by (metis surj_pair)
  have "MinPartSize ?st = 2" "MaxMultipartParts ?st = 10" by (simp_all add: small_store_def s3_New_def)
  with s3_late_length_loses_the_tail [OF small_usable small_handle _ _ _ _ dec fin]
  have "e1 = None \<and> e2 = None \<and> bk_objs (ms_view (remote s2)) ''o'' = Some (map B ''ab'')"
    by (auto simp: s3_content_def part_data_def MaxInt64_def)
  with dec fin show ?thesis by (auto simp: s3_content_def part_data_def)
qed

text \<open>An upload of eight bytes that has just been created, for examples.\<close>

definition fresh_s3 :: mem_s3 where
  "fresh_s3 = \<lparr>ms_objs = [(''o.info'', [J (small_info\<lparr>Size := 8\<rparr>)])], ms_mps = [((''o'', ''m''), [])], ms_clock = 0\<rparr>"

end
