(* ===== verification/GCSStore.thy ===== *)
theory GCSStore
  imports Reliability
begin

text \<open>
  The storage backend for Google Cloud Storage (\<^verbatim>\<open>pkg/gcsstore/gcsstore.go\<close> and \<^verbatim>\<open>gcsservice.go\<close>).
  Each chunk of an upload is an object of its own, \<^verbatim>\<open>[id]_0\<close>, \<^verbatim>\<open>[id]_1\<close> and so on; finishing the
  upload composes them into the object \<^verbatim>\<open>[id]\<close>. The client library of the service is not part of
  the repository: it is a record of operations on a state \<open>'s\<close>.
\<close>

section \<open>The client library\<close>

text \<open>
  An error: whether it is \<^verbatim>\<open>storage.ErrObjectNotExist\<close> or \<^verbatim>\<open>context.Canceled\<close>, the code of a
  \<^verbatim>\<open>googleapi.Error\<close>, and the error value that is handed on.
\<close>

record gcs_error =
  ge_notExist :: bool
  ge_canceled :: bool
  ge_code :: "int option"
  ge_err :: err

definition plain_gcs_error :: "err \<Rightarrow> gcs_error" where
  "plain_gcs_error e = \<lparr>ge_notExist = False, ge_canceled = False, ge_code = None, ge_err = e\<rparr>"

abbreviation gcs_text :: "string \<Rightarrow> gcs_error" where
  "gcs_text t \<equiv> plain_gcs_error (PlainError t)"

record ObjectAttrs =
  oa_Size :: int
  oa_CRC32C :: "32 word"
  oa_ContentType :: string

text \<open>
  The operations by bucket and object. \<open>cl_Objects\<close> gives the names that the iterator yields
  and the error that ends it; \<open>cl_Write\<close> is a write to the writer of an object and \<open>cl_Close\<close>
  the end of it, which makes the object with all that was written.
\<close>

record 's GCSClient =
  cl_Attrs :: "string \<Rightarrow> string \<Rightarrow> 's \<Rightarrow> (gcs_error + ObjectAttrs) \<times> 's"
  cl_NewReader :: "string \<Rightarrow> string \<Rightarrow> 's \<Rightarrow> (gcs_error + contents \<times> err option) \<times> 's"
  cl_Update :: "string \<Rightarrow> string \<Rightarrow> string gomap \<Rightarrow> 's \<Rightarrow> gcs_error option \<times> 's"
  cl_Delete :: "string \<Rightarrow> string \<Rightarrow> 's \<Rightarrow> gcs_error option \<times> 's"
  cl_Write :: "string \<Rightarrow> string \<Rightarrow> contents \<Rightarrow> 's \<Rightarrow> err option \<times> 's"
  cl_Close :: "string \<Rightarrow> string \<Rightarrow> contents \<Rightarrow> 's \<Rightarrow> gcs_error option \<times> 's"
  cl_Compose :: "string \<Rightarrow> string list \<Rightarrow> string \<Rightarrow> string \<Rightarrow> 's \<Rightarrow> gcs_error option \<times> 's"
  cl_Objects :: "string \<Rightarrow> string \<Rightarrow> 's \<Rightarrow> (string list \<times> gcs_error option) \<times> 's"
  CRC32Combine :: "32 word \<Rightarrow> 32 word \<Rightarrow> int \<Rightarrow> 32 word"

section \<open>The service\<close>

text \<open>The reader that an object is written from: the body of a request or a buffer.\<close>

datatype gcs_source = BodySource bodyReader | BufferSource contents

record 's GCSAPI =
  ReadObject :: "string \<Rightarrow> string \<Rightarrow> 's \<Rightarrow> (gcs_error + contents \<times> err option) \<times> 's"
  GetObjectSize :: "string \<Rightarrow> string \<Rightarrow> 's \<Rightarrow> (gcs_error + int) \<times> 's"
  SetObjectMetadata :: "string \<Rightarrow> string \<Rightarrow> string gomap \<Rightarrow> 's \<Rightarrow> gcs_error option \<times> 's"
  DeleteObject :: "string \<Rightarrow> string \<Rightarrow> 's \<Rightarrow> gcs_error option \<times> 's"
  DeleteObjectsWithFilter :: "string \<Rightarrow> string \<Rightarrow> 's \<Rightarrow> gcs_error option \<times> 's"
  WriteObject :: "string \<Rightarrow> string \<Rightarrow> gcs_source \<Rightarrow> 's \<Rightarrow> (int \<times> gcs_error option) \<times> gcs_source \<times> 's"
  ComposeObjects :: "string \<Rightarrow> string list \<Rightarrow> string \<Rightarrow> 's \<Rightarrow> gcs_error option \<times> 's"
  FilterObjects :: "string \<Rightarrow> string \<Rightarrow> 's \<Rightarrow> (gcs_error + string list) \<times> 's"

definition gcs_GetObjectAttrs :: "'s GCSClient \<Rightarrow> string \<Rightarrow> string \<Rightarrow> 's \<Rightarrow> (gcs_error + ObjectAttrs) \<times> 's" where
  "gcs_GetObjectAttrs cl bucket i s = cl_Attrs cl bucket i s"

definition gcs_GetObjectSize :: "'s GCSClient \<Rightarrow> string \<Rightarrow> string \<Rightarrow> 's \<Rightarrow> (gcs_error + int) \<times> 's" where
  "gcs_GetObjectSize cl bucket i s =
     (case gcs_GetObjectAttrs cl bucket i s of
        (Inl e, s1) \<Rightarrow> (Inl e, s1)
      | (Inr attrs, s1) \<Rightarrow> (Inr (oa_Size attrs), s1))"

definition gcs_ReadObject :: "'s GCSClient \<Rightarrow> string \<Rightarrow> string \<Rightarrow> 's \<Rightarrow> (gcs_error + contents \<times> err option) \<times> 's" where
  "gcs_ReadObject cl bucket i s = cl_NewReader cl bucket i s"

definition gcs_SetObjectMetadata :: "'s GCSClient \<Rightarrow> string \<Rightarrow> string \<Rightarrow> string gomap \<Rightarrow> 's \<Rightarrow> gcs_error option \<times> 's" where
  "gcs_SetObjectMetadata cl bucket i meta s = cl_Update cl bucket i meta s"

definition gcs_DeleteObject :: "'s GCSClient \<Rightarrow> string \<Rightarrow> string \<Rightarrow> 's \<Rightarrow> gcs_error option \<times> 's" where
  "gcs_DeleteObject cl bucket i s = cl_Delete cl bucket i s"

text \<open>The loop over the objects; \<open>names\<close> is extended with empty names up to the index of a chunk.\<close>

definition put_name :: "nat \<Rightarrow> string \<Rightarrow> string list \<Rightarrow> string list" where
  "put_name idx name names =
     (let names1 = (if length names \<le> idx then names @ replicate (idx - length names + 1) [] else names)
      in names1[idx := name])"

fun filter_loop :: "string list \<Rightarrow> gcs_error option \<Rightarrow> string list \<Rightarrow> gcs_error + string list" where
  "filter_loop [] stop names = (case stop of None \<Rightarrow> Inr names | Some e \<Rightarrow> Inl e)"
| "filter_loop (name # rest) stop names =
     (if HasSuffix name ''info'' then filter_loop rest stop names
      else
        (let split = Split CHR ''_'' (last (Split CHR ''/'' name))
         in if length split = 1 then Inr [name]
            else if length split = 4 then filter_loop rest stop (names @ [name])
            else if length split = 2 then
              (case ParseInt (split ! 1) of
                 None \<Rightarrow> Inl (gcs_text (''strconv.Atoi: parsing '' @ split ! 1))
               | Some idx \<Rightarrow>
                   if idx < 0 then Inl (plain_gcs_error (Panic ''index out of range''))
                   else filter_loop rest stop (put_name (nat idx) name names))
            else Inl (gcs_text ''invalid filter format for object name'')))"

definition gcs_FilterObjects :: "'s GCSClient \<Rightarrow> string \<Rightarrow> string \<Rightarrow> 's \<Rightarrow> (gcs_error + string list) \<times> 's" where
  "gcs_FilterObjects cl bucket pre s =
     (case cl_Objects cl bucket pre s of ((names, stop), s1) \<Rightarrow> (filter_loop names stop [], s1))"

fun delete_names :: "'s GCSClient \<Rightarrow> string \<Rightarrow> string list \<Rightarrow> 's \<Rightarrow> gcs_error option \<times> 's" where
  "delete_names cl bucket [] s = (None, s)"
| "delete_names cl bucket (name # names) s =
     (case gcs_DeleteObject cl bucket name s of
        (Some e, s1) \<Rightarrow> (Some e, s1)
      | (None, s1) \<Rightarrow> delete_names cl bucket names s1)"

definition gcs_DeleteObjectsWithFilter :: "'s GCSClient \<Rightarrow> string \<Rightarrow> string \<Rightarrow> 's \<Rightarrow> gcs_error option \<times> 's" where
  "gcs_DeleteObjectsWithFilter cl bucket pre s =
     (case gcs_FilterObjects cl bucket pre s of
        (Inl e, s1) \<Rightarrow> (Some e, s1)
      | (Inr names, s1) \<Rightarrow> delete_names cl bucket names s1)"

text \<open>\<^verbatim>\<open>io.Copy\<close> to the writer of an object, which is not made when the copy fails.\<close>

definition writer_put ::
  "'s GCSClient \<Rightarrow> string \<Rightarrow> string \<Rightarrow> bytes \<Rightarrow> 's \<times> contents \<Rightarrow> (nat \<times> err option) \<times> 's \<times> contents" where
  "writer_put cl bucket i d w =
     (case w of (s, written) \<Rightarrow>
        (case cl_Write cl bucket i (map B d) s of
           (Some e, s1) \<Rightarrow> ((0, Some e), s1, written)
         | (None, s1) \<Rightarrow> ((length d, None), s1, written @ map B d)))"

definition close_writer :: "'s GCSClient \<Rightarrow> string \<Rightarrow> string \<Rightarrow> contents \<Rightarrow> int \<Rightarrow> 's \<Rightarrow> (int \<times> gcs_error option) \<times> 's" where
  "close_writer cl bucket i written n s =
     (case cl_Close cl bucket i written s of
        (Some e, s1) \<Rightarrow>
          ((0, Some (if ge_code e = Some 404
                     then gcs_text (''gcsstore: the bucket '' @ bucket @ '' could not be found while trying to write an object'')
                     else e)), s1)
      | (None, s1) \<Rightarrow> ((n, None), s1))"

definition gcs_WriteObject ::
  "'s GCSClient \<Rightarrow> string \<Rightarrow> string \<Rightarrow> gcs_source \<Rightarrow> 's \<Rightarrow> (int \<times> gcs_error option) \<times> gcs_source \<times> 's" where
  "gcs_WriteObject cl bucket i src s =
     (case src of
        BodySource r \<Rightarrow>
          (case io_Copy (writer_put cl bucket i) r 0 (s, []) of
             ((n, Some e), r1, s1, written) \<Rightarrow> ((0, Some (plain_gcs_error e)), BodySource r1, s1)
           | ((n, None), r1, s1, written) \<Rightarrow>
               (case close_writer cl bucket i written n s1 of (res, s2) \<Rightarrow> (res, BodySource r1, s2)))
      | BufferSource data \<Rightarrow>
          (case cl_Write cl bucket i data s of
             (Some e, s1) \<Rightarrow> ((0, Some (plain_gcs_error e)), BufferSource [], s1)
           | (None, s1) \<Rightarrow>
               (case close_writer cl bucket i data (int (length data)) s1 of (res, s2) \<Rightarrow> (res, BufferSource [], s2))))"

definition gcs_ComposeFrom ::
  "'s GCSClient \<Rightarrow> string \<Rightarrow> string list \<Rightarrow> string \<Rightarrow> string \<Rightarrow> 's \<Rightarrow> (gcs_error + 32 word) \<times> 's" where
  "gcs_ComposeFrom cl bucket srcs dst contentType s =
     (case cl_Compose cl bucket srcs dst contentType s of
        (Some e, s1) \<Rightarrow> (Inl e, s1)
      | (None, s1) \<Rightarrow>
          (case cl_Attrs cl bucket dst s1 of
             (Inl e, s2) \<Rightarrow> (Inl e, s2)
           | (Inr attrs, s2) \<Rightarrow> (Inr (oa_CRC32C attrs), s2)))"

text \<open>The checksum that the composed object must have; \<open>acc\<close> is that of the sources before.\<close>

fun source_crc ::
  "'s GCSClient \<Rightarrow> string \<Rightarrow> 32 word option \<Rightarrow> string list \<Rightarrow> 's \<Rightarrow> (gcs_error + 32 word) \<times> 's" where
  "source_crc cl bucket acc [] s = (Inr (case acc of None \<Rightarrow> 0 | Some crc \<Rightarrow> crc), s)"
| "source_crc cl bucket acc (src # srcs) s =
     (case gcs_GetObjectAttrs cl bucket src s of
        (Inl e, s1) \<Rightarrow> (Inl e, s1)
      | (Inr attrs, s1) \<Rightarrow>
          source_crc cl bucket
            (Some (case acc of None \<Rightarrow> oa_CRC32C attrs
                             | Some crc \<Rightarrow> CRC32Combine cl crc (oa_CRC32C attrs) (oa_Size attrs))) srcs s1)"

text \<open>The composition is tried \<open>k\<close> times, until the checksum is right.\<close>

definition COMPOSE_RETRIES :: nat where
  "COMPOSE_RETRIES = 3"

fun compose_tries ::
  "nat \<Rightarrow> 's GCSClient \<Rightarrow> string \<Rightarrow> string list \<Rightarrow> string \<Rightarrow> string \<Rightarrow> 32 word \<Rightarrow> 's \<Rightarrow> gcs_error option \<times> 's" where
  "compose_tries 0 cl bucket srcs dst contentType crc s =
     (case gcs_DeleteObject cl bucket dst s of
        (Some e, s1) \<Rightarrow> (Some e, s1)
      | (None, s1) \<Rightarrow> (Some (gcs_text ''GCS compose failed: Mismatch of CRC32 checksums''), s1))"
| "compose_tries (Suc k) cl bucket srcs dst contentType crc s =
     (case gcs_ComposeFrom cl bucket srcs dst contentType s of
        (Inl e, s1) \<Rightarrow> (Some e, s1)
      | (Inr dstCRC, s1) \<Rightarrow>
          if dstCRC = crc then (None, s1) else compose_tries k cl bucket srcs dst contentType crc s1)"

definition gcs_compose :: "'s GCSClient \<Rightarrow> string \<Rightarrow> string list \<Rightarrow> string \<Rightarrow> 's \<Rightarrow> gcs_error option \<times> 's" where
  "gcs_compose cl bucket srcs dst s =
     (if srcs = [] then
        (Some (gcs_text (''empty srcs passed to compose for bucket: '' @ bucket @ '' dest: '' @ dst)), s)
      else
        (case source_crc cl bucket None srcs s of
           (Inl e, s1) \<Rightarrow> (Some e, s1)
         | (Inr crc, s1) \<Rightarrow>
             (case gcs_GetObjectAttrs cl bucket (hd srcs) s1 of
                (Inl e, s2) \<Rightarrow> (Some e, s2)
              | (Inr attrs, s2) \<Rightarrow>
                  compose_tries COMPOSE_RETRIES cl bucket srcs dst (oa_ContentType attrs) crc s2)))"

definition MAX_OBJECT_COMPOSITION :: nat where
  "MAX_OBJECT_COMPOSITION = 32"

text \<open>The groups of sources that are composed into temporary objects.\<close>

definition tmpSrcLen :: "string list \<Rightarrow> nat" where
  "tmpSrcLen srcs = (length srcs + MAX_OBJECT_COMPOSITION - 1) div MAX_OBJECT_COMPOSITION"

definition src_group :: "string list \<Rightarrow> nat \<Rightarrow> string list" where
  "src_group srcs i =
     (let start = i * MAX_OBJECT_COMPOSITION;
          stop = (if tmpSrcLen srcs - i = 1 then length srcs else MAX_OBJECT_COMPOSITION * (i + 1))
      in take (stop - start) (drop start srcs))"

definition tmp_name :: "string \<Rightarrow> nat \<Rightarrow> nat \<Rightarrow> string" where
  "tmp_name dst lvl i = dst @ ''_tmp_'' @ FormatInt (int lvl) @ ''_'' @ FormatInt (int i)"

fun compose_groups ::
  "'s GCSClient \<Rightarrow> string \<Rightarrow> string list \<Rightarrow> string \<Rightarrow> nat \<Rightarrow> nat list \<Rightarrow> 's \<Rightarrow> gcs_error option \<times> 's" where
  "compose_groups cl bucket srcs dst lvl [] s = (None, s)"
| "compose_groups cl bucket srcs dst lvl (i # is) s =
     (case gcs_compose cl bucket (src_group srcs i) (tmp_name dst lvl i) s of
        (Some e, s1) \<Rightarrow> (Some e, s1)
      | (None, s1) \<Rightarrow> compose_groups cl bucket srcs dst lvl is s1)"

function recursiveCompose ::
  "'s GCSClient \<Rightarrow> string \<Rightarrow> string list \<Rightarrow> string \<Rightarrow> nat \<Rightarrow> 's \<Rightarrow> gcs_error option \<times> 's" where
  "recursiveCompose cl bucket srcs dst lvl s =
     (if length srcs \<le> MAX_OBJECT_COMPOSITION then
        (case gcs_compose cl bucket srcs dst s of
           (Some e, s1) \<Rightarrow> (Some e, s1)
         | (None, s1) \<Rightarrow> gcs_DeleteObjectsWithFilter cl bucket (dst @ ''_tmp'') s1)
      else
        (case compose_groups cl bucket srcs dst lvl [0..<tmpSrcLen srcs] s of
           (Some e, s1) \<Rightarrow> (Some e, s1)
         | (None, s1) \<Rightarrow>
             recursiveCompose cl bucket (map (tmp_name dst lvl) [0..<tmpSrcLen srcs]) dst (lvl + 1) s1))"
  by pat_completeness auto
termination
  by (relation "measure (\<lambda>(cl, bucket, srcs, dst, lvl, s). length srcs)")
    (auto simp: tmpSrcLen_def MAX_OBJECT_COMPOSITION_def)

declare recursiveCompose.simps [simp del]

definition gcs_ComposeObjects :: "'s GCSClient \<Rightarrow> string \<Rightarrow> string list \<Rightarrow> string \<Rightarrow> 's \<Rightarrow> gcs_error option \<times> 's" where
  "gcs_ComposeObjects cl bucket srcs dst s = recursiveCompose cl bucket srcs dst 0 s"

definition GCSService :: "'s GCSClient \<Rightarrow> 's GCSAPI" where
  "GCSService cl =
     \<lparr>ReadObject = gcs_ReadObject cl, GetObjectSize = gcs_GetObjectSize cl, SetObjectMetadata = gcs_SetObjectMetadata cl,
      DeleteObject = gcs_DeleteObject cl, DeleteObjectsWithFilter = gcs_DeleteObjectsWithFilter cl,
      WriteObject = gcs_WriteObject cl, ComposeObjects = gcs_ComposeObjects cl, FilterObjects = gcs_FilterObjects cl\<rparr>"

text \<open>The service for an account file; \<^verbatim>\<open>storage.NewClient\<close> is the argument.\<close>

datatype gcs_option = WithJSONReads | WithCredentialsFile string | WithEndpoint string

definition NewGCSService :: "(gcs_option list \<Rightarrow> err + 's GCSClient) \<Rightarrow> string \<Rightarrow> err + 's GCSAPI" where
  "NewGCSService newClient filename =
     (case newClient (if filename \<noteq> [] then [WithCredentialsFile filename] else []) of
        Inl e \<Rightarrow> Inl e
      | Inr client \<Rightarrow> Inr (GCSService client))"

section \<open>The store\<close>

text \<open>
  The store runs on the local machine, for random identifiers, and the service. \<open>lateErr\<close> says
  whether the goroutine that collects the errors of \<^verbatim>\<open>GetInfo\<close> has not yet stored the last one
  when the result is read: nothing in the code makes the reader wait for it.
\<close>

record 's gcsenv =
  g_machine :: filesys
  g_remote :: 's
  lateErr :: bool

definition gcall :: "('s \<Rightarrow> 'a \<times> 's) \<Rightarrow> 's gcsenv \<Rightarrow> 'a \<times> 's gcsenv" where
  "gcall f s = (case f (g_remote s) of (r, x) \<Rightarrow> (r, s\<lparr>g_remote := x\<rparr>))"

record 's GCSStore =
  gcs_Bucket :: string
  gcs_ObjectPrefix :: string
  gcs_Service :: "'s GCSAPI"

definition gcs_New :: "string \<Rightarrow> 's GCSAPI \<Rightarrow> 's GCSStore" where
  "gcs_New bucket service = \<lparr>gcs_Bucket = bucket, gcs_ObjectPrefix = [], gcs_Service = service\<rparr>"

record gcsUpload =
  gcs_id :: string

definition gcs_keyWithPrefix :: "'s GCSStore \<Rightarrow> string \<Rightarrow> string" where
  "gcs_keyWithPrefix store key =
     (let pre = gcs_ObjectPrefix store
      in (if pre \<noteq> [] \<and> \<not> HasSuffix pre ''/'' then pre @ ''/'' else pre) @ key)"

definition gcs_writeInfo :: "'s GCSStore \<Rightarrow> string \<Rightarrow> FileInfo \<Rightarrow> 's gcsenv \<Rightarrow> err option \<times> 's gcsenv" where
  "gcs_writeInfo store i info s =
     (case gcall (\<lambda>x. case WriteObject (gcs_Service store) (gcs_Bucket store) (i @ ''.info'')
                              (BufferSource (json_Marshal info)) x of ((n, e), src, x1) \<Rightarrow> (e, x1)) s of
        (e, s1) \<Rightarrow> (map_option ge_err e, s1))"

definition gcs_NewUpload :: "'s GCSStore \<Rightarrow> FileInfo \<Rightarrow> 's gcsenv \<Rightarrow> (err + gcsUpload) \<times> 's gcsenv" where
  "gcs_NewUpload store info s =
     (case (if ID info = [] then (case Uid (g_machine s) of (r, m) \<Rightarrow> (r, s\<lparr>g_machine := m\<rparr>)) else (Inr (ID info), s)) of
        (Inl e, s1) \<Rightarrow> (Inl e, s1)
      | (Inr i, s1) \<Rightarrow>
          (let info1 = info\<lparr>ID := i, Storage := [(''Type'', ''gcsstore''), (''Bucket'', gcs_Bucket store),
                                                (''Key'', gcs_keyWithPrefix store i)]\<rparr>
           in case gcs_writeInfo store (gcs_keyWithPrefix store i) info1 s1 of
                (Some e, s2) \<Rightarrow> (Inl e, s2)
              | (None, s2) \<Rightarrow> (Inr \<lparr>gcs_id = i\<rparr>, s2)))"

definition gcs_GetUpload :: "'s GCSStore \<Rightarrow> string \<Rightarrow> 's gcsenv \<Rightarrow> (err + gcsUpload) \<times> 's gcsenv" where
  "gcs_GetUpload store i s = (Inr \<lparr>gcs_id = i\<rparr>, s)"

text \<open>The largest index of the chunks.\<close>

fun max_index :: "string list \<Rightarrow> int \<Rightarrow> err + int" where
  "max_index [] maxIdx = Inr maxIdx"
| "max_index (name # names) maxIdx =
     (case ParseInt (last (Split CHR ''_'' name)) of
        None \<Rightarrow> Inl (PlainError (''strconv.Atoi: parsing '' @ last (Split CHR ''_'' name)))
      | Some idx \<Rightarrow> max_index names (if idx > maxIdx then idx else maxIdx))"

definition gcs_WriteChunk ::
  "'s GCSStore \<Rightarrow> gcsUpload \<Rightarrow> int \<Rightarrow> bodyReader \<Rightarrow> 's gcsenv \<Rightarrow> (int \<times> err option) \<times> bodyReader \<times> gcsUpload \<times> 's gcsenv" where
  "gcs_WriteChunk store u offset src s =
     (case gcall (FilterObjects (gcs_Service store) (gcs_Bucket store) (gcs_keyWithPrefix store (gcs_id u) @ ''_'')) s of
        (Inl e, s1) \<Rightarrow> ((0, Some (ge_err e)), src, u, s1)
      | (Inr names, s1) \<Rightarrow>
          (case max_index names (-1) of
             Inl e \<Rightarrow> ((0, Some e), src, u, s1)
           | Inr maxIdx \<Rightarrow>
               (case WriteObject (gcs_Service store) (gcs_Bucket store)
                       (gcs_keyWithPrefix store (gcs_id u) @ ''_'' @ FormatInt (add64 maxIdx 1)) (BodySource src) (g_remote s1) of
                  ((n, e), src1, x) \<Rightarrow>
                    ((if e = None then n else 0, map_option ge_err e),
                     case src1 of BodySource b \<Rightarrow> b | BufferSource data \<Rightarrow> src, u, s1\<lparr>g_remote := x\<rparr>))))"

text \<open>The sizes of the objects, which are asked for concurrently, and the errors in the order they come.\<close>

fun sum_sizes ::
  "'s GCSStore \<Rightarrow> string list \<Rightarrow> int \<Rightarrow> gcs_error list \<Rightarrow> 's gcsenv \<Rightarrow> (int \<times> gcs_error list) \<times> 's gcsenv" where
  "sum_sizes store [] offset errs s = ((offset, errs), s)"
| "sum_sizes store (name # names) offset errs s =
     (case gcall (GetObjectSize (gcs_Service store) (gcs_Bucket store) name) s of
        (Inl e, s1) \<Rightarrow> sum_sizes store names offset (errs @ [e]) s1
      | (Inr n, s1) \<Rightarrow> sum_sizes store names (add64 offset n) errs s1)"

definition first_error :: "bool \<Rightarrow> gcs_error list \<Rightarrow> err option" where
  "first_error late errs = map_option ge_err (find (\<lambda>e. \<not> ge_canceled e) (if late then butlast errs else errs))"

definition gcs_GetInfo :: "'s GCSStore \<Rightarrow> gcsUpload \<Rightarrow> 's gcsenv \<Rightarrow> (err + FileInfo) \<times> gcsUpload \<times> 's gcsenv" where
  "gcs_GetInfo store u s =
     (case gcall (ReadObject (gcs_Service store) (gcs_Bucket store) (gcs_keyWithPrefix store (gcs_id u) @ ''.info'')) s of
        (Inl e, s1) \<Rightarrow> (Inl (if ge_notExist e then TusError ErrNotFound else ge_err e), u, s1)
      | (Inr (buf, Some e), s1) \<Rightarrow> (Inl e, u, s1)
      | (Inr (buf, None), s1) \<Rightarrow>
          (case json_Unmarshal buf of
             Inl e \<Rightarrow> (Inl e, u, s1)
           | Inr info \<Rightarrow>
               (case gcall (FilterObjects (gcs_Service store) (gcs_Bucket store) (gcs_keyWithPrefix store (gcs_id u))) s1 of
                  (Inl e, s2) \<Rightarrow> (Inl (ge_err e), u, s2)
                | (Inr names, s2) \<Rightarrow>
                    (case sum_sizes store names 0 [] s2 of
                       ((offset, errs), s3) \<Rightarrow>
                         (case first_error (lateErr s3) errs of
                            Some e \<Rightarrow> (Inl e, u, s3)
                          | None \<Rightarrow> (Inr (info\<lparr>Offset := offset\<rparr>), u, s3))))))"

definition gcs_FinishUpload :: "'s GCSStore \<Rightarrow> gcsUpload \<Rightarrow> 's gcsenv \<Rightarrow> err option \<times> gcsUpload \<times> 's gcsenv" where
  "gcs_FinishUpload store u s =
     (let api = gcs_Service store; bucket = gcs_Bucket store; key = gcs_keyWithPrefix store (gcs_id u)
      in case gcall (FilterObjects api bucket (key @ ''_'')) s of
           (Inl e, s1) \<Rightarrow> (Some (ge_err e), u, s1)
         | (Inr names, s1) \<Rightarrow>
             if names = [] then
               (Some (PlainError (''no GCS objects found with FilterObjects {Bucket:'' @ bucket @ '' Prefix:'' @ key @ ''_}'')), u, s1)
             else
               (case gcall (ComposeObjects api bucket names key) s1 of
                  (Some e, s2) \<Rightarrow> (Some (ge_err e), u, s2)
                | (None, s2) \<Rightarrow>
                    (case gcall (DeleteObjectsWithFilter api bucket (key @ ''_'')) s2 of
                       (Some e, s3) \<Rightarrow> (Some (ge_err e), u, s3)
                     | (None, s3) \<Rightarrow>
                         (case gcs_GetInfo store u s3 of
                            (Inl e, u1, s4) \<Rightarrow> (Some e, u, s4)
                          | (Inr info, u1, s4) \<Rightarrow>
                              (case gcall (SetObjectMetadata api bucket key (MetaData info)) s4 of
                                 (e, s5) \<Rightarrow> (map_option ge_err e, u, s5))))))"

definition gcs_Terminate :: "'s GCSStore \<Rightarrow> gcsUpload \<Rightarrow> 's gcsenv \<Rightarrow> err option \<times> gcsUpload \<times> 's gcsenv" where
  "gcs_Terminate store u s =
     (let api = gcs_Service store; bucket = gcs_Bucket store; key = gcs_keyWithPrefix store (gcs_id u)
      in case gcall (DeleteObjectsWithFilter api bucket key) s of
           (Some e, s1) \<Rightarrow> (Some (WrappedError ''gcsstore: failed to delete blob objects: '' (ge_err e)), u, s1)
         | (None, s1) \<Rightarrow>
             (case gcall (DeleteObject api bucket (key @ ''.info'')) s1 of
                (Some e, s2) \<Rightarrow> (Some (WrappedError ''gcsstore: failed to delete info object: '' (ge_err e)), u, s2)
              | (None, s2) \<Rightarrow> (None, u, s2)))"

definition gcs_GetReader :: "'s GCSStore \<Rightarrow> gcsUpload \<Rightarrow> 's gcsenv \<Rightarrow> (err + bytes \<times> err option) \<times> gcsUpload \<times> 's gcsenv" where
  "gcs_GetReader store u s =
     (case gcall (ReadObject (gcs_Service store) (gcs_Bucket store) (gcs_keyWithPrefix store (gcs_id u))) s of
        (Inl e, s1) \<Rightarrow> (Inl (ge_err e), u, s1)
      | (Inr (data, e), s1) \<Rightarrow> (Inr (render (g_machine s1) data, e), u, s1))"

definition gcsStore :: "'s GCSStore \<Rightarrow> ('s gcsenv, gcsUpload) DataStore" where
  "gcsStore store =
     \<lparr>NewUpload = gcs_NewUpload store, GetUpload = gcs_GetUpload store, WriteChunk = gcs_WriteChunk store,
      GetInfo = gcs_GetInfo store, GetReader = gcs_GetReader store, FinishUpload = gcs_FinishUpload store\<rparr>"

definition gcs_UseIn ::
  "'s GCSStore \<Rightarrow> ('s gcsenv, gcsUpload, 'l, 'k) StoreComposer \<Rightarrow> ('s gcsenv, gcsUpload, 'l, 'k) StoreComposer" where
  "gcs_UseIn store c = UseTerminater (Some (gcs_Terminate store)) (UseCore (Some (gcsStore store)) c)"

end
