(* ===== verification/GCSFacts.thy ===== *)
theory GCSFacts
  imports GCSStore
begin

text \<open>
  What the client library of Google Cloud Storage promises, when its requests do not fail, and
  what follows for the service that \<^verbatim>\<open>gcsservice.go\<close> builds on it: the chunks of an upload are
  found in their order, and any number of them is composed into one object.
\<close>

section \<open>The documented behaviour of the client library\<close>

text \<open>A bucket has objects by their names.\<close>

type_synonym gcs_bucket = "string \<Rightarrow> contents option"

definition gcs_attrs_ok :: "'s GCSClient \<Rightarrow> string \<Rightarrow> ('s \<Rightarrow> gcs_bucket) \<Rightarrow> (bytes \<Rightarrow> 32 word) \<Rightarrow> bool" where
  "gcs_attrs_ok cl b view crc \<longleftrightarrow>
     (\<forall>i s r s'. cl_Attrs cl b i s = (r, s') \<longrightarrow> view s' = view s \<and>
        (case view s i of
           None \<Rightarrow> \<exists>e. r = Inl e \<and> ge_notExist e
         | Some c \<Rightarrow> \<exists>a. r = Inr a \<and> (\<forall>d. c = map B d \<longrightarrow> oa_Size a = int (length d) \<and> oa_CRC32C a = crc d)))"

definition gcs_read_ok :: "'s GCSClient \<Rightarrow> string \<Rightarrow> ('s \<Rightarrow> gcs_bucket) \<Rightarrow> bool" where
  "gcs_read_ok cl b view \<longleftrightarrow>
     (\<forall>i s r s'. cl_NewReader cl b i s = (r, s') \<longrightarrow> view s' = view s \<and>
        (case view s i of None \<Rightarrow> \<exists>e. r = Inl e \<and> ge_notExist e | Some c \<Rightarrow> r = Inr (c, None)))"

definition gcs_update_ok :: "'s GCSClient \<Rightarrow> string \<Rightarrow> ('s \<Rightarrow> gcs_bucket) \<Rightarrow> bool" where
  "gcs_update_ok cl b view \<longleftrightarrow>
     (\<forall>i m s e s'. cl_Update cl b i m s = (e, s') \<longrightarrow> view s' = view s \<and> (view s i \<noteq> None \<longrightarrow> e = None))"

definition gcs_delete_ok :: "'s GCSClient \<Rightarrow> string \<Rightarrow> ('s \<Rightarrow> gcs_bucket) \<Rightarrow> bool" where
  "gcs_delete_ok cl b view \<longleftrightarrow>
     (\<forall>i s e s'. cl_Delete cl b i s = (e, s') \<longrightarrow> view s' = (view s)(i := None) \<and> (view s i \<noteq> None \<longrightarrow> e = None))"

definition gcs_write_ok :: "'s GCSClient \<Rightarrow> string \<Rightarrow> ('s \<Rightarrow> gcs_bucket) \<Rightarrow> bool" where
  "gcs_write_ok cl b view \<longleftrightarrow>
     (\<forall>i c s e s'. cl_Write cl b i c s = (e, s') \<longrightarrow> e = None \<and> view s' = view s) \<and>
     (\<forall>i c s e s'. cl_Close cl b i c s = (e, s') \<longrightarrow> e = None \<and> view s' = (view s)(i \<mapsto> c))"

text \<open>At most 32 objects can be composed.\<close>

definition gcs_compose_ok :: "'s GCSClient \<Rightarrow> string \<Rightarrow> ('s \<Rightarrow> gcs_bucket) \<Rightarrow> bool" where
  "gcs_compose_ok cl b view \<longleftrightarrow>
     (\<forall>srcs ds dst t s e s'. cl_Compose cl b srcs dst t s = (e, s') \<longrightarrow>
        srcs \<noteq> [] \<longrightarrow> length srcs \<le> 32 \<longrightarrow> list_all2 (\<lambda>i d. view s i = Some (map B d)) srcs ds \<longrightarrow>
        e = None \<and> view s' = (view s)(dst \<mapsto> map B (concat ds)))"

definition gcs_list_ok :: "'s GCSClient \<Rightarrow> string \<Rightarrow> ('s \<Rightarrow> gcs_bucket) \<Rightarrow> bool" where
  "gcs_list_ok cl b view \<longleftrightarrow>
     (\<forall>p s names stop s'. cl_Objects cl b p s = ((names, stop), s') \<longrightarrow>
        stop = None \<and> view s' = view s \<and> distinct names \<and> set names = {n. prefix p n \<and> view s n \<noteq> None})"

text \<open>The checksum of a concatenation is computed from those of its parts.\<close>

definition gcs_crc_ok :: "'s GCSClient \<Rightarrow> (bytes \<Rightarrow> 32 word) \<Rightarrow> bool" where
  "gcs_crc_ok cl crc \<longleftrightarrow> (\<forall>a c. CRC32Combine cl (crc a) (crc c) (int (length c)) = crc (a @ c))"

definition gcs_reliable :: "'s GCSClient \<Rightarrow> string \<Rightarrow> ('s \<Rightarrow> gcs_bucket) \<Rightarrow> bool" where
  "gcs_reliable cl b view \<longleftrightarrow>
     gcs_read_ok cl b view \<and> gcs_update_ok cl b view \<and> gcs_delete_ok cl b view \<and> gcs_write_ok cl b view \<and>
     gcs_compose_ok cl b view \<and> gcs_list_ok cl b view \<and>
     (\<exists>crc. gcs_attrs_ok cl b view crc \<and> gcs_crc_ok cl crc)"

lemma gcs_reliableD:
  assumes "gcs_reliable cl b view"
  shows "gcs_read_ok cl b view" "gcs_update_ok cl b view" "gcs_delete_ok cl b view" "gcs_write_ok cl b view"
    "gcs_compose_ok cl b view" "gcs_list_ok cl b view"
  using assms by (simp_all add: gcs_reliable_def)

section \<open>The names of chunks\<close>

definition part_name :: "string \<Rightarrow> nat \<Rightarrow> string" where
  "part_name key i = key @ ''_'' @ FormatInt (int i)"

text \<open>
  The key of an upload, as identifiers made by \<^verbatim>\<open>uid.Uid\<close> have it: no underscore behind the last
  slash, and it does not look like an information object.
\<close>

definition good_key :: "string \<Rightarrow> bool" where
  "good_key key \<longleftrightarrow> CHR ''_'' \<notin> set (last (Split CHR ''/'' key)) \<and> \<not> HasSuffix key ''info''"

lemma digits_safe: "x \<in> set (FormatInt (int n)) \<Longrightarrow> is_digit x"
  using format_nat_digits [of n] by (auto simp: FormatInt_def list_all_iff)

lemma FormatInt_nonempty [simp]: "FormatInt (int n) \<noteq> []"
  using format_nat_digits [of n] by (simp add: FormatInt_def)

lemma FormatInt_no [simp]:
  "CHR ''_'' \<notin> set (FormatInt (int n))" "CHR ''/'' \<notin> set (FormatInt (int n))" "CHR ''.'' \<notin> set (FormatInt (int n))"
  "last (FormatInt (int n)) \<noteq> CHR ''o''"
proof -
  have no: "\<not> is_digit CHR ''_''" "\<not> is_digit CHR ''/''" "\<not> is_digit CHR ''.''" "\<not> is_digit CHR ''o''"
    by (simp_all add: is_digit_def in_range_def)
  show "CHR ''_'' \<notin> set (FormatInt (int n))" "CHR ''/'' \<notin> set (FormatInt (int n))" "CHR ''.'' \<notin> set (FormatInt (int n))"
    using no digits_safe by blast+
  show "last (FormatInt (int n)) \<noteq> CHR ''o''" using no(4) digits_safe last_in_set [OF FormatInt_nonempty] by metis
qed

lemma format_nat_inj: "format_nat m = format_nat n \<Longrightarrow> m = n"
  by (metis digits_value_format of_nat_eq_iff)

lemma FormatInt_inj [simp]: "FormatInt (int m) = FormatInt (int n) \<longleftrightarrow> m = n"
  by (auto simp: FormatInt_def dest: format_nat_inj)

lemma part_name_inj [simp]: "part_name key i = part_name key j \<longleftrightarrow> i = j"
  by (simp add: part_name_def)

lemma Split_append_safe: "c \<notin> set t \<Longrightarrow> Split c (key @ t) = butlast (Split c key) @ [last (Split c key) @ t]"
proof (induction key)
  case (Cons x key)
  obtain y ys where ys: "Split c key = y # ys" by (metis Split_not_Nil list.exhaust)
  with Cons show ?case by (cases ys) simp_all
qed (simp add: Split_no_sep)

lemma last_Split_append: "c \<notin> set t \<Longrightarrow> last (Split c (key @ t)) = last (Split c key) @ t"
  by (simp add: Split_append_safe)

lemma no_info_suffix: "t \<noteq> [] \<Longrightarrow> last t \<noteq> CHR ''o'' \<Longrightarrow> \<not> HasSuffix (s @ t) ''info''"
proof
  assume "t \<noteq> []" "last t \<noteq> CHR ''o''" "HasSuffix (s @ t) ''info''"
  then obtain r where "s @ t = r @ ''info''" by (auto simp: HasSuffix_def suffix_def)
  then have "last (s @ t) = CHR ''o''" by simp
  with \<open>t \<noteq> []\<close> \<open>last t \<noteq> CHR ''o''\<close> show False by simp
qed

lemma part_name_not_info: "\<not> HasSuffix (part_name key i) ''info''"
  unfolding part_name_def by (rule no_info_suffix) simp_all

lemma Split_part_name:
  assumes "CHR ''_'' \<notin> set (last (Split CHR ''/'' key))"
  shows "Split CHR ''_'' (last (Split CHR ''/'' (part_name key i))) = [last (Split CHR ''/'' key), FormatInt (int i)]"
proof -
  have "last (Split CHR ''/'' (part_name key i)) = last (Split CHR ''/'' key) @ CHR ''_'' # FormatInt (int i)"
    unfolding part_name_def by (subst last_Split_append) simp_all
  with assms show ?thesis by (simp add: Split_append_sep Split_no_sep)
qed

lemma Split_tmp_name:
  assumes "CHR ''_'' \<notin> set (last (Split CHR ''/'' dst))"
  shows "length (Split CHR ''_'' (last (Split CHR ''/'' (tmp_name dst lvl i)))) = 4"
proof -
  have "last (Split CHR ''/'' (tmp_name dst lvl i)) =
      last (Split CHR ''/'' dst) @ CHR ''_'' # ''tmp'' @ CHR ''_'' # FormatInt (int lvl) @ CHR ''_'' # FormatInt (int i)"
    unfolding tmp_name_def by (subst last_Split_append) simp_all
  moreover have "Split CHR ''_'' (''tmp'' @ CHR ''_'' # r) = ''tmp'' # Split CHR ''_'' r" for r
    by (rule Split_append_sep) simp
  ultimately show ?thesis using assms by (simp add: Split_append_sep Split_no_sep del: append_Cons)
qed

lemma tmp_name_not_info: "\<not> HasSuffix (tmp_name dst lvl i) ''info''"
  unfolding tmp_name_def by (rule no_info_suffix) simp_all

lemma tmp_name_inj [simp]: "tmp_name dst l i = tmp_name dst l' i' \<longleftrightarrow> l = l' \<and> i = i'"
proof
  assume "tmp_name dst l i = tmp_name dst l' i'"
  then have "FormatInt (int l) @ CHR ''_'' # FormatInt (int i) = FormatInt (int l') @ CHR ''_'' # FormatInt (int i')"
    by (simp add: tmp_name_def)
  then have "Split CHR ''_'' (FormatInt (int l) @ CHR ''_'' # FormatInt (int i)) = Split CHR ''_'' (FormatInt (int l') @ CHR ''_'' # FormatInt (int i'))"
    by simp
  then show "l = l' \<and> i = i'" by (simp add: Split_append_sep Split_no_sep)
qed simp

section \<open>The chunks in their order\<close>

text \<open>A list of names in which the chunks with indices in \<open>D\<close> are at their places.\<close>

definition placed :: "string \<Rightarrow> nat set \<Rightarrow> string list \<Rightarrow> bool" where
  "placed key D acc \<longleftrightarrow> (\<forall>i \<in> D. i < length acc) \<and> (acc \<noteq> [] \<longrightarrow> length acc - 1 \<in> D) \<and>
     (\<forall>i < length acc. acc ! i = (if i \<in> D then part_name key i else []))"

lemma placed_Nil: "placed key {} []"
  by (simp add: placed_def)

lemma placed_put:
  assumes "placed key D acc"
  shows "placed key (insert i D) (put_name i (part_name key i) acc)"
proof (cases "length acc \<le> i")
  case True
  let ?acc = "acc @ replicate (i - length acc + 1) []"
  have len: "length ?acc = Suc i" using True by simp
  have nth: "?acc ! j = (if j < length acc then acc ! j else [])" if "j < Suc i" for j
    using that True by (auto simp: nth_append simp del: replicate_Suc)
  have "put_name i (part_name key i) acc = ?acc[i := part_name key i]" using True by (simp add: put_name_def)
  moreover have "placed key (insert i D) (?acc[i := part_name key i])"
    using assms nth True unfolding placed_def length_list_update len
    by (auto simp: nth_list_update len simp del: replicate_Suc)
  ultimately show ?thesis by simp
next
  case False
  with assms show ?thesis
    by (auto simp: placed_def put_name_def Let_def nth_list_update)
qed

lemma placed_all:
  assumes "placed key {0..<n} acc"
  shows "acc = map (part_name key) [0..<n]"
proof -
  have "length acc = n"
  proof (cases n)
    case 0
    with assms show ?thesis by (auto simp: placed_def)
  next
    case (Suc m)
    then have "m < length acc" "acc \<noteq> []" using assms by (auto simp: placed_def)
    moreover from this have "length acc - 1 < n" using assms by (auto simp: placed_def)
    ultimately show ?thesis using Suc by linarith
  qed
  with assms show ?thesis by (intro nth_equalityI) (auto simp: placed_def)
qed

lemma filter_loop_placed:
  assumes "CHR ''_'' \<notin> set (last (Split CHR ''/'' key))" "distinct ns"
    "\<forall>n \<in> set ns. HasSuffix n ''info'' \<or> (\<exists>i. int i \<le> MaxInt64 \<and> n = part_name key i)" "placed key D acc"
  shows "\<exists>acc'. filter_loop ns None acc = Inr acc' \<and> placed key (D \<union> {i. part_name key i \<in> set ns}) acc'"
  using assms(2-)
proof (induction ns arbitrary: D acc)
  case (Cons n ns)
  show ?case
  proof (cases "HasSuffix n ''info''")
    case True
    then have "{i. part_name key i \<in> set (n # ns)} = {i. part_name key i \<in> set ns}"
      using part_name_not_info [of key] by auto
    with Cons True show ?thesis by simp
  next
    case False
    with Cons.prems(2) obtain i where i: "int i \<le> MaxInt64" "n = part_name key i" by auto
    have parse: "ParseInt (FormatInt (int i)) = Some (int i)" using i(1) by (intro ParseInt_FormatInt) (simp add: int64_defs)
    have step: "filter_loop (n # ns) None acc = filter_loop ns None (put_name i n acc)"
      using False i(2) parse by (simp add: Split_part_name [OF assms(1)])
    have "{i. part_name key i \<in> set (n # ns)} = insert i {i. part_name key i \<in> set ns}" using i(2) by auto
    with Cons.IH [OF _ _ placed_put [OF Cons.prems(3), of i]] Cons.prems(1,2) i(2) step show ?thesis by auto
  qed
qed simp

lemma filter_loop_parts:
  assumes "CHR ''_'' \<notin> set (last (Split CHR ''/'' key))" "distinct ns" "int n \<le> MaxInt64"
    "{x \<in> set ns. \<not> HasSuffix x ''info''} = part_name key ` {0..<n}"
  shows "filter_loop ns None [] = Inr (map (part_name key) [0..<n])"
proof -
  have names: "HasSuffix x ''info'' \<or> (\<exists>i. int i \<le> MaxInt64 \<and> x = part_name key i)" if "x \<in> set ns" for x
  proof (cases "HasSuffix x ''info''")
    case False
    with that assms(4) have "x \<in> part_name key ` {0..<n}" by blast
    with assms(3) show ?thesis by auto
  qed simp
  have "part_name key i \<in> set ns \<longleftrightarrow> part_name key i \<in> part_name key ` {0..<n}" for i
    using part_name_not_info [of key i] by (subst assms(4) [symmetric]) simp
  then have "{i. part_name key i \<in> set ns} = {0..<n}" by auto
  with filter_loop_placed [OF assms(1,2) _ placed_Nil] names show ?thesis by (auto dest: placed_all)
qed

section \<open>Composition\<close>

text \<open>The objects \<open>srcs\<close> have the bytes \<open>ds\<close>.\<close>

definition holds_bytes :: "gcs_bucket \<Rightarrow> string list \<Rightarrow> bytes list \<Rightarrow> bool" where
  "holds_bytes v srcs ds \<longleftrightarrow> list_all2 (\<lambda>i d. v i = Some (map B d)) srcs ds"

lemma holds_bytes_simps [simp]:
  "holds_bytes v [] ds \<longleftrightarrow> ds = []"
  "holds_bytes v (i # srcs) ds \<longleftrightarrow> (\<exists>d ds'. ds = d # ds' \<and> v i = Some (map B d) \<and> holds_bytes v srcs ds')"
  by (auto simp: holds_bytes_def list_all2_Cons1)

lemma holds_bytes_length: "holds_bytes v srcs ds \<Longrightarrow> length ds = length srcs"
  by (simp add: holds_bytes_def list_all2_lengthD)

lemma holds_bytes_slice: "holds_bytes v srcs ds \<Longrightarrow> holds_bytes v (take m (drop n srcs)) (take m (drop n ds))"
  by (simp add: holds_bytes_def list_all2_takeI list_all2_dropI)

lemma holds_bytes_nth: "holds_bytes v srcs ds \<longleftrightarrow> length srcs = length ds \<and> (\<forall>k < length srcs. v (srcs ! k) = Some (map B (ds ! k)))"
  by (auto simp: holds_bytes_def list_all2_conv_all_nth)

lemma holds_bytes_other: "holds_bytes v srcs ds \<Longrightarrow> x \<notin> set srcs \<Longrightarrow> holds_bytes (v(x := y)) srcs ds"
  by (auto simp: holds_bytes_nth in_set_conv_nth)

lemma attrs_of:
  assumes "gcs_attrs_ok cl b view crc" "cl_Attrs cl b i s = (r, s')" "view s i = Some (map B d)"
  shows "\<exists>a. r = Inr a \<and> oa_Size a = int (length d) \<and> oa_CRC32C a = crc d \<and> view s' = view s"
  using assms(1) [unfolded gcs_attrs_ok_def, rule_format, OF assms(2)] assms(3) by auto

lemma source_crc_ok:
  assumes "gcs_attrs_ok cl b view crc" "gcs_crc_ok cl crc"
    "source_crc cl b (Some (crc d0)) srcs s = (r, s')" "holds_bytes (view s) srcs ds"
  shows "r = Inr (crc (d0 @ concat ds)) \<and> view s' = view s"
  using assms(3,4)
proof (induction srcs arbitrary: d0 s ds)
  case (Cons i srcs)
  from Cons.prems(2) obtain d ds' where ds: "ds = d # ds'" "view s i = Some (map B d)" "holds_bytes (view s) srcs ds'" by auto
  obtain r1 s1 where a: "cl_Attrs cl b i s = (r1, s1)" by (metis surj_pair)
  from attrs_of [OF assms(1) a ds(2)] obtain at where
    at: "r1 = Inr at" "oa_Size at = int (length d)" "oa_CRC32C at = crc d" "view s1 = view s" by auto
  have "CRC32Combine cl (crc d0) (crc d) (int (length d)) = crc (d0 @ d)" using assms(2) by (simp add: gcs_crc_ok_def)
  with Cons.prems(1) a at have "source_crc cl b (Some (crc (d0 @ d))) srcs s1 = (r, s')" by (simp add: gcs_GetObjectAttrs_def)
  from Cons.IH [OF this] ds(1,3) at(4) show ?case by simp
qed simp

lemma gcs_compose_run:
  assumes rel: "gcs_reliable cl b view" and len: "srcs \<noteq> []" "length srcs \<le> 32"
    and src: "holds_bytes (view s) srcs ds" and run: "gcs_compose cl b srcs dst s = (e, s')"
  shows "e = None \<and> view s' = (view s)(dst \<mapsto> map B (concat ds))"
proof -
  from rel obtain crc where crc: "gcs_attrs_ok cl b view crc" "gcs_crc_ok cl crc" by (auto simp: gcs_reliable_def)
  from len(1) obtain i rest where srcs: "srcs = i # rest" by (cases srcs) auto
  with src obtain d ds' where ds: "ds = d # ds'" "view s i = Some (map B d)" "holds_bytes (view s) rest ds'" by auto
  obtain r1 s1 where a1: "cl_Attrs cl b i s = (r1, s1)" by (metis surj_pair)
  from attrs_of [OF crc(1) a1 ds(2)] obtain at where at: "r1 = Inr at" "oa_CRC32C at = crc d" "view s1 = view s" by auto
  obtain r2 s2 where sc: "source_crc cl b (Some (crc d)) rest s1 = (r2, s2)" by (metis surj_pair)
  from source_crc_ok [OF crc sc] ds(1,3) at(3) have r2: "r2 = Inr (crc (concat ds))" "view s2 = view s" by simp_all
  obtain r3 s3 where a3: "cl_Attrs cl b i s2 = (r3, s3)" by (metis surj_pair)
  from attrs_of [OF crc(1) a3] ds(2) r2(2) obtain at3 where at3: "r3 = Inr at3" "view s3 = view s" by metis
  obtain e4 s4 where c: "cl_Compose cl b srcs dst (oa_ContentType at3) s3 = (e4, s4)" by (metis surj_pair)
  from gcs_reliableD(5) [OF rel, unfolded gcs_compose_ok_def, rule_format, OF c len] src at3(2)
  have e4: "e4 = None" "view s4 = (view s)(dst \<mapsto> map B (concat ds))" by (auto simp: holds_bytes_def)
  obtain r5 s5 where a5: "cl_Attrs cl b dst s4 = (r5, s5)" by (metis surj_pair)
  from attrs_of [OF crc(1) a5, of "concat ds"] e4(2) obtain at5 where at5: "r5 = Inr at5" "oa_CRC32C at5 = crc (concat ds)" "view s5 = view s4"
    by auto
  have "compose_tries COMPOSE_RETRIES cl b srcs dst (oa_ContentType at3) (crc (concat ds)) s3 = (None, s5)"
    unfolding COMPOSE_RETRIES_def numeral_3_eq_3 using c e4 a5 at5 by (simp add: gcs_ComposeFrom_def)
  with run srcs a1 at sc r2 a3 at3 have "e = None \<and> s' = s5" by (simp add: gcs_compose_def gcs_GetObjectAttrs_def)
  with e4(2) at5(3) show ?thesis by simp
qed

lemma delete_names_run:
  assumes "gcs_reliable cl b view" "delete_names cl b names s = (e, s')" "distinct names" "\<forall>n \<in> set names. view s n \<noteq> None"
  shows "e = None \<and> view s' = (\<lambda>n. if n \<in> set names then None else view s n)"
  using assms(2-)
proof (induction names arbitrary: s)
  case (Cons n names)
  obtain e1 s1 where d: "cl_Delete cl b n s = (e1, s1)" by (metis surj_pair)
  from gcs_reliableD(3) [OF assms(1), unfolded gcs_delete_ok_def, rule_format, OF d] Cons.prems(3)
  have e1: "e1 = None" "view s1 = (view s)(n := None)" by auto
  with Cons.prems(1) d have "delete_names cl b names s1 = (e, s')" by (simp add: gcs_DeleteObject_def)
  moreover have "\<forall>m \<in> set names. view s1 m \<noteq> None" using Cons.prems(2,3) e1(2) by auto
  ultimately have "e = None \<and> view s' = (\<lambda>m. if m \<in> set names then None else view s1 m)" using Cons.IH Cons.prems(2) by simp
  with e1(2) show ?case by (auto simp: fun_eq_iff)
qed simp

text \<open>Filtering by a prefix runs the loop over the objects in some order.\<close>

lemma gcs_FilterObjects_run:
  assumes "gcs_reliable cl b view" "gcs_FilterObjects cl b p s = (r, s')"
  obtains names where "r = filter_loop names None []" "distinct names" "set names = {n. prefix p n \<and> view s n \<noteq> None}"
    "view s' = view s"
proof -
  obtain names stop s1 where o: "cl_Objects cl b p s = ((names, stop), s1)" by (metis surj_pair)
  from gcs_reliableD(6) [OF assms(1), unfolded gcs_list_ok_def, rule_format, OF o] assms(2) o that show ?thesis
    by (auto simp: gcs_FilterObjects_def)
qed

lemma filter_loop_tmp:
  assumes "CHR ''_'' \<notin> set (last (Split CHR ''/'' dst))" "\<forall>n \<in> set ns. \<exists>l i. n = tmp_name dst l i"
  shows "filter_loop ns None acc = Inr (acc @ ns)"
  using assms(2)
proof (induction ns arbitrary: acc)
  case (Cons n ns)
  then obtain l i where "n = tmp_name dst l i" by auto
  with Cons Split_tmp_name [OF assms(1), of l i] tmp_name_not_info [of dst l i] show ?case by (simp add: Let_def)
qed simp

text \<open>The temporary objects are removed.\<close>

lemma delete_tmp_run:
  assumes "gcs_reliable cl b view" "CHR ''_'' \<notin> set (last (Split CHR ''/'' dst))"
    "\<forall>n. prefix (dst @ ''_tmp'') n \<and> view s n \<noteq> None \<longrightarrow> (\<exists>l i. n = tmp_name dst l i)"
    "gcs_DeleteObjectsWithFilter cl b (dst @ ''_tmp'') s = (e, s')"
  shows "e = None \<and> view s' = (\<lambda>n. if prefix (dst @ ''_tmp'') n then None else view s n)"
proof -
  obtain r s1 where f: "gcs_FilterObjects cl b (dst @ ''_tmp'') s = (r, s1)" by (metis surj_pair)
  from gcs_FilterObjects_run [OF assms(1) f] obtain names where
    names: "r = filter_loop names None []" "distinct names" "set names = {n. prefix (dst @ ''_tmp'') n \<and> view s n \<noteq> None}"
    "view s1 = view s" .
  have "r = Inr names" using filter_loop_tmp [OF assms(2), of names "[]"] assms(3) names(1,3) by auto
  with assms(4) f have "delete_names cl b names s1 = (e, s')" by (simp add: gcs_DeleteObjectsWithFilter_def)
  from delete_names_run [OF assms(1) this names(2)] names(3,4) show ?thesis by (auto simp: fun_eq_iff)
qed

text \<open>The groups are the consecutive slices of 32 sources.\<close>

abbreviation group :: "nat \<Rightarrow> 'a list \<Rightarrow> 'a list" where
  "group i xs \<equiv> take 32 (drop (32 * i) xs)"

lemma src_group_eq:
  assumes "i < tmpSrcLen srcs"
  shows "src_group srcs i = group i srcs" "group i srcs \<noteq> []"
proof -
  have i: "32 * i < length srcs" using assms by (simp add: tmpSrcLen_def MAX_OBJECT_COMPOSITION_def)
  then show "group i srcs \<noteq> []" by simp
  show "src_group srcs i = group i srcs"
  proof (cases "tmpSrcLen srcs - i = 1")
    case True
    then have "length srcs - 32 * i \<le> 32" by (simp add: tmpSrcLen_def MAX_OBJECT_COMPOSITION_def)
    with True show ?thesis by (simp add: src_group_def Let_def MAX_OBJECT_COMPOSITION_def mult.commute)
  next
    case False
    then show ?thesis by (simp add: src_group_def Let_def MAX_OBJECT_COMPOSITION_def mult.commute)
  qed
qed

lemma concat_groups: "concat (map (\<lambda>i. group i xs) [0..<k]) = take (32 * k) xs"
proof (induction k)
  case (Suc k)
  have "take (32 * Suc k) xs = take (32 * k) xs @ take 32 (drop (32 * k) xs)"
    using take_add [of "32 * k" 32 xs] by (simp add: add.commute)
  with Suc show ?case by simp
qed simp

lemma concat_all_groups: "concat (map (\<lambda>i. concat (group i ds)) [0..<(length ds + 31) div 32]) = concat ds"
proof -
  have "length ds \<le> 32 * ((length ds + 31) div 32)" by simp
  then have "concat (map (\<lambda>i. group i ds) [0..<(length ds + 31) div 32]) = ds" unfolding concat_groups by simp
  moreover have "concat (map (\<lambda>i. concat (group i ds)) is) = concat (concat (map (\<lambda>i. group i ds) is))" for "is"
    by (induction "is") simp_all
  ultimately show ?thesis by simp
qed

lemma compose_groups_run:
  assumes rel: "gcs_reliable cl b view" and run: "compose_groups cl b srcs dst lvl is s = (e, s')"
    and srcs: "holds_bytes (view s) srcs ds" and idx: "\<forall>i \<in> set is. i < tmpSrcLen srcs" "distinct is"
    and new: "\<forall>i. tmp_name dst lvl i \<notin> set srcs"
  shows "e = None \<and> (\<forall>i \<in> set is. view s' (tmp_name dst lvl i) = Some (map B (concat (group i ds)))) \<and>
    (\<forall>n. n \<notin> tmp_name dst lvl ` set is \<longrightarrow> view s' n = view s n)"
  using run srcs idx
proof (induction "is" arbitrary: s)
  case (Cons i "is")
  from Cons.prems(3) have i: "i < tmpSrcLen srcs" by simp
  obtain e1 s1 where c: "gcs_compose cl b (src_group srcs i) (tmp_name dst lvl i) s = (e1, s1)" by (metis surj_pair)
  from gcs_compose_run [OF rel _ _ holds_bytes_slice [OF Cons.prems(2)] c [unfolded src_group_eq(1) [OF i]]] src_group_eq(2) [OF i]
  have e1: "e1 = None" "view s1 = (view s)(tmp_name dst lvl i \<mapsto> map B (concat (group i ds)))" by auto
  with Cons.prems(1) c have run1: "compose_groups cl b srcs dst lvl is s1 = (e, s')" by simp
  have "holds_bytes (view s1) srcs ds" using holds_bytes_other [OF Cons.prems(2)] new e1(2) by simp
  from Cons.IH [OF run1 this] Cons.prems(3,4) have
    ih: "e = None" "\<forall>j \<in> set is. view s' (tmp_name dst lvl j) = Some (map B (concat (group j ds)))"
      "\<forall>n. n \<notin> tmp_name dst lvl ` set is \<longrightarrow> view s' n = view s1 n" by auto
  have "tmp_name dst lvl i \<notin> tmp_name dst lvl ` set is" using Cons.prems(4) by auto
  with ih e1(2) show ?case by auto
qed simp

text \<open>
  Any number of objects is composed: the destination gets their concatenation, no temporary
  object is left, and nothing else has changed.
\<close>

lemma recursiveCompose_run:
  assumes rel: "gcs_reliable cl b view" and dst: "CHR ''_'' \<notin> set (last (Split CHR ''/'' dst))"
    and run: "recursiveCompose cl b srcs dst lvl s = (e, s')" and srcs: "srcs \<noteq> []" "holds_bytes (view s) srcs ds"
    and tmp: "\<forall>n. prefix (dst @ ''_tmp'') n \<and> view s n \<noteq> None \<longrightarrow> (\<exists>l i. l < lvl \<and> n = tmp_name dst l i)"
  shows "e = None \<and> view s' = (\<lambda>n. if n = dst then Some (map B (concat ds)) else if prefix (dst @ ''_tmp'') n then None else view s n)"
  using run srcs tmp
proof (induction "length srcs" arbitrary: srcs ds lvl s rule: less_induct)
  case less
  show ?case
  proof (cases "length srcs \<le> 32")
    case True
    obtain e1 s1 where c: "gcs_compose cl b srcs dst s = (e1, s1)" by (metis surj_pair)
    from gcs_compose_run [OF rel less.prems(2) True less.prems(3) c] have e1: "e1 = None" "view s1 = (view s)(dst \<mapsto> map B (concat ds))" by auto
    with less.prems(1) c True have del: "gcs_DeleteObjectsWithFilter cl b (dst @ ''_tmp'') s1 = (e, s')"
      by (simp add: recursiveCompose.simps [of cl b srcs] MAX_OBJECT_COMPOSITION_def)
    have nd: "\<not> prefix (dst @ ''_tmp'') dst" by (auto dest: prefix_length_le)
    have "\<forall>n. prefix (dst @ ''_tmp'') n \<and> view s1 n \<noteq> None \<longrightarrow> (\<exists>l i. n = tmp_name dst l i)"
      using less.prems(4) e1(2) nd by auto
    from delete_tmp_run [OF rel dst this del] e1(2) nd show ?thesis by (auto simp: fun_eq_iff)
  next
    case False
    let ?k = "tmpSrcLen srcs" and ?tmps = "map (tmp_name dst lvl) [0..<tmpSrcLen srcs]"
    have len: "length ds = length srcs" using holds_bytes_length [OF less.prems(3)] .
    have k: "?k = (length ds + 31) div 32" "?k < length srcs" "?k \<noteq> 0"
      using False len by (auto simp: tmpSrcLen_def MAX_OBJECT_COMPOSITION_def)
    obtain e1 s1 where c: "compose_groups cl b srcs dst lvl [0..<?k] s = (e1, s1)" by (metis surj_pair)
    have "tmp_name dst lvl i \<notin> set srcs" for i
    proof
      assume "tmp_name dst lvl i \<in> set srcs"
      then have "view s (tmp_name dst lvl i) \<noteq> None" using less.prems(3) by (auto simp: holds_bytes_nth in_set_conv_nth)
      moreover have "prefix (dst @ ''_tmp'') (tmp_name dst lvl i)" unfolding tmp_name_def by simp
      ultimately show False using less.prems(4) by auto
    qed
    with compose_groups_run [OF rel c less.prems(3)] have
      g: "e1 = None" "\<forall>i < ?k. view s1 (tmp_name dst lvl i) = Some (map B (concat (group i ds)))"
        "\<forall>n. n \<notin> tmp_name dst lvl ` {0..<?k} \<longrightarrow> view s1 n = view s n" by auto
    with less.prems(1) c False have run1: "recursiveCompose cl b ?tmps dst (lvl + 1) s1 = (e, s')"
      by (simp add: recursiveCompose.simps [of cl b srcs] MAX_OBJECT_COMPOSITION_def)
    have h1: "holds_bytes (view s1) ?tmps (map (\<lambda>i. concat (group i ds)) [0..<?k])" using g(2) by (simp add: holds_bytes_nth)
    have tmp1: "\<forall>n. prefix (dst @ ''_tmp'') n \<and> view s1 n \<noteq> None \<longrightarrow> (\<exists>l i. l < lvl + 1 \<and> n = tmp_name dst l i)"
    proof (intro allI impI)
      fix n
      assume n: "prefix (dst @ ''_tmp'') n \<and> view s1 n \<noteq> None"
      show "\<exists>l i. l < lvl + 1 \<and> n = tmp_name dst l i"
      proof (cases "n \<in> tmp_name dst lvl ` {0..<?k}")
        case False
        with n g(3) less.prems(4) show ?thesis by (metis less_Suc_eq Suc_eq_plus1)
      qed auto
    qed
    have "concat (map (\<lambda>i. concat (group i ds)) [0..<?k]) = concat ds" unfolding k(1) by (rule concat_all_groups)
    moreover have "view s1 n = view s n" if "\<not> prefix (dst @ ''_tmp'') n" for n
    proof -
      have "n \<noteq> tmp_name dst lvl i" for i using that by (auto simp: tmp_name_def)
      with g(3) show ?thesis by auto
    qed
    ultimately show ?thesis using less.hyps [OF _ run1 _ h1 tmp1] k by (auto simp: fun_eq_iff)
  qed
qed

end
