(* ===== verification/GCSUpload.thy ===== *)
theory GCSUpload
  imports GCSFacts
begin

text \<open>
  The promise of \<^verbatim>\<open>GCSAPI\<close> to the store as a contract, its interpretation on the service of
  \<^verbatim>\<open>gcsservice.go\<close>, and what the operations of the store do to the uploads in a bucket.
\<close>

section \<open>The contract of the service\<close>

text \<open>The objects with a prefix that are not information objects.\<close>

definition data_objects :: "gcs_bucket \<Rightarrow> string \<Rightarrow> string set" where
  "data_objects v p = {n. prefix p n \<and> v n \<noteq> None \<and> \<not> HasSuffix n ''info''}"

text \<open>The data objects of an upload: its chunks, or the composed object.\<close>

definition chunk_names :: "string \<Rightarrow> string \<Rightarrow> string list \<Rightarrow> bool" where
  "chunk_names key p names \<longleftrightarrow>
     (p = key \<or> p = key @ ''_'') \<and> (\<exists>n. int n \<le> MaxInt64 \<and> names = map (part_name key) [0..<n]) \<or> p = key \<and> names = [key]"

locale gcs_api =
  fixes store :: "'s GCSStore" and view :: "'s \<Rightarrow> gcs_bucket" and ok :: bool
  assumes read_law:
      "ok \<Longrightarrow> ReadObject (gcs_Service store) (gcs_Bucket store) i s = (r, s') \<Longrightarrow> view s' = view s \<and>
         (case view s i of None \<Rightarrow> \<exists>e. r = Inl e \<and> ge_notExist e | Some c \<Rightarrow> r = Inr (c, None))"
    and size_law:
      "ok \<Longrightarrow> GetObjectSize (gcs_Service store) (gcs_Bucket store) i s = (rn, s') \<Longrightarrow> view s i = Some (map B d) \<Longrightarrow>
         view s' = view s \<and> rn = Inr (int (length d))"
    and meta_law:
      "ok \<Longrightarrow> SetObjectMetadata (gcs_Service store) (gcs_Bucket store) i m s = (e, s') \<Longrightarrow> view s i \<noteq> None \<Longrightarrow>
         view s' = view s \<and> e = None"
    and delete_law:
      "ok \<Longrightarrow> DeleteObject (gcs_Service store) (gcs_Bucket store) i s = (e, s') \<Longrightarrow> view s i \<noteq> None \<Longrightarrow>
         view s' = (view s)(i := None) \<and> e = None"
    and write_buffer_law:
      "ok \<Longrightarrow> WriteObject (gcs_Service store) (gcs_Bucket store) i (BufferSource c) s = ((n, e), src, s') \<Longrightarrow>
         view s' = (view s)(i \<mapsto> c) \<and> e = None"
    and write_body_law:
      "ok \<Longrightarrow> WriteObject (gcs_Service store) (gcs_Bucket store) i (BodySource b) s = ((n, e), src, s') \<Longrightarrow>
         fresh_reader b \<Longrightarrow> int (length (reader_data b)) \<le> MaxInt64 \<Longrightarrow>
         view s' = (view s)(i \<mapsto> map B (reader_data b)) \<and> e = None \<and> n = int (length (reader_data b)) \<and>
         (\<exists>b'. src = BodySource b' \<and> br_err b' = reader_err b)"
    and filter_law:
      "ok \<Longrightarrow> FilterObjects (gcs_Service store) (gcs_Bucket store) p s = (rl, s') \<Longrightarrow> good_key key \<Longrightarrow>
         chunk_names key p names \<Longrightarrow> data_objects (view s) p = set names \<Longrightarrow> view s' = view s \<and> rl = Inr names"
    and delete_filter_law:
      "ok \<Longrightarrow> DeleteObjectsWithFilter (gcs_Service store) (gcs_Bucket store) p s = (e, s') \<Longrightarrow> good_key key \<Longrightarrow>
         chunk_names key p names \<Longrightarrow> data_objects (view s) p = set names \<Longrightarrow>
         e = None \<and> view s' = (\<lambda>n. if n \<in> set names then None else view s n)"
    and compose_law:
      "ok \<Longrightarrow> ComposeObjects (gcs_Service store) (gcs_Bucket store) srcs key s = (e, s') \<Longrightarrow> good_key key \<Longrightarrow>
         srcs \<noteq> [] \<Longrightarrow> holds_bytes (view s) srcs ds \<Longrightarrow> (\<And>n. prefix (key @ ''_tmp'') n \<Longrightarrow> view s n = None) \<Longrightarrow>
         e = None \<and> view s' = (view s)(key \<mapsto> map B (concat ds))"

section \<open>The service keeps it\<close>

lemma distinct_part_names: "distinct (map (part_name key) ns) \<longleftrightarrow> distinct ns"
  by (auto simp: distinct_map inj_on_def)

lemma filter_chunk_names:
  assumes "good_key key" "chunk_names key p names" "distinct ns" "{x \<in> set ns. \<not> HasSuffix x ''info''} = set names"
  shows "filter_loop ns None [] = Inr names" "distinct names"
proof -
  from assms(2) consider (parts) n where "int n \<le> MaxInt64" "names = map (part_name key) [0..<n]" | (one) "names = [key]"
    by (auto simp: chunk_names_def)
  then have "filter_loop ns None [] = Inr names \<and> distinct names"
  proof cases
    case parts
    have "set names = part_name key ` {0..<n}" using parts(2) by simp
    with assms(4) have "{x \<in> set ns. \<not> HasSuffix x ''info''} = part_name key ` {0..<n}" by (rule trans)
    from filter_loop_parts [OF _ assms(3) parts(1) this] assms(1) have "filter_loop ns None [] = Inr names"
      unfolding parts(2) good_key_def by blast
    moreover have "distinct names" unfolding parts(2) distinct_part_names by simp
    ultimately show ?thesis ..
  next
    case one
    have "{x \<in> set ns. \<not> HasSuffix x ''info''} = {key} \<Longrightarrow> filter_loop ns None acc = Inr [key]" for acc
    proof (induction ns)
      case (Cons x xs)
      show ?case
      proof (cases "HasSuffix x ''info''")
        case True
        then have "{y \<in> set (x # xs). \<not> HasSuffix y ''info''} = {y \<in> set xs. \<not> HasSuffix y ''info''}" by auto
        with Cons.prems have "{y \<in> set xs. \<not> HasSuffix y ''info''} = {key}" by (simp only:)
        with Cons.IH True show ?thesis by simp
      next
        case False
        then have "x \<in> {y \<in> set (x # xs). \<not> HasSuffix y ''info''}" by simp
        then have "x = key" unfolding Cons.prems by simp
        with assms(1) show ?thesis by (simp add: good_key_def Split_no_sep)
      qed
    qed simp
    with one assms(4) show ?thesis by simp
  qed
  then show "filter_loop ns None [] = Inr names" "distinct names" by auto
qed

lemma FilterObjects_names:
  assumes "gcs_reliable cl b view" "gcs_FilterObjects cl b p s = (r, s')" "good_key key" "chunk_names key p names"
    "data_objects (view s) p = set names"
  shows "view s' = view s \<and> r = Inr names \<and> distinct names"
proof -
  from gcs_FilterObjects_run [OF assms(1,2)] obtain ns where
    ns: "r = filter_loop ns None []" "distinct ns" "set ns = {n. prefix p n \<and> view s n \<noteq> None}" "view s' = view s" .
  have "{x \<in> set ns. \<not> HasSuffix x ''info''} = set names" using assms(5) ns(3) by (auto simp: data_objects_def)
  from filter_chunk_names [OF assms(3,4) ns(2) this] ns show ?thesis by simp
qed

text \<open>Writing to an object appends, and does not fail when the client does not.\<close>

interpretation gcs_writer: reliable_writer "writer_put cl b i" "\<lambda>w d w'. snd w' = snd w @ map B d"
  "\<lambda>w. gcs_write_ok cl b view \<and> view (fst w) = v" for cl :: "'s GCSClient" and b i view v
proof
  show "n \<le> length d \<and> snd s' = snd s @ map B (take n d)" if "writer_put cl b i d s = ((n, e), s')" for d s n e s'
    using that by (auto simp: writer_put_def split: prod.splits option.splits)
  show "\<exists>s'. writer_put cl b i d s = ((length d, None), s') \<and> gcs_write_ok cl b view \<and> view (fst s') = v"
    if "gcs_write_ok cl b view \<and> view (fst s) = v" for d s
  proof -
    obtain x c where s: "s = (x, c)" by (cases s)
    obtain e x' where w: "cl_Write cl b i (map B d) x = (e, x')" by (metis surj_pair)
    from that w s have "e = None" "view x' = v" by (auto simp: gcs_write_ok_def)
    with that w s show ?thesis by (simp add: writer_put_def)
  qed
qed simp_all

lemma gcs_WriteObject_body:
  assumes "gcs_write_ok cl b view" "gcs_WriteObject cl b i (BodySource r) s = ((n, e), src, s')"
    "fresh_reader r" "int (length (reader_data r)) \<le> MaxInt64"
  shows "view s' = (view s)(i \<mapsto> map B (reader_data r)) \<and> e = None \<and> n = int (length (reader_data r)) \<and>
         (\<exists>b'. src = BodySource b' \<and> br_err b' = reader_err r)"
proof -
  obtain m e1 r1 s1 c where cp: "io_Copy (writer_put cl b i) r 0 (s, []) = ((m, e1), r1, s1, c)" by (metis surj_pair)
  from gcs_writer.io_Copy_ok [OF _ cp, where v = "view s" and view = view] assms(1) have e1: "e1 = None" "view s1 = view s" by simp_all
  from gcs_writer.io_Copy_appends [OF assms(3) _ _ cp] assms(4) e1(1)
  have m: "m = int (length (reader_data r))" "c = map B (reader_data r)" "br_err r1 = reader_err r" by auto
  obtain e2 s2 where cl: "cl_Close cl b i c s1 = (e2, s2)" by (metis surj_pair)
  from assms(1) cl have "e2 = None" "view s2 = (view s1)(i \<mapsto> c)" by (auto simp: gcs_write_ok_def)
  with assms(2) cp e1 m cl show ?thesis by (auto simp: gcs_WriteObject_def close_writer_def)
qed

lemma gcs_WriteObject_buffer:
  assumes "gcs_write_ok cl b view" "gcs_WriteObject cl b i (BufferSource c) s = ((n, e), src, s')"
  shows "view s' = (view s)(i \<mapsto> c) \<and> e = None"
proof -
  obtain e1 s1 where w: "cl_Write cl b i c s = (e1, s1)" by (metis surj_pair)
  obtain e2 s2 where cl: "cl_Close cl b i c s1 = (e2, s2)" by (metis surj_pair)
  from assms(1) w cl have "e1 = None" "view s1 = view s" "e2 = None" "view s2 = (view s1)(i \<mapsto> c)" by (auto simp: gcs_write_ok_def)
  with assms(2) w cl show ?thesis by (simp add: gcs_WriteObject_def close_writer_def)
qed

lemma GCSService_fields [simp]:
  "ReadObject (GCSService cl) = gcs_ReadObject cl" "GetObjectSize (GCSService cl) = gcs_GetObjectSize cl"
  "SetObjectMetadata (GCSService cl) = gcs_SetObjectMetadata cl" "DeleteObject (GCSService cl) = gcs_DeleteObject cl"
  "DeleteObjectsWithFilter (GCSService cl) = gcs_DeleteObjectsWithFilter cl" "WriteObject (GCSService cl) = gcs_WriteObject cl"
  "ComposeObjects (GCSService cl) = gcs_ComposeObjects cl" "FilterObjects (GCSService cl) = gcs_FilterObjects cl"
  by (simp_all add: GCSService_def)

text \<open>The store on the service of the repository.\<close>

definition cloud_store :: "'s GCSClient \<Rightarrow> string \<Rightarrow> string \<Rightarrow> 's GCSStore" where
  "cloud_store cl b pre = (gcs_New b (GCSService cl))\<lparr>gcs_ObjectPrefix := pre\<rparr>"

lemma cloud_store_fields [simp]:
  "gcs_Service (cloud_store cl b pre) = GCSService cl" "gcs_Bucket (cloud_store cl b pre) = b"
  by (simp_all add: cloud_store_def gcs_New_def)

interpretation cloud: gcs_api "cloud_store cl b pre" view "gcs_reliable cl b view" for cl :: "'s GCSClient" and b pre view
proof (unfold_locales; (unfold cloud_store_fields GCSService_fields)?)
  show "view s' = view s \<and> (case view s i of None \<Rightarrow> \<exists>e. r = Inl e \<and> ge_notExist e | Some c \<Rightarrow> r = Inr (c, None))"
    if "gcs_reliable cl b view" "gcs_ReadObject cl b i s = (r, s')" for i s r s'
    using gcs_reliableD(1) [OF that(1), unfolded gcs_read_ok_def, rule_format] that(2) by (simp add: gcs_ReadObject_def)
  show "view s' = view s \<and> r = Inr (int (length d))"
    if "gcs_reliable cl b view" "gcs_GetObjectSize cl b i s = (r, s')" "view s i = Some (map B d)" for i s r s' d
  proof -
    obtain x y where a: "cl_Attrs cl b i s = (x, y)" by (metis surj_pair)
    from that(1) obtain crc where "gcs_attrs_ok cl b view crc" by (auto simp: gcs_reliable_def)
    from attrs_of [OF this a that(3)] a that(2) show ?thesis by (auto simp: gcs_GetObjectSize_def gcs_GetObjectAttrs_def)
  qed
  show "view s' = view s \<and> e = None"
    if "gcs_reliable cl b view" "gcs_SetObjectMetadata cl b i m s = (e, s')" "view s i \<noteq> None" for i m s e s'
    using gcs_reliableD(2) [OF that(1), unfolded gcs_update_ok_def, rule_format] that(2,3) by (simp add: gcs_SetObjectMetadata_def)
  show "view s' = (view s)(i := None) \<and> e = None"
    if "gcs_reliable cl b view" "gcs_DeleteObject cl b i s = (e, s')" "view s i \<noteq> None" for i s e s'
    using gcs_reliableD(3) [OF that(1), unfolded gcs_delete_ok_def, rule_format] that(2,3) by (simp add: gcs_DeleteObject_def)
  show "view s' = (view s)(i \<mapsto> c) \<and> e = None"
    if "gcs_reliable cl b view" "gcs_WriteObject cl b i (BufferSource c) s = ((n, e), src, s')" for i c s n e src s'
    using gcs_WriteObject_buffer [OF gcs_reliableD(4) [OF that(1)] that(2)] .
  show "view s' = (view s)(i \<mapsto> map B (reader_data r)) \<and> e = None \<and> n = int (length (reader_data r)) \<and>
         (\<exists>b'. src = BodySource b' \<and> br_err b' = reader_err r)"
    if "gcs_reliable cl b view" "gcs_WriteObject cl b i (BodySource r) s = ((n, e), src, s')" "fresh_reader r"
      "int (length (reader_data r)) \<le> MaxInt64" for i r s n e src s'
    using gcs_WriteObject_body [OF gcs_reliableD(4) [OF that(1)] that(2-4)] .
  show "view s' = view s \<and> r = Inr names"
    if "gcs_reliable cl b view" "gcs_FilterObjects cl b p s = (r, s')" "good_key key" "chunk_names key p names"
      "data_objects (view s) p = set names" for p s r s' key names
    using FilterObjects_names [OF that] by simp
  show "e = None \<and> view s' = (\<lambda>n. if n \<in> set names then None else view s n)"
    if "gcs_reliable cl b view" "gcs_DeleteObjectsWithFilter cl b p s = (e, s')" "good_key key" "chunk_names key p names"
      "data_objects (view s) p = set names" for p s e s' key names
  proof -
    obtain r s1 where f: "gcs_FilterObjects cl b p s = (r, s1)" by (metis surj_pair)
    from FilterObjects_names [OF that(1) f that(3-5)] have n: "view s1 = view s" "r = Inr names" "distinct names" by auto
    with that(2) f have del: "delete_names cl b names s1 = (e, s')" by (simp add: gcs_DeleteObjectsWithFilter_def)
    have "\<forall>x \<in> set names. view s1 x \<noteq> None" unfolding that(5) [symmetric] n(1) by (simp add: data_objects_def)
    from delete_names_run [OF that(1) del n(3) this] show ?thesis unfolding n(1) .
  qed
  show "e = None \<and> view s' = (view s)(key \<mapsto> map B (concat ds))"
    if "gcs_reliable cl b view" "gcs_ComposeObjects cl b srcs key s = (e, s')" "good_key key" "srcs \<noteq> []"
      "holds_bytes (view s) srcs ds" "\<And>n. prefix (key @ ''_tmp'') n \<Longrightarrow> view s n = None" for srcs key s e s' ds
  proof -
    have "CHR ''_'' \<notin> set (last (Split CHR ''/'' key))" using that(3) by (simp add: good_key_def)
    from recursiveCompose_run [OF that(1) this that(2) [unfolded gcs_ComposeObjects_def] that(4,5)] that(6) show ?thesis
      by (auto simp: fun_eq_iff)
  qed
qed

section \<open>Uploads in a bucket\<close>

text \<open>
  An upload that has been created and has \<open>chunks\<close>, and one that has been finished. No other
  object has a name that begins with the key, as it is for keys of the same length.
\<close>

definition gcs_open :: "gcs_bucket \<Rightarrow> string \<Rightarrow> FileInfo \<Rightarrow> bytes list \<Rightarrow> bool" where
  "gcs_open v key info chunks \<longleftrightarrow>
     good_key key \<and> int (length chunks) < MaxInt64 \<and> v (key @ ''.info'') = Some [J info] \<and>
     holds_bytes v (map (part_name key) [0..<length chunks]) chunks \<and>
     (\<forall>n. prefix key n \<and> v n \<noteq> None \<longrightarrow> n = key @ ''.info'' \<or> n \<in> part_name key ` {0..<length chunks})"

definition gcs_finished :: "gcs_bucket \<Rightarrow> string \<Rightarrow> FileInfo \<Rightarrow> bytes \<Rightarrow> bool" where
  "gcs_finished v key info data \<longleftrightarrow>
     good_key key \<and> v (key @ ''.info'') = Some [J info] \<and> v key = Some (map B data) \<and>
     (\<forall>n. prefix key n \<and> v n \<noteq> None \<longrightarrow> n = key @ ''.info'' \<or> n = key)"

lemma info_suffix [simp]: "HasSuffix (key @ ''.info'') ''info''"
  by (simp add: HasSuffix_def suffix_def)

lemma part_name_prefix [simp]: "prefix key (part_name key i)" "prefix (key @ ''_'') (part_name key i)"
  by (simp_all add: part_name_def)

lemma part_name_neq [simp]:
  "part_name key i \<noteq> key @ ''.info''" "part_name key i \<noteq> key" "key \<noteq> part_name key i" "key @ ''.info'' \<noteq> part_name key i"
  by (simp_all add: part_name_def)

lemma part_name_not_tmp: "\<not> prefix (key @ ''_tmp'') (part_name key i)"
proof
  assume "prefix (key @ ''_tmp'') (part_name key i)"
  then have "prefix ''tmp'' (FormatInt (int i))" by (simp add: part_name_def)
  then have "CHR ''t'' \<in> set (FormatInt (int i))" by (auto simp: prefix_def)
  from digits_safe [OF this] show False by (simp add: is_digit_def in_range_def)
qed

lemma open_part:
  assumes "gcs_open v key info chunks" "i < length chunks"
  shows "v (part_name key i) = Some (map B (chunks ! i))"
  using assms by (auto simp: gcs_open_def holds_bytes_nth)

lemma open_objects:
  assumes "gcs_open v key info chunks" "p = key \<or> p = key @ ''_''"
  shows "data_objects v p = set (map (part_name key) [0..<length chunks])"
    "chunk_names key p (map (part_name key) [0..<length chunks])"
proof -
  have p: "prefix key n" if "prefix p n" for n using that assms(2) by (auto simp: prefix_def)
  have i: "prefix p (part_name key i)" for i using assms(2) by auto
  show "data_objects v p = set (map (part_name key) [0..<length chunks])"
  proof (intro set_eqI iffI)
    fix n
    assume "n \<in> data_objects v p"
    then have "prefix key n" "v n \<noteq> None" "n \<noteq> key @ ''.info''" using p by (auto simp: data_objects_def)
    with assms(1) show "n \<in> set (map (part_name key) [0..<length chunks])" by (auto simp: gcs_open_def)
  next
    fix n
    assume "n \<in> set (map (part_name key) [0..<length chunks])"
    then obtain k where "k < length chunks" "n = part_name key k" by auto
    with open_part [OF assms(1)] i show "n \<in> data_objects v p" by (auto simp: data_objects_def part_name_not_info)
  qed
  show "chunk_names key p (map (part_name key) [0..<length chunks])"
    using assms by (force simp: chunk_names_def gcs_open_def)
qed

lemma finished_objects:
  assumes "gcs_finished v key info data"
  shows "data_objects v key = set [key]" "chunk_names key key [key]"
proof -
  have "n = key" if "prefix key n" "v n \<noteq> None" "\<not> HasSuffix n ''info''" for n
    using assms that by (auto simp: gcs_finished_def)
  then show "data_objects v key = set [key]" using assms by (auto simp: data_objects_def gcs_finished_def good_key_def)
  show "chunk_names key key [key]" by (simp add: chunk_names_def)
qed

lemma open_chunk:
  assumes "gcs_open v key info chunks" "int (length chunks) + 1 < MaxInt64"
  shows "gcs_open (v(part_name key (length chunks) \<mapsto> map B d)) key info (chunks @ [d])"
proof -
  have "holds_bytes (v(part_name key (length chunks) \<mapsto> map B d)) (map (part_name key) [0..<Suc (length chunks)]) (chunks @ [d])"
    using open_part [OF assms(1)] by (auto simp: holds_bytes_nth nth_append less_Suc_eq simp del: upt_Suc)
  with assms show ?thesis by (auto simp: gcs_open_def less_Suc_eq image_iff simp del: upt_Suc)
qed

lemma open_composed:
  assumes "gcs_open v key info chunks"
  shows "gcs_finished (\<lambda>n. if n \<in> set (map (part_name key) [0..<length chunks]) then None
     else (v(key \<mapsto> map B (concat chunks))) n) key info (concat chunks)"
  using assms by (auto simp: gcs_open_def gcs_finished_def)

lemma max_index_parts: "int n \<le> MaxInt64 \<Longrightarrow> max_index (map (part_name key) [m..<n]) (int m - 1) = Inr (int (max m n) - 1)"
proof (induction "n - m" arbitrary: m)
  case (Suc k)
  then have mn: "m < n" by simp
  have "last (Split CHR ''_'' (part_name key m)) = FormatInt (int m)"
  proof -
    have "Split CHR ''_'' (key @ CHR ''_'' # FormatInt (int m)) = Split CHR ''_'' key @ [FormatInt (int m)]"
    proof (induction key)
      case (Cons x key)
      then show ?case by (cases "Split CHR ''_'' key") auto
    qed (simp add: Split_no_sep)
    then show ?thesis by (simp add: part_name_def)
  qed
  moreover have "ParseInt (FormatInt (int m)) = Some (int m)"
    using Suc.prems mn by (intro ParseInt_FormatInt) (simp add: int64_defs)
  ultimately have "max_index (map (part_name key) [m..<n]) (int m - 1) = max_index (map (part_name key) [Suc m..<n]) (int (Suc m) - 1)"
    using mn by (simp add: upt_conv_Cons)
  moreover have "k = n - Suc m" "max (Suc m) n = max m n" using Suc.hyps(2) mn by auto
  ultimately show ?case using Suc.hyps(1) [of "Suc m"] Suc.prems by (simp only:)
qed simp

section \<open>The operations of the store\<close>

lemma gcallE:
  assumes "gcall f s = (r, s')"
  obtains x where "f (g_remote s) = (r, x)" "s' = s\<lparr>g_remote := x\<rparr>"
  using assms by (auto simp: gcall_def split: prod.splits)

lemma first_error_Nil [simp]: "first_error late [] = None"
  by (cases late) (simp_all add: first_error_def)

context gcs_api
begin

abbreviation key_of :: "string \<Rightarrow> string" where
  "key_of i \<equiv> gcs_keyWithPrefix store i"

lemma sum_sizes_run:
  assumes ok "sum_sizes store names offset [] s = ((n, errs), s')" "holds_bytes (view (g_remote s)) names ds"
    "0 \<le> offset" "offset + int (length (concat ds)) \<le> MaxInt64"
  shows "n = offset + int (length (concat ds)) \<and> errs = [] \<and> view (g_remote s') = view (g_remote s) \<and>
    g_machine s' = g_machine s \<and> lateErr s' = lateErr s"
  using assms(2-)
proof (induction names arbitrary: offset s ds)
  case (Cons i names)
  from Cons.prems(2) obtain d ds' where ds: "ds = d # ds'" "view (g_remote s) i = Some (map B d)" "holds_bytes (view (g_remote s)) names ds'" by auto
  obtain r s1 where c: "gcall (GetObjectSize (gcs_Service store) (gcs_Bucket store) i) s = (r, s1)" by (metis surj_pair)
  then obtain x where x: "GetObjectSize (gcs_Service store) (gcs_Bucket store) i (g_remote s) = (r, x)" "s1 = s\<lparr>g_remote := x\<rparr>" by (rule gcallE)
  from size_law [OF assms(1) x(1) ds(2)] have r: "view x = view (g_remote s)" "r = Inr (int (length d))" by auto
  have "add64 offset (int (length d)) = offset + int (length d)" using Cons.prems(3,4) ds(1) by (intro add64_id) (auto simp: int64_defs)
  with Cons.prems(1) c r(2) have "sum_sizes store names (offset + int (length d)) [] s1 = ((n, errs), s')" by simp
  from Cons.IH [OF this] ds x(2) r(1) Cons.prems(3,4) show ?case by simp
qed simp

lemma GetInfo_run:
  assumes ok "gcs_GetInfo store u s = (r, u', s')" "view (g_remote s) (key_of (gcs_id u) @ ''.info'') = Some [J info]"
    "good_key (key_of (gcs_id u))" "chunk_names (key_of (gcs_id u)) (key_of (gcs_id u)) names"
    "data_objects (view (g_remote s)) (key_of (gcs_id u)) = set names" "holds_bytes (view (g_remote s)) names ds"
    "int (length (concat ds)) \<le> MaxInt64"
  shows "r = Inr (info\<lparr>Offset := int (length (concat ds))\<rparr>) \<and> u' = u \<and> view (g_remote s') = view (g_remote s) \<and>
    g_machine s' = g_machine s \<and> lateErr s' = lateErr s"
proof -
  let ?k = "key_of (gcs_id u)"
  obtain r1 s1 where c1: "gcall (ReadObject (gcs_Service store) (gcs_Bucket store) (?k @ ''.info'')) s = (r1, s1)" by (metis surj_pair)
  then obtain x where x: "ReadObject (gcs_Service store) (gcs_Bucket store) (?k @ ''.info'') (g_remote s) = (r1, x)" "s1 = s\<lparr>g_remote := x\<rparr>"
    by (rule gcallE)
  from read_law [OF assms(1) x(1)] assms(3) have r1: "view x = view (g_remote s)" "r1 = Inr ([J info], None)" by auto
  obtain r2 s2 where c2: "gcall (FilterObjects (gcs_Service store) (gcs_Bucket store) ?k) s1 = (r2, s2)" by (metis surj_pair)
  then obtain y where y: "FilterObjects (gcs_Service store) (gcs_Bucket store) ?k x = (r2, y)" "s2 = s\<lparr>g_remote := y\<rparr>"
    using x(2) by (auto elim: gcallE)
  from filter_law [OF assms(1) y(1) assms(4,5)] assms(6) r1(1) have r2: "view y = view (g_remote s)" "r2 = Inr names" by auto
  obtain n errs s3 where c3: "sum_sizes store names 0 [] s2 = ((n, errs), s3)" by (metis surj_pair)
  from sum_sizes_run [OF assms(1) c3] assms(7,8) y(2) r2(1) have
    "n = int (length (concat ds))" "errs = []" "view (g_remote s3) = view (g_remote s)" "g_machine s3 = g_machine s" "lateErr s3 = lateErr s"
    by auto
  with assms(2) c1 r1(2) c2 r2(2) c3 show ?thesis by (simp add: gcs_GetInfo_def)
qed

lemma GetInfo_open:
  assumes ok "gcs_GetInfo store u s = (r, u', s')" "gcs_open (view (g_remote s)) (key_of (gcs_id u)) info chunks"
    "int (length (concat chunks)) \<le> MaxInt64"
  shows "r = Inr (info\<lparr>Offset := int (length (concat chunks))\<rparr>) \<and> u' = u \<and> view (g_remote s') = view (g_remote s) \<and>
    g_machine s' = g_machine s \<and> lateErr s' = lateErr s"
  using GetInfo_run [OF assms(1,2) _ _ open_objects(2,1) [OF assms(3)]] assms(3,4) by (auto simp: gcs_open_def)

lemma GetInfo_finished:
  assumes ok "gcs_GetInfo store u s = (r, u', s')" "gcs_finished (view (g_remote s)) (key_of (gcs_id u)) info data"
    "int (length data) \<le> MaxInt64"
  shows "r = Inr (info\<lparr>Offset := int (length data)\<rparr>) \<and> u' = u \<and> view (g_remote s') = view (g_remote s) \<and>
    g_machine s' = g_machine s \<and> lateErr s' = lateErr s"
  using GetInfo_run [OF assms(1,2) _ _ finished_objects(2,1) [OF assms(3)], of info "[data]"] assms(3,4)
  by (auto simp: gcs_finished_def)

lemma NewUpload_run:
  assumes ok "gcs_NewUpload store info s = (r, s')" "ID info \<noteq> []" "good_key (key_of (ID info))"
    "\<And>n. prefix (key_of (ID info)) n \<Longrightarrow> view (g_remote s) n = None"
  shows "\<exists>info'. r = Inr \<lparr>gcs_id = ID info\<rparr> \<and> gcs_open (view (g_remote s')) (key_of (ID info)) info' [] \<and>
    Size info' = Size info \<and> SizeIsDeferred info' = SizeIsDeferred info \<and>
    (\<forall>n. \<not> prefix (key_of (ID info)) n \<longrightarrow> view (g_remote s') n = view (g_remote s) n)"
proof -
  let ?k = "key_of (ID info)"
  let ?i = "json_norm (info\<lparr>Storage := [(''Type'', ''gcsstore''), (''Bucket'', gcs_Bucket store), (''Key'', ?k)]\<rparr>)"
  obtain n e src x where w: "WriteObject (gcs_Service store) (gcs_Bucket store) (?k @ ''.info'') (BufferSource [J ?i]) (g_remote s) = ((n, e), src, x)"
    by (metis surj_pair)
  from write_buffer_law [OF assms(1) w] have x: "view x = (view (g_remote s))(?k @ ''.info'' \<mapsto> [J ?i])" "e = None" by auto
  have "r = Inr \<lparr>gcs_id = ID info\<rparr>" "s' = s\<lparr>g_remote := x\<rparr>"
    using assms(2,3) w x(2) by (auto simp: gcs_NewUpload_def gcs_writeInfo_def gcall_def json_Marshal_def)
  moreover have "gcs_open (view x) ?k ?i []" using assms(4,5) x(1) by (auto simp: gcs_open_def MaxInt64_def)
  moreover have "Size ?i = Size info" "SizeIsDeferred ?i = SizeIsDeferred info" by (simp_all add: json_norm_def)
  ultimately show ?thesis using x(1) by auto
qed

lemma WriteChunk_run:
  assumes ok "gcs_WriteChunk store u offset b s = ((n, e), b', u', s')" "gcs_open (view (g_remote s)) (key_of (gcs_id u)) info chunks"
    "fresh_reader b" "int (length (reader_data b)) \<le> MaxInt64" "int (length chunks) + 1 < MaxInt64"
  shows "e = None \<and> n = int (length (reader_data b)) \<and> u' = u \<and> br_err b' = reader_err b \<and>
    gcs_open (view (g_remote s')) (key_of (gcs_id u)) info (chunks @ [reader_data b]) \<and>
    view (g_remote s') = (view (g_remote s))(part_name (key_of (gcs_id u)) (length chunks) \<mapsto> map B (reader_data b))"
proof -
  let ?k = "key_of (gcs_id u)" and ?names = "map (part_name (key_of (gcs_id u))) [0..<length chunks]"
  have good: "good_key ?k" using assms(3) by (simp add: gcs_open_def)
  obtain r1 s1 where c: "gcall (FilterObjects (gcs_Service store) (gcs_Bucket store) (?k @ ''_'')) s = (r1, s1)" by (metis surj_pair)
  then obtain x where x: "FilterObjects (gcs_Service store) (gcs_Bucket store) (?k @ ''_'') (g_remote s) = (r1, x)" "s1 = s\<lparr>g_remote := x\<rparr>"
    by (rule gcallE)
  from filter_law [OF assms(1) x(1) good open_objects(2,1) [OF assms(3)]] have r1: "view x = view (g_remote s)" "r1 = Inr ?names" by auto
  have idx: "max_index ?names (-1) = Inr (int (length chunks) - 1)" using max_index_parts [of "length chunks" ?k 0] assms(6) by simp
  have next_idx: "add64 (int (length chunks) - 1) 1 = int (length chunks)"
    using add64_id [of "int (length chunks) - 1" 1] assms(6) by (simp add: int64_defs)
  obtain m e1 src y where w: "WriteObject (gcs_Service store) (gcs_Bucket store) (part_name ?k (length chunks)) (BodySource b) x = ((m, e1), src, y)"
    by (metis surj_pair)
  from write_body_law [OF assms(1) w assms(4,5)] obtain b1 where
    y: "view y = (view x)(part_name ?k (length chunks) \<mapsto> map B (reader_data b))" "e1 = None" "m = int (length (reader_data b))"
      "src = BodySource b1" "br_err b1 = reader_err b" by auto
  from assms(2) c r1(2) idx next_idx w y x(2) have "e = None" "n = m" "b' = b1" "u' = u" "s' = s\<lparr>g_remote := y\<rparr>"
    by (auto simp: gcs_WriteChunk_def part_name_def)
  with y r1(1) open_chunk [OF assms(3,6)] show ?thesis by simp
qed

lemma FinishUpload_run:
  assumes ok "gcs_FinishUpload store u s = (e, u', s')" "gcs_open (view (g_remote s)) (key_of (gcs_id u)) info chunks"
    "chunks \<noteq> []" "int (length (concat chunks)) \<le> MaxInt64"
  shows "e = None \<and> u' = u \<and> gcs_finished (view (g_remote s')) (key_of (gcs_id u)) info (concat chunks) \<and>
    g_machine s' = g_machine s \<and> (\<forall>n. \<not> prefix (key_of (gcs_id u)) n \<longrightarrow> view (g_remote s') n = view (g_remote s) n)"
proof -
  let ?k = "key_of (gcs_id u)" and ?names = "map (part_name (key_of (gcs_id u))) [0..<length chunks]"
  let ?api = "gcs_Service store" and ?b = "gcs_Bucket store"
  let ?v1 = "(view (g_remote s))(?k \<mapsto> map B (concat chunks))"
  have good: "good_key ?k" using assms(3) by (simp add: gcs_open_def)
  note objs = open_objects [OF assms(3), of "?k @ ''_''"]
  obtain r1 s1 where c1: "gcall (FilterObjects ?api ?b (?k @ ''_'')) s = (r1, s1)" by (metis surj_pair)
  then obtain x where x: "FilterObjects ?api ?b (?k @ ''_'') (g_remote s) = (r1, x)" "s1 = s\<lparr>g_remote := x\<rparr>" by (rule gcallE)
  from filter_law [OF assms(1) x(1) good objs(2,1)] have r1: "view x = view (g_remote s)" "r1 = Inr ?names" by auto
  obtain e2 s2 where c2: "gcall (ComposeObjects ?api ?b ?names ?k) s1 = (e2, s2)" by (metis surj_pair)
  then obtain y where y: "ComposeObjects ?api ?b ?names ?k x = (e2, y)" "s2 = s\<lparr>g_remote := y\<rparr>" using x(2) by (auto elim: gcallE)
  have "view x n = None" if "prefix (?k @ ''_tmp'') n" for n
  proof (rule ccontr)
    assume v: "view x n \<noteq> None"
    from that obtain t where n: "n = ?k @ ''_tmp'' @ t" by (auto simp: prefix_def)
    then have "prefix ?k n" by simp
    with v r1(1) assms(3) [unfolded gcs_open_def] have "n = ?k @ ''.info'' \<or> n \<in> part_name ?k ` {0..<length chunks}" by simp
    moreover have "n \<noteq> ?k @ ''.info''" using n by simp
    ultimately obtain i where "n = part_name ?k i" by auto
    with that part_name_not_tmp show False by blast
  qed
  from compose_law [OF assms(1) y(1) good _ _ this] assms(3,4) r1(1) have e2: "e2 = None" "view y = ?v1"
    by (auto simp: gcs_open_def)
  obtain e3 s3 where c3: "gcall (DeleteObjectsWithFilter ?api ?b (?k @ ''_'')) s2 = (e3, s3)" by (metis surj_pair)
  then obtain z where z: "DeleteObjectsWithFilter ?api ?b (?k @ ''_'') y = (e3, z)" "s3 = s\<lparr>g_remote := z\<rparr>" using y(2) by (auto elim: gcallE)
  have "\<not> prefix (?k @ ''_'') ?k" by (auto dest: prefix_length_le)
  then have "data_objects ?v1 (?k @ ''_'') = set ?names" using objs(1) by (auto simp: data_objects_def)
  from delete_filter_law [OF assms(1) z(1) good objs(2)] this e2(2)
  have e3: "e3 = None" "view z = (\<lambda>n. if n \<in> set ?names then None else ?v1 n)" by auto
  have fin: "gcs_finished (view (g_remote s3)) ?k info (concat chunks)" using open_composed [OF assms(3)] z(2) e3(2) by simp
  obtain r4 u4 s4 where c4: "gcs_GetInfo store u s3 = (r4, u4, s4)" by (metis surj_pair)
  from GetInfo_finished [OF assms(1) c4 fin assms(5)] have
    r4: "r4 = Inr (info\<lparr>Offset := int (length (concat chunks))\<rparr>)" "view (g_remote s4) = view z" "g_machine s4 = g_machine s"
    using z(2) by auto
  obtain e5 s5 where c5: "gcall (SetObjectMetadata ?api ?b ?k (MetaData info)) s4 = (e5, s5)" by (metis surj_pair)
  then obtain t where t: "SetObjectMetadata ?api ?b ?k (MetaData info) (g_remote s4) = (e5, t)" "s5 = s4\<lparr>g_remote := t\<rparr>" by (rule gcallE)
  have "view (g_remote s4) ?k \<noteq> None" using fin z(2) unfolding r4(2) by (simp add: gcs_finished_def)
  from meta_law [OF assms(1) t(1) this] have e5: "view t = view z" "e5 = None" unfolding r4(2) by auto
  have "?names \<noteq> []" using assms(4) by simp
  with assms(2) c1 r1(2) c2 e2(1) c3 e3(1) c4 r4(1) c5 e5(2) have res: "e = None" "u' = u" "s' = s5" by (auto simp: gcs_FinishUpload_def Let_def)
  have "view z n = view (g_remote s) n" if "\<not> prefix ?k n" for n using that e3(2) by auto
  with res fin z(2) t(2) e5(1) r4(3) show ?thesis by simp
qed

text \<open>An upload without chunks cannot be finished.\<close>

lemma FinishUpload_empty:
  assumes ok "gcs_FinishUpload store u s = (e, u', s')" "gcs_open (view (g_remote s)) (key_of (gcs_id u)) info []"
  shows "e \<noteq> None \<and> view (g_remote s') = view (g_remote s)"
proof -
  let ?k = "key_of (gcs_id u)"
  have good: "good_key ?k" using assms(3) by (simp add: gcs_open_def)
  obtain r1 s1 where c1: "gcall (FilterObjects (gcs_Service store) (gcs_Bucket store) (?k @ ''_'')) s = (r1, s1)" by (metis surj_pair)
  then obtain x where x: "FilterObjects (gcs_Service store) (gcs_Bucket store) (?k @ ''_'') (g_remote s) = (r1, x)" "s1 = s\<lparr>g_remote := x\<rparr>"
    by (rule gcallE)
  from filter_law [OF assms(1) x(1) good open_objects(2,1) [OF assms(3)]] have "view x = view (g_remote s)" "r1 = Inr []" by auto
  with assms(2) c1 x(2) show ?thesis by (auto simp: gcs_FinishUpload_def Let_def)
qed

lemma GetReader_run:
  assumes ok "gcs_GetReader store u s = (r, u', s')" "gcs_finished (view (g_remote s)) (key_of (gcs_id u)) info data"
  shows "r = Inr (data, None) \<and> view (g_remote s') = view (g_remote s)"
proof -
  let ?k = "key_of (gcs_id u)"
  obtain r1 s1 where c: "gcall (ReadObject (gcs_Service store) (gcs_Bucket store) ?k) s = (r1, s1)" by (metis surj_pair)
  then obtain x where x: "ReadObject (gcs_Service store) (gcs_Bucket store) ?k (g_remote s) = (r1, x)" "s1 = s\<lparr>g_remote := x\<rparr>" by (rule gcallE)
  from read_law [OF assms(1) x(1)] assms(3) have "view x = view (g_remote s)" "r1 = Inr (map B data, None)" by (auto simp: gcs_finished_def)
  with assms(2) c x(2) show ?thesis by (auto simp: gcs_GetReader_def render_def comp_def)
qed

lemma Terminate_run:
  assumes ok "gcs_Terminate store u s = (e, u', s')" "view (g_remote s) (key_of (gcs_id u) @ ''.info'') \<noteq> None"
    "good_key (key_of (gcs_id u))" "chunk_names (key_of (gcs_id u)) (key_of (gcs_id u)) names"
    "data_objects (view (g_remote s)) (key_of (gcs_id u)) = set names"
  shows "e = None \<and> view (g_remote s') = (\<lambda>n. if n = key_of (gcs_id u) @ ''.info'' \<or> n \<in> set names then None else view (g_remote s) n)"
proof -
  let ?k = "key_of (gcs_id u)"
  obtain e1 s1 where c1: "gcall (DeleteObjectsWithFilter (gcs_Service store) (gcs_Bucket store) ?k) s = (e1, s1)" by (metis surj_pair)
  then obtain x where x: "DeleteObjectsWithFilter (gcs_Service store) (gcs_Bucket store) ?k (g_remote s) = (e1, x)" "s1 = s\<lparr>g_remote := x\<rparr>" by (rule gcallE)
  from delete_filter_law [OF assms(1) x(1) assms(4-6)] have e1: "e1 = None" "view x = (\<lambda>n. if n \<in> set names then None else view (g_remote s) n)" by auto
  have "?k @ ''.info'' \<notin> set names" unfolding assms(6) [symmetric] by (simp add: data_objects_def)
  with assms(3) e1(2) have ex: "view x (?k @ ''.info'') \<noteq> None" by simp
  obtain e2 s2 where c2: "gcall (DeleteObject (gcs_Service store) (gcs_Bucket store) (?k @ ''.info'')) s1 = (e2, s2)" by (metis surj_pair)
  then obtain y where y: "DeleteObject (gcs_Service store) (gcs_Bucket store) (?k @ ''.info'') x = (e2, y)" "s2 = s\<lparr>g_remote := y\<rparr>" using x(2) by (auto elim: gcallE)
  from delete_law [OF assms(1) y(1) ex] assms(2) c1 e1 c2 y(2) show ?thesis by (auto simp: gcs_Terminate_def Let_def)
qed

end

end
