(* ===== verification/GCSCloud.thy ===== *)
theory GCSCloud
  imports GCSUpload
begin

text \<open>
  The properties of the Google Cloud store, and a client library in memory for examples; the errors of
  the size requests are in \<open>GCSSizes\<close>.
\<close>

section \<open>A client in memory\<close>

text \<open>
  Requests are numbered and \<open>fails\<close> says which of them fail. Objects are listed in the order in
  which they were made. The checksum is the sum of the bytes.
\<close>

record mem_gcs =
  mg_objs :: "contents gomap"
  mg_clock :: nat

definition mg_failure :: "bool \<Rightarrow> string \<Rightarrow> gcs_error" where
  "mg_failure absent t = \<lparr>ge_notExist = absent, ge_canceled = False, ge_code = None, ge_err = PlainError t\<rparr>"

definition mg_try :: "(nat \<Rightarrow> bool) \<Rightarrow> (mem_gcs \<Rightarrow> (gcs_error + 'a) \<times> mem_gcs) \<Rightarrow> mem_gcs \<Rightarrow> (gcs_error + 'a) \<times> mem_gcs" where
  "mg_try fails f s =
     (let s' = s\<lparr>mg_clock := Suc (mg_clock s)\<rparr>
      in if fails (mg_clock s) then (Inl (mg_failure False ''unavailable''), s') else f s')"

definition mg_do :: "(nat \<Rightarrow> bool) \<Rightarrow> (mem_gcs \<Rightarrow> gcs_error option \<times> mem_gcs) \<Rightarrow> mem_gcs \<Rightarrow> gcs_error option \<times> mem_gcs" where
  "mg_do fails f s =
     (let s' = s\<lparr>mg_clock := Suc (mg_clock s)\<rparr>
      in if fails (mg_clock s) then (Some (mg_failure False ''unavailable''), s') else f s')"

definition mg_find :: "string \<Rightarrow> (contents \<Rightarrow> 'a) \<Rightarrow> mem_gcs \<Rightarrow> (gcs_error + 'a) \<times> mem_gcs" where
  "mg_find i f s = (case map_of (mg_objs s) i of None \<Rightarrow> Inl (mg_failure True ''object not found'') | Some c \<Rightarrow> Inr (f c), s)"

definition sum_crc :: "bytes \<Rightarrow> 32 word" where
  "sum_crc d = of_nat (sum_list (map of_char d))"

definition mg_attrs :: "contents \<Rightarrow> ObjectAttrs" where
  "mg_attrs c = \<lparr>oa_Size = int (length c), oa_CRC32C = (case bytes_of c of None \<Rightarrow> 0 | Some d \<Rightarrow> sum_crc d), oa_ContentType = []\<rparr>"

definition mg_compose :: "string list \<Rightarrow> string \<Rightarrow> mem_gcs \<Rightarrow> gcs_error option \<times> mem_gcs" where
  "mg_compose srcs dst s =
     (if srcs = [] \<or> 32 < length srcs \<or> list_ex (\<lambda>i. map_of (mg_objs s) i = None) srcs
      then (Some (mg_failure False ''bad request''), s)
      else (None, s\<lparr>mg_objs := map_set dst (concat (map (\<lambda>i. the (map_of (mg_objs s) i)) srcs)) (mg_objs s)\<rparr>))"

definition memory_gcs :: "(nat \<Rightarrow> bool) \<Rightarrow> mem_gcs GCSClient" where
  "memory_gcs fails =
     \<lparr>cl_Attrs = (\<lambda>b i. mg_try fails (mg_find i mg_attrs)),
      cl_NewReader = (\<lambda>b i. mg_try fails (mg_find i (\<lambda>c. (c, None)))),
      cl_Update = (\<lambda>b i m. mg_do fails (\<lambda>s. (None, s))),
      cl_Delete = (\<lambda>b i. mg_do fails (\<lambda>s.
         (if map_of (mg_objs s) i = None then Some (mg_failure True ''object not found'') else None,
          s\<lparr>mg_objs := map_del i (mg_objs s)\<rparr>))),
      cl_Write = (\<lambda>b i c s. (None, s)),
      cl_Close = (\<lambda>b i c. mg_do fails (\<lambda>s. (None, s\<lparr>mg_objs := map_set i c (mg_objs s)\<rparr>))),
      cl_Compose = (\<lambda>b srcs dst t. mg_do fails (mg_compose srcs dst)),
      cl_Objects = (\<lambda>b p s. ((remdups (filter (prefix p) (map fst (mg_objs s))), None), s)),
      CRC32Combine = (\<lambda>a c n. a + c)\<rparr>"

definition mg_view :: "mem_gcs \<Rightarrow> gcs_bucket" where
  "mg_view s = map_of (mg_objs s)"

lemmas mg_run = memory_gcs_def mg_try_def mg_do_def mg_find_def mg_view_def mg_failure_def Let_def

lemma mg_compose_view:
  assumes "mg_compose srcs dst s = (e, s')" "srcs \<noteq> []" "length srcs \<le> 32"
    "list_all2 (\<lambda>i d. map_of (mg_objs s) i = Some (map B d)) srcs ds"
  shows "e = None \<and> mg_view s' = (mg_view s)(dst \<mapsto> map B (concat ds))"
proof -
  have "\<not> list_ex (\<lambda>i. map_of (mg_objs s) i = None) srcs"
    "concat (map (\<lambda>i. the (map_of (mg_objs s) i)) srcs) = map B (concat ds)"
    using assms(4) by (induction rule: list_all2_induct) (simp_all add: map_concat)
  with assms(1-3) show ?thesis by (auto simp: mg_compose_def mg_view_def)
qed

lemma mg_view_clock [simp]: "mg_view (s\<lparr>mg_clock := n\<rparr>) = mg_view s"
  by (simp add: mg_view_def)

lemma memory_gcs_reliable: "gcs_reliable (memory_gcs (\<lambda>_. False)) b mg_view"
proof -
  let ?cl = "memory_gcs (\<lambda>_. False)"
  have "gcs_read_ok ?cl b mg_view" by (auto simp: gcs_read_ok_def mg_run split: option.splits)
  moreover have "gcs_update_ok ?cl b mg_view" by (auto simp: gcs_update_ok_def mg_run)
  moreover have "gcs_delete_ok ?cl b mg_view" by (auto simp: gcs_delete_ok_def mg_run map_of_del)
  moreover have "gcs_write_ok ?cl b mg_view" by (auto simp: gcs_write_ok_def mg_run)
  moreover have "gcs_compose_ok ?cl b mg_view"
  proof -
    have "e = None \<and> mg_view s' = (mg_view s)(dst \<mapsto> map B (concat ds))"
      if "cl_Compose ?cl b srcs dst t s = (e, s')" "srcs \<noteq> []" "length srcs \<le> 32"
        "list_all2 (\<lambda>i d. mg_view s i = Some (map B d)) srcs ds" for srcs ds dst t s e s'
      using mg_compose_view [of srcs dst "s\<lparr>mg_clock := Suc (mg_clock s)\<rparr>" e s' ds] that by (simp add: memory_gcs_def mg_do_def mg_view_def)
    then show ?thesis unfolding gcs_compose_ok_def by blast
  qed
  moreover have "gcs_list_ok ?cl b mg_view" by (auto simp: gcs_list_ok_def mg_run map_of_eq_None_iff simp flip: not_None_eq)
  moreover have "gcs_attrs_ok ?cl b mg_view sum_crc" by (auto simp: gcs_attrs_ok_def mg_run mg_attrs_def split: option.splits)
  moreover have "gcs_crc_ok ?cl sum_crc" by (simp add: gcs_crc_ok_def mg_run sum_crc_def)
  ultimately show ?thesis unfolding gcs_reliable_def by blast
qed

section \<open>Chunks and their composition\<close>

text \<open>
  The chunks of an upload are found in the order of their indices, whatever order the
  service lists them in (it lists \<^verbatim>\<open>id_10\<close> before \<^verbatim>\<open>id_2\<close>), and the information object is left out.
\<close>

theorem gcs_chunks_in_order:
  assumes "good_key key" "int n \<le> MaxInt64"
    and "cl_Objects cl b p s = ((names, None), s')" "distinct names"
    and "{x \<in> set names. \<not> HasSuffix x ''info''} = part_name key ` {0..<n}"
  shows "gcs_FilterObjects cl b p s = (Inr (map (part_name key) [0..<n]), s')"
proof -
  have "filter_loop names None [] = Inr (map (part_name key) [0..<n])"
    using filter_loop_parts [OF _ assms(4,2,5)] assms(1) unfolding good_key_def by blast
  with assms(3) show ?thesis by (simp add: gcs_FilterObjects_def)
qed

definition listed_bucket :: mem_gcs where
  "listed_bucket = \<lparr>mg_objs = [(''k.info'', []), (''k_0'', []), (''k_10'', []), (''k_1'', []), (''k_2'', []), (''k_3'', []), (''k_4'', []),
     (''k_5'', []), (''k_6'', []), (''k_7'', []), (''k_8'', []), (''k_9'', [])], mg_clock = 0\<rparr>"

theorem gcs_chunks_in_order_witness:
  "gcs_FilterObjects (memory_gcs (\<lambda>_. False)) ''b'' ''k'' listed_bucket =
     (Inr [''k_0'', ''k_1'', ''k_2'', ''k_3'', ''k_4'', ''k_5'', ''k_6'', ''k_7'', ''k_8'', ''k_9'', ''k_10''], listed_bucket)"
proof -
  let ?names = "[''k.info'', ''k_0'', ''k_10'', ''k_1'', ''k_2'', ''k_3'', ''k_4'', ''k_5'', ''k_6'', ''k_7'', ''k_8'', ''k_9'']"
  have l: "cl_Objects (memory_gcs (\<lambda>_. False)) ''b'' ''k'' listed_bucket = ((?names, None), listed_bucket)" by code_simp
  have good: "good_key ''k''" by (simp add: good_key_def HasSuffix_def suffix_def)
  have "filter (\<lambda>x. \<not> HasSuffix x ''info'') ?names = map (part_name ''k'') [0, 10, 1, 2, 3, 4, 5, 6, 7, 8, 9]" by code_simp
  then have "{x \<in> set ?names. \<not> HasSuffix x ''info''} = part_name ''k'' ` set [0, 10, 1, 2, 3, 4, 5, 6, 7, 8, 9]"
    unfolding set_filter [symmetric] by (simp only: set_map)
  moreover have "set [0, 10, 1, 2, 3, 4, 5, 6, 7, 8, 9] = {0..<11 :: nat}" by (simp add: set_eq_iff) presburger
  ultimately have "{x \<in> set ?names. \<not> HasSuffix x ''info''} = part_name ''k'' ` {0..<11}" by (simp only:)
  from gcs_chunks_in_order [OF good _ l _ this] have
    "gcs_FilterObjects (memory_gcs (\<lambda>_. False)) ''b'' ''k'' listed_bucket = (Inr (map (part_name ''k'') [0..<11]), listed_bucket)"
    by (simp add: MaxInt64_def)
  moreover have "map (part_name ''k'') [0..<11] =
      [''k_0'', ''k_1'', ''k_2'', ''k_3'', ''k_4'', ''k_5'', ''k_6'', ''k_7'', ''k_8'', ''k_9'', ''k_10'']" by code_simp
  ultimately show ?thesis by simp
qed

text \<open>
  Any number of objects is composed into one, although the service composes at most 32 at
  a time: the composed object is the concatenation of all of them, in their order. All the
  temporary objects of the levels in between are removed, and nothing else changes.
\<close>

theorem gcs_composes_any_number:
  assumes "gcs_reliable cl b view" "good_key dst" "srcs \<noteq> []" "holds_bytes (view s) srcs ds"
    and "\<And>n. prefix (dst @ ''_tmp'') n \<Longrightarrow> view s n = None"
    and "gcs_ComposeObjects cl b srcs dst s = (e, s')"
  shows "e = None \<and> view s' = (view s)(dst \<mapsto> map B (concat ds))"
  by (rule cloud.compose_law [OF assms(1) _ assms(2,3,4)]) (simp_all add: assms(5,6))

definition many_bucket :: mem_gcs where
  "many_bucket = \<lparr>mg_objs = map (\<lambda>i. (part_name ''k'' i, [B CHR ''x''])) [0..<70], mg_clock = 0\<rparr>"

lemma map_of_names: "map_of (map (\<lambda>i. (part_name key i, c)) is) n = (if n \<in> part_name key ` set is then Some c else None)"
  by (induction "is") auto

theorem gcs_composes_any_number_witness:
  "\<exists>s'. gcs_ComposeObjects (memory_gcs (\<lambda>_. False)) ''b'' (map (part_name ''k'') [0..<70]) ''k'' many_bucket = (None, s') \<and>
     mg_view s' ''k'' = Some (map B (replicate 70 CHR ''x'')) \<and> mg_view s' ''k_tmp_0_0'' = None"
proof -
  let ?srcs = "map (part_name ''k'') [0..<70]"
  have v: "mg_view many_bucket n = (if n \<in> part_name ''k'' ` {0..<70} then Some [B CHR ''x''] else None)" for n
    by (simp add: mg_view_def many_bucket_def map_of_names)
  have good: "good_key ''k''" by (simp add: good_key_def HasSuffix_def suffix_def)
  have src: "holds_bytes (mg_view many_bucket) ?srcs (replicate 70 ''x'')"
    by (simp add: holds_bytes_nth v del: upt_rec_numeral)
  have tmp: "mg_view many_bucket n = None" if "prefix (''k'' @ ''_tmp'') n" for n
    using that part_name_not_tmp [of "''k''"] by (auto simp: v)
  obtain e s' where run: "gcs_ComposeObjects (memory_gcs (\<lambda>_. False)) ''b'' ?srcs ''k'' many_bucket = (e, s')" by (metis surj_pair)
  from gcs_composes_any_number [OF memory_gcs_reliable good _ src tmp run]
  have res: "e = None" "mg_view s' = (mg_view many_bucket)(''k'' \<mapsto> map B (concat (replicate 70 ''x'')))" by simp_all
  have "concat (replicate 70 ''x'') = replicate 70 CHR ''x''" by code_simp
  moreover have "mg_view many_bucket ''k_tmp_0_0'' = None" by (rule tmp) simp
  ultimately show ?thesis using run res by (intro exI [of _ s']) (simp del: upt_rec_numeral)
qed

section \<open>Uploads\<close>

text \<open>
  Writing a chunk appends its bytes to the bytes of the upload as a chunk of its own, and
  no other object changes; the offset that is reported before and after is the number of bytes
  stored. The number of chunks and bytes must stay in the range of the counters.
\<close>

theorem gcs_write_appends:
  assumes rel: "gcs_reliable cl b view" and u: "key = gcs_keyWithPrefix (cloud_store cl b pre) (gcs_id u)"
    and up: "gcs_open (view (g_remote s)) key info chunks" "int (length chunks) + 1 < MaxInt64"
    and body: "fresh_reader body" "int (length (concat chunks @ reader_data body)) \<le> MaxInt64"
    and info: "gcs_GetInfo (cloud_store cl b pre) u s = (r1, u1, s1)"
    and wr: "gcs_WriteChunk (cloud_store cl b pre) u1 offset body s1 = ((n, e), body', u2, s2)"
    and info2: "gcs_GetInfo (cloud_store cl b pre) u2 s2 = (r3, u3, s3)"
  shows "r1 = Inr (info\<lparr>Offset := int (length (concat chunks))\<rparr>) \<and> e = None \<and> n = int (length (reader_data body)) \<and>
    gcs_open (view (g_remote s2)) key info (chunks @ [reader_data body]) \<and>
    (\<forall>x. \<not> prefix key x \<longrightarrow> view (g_remote s2) x = view (g_remote s) x) \<and>
    r3 = Inr (info\<lparr>Offset := int (length (concat chunks @ reader_data body))\<rparr>)"
proof -
  have "int (length (concat chunks)) \<le> MaxInt64" using body(2) by simp
  from cloud.GetInfo_open [OF rel info up(1) [unfolded u] this]
  have i1: "r1 = Inr (info\<lparr>Offset := int (length (concat chunks))\<rparr>)" "u1 = u" "view (g_remote s1) = view (g_remote s)" by auto
  have "int (length (reader_data body)) \<le> MaxInt64" using body(2) by simp
  from cloud.WriteChunk_run [OF rel wr _ body(1) this up(2), of info] i1 up(1) u have
    w: "e = None" "n = int (length (reader_data body))" "u2 = u" "gcs_open (view (g_remote s2)) key info (chunks @ [reader_data body])"
      "view (g_remote s2) = (view (g_remote s))(part_name key (length chunks) \<mapsto> map B (reader_data body))" by auto
  have "gcs_open (view (g_remote s2)) (gcs_keyWithPrefix (cloud_store cl b pre) (gcs_id u2)) info (chunks @ [reader_data body])"
    using w(3,4) u by simp
  from cloud.GetInfo_open [OF rel info2 this] body(2) have "r3 = Inr (info\<lparr>Offset := int (length (concat chunks @ reader_data body))\<rparr>)"
    by simp
  moreover have "view (g_remote s2) x = view (g_remote s) x" if "\<not> prefix key x" for x using that w(5) by auto
  ultimately show ?thesis using i1(1) w(1,2,4) by blast
qed

text \<open>A client that sends several chunks, each at the offset that is reported.\<close>

fun gcs_send :: "'s GCSStore \<Rightarrow> gcsUpload \<Rightarrow> bodyReader list \<Rightarrow> 's gcsenv \<Rightarrow> err option \<times> 's gcsenv" where
  "gcs_send store u [] s = (None, s)"
| "gcs_send store u (body # bodies) s =
     (case gcs_GetInfo store u s of
        (Inl e, u1, s1) \<Rightarrow> (Some e, s1)
      | (Inr info, u1, s1) \<Rightarrow>
          (case gcs_WriteChunk store u1 (Offset info) body s1 of
             ((n, Some e), body', u2, s2) \<Rightarrow> (Some e, s2)
           | ((n, None), body', u2, s2) \<Rightarrow> gcs_send store u2 bodies s2))"

lemma gcs_send_run:
  assumes rel: "gcs_reliable cl b view" and run: "gcs_send (cloud_store cl b pre) u bodies s = (e, s')"
    and up: "gcs_open (view (g_remote s)) (gcs_keyWithPrefix (cloud_store cl b pre) (gcs_id u)) info chunks"
    and bodies: "list_all fresh_reader bodies" "int (length chunks + length bodies) < MaxInt64"
      "int (length (concat chunks @ concat (map reader_data bodies))) \<le> MaxInt64"
  shows "e = None \<and> gcs_open (view (g_remote s')) (gcs_keyWithPrefix (cloud_store cl b pre) (gcs_id u)) info (chunks @ map reader_data bodies)"
  using run up bodies
proof (induction bodies arbitrary: s chunks)
  case (Cons body bodies)
  let ?st = "cloud_store cl b pre"
  obtain r1 u1 s1 where info: "gcs_GetInfo ?st u s = (r1, u1, s1)" by (metis surj_pair)
  have "int (length (concat chunks)) \<le> MaxInt64" using Cons.prems(5) by simp
  from cloud.GetInfo_open [OF rel info Cons.prems(2) this]
  have i1: "r1 = Inr (info\<lparr>Offset := int (length (concat chunks))\<rparr>)" "u1 = u" "view (g_remote s1) = view (g_remote s)" by auto
  obtain n e2 body' u2 s2 where wr: "gcs_WriteChunk ?st u1 (int (length (concat chunks))) body s1 = ((n, e2), body', u2, s2)" by (metis surj_pair)
  have fit: "fresh_reader body" "int (length (reader_data body)) \<le> MaxInt64" "int (length chunks) + 1 < MaxInt64"
    using Cons.prems(3,4,5) by auto
  have up1: "gcs_open (view (g_remote s1)) (gcs_keyWithPrefix ?st (gcs_id u1)) info chunks" using Cons.prems(2) i1(2,3) by simp
  from cloud.WriteChunk_run [OF rel wr up1 fit] have
    w: "e2 = None" "u2 = u" "gcs_open (view (g_remote s2)) (gcs_keyWithPrefix ?st (gcs_id u)) info (chunks @ [reader_data body])" unfolding i1(2) by blast+
  from Cons.prems(1) info i1 wr w(1,2) have "gcs_send ?st u bodies s2 = (e, s')" by simp
  from Cons.IH [OF this w(3)] Cons.prems(3,4,5) show ?case by simp
qed simp

text \<open>
  Property C28. An upload to Google Cloud Storage in any number of chunks: what is created, sent in
  pieces and finished is read back as the concatenation of the pieces.
\<close>

theorem gcs_upload_roundtrip:
  assumes rel: "gcs_reliable cl b view" and key: "key = gcs_keyWithPrefix (cloud_store cl b pre) (ID info)"
    and new: "ID info \<noteq> []" "good_key key" "\<And>n. prefix key n \<Longrightarrow> view (g_remote s) n = None"
    and bodies: "bodies \<noteq> []" "list_all fresh_reader bodies" "int (length bodies) < MaxInt64"
      "int (length (concat (map reader_data bodies))) \<le> MaxInt64"
  shows "\<exists>u s1 s2 s3. gcs_NewUpload (cloud_store cl b pre) info s = (Inr u, s1) \<and>
    gcs_send (cloud_store cl b pre) u bodies s1 = (None, s2) \<and> gcs_FinishUpload (cloud_store cl b pre) u s2 = (None, u, s3) \<and>
    fst (gcs_GetReader (cloud_store cl b pre) u s3) = Inr (concat (map reader_data bodies), None)"
proof -
  let ?st = "cloud_store cl b pre"
  obtain r s1 where nu: "gcs_NewUpload ?st info s = (r, s1)" by (metis surj_pair)
  from cloud.NewUpload_run [OF rel nu new(1)] new(2,3) key obtain info' where
    n: "r = Inr \<lparr>gcs_id = ID info\<rparr>" "gcs_open (view (g_remote s1)) key info' []" by auto
  let ?u = "\<lparr>gcs_id = ID info\<rparr>"
  obtain e2 s2 where send: "gcs_send ?st ?u bodies s1 = (e2, s2)" by (metis surj_pair)
  from gcs_send_run [OF rel send, of info' "[]"] n(2) key bodies have
    w: "e2 = None" "gcs_open (view (g_remote s2)) key info' (map reader_data bodies)" by auto
  obtain e3 u3 s3 where fin: "gcs_FinishUpload ?st ?u s2 = (e3, u3, s3)" by (metis surj_pair)
  from cloud.FinishUpload_run [OF rel fin, of info' "map reader_data bodies"] w(2) key bodies have
    f: "e3 = None" "u3 = ?u" "gcs_finished (view (g_remote s3)) key info' (concat (map reader_data bodies))" by auto
  obtain r4 u4 s4 where rd: "gcs_GetReader ?st ?u s3 = (r4, u4, s4)" by (metis surj_pair)
  from cloud.GetReader_run [OF rel rd, of info'] f(3) key have "r4 = Inr (concat (map reader_data bodies), None)" by auto
  with nu n(1) send w(1) fin f rd show ?thesis by auto
qed

text \<open>
  An upload of size zero cannot be finished: the composition needs at least one chunk, and
  without a body none is written. The upload stays as it is.
\<close>

theorem gcs_empty_upload_cannot_finish:
  assumes "gcs_reliable cl b view" "gcs_open (view (g_remote s)) (gcs_keyWithPrefix (cloud_store cl b pre) (gcs_id u)) info []"
    and "gcs_FinishUpload (cloud_store cl b pre) u s = (e, u', s')"
  shows "e \<noteq> None \<and> view (g_remote s') = view (g_remote s)"
  by (rule cloud.FinishUpload_empty [OF assms(1,3,2)])

text \<open>
  Property C30. The termination of an upload takes the chunks of another one whose identifier begins with
  the identifier of the first: objects are deleted by the prefix of their names. Here the first
  upload has no chunks yet; all chunks of the second one are removed, and only its information
  stays.
\<close>

theorem gcs_terminate_takes_longer_ids:
  assumes rel: "gcs_reliable cl b view" and u: "key = gcs_keyWithPrefix (cloud_store cl b pre) (gcs_id u)"
    and other: "t \<noteq> []" "gcs_open (view (g_remote s)) (key @ t) info chunks"
    and first: "view (g_remote s) (key @ ''.info'') \<noteq> None" "data_objects (view (g_remote s)) key \<subseteq> data_objects (view (g_remote s)) (key @ t)"
    and run: "gcs_Terminate (cloud_store cl b pre) u s = (e, u', s')"
  shows "e = None \<and> gcs_open (view (g_remote s')) (key @ t) info []"
proof -
  let ?n = "length chunks" and ?v = "view (g_remote s)"
  let ?names = "map (part_name (key @ t)) [0..<?n]"
  have good: "CHR ''_'' \<notin> set (last (Split CHR ''/'' (key @ t)))" "int ?n \<le> MaxInt64"
    using other(2) by (auto simp: gcs_open_def good_key_def)
  have "data_objects ?v (key @ t) = set ?names" using open_objects(1) [OF other(2)] by simp
  moreover have "data_objects ?v (key @ t) \<subseteq> data_objects ?v key" by (auto simp: data_objects_def dest: append_prefixD)
  ultimately have objs: "data_objects ?v key = set ?names" using first(2) by simp
  obtain r x where f: "gcs_FilterObjects cl b key (g_remote s) = (r, x)" by (metis surj_pair)
  from gcs_FilterObjects_run [OF rel f] obtain ns where
    ns: "r = filter_loop ns None []" "distinct ns" "set ns = {n. prefix key n \<and> ?v n \<noteq> None}" "view x = ?v" .
  have "{x \<in> set ns. \<not> HasSuffix x ''info''} = part_name (key @ t) ` {0..<?n}"
    using objs unfolding ns(3) data_objects_def by (simp add: conj_assoc)
  from filter_loop_parts [OF good(1) ns(2) good(2) this] ns(1) have r: "r = Inr ?names" by simp
  obtain e1 x1 where d: "delete_names cl b ?names x = (e1, x1)" by (metis surj_pair)
  have "\<forall>m \<in> set ?names. view x m \<noteq> None" unfolding objs [symmetric] ns(4) by (simp add: data_objects_def)
  from delete_names_run [OF rel d _ this] have e1: "e1 = None" "view x1 = (\<lambda>m. if m \<in> set ?names then None else ?v m)"
    unfolding ns(4) by (simp_all only: distinct_part_names distinct_upt simp_thms)
  have "key @ ''.info'' \<notin> set ?names" unfolding objs [symmetric] by (simp add: data_objects_def)
  then have ex: "view x1 (key @ ''.info'') \<noteq> None" using first(1) e1(2) by simp
  obtain e2 x2 where d2: "cl_Delete cl b (key @ ''.info'') x1 = (e2, x2)" by (metis surj_pair)
  from gcs_reliableD(3) [OF rel, unfolded gcs_delete_ok_def, rule_format, OF d2] ex
  have e2: "e2 = None" "view x2 = (view x1)(key @ ''.info'' := None)" by auto
  have "e = None" "s' = s\<lparr>g_remote := x2\<rparr>"
    using run f r d e1(1) d2 e2(1) u
    by (auto simp: gcs_Terminate_def Let_def gcall_def gcs_DeleteObjectsWithFilter_def gcs_DeleteObject_def)
  moreover have "gcs_open (view x2) (key @ t) info []"
  proof -
    have "key @ t @ ''.info'' \<noteq> part_name (key @ t) i" for i using part_name_neq(4) [of "key @ t" i] by simp
    then show ?thesis using other unfolding e2(2) e1(2) gcs_open_def by auto
  qed
  ultimately show ?thesis by simp
qed

text \<open>A bucket with an upload \<open>k\<close> of two chunks and one \<open>kk\<close> of one chunk.\<close>

definition cloud_info :: FileInfo where
  "cloud_info = emptyFileInfo\<lparr>ID := ''k'', Size := 6\<rparr>"

definition cloud_env :: "bool \<Rightarrow> contents gomap \<Rightarrow> mem_gcs gcsenv" where
  "cloud_env late objs = \<lparr>g_machine = demo_fs 0 [], g_remote = \<lparr>mg_objs = objs, mg_clock = 0\<rparr>, lateErr = late\<rparr>"

abbreviation calm_cloud :: "mem_gcs GCSStore" where
  "calm_cloud \<equiv> cloud_store (memory_gcs (\<lambda>_. False)) ''b'' []"

lemma cloud_key [simp]: "gcs_keyWithPrefix calm_cloud i = i"
  by (simp add: gcs_keyWithPrefix_def cloud_store_def gcs_New_def)

lemma cloud_remote [simp]: "mg_view (g_remote (cloud_env late objs)) = map_of objs"
  by (simp add: cloud_env_def mg_view_def)

lemma cloud_good [simp]: "good_key ''k''" "good_key ''kk''"
  by (simp_all add: good_key_def HasSuffix_def suffix_def)

lemma part_names_k: "part_name ''k'' 0 = ''k_0''" "part_name ''k'' (Suc 0) = ''k_1''" "part_name ''kk'' 0 = ''kk_0''"
  by code_simp+

lemma part_image_k: "part_name ''k'' ` {0..<Suc (Suc 0)} = {''k_0'', ''k_1''}"
  by (simp add: atLeastLessThanSuc part_names_k insert_commute)

definition two_chunks :: "contents gomap" where
  "two_chunks = [(''k.info'', [J cloud_info]), (''k_0'', map B ''ab''), (''k_1'', map B ''cd'')]"

lemma two_chunks_open: "gcs_open (map_of two_chunks) ''k'' cloud_info [''ab'', ''cd'']"
  by (auto simp: gcs_open_def two_chunks_def part_names_k part_image_k holds_bytes_nth less_Suc_eq MaxInt64_def upt_rec split: if_splits)

definition cloud_body :: "bytes \<Rightarrow> bodyReader" where
  "cloud_body d = newBodyReader [Chunk d (Some EOF)] 40"

lemma cloud_body_facts [simp]: "fresh_reader (cloud_body d)" "length d \<le> 40 \<Longrightarrow> reader_data (cloud_body d) = d"
  by (simp_all add: cloud_body_def) (simp add: newBodyReader_def limited_run_def)

theorem gcs_write_appends_witness:
  "\<exists>s1 u1 n b' u2 s2. gcs_GetInfo calm_cloud \<lparr>gcs_id = ''k''\<rparr> (cloud_env False two_chunks) = (Inr (cloud_info\<lparr>Offset := 4\<rparr>), u1, s1) \<and>
     gcs_WriteChunk calm_cloud u1 4 (cloud_body ''ef'') s1 = ((2, None), b', u2, s2) \<and>
     fst (gcs_GetInfo calm_cloud u2 s2) = Inr (cloud_info\<lparr>Offset := 6\<rparr>)"
proof -
  obtain r1 u1 s1 where i: "gcs_GetInfo calm_cloud \<lparr>gcs_id = ''k''\<rparr> (cloud_env False two_chunks) = (r1, u1, s1)" by (metis surj_pair)
  obtain n e b' u2 s2 where w: "gcs_WriteChunk calm_cloud u1 4 (cloud_body ''ef'') s1 = ((n, e), b', u2, s2)" by (metis surj_pair)
  obtain r3 u3 s3 where j: "gcs_GetInfo calm_cloud u2 s2 = (r3, u3, s3)" by (metis surj_pair)
  have key: "''k'' = gcs_keyWithPrefix calm_cloud (gcs_id \<lparr>gcs_id = ''k''\<rparr>)" by simp
  from gcs_write_appends [OF memory_gcs_reliable key _ _ _ _ i w j, of cloud_info "[''ab'', ''cd'']"] two_chunks_open
  have "r1 = Inr (cloud_info\<lparr>Offset := 4\<rparr>)" "e = None" "n = 2" "r3 = Inr (cloud_info\<lparr>Offset := 6\<rparr>)" by (simp_all add: MaxInt64_def)
  with i w j show ?thesis by auto
qed

theorem gcs_upload_roundtrip_witness:
  "\<exists>u s1 s2 s3. gcs_NewUpload calm_cloud cloud_info (cloud_env False []) = (Inr u, s1) \<and>
    gcs_send calm_cloud u [cloud_body ''ab'', cloud_body ''cdef''] s1 = (None, s2) \<and> gcs_FinishUpload calm_cloud u s2 = (None, u, s3) \<and>
    fst (gcs_GetReader calm_cloud u s3) = Inr (''abcdef'', None)"
proof -
  have key: "''k'' = gcs_keyWithPrefix calm_cloud (ID cloud_info)" by (simp add: cloud_info_def)
  from gcs_upload_roundtrip [OF memory_gcs_reliable key, of "cloud_env False []" "[cloud_body ''ab'', cloud_body ''cdef'']"]
  show ?thesis by (simp add: cloud_info_def MaxInt64_def)
qed

theorem gcs_empty_upload_cannot_finish_witness:
  "fst (gcs_FinishUpload calm_cloud \<lparr>gcs_id = ''k''\<rparr> (cloud_env False [(''k.info'', [J cloud_info])])) \<noteq> None"
proof -
  obtain e u s where f: "gcs_FinishUpload calm_cloud \<lparr>gcs_id = ''k''\<rparr> (cloud_env False [(''k.info'', [J cloud_info])]) = (e, u, s)" by (metis surj_pair)
  have "gcs_open (map_of [(''k.info'', [J cloud_info])]) ''k'' cloud_info []" by (auto simp: gcs_open_def MaxInt64_def split: if_splits)
  with gcs_empty_upload_cannot_finish [OF memory_gcs_reliable _ f, of cloud_info] f show ?thesis by simp
qed

definition two_uploads :: "contents gomap" where
  "two_uploads = [(''k.info'', [J cloud_info]), (''kk.info'', [J cloud_info]), (''kk_0'', map B ''ab'')]"

theorem gcs_terminate_takes_longer_ids_witness:
  "\<exists>s'. gcs_Terminate calm_cloud \<lparr>gcs_id = ''k''\<rparr> (cloud_env False two_uploads) = (None, \<lparr>gcs_id = ''k''\<rparr>, s') \<and>
     mg_view (g_remote (cloud_env False two_uploads)) ''kk_0'' = Some (map B ''ab'') \<and> mg_view (g_remote s') ''kk_0'' = None"
proof -
  obtain e u s where t: "gcs_Terminate calm_cloud \<lparr>gcs_id = ''k''\<rparr> (cloud_env False two_uploads) = (e, u, s)" by (metis surj_pair)
  then have "u = \<lparr>gcs_id = ''k''\<rparr>" by (auto simp: gcs_Terminate_def Let_def split: prod.splits option.splits)
  have key: "''k'' = gcs_keyWithPrefix calm_cloud (gcs_id \<lparr>gcs_id = ''k''\<rparr>)" by simp
  have "gcs_open (map_of two_uploads) ''kk'' cloud_info [''ab'']"
    by (auto simp: gcs_open_def two_uploads_def part_names_k MaxInt64_def split: if_splits)
  moreover have "data_objects (map_of two_uploads) ''k'' \<subseteq> data_objects (map_of two_uploads) ''kk''"
    by (auto simp: data_objects_def two_uploads_def HasSuffix_def suffix_def split: if_splits)
  ultimately have r: "e = None" "gcs_open (mg_view (g_remote s)) ''kk'' cloud_info []"
    using gcs_terminate_takes_longer_ids [OF memory_gcs_reliable key _ _ _ _ t, of "''k''" cloud_info "[''ab'']"]
    by (simp_all add: two_uploads_def)
  from r(2) have "prefix ''kk'' ''kk_0'' \<and> mg_view (g_remote s) ''kk_0'' \<noteq> None \<longrightarrow> ''kk_0'' = ''kk'' @ ''.info'' \<or> ''kk_0'' \<in> part_name ''kk'' ` {0..<0}"
    unfolding gcs_open_def list.size by blast
  then have "mg_view (g_remote s) ''kk_0'' = None" by simp
  with t r(1) \<open>u = _\<close> show ?thesis by (auto simp: two_uploads_def)
qed

end
