(* ===== verification/AzureStore.thy ===== *)
theory AzureStore
  imports S3Store Reliability
begin

text \<open>
  The storage backend for Azure Blob Storage (\<^verbatim>\<open>pkg/azurestore/azurestore.go\<close> and
  \<^verbatim>\<open>azureservice.go\<close>). An upload is a block blob: every chunk is staged as a block with the next
  index, and finishing the upload commits the blocks in the order of their indices. The client
  library of the service is not part of the repository: it is a record of operations on a
  state \<open>'s\<close>.
\<close>

section \<open>The client library\<close>

text \<open>An error, with the error code and the HTTP status when it is a \<^verbatim>\<open>ResponseError\<close>.\<close>

record az_error =
  ae_response :: "(string \<times> int) option"
  ae_err :: err

text \<open>A block of a block list; the name is a pointer.\<close>

record az_Block =
  bl_Name :: "string option"
  bl_Size :: int

record 's AzClient =
  bc_Delete :: "string \<Rightarrow> bool \<Rightarrow> 's \<Rightarrow> az_error option \<times> 's"
  bc_StageBlock :: "string \<Rightarrow> string \<Rightarrow> bytes \<Rightarrow> 's \<Rightarrow> az_error option \<times> 's"
  bc_DownloadStream :: "string \<Rightarrow> 's \<Rightarrow> (az_error + contents \<times> err option) \<times> 's"
  bc_GetBlockList :: "string \<Rightarrow> 's \<Rightarrow> (az_error + az_Block list \<times> az_Block list) \<times> 's"
  bc_CommitBlockList :: "string \<Rightarrow> string list \<Rightarrow> string option \<Rightarrow> 's \<Rightarrow> az_error option \<times> 's"
  bc_UploadStream :: "string \<Rightarrow> contents \<Rightarrow> 's \<Rightarrow> az_error option \<times> 's"
  bc_MaxBlocks :: int
  bc_MaxStageBlockBytes :: int

definition MaxBlockBlobSize :: "'s AzClient \<Rightarrow> int" where
  "MaxBlockBlobSize cl = bc_MaxBlocks cl * bc_MaxStageBlockBytes cl"

definition MaxBlockBlobChunkSize :: "'s AzClient \<Rightarrow> int" where
  "MaxBlockBlobChunkSize cl = bc_MaxStageBlockBytes cl"

definition InfoBlobSuffix :: string where
  "InfoBlobSuffix = ''.info''"

section \<open>Identifiers of blocks\<close>

definition blockIDBinaryToBase64 :: "bytes \<Rightarrow> string" where
  "blockIDBinaryToBase64 blockID = b64_encode blockID"

text \<open>The error of the decoder is ignored: what was decoded before it is the result.\<close>

fun decoded_before :: "nat \<Rightarrow> string \<Rightarrow> bytes" where
  "decoded_before 0 s = []"
| "decoded_before (Suc n) s = (case b64_decode (take (4 * Suc n) s) of Some d \<Rightarrow> d | None \<Rightarrow> decoded_before n s)"

definition blockIDBase64ToBinary :: "string \<Rightarrow> bytes" where
  "blockIDBase64ToBinary blockID =
     (case b64_decode blockID of Some d \<Rightarrow> d | None \<Rightarrow> decoded_before (length blockID div 4) blockID)"

text \<open>\<^verbatim>\<open>binary.LittleEndian\<close> on four bytes.\<close>

definition PutUint32 :: "int \<Rightarrow> bytes" where
  "PutUint32 x = (let n = nat (x mod 4294967296) in
     [char_of (n mod 256), char_of (n div 256 mod 256), char_of (n div 65536 mod 256), char_of (n div 16777216 mod 256)])"

fun Uint32 :: "bytes \<Rightarrow> int option" where
  "Uint32 (a # b # c # d # rest) =
     Some (int (of_char a + 256 * of_char b + 65536 * of_char c + 16777216 * of_char d))"
| "Uint32 _ = None"

definition blockIDIntToBase64 :: "int \<Rightarrow> string" where
  "blockIDIntToBase64 blockID = blockIDBinaryToBase64 (PutUint32 blockID)"

text \<open>\<open>None\<close> is the panic for fewer than four bytes.\<close>

definition blockIDBase64ToInt :: "string \<Rightarrow> int option" where
  "blockIDBase64ToInt blockID = Uint32 (blockIDBase64ToBinary blockID)"

definition sentinelBlockIndex :: int where
  "sentinelBlockIndex = 2147483647"

definition sentinelBlockID :: string where
  "sentinelBlockID = blockIDIntToBase64 sentinelBlockIndex"

section \<open>Blobs\<close>

text \<open>The two implementations of \<^verbatim>\<open>AzBlob\<close>.\<close>

datatype AzBlob =
    BlockBlob (blob_Name: string) (Indexes: "int list") (BlobAccessTier: "string option")
  | InfoBlob (blob_Name: string)

record 's azService =
  ContainerClient :: "'s AzClient"
  ServiceAccessTier :: "string option"

text \<open>
  The creation of the service. Making a client, with a shared key or the default credentials, and
  creating the container are operations of the library.
\<close>

record AzConfig =
  AccountName :: string
  AccountKey :: string
  ConfigAccessTier :: string
  ContainerName :: string
  ContainerAccessType :: string
  Endpoint :: string

record 's AzLibrary =
  NewClientWithSharedKeyCredential :: "string \<Rightarrow> string \<Rightarrow> string \<Rightarrow> err + 's AzClient"
  NewClient :: "string \<Rightarrow> err + 's AzClient"
  CreateContainer :: "'s AzClient \<Rightarrow> string option \<Rightarrow> 's \<Rightarrow> err option \<times> 's"

definition container_access :: "string \<Rightarrow> string option" where
  "container_access t = (if t = ''container'' then Some ''container'' else if t = ''blob'' then Some ''blob'' else None)"

definition access_tier :: "string \<Rightarrow> string option" where
  "access_tier t =
     (if t = ''archive'' then Some ''Archive'' else if t = ''cool'' then Some ''Cool'' else if t = ''hot'' then Some ''Hot'' else None)"

definition NewAzureService :: "'s AzLibrary \<Rightarrow> AzConfig \<Rightarrow> 's \<Rightarrow> (err + 's azService) \<times> 's" where
  "NewAzureService lib cfg s =
     (let serviceURL = Endpoint cfg @ ''/'' @ ContainerName cfg
      in case (if AccountKey cfg \<noteq> [] then NewClientWithSharedKeyCredential lib serviceURL (AccountName cfg) (AccountKey cfg)
               else NewClient lib serviceURL) of
           Inl e \<Rightarrow> (Inl e, s)
         | Inr cl \<Rightarrow>
             (case CreateContainer lib cl (container_access (ContainerAccessType cfg)) s of
                (e, s1) \<Rightarrow>
                  if (case e of None \<Rightarrow> False | Some x \<Rightarrow> Cut (err_text x) ''ContainerAlreadyExists'' = None)
                  then (Inl (the e), s1)
                  else (Inr \<lparr>ContainerClient = cl, ServiceAccessTier = access_tier (ConfigAccessTier cfg)\<rparr>, s1)))"

definition NewBlob :: "'s azService \<Rightarrow> string \<Rightarrow> AzBlob" where
  "NewBlob service name =
     (if HasSuffix name InfoBlobSuffix then InfoBlob name else BlockBlob name [] (ServiceAccessTier service))"

definition checkForNotFoundError :: "az_error \<Rightarrow> err" where
  "checkForNotFoundError e =
     (case ae_response e of
        None \<Rightarrow> ae_err e
      | Some (code, status) \<Rightarrow> if code = ''BlobNotFound'' \<or> status = 404 then TusError ErrNotFound else ae_err e)"

text \<open>
  The operations of an information blob, which is replaced as a whole; of its blocks there is
  nothing to stage, to count or to commit.
\<close>

definition infoBlob_Delete :: "'s AzClient \<Rightarrow> string \<Rightarrow> 's \<Rightarrow> err option \<times> 's" where
  [simp]: "infoBlob_Delete cl name s = (case bc_Delete cl name False s of (e, s1) \<Rightarrow> (map_option ae_err e, s1))"

definition infoBlob_Upload :: "'s AzClient \<Rightarrow> string \<Rightarrow> contents \<Rightarrow> 's \<Rightarrow> err option \<times> 's" where
  [simp]: "infoBlob_Upload cl name body s = (case bc_UploadStream cl name body s of (e, s1) \<Rightarrow> (map_option ae_err e, s1))"

definition infoBlob_StageSentinelBlock :: "'s \<Rightarrow> err option \<times> 's" where
  [simp]: "infoBlob_StageSentinelBlock s = (None, s)"

definition infoBlob_GetOffset :: "'s \<Rightarrow> (err + int) \<times> 's" where
  [simp]: "infoBlob_GetOffset s = (Inr 0, s)"

definition infoBlob_Commit :: "'s \<Rightarrow> err option \<times> 's" where
  [simp]: "infoBlob_Commit s = (None, s)"

fun blob_Delete :: "'s AzClient \<Rightarrow> AzBlob \<Rightarrow> 's \<Rightarrow> err option \<times> 's" where
  "blob_Delete cl (BlockBlob name idx tier) s = (case bc_Delete cl name True s of (e, s1) \<Rightarrow> (map_option ae_err e, s1))"
| "blob_Delete cl (InfoBlob name) s = infoBlob_Delete cl name s"

definition next_index :: "int list \<Rightarrow> int" where
  "next_index idx = (if idx = [] then 0 else add64 (last idx) 1)"

fun blob_Upload :: "'s AzClient \<Rightarrow> AzBlob \<Rightarrow> filesys \<Rightarrow> contents \<Rightarrow> 's \<Rightarrow> err option \<times> AzBlob \<times> 's" where
  "blob_Upload cl (BlockBlob name idx tier) m body s =
     (case bc_StageBlock cl name (blockIDIntToBase64 (next_index idx)) (render m body) s of
        (e, s1) \<Rightarrow> (map_option ae_err e, BlockBlob name (idx @ [next_index idx]) tier, s1))"
| "blob_Upload cl (InfoBlob name) m body s =
     (case infoBlob_Upload cl name body s of (e, s1) \<Rightarrow> (e, InfoBlob name, s1))"

fun blob_StageSentinelBlock :: "'s AzClient \<Rightarrow> AzBlob \<Rightarrow> 's \<Rightarrow> err option \<times> 's" where
  "blob_StageSentinelBlock cl (BlockBlob name idx tier) s =
     (case bc_StageBlock cl name sentinelBlockID [CHR 0x00] s of (e, s1) \<Rightarrow> (map_option ae_err e, s1))"
| "blob_StageSentinelBlock cl (InfoBlob name) s = infoBlob_StageSentinelBlock s"

definition blob_Download :: "'s AzClient \<Rightarrow> AzBlob \<Rightarrow> 's \<Rightarrow> (err + contents \<times> err option) \<times> 's" where
  "blob_Download cl blob s =
     (case bc_DownloadStream cl (blob_Name blob) s of
        (Inl e, s1) \<Rightarrow> (Inl (checkForNotFoundError e), s1)
      | (Inr res, s1) \<Rightarrow> (Inr res, s1))"

text \<open>The loop over the uncommitted blocks.\<close>

fun count_blocks :: "az_Block list \<Rightarrow> int \<Rightarrow> int list \<Rightarrow> err + int \<times> int list" where
  "count_blocks [] offset indexes = Inr (offset, indexes)"
| "count_blocks (bl # bls) offset indexes =
     (if bl_Name bl = Some sentinelBlockID then count_blocks bls offset indexes
      else case bl_Name bl of
        None \<Rightarrow> Inl (Panic ''nil pointer dereference'')
      | Some name \<Rightarrow>
          (case blockIDBase64ToInt name of
             None \<Rightarrow> Inl (Panic ''index out of range'')
           | Some i \<Rightarrow> count_blocks bls (add64 offset (bl_Size bl)) (indexes @ [i])))"

fun blob_GetOffset :: "'s AzClient \<Rightarrow> AzBlob \<Rightarrow> 's \<Rightarrow> (err + int) \<times> AzBlob \<times> 's" where
  "blob_GetOffset cl (BlockBlob name idx tier) s =
     (case bc_GetBlockList cl name s of
        (Inl e, s1) \<Rightarrow> (Inl (checkForNotFoundError e), BlockBlob name idx tier, s1)
      | (Inr (committed, uncommitted), s1) \<Rightarrow>
          if uncommitted = [] then
            (Inr (fold (\<lambda>bl acc. add64 acc (bl_Size bl)) committed 0), BlockBlob name idx tier, s1)
          else
            (case count_blocks uncommitted 0 [] of
               Inl e \<Rightarrow> (Inl e, BlockBlob name idx tier, s1)
             | Inr (offset, indexes) \<Rightarrow> (Inr offset, BlockBlob name (sort indexes) tier, s1)))"
| "blob_GetOffset cl (InfoBlob name) s = (case infoBlob_GetOffset s of (n, s1) \<Rightarrow> (n, InfoBlob name, s1))"

fun blob_Commit :: "'s AzClient \<Rightarrow> AzBlob \<Rightarrow> 's \<Rightarrow> err option \<times> 's" where
  "blob_Commit cl (BlockBlob name idx tier) s =
     (case bc_CommitBlockList cl name (map blockIDIntToBase64 idx) tier s of (e, s1) \<Rightarrow> (map_option ae_err e, s1))"
| "blob_Commit cl (InfoBlob name) s = infoBlob_Commit s"

section \<open>The store\<close>

record 's azenv =
  az_machine :: filesys
  az_remote :: 's

definition azcall :: "('s \<Rightarrow> 'a \<times> 's) \<Rightarrow> 's azenv \<Rightarrow> 'a \<times> 's azenv" where
  "azcall f s = (case f (az_remote s) of (r, x) \<Rightarrow> (r, s\<lparr>az_remote := x\<rparr>))"

record 's AzureStore =
  az_Service :: "'s azService"
  az_ObjectPrefix :: string
  az_Container :: string
  az_TemporaryDirectory :: string

record AzUpload =
  au_ID :: string
  au_InfoBlob :: AzBlob
  au_BlockBlob :: AzBlob
  au_InfoHandler :: "FileInfo option"
  au_tempDir :: string

abbreviation az_client :: "'s AzureStore \<Rightarrow> 's AzClient" where
  "az_client store \<equiv> ContainerClient (az_Service store)"

definition az_New :: "'s azService \<Rightarrow> 's AzureStore" where
  "az_New service = \<lparr>az_Service = service, az_ObjectPrefix = [], az_Container = [], az_TemporaryDirectory = []\<rparr>"

definition az_keyWithPrefix :: "'s AzureStore \<Rightarrow> string \<Rightarrow> string" where
  "az_keyWithPrefix store key =
     (let pre = az_ObjectPrefix store
      in (if pre \<noteq> [] \<and> \<not> HasSuffix pre ''/'' then pre @ ''/'' else pre) @ key)"

definition az_infoPath :: "string \<Rightarrow> string" where
  "az_infoPath i = i @ InfoBlobSuffix"

definition az_writeInfo :: "'s AzureStore \<Rightarrow> AzUpload \<Rightarrow> 's azenv \<Rightarrow> err option \<times> AzUpload \<times> 's azenv" where
  "az_writeInfo store u s =
     (let body = (case au_InfoHandler u of Some info \<Rightarrow> json_Marshal info | None \<Rightarrow> map B ''null'')
      in case blob_Upload (az_client store) (au_InfoBlob u) (az_machine s) body (az_remote s) of
           (e, blob, x) \<Rightarrow> (e, u\<lparr>au_InfoBlob := blob\<rparr>, s\<lparr>az_remote := x\<rparr>))"

definition too_large :: "'s AzureStore \<Rightarrow> FileInfo \<Rightarrow> err" where
  "too_large store info =
     PlainError (''azurestore: max upload of '' @ FormatInt (Size info) @ '' bytes exceeded MaxBlockBlobSize of '' @
       FormatInt (MaxBlockBlobSize (az_client store)) @ '' bytes'')"

definition az_NewUpload :: "'s AzureStore \<Rightarrow> FileInfo \<Rightarrow> 's azenv \<Rightarrow> (err + AzUpload) \<times> 's azenv" where
  "az_NewUpload store info s =
     (case (if ID info = [] then (case Uid (az_machine s) of (r, m) \<Rightarrow> (r, s\<lparr>az_machine := m\<rparr>)) else (Inr (ID info), s)) of
        (Inl e, s1) \<Rightarrow> (Inl e, s1)
      | (Inr i, s1) \<Rightarrow>
          if Size info > MaxBlockBlobSize (az_client store) then (Inl (too_large store info), s1)
          else
            (let u = \<lparr>au_ID = i, au_InfoBlob = NewBlob (az_Service store) (az_keyWithPrefix store (az_infoPath i)),
                      au_BlockBlob = NewBlob (az_Service store) (az_keyWithPrefix store i),
                      au_InfoHandler = Some (info\<lparr>ID := i, Storage := [(''Type'', ''azurestore''),
                        (''Container'', az_Container store), (''Key'', az_keyWithPrefix store i)]\<rparr>),
                      au_tempDir = az_TemporaryDirectory store\<rparr>
             in case az_writeInfo store u s1 of
                  (Some e, u1, s2) \<Rightarrow>
                    (Inl (PlainError (''azurestore: unable to create InfoHandler file:'' @ [CHR 0x0A] @ err_text e)), s2)
                | (None, u1, s2) \<Rightarrow>
                    (case azcall (blob_StageSentinelBlock (az_client store) (au_BlockBlob u1)) s2 of
                       (Some e, s3) \<Rightarrow> (Inl e, s3)
                     | (None, s3) \<Rightarrow> (Inr u1, s3))))"

text \<open>The offset of a blob that is not found is zero.\<close>

definition az_offset :: "err + int \<Rightarrow> err + int" where
  "az_offset r =
     (case r of
        Inr n \<Rightarrow> Inr n
      | Inl (TusError e) \<Rightarrow> if ErrorCode e = ErrorCode ErrNotFound then Inr 0 else Inl (TusError e)
      | Inl e \<Rightarrow> Inl e)"

definition az_GetUpload :: "'s AzureStore \<Rightarrow> string \<Rightarrow> 's azenv \<Rightarrow> (err + AzUpload) \<times> 's azenv" where
  "az_GetUpload store i s =
     (let infoBlob = NewBlob (az_Service store) (az_keyWithPrefix store (az_infoPath i))
      in case azcall (blob_Download (az_client store) infoBlob) s of
           (Inl e, s1) \<Rightarrow> (Inl e, s1)
         | (Inr (data, e), s1) \<Rightarrow>
             (case json_Decode data e of
                Inl e \<Rightarrow> (Inl e, s1)
              | Inr info \<Rightarrow>
                  if Size info > MaxBlockBlobSize (az_client store) then (Inl (too_large store info), s1)
                  else
                    (case blob_GetOffset (az_client store) (NewBlob (az_Service store) (az_keyWithPrefix store (ID info))) (az_remote s1) of
                       (r, blob, x) \<Rightarrow>
                         (case az_offset r of
                            Inl e \<Rightarrow> (Inl e, s1\<lparr>az_remote := x\<rparr>)
                          | Inr offset \<Rightarrow>
                              (Inr \<lparr>au_ID = i, au_InfoBlob = infoBlob, au_BlockBlob = blob,
                                    au_InfoHandler = Some (info\<lparr>Offset := offset\<rparr>),
                                    au_tempDir = az_TemporaryDirectory store\<rparr>, s1\<lparr>az_remote := x\<rparr>)))))"

text \<open>The temporary file: its operations fail as the local machine says, and its bytes are collected.\<close>

definition az_tmp :: "string \<Rightarrow> filesys \<Rightarrow> err option \<times> filesys" where
  "az_tmp operation m =
     (case tick m of
        (Some f, m1) \<Rightarrow> (Some (PlainError (path_error operation ''tusd-az-tmp'' (fault_text f))), m1)
      | (None, m1) \<Rightarrow> (None, m1))"

definition az_tmp_Write :: "bytes \<Rightarrow> filesys \<times> bytes \<Rightarrow> (nat \<times> err option) \<times> filesys \<times> bytes" where
  "az_tmp_Write d w =
     (case w of (m, written) \<Rightarrow>
        (case tick m of
           (Some f, m1) \<Rightarrow>
             (let n = min (fault_written f) (length d)
              in ((n, Some (PlainError (path_error ''write'' ''tusd-az-tmp'' (fault_text f)))), m1, written @ take n d))
         | (None, m1) \<Rightarrow> ((length d, None), m1, written @ d)))"

definition az_WriteChunk ::
  "'s AzureStore \<Rightarrow> AzUpload \<Rightarrow> int \<Rightarrow> bodyReader \<Rightarrow> 's azenv \<Rightarrow> (int \<times> err option) \<times> bodyReader \<times> AzUpload \<times> 's azenv" where
  "az_WriteChunk store u offset src s =
     (case az_tmp ''open'' (az_machine s) of
        (Some e, m1) \<Rightarrow> ((0, Some e), src, u, s\<lparr>az_machine := m1\<rparr>)
      | (None, m1) \<Rightarrow>
          (case io_Copy az_tmp_Write src 0 (m1, []) of
             ((n, Some e), src1, m2, data) \<Rightarrow> ((0, Some e), src1, u, s\<lparr>az_machine := m2\<rparr>)
           | ((n, None), src1, m2, data) \<Rightarrow>
               (case az_tmp ''seek'' m2 of
                  (Some e, m3) \<Rightarrow> ((0, Some e), src1, u, s\<lparr>az_machine := m3\<rparr>)
                | (None, m3) \<Rightarrow>
                    if n > MaxBlockBlobChunkSize (az_client store) then
                      ((0, Some (PlainError (''azurestore: Chunk of size '' @ FormatInt n @ '' too large. Max chunk size is '' @
                          FormatInt (MaxBlockBlobChunkSize (az_client store))))), src1, u, s\<lparr>az_machine := m3\<rparr>)
                    else
                      (case blob_Upload (az_client store) (au_BlockBlob u) m3 (map B data) (az_remote s) of
                         (Some e, blob, x) \<Rightarrow>
                           ((0, Some e), src1, u\<lparr>au_BlockBlob := blob\<rparr>, s\<lparr>az_machine := m3, az_remote := x\<rparr>)
                       | (None, blob, x) \<Rightarrow>
                           (case az_tmp ''close'' m3 of
                              (Some e, m4) \<Rightarrow>
                                ((0, Some e), src1, u\<lparr>au_BlockBlob := blob\<rparr>, s\<lparr>az_machine := m4, az_remote := x\<rparr>)
                            | (None, m4) \<Rightarrow>
                                (case au_InfoHandler u of
                                   None \<Rightarrow>
                                     ((0, Some (Panic ''nil pointer dereference'')), src1, u\<lparr>au_BlockBlob := blob\<rparr>,
                                      s\<lparr>az_machine := m4, az_remote := x\<rparr>)
                                 | Some info \<Rightarrow>
                                     ((n, None), src1,
                                      u\<lparr>au_BlockBlob := blob, au_InfoHandler := Some (info\<lparr>Offset := add64 (Offset info) n\<rparr>)\<rparr>,
                                      s\<lparr>az_machine := m4, az_remote := x\<rparr>)))))))"

definition az_GetInfo :: "'s AzureStore \<Rightarrow> AzUpload \<Rightarrow> 's azenv \<Rightarrow> (err + FileInfo) \<times> AzUpload \<times> 's azenv" where
  "az_GetInfo store u s =
     (case au_InfoHandler u of
        Some info \<Rightarrow> (Inr info, u, s)
      | None \<Rightarrow>
          (case azcall (blob_Download (az_client store) (au_InfoBlob u)) s of
             (Inl e, s1) \<Rightarrow> (Inl e, u, s1)
           | (Inr (data, e), s1) \<Rightarrow>
               (case json_Decode data e of
                  Inl e \<Rightarrow> (Inl e, u, s1)
                | Inr info \<Rightarrow> (Inr info, u\<lparr>au_InfoHandler := Some info\<rparr>, s1))))"

definition az_GetReader :: "'s AzureStore \<Rightarrow> AzUpload \<Rightarrow> 's azenv \<Rightarrow> (err + bytes \<times> err option) \<times> AzUpload \<times> 's azenv" where
  "az_GetReader store u s =
     (case azcall (blob_Download (az_client store) (au_BlockBlob u)) s of
        (Inl e, s1) \<Rightarrow> (Inl e, u, s1)
      | (Inr (data, e), s1) \<Rightarrow> (Inr (render (az_machine s1) data, e), u, s1))"

definition az_FinishUpload :: "'s AzureStore \<Rightarrow> AzUpload \<Rightarrow> 's azenv \<Rightarrow> err option \<times> AzUpload \<times> 's azenv" where
  "az_FinishUpload store u s =
     (case azcall (blob_Commit (az_client store) (au_BlockBlob u)) s of (e, s1) \<Rightarrow> (e, u, s1))"

definition az_Terminate :: "'s AzureStore \<Rightarrow> AzUpload \<Rightarrow> 's azenv \<Rightarrow> err option \<times> AzUpload \<times> 's azenv" where
  "az_Terminate store u s =
     (case azcall (blob_Delete (az_client store) (au_InfoBlob u)) s of
        (Some e, s1) \<Rightarrow> (Some e, u, s1)
      | (None, s1) \<Rightarrow> (case azcall (blob_Delete (az_client store) (au_BlockBlob u)) s1 of (e, s2) \<Rightarrow> (e, u, s2)))"

definition az_DeclareLength :: "'s AzureStore \<Rightarrow> AzUpload \<Rightarrow> int \<Rightarrow> 's azenv \<Rightarrow> err option \<times> AzUpload \<times> 's azenv" where
  "az_DeclareLength store u len s =
     (case au_InfoHandler u of
        None \<Rightarrow> (Some (Panic ''nil pointer dereference''), u, s)
      | Some info \<Rightarrow> az_writeInfo store (u\<lparr>au_InfoHandler := Some (info\<lparr>Size := len, SizeIsDeferred := False\<rparr>)\<rparr>) s)"

definition azureStore :: "'s AzureStore \<Rightarrow> ('s azenv, AzUpload) DataStore" where
  "azureStore store =
     \<lparr>NewUpload = az_NewUpload store, GetUpload = az_GetUpload store, WriteChunk = az_WriteChunk store,
      GetInfo = az_GetInfo store, GetReader = az_GetReader store, FinishUpload = az_FinishUpload store\<rparr>"

definition az_UseIn ::
  "'s AzureStore \<Rightarrow> ('s azenv, AzUpload, 'l, 'k) StoreComposer \<Rightarrow> ('s azenv, AzUpload, 'l, 'k) StoreComposer" where
  "az_UseIn store c =
     UseLengthDeferrer (Some (az_DeclareLength store))
       (UseTerminater (Some (az_Terminate store)) (UseCore (Some (azureStore store)) c))"

end
