(* ===== verification/AzureFacts.thy ===== *)
theory AzureFacts
  imports AzureStore "HOL-Library.Multiset"
begin

text \<open>
  What the client library of Azure promises, when its requests do not fail, what the operations
  of the store do to the blobs, and the properties of uploads to Azure.
\<close>

section \<open>The documented behaviour of the client library\<close>

text \<open>
  A blob: the content that has been committed or uploaded, its committed blocks, and the blocks
  that are staged.
\<close>

record az_state =
  as_content :: "contents option"
  as_committed :: "(string \<times> bytes) list"
  as_staged :: "(string \<times> bytes) list"

type_synonym az_blobs = "string \<Rightarrow> az_state"

definition no_blob :: az_state where
  "no_blob = \<lparr>as_content = None, as_committed = [], as_staged = []\<rparr>"

definition az_stage_ok :: "'s AzClient \<Rightarrow> ('s \<Rightarrow> az_blobs) \<Rightarrow> bool" where
  "az_stage_ok cl view \<longleftrightarrow>
     (\<forall>name i d s e s'. bc_StageBlock cl name i d s = (e, s') \<longrightarrow> d \<noteq> [] \<longrightarrow> int (length d) \<le> bc_MaxStageBlockBytes cl \<longrightarrow>
        e = None \<and> view s' = (view s)(name := (view s name)\<lparr>as_staged := AList.update i d (as_staged (view s name))\<rparr>))"

text \<open>The blocks that are not committed are listed in any order.\<close>

definition listed :: "(string \<times> bytes) list \<Rightarrow> az_Block list" where
  "listed bs = map (\<lambda>(i, d). \<lparr>bl_Name = Some i, bl_Size = int (length d)\<rparr>) bs"

definition az_list_ok :: "'s AzClient \<Rightarrow> ('s \<Rightarrow> az_blobs) \<Rightarrow> bool" where
  "az_list_ok cl view \<longleftrightarrow>
     (\<forall>name s r s'. bc_GetBlockList cl name s = (r, s') \<longrightarrow> view s' = view s \<and>
        (view s name \<noteq> no_blob \<longrightarrow>
           (\<exists>bs. mset bs = mset (as_staged (view s name)) \<and> r = Inr (listed (as_committed (view s name)), listed bs))))"

text \<open>Committing takes the staged blocks that are named, in this order, and drops the others.\<close>

definition az_commit_ok :: "'s AzClient \<Rightarrow> ('s \<Rightarrow> az_blobs) \<Rightarrow> bool" where
  "az_commit_ok cl view \<longleftrightarrow>
     (\<forall>name bs tier s e s'. bc_CommitBlockList cl name (map fst bs) tier s = (e, s') \<longrightarrow>
        int (length bs) \<le> bc_MaxBlocks cl \<longrightarrow> (\<forall>(i, d) \<in> set bs. map_of (as_staged (view s name)) i = Some d) \<longrightarrow>
        e = None \<and> view s' = (view s)(name :=
          \<lparr>as_content = Some (map B (concat (map snd bs))), as_committed = bs, as_staged = []\<rparr>))"

definition az_whole_ok :: "'s AzClient \<Rightarrow> ('s \<Rightarrow> az_blobs) \<Rightarrow> bool" where
  "az_whole_ok cl view \<longleftrightarrow>
     (\<forall>name c s e s'. bc_UploadStream cl name c s = (e, s') \<longrightarrow>
        e = None \<and> view s' = (view s)(name := \<lparr>as_content = Some c, as_committed = [], as_staged = []\<rparr>)) \<and>
     (\<forall>name s r s' c. bc_DownloadStream cl name s = (r, s') \<longrightarrow> as_content (view s name) = Some c \<longrightarrow>
        view s' = view s \<and> r = Inr (c, None))"

definition az_reliable :: "'s AzClient \<Rightarrow> ('s \<Rightarrow> az_blobs) \<Rightarrow> bool" where
  "az_reliable cl view \<longleftrightarrow> az_stage_ok cl view \<and> az_list_ok cl view \<and> az_commit_ok cl view \<and> az_whole_ok cl view"

lemma az_reliableD:
  assumes "az_reliable cl view"
  shows "az_stage_ok cl view" "az_list_ok cl view" "az_commit_ok cl view" "az_whole_ok cl view"
  using assms by (simp_all add: az_reliable_def)

section \<open>Identifiers of blocks\<close>

lemma Uint32_PutUint32:
  assumes "0 \<le> x" "x < 4294967296"
  shows "Uint32 (PutUint32 x) = Some x"
proof -
  define n where "n = nat x"
  have n: "n < 4294967296" "x mod 4294967296 = int n" "x = int n" using assms by (auto simp: n_def)
  define a b c where abc: "a = n div 256" "b = a div 256" "c = b div 256"
  have div: "n div 65536 = b" "n div 16777216 = c" unfolding abc by (simp_all flip: div_mult2_eq)
  have "c < 256" using n(1) unfolding abc by (simp flip: div_mult2_eq)
  then have "c mod 256 = c" by simp
  moreover have "n mod 256 + 256 * a = n" "a mod 256 + 256 * b = a" "b mod 256 + 256 * c = b" unfolding abc by simp_all
  ultimately have "n mod 256 + 256 * (a mod 256) + 65536 * (b mod 256) + 16777216 * (c mod 256) = n" by linarith
  then have "int (n mod 256 + 256 * (a mod 256) + 65536 * (b mod 256) + 16777216 * (c mod 256)) = x" using n(3) by simp
  then show ?thesis unfolding PutUint32_def Let_def n(2) nat_int div abc(1) [symmetric] by (simp only: Uint32.simps of_char_char_of_nat mod_less_divisor zero_less_numeral)
qed

lemma blockID_roundtrip:
  assumes "0 \<le> i" "i < 4294967296"
  shows "blockIDBase64ToInt (blockIDIntToBase64 i) = Some i"
  using Uint32_PutUint32 [OF assms]
  by (simp add: blockIDBase64ToInt_def blockIDIntToBase64_def blockIDBase64ToBinary_def blockIDBinaryToBase64_def)

lemma blockID_inj:
  assumes "0 \<le> i" "i < 4294967296" "0 \<le> j" "j < 4294967296"
  shows "blockIDIntToBase64 i = blockIDIntToBase64 j \<longleftrightarrow> i = j"
  using blockID_roundtrip [OF assms(1,2)] blockID_roundtrip [OF assms(3,4)] by (metis option.inject)

section \<open>The blocks of an upload\<close>

definition block_of :: "bytes list \<Rightarrow> nat \<Rightarrow> string \<times> bytes" where
  "block_of ds i = (blockIDIntToBase64 (int i), ds ! i)"

definition data_blocks :: "bytes list \<Rightarrow> (string \<times> bytes) list" where
  "data_blocks ds = map (block_of ds) [0..<length ds]"

definition all_blocks :: "bytes list \<Rightarrow> (string \<times> bytes) multiset" where
  "all_blocks ds = add_mset (sentinelBlockID, [CHR 0x00]) (mset (data_blocks ds))"

lemma data_block_not_sentinel: "int i < sentinelBlockIndex \<Longrightarrow> fst (block_of ds i) \<noteq> sentinelBlockID"
  by (simp add: block_of_def sentinelBlockID_def blockID_inj sentinelBlockIndex_def)

lemma data_blocks_snoc: "data_blocks (ds @ [d]) = data_blocks ds @ [(blockIDIntToBase64 (int (length ds)), d)]"
  by (simp add: data_blocks_def block_of_def nth_append)

lemma data_blocks_snd: "map snd (data_blocks ds) = ds"
  by (simp add: data_blocks_def block_of_def comp_def map_nth)

lemma data_blocks_fst: "map fst (data_blocks ds) = map blockIDIntToBase64 (map int [0..<length ds])"
  by (simp add: data_blocks_def block_of_def comp_def)

lemma all_blocks_distinct:
  assumes "int (length ds) \<le> sentinelBlockIndex" "mset bs = all_blocks ds"
  shows "distinct (map fst bs)"
proof -
  have "distinct (map fst (data_blocks ds))"
    using assms(1) unfolding data_blocks_fst by (auto simp: distinct_map inj_on_def blockID_inj sentinelBlockIndex_def)
  moreover have "sentinelBlockID \<notin> set (map fst (data_blocks ds))"
  proof
    assume "sentinelBlockID \<in> set (map fst (data_blocks ds))"
    then obtain i where "i < length ds" "sentinelBlockID = fst (block_of ds i)" by (auto simp: data_blocks_def)
    with data_block_not_sentinel [of i ds] assms(1) show False by simp
  qed
  ultimately have "distinct (map fst ((sentinelBlockID, [CHR 0x00]) # data_blocks ds))" by simp
  moreover have "mset (map fst bs) = mset (map fst ((sentinelBlockID, [CHR 0x00]) # data_blocks ds))"
    using assms(2) by (simp add: all_blocks_def)
  ultimately show ?thesis by (metis mset_eq_imp_distinct_iff)
qed

text \<open>Counting the blocks finds the indices and the number of bytes, whatever the order.\<close>

lemma count_blocks_run:
  assumes "\<forall>x \<in> set bs. x = (sentinelBlockID, [CHR 0x00]) \<or> (\<exists>i. int i < sentinelBlockIndex \<and> fst x = blockIDIntToBase64 (int i))"
    "0 \<le> n" "n + int (length (concat (map snd bs))) \<le> MaxInt64"
  shows "\<exists>js. count_blocks (listed bs) n idx =
      Inr (n + int (length (concat (map snd (filter (\<lambda>x. fst x \<noteq> sentinelBlockID) bs)))), idx @ js) \<and>
      map blockIDIntToBase64 js = map fst (filter (\<lambda>x. fst x \<noteq> sentinelBlockID) bs) \<and> (\<forall>j \<in> set js. 0 \<le> j \<and> j < sentinelBlockIndex)"
  using assms
proof (induction bs arbitrary: n idx)
  case (Cons x bs)
  obtain name d where x: "x = (name, d)" by (cases x)
  show ?case
  proof (cases "name = sentinelBlockID")
    case True
    with Cons.IH [of n idx] Cons.prems x show ?thesis by (auto simp: listed_def)
  next
    case False
    with Cons.prems(1) x obtain i where i: "int i < sentinelBlockIndex" "name = blockIDIntToBase64 (int i)" by auto
    have dec: "blockIDBase64ToInt name = Some (int i)" using i by (simp add: blockID_roundtrip sentinelBlockIndex_def)
    have add: "add64 n (int (length d)) = n + int (length d)" using Cons.prems(2,3) x by (intro add64_id) (auto simp: int64_defs)
    from Cons.IH [of "n + int (length d)" "idx @ [int i]"] Cons.prems x obtain js where
      js: "count_blocks (listed bs) (n + int (length d)) (idx @ [int i]) =
        Inr (n + int (length d) + int (length (concat (map snd (filter (\<lambda>x. fst x \<noteq> sentinelBlockID) bs)))), (idx @ [int i]) @ js)"
        "map blockIDIntToBase64 js = map fst (filter (\<lambda>x. fst x \<noteq> sentinelBlockID) bs)" "\<forall>j \<in> set js. 0 \<le> j \<and> j < sentinelBlockIndex"
      by auto
    have "count_blocks (listed (x # bs)) n idx = count_blocks (listed bs) (n + int (length d)) (idx @ [int i])"
      using False dec add x by (simp add: listed_def)
    with js i x False show ?thesis by (intro exI [of _ "int i # js"]) simp
  qed
qed (simp add: listed_def)

lemma data_blocks_no_sentinel:
  assumes "int (length ds) \<le> sentinelBlockIndex" "x \<in> set (data_blocks ds)"
  shows "fst x \<noteq> sentinelBlockID"
  using assms data_block_not_sentinel by (fastforce simp: data_blocks_def)

lemma count_all_blocks:
  assumes "mset bs = all_blocks ds" "int (length ds) \<le> sentinelBlockIndex" "int (length (concat ds)) < MaxInt64"
  shows "\<exists>js. count_blocks (listed bs) 0 [] = Inr (int (length (concat ds)), js) \<and> sort js = map int [0..<length ds]"
proof -
  let ?f = "filter (\<lambda>x. fst x \<noteq> sentinelBlockID)"
  have set: "set bs = insert (sentinelBlockID, [CHR 0x00]) (set (data_blocks ds))"
    using arg_cong [OF assms(1), of set_mset] by (simp add: all_blocks_def)
  have "mset (?f bs) = filter_mset (\<lambda>x. fst x \<noteq> sentinelBlockID) (all_blocks ds)" by (simp add: assms(1) flip: assms(1))
  also have "\<dots> = mset (data_blocks ds)"
    using data_blocks_no_sentinel [OF assms(2)] by (simp add: all_blocks_def filter_mset_eq_conv)
  finally have f: "mset (?f bs) = mset (data_blocks ds)" .
  have len: "length (concat (map snd xs)) = length (concat (map snd ys))" if "mset xs = mset ys" for xs ys :: "(string \<times> bytes) list"
  proof -
    have "mset (map (length \<circ> snd) xs) = mset (map (length \<circ> snd) ys)" using that by simp
    then have "sum_list (map (length \<circ> snd) xs) = sum_list (map (length \<circ> snd) ys)" by (metis sum_mset_sum_list)
    then show ?thesis by (simp add: length_concat)
  qed
  have "mset bs = mset ((sentinelBlockID, [CHR 0x00]) # data_blocks ds)" using assms(1) by (simp add: all_blocks_def)
  from len [OF this] have total: "int (length (concat (map snd bs))) \<le> MaxInt64" using assms(3) by (simp add: data_blocks_snd)
  have "\<forall>x \<in> set bs. x = (sentinelBlockID, [CHR 0x00]) \<or> (\<exists>i. int i < sentinelBlockIndex \<and> fst x = blockIDIntToBase64 (int i))"
    using assms(2) unfolding set by (force simp: data_blocks_def block_of_def)
  from count_blocks_run [OF this, of 0 "[]"] total len [OF f] obtain js where
    js: "count_blocks (listed bs) 0 [] = Inr (int (length (concat ds)), js)" "map blockIDIntToBase64 js = map fst (?f bs)"
      "\<forall>j \<in> set js. 0 \<le> j \<and> j < sentinelBlockIndex" by (auto simp: data_blocks_snd)
  have "image_mset blockIDIntToBase64 (mset js) = mset (map fst (data_blocks ds))"
    using f js(2) by (metis mset_map)
  also have "\<dots> = image_mset blockIDIntToBase64 (mset (map int [0..<length ds]))" by (simp only: data_blocks_fst mset_map)
  finally have "image_mset (the \<circ> blockIDBase64ToInt) (image_mset blockIDIntToBase64 (mset js)) =
      image_mset (the \<circ> blockIDBase64ToInt) (image_mset blockIDIntToBase64 (mset (map int [0..<length ds])))" by (rule arg_cong)
  moreover have "image_mset (the \<circ> blockIDBase64ToInt) (image_mset blockIDIntToBase64 M) = M" if "\<forall>j \<in># M. 0 \<le> j \<and> j < sentinelBlockIndex" for M
    unfolding multiset.map_comp using that by (intro trans [OF multiset.map_cong_simp multiset.map_ident])
      (auto simp: blockID_roundtrip sentinelBlockIndex_def simp_implies_def)
  ultimately have "mset js = mset (map int [0..<length ds])" using js(3) assms(2) by simp
  then have "sort js = map int [0..<length ds]"
    by (intro properties_for_sort) (simp_all add: sorted_map)
  with js(1) show ?thesis by blast
qed

section \<open>Uploads\<close>

text \<open>
  An upload \<open>i\<close> that has been created and has the blocks \<open>ds\<close>, next to the marker; whatever has
  been committed before under the same name does not matter. And one that has been finished.
\<close>

definition az_plain_key :: "'s AzureStore \<Rightarrow> string \<Rightarrow> bool" where
  "az_plain_key store i \<longleftrightarrow> \<not> HasSuffix (az_keyWithPrefix store i) InfoBlobSuffix"

definition az_info_ok :: "'s AzureStore \<Rightarrow> az_blobs \<Rightarrow> string \<Rightarrow> FileInfo \<Rightarrow> bool" where
  "az_info_ok store v i info \<longleftrightarrow> az_plain_key store i \<and> ID info = i \<and> Size info \<le> MaxBlockBlobSize (az_client store) \<and>
     as_content (v (az_keyWithPrefix store (az_infoPath i))) = Some [J info]"

definition az_open :: "'s AzureStore \<Rightarrow> az_blobs \<Rightarrow> string \<Rightarrow> FileInfo \<Rightarrow> bytes list \<Rightarrow> bool" where
  "az_open store v i info ds \<longleftrightarrow> az_info_ok store v i info \<and>
     mset (as_staged (v (az_keyWithPrefix store i))) = all_blocks ds \<and> int (length ds) \<le> bc_MaxBlocks (az_client store)"

definition az_finished :: "'s AzureStore \<Rightarrow> az_blobs \<Rightarrow> string \<Rightarrow> FileInfo \<Rightarrow> bytes \<Rightarrow> bool" where
  "az_finished store v i info data \<longleftrightarrow> az_info_ok store v i info \<and>
     (let b = v (az_keyWithPrefix store i) in as_content b = Some (map B data) \<and> as_staged b = [] \<and> concat (map snd (as_committed b)) = data)"

definition az_usable :: "'s AzureStore \<Rightarrow> ('s \<Rightarrow> az_blobs) \<Rightarrow> 's azenv \<Rightarrow> bool" where
  "az_usable store view s \<longleftrightarrow> az_reliable (az_client store) view \<and> bc_MaxBlocks (az_client store) < sentinelBlockIndex \<and>
     bc_MaxStageBlockBytes (az_client store) \<le> MaxInt64 \<and> (\<forall>n. fs_faults (az_machine s) n = None)"

lemma info_key_suffix: "HasSuffix (az_keyWithPrefix store (az_infoPath i)) InfoBlobSuffix"
  by (auto simp: az_keyWithPrefix_def az_infoPath_def HasSuffix_def suffix_def Let_def)

lemma az_info_key_neq: "az_plain_key store i \<Longrightarrow> az_keyWithPrefix store (az_infoPath i) \<noteq> az_keyWithPrefix store i"
  using info_key_suffix [of store i] by (auto simp: az_plain_key_def)

lemma azcallE:
  assumes "azcall f s = (r, s')"
  obtains x where "f (az_remote s) = (r, x)" "s' = s\<lparr>az_remote := x\<rparr>"
  using assms by (auto simp: azcall_def split: prod.splits)

text \<open>Writing to the temporary file appends, and does not fail when the machine does not.\<close>

interpretation az_tmp_writer: reliable_writer az_tmp_Write "\<lambda>w d w'. snd w' = snd w @ d"
  "\<lambda>w. \<forall>n. fs_faults (fst w) n = None"
proof
  show "n \<le> length d \<and> snd s' = snd s @ take n d" if "az_tmp_Write d s = ((n, e), s')" for d s n e s'
    using that by (auto simp: az_tmp_Write_def Let_def split: prod.splits option.splits)
  show "\<exists>s'. az_tmp_Write d s = ((length d, None), s') \<and> (\<forall>n. fs_faults (fst s') n = None)"
    if "\<forall>n. fs_faults (fst s) n = None" for d s
    using that by (cases s) (simp add: az_tmp_Write_def tick_def)
qed simp_all

lemma az_GetUpload_run:
  assumes "az_reliable (az_client store) view" "az_GetUpload store i s = (r, s')" "az_info_ok store (view (az_remote s)) i info"
    and "\<And>x rb blob y. view x = view (az_remote s) \<Longrightarrow>
      blob_GetOffset (az_client store) (BlockBlob (az_keyWithPrefix store i) [] (ServiceAccessTier (az_Service store))) x = (rb, blob, y) \<Longrightarrow>
      rb = Inr n \<and> blob = BlockBlob (az_keyWithPrefix store i) idx (ServiceAccessTier (az_Service store)) \<and> view y = view x"
  shows "\<exists>u. r = Inr u \<and> au_InfoHandler u = Some (info\<lparr>Offset := n\<rparr>) \<and>
    au_BlockBlob u = BlockBlob (az_keyWithPrefix store i) idx (ServiceAccessTier (az_Service store)) \<and>
    view (az_remote s') = view (az_remote s) \<and> az_machine s' = az_machine s"
proof -
  let ?ib = "NewBlob (az_Service store) (az_keyWithPrefix store (az_infoPath i))"
  have ib: "?ib = InfoBlob (az_keyWithPrefix store (az_infoPath i))" using info_key_suffix by (simp add: NewBlob_def)
  have bb: "NewBlob (az_Service store) (az_keyWithPrefix store i) = BlockBlob (az_keyWithPrefix store i) [] (ServiceAccessTier (az_Service store))"
    using assms(3) by (simp add: NewBlob_def az_info_ok_def az_plain_key_def)
  obtain r1 s1 where c: "azcall (blob_Download (az_client store) ?ib) s = (r1, s1)" by (metis surj_pair)
  then obtain x where x: "blob_Download (az_client store) ?ib (az_remote s) = (r1, x)" "s1 = s\<lparr>az_remote := x\<rparr>" by (rule azcallE)
  obtain r2 y where d: "bc_DownloadStream (az_client store) (az_keyWithPrefix store (az_infoPath i)) (az_remote s) = (r2, y)" by (metis surj_pair)
  from az_reliableD(4) [OF assms(1)] d assms(3) have "r2 = Inr ([J info], None)" "view y = view (az_remote s)"
    by (auto simp: az_whole_ok_def az_info_ok_def)
  with x(1) d ib have r1: "r1 = Inr ([J info], None)" "view x = view (az_remote s)" by (auto simp: blob_Download_def)
  obtain rb blob z where o: "blob_GetOffset (az_client store) (NewBlob (az_Service store) (az_keyWithPrefix store i)) x = (rb, blob, z)" by (metis surj_pair)
  from assms(4) [OF r1(2) o [unfolded bb]] have "rb = Inr n" "blob = BlockBlob (az_keyWithPrefix store i) idx (ServiceAccessTier (az_Service store))"
    "view z = view (az_remote s)" using r1(2) by auto
  with assms(2,3) c r1 o x(2) show ?thesis by (auto simp: az_GetUpload_def Let_def az_info_ok_def az_offset_def)
qed

lemma az_GetUpload_open:
  assumes us: "az_usable store view s" and run: "az_GetUpload store i s = (r, s')" and up: "az_open store (view (az_remote s)) i info ds"
    and len: "int (length (concat ds)) < MaxInt64"
  shows "\<exists>u. r = Inr u \<and> au_InfoHandler u = Some (info\<lparr>Offset := int (length (concat ds))\<rparr>) \<and>
    au_BlockBlob u = BlockBlob (az_keyWithPrefix store i) (map int [0..<length ds]) (ServiceAccessTier (az_Service store)) \<and>
    view (az_remote s') = view (az_remote s) \<and> az_machine s' = az_machine s"
proof (rule az_GetUpload_run [OF _ run])
  show rel: "az_reliable (az_client store) view" using us by (simp add: az_usable_def)
  show "az_info_ok store (view (az_remote s)) i info" using up by (simp add: az_open_def)
  fix x rb blob y
  let ?k = "az_keyWithPrefix store i" and ?t = "ServiceAccessTier (az_Service store)"
  assume x: "view x = view (az_remote s)" and o: "blob_GetOffset (az_client store) (BlockBlob ?k [] ?t) x = (rb, blob, y)"
  obtain r1 z where l: "bc_GetBlockList (az_client store) ?k x = (r1, z)" by (metis surj_pair)
  have staged: "mset (as_staged (view x ?k)) = all_blocks ds" using up x by (simp add: az_open_def)
  then have "view x ?k \<noteq> no_blob" by (auto simp: no_blob_def all_blocks_def)
  with az_reliableD(2) [OF rel, unfolded az_list_ok_def, rule_format, OF l] staged obtain bs where
    bs: "mset bs = all_blocks ds" "r1 = Inr (listed (as_committed (view x ?k)), listed bs)" "view z = view x"
    by auto
  then have "listed bs \<noteq> []" by (auto simp: listed_def all_blocks_def)
  moreover have "int (length ds) \<le> sentinelBlockIndex" using up us by (simp add: az_open_def az_usable_def)
  from count_all_blocks [OF bs(1) this len] obtain js where
    "count_blocks (listed bs) 0 [] = Inr (int (length (concat ds)), js)" "sort js = map int [0..<length ds]" by blast
  ultimately show "rb = Inr (int (length (concat ds))) \<and> blob = BlockBlob ?k (map int [0..<length ds]) ?t \<and> view y = view x"
    using o l bs(2,3) by simp
qed

lemma fold_sizes:
  assumes "0 \<le> n" "n + int (length (concat (map snd bs))) \<le> MaxInt64"
  shows "fold (\<lambda>bl acc. add64 acc (bl_Size bl)) (listed bs) n = n + int (length (concat (map snd bs)))"
  using assms
proof (induction bs arbitrary: n)
  case (Cons x bs)
  have "add64 n (int (length (snd x))) = n + int (length (snd x))" using Cons.prems by (intro add64_id) (auto simp: int64_defs)
  with Cons show ?case by (simp add: listed_def case_prod_beta)
qed (simp add: listed_def)

lemma az_GetUpload_finished:
  assumes us: "az_usable store view s" and run: "az_GetUpload store i s = (r, s')" and up: "az_finished store (view (az_remote s)) i info data"
    and len: "int (length data) < MaxInt64"
  shows "\<exists>u. r = Inr u \<and> au_InfoHandler u = Some (info\<lparr>Offset := int (length data)\<rparr>) \<and>
    au_BlockBlob u = BlockBlob (az_keyWithPrefix store i) [] (ServiceAccessTier (az_Service store)) \<and>
    view (az_remote s') = view (az_remote s) \<and> az_machine s' = az_machine s"
proof (rule az_GetUpload_run [OF _ run])
  show rel: "az_reliable (az_client store) view" using us by (simp add: az_usable_def)
  show "az_info_ok store (view (az_remote s)) i info" using up by (simp add: az_finished_def)
  fix x rb blob y
  let ?k = "az_keyWithPrefix store i" and ?t = "ServiceAccessTier (az_Service store)"
  assume x: "view x = view (az_remote s)" and o: "blob_GetOffset (az_client store) (BlockBlob ?k [] ?t) x = (rb, blob, y)"
  obtain r1 z where l: "bc_GetBlockList (az_client store) ?k x = (r1, z)" by (metis surj_pair)
  have b: "as_content (view x ?k) = Some (map B data)" "as_staged (view x ?k) = []" "concat (map snd (as_committed (view x ?k))) = data"
    using up x by (simp_all add: az_finished_def Let_def)
  then have "view x ?k \<noteq> no_blob" by (auto simp: no_blob_def)
  with az_reliableD(2) [OF rel, unfolded az_list_ok_def, rule_format, OF l] b(2)
  have "r1 = Inr (listed (as_committed (view x ?k)), [])" "view z = view x" by (auto simp: listed_def)
  with o l fold_sizes [of 0 "as_committed (view x ?k)"] b(3) len
  show "rb = Inr (int (length data)) \<and> blob = BlockBlob ?k [] ?t \<and> view y = view x" by simp
qed

lemma calm_tmp:
  assumes "\<forall>n. fs_faults m n = None" "az_tmp operation m = (e, m')"
  shows "e = None \<and> (\<forall>n. fs_faults m' n = None)"
  using assms by (auto simp: az_tmp_def tick_def)

lemma az_NewUpload_run:
  assumes us: "az_usable store view s" and run: "az_NewUpload store info s = (r, s')" and i: "ID info = i" "i \<noteq> []" "to_valid_utf8 i = i"
    and key: "az_plain_key store i" and sz: "Size info \<le> MaxBlockBlobSize (az_client store)"
    and lim: "1 \<le> bc_MaxStageBlockBytes (az_client store)" "0 \<le> bc_MaxBlocks (az_client store)"
    and new: "as_staged (view (az_remote s) (az_keyWithPrefix store i)) = []"
  shows "\<exists>u info'. r = Inr u \<and> az_open store (view (az_remote s')) i info' [] \<and> Size info' = Size info \<and> au_ID u = i \<and>
    au_BlockBlob u = BlockBlob (az_keyWithPrefix store i) [] (ServiceAccessTier (az_Service store)) \<and> az_machine s' = az_machine s"
proof -
  let ?k = "az_keyWithPrefix store i" and ?ik = "az_keyWithPrefix store (az_infoPath i)" and ?t = "ServiceAccessTier (az_Service store)"
  let ?i = "info\<lparr>Storage := [(''Type'', ''azurestore''), (''Container'', az_Container store), (''Key'', ?k)]\<rparr>"
  have rel: "az_reliable (az_client store) view" using us by (simp add: az_usable_def)
  have ib: "NewBlob (az_Service store) ?ik = InfoBlob ?ik" using info_key_suffix by (simp add: NewBlob_def)
  have bb: "NewBlob (az_Service store) ?k = BlockBlob ?k [] ?t" using key by (simp add: NewBlob_def az_plain_key_def)
  obtain e1 x where up: "bc_UploadStream (az_client store) ?ik [J (json_norm ?i)] (az_remote s) = (e1, x)" by (metis surj_pair)
  from az_reliableD(4) [OF rel] up have
    x: "e1 = None" "view x = (view (az_remote s))(?ik := \<lparr>as_content = Some [J (json_norm ?i)], as_committed = [], as_staged = []\<rparr>)"
    by (auto simp: az_whole_ok_def)
  obtain e2 y where st: "bc_StageBlock (az_client store) ?k sentinelBlockID [CHR 0x00] x = (e2, y)" by (metis surj_pair)
  from az_reliableD(1) [OF rel, unfolded az_stage_ok_def, rule_format, OF st] lim(1) x(2) new az_info_key_neq [OF key] have
    y: "e2 = None" "view y = (view x)(?k := (view (az_remote s) ?k)\<lparr>as_staged := [(sentinelBlockID, [CHR 0x00])]\<rparr>)" by auto
  from run i up x(1) st y(1) sz ib bb obtain u where "r = Inr u \<and> au_ID u = i \<and> au_BlockBlob u = BlockBlob ?k [] ?t \<and> s' = s\<lparr>az_remote := y\<rparr>"
    by (auto simp: az_NewUpload_def az_writeInfo_def azcall_def json_Marshal_def Let_def)
  moreover have "az_open store (view y) i (json_norm ?i) []"
    using key i sz lim(2) x(2) y(2) az_info_key_neq [OF key] by (simp add: az_open_def az_info_ok_def json_norm_def all_blocks_def data_blocks_def)
  moreover have "Size (json_norm ?i) = Size info" by (simp add: json_norm_def)
  ultimately show ?thesis by (intro exI [of _ u] exI [of _ "json_norm ?i"]) simp
qed

lemma update_fresh: "k \<notin> fst ` set xs \<Longrightarrow> AList.update k v xs = xs @ [(k, v)]"
  by (induction xs) auto

lemma az_WriteChunk_run:
  assumes us: "az_usable store view s" and run: "az_WriteChunk store u offset b s = ((n, e), b', u', s')"
    and u: "au_BlockBlob u = BlockBlob (az_keyWithPrefix store i) (map int [0..<length ds]) tier" "au_InfoHandler u \<noteq> None"
    and up: "az_open store (view (az_remote s)) i info ds" "int (length ds) < bc_MaxBlocks (az_client store)"
    and b: "fresh_reader b" "reader_data b \<noteq> []" "int (length (reader_data b)) \<le> bc_MaxStageBlockBytes (az_client store)"
  shows "e = None \<and> n = int (length (reader_data b)) \<and> br_err b' = reader_err b \<and> az_usable store view s' \<and>
    az_open store (view (az_remote s')) i info (ds @ [reader_data b]) \<and>
    au_BlockBlob u' = BlockBlob (az_keyWithPrefix store i) (map int [0..<length (ds @ [reader_data b])]) tier \<and>
    (\<forall>k. k \<noteq> az_keyWithPrefix store i \<longrightarrow> view (az_remote s') k = view (az_remote s) k)"
proof -
  let ?k = "az_keyWithPrefix store i" and ?d = "reader_data b" and ?cl = "az_client store"
  have rel: "az_reliable ?cl view" and calm: "\<forall>n. fs_faults (az_machine s) n = None" and lim: "int (length ?d) \<le> MaxInt64"
    using us b(3) by (auto simp: az_usable_def)
  obtain e1 m1 where t1: "az_tmp ''open'' (az_machine s) = (e1, m1)" by (metis surj_pair)
  note c1 = calm_tmp [OF calm t1]
  obtain n2 e2 b2 m2 data where cp: "io_Copy az_tmp_Write b 0 (m1, []) = ((n2, e2), b2, m2, data)" by (metis surj_pair)
  from az_tmp_writer.io_Copy_ok [OF _ cp] c1 have c2: "e2 = None" "\<forall>n. fs_faults m2 n = None" by auto
  from az_tmp_writer.io_Copy_appends [OF b(1) _ _ cp] lim c2(1) have
    data: "n2 = int (length ?d)" "data = ?d" "br_err b2 = reader_err b" by auto
  obtain e3 m3 where t3: "az_tmp ''seek'' m2 = (e3, m3)" by (metis surj_pair)
  note c3 = calm_tmp [OF c2(2) t3]
  have idx: "next_index (map int [0..<length ds]) = int (length ds)"
  proof (cases "length ds")
    case (Suc k)
    have "add64 (int k) 1 = int k + 1"
      using us up(2) Suc by (intro add64_id) (auto simp: az_usable_def sentinelBlockIndex_def int64_defs)
    with Suc show ?thesis by (simp add: next_index_def)
  qed (simp add: next_index_def)
  obtain e4 x where st: "bc_StageBlock ?cl ?k (blockIDIntToBase64 (int (length ds))) ?d (az_remote s) = (e4, x)" by (metis surj_pair)
  from az_reliableD(1) [OF rel, unfolded az_stage_ok_def, rule_format, OF st b(2,3)] have
    x: "e4 = None" "view x = (view (az_remote s))(?k := (view (az_remote s) ?k)\<lparr>as_staged :=
      AList.update (blockIDIntToBase64 (int (length ds))) ?d (as_staged (view (az_remote s) ?k))\<rparr>)" by auto
  have up_run: "blob_Upload ?cl (au_BlockBlob u) m3 (map B data) (az_remote s) =
      (None, BlockBlob ?k (map int [0..<length ds] @ [int (length ds)]) tier, x)"
    using u(1) idx st x(1) data(2) by (simp add: render_def comp_def)
  obtain e5 m5 where t5: "az_tmp ''close'' m3 = (e5, m5)" by (metis surj_pair)
  note c5 = calm_tmp [OF _ t5]
  have res: "e = None" "n = int (length ?d)" "b' = b2" "s' = s\<lparr>az_machine := m5, az_remote := x\<rparr>"
    "au_BlockBlob u' = BlockBlob ?k (map int [0..<length ds] @ [int (length ds)]) tier"
    using run t1 c1 cp c2 t3 c3 up_run t5 c5 data(1) b(3) u(2) by (auto simp: az_WriteChunk_def MaxBlockBlobChunkSize_def)
  let ?st = "as_staged (view (az_remote s) ?k)"
  have staged: "mset ?st = all_blocks ds" using up(1) by (simp add: az_open_def)
  have small: "int (length ds) < sentinelBlockIndex" using us up(2) by (simp add: az_usable_def)
  have "blockIDIntToBase64 (int (length ds)) \<notin> fst ` set ?st"
  proof
    assume "blockIDIntToBase64 (int (length ds)) \<in> fst ` set ?st"
    then obtain d where "(blockIDIntToBase64 (int (length ds)), d) \<in># all_blocks ds" using staged by (metis imageE prod.collapse set_mset_mset)
    then show False using data_block_not_sentinel [of "length ds" "ds @ [d]"] small
      by (auto simp: all_blocks_def data_blocks_def block_of_def blockID_inj sentinelBlockIndex_def)
  qed
  then have "AList.update (blockIDIntToBase64 (int (length ds))) ?d ?st = ?st @ [(blockIDIntToBase64 (int (length ds)), ?d)]"
    by (rule update_fresh)
  then have "mset (as_staged (view x ?k)) = all_blocks (ds @ [?d])" using x(2) staged by (simp add: all_blocks_def data_blocks_snoc)
  then have "az_open store (view x) i info (ds @ [?d])"
    using up az_info_key_neq [of store i] x(2) by (auto simp: az_open_def az_info_ok_def)
  moreover have "az_usable store view s'" using us c5 c3 res(4) by (simp add: az_usable_def)
  ultimately show ?thesis using res data(3) x(2) by simp
qed

lemma az_FinishUpload_run:
  assumes us: "az_usable store view s" and run: "az_FinishUpload store u s = (e, u', s')"
    and u: "au_BlockBlob u = BlockBlob (az_keyWithPrefix store i) (map int [0..<length ds]) tier"
    and up: "az_open store (view (az_remote s)) i info ds"
  shows "e = None \<and> u' = u \<and> az_finished store (view (az_remote s')) i info (concat ds) \<and> az_usable store view s' \<and>
    (\<forall>k. k \<noteq> az_keyWithPrefix store i \<longrightarrow> view (az_remote s') k = view (az_remote s) k)"
proof -
  let ?k = "az_keyWithPrefix store i" and ?cl = "az_client store"
  have rel: "az_reliable ?cl view" using us by (simp add: az_usable_def)
  obtain e1 x where c: "bc_CommitBlockList ?cl ?k (map fst (data_blocks ds)) tier (az_remote s) = (e1, x)" by (metis surj_pair)
  have staged: "mset (as_staged (view (az_remote s) ?k)) = all_blocks ds" and len: "int (length ds) \<le> bc_MaxBlocks ?cl"
    using up by (simp_all add: az_open_def)
  have "int (length ds) \<le> sentinelBlockIndex" using len us by (simp add: az_usable_def)
  from all_blocks_distinct [OF this staged] have dist: "distinct (map fst (as_staged (view (az_remote s) ?k)))" .
  have all: "map_of (as_staged (view (az_remote s) ?k)) j = Some d" if "(j, d) \<in> set (data_blocks ds)" for j d
  proof -
    have "(j, d) \<in># mset (as_staged (view (az_remote s) ?k))" unfolding staged using that by (simp add: all_blocks_def)
    then show ?thesis using dist by (simp add: map_of_is_SomeI)
  qed
  have "int (length (data_blocks ds)) \<le> bc_MaxBlocks ?cl" using len by (simp add: data_blocks_def)
  from az_reliableD(3) [OF rel, unfolded az_commit_ok_def, rule_format, OF c this] all have
    x: "e1 = None" "view x = (view (az_remote s))(?k := \<lparr>as_content = Some (map B (concat ds)), as_committed = data_blocks ds, as_staged = []\<rparr>)"
    by (auto simp: data_blocks_snd)
  have "e = None" "u' = u" "s' = s\<lparr>az_remote := x\<rparr>" using run u c x(1) by (auto simp: az_FinishUpload_def azcall_def data_blocks_fst comp_def)
  moreover have "az_finished store (view x) i info (concat ds)"
    using up x(2) az_info_key_neq [of store i] by (auto simp: az_open_def az_finished_def az_info_ok_def data_blocks_snd Let_def)
  ultimately show ?thesis using us x(2) by (simp add: az_usable_def)
qed

end
