(* ===== verification/AzureUpload.thy ===== *)
theory AzureUpload
  imports AzureFacts
begin

text \<open>
  The properties of uploads to Azure, and a client library in memory for examples.
\<close>

section \<open>Uploads in several requests\<close>

text \<open>
  Every request to continue an upload finds all its blocks again: the reported offset is
  the number of bytes in the blocks, and the chunk that is written becomes the next block,
  whatever order the service lists the blocks in and whatever an earlier version of the blob
  holds. Other blobs do not change. The chunk must not be empty, and the limits of the service
  must be kept.
\<close>

theorem az_resumes_at_the_end:
  assumes us: "az_usable store view s" and up: "az_open store (view (az_remote s)) i info ds" "int (length ds) < bc_MaxBlocks (az_client store)"
    and len: "int (length (concat ds)) < MaxInt64" and b: "fresh_reader b" "reader_data b \<noteq> []"
      "int (length (reader_data b)) \<le> MaxBlockBlobChunkSize (az_client store)"
    and get: "az_GetUpload store i s = (r1, s1)"
    and wr: "\<And>u. r1 = Inr u \<Longrightarrow> az_WriteChunk store u offset b s1 = ((n, e), b', u', s')"
  shows "\<exists>u. r1 = Inr u \<and> fst (az_GetInfo store u s1) = Inr (info\<lparr>Offset := int (length (concat ds))\<rparr>) \<and>
    e = None \<and> n = int (length (reader_data b)) \<and> az_open store (view (az_remote s')) i info (ds @ [reader_data b]) \<and>
    (\<forall>k. k \<noteq> az_keyWithPrefix store i \<longrightarrow> view (az_remote s') k = view (az_remote s) k)"
proof -
  from az_GetUpload_open [OF us get up(1) len] obtain u where
    u: "r1 = Inr u" "au_InfoHandler u = Some (info\<lparr>Offset := int (length (concat ds))\<rparr>)"
      "au_BlockBlob u = BlockBlob (az_keyWithPrefix store i) (map int [0..<length ds]) (ServiceAccessTier (az_Service store))"
      "view (az_remote s1) = view (az_remote s)" "az_machine s1 = az_machine s" by blast
  have us1: "az_usable store view s1" using us u(5) by (simp add: az_usable_def)
  have "au_InfoHandler u \<noteq> None" "az_open store (view (az_remote s1)) i info ds" using u(2,4) up(1) by simp_all
  from az_WriteChunk_run [OF us1 wr [OF u(1)] u(3) this up(2) b(1,2) b(3) [unfolded MaxBlockBlobChunkSize_def]] u
  show ?thesis by (auto simp: az_GetInfo_def)
qed

text \<open>A client that sends chunks, each in a request of its own; the last handle is kept to finish the upload.\<close>

fun az_requests :: "'s AzureStore \<Rightarrow> string \<Rightarrow> AzUpload \<Rightarrow> bodyReader list \<Rightarrow> 's azenv \<Rightarrow> (err + AzUpload) \<times> 's azenv" where
  "az_requests store i u [] s = (Inr u, s)"
| "az_requests store i u (b # bs) s =
     (case az_GetUpload store i s of
        (Inl e, s1) \<Rightarrow> (Inl e, s1)
      | (Inr u1, s1) \<Rightarrow>
          (case az_GetInfo store u1 s1 of
             (Inl e, u2, s2) \<Rightarrow> (Inl e, s2)
           | (Inr info, u2, s2) \<Rightarrow>
               (case az_WriteChunk store u2 (Offset info) b s2 of
                  ((n, Some e), b', u3, s3) \<Rightarrow> (Inl e, s3)
                | ((n, None), b', u3, s3) \<Rightarrow> az_requests store i u3 bs s3)))"

definition az_chunk_ok :: "'s AzureStore \<Rightarrow> bodyReader \<Rightarrow> bool" where
  "az_chunk_ok store b \<longleftrightarrow> fresh_reader b \<and> reader_data b \<noteq> [] \<and> int (length (reader_data b)) \<le> MaxBlockBlobChunkSize (az_client store)"

lemma az_requests_run:
  assumes "az_usable store view s" "az_open store (view (az_remote s)) i info ds"
    "au_BlockBlob u = BlockBlob (az_keyWithPrefix store i) (map int [0..<length ds]) (ServiceAccessTier (az_Service store))"
    "list_all (az_chunk_ok store) bs" "int (length ds + length bs) \<le> bc_MaxBlocks (az_client store)"
    "int (length (concat (ds @ map reader_data bs))) < MaxInt64" "az_requests store i u bs s = (r, s')"
  shows "\<exists>u'. r = Inr u' \<and> az_usable store view s' \<and> az_open store (view (az_remote s')) i info (ds @ map reader_data bs) \<and>
    au_BlockBlob u' = BlockBlob (az_keyWithPrefix store i) (map int [0..<length (ds @ map reader_data bs)]) (ServiceAccessTier (az_Service store))"
  using assms
proof (induction bs arbitrary: u ds s)
  case (Cons b bs)
  obtain r1 s1 where get: "az_GetUpload store i s = (r1, s1)" by (metis surj_pair)
  have "int (length (concat ds)) < MaxInt64" using Cons.prems(6) by simp
  from az_GetUpload_open [OF Cons.prems(1) get Cons.prems(2) this] obtain u1 where
    u1: "r1 = Inr u1" "au_InfoHandler u1 = Some (info\<lparr>Offset := int (length (concat ds))\<rparr>)"
      "au_BlockBlob u1 = BlockBlob (az_keyWithPrefix store i) (map int [0..<length ds]) (ServiceAccessTier (az_Service store))"
      "view (az_remote s1) = view (az_remote s)" "az_machine s1 = az_machine s" by blast
  have us1: "az_usable store view s1" using Cons.prems(1) u1(5) by (simp add: az_usable_def)
  obtain n e b' u3 s3 where wr: "az_WriteChunk store u1 (int (length (concat ds))) b s1 = ((n, e), b', u3, s3)" by (metis surj_pair)
  have "au_InfoHandler u1 \<noteq> None" "az_open store (view (az_remote s1)) i info ds" "int (length ds) < bc_MaxBlocks (az_client store)"
    "fresh_reader b" "reader_data b \<noteq> []" "int (length (reader_data b)) \<le> bc_MaxStageBlockBytes (az_client store)"
    using u1(2,4) Cons.prems(2,4,5) by (simp_all add: az_chunk_ok_def MaxBlockBlobChunkSize_def)
  from az_WriteChunk_run [OF us1 wr u1(3) this] have w: "e = None" "az_usable store view s3"
    "az_open store (view (az_remote s3)) i info (ds @ [reader_data b])"
    "au_BlockBlob u3 = BlockBlob (az_keyWithPrefix store i) (map int [0..<length (ds @ [reader_data b])]) (ServiceAccessTier (az_Service store))"
    by blast+
  from Cons.prems(7) get u1(1,2) wr w(1) have "az_requests store i u3 bs s3 = (r, s')" by (simp add: az_GetInfo_def)
  from Cons.IH [OF w(2,3,4) _ _ _ this] Cons.prems(4,5,6) show ?case by (simp del: upt_Suc)
qed auto

text \<open>
  An upload to Azure: what is created, sent in any number of requests and committed is read
  back as the concatenation of the chunks, and its offset is its length.
\<close>

theorem az_upload_roundtrip:
  assumes us: "az_usable store view s" and i: "ID info = i" "i \<noteq> []" "to_valid_utf8 i = i" "az_plain_key store i"
    and sz: "Size info \<le> MaxBlockBlobSize (az_client store)" "1 \<le> MaxBlockBlobChunkSize (az_client store)"
    and new: "as_staged (view (az_remote s) (az_keyWithPrefix store i)) = []"
    and bs: "list_all (az_chunk_ok store) bs" "int (length bs) \<le> bc_MaxBlocks (az_client store)"
      "int (length (concat (map reader_data bs))) < MaxInt64"
  shows "\<exists>u s1 u2 s2 s3 u4 s4 info'. az_NewUpload store info s = (Inr u, s1) \<and> az_requests store i u bs s1 = (Inr u2, s2) \<and>
    az_FinishUpload store u2 s2 = (None, u2, s3) \<and> az_GetUpload store i s3 = (Inr u4, s4) \<and>
    fst (az_GetInfo store u4 s4) = Inr info' \<and> Offset info' = int (length (concat (map reader_data bs))) \<and>
    fst (az_GetReader store u4 s4) = Inr (concat (map reader_data bs), None)"
proof -
  let ?k = "az_keyWithPrefix store i" and ?t = "ServiceAccessTier (az_Service store)" and ?data = "concat (map reader_data bs)"
  have rel: "az_reliable (az_client store) view" using us by (simp add: az_usable_def)
  obtain r s1 where nu: "az_NewUpload store info s = (r, s1)" by (metis surj_pair)
  have lim: "1 \<le> bc_MaxStageBlockBytes (az_client store)" "0 \<le> bc_MaxBlocks (az_client store)"
    using sz(2) bs(2) by (simp_all add: MaxBlockBlobChunkSize_def)
  from az_NewUpload_run [OF us nu i(1,2,3,4) sz(1) lim new] obtain u info0 where
    n: "r = Inr u" "az_open store (view (az_remote s1)) i info0 []" "au_BlockBlob u = BlockBlob ?k [] ?t" "az_machine s1 = az_machine s" by blast
  have us1: "az_usable store view s1" using us n(4) by (simp add: az_usable_def)
  obtain r2 s2 where rq: "az_requests store i u bs s1 = (r2, s2)" by (metis surj_pair)
  from az_requests_run [OF us1 n(2) _ bs(1) _ _ rq] n(3) bs(2,3) obtain u2 where
    w: "r2 = Inr u2" "az_usable store view s2" "az_open store (view (az_remote s2)) i info0 (map reader_data bs)"
      "au_BlockBlob u2 = BlockBlob ?k (map int [0..<length (map reader_data bs)]) ?t" by auto
  obtain e3 u3 s3 where fin: "az_FinishUpload store u2 s2 = (e3, u3, s3)" by (metis surj_pair)
  from az_FinishUpload_run [OF w(2) fin w(4,3)] have
    f: "e3 = None" "u3 = u2" "az_finished store (view (az_remote s3)) i info0 ?data" "az_usable store view s3" by blast+
  obtain r4 s4 where get: "az_GetUpload store i s3 = (r4, s4)" by (metis surj_pair)
  from az_GetUpload_finished [OF f(4) get f(3) bs(3)] obtain u4 where
    g: "r4 = Inr u4" "au_InfoHandler u4 = Some (info0\<lparr>Offset := int (length ?data)\<rparr>)" "au_BlockBlob u4 = BlockBlob ?k [] ?t"
      "view (az_remote s4) = view (az_remote s3)" by blast
  obtain r5 y where dl: "bc_DownloadStream (az_client store) ?k (az_remote s4) = (r5, y)" by (metis surj_pair)
  have "as_content (view (az_remote s4) ?k) = Some (map B ?data)" using f(3) g(4) by (simp add: az_finished_def Let_def)
  with az_reliableD(4) [OF rel, unfolded az_whole_ok_def, THEN conjunct2, rule_format, OF dl] have "r5 = Inr (map B ?data, None)" by blast
  with dl g(3) have "fst (az_GetReader store u4 s4) = Inr (?data, None)"
    by (simp add: az_GetReader_def azcall_def blob_Download_def render_def comp_def)
  moreover have "fst (az_GetInfo store u4 s4) = Inr (info0\<lparr>Offset := int (length ?data)\<rparr>)" using g(2) by (simp add: az_GetInfo_def)
  ultimately show ?thesis using nu n(1) rq w(1) fin f(1,2) get g(1)
    by (intro exI [of _ u] exI [of _ s1] exI [of _ u2] exI [of _ s2] exI [of _ s3] exI [of _ u4] exI [of _ s4]
        exI [of _ "info0\<lparr>Offset := int (length ?data)\<rparr>"]) simp
qed

section \<open>A client in memory\<close>

type_synonym mem_az = "(string \<times> az_state) list"

definition ma_view :: "mem_az \<Rightarrow> az_blobs" where
  "ma_view s name = (case map_of s name of Some b \<Rightarrow> b | None \<Rightarrow> no_blob)"

definition az_missing :: az_error where
  "az_missing = \<lparr>ae_response = Some (''BlobNotFound'', 404), ae_err = PlainError ''not found''\<rparr>"

definition memory_az :: "mem_az AzClient" where
  "memory_az =
     \<lparr>bc_Delete = (\<lambda>name snapshots s. (None, map_del name s)),
      bc_StageBlock = (\<lambda>name i d s. (None, map_set name ((ma_view s name)\<lparr>as_staged := AList.update i d (as_staged (ma_view s name))\<rparr>) s)),
      bc_DownloadStream = (\<lambda>name s.
        (case as_content (ma_view s name) of None \<Rightarrow> Inl az_missing | Some c \<Rightarrow> Inr (c, None), s)),
      bc_GetBlockList = (\<lambda>name s.
        (Inr (listed (as_committed (ma_view s name)), listed (rev (as_staged (ma_view s name)))), s)),
      bc_CommitBlockList = (\<lambda>name ids tier s.
        let bs = map (\<lambda>i. (i, the (map_of (as_staged (ma_view s name)) i))) ids
        in (None, map_set name \<lparr>as_content = Some (map B (concat (map snd bs))), as_committed = bs, as_staged = []\<rparr> s)),
      bc_UploadStream = (\<lambda>name c s. (None, map_set name \<lparr>as_content = Some c, as_committed = [], as_staged = []\<rparr> s)),
      bc_MaxBlocks = 50000, bc_MaxStageBlockBytes = 4194304000\<rparr>"

lemma ma_view_set: "ma_view (map_set name b s) = (ma_view s)(name := b)"
  by (auto simp: ma_view_def fun_eq_iff)

lemma memory_az_reliable: "az_reliable memory_az ma_view"
proof -
  have "map (\<lambda>i. (i, the (map_of m i))) (map fst bs) = bs" if "\<forall>(i, d) \<in> set bs. map_of m i = Some d" for bs and m :: "(string \<times> bytes) list"
    using that by (induction bs) auto
  then have "az_commit_ok memory_az ma_view" by (auto simp: az_commit_ok_def memory_az_def ma_view_set Let_def simp del: map_map)
  moreover have "az_list_ok memory_az ma_view"
    unfolding az_list_ok_def by (auto simp: memory_az_def intro!: exI [of _ "rev (as_staged (ma_view s name))" for s name])
  ultimately show ?thesis
    by (auto simp: az_reliable_def az_stage_ok_def az_whole_ok_def memory_az_def ma_view_set)
qed

definition demo_az :: "mem_az AzureStore" where
  "demo_az = az_New \<lparr>ContainerClient = memory_az, ServiceAccessTier = None\<rparr>"

definition az_body :: "bytes \<Rightarrow> bodyReader" where
  "az_body d = newBodyReader [Chunk d (Some EOF)] 40"

lemma az_body_facts [simp]: "fresh_reader (az_body d)" "length d \<le> 40 \<Longrightarrow> reader_data (az_body d) = d"
  by (simp_all add: az_body_def) (simp add: newBodyReader_def limited_run_def)

definition az_env :: "mem_az \<Rightarrow> mem_az azenv" where
  "az_env blobs = \<lparr>az_machine = demo_fs 0 [], az_remote = blobs\<rparr>"

definition az_info :: FileInfo where
  "az_info = emptyFileInfo\<lparr>ID := ''k'', Size := 6\<rparr>"

lemma demo_az_client: "az_client demo_az = memory_az" "ServiceAccessTier (az_Service demo_az) = None"
  by (simp_all add: demo_az_def az_New_def)

lemma demo_az_key: "az_keyWithPrefix demo_az i = i"
  by (simp add: demo_az_def az_New_def az_keyWithPrefix_def)

lemma memory_az_limits: "bc_MaxBlocks memory_az = 50000" "bc_MaxStageBlockBytes memory_az = 4194304000"
  by (simp_all add: memory_az_def)

lemma demo_az_usable: "az_usable demo_az ma_view (az_env blobs)"
  using memory_az_reliable
  by (simp add: az_usable_def demo_az_client memory_az_limits sentinelBlockIndex_def MaxInt64_def az_env_def demo_fs_def)

lemma demo_az_plain: "az_plain_key demo_az ''k''"
  by (simp add: az_plain_key_def demo_az_key InfoBlobSuffix_def HasSuffix_def suffix_def)

theorem az_upload_roundtrip_witness:
  "\<exists>u s1 u2 s2 s3 u4 s4. az_NewUpload demo_az az_info (az_env []) = (Inr u, s1) \<and>
    az_requests demo_az ''k'' u [az_body ''ab'', az_body ''cdef''] s1 = (Inr u2, s2) \<and>
    az_FinishUpload demo_az u2 s2 = (None, u2, s3) \<and> az_GetUpload demo_az ''k'' s3 = (Inr u4, s4) \<and>
    fst (az_GetReader demo_az u4 s4) = Inr (''abcdef'', None)"
proof -
  have utf8: "to_valid_utf8 ''k'' = ''k''" by (simp add: to_valid_utf8_def runes.simps in_range_def)
  have "as_staged (ma_view (az_remote (az_env [])) (az_keyWithPrefix demo_az ''k'')) = []" by (simp add: az_env_def ma_view_def no_blob_def)
  from az_upload_roundtrip [OF demo_az_usable _ _ utf8 demo_az_plain _ _ this, of az_info "[az_body ''ab'', az_body ''cdef'']"]
  show ?thesis
    by (fastforce simp: az_info_def demo_az_client memory_az_limits MaxBlockBlobSize_def MaxBlockBlobChunkSize_def az_chunk_ok_def MaxInt64_def)
qed

text \<open>An upload with one block, over an older version of the blob.\<close>

definition half_az :: mem_az where
  "half_az = [(''k.info'', \<lparr>as_content = Some [J az_info], as_committed = [], as_staged = []\<rparr>),
     (''k'', \<lparr>as_content = Some (map B ''old''), as_committed = [(''x'', ''old'')],
              as_staged = [(sentinelBlockID, [CHR 0x00]), (blockIDIntToBase64 0, ''ab'')]\<rparr>)]"

lemma half_az_open: "az_open demo_az (ma_view (az_remote (az_env half_az))) ''k'' az_info [''ab'']"
  using demo_az_plain
  by (simp add: az_open_def az_info_ok_def demo_az_key demo_az_client memory_az_limits MaxBlockBlobSize_def az_infoPath_def InfoBlobSuffix_def
      az_env_def half_az_def ma_view_def all_blocks_def data_blocks_def block_of_def az_info_def)

theorem az_resumes_at_the_end_witness:
  "\<exists>u s1 b' u' s'. az_GetUpload demo_az ''k'' (az_env half_az) = (Inr u, s1) \<and>
     fst (az_GetInfo demo_az u s1) = Inr (az_info\<lparr>Offset := 2\<rparr>) \<and>
     az_WriteChunk demo_az u 2 (az_body ''cd'') s1 = ((2, None), b', u', s') \<and>
     az_open demo_az (ma_view (az_remote s')) ''k'' az_info [''ab'', ''cd'']"
proof -
  obtain r1 s1 where get: "az_GetUpload demo_az ''k'' (az_env half_az) = (r1, s1)" by (metis surj_pair)
  obtain n e b' u' s' where wr: "az_WriteChunk demo_az (projr r1) 2 (az_body ''cd'') s1 = ((n, e), b', u', s')" by (metis surj_pair)
  have wr': "az_WriteChunk demo_az u 2 (az_body ''cd'') s1 = ((n, e), b', u', s')" if "r1 = Inr u" for u using wr that by simp
  from az_resumes_at_the_end [OF demo_az_usable half_az_open _ _ _ _ _ get wr'] show ?thesis
    using get wr by (auto simp: demo_az_client memory_az_limits MaxBlockBlobChunkSize_def MaxInt64_def)
qed

end
