(* ===== verification/CloudSession.thy ===== *)
theory CloudSession
  imports Session S3Log S3Upload GCSCloud AzureUpload
begin

text \<open>
  The stores in the cloud meet the contract of resumable uploads, as long as their services do
  not fail: the sessions of PATCH requests of any number are correct for all of them. Every
  section ends with the property of the handler with that store, and an example in memory.
\<close>

lemma quiet_fresh: "quiet_reader b \<Longrightarrow> fresh_reader b \<Longrightarrow> reader_err b = None"
  by (simp add: quiet_reader_def fresh_reader_def)

text \<open>For the examples: a handler with a store and nothing else.\<close>

definition store_handler :: "('s, 'u) DataStore \<Rightarrow> ('s, 'u, unit, unit) UnroutedHandler" where
  "store_handler d = new_handler (zeroConfig\<lparr>BasePath := ''/files/'', Cors := Some DefaultCorsConfig\<rparr>) (UseCore (Some d) NewStoreComposer)"

definition store_world :: "'s \<Rightarrow> ('s, unit) world" where
  "store_world s =
     \<lparr>w_store = s, w_locks = (), w_metrics = newMetrics, w_created = [], w_complete = [], w_terminated = [],
      w_progress = [], w_res = newResponseWriter\<rparr>"

lemma store_handler_fields [simp]:
  "Core (composer (store_handler d)) = Some d" "PreFinishResponseCallback (config (store_handler d)) = None" "w_store (store_world s) = s"
  by (simp_all add: store_handler_def store_world_def new_handler_def zeroConfig_def UseCore_def)

lemma demo_append [simp]: "append_request (demo_patch d)"
  by (simp add: append_request_def) (simp add: body_events_def relayed_events_def demo_patch_def plainRequest_def)

section \<open>Google Cloud Storage\<close>

definition gcs_opened ::
  "'s GCSStore \<Rightarrow> ('s \<Rightarrow> gcs_bucket) \<Rightarrow> 's gcsenv \<Rightarrow> string \<Rightarrow> FileInfo \<Rightarrow> bytes \<Rightarrow> nat \<Rightarrow> bool" where
  "gcs_opened store view s i info c k \<longleftrightarrow>
     (\<exists>chunks. gcs_open (view (g_remote s)) (gcs_keyWithPrefix store i) info chunks \<and> c = concat chunks \<and>
        int (length chunks + k) < MaxInt64)"

definition gcs_written ::
  "'s GCSStore \<Rightarrow> ('s \<Rightarrow> gcs_bucket) \<Rightarrow> gcsUpload \<Rightarrow> 's gcsenv \<Rightarrow> string \<Rightarrow> FileInfo \<Rightarrow> bytes \<Rightarrow> nat \<Rightarrow> bool" where
  "gcs_written store view u s i info c k \<longleftrightarrow> u = \<lparr>gcs_id = i\<rparr> \<and>
     (\<exists>chunks. gcs_open (view (g_remote s)) (gcs_keyWithPrefix store i) info chunks \<and> c = concat chunks \<and>
        chunks \<noteq> [] \<and> int (length chunks + k) < MaxInt64)"

abbreviation gcs_complete :: "'s GCSStore \<Rightarrow> ('s \<Rightarrow> gcs_bucket) \<Rightarrow> 's gcsenv \<Rightarrow> string \<Rightarrow> FileInfo \<Rightarrow> bytes \<Rightarrow> bool" where
  "gcs_complete store view s i \<equiv> gcs_finished (view (g_remote s)) (gcs_keyWithPrefix store i)"

lemma gcs_written_opened: "gcs_written store view u s i info c k \<Longrightarrow> gcs_opened store view s i info c k"
  by (auto simp: gcs_written_def gcs_opened_def)

lemma gcsStore_fields:
  "GetUpload (gcsStore store) = gcs_GetUpload store" "GetInfo (gcsStore store) = gcs_GetInfo store"
  "WriteChunk (gcsStore store) = gcs_WriteChunk store" "FinishUpload (gcsStore store) = gcs_FinishUpload store"
  by (simp_all add: gcsStore_def)

interpretation gcs_session: resumable_store "gcsStore (cloud_store cl b pre)"
  "\<lambda>s i info c k. gcs_reliable cl b view \<and> gcs_opened (cloud_store cl b pre) view s i info c k"
  "\<lambda>u s i info c k. gcs_reliable cl b view \<and> u = \<lparr>gcs_id = i\<rparr> \<and> gcs_opened (cloud_store cl b pre) view s i info c k"
  "\<lambda>u s i info c k. gcs_reliable cl b view \<and> gcs_written (cloud_store cl b pre) view u s i info c k"
  "gcs_complete (cloud_store cl b pre) view" "\<lambda>_. True"
  for cl :: "'s GCSClient" and b pre view
proof (unfold_locales; (unfold gcsStore_fields)?; (elim conjE)?)
  let ?st = "cloud_store cl b pre"
  fix i info c k and s :: "'s gcsenv"
  assume rel: "gcs_reliable cl b view" and up: "gcs_opened ?st view s i info c k"
  show "\<exists>u s'. gcs_GetUpload ?st i s = (Inr u, s') \<and>
      gcs_reliable cl b view \<and> u = \<lparr>gcs_id = i\<rparr> \<and> gcs_opened ?st view s' i info c k"
    using rel up by (simp add: gcs_GetUpload_def)
next
  let ?st = "cloud_store cl b pre"
  fix u i info c k and s :: "'s gcsenv"
  assume rel: "gcs_reliable cl b view" and u: "u = \<lparr>gcs_id = i\<rparr>" and up: "gcs_opened ?st view s i info c k"
    and size: "int (length c) < Size info" "Size info \<le> MaxInt64"
  from up obtain chunks where ch: "gcs_open (view (g_remote s)) (gcs_keyWithPrefix ?st (gcs_id u)) info chunks" "c = concat chunks"
    by (auto simp: gcs_opened_def u)
  obtain r u' s' where run: "gcs_GetInfo ?st u s = (r, u', s')" by (metis surj_pair)
  from cloud.GetInfo_open [OF rel run ch(1)] ch(2) size have "r = Inr (info\<lparr>Offset := int (length c)\<rparr>)" "u' = u" "view (g_remote s') = view (g_remote s)"
    by auto
  with run rel u up show "\<exists>info' u' s'. gcs_GetInfo ?st u s = (Inr info', u', s') \<and> Size info' = Size info \<and>
      SizeIsDeferred info' = SizeIsDeferred info \<and> IsFinal info' = IsFinal info \<and> Offset info' = int (length c) \<and>
      gcs_reliable cl b view \<and> u' = \<lparr>gcs_id = i\<rparr> \<and> gcs_opened ?st view s' i info c k"
    by (auto simp: gcs_opened_def)
next
  let ?st = "cloud_store cl b pre"
  fix u i info c k body and s :: "'s gcsenv"
  assume rel: "gcs_reliable cl b view" and u: "u = \<lparr>gcs_id = i\<rparr>" and up: "gcs_opened ?st view s i info c (Suc k)"
    and size: "Size info \<le> MaxInt64" "int (length (c @ reader_data body)) \<le> Size info"
    and body: "fresh_reader body" "quiet_reader body"
  from up obtain chunks where ch: "gcs_open (view (g_remote s)) (gcs_keyWithPrefix ?st (gcs_id u)) info chunks" "c = concat chunks"
    "int (length chunks + Suc k) < MaxInt64" by (auto simp: gcs_opened_def u)
  obtain n e b' u' s' where run: "gcs_WriteChunk ?st u (int (length c)) body s = ((n, e), b', u', s')" by (metis surj_pair)
  have "int (length (reader_data body)) \<le> MaxInt64" "int (length chunks) + 1 < MaxInt64" using size ch(3) by simp_all
  note w = cloud.WriteChunk_run [OF rel run ch(1) body(1) this]
  have key: "gcs_id u = i" by (simp add: u)
  have "e = None" "n = int (length (reader_data body))" "u' = u" "br_err b' = None"
    and "gcs_open (view (g_remote s')) (gcs_keyWithPrefix ?st i) info (chunks @ [reader_data body])"
    using w quiet_fresh [OF body(2,1)] unfolding key by (elim conjE; assumption | simp)+
  with run rel u ch(2,3) show "\<exists>b' u' s'. gcs_WriteChunk ?st u (int (length c)) body s = ((int (length (reader_data body)), None), b', u', s') \<and>
      br_err b' = None \<and> gcs_reliable cl b view \<and> gcs_written ?st view u' s' i info (c @ reader_data body) k"
    unfolding gcs_written_def by (auto intro!: exI [of _ "chunks @ [reader_data body]"])
next
  let ?st = "cloud_store cl b pre"
  fix u i info c k and s :: "'s gcsenv"
  assume "gcs_reliable cl b view" "gcs_written ?st view u s i info c k"
  then show "gcs_reliable cl b view \<and> gcs_opened ?st view s i info c k" using gcs_written_opened by blast
next
  let ?st = "cloud_store cl b pre"
  fix u i info c k and s :: "'s gcsenv"
  assume rel: "gcs_reliable cl b view" and wr: "gcs_written ?st view u s i info c k" and size: "Size info = int (length c)" "Size info \<le> MaxInt64"
  from wr obtain chunks where ch: "gcs_open (view (g_remote s)) (gcs_keyWithPrefix ?st (gcs_id u)) info chunks" "c = concat chunks"
    "chunks \<noteq> []" and u: "u = \<lparr>gcs_id = i\<rparr>" by (auto simp: gcs_written_def)
  obtain e u' s' where run: "gcs_FinishUpload ?st u s = (e, u', s')" by (metis surj_pair)
  from cloud.FinishUpload_run [OF rel run ch(1,3)] size ch(2) run u
  show "\<exists>u' s'. gcs_FinishUpload ?st u s = (None, u', s') \<and> gcs_complete ?st view s' i info c" by auto
qed

text \<open>
  Property C29. A client that uploads to Google Cloud Storage through the handler, in any number of
  PATCH requests each at the offset that it was told: every request is answered with the status 204 and the next offset, and in
  the end the object of the upload holds all of the data, in order.
\<close>

theorem gcs_session_finishes:
  fixes h :: "('s gcsenv, gcsUpload, 'l, 'k) UnroutedHandler"
  assumes "Core (composer h) = Some (gcsStore (cloud_store cl b pre))" "PreFinishResponseCallback (config h) = None"
    and "gcs_reliable cl b view" "gcs_opened (cloud_store cl b pre) view (w_store w) i info content (length cs)"
    and "\<not> IsFinal info" "\<not> SizeIsDeferred info" "Size info \<le> MaxInt64"
    and "cs \<noteq> []" "list_all (\<lambda>c. append_request c \<and> request_bytes c \<noteq> []) cs"
    and "Size info = int (length (content @ concat (map request_bytes cs)))"
  shows "\<exists>w'. run_state (patch_session h i cs (int (length content))) w = (Inr (session_responses (int (length content)) cs), w') \<and>
    view (g_remote (w_store w')) (gcs_keyWithPrefix (cloud_store cl b pre) i) = Some (map B (content @ concat (map request_bytes cs)))"
proof -
  have "list_all append_request cs" "list_all (\<lambda>c. request_bytes c \<noteq> []) cs" using assms(9) by (simp_all add: list_all_iff)
  from gcs_session.patch_session_finishes [OF assms(1,2) conjI [OF assms(3,4)] assms(8,5,6,7) this(1) _ this(2) assms(10)]
  show ?thesis by (auto simp: gcs_finished_def list_all_iff)
qed

theorem gcs_session_finishes_witness:
  "\<exists>w'. run_state (patch_session (store_handler (gcsStore calm_cloud)) ''k'' [demo_patch ''e'', demo_patch ''f''] 4)
      (store_world (cloud_env False two_chunks)) = (Inr (session_responses 4 [demo_patch ''e'', demo_patch ''f'']), w') \<and>
    mg_view (g_remote (w_store w')) ''k'' = Some (map B ''abcdef'')"
proof -
  let ?w = "store_world (cloud_env False two_chunks)" and ?cs = "[demo_patch ''e'', demo_patch ''f'']"
  have up: "gcs_opened calm_cloud mg_view (w_store ?w) ''k'' cloud_info ''abcd'' (length ?cs)"
    using two_chunks_open unfolding gcs_opened_def by (intro exI [of _ "[''ab'', ''cd'']"]) (simp add: MaxInt64_def)
  have "PreFinishResponseCallback (config (store_handler (gcsStore calm_cloud))) = None" by simp
  from gcs_session_finishes [OF store_handler_fields(1) this memory_gcs_reliable up] show ?thesis
    by (simp add: cloud_info_def emptyFileInfo_def MaxInt64_def)
qed

section \<open>Azure\<close>

definition az_handle ::
  "'s AzureStore \<Rightarrow> ('s \<Rightarrow> az_blobs) \<Rightarrow> AzUpload \<Rightarrow> 's azenv \<Rightarrow> string \<Rightarrow> FileInfo \<Rightarrow> bytes \<Rightarrow> nat \<Rightarrow> bool" where
  "az_handle store view u s i info c k \<longleftrightarrow> az_usable store view s \<and>
     (\<exists>ds. az_open store (view (az_remote s)) i info ds \<and> c = concat ds \<and>
        int (length ds + k) \<le> bc_MaxBlocks (az_client store) \<and>
        au_BlockBlob u = BlockBlob (az_keyWithPrefix store i) (map int [0..<length ds]) (ServiceAccessTier (az_Service store)))"

definition az_opened ::
  "'s AzureStore \<Rightarrow> ('s \<Rightarrow> az_blobs) \<Rightarrow> 's azenv \<Rightarrow> string \<Rightarrow> FileInfo \<Rightarrow> bytes \<Rightarrow> nat \<Rightarrow> bool" where
  "az_opened store view s i info c k \<longleftrightarrow> az_usable store view s \<and>
     (\<exists>ds. az_open store (view (az_remote s)) i info ds \<and> c = concat ds \<and> int (length ds + k) \<le> bc_MaxBlocks (az_client store))"

lemma azureStore_fields:
  "GetUpload (azureStore store) = az_GetUpload store" "GetInfo (azureStore store) = az_GetInfo store"
  "WriteChunk (azureStore store) = az_WriteChunk store" "FinishUpload (azureStore store) = az_FinishUpload store"
  by (simp_all add: azureStore_def)

interpretation az_session: resumable_store "azureStore store" "az_opened store view"
  "\<lambda>u s i info c k. az_handle store view u s i info c k \<and> au_InfoHandler u = Some (info\<lparr>Offset := int (length c)\<rparr>)"
  "az_handle store view" "\<lambda>s. az_finished store (view (az_remote s))"
  "\<lambda>d. d \<noteq> [] \<and> int (length d) \<le> MaxBlockBlobChunkSize (az_client store)"
  for store :: "'s AzureStore" and view
proof (unfold_locales; (unfold azureStore_fields)?)
  fix i info c k and s :: "'s azenv"
  assume up: "az_opened store view s i info c k" and size: "int (length c) < Size info" "Size info \<le> MaxInt64"
  from up obtain ds where us: "az_usable store view s" and ds: "az_open store (view (az_remote s)) i info ds" "c = concat ds"
    "int (length ds + k) \<le> bc_MaxBlocks (az_client store)" by (auto simp: az_opened_def)
  obtain r s' where run: "az_GetUpload store i s = (r, s')" by (metis surj_pair)
  from az_GetUpload_open [OF us run ds(1)] ds size obtain u where
    "r = Inr u" "au_InfoHandler u = Some (info\<lparr>Offset := int (length c)\<rparr>)"
    "au_BlockBlob u = BlockBlob (az_keyWithPrefix store i) (map int [0..<length ds]) (ServiceAccessTier (az_Service store))"
    "view (az_remote s') = view (az_remote s)" "az_machine s' = az_machine s" by auto
  with run us ds show "\<exists>u s'. az_GetUpload store i s = (Inr u, s') \<and>
      az_handle store view u s' i info c k \<and> au_InfoHandler u = Some (info\<lparr>Offset := int (length c)\<rparr>)"
    by (auto simp: az_handle_def az_usable_def)
next
  fix u i info c k and s :: "'s azenv"
  assume "az_handle store view u s i info c k \<and> au_InfoHandler u = Some (info\<lparr>Offset := int (length c)\<rparr>)"
  then show "\<exists>info' u' s'. az_GetInfo store u s = (Inr info', u', s') \<and> Size info' = Size info \<and>
      SizeIsDeferred info' = SizeIsDeferred info \<and> IsFinal info' = IsFinal info \<and> Offset info' = int (length c) \<and>
      az_handle store view u' s' i info c k \<and> au_InfoHandler u' = Some (info\<lparr>Offset := int (length c)\<rparr>)"
    by (simp add: az_GetInfo_def)
next
  fix u i info c k body and s :: "'s azenv"
  let ?d = "reader_data body"
  assume h: "az_handle store view u s i info c (Suc k) \<and> au_InfoHandler u = Some (info\<lparr>Offset := int (length c)\<rparr>)"
    and body: "fresh_reader body" "quiet_reader body" "?d \<noteq> [] \<and> int (length ?d) \<le> MaxBlockBlobChunkSize (az_client store)"
  from h obtain ds where us: "az_usable store view s" and ds: "az_open store (view (az_remote s)) i info ds" "c = concat ds"
    "int (length ds + Suc k) \<le> bc_MaxBlocks (az_client store)"
    and u: "au_BlockBlob u = BlockBlob (az_keyWithPrefix store i) (map int [0..<length ds]) (ServiceAccessTier (az_Service store))"
      "au_InfoHandler u \<noteq> None" by (auto simp: az_handle_def)
  obtain n e b' u' s' where run: "az_WriteChunk store u (int (length c)) body s = ((n, e), b', u', s')" by (metis surj_pair)
  have "int (length ds) < bc_MaxBlocks (az_client store)" "?d \<noteq> []" "int (length ?d) \<le> bc_MaxStageBlockBytes (az_client store)"
    using ds(3) body(3) by (auto simp: MaxBlockBlobChunkSize_def)
  note w = az_WriteChunk_run [OF us run u ds(1) this(1) body(1) this(2,3)]
  show "\<exists>b' u' s'. az_WriteChunk store u (int (length c)) body s = ((int (length ?d), None), b', u', s') \<and>
      br_err b' = None \<and> az_handle store view u' s' i info (c @ ?d) k"
    using run w quiet_fresh [OF body(2,1)] ds(2,3) unfolding az_handle_def by (auto intro!: exI [of _ "ds @ [?d]"])
next
  fix u i info c k and s :: "'s azenv"
  assume "az_handle store view u s i info c k"
  then show "az_opened store view s i info c k" by (auto simp: az_handle_def az_opened_def)
next
  fix u i info c k and s :: "'s azenv"
  assume "az_handle store view u s i info c k"
  then obtain ds where us: "az_usable store view s" and ds: "az_open store (view (az_remote s)) i info ds" "c = concat ds"
    and u: "au_BlockBlob u = BlockBlob (az_keyWithPrefix store i) (map int [0..<length ds]) (ServiceAccessTier (az_Service store))"
    by (auto simp: az_handle_def)
  obtain e u' s' where run: "az_FinishUpload store u s = (e, u', s')" by (metis surj_pair)
  from az_FinishUpload_run [OF us run u ds(1)] run ds(2)
  show "\<exists>u' s'. az_FinishUpload store u s = (None, u', s') \<and> az_finished store (view (az_remote s')) i info c" by auto
qed

text \<open>
  Property C32. A client that uploads to Azure through the handler, in any number of PATCH requests with
  bodies that are not empty and not larger than a block may be: every request finds the blocks
  of the earlier ones again and is answered with the status 204 and the next offset, and in the
  end the blob holds all of the data, in order.
\<close>

theorem az_session_finishes:
  fixes h :: "('s azenv, AzUpload, 'l, 'k) UnroutedHandler"
  assumes "Core (composer h) = Some (azureStore store)" "PreFinishResponseCallback (config h) = None"
    and "az_opened store view (w_store w) i info content (length cs)"
    and "\<not> IsFinal info" "\<not> SizeIsDeferred info" "Size info \<le> MaxInt64"
    and "cs \<noteq> []" "list_all (\<lambda>c. append_request c \<and> request_bytes c \<noteq> [] \<and>
      int (length (request_bytes c)) \<le> MaxBlockBlobChunkSize (az_client store)) cs"
    and "Size info = int (length (content @ concat (map request_bytes cs)))"
  shows "\<exists>w'. run_state (patch_session h i cs (int (length content))) w = (Inr (session_responses (int (length content)) cs), w') \<and>
    as_content (view (az_remote (w_store w')) (az_keyWithPrefix store i)) = Some (map B (content @ concat (map request_bytes cs)))"
proof -
  have "list_all append_request cs" "list_all (\<lambda>c. request_bytes c \<noteq> []) cs"
    "list_all (\<lambda>c. request_bytes c \<noteq> [] \<and> int (length (request_bytes c)) \<le> MaxBlockBlobChunkSize (az_client store)) cs"
    using assms(8) by (simp_all add: list_all_iff)
  from az_session.patch_session_finishes [OF assms(1,2,3,7,4,5,6) this(1,3,2) assms(9)]
  show ?thesis by (auto simp: az_finished_def Let_def)
qed

theorem az_session_finishes_witness:
  "\<exists>w'. run_state (patch_session (store_handler (azureStore demo_az)) ''k'' [demo_patch ''cd'', demo_patch ''ef''] 2)
      (store_world (az_env half_az)) = (Inr (session_responses 2 [demo_patch ''cd'', demo_patch ''ef'']), w') \<and>
    as_content (ma_view (az_remote (w_store w')) ''k'') = Some (map B ''abcdef'')"
proof -
  let ?w = "store_world (az_env half_az)" and ?cs = "[demo_patch ''cd'', demo_patch ''ef'']"
  have up: "az_opened demo_az ma_view (w_store ?w) ''k'' az_info ''ab'' (length ?cs)"
    using demo_az_usable half_az_open unfolding az_opened_def
    by (intro conjI exI [of _ "[''ab'']"]) (simp_all add: demo_az_client memory_az_limits)
  have "PreFinishResponseCallback (config (store_handler (azureStore demo_az))) = None" by simp
  from az_session_finishes [OF store_handler_fields(1) this up] show ?thesis
    by (simp add: az_info_def emptyFileInfo_def MaxInt64_def demo_az_client memory_az_limits MaxBlockBlobChunkSize_def demo_az_key)
qed

section \<open>S3\<close>

text \<open>Cutting the body into parts keeps no error of its own.\<close>

lemma multi_Read_quiet: "multi_Read k r = ((d, e), r') \<Longrightarrow> 0 < k \<Longrightarrow> quiet_reader (ps_body r) \<Longrightarrow> quiet_reader (ps_body r')"
  by (auto simp: multi_Read_def dest: Read_quiet split: if_splits prod.splits)

lemma copy_limited_quiet: "copy_limited n r = ((d, e), r') \<Longrightarrow> quiet_reader (ps_body r) \<Longrightarrow> quiet_reader (ps_body r')"
proof (induction n r arbitrary: d e r' rule: copy_limited.induct)
  case (1 n r)
  show ?case
  proof (cases "n \<le> 0")
    case False
    obtain d1 e1 r1 where read: "multi_Read (min (nat n) copy_buf) r = ((d1, e1), r1)" by (metis surj_pair)
    have q: "quiet_reader (ps_body r1)" using multi_Read_quiet [OF read _ 1(3)] False by (simp add: copy_buf_def)
    show ?thesis
    proof (cases e1)
      case None
      obtain ds e2 r2 where rest: "copy_limited (n - int (length d1)) r1 = ((ds, e2), r2)" by (metis surj_pair)
      from 1(1) [OF False read [symmetric] refl None rest q] 1(2) show ?thesis
        using False None rest by (subst (asm) copy_limited.simps) (simp add: read)
    qed (use q 1(2) False in \<open>subst (asm) copy_limited.simps, auto simp: read\<close>)
  qed (use 1(2,3) in \<open>subst (asm) copy_limited.simps, simp\<close>)
qed

lemma nextPart_quiet:
  assumes "nextPart mem partSize r m = (res, r', m')" "quiet_reader (ps_body r)"
  shows "quiet_reader (ps_body r')"
proof -
  have "r' = r \<or> (\<exists>n. r' = snd (copy_limited n r))"
    using assms(1) by (auto simp: nextPart_def split: if_splits prod.splits option.splits list.splits) (metis snd_conv)+
  then show ?thesis using copy_limited_quiet assms(2) by (metis prod.collapse)
qed

lemma produce_quiet:
  "produce mem partSize ctx r m = ((cs, e), r', m') \<Longrightarrow> quiet_reader (ps_body r) \<Longrightarrow> quiet_reader (ps_body r')"
proof (induction mem partSize ctx r m arbitrary: cs e r' m' rule: produce.induct)
  case (1 mem partSize ctx r m)
  obtain res r1 m1 where np: "nextPart mem partSize r m = (res, r1, m1)" by (metis surj_pair)
  note q = nextPart_quiet [OF np 1(3)]
  show ?case
  proof (cases res)
    case (Inr x)
    show ?thesis
    proof (cases "x = None \<or> ctx = Some 0")
      case True
      with 1(2) Inr q show ?thesis by (subst (asm) produce.simps) (auto simp: np split: option.splits)
    next
      case False
      then obtain c where x: "x = Some c" by auto
      obtain cs2 e2 r2 m2 where rest: "produce mem partSize (map_option (\<lambda>n. n - 1) ctx) r1 m1 = ((cs2, e2), r2, m2)" by (metis surj_pair)
      have "r' = r2" using 1(2) False rest by (subst (asm) produce.simps) (simp add: np Inr x)
      moreover have "quiet_reader (ps_body r2)" using 1(1) [OF np [symmetric] Inr x refl _ rest q] False by simp
      ultimately show ?thesis by simp
    qed
  qed (use 1(2) q in \<open>subst (asm) produce.simps, simp add: np\<close>)
qed

lemma uploadParts_quiet:
  "uploadParts store u offset src s = ((n, e), src', u', s') \<Longrightarrow> quiet_reader (ps_body src) \<Longrightarrow> quiet_reader (ps_body src')"
  by (auto simp: uploadParts_def dest: produce_quiet split: sum.splits prod.splits option.splits)

lemma s3_WriteChunk_quiet:
  "s3_WriteChunk store u offset b s = ((n, e), b', u', s') \<Longrightarrow> quiet_reader b \<Longrightarrow> quiet_reader b'"
  by (fastforce simp: s3_WriteChunk_def Let_def dest: uploadParts_quiet split: sum.splits prod.splits)

definition s3_opened ::
  "'s S3Store \<Rightarrow> ('s \<Rightarrow> bucket) \<Rightarrow> 's s3env \<Rightarrow> string \<Rightarrow> FileInfo \<Rightarrow> bytes \<Rightarrow> bool" where
  "s3_opened store view s i info c \<longleftrightarrow> s3_usable store view s \<and> s3_size_ok store info \<and>
     (\<exists>oid mid ps inc. i = oid @ ''+'' @ mid \<and> oid \<noteq> [] \<and> mid \<noteq> [] \<and> CHR ''+'' \<notin> set mid \<and>
        s3_open store (view (remote s)) oid mid info ps inc \<and> c = s3_content ps inc)"

definition s3_has_handle ::
  "'s S3Store \<Rightarrow> ('s \<Rightarrow> bucket) \<Rightarrow> s3Upload \<Rightarrow> 's s3env \<Rightarrow> string \<Rightarrow> FileInfo \<Rightarrow> bytes \<Rightarrow> bool" where
  "s3_has_handle store view u s i info c \<longleftrightarrow> s3_usable store view s \<and> s3_size_ok store info \<and>
     i = objectId u @ ''+'' @ multipartId u \<and> objectId u \<noteq> [] \<and> multipartId u \<noteq> [] \<and> CHR ''+'' \<notin> set (multipartId u) \<and>
     (case up_info u of None \<Rightarrow> True | Some x \<Rightarrow> IsFinal x = IsFinal info) \<and>
     (\<exists>ps inc. s3_open store (view (remote s)) (objectId u) (multipartId u) info ps inc \<and> c = s3_content ps inc \<and>
        s3_handle store (view (remote s)) u info ps inc)"

definition s3_written ::
  "'s S3Store \<Rightarrow> ('s \<Rightarrow> bucket) \<Rightarrow> s3Upload \<Rightarrow> 's s3env \<Rightarrow> string \<Rightarrow> FileInfo \<Rightarrow> bytes \<Rightarrow> bool" where
  "s3_written store view u s i info c \<longleftrightarrow> s3_usable store view s \<and> s3_size_ok store info \<and>
     i = objectId u @ ''+'' @ multipartId u \<and> objectId u \<noteq> [] \<and> multipartId u \<noteq> [] \<and> CHR ''+'' \<notin> set (multipartId u) \<and>
     up_info u \<noteq> None \<and>
     (\<exists>ps inc. s3_ready store (view (remote s)) (objectId u) (multipartId u) info ps inc \<and> c = s3_content ps inc \<and>
        up_parts u = part_list ps)"

text \<open>A finished upload is the object with the first part of the identifier.\<close>

definition s3_complete :: "'s S3Store \<Rightarrow> ('s \<Rightarrow> bucket) \<Rightarrow> 's s3env \<Rightarrow> string \<Rightarrow> bytes \<Rightarrow> bool" where
  "s3_complete store view s i c \<longleftrightarrow>
     (\<exists>oid mid. splitIds i = (oid, mid) \<and> bk_objs (view (remote s)) (upload_key store oid) = Some (map B c))"

lemma s3Store_fields:
  "GetUpload (s3Store store) = s3_GetUpload store" "GetInfo (s3Store store) = s3_GetInfo store"
  "WriteChunk (s3Store store) = s3_WriteChunk store" "FinishUpload (s3Store store) = s3_FinishUpload store"
  by (simp_all add: s3Store_def)

lemma s3_GetInfo_handle:
  assumes h: "s3_has_handle store view u s i info c" and run: "s3_GetInfo store u s = (r, u', s')"
  shows "\<exists>x. r = Inr x \<and> Size x = Size info \<and> SizeIsDeferred x = SizeIsDeferred info \<and> IsFinal x = IsFinal info \<and>
    Offset x = int (length c) \<and> s3_has_handle store view u' s' i info c"
proof -
  from h obtain ps inc where use: "s3_usable store view s" and sz: "s3_size_ok store info"
    and opn: "s3_open store (view (remote s)) (objectId u) (multipartId u) info ps inc" and c: "c = s3_content ps inc"
    and hd: "s3_handle store (view (remote s)) u info ps inc" by (auto simp: s3_has_handle_def)
  have rel: "s3_reliable store view" using use by (simp add: s3_usable_def)
  have "int (length (s3_content ps inc @ [])) \<le> Size info" using opn by (simp add: s3_open_def)
  note bounds = s3_room(3,4,5) [OF use opn sz this]
  obtain r1 u1 s1 where gi: "getInternalInfo store u s = (r1, u1, s1)" by (metis surj_pair)
  from getInternalInfo_ok [OF rel hd bounds gi] obtain x where
    x: "r1 = Inr (x, part_list ps, int (length inc))" "Size x = Size info" "SizeIsDeferred x = SizeIsDeferred info"
      "Offset x = int (length (s3_content ps inc))"
    and u1: "u1 = u\<lparr>up_info := Some x, up_parts := part_list ps, incompletePartSize := int (length inc)\<rparr>"
    and s1: "view (remote s1) = view (remote s)" "setting s1 = setting s" by auto
  have fin: "IsFinal x = IsFinal info"
  proof (cases "up_info u")
    case None
    have holds: "s3_holds store (view (remote s)) (objectId u) (multipartId u) info ps inc" using opn by (simp add: s3_open_def)
    obtain r2 s2 where f: "fetchInfo store u s = (r2, s2)" by (metis surj_pair)
    from fetchInfo_ok [OF rel holds bounds f] f gi x(1) None show ?thesis by (auto simp: getInternalInfo_def)
  next
    case (Some y)
    with gi x(1) h show ?thesis by (auto simp: getInternalInfo_def s3_has_handle_def)
  qed
  have "s3_usable store view s1" using use s3_usable_setting [OF s1(2)] by simp
  with h opn c x s1 fin have "s3_has_handle store view u1 s1 i info c"
    unfolding s3_has_handle_def u1 by (auto simp: s3_handle_def s3_open_def intro!: exI [of _ ps] exI [of _ inc])
  with run gi x c fin show ?thesis by (auto simp: s3_GetInfo_def)
qed

interpretation s3_session: resumable_store "s3Store store" "\<lambda>s i info c k. s3_opened store view s i info c"
  "\<lambda>u s i info c k. s3_has_handle store view u s i info c" "\<lambda>u s i info c k. s3_written store view u s i info c"
  "\<lambda>s i info c. s3_complete store view s i c" "\<lambda>_. True"
  for store :: "'s S3Store" and view
proof (unfold_locales; (unfold s3Store_fields)?)
  fix i info c and s :: "'s s3env"
  assume "s3_opened store view s i info c"
  then obtain oid mid ps inc where i: "i = oid @ ''+'' @ mid" "oid \<noteq> []" "mid \<noteq> []" "CHR ''+'' \<notin> set mid"
    and o: "s3_usable store view s" "s3_size_ok store info" "s3_open store (view (remote s)) oid mid info ps inc" "c = s3_content ps inc"
    unfolding s3_opened_def by blast
  let ?u = "\<lparr>objectId = oid, multipartId = mid, up_info = None, up_parts = [], incompletePartSize = 0\<rparr>"
  have "s3_GetUpload store i s = (Inr ?u, s)"
    using i splitIds_append [OF i(4), of oid] by (simp add: s3_GetUpload_def)
  moreover have "s3_has_handle store view ?u s i info c"
    using i o by (auto simp: s3_has_handle_def s3_handle_def s3_open_def)
  ultimately show "\<exists>u s'. s3_GetUpload store i s = (Inr u, s') \<and> s3_has_handle store view u s' i info c" by blast
next
  fix u i info c and s :: "'s s3env"
  assume "s3_has_handle store view u s i info c"
  then show "\<exists>info' u' s'. s3_GetInfo store u s = (Inr info', u', s') \<and> Size info' = Size info \<and>
      SizeIsDeferred info' = SizeIsDeferred info \<and> IsFinal info' = IsFinal info \<and> Offset info' = int (length c) \<and>
      s3_has_handle store view u' s' i info c"
    using s3_GetInfo_handle [of store view u s i info c] by (metis surj_pair)
next
  fix u i info c body and s :: "'s s3env"
  assume h: "s3_has_handle store view u s i info c" and body: "fresh_reader body" "quiet_reader body"
    and fits: "int (length (c @ reader_data body)) \<le> Size info"
  from h obtain ps inc where use: "s3_usable store view s" and sz: "s3_size_ok store info"
    and opn: "s3_open store (view (remote s)) (objectId u) (multipartId u) info ps inc" and c: "c = s3_content ps inc"
    and hd: "s3_handle store (view (remote s)) u info ps inc" by (auto simp: s3_has_handle_def)
  obtain n e b' u' s' where run: "s3_WriteChunk store u (int (length c)) body s = ((n, e), b', u', s')" by (metis surj_pair)
  from s3_write_open [OF use opn hd sz body(1) fits [unfolded c] run [unfolded c]] obtain ps' inc' where
    q: "e = None" "n = int (length (reader_data body))" "setting s' = setting s" "objectId u' = objectId u" "multipartId u' = multipartId u"
      "up_parts u' = part_list ps'" "up_info u' \<noteq> None" "s3_content ps' inc' = c @ reader_data body"
      "s3_ready store (view (remote s')) (objectId u) (multipartId u) info ps' inc'" unfolding c by blast
  have "s3_usable store view s'" using use s3_usable_setting [OF q(3)] by simp
  with h q have "s3_written store view u' s' i info (c @ reader_data body)"
    unfolding s3_written_def s3_has_handle_def by (metis (no_types))
  with run q(1,2) s3_WriteChunk_quiet [OF run body(2)]
  show "\<exists>b' u' s'. s3_WriteChunk store u (int (length c)) body s = ((int (length (reader_data body)), None), b', u', s') \<and>
      br_err b' = None \<and> s3_written store view u' s' i info (c @ reader_data body)" by (auto simp: quiet_reader_def)
next
  fix u i info c and s :: "'s s3env"
  assume "s3_written store view u s i info c" "int (length c) < Size info"
  then show "s3_opened store view s i info c" unfolding s3_written_def s3_opened_def s3_ready_def
    by (elim conjE exE) (intro conjI exI [of _ "objectId u"] exI [of _ "multipartId u"]; auto)
next
  fix u i info c and s :: "'s s3env"
  assume w: "s3_written store view u s i info c" and full: "Size info = int (length c)"
  then obtain ps inc where use: "s3_usable store view s" and c: "c = s3_content ps inc"
    and u: "up_parts u = part_list ps" "up_info u \<noteq> None" and i: "i = objectId u @ ''+'' @ multipartId u" "CHR ''+'' \<notin> set (multipartId u)"
    and rdy: "s3_ready store (view (remote s)) (objectId u) (multipartId u) info ps inc" unfolding s3_written_def by auto
  obtain e u' s' where run: "s3_FinishUpload store u s = (e, u', s')" by (metis surj_pair)
  from s3_finish_ready [OF use rdy u _ run] full c have "e = None" "bk_objs (view (remote s')) (upload_key store (objectId u)) = Some (map B c)"
    by simp_all
  with run i splitIds_append [OF i(2), of "objectId u"]
  show "\<exists>u' s'. s3_FinishUpload store u s = (None, u', s') \<and> s3_complete store view s' i c" by (auto simp: s3_complete_def)
qed

text \<open>
  Property C20. A client that uploads to S3 through the handler, in any number of PATCH requests: bytes
  that do not fill a part are kept in the incomplete part and prepended by the next request;
  every request is answered with the status 204 and the next offset, and in the end the object
  of the upload holds all of the data, in order. The size of the upload must fit into the parts
  that the service allows.
\<close>

theorem s3_session_finishes:
  fixes h :: "('s s3env, s3Upload, 'l, 'k) UnroutedHandler"
  assumes "Core (composer h) = Some (s3Store store)" "PreFinishResponseCallback (config h) = None"
    and "s3_opened store view (w_store w) (oid @ ''+'' @ mid) info content" "CHR ''+'' \<notin> set mid"
    and "\<not> IsFinal info" "\<not> SizeIsDeferred info" "Size info \<le> MaxInt64"
    and "cs \<noteq> []" "list_all (\<lambda>c. append_request c \<and> request_bytes c \<noteq> []) cs"
    and "Size info = int (length (content @ concat (map request_bytes cs)))"
  shows "\<exists>w'. run_state (patch_session h (oid @ ''+'' @ mid) cs (int (length content))) w =
      (Inr (session_responses (int (length content)) cs), w') \<and>
    bk_objs (view (remote (w_store w'))) (upload_key store oid) = Some (map B (content @ concat (map request_bytes cs)))"
proof -
  have "list_all append_request cs" "list_all (\<lambda>c. request_bytes c \<noteq> []) cs" using assms(9) by (simp_all add: list_all_iff)
  from s3_session.patch_session_finishes [OF assms(1,2,3,8,5,6,7) this(1) _ this(2) assms(10)]
  show ?thesis using splitIds_append [OF assms(4), of oid] by (auto simp: s3_complete_def list_all_iff)
qed

theorem s3_session_finishes_witness:
  "\<exists>w'. run_state (patch_session (store_handler (s3Store (small_store (\<lambda>_. False)))) ''o+m'' [demo_patch ''abc'', demo_patch ''defgh''] 0)
      (store_world (small_env fresh_s3)) = (Inr (session_responses 0 [demo_patch ''abc'', demo_patch ''defgh'']), w') \<and>
    bk_objs (ms_view (remote (w_store w'))) ''o'' = Some (map B ''abcdefgh'')"
proof -
  let ?st = "small_store (\<lambda>_. False)" and ?info = "small_info\<lparr>Size := 8\<rparr>" and ?w = "store_world (small_env fresh_s3)"
  have "s3_open ?st (ms_view (remote (small_env fresh_s3))) ''o'' ''m'' ?info [] []"
    by (simp add: s3_open_def s3_holds_def small_env_def fresh_s3_def ms_view_def numbered_def s3_content_def part_data_def small_info_def emptyFileInfo_def)
  moreover have "s3_size_ok ?st ?info" by (simp add: s3_size_ok_def small_store_def s3_New_def)
  ultimately have up: "s3_opened ?st ms_view (w_store ?w) (''o'' @ ''+'' @ ''m'') ?info []"
    unfolding s3_opened_def using small_usable
    by (intro conjI exI [of _ "''o''"] exI [of _ "''m''"] exI [of _ "[]"]) (simp_all add: s3_content_def part_data_def)
  have "PreFinishResponseCallback (config (store_handler (s3Store ?st))) = None" by simp
  from s3_session_finishes [OF store_handler_fields(1) this up, of "[demo_patch ''abc'', demo_patch ''defgh'']"] show ?thesis
    by (simp add: small_info_def emptyFileInfo_def MaxInt64_def)
qed

section \<open>Uploads to S3 with logging\<close>

text \<open>
  Nothing of this changes when the calls are logged: an upload that is open for a store is open for
  the store that logs its calls to the same service, and the whole session succeeds.
\<close>

lemma logging_opened:
  assumes "s3_opened store view s i info c" "wrapped (remote t) = remote s"
    and "machine t = machine s" "ctxDone t = ctxDone s" "maxPages t = maxPages s"
  shows "s3_opened (logging_store l store) (\<lambda>x. view (wrapped x)) t i info c"
proof -
  have "s3_usable (logging_store l store) (\<lambda>x. view (wrapped x)) t"
    using assms logging_reliable [of store view l]
    by (simp add: s3_opened_def s3_usable_def wf_store_def calm_def)
  then show ?thesis using assms(1,2)
    by (simp add: s3_opened_def s3_size_ok_def s3_open_def s3_holds_def)
qed

lemma logged_session_finishes:
  fixes h :: "('s logged s3env, s3Upload, 'l, 'k) UnroutedHandler"
  assumes "Core (composer h) = Some (s3Store (logging_store l store))" "PreFinishResponseCallback (config h) = None"
    and "s3_opened store view s (oid @ ''+'' @ mid) info content" "CHR ''+'' \<notin> set mid"
    and "w_store w = \<lparr>machine = machine s, remote = \<lparr>wrapped = remote s, s3_log = log\<rparr>, tempMemory = tempMemory s,
                      ctxDone = ctxDone s, maxPages = maxPages s\<rparr>"
    and "\<not> IsFinal info" "\<not> SizeIsDeferred info" "Size info \<le> MaxInt64"
    and "cs \<noteq> []" "list_all append_request cs" "list_all (\<lambda>c. request_bytes c \<noteq> []) cs"
    and "Size info = int (length (content @ concat (map request_bytes cs)))"
  shows "\<exists>w'. run_state (patch_session h (oid @ ''+'' @ mid) cs (int (length content))) w =
      (Inr (session_responses (int (length content)) cs), w') \<and>
    bk_objs (view (wrapped (remote (w_store w')))) (upload_key store oid) = Some (map B (content @ concat (map request_bytes cs)))"
proof -
  have "s3_opened (logging_store l store) (\<lambda>x. view (wrapped x)) (w_store w) (oid @ ''+'' @ mid) info content"
    by (rule logging_opened [OF assms(3)]) (simp_all add: assms(5))
  from s3_session.patch_session_finishes [OF assms(1,2) this assms(9,6,7,8,10) _ assms(11,12)]
  show ?thesis using splitIds_append [OF assms(4), of oid] by (auto simp: s3_complete_def list_all_iff)
qed

end
