(* ===== verification/S3Workers.thy ===== *)
theory S3Workers
  imports S3Upload
begin

text \<open>
  The parts of a chunk are uploaded by goroutines (\<^verbatim>\<open>s3Upload.uploadParts\<close> of
  \<^verbatim>\<open>pkg/s3store/s3store.go\<close>), whose number is limited by a semaphore that all uploads of the store
  share (\<^verbatim>\<open>internal/semaphore\<close>). \<open>upload_chunks\<close> uploads them one after the other; here the loop, the
  goroutines and the other uploads are steps that interleave, and it is proved that the order does
  not matter for a service that does not fail.
\<close>

section \<open>The semaphore\<close>

text \<open>
  The semaphore is a channel with room for \<open>limit\<close> values; its state is the number of values in
  it. Sending blocks when the channel is full, receiving when it is empty.
\<close>

definition semaphore_New :: "int \<Rightarrow> nat \<times> nat" where
  "semaphore_New concurrency = (nat concurrency, 0)"

definition semaphore_Acquire :: "nat \<times> nat \<Rightarrow> (nat \<times> nat) option" where
  "semaphore_Acquire s = (case s of (limit, n) \<Rightarrow> if n < limit then Some (limit, Suc n) else None)"

definition semaphore_Release :: "nat \<times> nat \<Rightarrow> (nat \<times> nat) option" where
  "semaphore_Release s = (case s of (limit, n) \<Rightarrow> if 0 < n then Some (limit, n - 1) else None)"

section \<open>The loop and its goroutines\<close>

text \<open>A goroutine has not started its request, has its answer, or is over.\<close>

datatype task_state = Started | Answer "err option" | Ended

text \<open>
  A goroutine with the part that it shares with the upload: \<open>tk_etag\<close> is empty until the part is
  uploaded. \<open>tk_isPart\<close> tells a part from the incomplete part.
\<close>

record part_task =
  tk_isPart :: bool
  tk_number :: int
  tk_chunk :: fileChunk
  tk_etag :: string
  tk_state :: task_state

record 's part_loop =
  pl_env :: "'s s3env"
  pl_sem :: "nat \<times> nat"
  pl_others :: nat
  pl_todo :: "fileChunk list"
  pl_bytes :: int
  pl_next :: int
  pl_holds :: bool
  pl_waits :: bool
  pl_tasks :: "part_task list"
  pl_incomplete :: int
  pl_err :: "err option"
  pl_result :: "(int \<times> err option) option"

datatype part_label =
    AcquireSlot
  | TakeChunk
  | PutPart nat
  | ClosePart nat
  | WaitAll
  | OtherAcquire
  | OtherRelease

definition acquireUploadSemaphore :: "'s part_loop \<Rightarrow> 's part_loop option" where
  "acquireUploadSemaphore s = map_option (\<lambda>x. s\<lparr>pl_sem := x\<rparr>) (semaphore_Acquire (pl_sem s))"

definition releaseUploadSemaphore :: "'s part_loop \<Rightarrow> 's part_loop option" where
  "releaseUploadSemaphore s = map_option (\<lambda>x. s\<lparr>pl_sem := x\<rparr>) (semaphore_Release (pl_sem s))"

text \<open>
  The loop takes the next chunk and hands its slot over to a new goroutine, or gives it back
  when there are no more chunks.
\<close>

definition take_chunk :: "'s S3Store \<Rightarrow> FileInfo \<Rightarrow> int \<Rightarrow> 's part_loop \<Rightarrow> 's part_loop option" where
  "take_chunk store info offset s =
     (case pl_todo s of
        [] \<Rightarrow> releaseUploadSemaphore (s\<lparr>pl_holds := False, pl_waits := True\<rparr>)
      | c # cs \<Rightarrow>
          (let isFinalChunk = (\<not> SizeIsDeferred info \<and> Size info = add64 (add64 offset (pl_bytes s)) (fc_size c));
               t = \<lparr>tk_isPart = (MinPartSize store \<le> fc_size c \<or> isFinalChunk), tk_number = pl_next s, tk_chunk = c, tk_etag = [],
                    tk_state = Started\<rparr>
           in Some (s\<lparr>pl_todo := cs, pl_holds := False, pl_tasks := pl_tasks s @ [t],
                      pl_bytes := add64 (pl_bytes s) (fc_size c), pl_next := wrap32 (pl_next s + 1)\<rparr>)))"

text \<open>The request of a goroutine.\<close>

definition put_answer :: "'s S3Store \<Rightarrow> s3Upload \<Rightarrow> part_task \<Rightarrow> int \<Rightarrow> 's s3env \<Rightarrow> (part_task \<times> int) \<times> 's s3env" where
  "put_answer store u t inc s =
     (if tk_isPart t
      then (case putPartForUpload store u (tk_number t) (fc_reader (tk_chunk t)) (fc_size (tk_chunk t)) s of
              (Inl e, s1) \<Rightarrow> ((t\<lparr>tk_state := Answer (Some e)\<rparr>, inc), s1)
            | (Inr etag, s1) \<Rightarrow> ((t\<lparr>tk_etag := etag, tk_state := Answer None\<rparr>, inc), s1))
      else (case putIncompletePartForUpload store (objectId u) (fc_reader (tk_chunk t)) s of
              (Some e, s1) \<Rightarrow> ((t\<lparr>tk_state := Answer (Some e)\<rparr>, inc), s1)
            | (None, s1) \<Rightarrow> ((t\<lparr>tk_state := Answer None\<rparr>, fc_size (tk_chunk t)), s1)))"

definition put_task :: "'s S3Store \<Rightarrow> s3Upload \<Rightarrow> nat \<Rightarrow> 's part_loop \<Rightarrow> 's part_loop" where
  "put_task store u j s =
     (case put_answer store u (pl_tasks s ! j) (pl_incomplete s) (pl_env s) of
        ((t, inc), s1) \<Rightarrow> s\<lparr>pl_env := s1, pl_incomplete := inc, pl_tasks := (pl_tasks s)[j := t]\<rparr>)"

text \<open>The end of a goroutine: the group keeps the first error, and the slot is given back.\<close>

definition close_task :: "nat \<Rightarrow> err option \<Rightarrow> 's part_loop \<Rightarrow> 's part_loop option" where
  "close_task j e s =
     (case on_machine (closeReader (tk_chunk (pl_tasks s ! j))) (pl_env s) of
        (cerr, s1) \<Rightarrow>
          (let e' = (case e of Some x \<Rightarrow> Some x | None \<Rightarrow> cerr)
           in releaseUploadSemaphore
                (s\<lparr>pl_env := s1, pl_err := (case pl_err s of Some x \<Rightarrow> Some x | None \<Rightarrow> e'),
                   pl_tasks := (pl_tasks s)[j := (pl_tasks s ! j)\<lparr>tk_state := Ended\<rparr>]\<rparr>)))"

definition part_act :: "'s S3Store \<Rightarrow> FileInfo \<Rightarrow> int \<Rightarrow> s3Upload \<Rightarrow> part_label \<Rightarrow> 's part_loop \<Rightarrow> 's part_loop option" where
  "part_act store info offset u l s =
     (case l of
        AcquireSlot \<Rightarrow>
          if \<not> pl_holds s \<and> \<not> pl_waits s then map_option (\<lambda>s. s\<lparr>pl_holds := True\<rparr>) (acquireUploadSemaphore s) else None
      | TakeChunk \<Rightarrow> if pl_holds s then take_chunk store info offset s else None
      | PutPart j \<Rightarrow>
          if j < length (pl_tasks s) \<and> tk_state (pl_tasks s ! j) = Started then Some (put_task store u j s) else None
      | ClosePart j \<Rightarrow>
          if j < length (pl_tasks s)
          then (case tk_state (pl_tasks s ! j) of Answer e \<Rightarrow> close_task j e s | _ \<Rightarrow> None) else None
      | WaitAll \<Rightarrow>
          if pl_waits s \<and> pl_result s = None \<and> list_all (\<lambda>t. tk_state t = Ended) (pl_tasks s)
          then Some (s\<lparr>pl_result := Some (case pl_err s of Some e \<Rightarrow> (0, Some e) | None \<Rightarrow> (pl_bytes s, None))\<rparr>) else None
      | OtherAcquire \<Rightarrow> map_option (\<lambda>s. s\<lparr>pl_others := Suc (pl_others s)\<rparr>) (acquireUploadSemaphore s)
      | OtherRelease \<Rightarrow>
          if 0 < pl_others s then map_option (\<lambda>s. s\<lparr>pl_others := pl_others s - 1\<rparr>) (releaseUploadSemaphore s) else None)"

fun part_run :: "'s S3Store \<Rightarrow> FileInfo \<Rightarrow> int \<Rightarrow> s3Upload \<Rightarrow> part_label list \<Rightarrow> 's part_loop \<Rightarrow> 's part_loop option" where
  "part_run store info offset u [] s = Some s"
| "part_run store info offset u (l # ls) s =
     (case part_act store info offset u l s of None \<Rightarrow> None | Some s' \<Rightarrow> part_run store info offset u ls s')"

text \<open>The start of the loop, when other uploads hold \<open>others\<close> of the slots.\<close>

definition start_loop :: "nat \<Rightarrow> nat \<Rightarrow> fileChunk list \<Rightarrow> int \<Rightarrow> s3Upload \<Rightarrow> 's s3env \<Rightarrow> 's part_loop" where
  "start_loop limit others cs nextPartNum u s =
     \<lparr>pl_env = s, pl_sem = (limit, others), pl_others = others, pl_todo = cs, pl_bytes = 0, pl_next = nextPartNum,
      pl_holds = False, pl_waits = False, pl_tasks = [], pl_incomplete = incompletePartSize u, pl_err = None, pl_result = None\<rparr>"

lemma part_run_append:
  "part_run store info offset u (xs @ ys) s =
     (case part_run store info offset u xs s of None \<Rightarrow> None | Some s' \<Rightarrow> part_run store info offset u ys s')"
  by (induction xs arbitrary: s) (auto split: option.splits)

lemma part_run_invariant:
  assumes "part_run store info offset u ls s = Some s'" "I s"
    "\<And>l s s'. part_act store info offset u l s = Some s' \<Longrightarrow> I s \<Longrightarrow> I s'"
  shows "I s'"
  using assms by (induction ls arbitrary: s) (auto split: option.splits)

section \<open>The slots\<close>

definition running :: "part_task list \<Rightarrow> nat" where
  "running ts = length (filter (\<lambda>t. tk_state t \<noteq> Ended) ts)"

definition slots_inv :: "nat \<Rightarrow> 's part_loop \<Rightarrow> bool" where
  "slots_inv limit s \<longleftrightarrow>
     pl_sem s = (limit, pl_others s + (if pl_holds s then 1 else 0) + running (pl_tasks s)) \<and> snd (pl_sem s) \<le> limit \<and>
     (pl_holds s \<longrightarrow> \<not> pl_waits s) \<and> (pl_waits s \<longrightarrow> pl_todo s = []) \<and> (pl_result s \<noteq> None \<longrightarrow> pl_waits s \<and> running (pl_tasks s) = 0)"

lemma running_simps [simp]: "running [] = 0" "running (ts @ us) = running ts + running us"
  "running [t] = (if tk_state t = Ended then 0 else 1)"
  by (simp_all add: running_def)

lemma running_update:
  assumes "j < length ts" "tk_state (ts ! j) \<noteq> Ended"
  shows "running (ts[j := t]) = (if tk_state t = Ended then running ts - 1 else running ts)" "0 < running ts"
proof -
  have s: "ts = take j ts @ ts ! j # drop (Suc j) ts" using assms(1) by (simp add: id_take_nth_drop)
  have u: "ts[j := t] = take j ts @ t # drop (Suc j) ts" using assms(1) by (simp add: upd_conv_take_nth_drop)
  have r: "running ts = running (take j ts) + 1 + running (drop (Suc j) ts)"
    using assms(2) by (subst s) (simp add: running_def)
  then show "0 < running ts" by simp
  show "running (ts[j := t]) = (if tk_state t = Ended then running ts - 1 else running ts)"
    unfolding u r by (simp add: running_def)
qed

lemma running_Ended: "list_all (\<lambda>t. tk_state t = Ended) ts \<Longrightarrow> running ts = 0"
  by (induction ts) (auto simp: running_def)

lemma put_answer_state: "put_answer store u t inc s = ((t', inc'), s') \<Longrightarrow> \<exists>e. tk_state t' = Answer e"
  by (auto simp: put_answer_def split: if_splits prod.splits sum.splits option.splits)

text \<open>A step of the loop, by the kind of step.\<close>

lemma part_act_cases:
  assumes "part_act store info offset u l s = Some s'"
  obtains (acquire) "l = AcquireSlot" "\<not> pl_holds s" "\<not> pl_waits s" "snd (pl_sem s) < fst (pl_sem s)"
      "s' = s\<lparr>pl_sem := (fst (pl_sem s), Suc (snd (pl_sem s))), pl_holds := True\<rparr>"
    | (stop) "l = TakeChunk" "pl_holds s" "pl_todo s = []" "0 < snd (pl_sem s)"
      "s' = s\<lparr>pl_holds := False, pl_waits := True, pl_sem := (fst (pl_sem s), snd (pl_sem s) - 1)\<rparr>"
    | (take) c cs t where "l = TakeChunk" "pl_holds s" "pl_todo s = c # cs" "take_chunk store info offset s = Some s'"
      "tk_state t = Started" "tk_chunk t = c" "tk_number t = pl_next s" "tk_etag t = []"
      "tk_isPart t \<longleftrightarrow> MinPartSize store \<le> fc_size c \<or> \<not> SizeIsDeferred info \<and> Size info = add64 (add64 offset (pl_bytes s)) (fc_size c)"
      "s' = s\<lparr>pl_todo := cs, pl_holds := False, pl_tasks := pl_tasks s @ [t],
               pl_bytes := add64 (pl_bytes s) (fc_size c), pl_next := wrap32 (pl_next s + 1)\<rparr>"
    | (put) j t inc s1 where "l = PutPart j" "j < length (pl_tasks s)" "tk_state (pl_tasks s ! j) = Started"
      "put_answer store u (pl_tasks s ! j) (pl_incomplete s) (pl_env s) = ((t, inc), s1)"
      "s' = s\<lparr>pl_env := s1, pl_incomplete := inc, pl_tasks := (pl_tasks s)[j := t]\<rparr>"
    | (close) j e cerr s1 where "l = ClosePart j" "j < length (pl_tasks s)" "tk_state (pl_tasks s ! j) = Answer e"
      "on_machine (closeReader (tk_chunk (pl_tasks s ! j))) (pl_env s) = (cerr, s1)" "0 < snd (pl_sem s)"
      "s' = s\<lparr>pl_env := s1, pl_err := (case pl_err s of Some x \<Rightarrow> Some x | None \<Rightarrow> case e of Some x \<Rightarrow> Some x | None \<Rightarrow> cerr),
               pl_tasks := (pl_tasks s)[j := (pl_tasks s ! j)\<lparr>tk_state := Ended\<rparr>],
               pl_sem := (fst (pl_sem s), snd (pl_sem s) - 1)\<rparr>"
    | (wait) "l = WaitAll" "pl_waits s" "pl_result s = None" "list_all (\<lambda>t. tk_state t = Ended) (pl_tasks s)"
      "s' = s\<lparr>pl_result := Some (case pl_err s of Some e \<Rightarrow> (0, Some e) | None \<Rightarrow> (pl_bytes s, None))\<rparr>"
    | (acquired) "l = OtherAcquire" "snd (pl_sem s) < fst (pl_sem s)"
      "s' = s\<lparr>pl_sem := (fst (pl_sem s), Suc (snd (pl_sem s))), pl_others := Suc (pl_others s)\<rparr>"
    | (released) "l = OtherRelease" "0 < pl_others s" "0 < snd (pl_sem s)"
      "s' = s\<lparr>pl_sem := (fst (pl_sem s), snd (pl_sem s) - 1), pl_others := pl_others s - 1\<rparr>"
proof (cases l)
  case AcquireSlot
  show ?thesis by (rule acquire)
    (use assms AcquireSlot in \<open>auto simp: part_act_def acquireUploadSemaphore_def semaphore_Acquire_def split: if_splits prod.splits\<close>)
next
  case TakeChunk
  then have h: "pl_holds s" "take_chunk store info offset s = Some s'" using assms by (simp_all add: part_act_def split: if_splits)
  show ?thesis
  proof (cases "pl_todo s")
    case Nil
    show ?thesis by (rule stop [OF TakeChunk h(1) Nil])
      (use h(2) Nil in \<open>auto simp: take_chunk_def releaseUploadSemaphore_def semaphore_Release_def split: if_splits prod.splits\<close>)
  next
    case (Cons c cs)
    show ?thesis by (rule take [OF TakeChunk h(1) Cons h(2)]) (use h(2) Cons in \<open>auto simp: take_chunk_def Let_def\<close>)
  qed
next
  case (PutPart j)
  obtain t inc s1 where a: "put_answer store u (pl_tasks s ! j) (pl_incomplete s) (pl_env s) = ((t, inc), s1)" by (metis surj_pair)
  show ?thesis by (rule put [OF PutPart _ _ a])
    (use assms PutPart a in \<open>auto simp: part_act_def put_task_def split: if_splits\<close>)
next
  case (ClosePart j)
  then obtain e where j: "j < length (pl_tasks s)" "tk_state (pl_tasks s ! j) = Answer e" "close_task j e s = Some s'"
    using assms by (auto simp: part_act_def split: if_splits task_state.splits)
  obtain cerr s1 where cl: "on_machine (closeReader (tk_chunk (pl_tasks s ! j))) (pl_env s) = (cerr, s1)" by (metis surj_pair)
  show ?thesis by (rule close [OF ClosePart j(1,2) cl])
    (use j(3) cl in \<open>auto simp: close_task_def Let_def releaseUploadSemaphore_def semaphore_Release_def split: if_splits prod.splits\<close>)
next
  case WaitAll
  show ?thesis by (rule wait [OF WaitAll]) (use assms WaitAll in \<open>auto simp: part_act_def split: if_splits\<close>)
next
  case OtherAcquire
  show ?thesis by (rule acquired [OF OtherAcquire])
    (use assms OtherAcquire in \<open>auto simp: part_act_def acquireUploadSemaphore_def semaphore_Acquire_def split: if_splits prod.splits\<close>)
next
  case OtherRelease
  show ?thesis by (rule released [OF OtherRelease])
    (use assms OtherRelease in \<open>auto simp: part_act_def releaseUploadSemaphore_def semaphore_Release_def split: if_splits prod.splits\<close>)
qed

lemma slots_inv_step:
  assumes "part_act store info offset u l s = Some s'" "slots_inv limit s"
  shows "slots_inv limit s'"
proof (cases rule: part_act_cases [OF assms(1)])
  case 1
  with assms(2) show ?thesis by (auto simp: slots_inv_def)
next
  case 2
  with assms(2) show ?thesis by (auto simp: slots_inv_def)
next
  case (3 c cs t)
  with assms(2) show ?thesis by (auto simp: slots_inv_def)
next
  case (4 j t inc s1)
  from put_answer_state [OF 4(4)] running_update(1) [OF 4(2), of t] 4(3,5) assms(2) show ?thesis by (auto simp: slots_inv_def)
next
  case (5 j e cerr s1)
  from running_update(1) [OF 5(2), of "(pl_tasks s ! j)\<lparr>tk_state := Ended\<rparr>"] running_update(2) [OF 5(2)] 5(3,5,6) assms(2) show ?thesis
    by (auto simp: slots_inv_def)
next
  case 6
  with assms(2) running_Ended [OF 6(4)] show ?thesis by (auto simp: slots_inv_def)
next
  case 7
  with assms(2) show ?thesis by (auto simp: slots_inv_def)
next
  case 8
  with assms(2) show ?thesis by (auto simp: slots_inv_def)
qed

text \<open>The steps of this loop and its goroutines, and how many of them are left.\<close>

definition own_step :: "part_label \<Rightarrow> bool" where
  "own_step l \<longleftrightarrow> l \<noteq> OtherAcquire \<and> l \<noteq> OtherRelease"

fun task_left :: "part_task \<Rightarrow> nat" where
  "task_left t = (case tk_state t of Started \<Rightarrow> 2 | Answer e \<Rightarrow> 1 | Ended \<Rightarrow> 0)"

definition loop_left :: "'s part_loop \<Rightarrow> nat" where
  "loop_left s = 4 * length (pl_todo s) + sum_list (map task_left (pl_tasks s)) +
     (if pl_waits s then (if pl_result s = None then 1 else 0) else if pl_holds s then 2 else 3)"

lemma task_left_update:
  assumes "j < length ts"
  shows "sum_list (map task_left (ts[j := t])) + task_left (ts ! j) = sum_list (map task_left ts) + task_left t"
proof -
  have s: "ts = take j ts @ ts ! j # drop (Suc j) ts" using assms by (simp add: id_take_nth_drop)
  have "sum_list (map task_left ts) = sum_list (map task_left (take j ts)) + task_left (ts ! j) + sum_list (map task_left (drop (Suc j) ts))"
    by (subst s) (simp del: task_left.simps)
  then show ?thesis unfolding upd_conv_take_nth_drop [OF assms] by (simp del: task_left.simps)
qed

lemma loop_left_step:
  assumes "part_act store info offset u l s = Some s'" "slots_inv limit s"
  shows "loop_left s = loop_left s' + (if own_step l then 1 else 0)"
proof (cases rule: part_act_cases [OF assms(1)])
  case (4 j t inc s1)
  from put_answer_state [OF 4(4)] obtain e where "tk_state t = Answer e" ..
  with task_left_update [OF 4(2), of t] 4 show ?thesis by (simp add: loop_left_def own_step_def)
next
  case (5 j e cerr s1)
  from task_left_update [OF 5(2), of "(pl_tasks s ! j)\<lparr>tk_state := Ended\<rparr>"] 5 show ?thesis by (simp add: loop_left_def own_step_def)
qed (use assms(2) in \<open>auto simp: loop_left_def own_step_def slots_inv_def\<close>)

lemma loop_left_run:
  "part_run store info offset u ls s = Some s' \<Longrightarrow> slots_inv limit s \<Longrightarrow>
     loop_left s = loop_left s' + length (filter own_step ls) \<and> slots_inv limit s'"
proof (induction ls arbitrary: s)
  case (Cons l ls)
  then obtain s1 where s1: "part_act store info offset u l s = Some s1" "part_run store info offset u ls s1 = Some s'"
    by (auto split: option.splits)
  from Cons.IH [OF s1(2) slots_inv_step [OF s1(1) Cons.prems(2)]] loop_left_step [OF s1(1) Cons.prems(2)] show ?case by simp
qed simp

lemma some_step:
  assumes inv: "slots_inv limit s" and res: "pl_result s = None" and free: "pl_others s < limit"
  shows "\<exists>l. own_step l \<and> part_act store info offset u l s \<noteq> None"
proof (cases "list_all (\<lambda>t. tk_state t = Ended) (pl_tasks s)")
  case True
  note idle = running_Ended [OF True]
  consider "pl_holds s" | "pl_waits s" | "\<not> pl_holds s" "\<not> pl_waits s" by blast
  then show ?thesis
  proof cases
    case 1
    then have "part_act store info offset u TakeChunk s \<noteq> None"
      using inv by (auto simp: part_act_def take_chunk_def Let_def releaseUploadSemaphore_def semaphore_Release_def slots_inv_def split: list.splits)
    then show ?thesis by (intro exI [of _ TakeChunk]) (simp add: own_step_def)
  next
    case 2
    with True res show ?thesis by (intro exI [of _ WaitAll]) (simp add: own_step_def part_act_def)
  next
    case 3
    with inv idle free show ?thesis
      by (intro exI [of _ AcquireSlot]) (simp add: own_step_def part_act_def acquireUploadSemaphore_def semaphore_Acquire_def slots_inv_def)
  qed
next
  case False
  then obtain j where j: "j < length (pl_tasks s)" "tk_state (pl_tasks s ! j) \<noteq> Ended" by (auto simp: list_all_length)
  show ?thesis
  proof (cases "tk_state (pl_tasks s ! j)")
    case Started
    with j show ?thesis by (intro exI [of _ "PutPart j"]) (simp add: own_step_def part_act_def)
  next
    case (Answer e)
    have "0 < snd (pl_sem s)" using running_update(2) [OF j] inv by (auto simp: slots_inv_def)
    with Answer j show ?thesis
      by (intro exI [of _ "ClosePart j"])
        (simp add: own_step_def part_act_def close_task_def Let_def releaseUploadSemaphore_def semaphore_Release_def split: prod.splits; cases "pl_sem s"; simp)
  qed (use j in simp)
qed

text \<open>
  Property C22. The uploads of parts are limited and end. In every interleaving of the loop, its goroutines
  and the other uploads of the store, not more goroutines run than the semaphore allows, the
  other uploads included; while the others leave a slot, the loop is not stuck; after exactly
  four steps for every part and three more it has its result, and then all of its slots are
  given back. This holds whether the requests succeed or fail.
\<close>

theorem part_uploads_are_limited_and_end:
  assumes "part_run store info offset u ls (start_loop limit others cs num u s0) = Some s" "others \<le> limit"
  shows "pl_others s + running (pl_tasks s) \<le> limit \<and>
    length (filter own_step ls) \<le> 4 * length cs + 3 \<and>
    (pl_result s \<noteq> None \<longleftrightarrow> length (filter own_step ls) = 4 * length cs + 3) \<and>
    (pl_result s \<noteq> None \<longrightarrow> pl_sem s = (limit, pl_others s)) \<and>
    (pl_result s = None \<and> pl_others s < limit \<longrightarrow> (\<exists>l. own_step l \<and> part_act store info offset u l s \<noteq> None))"
proof -
  have start: "slots_inv limit (start_loop limit others cs num u s0)" "loop_left (start_loop limit others cs num u s0) = 4 * length cs + 3"
    using assms(2) by (simp_all add: slots_inv_def start_loop_def loop_left_def)
  from loop_left_run [OF assms(1) start(1)] start(2) have
    inv: "slots_inv limit s" and left: "4 * length cs + 3 = loop_left s + length (filter own_step ls)" by simp_all
  have bound: "pl_others s + running (pl_tasks s) \<le> limit" using inv by (auto simp: slots_inv_def)
  have zero: "loop_left s = 0 \<longleftrightarrow> pl_result s \<noteq> None"
  proof
    show "pl_result s \<noteq> None" if "loop_left s = 0" using that by (auto simp: loop_left_def split: if_splits)
    show "loop_left s = 0" if r: "pl_result s \<noteq> None"
    proof -
      have "pl_waits s" "running (pl_tasks s) = 0" "pl_todo s = []" using inv r by (auto simp: slots_inv_def)
      moreover then have "\<forall>t \<in> set (pl_tasks s). task_left t = 0" by (auto simp: running_def filter_empty_conv)
      ultimately show ?thesis using r by (auto simp: loop_left_def simp del: task_left.simps)
    qed
  qed
  have "pl_result s \<noteq> None \<longrightarrow> pl_sem s = (limit, pl_others s)" using inv by (auto simp: slots_inv_def)
  with bound left zero some_step [OF inv] show ?thesis by auto
qed

section \<open>The order does not matter\<close>

text \<open>The goroutines that the loop will start.\<close>

fun plan :: "'s S3Store \<Rightarrow> FileInfo \<Rightarrow> int \<Rightarrow> int \<Rightarrow> int \<Rightarrow> fileChunk list \<Rightarrow> part_task list" where
  "plan store info off n num [] = []"
| "plan store info off n num (c # cs) =
     \<lparr>tk_isPart = (MinPartSize store \<le> fc_size c \<or> \<not> SizeIsDeferred info \<and> Size info = add64 (add64 off n) (fc_size c)),
      tk_number = num, tk_chunk = c, tk_etag = [], tk_state = Started\<rparr> # plan store info off (add64 n (fc_size c)) (wrap32 (num + 1)) cs"

text \<open>A goroutine without what it has done, and the part that it uploads.\<close>

definition fresh_task :: "part_task \<Rightarrow> part_task" where
  "fresh_task t = t\<lparr>tk_etag := [], tk_state := Started\<rparr>"

definition task_part :: "part_task \<Rightarrow> int \<times> bytes \<times> string" where
  "task_part t = (tk_number t, fc_reader (tk_chunk t), tk_etag t)"

definition task_parts :: "(part_task \<Rightarrow> bool) \<Rightarrow> part_task list \<Rightarrow> parts" where
  "task_parts P ts = map task_part (filter (\<lambda>t. tk_isPart t \<and> P t) ts)"

definition task_rest :: "(part_task \<Rightarrow> bool) \<Rightarrow> part_task list \<Rightarrow> bytes" where
  "task_rest P ts = concat (map (fc_reader \<circ> tk_chunk) (filter (\<lambda>t. \<not> tk_isPart t \<and> P t) ts))"

lemma task_lists [simp]:
  "task_parts P [] = []" "task_parts P (t # ts) = (if tk_isPart t \<and> P t then task_part t # task_parts P ts else task_parts P ts)"
  "task_parts P (ts @ us) = task_parts P ts @ task_parts P us"
  "task_rest P [] = []" "task_rest P (t # ts) = (if \<not> tk_isPart t \<and> P t then fc_reader (tk_chunk t) @ task_rest P ts else task_rest P ts)"
  "task_rest P (ts @ us) = task_rest P ts @ task_rest P us"
  by (simp_all add: task_parts_def task_rest_def)

lemma fresh_task_simps [simp]:
  "tk_isPart (fresh_task t) = tk_isPart t" "tk_number (fresh_task t) = tk_number t" "tk_chunk (fresh_task t) = tk_chunk t"
  by (simp_all add: fresh_task_def)

abbreviation put_done :: "part_task \<Rightarrow> bool" where
  "put_done t \<equiv> tk_state t \<noteq> Started"

lemma plan_length [simp]: "length (plan store info off n num cs) = length cs"
  by (induction cs arbitrary: n num) simp_all

lemma plan_chunks: "map tk_chunk (plan store info off n num cs) = cs"
  by (induction cs arbitrary: n num) simp_all

lemma plan_numbers:
  "1 \<le> num \<Longrightarrow> num + int (length cs) \<le> 2147483648 \<Longrightarrow>
     map tk_number (plan store info off n num cs) = map (\<lambda>i. num + int i) [0..<length cs]"
proof (induction cs arbitrary: n num)
  case (Cons c cs)
  show ?case
  proof (cases "cs = []")
    case False
    then have "1 \<le> length cs" by (simp add: Suc_le_eq)
    then have "num + 1 < 2147483648" using Cons.prems(2) by simp
    then have w: "wrap32 (num + 1) = num + 1" using Cons.prems(1) by (simp add: wrap32_def)
    have "[0..<length (c # cs)] = 0 # map Suc [0..<length cs]" by (simp add: map_Suc_upt upt_conv_Cons del: upt_Suc)
    with Cons.IH [of "num + 1"] Cons.prems w show ?thesis by (simp add: comp_def)
  qed simp
qed simp

lemma plan_parts: "good_chunks store cs \<Longrightarrow> t \<in> set (butlast (plan store info off n num cs)) \<Longrightarrow> tk_isPart t"
proof (induction cs arbitrary: n num)
  case (Cons c cs)
  show ?case
  proof (cases "cs = []")
    case False
    then have "plan store info off (add64 n (fc_size c)) (wrap32 (num + 1)) cs \<noteq> []" by (metis length_0_conv plan_length)
    moreover have "good_chunks store cs" "MinPartSize store \<le> fc_size c" using Cons.prems(1) False by (simp_all add: good_chunks_def)
    ultimately show ?thesis using Cons by auto
  qed (use Cons in simp)
qed simp

text \<open>Whatever the goroutines were answered, their parts are what the loop should store.\<close>

lemma plan_stored:
  assumes "0 < MinPartSize store" "0 \<le> off"
  shows "map fresh_task ts = plan store info off n num cs \<Longrightarrow> good_chunks store cs \<Longrightarrow> numbered ps \<Longrightarrow> num = int (length ps) + 1 \<Longrightarrow>
    num + int (length cs) \<le> 2147483648 \<Longrightarrow> 0 \<le> n \<Longrightarrow> off + n + int (length (chunk_data cs)) \<le> MaxInt64 \<Longrightarrow>
    numbered (ps @ task_parts (\<lambda>_. True) ts) \<and>
    stored_parts store (\<not> SizeIsDeferred info \<and> Size info = off + n + int (length (chunk_data cs))) (chunk_data cs)
      (task_parts (\<lambda>_. True) ts) (task_rest (\<lambda>_. True) ts)"
proof (induction cs arbitrary: n num ps ts)
  case Nil
  then show ?case using assms(1) by (simp add: stored_parts_def)
next
  case (Cons c cs)
  let ?d = "fc_reader c"
  from Cons.prems(2) have c: "?d \<noteq> []" "fc_size c = int (length ?d)" by (simp_all add: good_chunks_def)
  have sums: "add64 off n = off + n" "add64 (off + n) (fc_size c) = off + n + int (length ?d)" "add64 n (fc_size c) = n + int (length ?d)"
    using Cons.prems(6,7) assms(2) c by (auto intro!: add64_id [THEN trans] simp: int64_defs)
  obtain t ts' where ts: "ts = t # ts'" using Cons.prems(1) by (cases ts) auto
  let ?first = "hd (plan store info off n num (c # cs))"
  have first: "fresh_task t = ?first" and ts': "map fresh_task ts' = plan store info off (n + int (length ?d)) (wrap32 (num + 1)) cs"
    using Cons.prems(1) by (simp_all add: ts sums)
  have t: "tk_number t = num" "tk_chunk t = c"
    "tk_isPart t \<longleftrightarrow> MinPartSize store \<le> fc_size c \<or> \<not> SizeIsDeferred info \<and> Size info = off + n + int (length ?d)"
    using arg_cong [OF first, of tk_number] arg_cong [OF first, of tk_chunk] arg_cong [OF first, of tk_isPart] by (simp_all add: sums)
  have part: "task_part t = (num, ?d, tk_etag t)" by (simp add: task_part_def t)
  show ?case
  proof (cases "cs = []")
    case True
    with ts' have "ts' = []" by simp
    with True ts t part c numbered_snoc [OF Cons.prems(3,4), of ?d "tk_etag t"] Cons.prems(3) stored_parts_last [OF assms(1), of ?d _ num "tk_etag t"]
    show ?thesis by (auto simp: stored_parts_def)
  next
    case False
    then have full: "MinPartSize store \<le> int (length ?d)" and good: "good_chunks store cs" using Cons.prems(2) c by (simp_all add: good_chunks_def)
    have "1 \<le> length cs" using False by (simp add: Suc_le_eq)
    then have "num + 1 < 2147483648" using Cons.prems(5) by simp
    then have w: "wrap32 (num + 1) = int (length (ps @ [(num, ?d, tk_etag t)])) + 1" using Cons.prems(4) by (simp add: wrap32_def)
    have "wrap32 (num + 1) + int (length cs) \<le> 2147483648" using Cons.prems(4,5) w by simp
    from Cons.IH [OF ts' good numbered_snoc [OF Cons.prems(3,4)] w this] Cons.prems(6,7)
    have ih: "numbered ((ps @ [(num, ?d, tk_etag t)]) @ task_parts (\<lambda>_. True) ts')"
      "stored_parts store (\<not> SizeIsDeferred info \<and> Size info = off + (n + int (length ?d)) + int (length (chunk_data cs))) (chunk_data cs)
         (task_parts (\<lambda>_. True) ts') (task_rest (\<lambda>_. True) ts')" by simp_all
    have "tk_isPart t" using t(3) full c(2) by simp
    with stored_parts_Cons [OF ih(2) full, of num "tk_etag t"] ih(1) part ts show ?thesis by (simp add: add.assoc)
  qed
qed

text \<open>A part that is uploaded goes between the parts with smaller and with larger numbers.\<close>

lemma put_part_middle:
  assumes "\<forall>p \<in> set xs. fst p < n" "\<forall>p \<in> set ys. n < fst p"
  shows "put_part n d e (xs @ ys) = xs @ (n, d, e) # ys"
  using assms(1)
proof (induction xs)
  case Nil
  show ?case
  proof (cases ys)
    case (Cons y ys')
    obtain m x where "y = (m, x)" by (cases y)
    with Cons assms(2) show ?thesis by simp
  qed simp
next
  case (Cons x xs)
  then show ?case by (cases x) auto
qed

lemma put_part_task:
  assumes j: "j < length ts" "tk_state (ts ! j) = Started" "tk_isPart (ts ! j)" and sorted: "sorted_wrt (<) (map tk_number ts)"
    and ps: "\<forall>p \<in> set ps. fst p < tk_number (ts ! j)"
  shows "put_part (tk_number (ts ! j)) (fc_reader (tk_chunk (ts ! j))) etag (ps @ task_parts put_done ts) =
    ps @ task_parts put_done (ts[j := (ts ! j)\<lparr>tk_etag := etag, tk_state := Answer None\<rparr>])"
proof -
  let ?t = "ts ! j" and ?a = "take j ts" and ?b = "drop (Suc j) ts"
  have s: "ts = ?a @ ?t # ?b" using j(1) by (simp add: id_take_nth_drop)
  have u: "ts[j := x] = ?a @ x # ?b" for x using j(1) by (simp add: upd_conv_take_nth_drop)
  have "sorted_wrt (<) (map tk_number ?a @ tk_number ?t # map tk_number ?b)" using sorted by (subst (asm) s) simp
  then have ab: "\<forall>x \<in> set ?a. tk_number x < tk_number ?t" "\<forall>x \<in> set ?b. tk_number ?t < tk_number x" by (auto simp: sorted_wrt_append)
  have "task_parts put_done ts = task_parts put_done ?a @ task_parts put_done ?b"
    using j(2) by (subst s) (simp del: append_take_drop_id)
  moreover have "put_part (tk_number ?t) (fc_reader (tk_chunk ?t)) etag ((ps @ task_parts put_done ?a) @ task_parts put_done ?b) =
      (ps @ task_parts put_done ?a) @ (tk_number ?t, fc_reader (tk_chunk ?t), etag) # task_parts put_done ?b"
    using ps ab by (intro put_part_middle) (auto simp: task_parts_def task_part_def)
  ultimately show ?thesis using j(3) unfolding u by (simp add: task_part_def)
qed

lemma task_lists_closed:
  assumes "j < length ts" "tk_state (ts ! j) \<noteq> Started"
  shows "task_parts put_done (ts[j := (ts ! j)\<lparr>tk_state := Ended\<rparr>]) = task_parts put_done ts"
    "task_rest put_done (ts[j := (ts ! j)\<lparr>tk_state := Ended\<rparr>]) = task_rest put_done ts"
proof -
  let ?t = "ts ! j" and ?a = "take j ts" and ?b = "drop (Suc j) ts"
  have s: "ts = ?a @ ?t # ?b" using assms(1) by (simp add: id_take_nth_drop)
  have u: "ts[j := x] = ?a @ x # ?b" for x using assms(1) by (simp add: upd_conv_take_nth_drop)
  have "task_parts put_done ts = task_parts put_done (?a @ ?t # ?b)" "task_rest put_done ts = task_rest put_done (?a @ ?t # ?b)"
    using s by simp_all
  then show "task_parts put_done (ts[j := ?t\<lparr>tk_state := Ended\<rparr>]) = task_parts put_done ts"
    "task_rest put_done (ts[j := ?t\<lparr>tk_state := Ended\<rparr>]) = task_rest put_done ts"
    using assms(2) unfolding u by (simp_all add: task_part_def)
qed

text \<open>What holds while the parts are uploaded to a service that does not fail.\<close>

definition stores_inv ::
  "'s S3Store \<Rightarrow> FileInfo \<Rightarrow> int \<Rightarrow> s3Upload \<Rightarrow> ('s \<Rightarrow> bucket) \<Rightarrow> parts \<Rightarrow> fileChunk list \<Rightarrow> 's s3env \<Rightarrow> 's part_loop \<Rightarrow> bool" where
  "stores_inv store info offset u view ps cs s0 s \<longleftrightarrow>
     map fresh_task (pl_tasks s) @ plan store info offset (pl_bytes s) (pl_next s) (pl_todo s) = plan store info offset 0 (int (length ps) + 1) cs \<and>
     foldl add64 (pl_bytes s) (map fc_size (pl_todo s)) = foldl add64 0 (map fc_size cs) \<and>
     (\<forall>t \<in> set (pl_tasks s). \<forall>e. tk_state t = Answer (Some e) \<longrightarrow> False) \<and> pl_err s = None \<and> setting (pl_env s) = setting s0 \<and>
     pl_incomplete s = (if task_rest put_done (pl_tasks s) = [] then incompletePartSize u else int (length (task_rest put_done (pl_tasks s)))) \<and>
     view (remote (pl_env s)) = with_incomplete store (objectId u) (task_rest put_done (pl_tasks s))
       (set_mp (upload_key store (objectId u)) (multipartId u) (Some (ps @ task_parts put_done (pl_tasks s))) (view (remote s0))) \<and>
     (pl_result s \<noteq> None \<longrightarrow> pl_todo s = [] \<and> list_all (\<lambda>t. tk_state t = Ended) (pl_tasks s) \<and> pl_result s = Some (pl_bytes s, None)) \<and>
     (pl_waits s \<longrightarrow> pl_todo s = [])"

lemma with_incomplete_mp:
  "set_mp k i x (with_incomplete store oid inc b) = with_incomplete store oid inc (set_mp k i x b)"
  "bk_mps (with_incomplete store oid inc b) = bk_mps b"
  by (simp_all add: with_incomplete_def set_obj_def set_mp_def)

lemma put_answer_part:
  assumes rel: "s3_reliable store view" and hashes: "\<not> DisableContentHashes store"
    and qs: "bk_mps (view (remote s)) (upload_key store (objectId u)) (multipartId u) = Some qs"
    and t: "tk_isPart t" "1 \<le> tk_number t" "tk_number t \<le> MaxMultipartParts store"
    and run: "put_answer store u t inc s = ((t', inc'), s')"
  shows "\<exists>etag. t' = t\<lparr>tk_etag := etag, tk_state := Answer None\<rparr> \<and> inc' = inc \<and> setting s' = setting s \<and>
    view (remote s') = set_mp (upload_key store (objectId u)) (multipartId u)
      (Some (put_part (tk_number t) (fc_reader (tk_chunk t)) etag qs)) (view (remote s))"
proof -
  let ?f = "svc_UploadPart (Service store) (Bucket store) (upload_key store (objectId u)) (multipartId u) (tk_number t) (fc_reader (tk_chunk t))"
  obtain r s1 where call: "call ?f s = (r, s1)" by (metis surj_pair)
  from call obtain x where x: "?f (remote s) = (r, x)" "remote s1 = x" "setting s1 = setting s" by (rule callE)
  from reliableD(5) [OF rel, unfolded part_ok_def, rule_format, OF x(1) qs t(2,3)] x(2,3) run call t(1) hashes
  show ?thesis by (auto simp: put_answer_def putPartForUpload_def)
qed

lemma put_answer_rest:
  assumes rel: "s3_reliable store view" and t: "\<not> tk_isPart t" and run: "put_answer store u t inc s = ((t', inc'), s')"
  shows "t' = t\<lparr>tk_state := Answer None\<rparr> \<and> inc' = fc_size (tk_chunk t) \<and> setting s' = setting s \<and>
    view (remote s') = set_obj (part_key store (objectId u)) (Some (map B (fc_reader (tk_chunk t)))) (view (remote s))"
proof -
  let ?f = "svc_PutObject (Service store) (Bucket store) (part_key store (objectId u)) (map B (fc_reader (tk_chunk t)))"
  obtain r s1 where call: "call ?f s = (r, s1)" by (metis surj_pair)
  from call obtain x where x: "?f (remote s) = (r, x)" "remote s1 = x" "setting s1 = setting s" by (rule callE)
  from reliableD(1) [OF rel, unfolded put_ok_def, rule_format, OF x(1)] x(2,3) run call t
  show ?thesis by (auto simp: put_answer_def putIncompletePartForUpload_def)
qed

lemma close_calm:
  assumes "on_machine (closeReader c) s = (e, s')" "calm s"
  shows "e = None \<and> setting s' = setting s \<and> remote s' = remote s"
  using on_machine_close [OF assms(1)] assms(2) by simp

text \<open>What the plan says of a goroutine that has been started.\<close>

lemma started_task:
  assumes "map fresh_task ts @ rest = plan store info offset 0 num cs" "j < length ts" "good_chunks store cs"
    and "1 \<le> num" "num + int (length cs) \<le> 2147483648"
  shows "sorted_wrt (<) (map tk_number ts)" "tk_number (ts ! j) = num + int j" "j < length cs" "tk_chunk (ts ! j) = cs ! j"
    and "\<not> tk_isPart (ts ! j) \<Longrightarrow> Suc j = length cs \<and> length ts = length cs \<and> (\<forall>i < j. tk_isPart (ts ! i))"
proof -
  let ?P = "plan store info offset 0 num cs"
  have len: "length ts \<le> length cs" using arg_cong [OF assms(1), of length] by simp
  have nth: "fresh_task (ts ! i) = ?P ! i" if "i < length ts" for i
    using that assms(1) by (metis length_map nth_append nth_map)
  show j: "j < length cs" using assms(2) len by simp
  have nums: "map tk_number ts = map (\<lambda>i. num + int i) [0..<length ts]"
  proof (rule nth_equalityI)
    fix i assume i: "i < length (map tk_number ts)"
    then have "tk_number (ts ! i) = map tk_number ?P ! i" using nth [of i] len by (metis fresh_task_simps(2) length_map nth_map order_less_le_trans plan_length)
    also have "\<dots> = num + int i" using arg_cong [OF plan_numbers [OF assms(4,5), of store info offset 0], of "\<lambda>xs. xs ! i"] i len by simp
    finally show "map tk_number ts ! i = map (\<lambda>i. num + int i) [0..<length ts] ! i" using i by simp
  qed simp
  show "sorted_wrt (<) (map tk_number ts)" unfolding nums by (simp add: sorted_wrt_iff_nth_less)
  show "tk_number (ts ! j) = num + int j" using arg_cong [OF nums, of "\<lambda>xs. xs ! j"] assms(2) by simp
  have "tk_chunk (ts ! j) = map tk_chunk ?P ! j" using nth [OF assms(2)] j by (metis fresh_task_simps(3) nth_map plan_length)
  then show "tk_chunk (ts ! j) = cs ! j" by (simp add: plan_chunks)
  have part: "tk_isPart (ts ! i)" if "i < length ts" "Suc i < length cs" for i
  proof -
    have "?P ! i \<in> set (butlast ?P)" using that by (auto simp: in_set_conv_nth nth_butlast intro!: exI [of _ i])
    from plan_parts [OF assms(3) this] nth [OF that(1)] show ?thesis by (metis fresh_task_simps(1))
  qed
  show "Suc j = length cs \<and> length ts = length cs \<and> (\<forall>i < j. tk_isPart (ts ! i))" if "\<not> tk_isPart (ts ! j)"
  proof -
    have "Suc j = length cs" using part [OF assms(2)] that j by (metis Suc_lessI)
    with assms(2) len part show ?thesis by (metis Suc_less_eq Suc_leI le_antisym less_trans)
  qed
qed

lemma task_rest_parts: "\<forall>t \<in> set ts. \<not> tk_isPart t \<longrightarrow> \<not> P t \<Longrightarrow> task_rest P ts = []"
  by (induction ts) auto

lemma map_fresh_update:
  assumes "j < length ts" "fresh_task x = fresh_task (ts ! j)"
  shows "map fresh_task (ts[j := x]) = map fresh_task ts"
  using assms by (metis list_update_id map_update)

lemma task_parts_update:
  assumes "j < length ts" "\<not> tk_isPart (ts ! j)" "\<not> tk_isPart x"
  shows "task_parts P (ts[j := x]) = task_parts P ts"
proof -
  have "task_parts P (take j ts @ x # drop (Suc j) ts) = task_parts P (take j ts @ ts ! j # drop (Suc j) ts)" using assms by simp
  then show ?thesis using assms(1) by (simp only: upd_conv_take_nth_drop id_take_nth_drop [symmetric])
qed

lemma task_rest_update:
  assumes "j < length ts" "tk_isPart (ts ! j)" "tk_isPart x"
  shows "task_rest P (ts[j := x]) = task_rest P ts"
proof -
  have "task_rest P (take j ts @ x # drop (Suc j) ts) = task_rest P (take j ts @ ts ! j # drop (Suc j) ts)" using assms by simp
  then show ?thesis using assms(1) by (simp only: upd_conv_take_nth_drop id_take_nth_drop [symmetric])
qed

lemma stores_inv_step:
  assumes rel: "s3_reliable store view" and hashes: "\<not> DisableContentHashes store" and calm: "calm s0"
    and ps: "numbered ps" "int (length ps) + int (length cs) \<le> MaxMultipartParts store" "MaxMultipartParts store < 2147483647"
    and good: "good_chunks store cs"
    and act: "part_act store info offset u l s = Some s'" and inv: "stores_inv store info offset u view ps cs s0 s"
  shows "stores_inv store info offset u view ps cs s0 s'"
proof -
  note i = inv [unfolded stores_inv_def]
  let ?ts = "pl_tasks s" and ?k = "upload_key store (objectId u)" and ?m = "multipartId u" and ?num = "int (length ps) + 1"
  have calm_s: "calm (pl_env s)" using i calm setting_calm by blast
  note started = started_task [OF conjunct1 [OF i] _ good]
  have lims: "1 \<le> ?num" "?num + int (length cs) \<le> 2147483648" using ps by simp_all
  have unfinished: "pl_result s = None" if "j < length ?ts" "tk_state (?ts ! j) \<noteq> Ended" for j
    using that i by (cases "pl_result s") (auto simp: list_all_length)
  show ?thesis
  proof (cases rule: part_act_cases [OF act])
    case (3 c cs' t)
    let ?rest = "plan store info offset (add64 (pl_bytes s) (fc_size c)) (wrap32 (pl_next s + 1)) cs'"
    have "fresh_task t = t" using 3(5,8) by (cases t) (simp add: fresh_task_def)
    moreover have "plan store info offset (pl_bytes s) (pl_next s) (pl_todo s) = t # ?rest"
      using 3(3,5-9) by (cases t) simp
    ultimately have "map fresh_task (?ts @ [t]) @ ?rest = plan store info offset 0 ?num cs" using i by simp
    moreover have "task_parts put_done (?ts @ [t]) = task_parts put_done ?ts" "task_rest put_done (?ts @ [t]) = task_rest put_done ?ts"
      using 3(5) by simp_all
    moreover have "pl_result s = None" "\<not> pl_waits s" using i 3(3) by (cases "pl_result s"; simp)+
    ultimately show ?thesis using i 3(3,5,10) unfolding stores_inv_def by simp
  next
    case (4 j t inc s1)
    note st = started [OF 4(2) lims]
    have result: "pl_result s = None" using unfinished [OF 4(2)] 4(3) by simp
    have mps: "bk_mps (view (remote (pl_env s))) ?k ?m = Some (ps @ task_parts put_done ?ts)" using i by (simp add: with_incomplete_mp)
    show ?thesis
    proof (cases "tk_isPart (?ts ! j)")
      case True
      have n: "1 \<le> tk_number (?ts ! j)" "tk_number (?ts ! j) \<le> MaxMultipartParts store" using st(2,3) ps(2) by simp_all
      from put_answer_part [OF rel hashes mps True n 4(4)] obtain etag where
        a: "t = (?ts ! j)\<lparr>tk_etag := etag, tk_state := Answer None\<rparr>" "inc = pl_incomplete s" "setting s1 = setting (pl_env s)"
          "view (remote s1) = set_mp ?k ?m (Some (put_part (tk_number (?ts ! j)) (fc_reader (tk_chunk (?ts ! j))) etag (ps @ task_parts put_done ?ts)))
             (view (remote (pl_env s)))" by blast
      have "\<forall>p \<in> set ps. fst p < tk_number (?ts ! j)" using numbered_less [OF ps(1)] st(2) by force
      note pp = put_part_task [OF 4(2,3) True st(1) this, of etag, folded a(1)]
      have rest: "task_rest put_done (?ts[j := t]) = task_rest put_done ?ts" using task_rest_update [OF 4(2) True] True a(1) by simp
      have fr: "map fresh_task (?ts[j := t]) = map fresh_task ?ts" using a(1) by (intro map_fresh_update [OF 4(2)]) (simp add: fresh_task_def)
      have "view (remote s1) = with_incomplete store (objectId u) (task_rest put_done ?ts)
          (set_mp ?k ?m (Some (ps @ task_parts put_done (?ts[j := t]))) (view (remote s0)))"
        unfolding a(4) pp using i by (simp add: with_incomplete_mp)
      moreover have "x \<in> set (?ts[j := t]) \<Longrightarrow> tk_state x \<noteq> Answer (Some e)" for x e
        using i a(1) set_update_subset_insert [of ?ts j t] by auto
      ultimately show ?thesis using i 4(5) a(2,3) rest fr result unfolding stores_inv_def by auto
    next
      case False
      note last = st(5) [OF False]
      from put_answer_rest [OF rel False 4(4)] have
        a: "t = (?ts ! j)\<lparr>tk_state := Answer None\<rparr>" "inc = fc_size (tk_chunk (?ts ! j))" "setting s1 = setting (pl_env s)"
          "view (remote s1) = set_obj (part_key store (objectId u)) (Some (map B (fc_reader (tk_chunk (?ts ! j))))) (view (remote (pl_env s)))" by blast+
      have len: "length ?ts = Suc j" using last by simp
      then have ts: "?ts = take j ?ts @ [?ts ! j]" using 4(2) by (metis lessI take_Suc_conv_app_nth take_all order_refl)
      have upd: "?ts[j := t] = take j ?ts @ [t]" using len by (simp add: upd_conv_take_nth_drop)
      have parts: "\<forall>x \<in> set (take j ?ts). tk_isPart x" using last len by (auto simp: in_set_conv_nth)
      have before: "task_rest put_done ?ts = []" using parts 4(3) by (subst ts) (simp add: task_rest_parts)
      have after: "task_rest put_done (?ts[j := t]) = fc_reader (tk_chunk (?ts ! j))"
        unfolding upd using parts a(1) False by (simp add: task_rest_parts)
      have chunk: "tk_chunk (?ts ! j) \<in> set cs" using st(3,4) by simp
      then have c: "fc_reader (tk_chunk (?ts ! j)) \<noteq> []" "fc_size (tk_chunk (?ts ! j)) = int (length (fc_reader (tk_chunk (?ts ! j))))"
        using good by (simp_all add: good_chunks_def)
      have same: "task_parts put_done (?ts[j := t]) = task_parts put_done ?ts" using False a(1) by (intro task_parts_update [OF 4(2)]) simp_all
      have fr: "map fresh_task (?ts[j := t]) = map fresh_task ?ts" using a(1) by (intro map_fresh_update [OF 4(2)]) (simp add: fresh_task_def)
      have "view (remote s1) = with_incomplete store (objectId u) (task_rest put_done (?ts[j := t]))
          (set_mp ?k ?m (Some (ps @ task_parts put_done (?ts[j := t]))) (view (remote s0)))"
        unfolding a(4) after same using i before c(1) by (simp add: with_incomplete_def)
      moreover have "x \<in> set (?ts[j := t]) \<Longrightarrow> tk_state x \<noteq> Answer (Some e)" for x e
        using i a(1) set_update_subset_insert [of ?ts j t] by auto
      ultimately show ?thesis using i 4(5) a(2,3) after fr c result unfolding stores_inv_def by auto
    qed
  next
    case (5 j e cerr s1)
    have e: "e = None" using i 5(2,3) by (cases e) (auto dest: nth_mem)
    note cl = close_calm [OF 5(4) calm_s]
    have result: "pl_result s = None" using unfinished [OF 5(2)] 5(3) by simp
    let ?t = "(?ts ! j)\<lparr>tk_state := Ended\<rparr>"
    have "tk_state (?ts ! j) \<noteq> Started" using 5(3) by simp
    note same = task_lists_closed [OF 5(2) this]
    have fr: "map fresh_task (?ts[j := ?t]) = map fresh_task ?ts" by (intro map_fresh_update [OF 5(2)]) (simp add: fresh_task_def)
    have "x \<in> set (?ts[j := ?t]) \<Longrightarrow> tk_state x \<noteq> Answer (Some y)" for x y
      using i set_update_subset_insert [of ?ts j ?t] by auto
    with i 5(6) e cl same fr result show ?thesis unfolding stores_inv_def by auto
  qed (use i in \<open>auto simp: stores_inv_def\<close>)
qed

text \<open>The upload after the loop: its parts are shared with the goroutines.\<close>

definition task_s3Part :: "part_task \<Rightarrow> s3Part" where
  "task_s3Part t = \<lparr>pt_number = tk_number t, pt_size = fc_size (tk_chunk t), pt_etag = tk_etag t\<rparr>"

definition loop_upload :: "s3Upload \<Rightarrow> 's part_loop \<Rightarrow> s3Upload" where
  "loop_upload u s =
     u\<lparr>up_parts := up_parts u @ map task_s3Part (filter tk_isPart (pl_tasks s)), incompletePartSize := pl_incomplete s\<rparr>"

lemma stores_inv_start:
  assumes "bk_mps (view (remote s0)) (upload_key store (objectId u)) (multipartId u) = Some ps"
  shows "stores_inv store info offset u view ps cs s0 (start_loop limit others cs (int (length ps) + 1) u s0)"
  using assms by (simp add: stores_inv_def start_loop_def with_incomplete_def set_mp_same)

lemma foldl_sizes:
  "\<forall>c \<in> set cs. fc_size c = int (length (fc_reader c)) \<Longrightarrow> 0 \<le> n \<Longrightarrow> n + int (length (chunk_data cs)) \<le> MaxInt64 \<Longrightarrow>
     foldl add64 n (map fc_size cs) = n + int (length (chunk_data cs))"
proof (induction cs arbitrary: n)
  case (Cons c cs)
  have "add64 n (fc_size c) = n + int (length (fc_reader c))" using Cons.prems by (subst add64_id) (auto simp: int64_defs)
  with Cons.IH [of "n + int (length (fc_reader c))"] Cons.prems show ?case by simp
qed simp

lemma part_loop_result:
  assumes rel: "s3_reliable store view" and hashes: "\<not> DisableContentHashes store" and calm: "calm s0" and min: "0 < MinPartSize store"
    and ps: "numbered ps" "int (length ps) + int (length cs) \<le> MaxMultipartParts store" "MaxMultipartParts store < 2147483647"
      "bk_mps (view (remote s0)) (upload_key store (objectId u)) (multipartId u) = Some ps"
    and good: "good_chunks store cs" and off: "0 \<le> offset" "offset + int (length (chunk_data cs)) \<le> MaxInt64"
    and run: "part_run store info offset u ls (start_loop limit others cs (int (length ps) + 1) u s0) = Some s" "pl_result s \<noteq> None"
  shows "pl_result s = Some (int (length (chunk_data cs)), None) \<and> setting (pl_env s) = setting s0 \<and>
    map fresh_task (pl_tasks s) = plan store info offset 0 (int (length ps) + 1) cs \<and>
    (let qs = task_parts (\<lambda>_. True) (pl_tasks s); inc = task_rest (\<lambda>_. True) (pl_tasks s)
     in loop_upload u s = grown_upload u qs inc \<and> numbered (ps @ qs) \<and>
        view (remote (pl_env s)) = with_incomplete store (objectId u) inc
          (set_mp (upload_key store (objectId u)) (multipartId u) (Some (ps @ qs)) (view (remote s0))) \<and>
        stored_parts store (\<not> SizeIsDeferred info \<and> Size info = offset + int (length (chunk_data cs))) (chunk_data cs) qs inc)"
proof -
  have inv: "stores_inv store info offset u view ps cs s0 s"
    using part_run_invariant [where I = "stores_inv store info offset u view ps cs s0", OF run(1) stores_inv_start [where view = view, OF ps(4)]]
      stores_inv_step [OF rel hashes calm ps(1,2,3) good] by blast
  note i = inv [unfolded stores_inv_def]
  let ?ts = "pl_tasks s"
  from i run(2) have fin: "pl_todo s = []" "\<forall>t \<in> set ?ts. tk_state t = Ended" "pl_result s = Some (pl_bytes s, None)"
    by (simp_all add: list_all_iff)
  have all: "task_parts put_done ?ts = task_parts (\<lambda>_. True) ?ts" "task_rest put_done ?ts = task_rest (\<lambda>_. True) ?ts"
    using fin(2) by (auto simp: task_parts_def task_rest_def intro!: arg_cong [where f = concat] arg_cong [where f = "map _"] filter_cong)
  have plan: "map fresh_task ?ts = plan store info offset 0 (int (length ps) + 1) cs" using i fin(1) by simp
  have sizes: "\<forall>c \<in> set cs. fc_size c = int (length (fc_reader c))" using good by (simp add: good_chunks_def)
  have bytes: "pl_bytes s = int (length (chunk_data cs))" using i fin(1) foldl_sizes [OF sizes, of 0] off by simp
  have lims: "int (length ps) + 1 + int (length cs) \<le> 2147483648" using ps(2,3) by simp
  from plan_stored [OF min off(1) plan good ps(1) refl lims] off(2) have
    st: "numbered (ps @ task_parts (\<lambda>_. True) ?ts)"
      "stored_parts store (\<not> SizeIsDeferred info \<and> Size info = offset + int (length (chunk_data cs))) (chunk_data cs)
        (task_parts (\<lambda>_. True) ?ts) (task_rest (\<lambda>_. True) ?ts)" by simp_all
  have "fc_size (tk_chunk t) = int (length (fc_reader (tk_chunk t)))" if "t \<in> set ?ts" for t
  proof -
    have "map tk_chunk ?ts = cs" using arg_cong [OF plan, of "map tk_chunk"] by (simp add: plan_chunks comp_def)
    then have "tk_chunk t \<in> set cs" using that by (metis image_eqI list.set_map)
    with sizes show ?thesis by simp
  qed
  then have "map task_s3Part (filter tk_isPart ?ts) = part_list (task_parts (\<lambda>_. True) ?ts)"
    by (auto simp: part_list_def task_parts_def task_part_def task_s3Part_def)
  with i all st plan bytes fin(3) show ?thesis by (simp add: Let_def loop_upload_def grown_upload_def)
qed

text \<open>One after the other is one of the orders, whether the requests succeed or fail.\<close>

lemma loop_upload_ids [simp]: "objectId (loop_upload u s) = objectId u" "multipartId (loop_upload u s) = multipartId u"
  by (simp_all add: loop_upload_def)

lemma putPart_same: "objectId u' = objectId u \<Longrightarrow> multipartId u' = multipartId u \<Longrightarrow> putPartForUpload store u' = putPartForUpload store u"
  by (intro ext) (simp only: putPartForUpload_def)

definition idle_loop :: "'s part_loop \<Rightarrow> bool" where
  "idle_loop s \<longleftrightarrow> \<not> pl_holds s \<and> \<not> pl_waits s \<and> pl_result s = None \<and> list_all (\<lambda>t. tk_state t = Ended) (pl_tasks s) \<and>
     snd (pl_sem s) < fst (pl_sem s)"

lemma sequential_chunk:
  assumes idle: "idle_loop s" and todo: "pl_todo s = c # cs"
    and one: "(if MinPartSize store \<le> fc_size c \<or> \<not> SizeIsDeferred info \<and> Size info = add64 (add64 offset (pl_bytes s)) (fc_size c)
       then upload_part store (loop_upload u s) (pl_next s) c (pl_env s) else store_incomplete store (loop_upload u s) c (pl_env s)) = (e, u1, s1)"
  shows "\<exists>ls s'. part_run store info offset u ls s = Some s' \<and> idle_loop s' \<and> pl_todo s' = cs \<and>
    pl_bytes s' = add64 (pl_bytes s) (fc_size c) \<and> pl_next s' = wrap32 (pl_next s + 1) \<and> loop_upload u s' = u1 \<and> pl_env s' = s1 \<and>
    pl_err s' = (case pl_err s of Some x \<Rightarrow> Some x | None \<Rightarrow> e)"
proof -
  obtain lim n where sem: "pl_sem s = (lim, n)" "n < lim" using idle by (cases "pl_sem s") (simp add: idle_loop_def)
  let ?j = "length (pl_tasks s)" and ?bytes = "add64 (pl_bytes s) (fc_size c)" and ?next = "wrap32 (pl_next s + 1)"
  define t where "t = hd (plan store info offset (pl_bytes s) (pl_next s) (c # cs))"
  obtain t' inc s2 where put: "put_answer store u t (pl_incomplete s) (pl_env s) = ((t', inc), s2)" by (metis surj_pair)
  obtain e0 where e0: "tk_state t' = Answer e0" using put_answer_state [OF put] ..
  obtain cerr s3 where cl: "on_machine (closeReader c) s2 = (cerr, s3)" by (metis surj_pair)
  define U where "U = loop_upload u s"
  have U: "objectId U = objectId u" "incompletePartSize U = pl_incomplete s" by (simp_all add: U_def) (simp add: loop_upload_def)
  have upd: "U\<lparr>up_parts := X, incompletePartSize := pl_incomplete s\<rparr> = U\<lparr>up_parts := X\<rparr>"
      "U\<lparr>up_parts := up_parts U, incompletePartSize := k\<rparr> = U\<lparr>incompletePartSize := k\<rparr>" for X k
    using U(2) by (cases U; simp)+
  have same: "putPartForUpload store U = putPartForUpload store u" unfolding U_def by (rule putPart_same) simp_all
  have t': "tk_chunk t' = c" "tk_isPart t' = tk_isPart t"
    using put by (auto simp: put_answer_def t_def split: if_splits prod.splits sum.splits option.splits)
  have res: "e = (case e0 of Some x \<Rightarrow> Some x | None \<Rightarrow> cerr) \<and> s1 = s3 \<and>
      u1 = U\<lparr>up_parts := up_parts U @ (if tk_isPart t then [task_s3Part t'] else []), incompletePartSize := inc\<rparr>"
  proof (cases "tk_isPart t")
    case True
    obtain r x where r: "putPartForUpload store u (pl_next s) (fc_reader c) (fc_size c) (pl_env s) = (r, x)" by (metis surj_pair)
    from True have "upload_part store U (pl_next s) c (pl_env s) = (e, u1, s1)" using one by (simp add: t_def U_def)
    with put True r cl e0 show ?thesis
      by (cases r) (auto simp: upload_part_def same put_answer_def t_def task_s3Part_def upd)
  next
    case False
    obtain r x where r: "putIncompletePartForUpload store (objectId u) (fc_reader c) (pl_env s) = (r, x)" by (metis surj_pair)
    from False have "store_incomplete store U c (pl_env s) = (e, u1, s1)" using one by (auto simp: t_def U_def split: if_splits)
    with put False r cl e0 U(1) upd(1) [of "up_parts U"] show ?thesis
      by (cases r) (auto simp: store_incomplete_def put_answer_def t_def upd)
  qed
  let ?s1 = "s\<lparr>pl_todo := cs, pl_sem := (lim, Suc n), pl_tasks := pl_tasks s @ [t], pl_bytes := ?bytes, pl_next := ?next\<rparr>"
  let ?s2 = "?s1\<lparr>pl_env := s2, pl_incomplete := inc, pl_tasks := pl_tasks s @ [t']\<rparr>"
  let ?s3 = "?s2\<lparr>pl_env := s3, pl_err := (case pl_err s of Some x \<Rightarrow> Some x | None \<Rightarrow> e),
      pl_tasks := pl_tasks s @ [t'\<lparr>tk_state := Ended\<rparr>], pl_sem := (lim, n)\<rparr>"
  have flags: "\<not> pl_holds s" "\<not> pl_waits s" "pl_result s = None" "list_all (\<lambda>t. tk_state t = Ended) (pl_tasks s)"
    using idle by (simp_all add: idle_loop_def)
  let ?s0 = "s\<lparr>pl_sem := (lim, Suc n), pl_holds := True\<rparr>"
  have A: "part_act store info offset u AcquireSlot s = Some ?s0"
    using flags sem by (simp add: part_act_def acquireUploadSemaphore_def semaphore_Acquire_def)
  have B: "part_act store info offset u TakeChunk ?s0 = Some ?s1"
    using flags todo by (simp add: part_act_def take_chunk_def Let_def t_def)
  have C: "part_act store info offset u (PutPart ?j) ?s1 = Some ?s2"
    using put by (simp add: part_act_def put_task_def) (simp add: t_def)
  have D: "part_act store info offset u (ClosePart ?j) ?s2 = Some ?s3"
    using e0 cl res by (simp add: part_act_def close_task_def t' Let_def releaseUploadSemaphore_def semaphore_Release_def cong: option.case_cong)
  have "part_run store info offset u [AcquireSlot, TakeChunk, PutPart ?j, ClosePart ?j] s = Some ?s3"
    by (simp only: part_run.simps A B C D option.case)
  moreover have "idle_loop ?s3" using flags sem by (simp add: idle_loop_def)
  moreover have "loop_upload u ?s3 = u1" using res t' by (simp add: U_def loop_upload_def task_s3Part_def)
  moreover have "pl_env ?s3 = s1" using res by simp
  ultimately show ?thesis by (intro exI [of _ "[AcquireSlot, TakeChunk, PutPart ?j, ClosePart ?j]"] exI [of _ ?s3]) simp
qed

lemma sequential_chunks:
  "upload_chunks store info offset (pl_bytes s) (pl_next s) cs (loop_upload u s) (pl_env s) = ((n, e), u', s') \<Longrightarrow>
   idle_loop s \<Longrightarrow> pl_todo s = cs \<Longrightarrow>
   \<exists>ls s2. part_run store info offset u ls s = Some s2 \<and> idle_loop s2 \<and> pl_todo s2 = [] \<and> pl_bytes s2 = n \<and> loop_upload u s2 = u' \<and>
     pl_env s2 = s' \<and> pl_err s2 = (case pl_err s of Some x \<Rightarrow> Some x | None \<Rightarrow> e)"
proof (induction cs arbitrary: s n e u' s')
  case Nil
  then show ?case by (intro exI [of _ "[]"] exI [of _ s]) (simp split: option.splits)
next
  case (Cons c cs)
  obtain e1 u1 s1 where one: "(if MinPartSize store \<le> fc_size c \<or> \<not> SizeIsDeferred info \<and> Size info = add64 (add64 offset (pl_bytes s)) (fc_size c)
       then upload_part store (loop_upload u s) (pl_next s) c (pl_env s) else store_incomplete store (loop_upload u s) c (pl_env s)) = (e1, u1, s1)"
    by (metis surj_pair)
  from sequential_chunk [OF Cons.prems(2,3) one] obtain ls sx where
    a: "part_run store info offset u ls s = Some sx" "idle_loop sx" "pl_todo sx = cs" "pl_bytes sx = add64 (pl_bytes s) (fc_size c)"
      "pl_next sx = wrap32 (pl_next s + 1)" "loop_upload u sx = u1" "pl_env sx = s1" "pl_err sx = (case pl_err s of Some x \<Rightarrow> Some x | None \<Rightarrow> e1)" by blast
  obtain n2 e2 u2 s2 where rest: "upload_chunks store info offset (add64 (pl_bytes s) (fc_size c)) (wrap32 (pl_next s + 1)) cs u1 s1 = ((n2, e2), u2, s2)"
    by (metis surj_pair)
  from Cons.prems(1) one rest have eq: "n = n2" "e = (case e1 of Some x \<Rightarrow> Some x | None \<Rightarrow> e2)" "u' = u2" "s' = s2" by (simp_all add: Let_def)
  from Cons.IH [of sx n2 e2 u2 s2] rest a obtain ms sy where
    b: "part_run store info offset u ms sx = Some sy" "idle_loop sy" "pl_todo sy = []" "pl_bytes sy = n2" "loop_upload u sy = u2"
      "pl_env sy = s2" "pl_err sy = (case pl_err sx of Some x \<Rightarrow> Some x | None \<Rightarrow> e2)" by auto
  have "part_run store info offset u (ls @ ms) s = Some sy" by (simp add: part_run_append a(1) b(1))
  with a b eq show ?case by (intro exI [of _ "ls @ ms"] exI [of _ sy]) (auto split: option.splits)
qed

text \<open>
  The sequential model is one of the interleavings: \<open>upload_chunks\<close> gives the result of a run of the
  loop, for any service, whether its requests succeed or fail.
\<close>

lemma sequential_run:
  assumes run: "upload_chunks store info offset 0 num cs u s = ((n, e), u', s')" and free: "others < limit"
  shows "\<exists>ls s2. part_run store info offset u ls (start_loop limit others cs num u s) = Some s2 \<and>
    pl_result s2 = Some (case e of Some x \<Rightarrow> (0, Some x) | None \<Rightarrow> (n, None)) \<and> loop_upload u s2 = u' \<and> pl_env s2 = s'"
proof -
  let ?s = "start_loop limit others cs num u s"
  have start: "loop_upload u ?s = u" "pl_env ?s = s" "pl_bytes ?s = 0" "pl_next ?s = num" "pl_todo ?s = cs" "pl_err ?s = None" "idle_loop ?s"
    using free by (simp_all add: loop_upload_def start_loop_def idle_loop_def)
  from sequential_chunks [of store info offset ?s cs u n e u' s'] run start obtain ls sx where
    a: "part_run store info offset u ls ?s = Some sx" "idle_loop sx" "pl_todo sx = []" "pl_bytes sx = n" "loop_upload u sx = u'"
      "pl_env sx = s'" "pl_err sx = e" by auto
  let ?ms = "[AcquireSlot, TakeChunk, WaitAll]"
  obtain lim k where sem: "pl_sem sx = (lim, k)" "k < lim" using a(2) by (cases "pl_sem sx") (simp add: idle_loop_def)
  let ?sy = "sx\<lparr>pl_waits := True, pl_result := Some (case pl_err sx of Some e \<Rightarrow> (0, Some e) | None \<Rightarrow> (pl_bytes sx, None))\<rparr>"
  have "part_run store info offset u ?ms sx = Some ?sy"
    using a(2,3) sem by (cases sx) (simp add: idle_loop_def part_act_def acquireUploadSemaphore_def semaphore_Acquire_def take_chunk_def
      releaseUploadSemaphore_def semaphore_Release_def split: option.splits)
  with a have "part_run store info offset u (ls @ ?ms) ?s = Some ?sy" by (simp add: part_run_append)
  with a show ?thesis by (intro exI [of _ "ls @ ?ms"] exI [of _ ?sy]) (auto simp: loop_upload_def split: option.splits)
qed

section \<open>Properties\<close>

lemma task_parts_plan:
  "map fresh_task ts = map fresh_task us \<Longrightarrow>
     map (\<lambda>(n, d, e). (n, d)) (task_parts (\<lambda>_. True) ts) = map (\<lambda>(n, d, e). (n, d)) (task_parts (\<lambda>_. True) us) \<and>
     task_rest (\<lambda>_. True) ts = task_rest (\<lambda>_. True) us"
proof (induction ts arbitrary: us)
  case (Cons t ts)
  then obtain v us' where us: "us = v # us'" "fresh_task t = fresh_task v" "map fresh_task ts = map fresh_task us'" by auto
  have "tk_isPart t = tk_isPart v" "tk_number t = tk_number v" "tk_chunk t = tk_chunk v"
    using us(2) by (metis fresh_task_simps)+
  with Cons.IH [OF us(3)] us(1) show ?case by (simp add: task_part_def)
qed simp

text \<open>
  Property C21. The order in which the parts are uploaded does not matter: for a service that does not fail,
  every interleaving of the loop, its goroutines and other uploads that ends has the result of
  the sequential loop: the same number of bytes and no error, and parts with the same numbers
  and bytes, the incomplete part included. Only the entity tags, which the service chooses, may
  differ; each is the one that the service gave for that part.
\<close>

theorem concurrent_parts_are_sequential:
  assumes "s3_reliable store view" "\<not> DisableContentHashes store" "calm s0" "0 < MinPartSize store"
    and "numbered ps" "int (length ps) + int (length cs) \<le> MaxMultipartParts store" "MaxMultipartParts store < 2147483647"
    and "bk_mps (view (remote s0)) (upload_key store (objectId u)) (multipartId u) = Some ps"
    and "good_chunks store cs" "0 \<le> offset" "offset + int (length (chunk_data cs)) \<le> MaxInt64" "others < limit"
    and "part_run store info offset u ls (start_loop limit others cs (int (length ps) + 1) u s0) = Some s" "pl_result s \<noteq> None"
    and "upload_chunks store info offset 0 (int (length ps) + 1) cs u s0 = ((n, e), u', s')"
  shows "pl_result s = Some (n, e) \<and> e = None \<and>
    (\<exists>qs rs inc. map (\<lambda>(n, d, e). (n, d)) qs = map (\<lambda>(n, d, e). (n, d)) rs \<and>
       view (remote (pl_env s)) = with_incomplete store (objectId u) inc
         (set_mp (upload_key store (objectId u)) (multipartId u) (Some (ps @ qs)) (view (remote s0))) \<and>
       view (remote s') = with_incomplete store (objectId u) inc
         (set_mp (upload_key store (objectId u)) (multipartId u) (Some (ps @ rs)) (view (remote s0))) \<and>
       loop_upload u s = grown_upload u qs inc \<and> u' = grown_upload u rs inc)"
proof -
  note common = assms(1-11)
  from part_loop_result [OF common assms(13,14)] have
    a: "pl_result s = Some (int (length (chunk_data cs)), None)" "map fresh_task (pl_tasks s) = plan store info offset 0 (int (length ps) + 1) cs"
      "loop_upload u s = grown_upload u (task_parts (\<lambda>_. True) (pl_tasks s)) (task_rest (\<lambda>_. True) (pl_tasks s))"
      "view (remote (pl_env s)) = with_incomplete store (objectId u) (task_rest (\<lambda>_. True) (pl_tasks s))
        (set_mp (upload_key store (objectId u)) (multipartId u) (Some (ps @ task_parts (\<lambda>_. True) (pl_tasks s))) (view (remote s0)))"
    by (simp_all add: Let_def)
  from sequential_run [OF assms(15,12)] obtain ms t where
    t: "part_run store info offset u ms (start_loop limit others cs (int (length ps) + 1) u s0) = Some t"
      "pl_result t = Some (case e of Some x \<Rightarrow> (0, Some x) | None \<Rightarrow> (n, None))" "loop_upload u t = u'" "pl_env t = s'" by blast
  have "pl_result t \<noteq> None" using t(2) by simp
  from part_loop_result [OF common t(1) this] have
    b: "pl_result t = Some (int (length (chunk_data cs)), None)" "map fresh_task (pl_tasks t) = plan store info offset 0 (int (length ps) + 1) cs"
      "u' = grown_upload u (task_parts (\<lambda>_. True) (pl_tasks t)) (task_rest (\<lambda>_. True) (pl_tasks t))"
      "view (remote s') = with_incomplete store (objectId u) (task_rest (\<lambda>_. True) (pl_tasks t))
        (set_mp (upload_key store (objectId u)) (multipartId u) (Some (ps @ task_parts (\<lambda>_. True) (pl_tasks t))) (view (remote s0)))"
    unfolding t(3,4) by (simp_all add: Let_def)
  have "e = None \<and> n = int (length (chunk_data cs))" using t(2) b(1) by (cases e) simp_all
  with a b task_parts_plan [OF trans [OF a(2) b(2) [symmetric]]] show ?thesis by metis
qed

text \<open>Three chunks with two slots: the second part is uploaded first.\<close>

definition three_chunks :: "fileChunk list" where
  "three_chunks = map (\<lambda>d. \<lparr>fc_reader = d, fc_inMemory = True, fc_size = int (length d)\<rparr>) [''ab'', ''cd'', ''e'']"

definition mixed_steps :: "part_label list" where
  "mixed_steps = [AcquireSlot, TakeChunk, AcquireSlot, TakeChunk, PutPart 1, PutPart 0, ClosePart 0, AcquireSlot, TakeChunk, PutPart 2,
     ClosePart 1, ClosePart 2, AcquireSlot, TakeChunk, WaitAll]"

definition mixed_run :: "mem_s3 part_loop option" where
  "mixed_run = part_run (small_store (\<lambda>_. False)) (small_info\<lparr>Size := 8\<rparr>) 0 small_upload mixed_steps
     (start_loop 2 0 three_chunks 1 small_upload (small_env fresh_s3))"

lemma mixed_run_ends: "case mixed_run of None \<Rightarrow> False | Some s \<Rightarrow> pl_result s \<noteq> None"
  by code_simp

theorem part_uploads_are_limited_and_end_witness:
  "\<exists>s. mixed_run = Some s \<and> pl_result s \<noteq> None \<and> length (filter own_step mixed_steps) = 4 * length three_chunks + 3 \<and> pl_sem s = (2, pl_others s)"
proof -
  obtain s where s: "mixed_run = Some s" "pl_result s \<noteq> None" using mixed_run_ends by (auto split: option.splits)
  from part_uploads_are_limited_and_end [OF s(1) [unfolded mixed_run_def]] s show ?thesis by auto
qed

theorem concurrent_parts_are_sequential_witness:
  "\<exists>s. mixed_run = Some s \<and> pl_result s = Some (5, None) \<and>
     (\<exists>qs. map (\<lambda>(n, d, e). (n, d)) qs = [(1, ''ab''), (2, ''cd'')] \<and> bk_mps (ms_view (remote (pl_env s))) ''o'' ''m'' = Some qs)"
proof -
  let ?st = "small_store (\<lambda>_. False)" and ?info = "small_info\<lparr>Size := 8\<rparr>" and ?s0 = "small_env fresh_s3"
  obtain s where s: "mixed_run = Some s" "pl_result s \<noteq> None" using mixed_run_ends by (auto split: option.splits)
  obtain n e u' s' where seq: "upload_chunks ?st ?info 0 0 (int (length ([] :: parts)) + 1) three_chunks small_upload ?s0 = ((n, e), u', s')" by (metis surj_pair)
  have "case upload_chunks ?st ?info 0 0 1 three_chunks small_upload ?s0 of
      ((n, e), u', s') \<Rightarrow> n = 5 \<and> map_option (map (\<lambda>(n, d, e). (n, d))) (bk_mps (ms_view (remote s')) ''o'' ''m'') = Some [(1, ''ab''), (2, ''cd'')]"
    by code_simp
  with seq have n: "n = 5" "map_option (map (\<lambda>(n, d, e). (n, d))) (bk_mps (ms_view (remote s')) ''o'' ''m'') = Some [(1, ''ab''), (2, ''cd'')]" by simp_all
  have st: "s3_reliable ?st ms_view" "\<not> DisableContentHashes ?st" "calm ?s0" "0 < MinPartSize ?st" "MaxMultipartParts ?st = 10"
    using small_usable by (simp_all add: s3_usable_def) (simp_all add: small_store_def s3_New_def)
  have good: "good_chunks ?st three_chunks" by (simp add: good_chunks_def three_chunks_def small_store_def s3_New_def)
  have mps: "bk_mps (ms_view (remote ?s0)) (upload_key ?st (objectId small_upload)) (multipartId small_upload) = Some []"
    by (simp add: small_env_def fresh_s3_def ms_view_def)
  have len: "length three_chunks = 3" "length (chunk_data three_chunks) = 5" by (simp_all add: three_chunks_def)
  have run: "part_run ?st ?info 0 small_upload mixed_steps (start_loop 2 0 three_chunks (int (length ([] :: parts)) + 1) small_upload ?s0) = Some s"
    using s(1) by (simp add: mixed_run_def)
  from concurrent_parts_are_sequential [OF st(1-4) numbered_Nil _ _ mps good _ _ _ run s(2) seq] obtain qs rs inc where
    q: "pl_result s = Some (n, e)" "e = None" "map (\<lambda>(n, d, e). (n, d)) qs = map (\<lambda>(n, d, e). (n, d)) rs"
      "ms_view (remote (pl_env s)) = with_incomplete ?st ''o'' inc (set_mp ''o'' ''m'' (Some qs) (ms_view (remote ?s0)))"
      "ms_view (remote s') = with_incomplete ?st ''o'' inc (set_mp ''o'' ''m'' (Some rs) (ms_view (remote ?s0)))"
    using st(5) len by (auto simp: MaxInt64_def)
  have "bk_mps (ms_view (remote (pl_env s))) ''o'' ''m'' = Some qs" unfolding q(4) by (simp add: with_incomplete_mp)
  moreover have "map (\<lambda>(n, d, e). (n, d)) qs = [(1, ''ab''), (2, ''cd'')]"
    using n(2) q(3) unfolding q(5) by (simp add: with_incomplete_mp)
  ultimately show ?thesis using s(1) q(1,2) n(1) by (intro exI [of _ s] conjI exI [of _ qs]) simp_all
qed

end
