(* ===== verification/S3Holes.thy ===== *)
theory S3Holes
  imports S3Upload
begin

text \<open>
  What becomes of an upload to S3 when the service refuses some of the parts of a chunk. The other
  parts, those after a refused one too, are uploaded all the same.
\<close>

section \<open>A service that refuses parts\<close>

text \<open>A service that behaves like another one, but refuses the parts with some numbers.\<close>

definition refuse_parts :: "(int \<Rightarrow> bool) \<Rightarrow> aws_error \<Rightarrow> 's S3Store \<Rightarrow> 's S3Store" where
  "refuse_parts bad x store =
     store\<lparr>Service := (Service store)\<lparr>svc_UploadPart :=
       (\<lambda>b k i n d s. if bad n then (Inl x, s) else svc_UploadPart (Service store) b k i n d s)\<rparr>\<rparr>"

lemma refuse_parts_sel [simp]:
  "Bucket (refuse_parts bad x store) = Bucket store" "MinPartSize (refuse_parts bad x store) = MinPartSize store"
  "DisableContentHashes (refuse_parts bad x store) = DisableContentHashes store"
  "TemporaryDirectory (refuse_parts bad x store) = TemporaryDirectory store"
  "svc_ListParts (Service (refuse_parts bad x store)) = svc_ListParts (Service store)"
  "svc_GetObject (Service (refuse_parts bad x store)) = svc_GetObject (Service store)"
  "svc_HeadObject (Service (refuse_parts bad x store)) = svc_HeadObject (Service store)"
  "keyWithPrefix (refuse_parts bad x store) = keyWithPrefix store"
  "metadataKeyWithPrefix (refuse_parts bad x store) = metadataKeyWithPrefix store"
  "calcOptimalPartSize (refuse_parts bad x store) = calcOptimalPartSize store"
  by (simp_all add: refuse_parts_def fun_eq_iff keyWithPrefix_def metadataKeyWithPrefix_def calcOptimalPartSize_def part_size_error_def Let_def)

lemma refuse_list_pages [simp]: "list_pages n (refuse_parts bad x store) oid mid m acc s = list_pages n store oid mid m acc s"
  by (induction n arbitrary: m acc s) (auto simp: Let_def split: prod.splits sum.splits)

lemma refuse_fetchInfo [simp]: "fetchInfo (refuse_parts bad x store) u s = fetchInfo store u s"
  unfolding fetchInfo_def listAllParts_def headIncompletePartForUpload_def by simp

lemma refuse_getInternalInfo [simp]: "getInternalInfo (refuse_parts bad x store) u s = getInternalInfo store u s"
  by (cases "up_info u") (simp_all add: getInternalInfo_def)

section \<open>The parts that are left\<close>

fun numbered_from :: "int \<Rightarrow> bytes list \<Rightarrow> (int \<times> bytes) list" where
  "numbered_from n [] = []"
| "numbered_from n (d # ds) = (n, d) # numbered_from (n + 1) ds"

definition kept_parts :: "(int \<Rightarrow> bool) \<Rightarrow> int \<Rightarrow> bytes list \<Rightarrow> (int \<times> bytes) list" where
  "kept_parts bad n ds = filter (\<lambda>p. \<not> bad (fst p)) (numbered_from n ds)"

lemma numbered_from_fst: "p \<in> set (numbered_from n ds) \<Longrightarrow> n \<le> fst p \<and> fst p < n + int (length ds)"
  by (induction n ds rule: numbered_from.induct) auto

lemma numbered_from_nth: "i < length ds \<Longrightarrow> (n + int i, ds ! i) \<in> set (numbered_from n ds)"
proof (induction n ds arbitrary: i rule: numbered_from.induct)
  case (2 n d ds)
  then show ?case by (cases i) (auto simp: algebra_simps)
qed simp

lemma numbered_from_sorted: "sorted_wrt (\<lambda>p q. fst p < fst q) (numbered_from n ds)"
  by (induction n ds rule: numbered_from.induct) (auto dest: numbered_from_fst)

lemma kept_parts_bounds:
  "length (kept_parts bad n ds) \<le> length ds"
  "length (concat (map snd (kept_parts bad n ds))) \<le> length (concat ds)"
  by (induction n ds rule: numbered_from.induct) (auto simp: kept_parts_def)

text \<open>The parts in the bucket without their tags.\<close>

abbreviation untagged :: "parts \<Rightarrow> (int \<times> bytes) list" where
  "untagged ps \<equiv> map (\<lambda>p. (fst p, fst (snd p))) ps"

lemma untagged_data: "part_data ps = concat (map snd (untagged ps))"
  by (simp add: part_data_def comp_def)

lemma ascending_untagged: "sorted_wrt (\<lambda>p q. fst p < fst q) (untagged ps) \<longleftrightarrow> sorted_wrt (\<lambda>p q. fst p < fst q) ps"
  by (simp add: sorted_wrt_map)

lemma ascending_kept:
  assumes "numbered ps" "untagged qs = kept_parts bad (int (length ps) + 1) ds" "int (length ps) + int (length ds) \<le> MaxInt64"
  shows "ascending (ps @ qs)"
proof -
  have "sorted_wrt (\<lambda>p q. fst p < fst q) (untagged qs)"
    unfolding assms(2) kept_parts_def by (rule sorted_wrt_filter [OF numbered_from_sorted])
  then have sorted: "sorted_wrt (\<lambda>p q. fst p < fst q) qs" by (simp only: ascending_untagged)
  have range: "int (length ps) + 1 \<le> fst q \<and> fst q < int (length ps) + 1 + int (length ds)" if "q \<in> set qs" for q
  proof -
    have "(fst q, fst (snd q)) \<in> set (untagged qs)" using that by auto
    then show ?thesis unfolding assms(2) using numbered_from_fst by (fastforce simp: kept_parts_def)
  qed
  have "int (length ps) \<le> MaxInt64" using assms(3) by simp
  from numbered_ascending [OF assms(1) this] numbered_less [OF assms(1)] sorted range assms(3) show ?thesis
    by (fastforce simp: ascending_def sorted_wrt_append)
qed

text \<open>When the parts before a refused one are kept and one after it too, more is stored than those before.\<close>

lemma kept_parts_more:
  assumes "i < j" "j < length ds" "\<not> bad (n + int j)" "\<forall>k < i. \<not> bad (n + int k)" "ds ! j \<noteq> []"
  shows "length (concat (take i ds)) < length (concat (map snd (kept_parts bad n ds)))"
proof -
  have app: "numbered_from m (xs @ ys) = numbered_from m xs @ numbered_from (m + int (length xs)) ys" for m xs ys
    by (induction m xs rule: numbered_from.induct) (simp_all add: algebra_simps)
  have all: "kept_parts bad m xs = numbered_from m xs" if "\<forall>k < length xs. \<not> bad (m + int k)" for m xs
    using that
  proof (induction m xs rule: numbered_from.induct)
    case (2 m d xs)
    have "\<not> bad m" using 2(2) by force
    moreover have "\<not> bad (m + 1 + int k)" if "k < length xs" for k using 2(2) that by (auto dest: spec [of _ "Suc k"] simp: algebra_simps)
    ultimately show ?case using 2(1) by (simp add: kept_parts_def)
  qed (simp add: kept_parts_def)
  have snds: "map snd (numbered_from m xs) = xs" for m xs by (induction m xs rule: numbered_from.induct) simp_all
  have "kept_parts bad n ds = kept_parts bad n (take i ds) @ kept_parts bad (n + int i) (drop i ds)"
    using app [of n "take i ds" "drop i ds"] assms(1,2) by (simp add: kept_parts_def)
  moreover have "kept_parts bad n (take i ds) = numbered_from n (take i ds)" using assms(4) by (intro all) simp
  moreover have "(n + int j, ds ! j) \<in> set (kept_parts bad (n + int i) (drop i ds))"
    using numbered_from_nth [of "j - i" "drop i ds" "n + int i"] assms(1-3) by (simp add: kept_parts_def)
  then have "concat (map snd (kept_parts bad (n + int i) (drop i ds))) \<noteq> []" using assms(5) by force
  ultimately show ?thesis by (simp add: snds)
qed

lemma upload_part_refused:
  assumes rel: "s3_reliable store view" and hashes: "\<not> DisableContentHashes store"
    and ps: "bk_mps (view (remote s)) (upload_key store (objectId u)) (multipartId u) = Some ps" "\<forall>p \<in> set ps. fst p < num"
    and num: "1 \<le> num" "num \<le> MaxMultipartParts store" and calm: "calm s"
    and run: "upload_part (refuse_parts bad x store) u num c s = (e, u', s')"
  shows "\<exists>qs. e = (if bad num then Some (aws_err x) else None) \<and> objectId u' = objectId u \<and> multipartId u' = multipartId u \<and>
    untagged qs = (if bad num then [] else [(num, fc_reader c)]) \<and> setting s' = setting s \<and>
    view (remote s') = set_mp (upload_key store (objectId u)) (multipartId u) (Some (ps @ qs)) (view (remote s))"
proof -
  let ?f = "svc_UploadPart (Service (refuse_parts bad x store)) (Bucket store) (upload_key store (objectId u))
      (multipartId u) num (fc_reader c)"
  obtain r s1 where call: "call ?f s = (r, s1)" by (metis surj_pair)
  from call obtain y where y: "?f (remote s) = (r, y)" "remote s1 = y" "setting s1 = setting s" by (rule callE)
  obtain ce s2 where cl: "on_machine (closeReader c) s1 = (ce, s2)" by force
  have "calm s1" using calm setting_calm y(3) by metis
  note cl' = on_machine_close [OF cl] and calm1 = this
  show ?thesis
  proof (cases "bad num")
    case True
    then have "r = Inl x" "y = remote s" using y(1) by (simp_all add: refuse_parts_def)
    with True run call cl hashes cl' y(2,3) ps(1) show ?thesis
      by (auto simp: upload_part_def putPartForUpload_def set_mp_same)
  next
    case False
    with y(1) have up: "svc_UploadPart (Service store) (Bucket store) (upload_key store (objectId u)) (multipartId u) num
        (fc_reader c) (remote s) = (r, y)" by (simp add: refuse_parts_def)
    from reliableD(5) [OF rel, unfolded part_ok_def, rule_format, OF up ps(1) num] obtain etag where
      etag: "r = Inr etag" "view y = set_mp (upload_key store (objectId u)) (multipartId u)
        (Some (put_part num (fc_reader c) etag ps)) (view (remote s))" by auto
    have "put_part num (fc_reader c) etag ps = ps @ [(num, fc_reader c, etag)]" by (rule put_part_append [OF ps(2)])
    with False run call cl hashes cl' calm1 y(2,3) etag show ?thesis
      by (intro exI [of _ "[(num, fc_reader c, etag)]"]) (auto simp: upload_part_def putPartForUpload_def)
  qed
qed

lemma upload_chunks_refused:
  assumes rel: "s3_reliable store view" and hashes: "\<not> DisableContentHashes store" and max: "MaxMultipartParts store < 2147483647"
  shows "upload_chunks (refuse_parts bad x store) info off n0 num cs u s = ((n, e), u', s') \<Longrightarrow>
    bk_mps (view (remote s)) (upload_key store (objectId u)) (multipartId u) = Some ps \<Longrightarrow> \<forall>p \<in> set ps. fst p < num \<Longrightarrow>
    1 \<le> num \<Longrightarrow> num + int (length cs) \<le> MaxMultipartParts store + 1 \<Longrightarrow> \<forall>c \<in> set cs. MinPartSize store \<le> fc_size c \<Longrightarrow> calm s \<Longrightarrow>
    \<exists>qs. e = (if \<exists>p \<in> set (numbered_from num (map fc_reader cs)). bad (fst p) then Some (aws_err x) else None) \<and>
      setting s' = setting s \<and> untagged qs = kept_parts bad num (map fc_reader cs) \<and>
      view (remote s') = set_mp (upload_key store (objectId u)) (multipartId u) (Some (ps @ qs)) (view (remote s))"
proof (induction cs arbitrary: n0 num u s ps n e u' s')
  case Nil
  then show ?case by (intro exI [of _ "[]"]) (simp add: kept_parts_def set_mp_same)
next
  case (Cons c cs)
  obtain e1 u1 s1 where one: "upload_part (refuse_parts bad x store) u num c s = (e1, u1, s1)" by (metis surj_pair)
  obtain n2 e2 u2 s2 where rest: "upload_chunks (refuse_parts bad x store) info off (add64 n0 (fc_size c)) (wrap32 (num + 1)) cs u1 s1 =
      ((n2, e2), u2, s2)" by (metis surj_pair)
  have run: "e = (case e1 of Some x \<Rightarrow> Some x | None \<Rightarrow> e2)" "s' = s2"
    using Cons.prems(1,6) one rest by (simp_all add: Let_def)
  have "num \<le> MaxMultipartParts store" using Cons.prems(5) by simp
  from upload_part_refused [OF rel hashes Cons.prems(2,3,4) this Cons.prems(7) one] obtain qs1 where
    q1: "e1 = (if bad num then Some (aws_err x) else None)" "objectId u1 = objectId u" "multipartId u1 = multipartId u"
      "untagged qs1 = (if bad num then [] else [(num, fc_reader c)])" "setting s1 = setting s"
      "view (remote s1) = set_mp (upload_key store (objectId u)) (multipartId u) (Some (ps @ qs1)) (view (remote s))" by auto
  have num: "wrap32 (num + 1) = num + 1" using Cons.prems(4,5) max by (simp add: wrap32_def)
  have "fst ` set qs1 \<subseteq> {num}" using arg_cong [OF q1(4), of "\<lambda>xs. fst ` set xs"] by (auto simp: image_image split: if_splits)
  then have below: "\<forall>p \<in> set (ps @ qs1). fst p < num + 1" using Cons.prems(3) by auto
  have mps: "bk_mps (view (remote s1)) (upload_key store (objectId u1)) (multipartId u1) = Some (ps @ qs1)" by (simp add: q1)
  from Cons.IH [OF rest [unfolded num] mps below] Cons.prems(4,5,6,7) setting_calm [OF q1(5)] obtain qs2 where
    q2: "e2 = (if \<exists>p \<in> set (numbered_from (num + 1) (map fc_reader cs)). bad (fst p) then Some (aws_err x) else None)"
      "setting s2 = setting s1" "untagged qs2 = kept_parts bad (num + 1) (map fc_reader cs)"
      "view (remote s2) = set_mp (upload_key store (objectId u1)) (multipartId u1) (Some ((ps @ qs1) @ qs2)) (view (remote s1))"
    by auto
  with run q1 show ?case
    by (intro exI [of _ "qs1 @ qs2"]) (auto simp: kept_parts_def)
qed

lemma refused_WriteChunk:
  assumes use: "s3_usable store view s" and handle: "s3_handle store (view (remote s)) u info ps []"
    and sz: "calcOptimalPartSize store (Size info) = Inr p" "MinPartSize store \<le> p"
    and full: "\<forall>d \<in> set (slices (nat p) (reader_data b)). MinPartSize store \<le> int (length d)"
    and count: "int (length ps) + int (length (slices (nat p) (reader_data b))) \<le> MaxMultipartParts store"
    and b: "fresh_reader b" and fits: "int (length (part_data ps @ reader_data b)) \<le> MaxInt64"
    and bad: "p0 \<in> set (numbered_from (int (length ps) + 1) (slices (nat p) (reader_data b)))" "bad (fst p0)"
    and run: "s3_WriteChunk (refuse_parts bad x store) u (int (length (part_data ps))) b s = ((n, e), b', u', s')"
  shows "\<exists>qs. n = 0 \<and> e = Some (aws_err x) \<and> setting s' = setting s \<and>
    untagged qs = kept_parts bad (int (length ps) + 1) (slices (nat p) (reader_data b)) \<and>
    view (remote s') = set_mp (upload_key store (objectId u)) (multipartId u) (Some (ps @ qs)) (view (remote s))"
proof -
  note us = use [unfolded s3_usable_def]
  then have rel: "s3_reliable store view" and min: "0 < MinPartSize store" using wf_storeD(1) by auto
  have h: "s3_holds store (view (remote s)) (objectId u) (multipartId u) info ps []" using handle by (simp add: s3_handle_def)
  have bounds: "int (length (s3_content ps [])) \<le> MaxInt64" "int (length ps) \<le> MaxInt64" "length ps < maxPages s"
    using fits count us by (auto simp: s3_content_def int64_defs)
  obtain r1 u1 s1 where fetch: "getInternalInfo store u s = (r1, u1, s1)" by (metis surj_pair)
  from getInternalInfo_ok [OF rel handle bounds fetch] obtain i where
    i: "Size i = Size info" and f: "r1 = Inr (i, part_list ps, 0)" "view (remote s1) = view (remote s)" "setting s1 = setting s"
    and u1: "u1 = u\<lparr>up_info := Some i, up_parts := part_list ps, incompletePartSize := 0\<rparr>" by auto
  have calm1: "calm s1" using us setting_calm [OF f(3)] by simp
  let ?store = "refuse_parts bad x store" and ?ds = "slices (nat p) (reader_data b)"
  obtain cs e1 src1 m where prod: "produce (producesInMemory store s1) p (ctxDone s1) \<lparr>ps_pending = [], ps_body = b\<rparr> (machine s1) =
      ((cs, e1), src1, m)" by (metis surj_pair)
  have pos: "0 < p" using min sz(2) by simp
  note pc = produced_chunks [OF prod b calm1 pos]
  then have cs: "map fc_reader cs = ?ds" "length cs = length ?ds" by (simp_all, metis append_Nil length_map)
  let ?s = "s1\<lparr>machine := m\<rparr>"
  have set: "setting ?s = setting s1" "remote ?s = remote s1" using pc(2) by (simp_all add: setting_def)
  obtain n2 e2 u2 s2 where up: "upload_chunks ?store i (int (length (part_data ps))) 0 (int (length ps) + 1) cs u1 ?s = ((n2, e2), u2, s2)"
    by (metis surj_pair)
  have "\<forall>c \<in> set cs. MinPartSize store \<le> fc_size c" using full pc(4) unfolding cs(1) [symmetric] by auto
  moreover have "\<forall>q \<in> set ps. fst q < int (length ps) + 1" using h numbered_less by (auto simp: s3_holds_def)
  moreover have "bk_mps (view (remote ?s)) (upload_key store (objectId u1)) (multipartId u1) = Some ps"
    using h f(2) u1 set(2) by (simp add: s3_holds_def)
  ultimately obtain qs where e2: "e2 = (if \<exists>q \<in> set (numbered_from (int (length ps) + 1) ?ds). bad (fst q) then Some (aws_err x) else None)"
    and q: "setting s2 = setting ?s" "untagged qs = kept_parts bad (int (length ps) + 1) ?ds"
    "view (remote s2) = set_mp (upload_key store (objectId u)) (multipartId u) (Some (ps @ qs)) (view (remote s))"
    using upload_chunks_refused [OF rel _ _ up, of ps] us count calm1 setting_calm [OF set(1)] cs f(2) set(2) u1 by auto
  have e2: "e2 = Some (aws_err x)" using bad unfolding e2 by (simp only: if_P [OF bexI])
  have "wrap32 (int (length (part_list ps)) + 1) = int (length ps) + 1" using count us by (simp add: wrap32_def)
  then have "uploadParts ?store u1 (int (length (part_data ps))) \<lparr>ps_pending = [], ps_body = b\<rparr> s1 = ((0, Some (aws_err x)), src1, u2, s2)"
    using prod up e2 sz(1) i u1 by (simp add: uploadParts_def getInternalInfo_def producesInMemory_def)
  then have "n = 0" "e = Some (aws_err x)" "s' = s2"
    using run fetch f(1) u1 by (simp_all add: s3_WriteChunk_def take_incomplete_def Let_def sub64_def wrap64_def)
  with q f(3) set(1) show ?thesis by (intro exI [of _ qs]) simp
qed

text \<open>
  Property C26. When the service refuses a part of a chunk and takes a later one, the write fails, and no byte of it
  is acknowledged, but the parts that were taken stay: the upload is left with a hole. The offset
  that is reported afterwards counts all of them, also those behind the hole, so that it exceeds what is
  stored in front of the hole, and a client that resumes there never sends the part that is missing.
  The upload has no incomplete part, and the chunk is cut into \<open>ds\<close>, all of which are large
  enough to be parts.
\<close>

theorem s3_failed_part_leaves_a_hole:
  assumes "s3_usable store view s" "s3_handle store (view (remote s)) u info ps []" "up_info u = None"
    "calcOptimalPartSize store (Size info) = Inr p" "MinPartSize store \<le> p"
    "ds = slices (nat p) (reader_data b)" "\<forall>d \<in> set ds. MinPartSize store \<le> int (length d)"
    "int (length ps) + int (length ds) \<le> MaxMultipartParts store" "fresh_reader b"
    "int (length (part_data ps @ reader_data b)) \<le> MaxInt64"
    and hole: "i < j" "j < length ds" "bad (int (length ps) + 1 + int i)" "\<not> bad (int (length ps) + 1 + int j)"
      "\<forall>k < i. \<not> bad (int (length ps) + 1 + int k)"
    and run: "s3_WriteChunk (refuse_parts bad x store) u (int (length (part_data ps))) b s = ((n, e), b', u', s')"
      "s3_GetInfo store u s' = (r, u2, s2)"
  shows "n = 0 \<and> e = Some (aws_err x) \<and>
    (\<exists>info' qs. r = Inr info' \<and> bk_mps (view (remote s2)) (upload_key store (objectId u)) (multipartId u) = Some (ps @ qs) \<and>
       untagged qs = kept_parts bad (int (length ps) + 1) ds \<and>
       Offset info' = int (length (part_data (ps @ qs))) \<and>
       int (length (part_data ps @ concat (take i ds))) < Offset info' \<and>
       int (length ps) + 1 + int i \<notin> fst ` set qs)"
proof -
  let ?n = "int (length ps) + 1"
  note us = assms(1) [unfolded s3_usable_def]
  then have rel: "s3_reliable store view" and min: "0 < MinPartSize store" using wf_storeD(1) by auto
  have h: "s3_holds store (view (remote s)) (objectId u) (multipartId u) info ps []" using assms(2) by (simp add: s3_handle_def)
  have "(?n + int i, ds ! i) \<in> set (numbered_from ?n ds)" using hole(1,2) by (intro numbered_from_nth) simp
  from refused_WriteChunk [where bad = bad, OF assms(1,2,4,5) assms(7,8) [unfolded assms(6)] assms(9,10) this [unfolded assms(6)] _ run(1)]
    hole(3) assms(6) obtain qs where
    q: "n = 0" "e = Some (aws_err x)" "setting s' = setting s" "untagged qs = kept_parts bad ?n ds"
      "view (remote s') = set_mp (upload_key store (objectId u)) (multipartId u) (Some (ps @ qs)) (view (remote s))" by auto
  have len: "length qs \<le> length ds" "length (part_data qs) \<le> length (concat ds)"
    using kept_parts_bounds [of bad ?n ds] q(4) by (metis length_map, metis untagged_data)
  have data: "concat ds = reader_data b" using concat_slices [of "nat p" "reader_data b"] min assms(5,6) by simp
  have asc: "ascending (ps @ qs)"
    using ascending_kept [OF _ q(4)] h assms(8) us by (auto simp: s3_holds_def int64_defs)
  have room: "length (ps @ qs) < maxPages s'" "int (length (part_data (ps @ qs))) \<le> MaxInt64"
    using len data assms(8,10) us q(3) by (auto simp: setting_def)
  have "MinPartSize store \<le> int (length (ds ! j))" using assms(7) hole(2) by simp
  then have "ds ! j \<noteq> []" using min by auto
  then have more: "length (concat (take i ds)) < length (part_data qs)"
    using kept_parts_more [OF hole(1,2,4,5)] by (simp add: q(4) untagged_data)
  obtain r1 u1 s1 where fetch: "fetchInfo store u s' = (r1, s1)" by (metis surj_pair)
  from fetchInfo_parts [OF rel asc _ _ _ _ room(1) fetch, of info "[]"] h q(5) room(2)
  have "r1 = Inr (info\<lparr>Offset := int (length (part_data (ps @ qs)))\<rparr>, part_list (ps @ qs), 0)" "view (remote s1) = view (remote s')"
    by (simp_all add: s3_holds_def s3_content_def)
  then have "r = Inr (info\<lparr>Offset := int (length (part_data (ps @ qs)))\<rparr>)" "view (remote s2) = view (remote s')"
    using run(2) fetch assms(3) by (auto simp: s3_GetInfo_def getInternalInfo_def)
  moreover have "?n + int i \<notin> fst ` set qs"
  proof
    assume "?n + int i \<in> fst ` set qs"
    then have "?n + int i \<in> fst ` set (untagged qs)" by (simp add: image_image)
    then show False using hole(3) unfolding q(4) by (auto simp: kept_parts_def)
  qed
  ultimately show ?thesis using q more by auto
qed

text \<open>
  The chunk \<open>abcdef\<close> in three parts, of which the service refuses the second one: four bytes are reported
  afterwards, and the third and fourth byte are missing.
\<close>

theorem s3_failed_part_leaves_a_hole_witness:
  "\<exists>b' u' s' u2 s2 info' qs.
     s3_WriteChunk (refuse_parts (\<lambda>n. n = 2) (aws_failure ''Unavailable'') (small_store (\<lambda>_. False))) small_upload 0 (small_body ''abcdef'')
       (small_env fresh_s3) = ((0, Some (PlainError ''Unavailable'')), b', u', s') \<and>
     s3_GetInfo (small_store (\<lambda>_. False)) small_upload s' = (Inr info', u2, s2) \<and> Offset info' = 4 \<and>
     bk_mps (ms_view (remote s2)) ''o'' ''m'' = Some qs \<and> untagged qs = [(1, ''ab''), (3, ''ef'')]"
proof -
  let ?st = "small_store (\<lambda>_. False)" and ?ds = "[''ab'', ''cd'', ''ef'']" and ?info = "small_info\<lparr>Size := 8\<rparr>"
  obtain n e b' u' s' r u2 s2 where run:
    "s3_WriteChunk (refuse_parts (\<lambda>n. n = 2) (aws_failure ''Unavailable'') ?st) small_upload (int (length (part_data []))) (small_body ''abcdef'')
       (small_env fresh_s3) = ((n, e), b', u', s')" "s3_GetInfo ?st small_upload s' = (r, u2, s2)" by (metis surj_pair)
  have handle: "s3_handle ?st (ms_view (remote (small_env fresh_s3))) small_upload ?info [] []"
    by (simp add: s3_handle_def s3_holds_def small_env_def fresh_s3_def ms_view_def numbered_def)
  have sizes: "calcOptimalPartSize ?st (Size ?info) = Inr 2" "MinPartSize ?st = 2" "MaxMultipartParts ?st = 10"
    by (simp_all add: calcOptimalPartSize_def mul64_def wrap64_def small_store_def s3_New_def small_info_def emptyFileInfo_def)
  have ds: "?ds = slices (nat 2) (reader_data (small_body ''abcdef''))" by (simp add: small_body_facts slices.simps)
  have "n = 0 \<and> e = Some (aws_err (aws_failure ''Unavailable'')) \<and>
    (\<exists>info' qs. r = Inr info' \<and> bk_mps (ms_view (remote s2)) ''o'' ''m'' = Some qs \<and>
       untagged qs = kept_parts (\<lambda>n. n = 2) 1 ?ds \<and> Offset info' = int (length (part_data qs)))"
    using s3_failed_part_leaves_a_hole [OF small_usable handle small_upload_fields(3) sizes(1) _ ds _ _ small_body_facts(1) _ _ _ _ _ _ run,
        of 1 2] sizes
    by (auto simp: small_body_facts MaxInt64_def)
  then obtain info' qs where q: "n = 0" "e = Some (PlainError ''Unavailable'')" "r = Inr info'"
    "bk_mps (ms_view (remote s2)) ''o'' ''m'' = Some qs" "untagged qs = [(1, ''ab''), (3, ''ef'')]" "Offset info' = int (length (part_data qs))"
    by (auto simp: kept_parts_def aws_failure_def)
  have "Offset info' = 4" by (simp add: q(6) untagged_data q(5))
  with run q show ?thesis by auto
qed

end
