(* ===== verification/GCSSizes.thy ===== *)
theory GCSSizes
  imports GCSCloud
begin

text \<open>
  The goroutines of \<^verbatim>\<open>GetInfo\<close> of \<^verbatim>\<open>pkg/gcsstore/gcsstore.go\<close> that ask for the sizes of the objects. In
  \<open>GCSStore\<close> the requests are made one after the other, and a flag says whether the last error has been
  stored in time. Here every goroutine takes its own steps: those that ask, at most 32 at a time, the one that
  collects the errors from an unbuffered channel, and the one that waits for the first ones only.
\<close>

section \<open>Steps\<close>

text \<open>A goroutine asks for a size, waits until its error is received, has only its deferred calls left, or is over.\<close>

datatype size_routine = Asking string | Sending gcs_error | Leaving | Gone

record 's sizing =
  sz_todo :: "string list"
  sz_routines :: "size_routine list"
  sz_offset :: int
  sz_received :: "gcs_error option"
  sz_firstError :: "gcs_error option"
  sz_canceled :: bool
  sz_closed :: bool
  sz_result :: "(err + int) option"
  sz_env :: "'s gcsenv"

definition CONCURRENT_SIZE_REQUESTS :: nat where
  "CONCURRENT_SIZE_REQUESTS = 32"

definition start_sizes :: "string list \<Rightarrow> 's gcsenv \<Rightarrow> 's sizing" where
  "start_sizes names s =
     \<lparr>sz_todo = names, sz_routines = [], sz_offset = 0, sz_received = None, sz_firstError = None,
      sz_canceled = False, sz_closed = False, sz_result = None, sz_env = s\<rparr>"

datatype size_label = StartRequest | Answer nat | CancelAnswer nat | HandOver nat | StoreError | Leave nat | CloseErrors | ReadOffset

text \<open>The error of a context that has been cancelled.\<close>

definition context_canceled :: gcs_error where
  "context_canceled = \<lparr>ge_notExist = False, ge_canceled = True, ge_code = None, ge_err = PlainError ''context canceled''\<rparr>"

definition set_routine :: "nat \<Rightarrow> size_routine \<Rightarrow> 's sizing \<Rightarrow> 's sizing" where
  "set_routine i r q = q\<lparr>sz_routines := (sz_routines q)[i := r]\<rparr>"

definition routine_at :: "'s sizing \<Rightarrow> nat \<Rightarrow> size_routine" where
  "routine_at q i = (if i < length (sz_routines q) then sz_routines q ! i else Gone)"

text \<open>The semaphore has a slot for each goroutine that is not over.\<close>

definition slots_used :: "'s sizing \<Rightarrow> nat" where
  "slots_used q = length (filter (\<lambda>r. r \<noteq> Gone) (sz_routines q))"

text \<open>The answer of the service to a goroutine.\<close>

definition answer_size :: "nat \<Rightarrow> gcs_error + int \<Rightarrow> 's sizing \<Rightarrow> 's sizing" where
  "answer_size i r q =
     (case r of
        Inl e \<Rightarrow> set_routine i (Sending e) q
      | Inr n \<Rightarrow> set_routine i Leaving (q\<lparr>sz_offset := add64 (sz_offset q) n\<rparr>))"

text \<open>The goroutine that collects the errors has received one: the first one is kept, and cancels the other requests.\<close>

definition collect_error :: "gcs_error \<Rightarrow> 's sizing \<Rightarrow> 's sizing" where
  "collect_error e q =
     (if \<not> ge_canceled e \<and> sz_firstError q = None
      then q\<lparr>sz_received := None, sz_firstError := Some e, sz_canceled := True\<rparr>
      else q\<lparr>sz_received := None\<rparr>)"

definition size_act :: "'s GCSStore \<Rightarrow> size_label \<Rightarrow> 's sizing \<Rightarrow> 's sizing option" where
  "size_act store l q =
     (case l of
        StartRequest \<Rightarrow>
          (case sz_todo q of
             [] \<Rightarrow> None
           | name # names \<Rightarrow>
               if slots_used q < CONCURRENT_SIZE_REQUESTS
               then Some (q\<lparr>sz_todo := names, sz_routines := sz_routines q @ [Asking name]\<rparr>) else None)
      | Answer i \<Rightarrow>
          (case routine_at q i of
             Asking name \<Rightarrow>
               (case gcall (GetObjectSize (gcs_Service store) (gcs_Bucket store) name) (sz_env q) of
                  (r, s) \<Rightarrow> Some (answer_size i r (q\<lparr>sz_env := s\<rparr>)))
           | _ \<Rightarrow> None)
      | CancelAnswer i \<Rightarrow>
          (case routine_at q i of
             Asking name \<Rightarrow> if sz_canceled q then Some (set_routine i (Sending context_canceled) q) else None
           | _ \<Rightarrow> None)
      | HandOver i \<Rightarrow>
          (case routine_at q i of
             Sending e \<Rightarrow> if sz_received q = None then Some (set_routine i Leaving (q\<lparr>sz_received := Some e\<rparr>)) else None
           | _ \<Rightarrow> None)
      | StoreError \<Rightarrow> map_option (\<lambda>e. collect_error e q) (sz_received q)
      | Leave i \<Rightarrow> if routine_at q i = Leaving then Some (set_routine i Gone q) else None
      | CloseErrors \<Rightarrow>
          if sz_todo q = [] \<and> slots_used q = 0 \<and> \<not> sz_closed q then Some (q\<lparr>sz_closed := True\<rparr>) else None
      | ReadOffset \<Rightarrow>
          if sz_closed q \<and> sz_result q = None
          then Some (q\<lparr>sz_result := Some (case sz_firstError q of Some e \<Rightarrow> Inl (ge_err e) | None \<Rightarrow> Inr (sz_offset q))\<rparr>)
          else None)"

fun size_run :: "'s GCSStore \<Rightarrow> size_label list \<Rightarrow> 's sizing \<Rightarrow> 's sizing option" where
  "size_run store [] q = Some q"
| "size_run store (l # ls) q = (case size_act store l q of None \<Rightarrow> None | Some q1 \<Rightarrow> size_run store ls q1)"

lemma size_run_append:
  "size_run store (xs @ ys) q = (case size_run store xs q of None \<Rightarrow> None | Some q1 \<Rightarrow> size_run store ys q1)"
  by (induction xs arbitrary: q) (auto split: option.splits)

section \<open>One after the other\<close>

text \<open>
  The requests in the order of the objects are one of the interleavings, for any service, whether the last
  error is stored in time or late. Between two requests all goroutines are over; with \<open>late\<close> the
  last error has been received and is not stored.
\<close>

definition real_error :: "gcs_error list \<Rightarrow> gcs_error option" where
  "real_error errs = find (\<lambda>e. \<not> ge_canceled e) errs"

lemma real_error_snoc:
  "real_error (errs @ [e]) = (case real_error errs of None \<Rightarrow> if ge_canceled e then None else Some e | Some x \<Rightarrow> Some x)"
  by (induction errs) (auto simp: real_error_def)

definition between :: "bool \<Rightarrow> gcs_error list \<Rightarrow> 's sizing \<Rightarrow> bool" where
  "between late errs q \<longleftrightarrow>
     (\<forall>r \<in> set (sz_routines q). r = Gone) \<and> \<not> sz_closed q \<and> sz_result q = None \<and>
     (if late \<and> errs \<noteq> [] then sz_received q = Some (last errs) \<and> sz_firstError q = real_error (butlast errs)
      else sz_received q = None \<and> sz_firstError q = real_error errs)"

lemma between_slots: "between late errs q \<Longrightarrow> slots_used q = 0"
  by (simp add: between_def slots_used_def)

lemma store_received:
  assumes "between late errs q" "errs \<noteq> []" "late"
  shows "\<exists>q'. size_run store [StoreError] q = Some q' \<and> between False errs q' \<and> sz_todo q' = sz_todo q \<and>
    sz_offset q' = sz_offset q \<and> sz_env q' = sz_env q"
  using assms real_error_snoc [of "butlast errs" "last errs"]
  by (auto simp: between_def size_act_def collect_error_def split: option.splits if_splits)

text \<open>The goroutine that has just been started.\<close>

lemma routine_at_new [simp]: "sz_routines q = rs @ [r] \<Longrightarrow> routine_at q (length rs) = r"
  by (simp add: routine_at_def)

lemma size_answered:
  assumes "sz_todo q = name # names" "slots_used q = 0" "gcall (GetObjectSize (gcs_Service store) (gcs_Bucket store) name) (sz_env q) = (Inr n, s)"
  shows "size_run store [StartRequest, Answer (length (sz_routines q)), Leave (length (sz_routines q))] q =
    Some (q\<lparr>sz_todo := names, sz_routines := sz_routines q @ [Gone], sz_offset := add64 (sz_offset q) n, sz_env := s\<rparr>)"
  using assms by (simp add: size_act_def answer_size_def set_routine_def CONCURRENT_SIZE_REQUESTS_def routine_at_def)

lemma size_refused:
  assumes "sz_todo q = name # names" "slots_used q = 0" "gcall (GetObjectSize (gcs_Service store) (gcs_Bucket store) name) (sz_env q) = (Inl e, s)"
    "sz_received q = None"
  shows "size_run store [StartRequest, Answer (length (sz_routines q)), HandOver (length (sz_routines q)), Leave (length (sz_routines q))] q =
    Some (q\<lparr>sz_todo := names, sz_routines := sz_routines q @ [Gone], sz_received := Some e, sz_env := s\<rparr>)"
  using assms by (simp add: size_act_def answer_size_def set_routine_def CONCURRENT_SIZE_REQUESTS_def routine_at_def)

lemma size_request_run:
  assumes "between late errs q" "sz_todo q = name # names"
    and "gcall (GetObjectSize (gcs_Service store) (gcs_Bucket store) name) (sz_env q) = (r, s)"
  shows "\<exists>ls q'. size_run store ls q = Some q' \<and> sz_todo q' = names \<and> sz_env q' = s \<and>
    (case r of Inl e \<Rightarrow> between late (errs @ [e]) q' \<and> sz_offset q' = sz_offset q
      | Inr n \<Rightarrow> between late errs q' \<and> sz_offset q' = add64 (sz_offset q) n)"
proof (cases r)
  case (Inr n)
  from size_answered [OF assms(2) between_slots [OF assms(1)] assms(3) [unfolded Inr]] assms(1) Inr show ?thesis
    by (intro exI conjI) (assumption, auto simp: between_def)
next
  case (Inl e)
  obtain ls0 q0 where q0: "size_run store ls0 q = Some q0" "between False errs q0" "sz_todo q0 = sz_todo q" "sz_offset q0 = sz_offset q" "sz_env q0 = sz_env q"
  proof (cases "late \<and> errs \<noteq> []")
    case True
    with store_received [OF assms(1)] that show ?thesis by blast
  next
    case False
    with assms(1) that [of "[]" q] show ?thesis by (auto simp: between_def)
  qed
  let ?q1 = "q0\<lparr>sz_todo := names, sz_routines := sz_routines q0 @ [Gone], sz_received := Some e, sz_env := s\<rparr>"
  have "sz_received q0 = None" using q0(2) by (simp add: between_def)
  note refused = size_refused [OF assms(2) [folded q0(3)] between_slots [OF q0(2)] assms(3) [folded q0(5), unfolded Inl] this]
  obtain ls1 where ls1: "size_run store ls1 q = Some ?q1"
    using refused q0(1) that [of "ls0 @ ls" for ls] by (simp only: size_run_append option.case)
  have last: "between True (errs @ [e]) ?q1" using q0(2) by (auto simp: between_def)
  show ?thesis
  proof (cases late)
    case True
    with ls1 last q0(4) Inl show ?thesis by (intro exI [of _ ls1] exI [of _ ?q1]) simp
  next
    case False
    from store_received [OF last] obtain q2 where "size_run store [StoreError] ?q1 = Some q2" "between False (errs @ [e]) q2"
      "sz_todo q2 = names" "sz_offset q2 = sz_offset q0" "sz_env q2 = s" by auto
    with ls1 q0(4) Inl False show ?thesis
      by (intro exI [of _ "ls1 @ [StoreError]"] exI [of _ q2]) (auto simp: size_run_append simp del: size_run.simps)
  qed
qed

lemma sizes_run:
  "sum_sizes store names n errs (sz_env q) = ((m, errs'), s) \<Longrightarrow> sz_todo q = names \<Longrightarrow> sz_offset q = n \<Longrightarrow> between late errs q \<Longrightarrow>
     \<exists>ls q'. size_run store ls q = Some q' \<and> sz_todo q' = [] \<and> sz_offset q' = m \<and> between late errs' q' \<and> sz_env q' = s"
proof (induction names arbitrary: n errs q)
  case Nil
  then show ?case by (intro exI [of _ "[]"]) simp
next
  case (Cons name names)
  obtain r s1 where call: "gcall (GetObjectSize (gcs_Service store) (gcs_Bucket store) name) (sz_env q) = (r, s1)" by (metis surj_pair)
  from size_request_run [OF Cons.prems(4,2) call] obtain ls q1 where
    one: "size_run store ls q = Some q1" "sz_todo q1 = names" "sz_env q1 = s1"
      "case r of Inl e \<Rightarrow> between late (errs @ [e]) q1 \<and> sz_offset q1 = sz_offset q
        | Inr k \<Rightarrow> between late errs q1 \<and> sz_offset q1 = add64 (sz_offset q) k" by blast
  have "\<exists>ls' q'. size_run store ls' q1 = Some q' \<and> sz_todo q' = [] \<and> sz_offset q' = m \<and> between late errs' q' \<and> sz_env q' = s"
  proof (cases r)
    case (Inl e)
    with Cons.prems(1,3) call one show ?thesis by (intro Cons.IH [of n "errs @ [e]"]) auto
  next
    case (Inr k)
    with Cons.prems(1,3) call one show ?thesis by (intro Cons.IH [of "add64 n k" errs]) auto
  qed
  then obtain ls' q' where "size_run store ls' q1 = Some q'" "sz_todo q' = []" "sz_offset q' = m" "between late errs' q'" "sz_env q' = s" by blast
  with one(1) show ?case by (intro exI [of _ "ls @ ls'"] exI [of _ q']) (simp add: size_run_append)
qed

lemma sum_sizes_is_a_run:
  assumes "sum_sizes store names 0 [] s = ((n, errs), s')"
  shows "\<exists>ls q. size_run store ls (start_sizes names s) = Some q \<and> sz_env q = s' \<and>
    sz_result q = Some (case first_error late errs of Some e \<Rightarrow> Inl e | None \<Rightarrow> Inr n)"
proof -
  have "between late [] (start_sizes names s)" by (simp add: between_def start_sizes_def real_error_def)
  with sizes_run [where q = "start_sizes names s" and late = late, of store names 0 "[]" n errs s'] assms obtain ls q where
    q: "size_run store ls (start_sizes names s) = Some q" "sz_todo q = []" "sz_offset q = n" "between late errs q" "sz_env q = s'"
    by (auto simp: start_sizes_def)
  let ?r = "case sz_firstError q of Some e \<Rightarrow> Inl (ge_err e) | None \<Rightarrow> Inr (sz_offset q)"
  have "size_run store [CloseErrors, ReadOffset] q = Some (q\<lparr>sz_closed := True, sz_result := Some ?r\<rparr>)"
    using q(2,4) between_slots [OF q(4)] by (cases "sz_firstError q") (simp_all add: size_act_def between_def)
  moreover have "?r = (case first_error late errs of Some e \<Rightarrow> Inl e | None \<Rightarrow> Inr n)"
    using q(3,4) by (auto simp: between_def first_error_def real_error_def split: option.splits if_splits)
  ultimately show ?thesis using q(1,5)
    by (intro exI [of _ "ls @ [CloseErrors, ReadOffset]"] exI [of _ "q\<lparr>sz_closed := True, sz_result := Some ?r\<rparr>"])
      (simp add: size_run_append)
qed

section \<open>In any order\<close>

fun answer_errors :: "(gcs_error + int) list \<Rightarrow> gcs_error list" where
  "answer_errors [] = []"
| "answer_errors (Inl e # rs) = e # answer_errors rs"
| "answer_errors (Inr n # rs) = answer_errors rs"

fun answer_total :: "(gcs_error + int) list \<Rightarrow> int" where
  "answer_total [] = 0"
| "answer_total (Inl e # rs) = answer_total rs"
| "answer_total (Inr n # rs) = n + answer_total rs"

lemma answer_Cons:
  "answer_errors (r # rs) = answer_errors [r] @ answer_errors rs" "answer_total (r # rs) = answer_total [r] + answer_total rs"
  by (cases r; simp)+

lemma answer_errors_set: "e \<in> set (answer_errors rs) \<longleftrightarrow> Inl e \<in> set rs"
  by (induction rs rule: answer_errors.induct) auto

text \<open>A service whose answers to the requests for sizes depend only on the objects, as long as \<open>P\<close> holds.\<close>

definition steady_sizes :: "'s GCSStore \<Rightarrow> ('s \<Rightarrow> bool) \<Rightarrow> (string \<Rightarrow> gcs_error + int) \<Rightarrow> string list \<Rightarrow> bool" where
  "steady_sizes store P ans names \<longleftrightarrow>
     (\<forall>name \<in> set names. \<forall>x r x'. P x \<longrightarrow> GetObjectSize (gcs_Service store) (gcs_Bucket store) name x = (r, x') \<longrightarrow> r = ans name \<and> P x') \<and>
     (\<forall>e \<in> set (answer_errors (map ans names)). \<not> ge_canceled e)"

lemma steady_call:
  assumes "steady_sizes store P ans names" "name \<in> set names" "P (g_remote s)"
    "gcall (GetObjectSize (gcs_Service store) (gcs_Bucket store) name) s = (r, s')"
  shows "r = ans name \<and> P (g_remote s')"
  using assms by (fastforce simp: steady_sizes_def gcall_def split: prod.splits)

text \<open>What a goroutine still has to deliver.\<close>

definition due_errors :: "(string \<Rightarrow> gcs_error + int) \<Rightarrow> size_routine \<Rightarrow> int" where
  "due_errors ans r = (case r of Asking name \<Rightarrow> int (length (answer_errors [ans name])) | Sending e \<Rightarrow> 1 | _ \<Rightarrow> 0)"

definition due_total :: "(string \<Rightarrow> gcs_error + int) \<Rightarrow> size_routine \<Rightarrow> int" where
  "due_total ans r = (case r of Asking name \<Rightarrow> answer_total [ans name] | _ \<Rightarrow> 0)"

definition routine_ok :: "(string \<Rightarrow> gcs_error + int) \<Rightarrow> string list \<Rightarrow> bool \<Rightarrow> size_routine \<Rightarrow> bool" where
  "routine_ok ans names canceled r =
     (case r of
        Asking name \<Rightarrow> name \<in> set names
      | Sending e \<Rightarrow> e \<in> set (answer_errors (map ans names)) \<or> canceled \<and> ge_canceled e
      | _ \<Rightarrow> True)"

text \<open>
  At any time: before the other requests are cancelled, nothing that fails has been forgotten, and the offset
  is what has been answered.
\<close>

definition sizes_inv :: "('s \<Rightarrow> bool) \<Rightarrow> (string \<Rightarrow> gcs_error + int) \<Rightarrow> string list \<Rightarrow> 's sizing \<Rightarrow> bool" where
  "sizes_inv P ans names q \<longleftrightarrow>
     P (g_remote (sz_env q)) \<and> set (sz_todo q) \<subseteq> set names \<and>
     (\<forall>r \<in> set (sz_routines q). routine_ok ans names (sz_canceled q) r) \<and>
     (\<forall>e. sz_received q = Some e \<longrightarrow> routine_ok ans names (sz_canceled q) (Sending e)) \<and>
     (\<forall>e. sz_firstError q = Some e \<longrightarrow> e \<in> set (answer_errors (map ans names))) \<and>
     (sz_canceled q \<longrightarrow> sz_firstError q \<noteq> None) \<and>
     (\<not> sz_canceled q \<longrightarrow>
        sz_firstError q = None \<and>
        int (length (answer_errors (map ans names))) =
          int (length (answer_errors (map ans (sz_todo q)))) + sum_list (map (due_errors ans) (sz_routines q)) +
          (if sz_received q = None then 0 else 1) \<and>
        sz_offset q = wrap64 (answer_total (map ans names) - answer_total (map ans (sz_todo q)) -
          sum_list (map (due_total ans) (sz_routines q)))) \<and>
     (sz_closed q \<longrightarrow> sz_todo q = [] \<and> (\<forall>r \<in> set (sz_routines q). r = Gone))"

lemma sum_list_set:
  "i < length xs \<Longrightarrow> sum_list (map f (xs[i := y])) = sum_list (map f xs) + f y - (f (xs ! i) :: int)"
proof (induction xs arbitrary: i)
  case (Cons x xs)
  then show ?case by (cases i) simp_all
qed simp

lemma routine_at_in: "routine_at q i = r \<Longrightarrow> r \<noteq> Gone \<Longrightarrow> i < length (sz_routines q) \<and> sz_routines q ! i = r \<and> r \<in> set (sz_routines q)"
  by (auto simp: routine_at_def split: if_splits)

lemma wrap64_shift: "wrap64 (wrap64 a + b - c) = wrap64 (a + b - c)"
proof -
  have "wrap64 a + b - c + 9223372036854775808 =
      (a + 9223372036854775808) mod 18446744073709551616 + (b - c)" by (simp add: wrap64_def)
  then have "(wrap64 a + b - c + 9223372036854775808) mod 18446744073709551616 = (a + b - c + 9223372036854775808) mod 18446744073709551616"
    by (simp only: mod_add_left_eq) (simp add: algebra_simps)
  then show ?thesis by (simp add: wrap64_def)
qed

lemma wrap64_wrap64 [simp]: "wrap64 (wrap64 a) = wrap64 a"
  using wrap64_shift [of a 0 0] by simp

lemma set_routine_sel [simp]:
  "sz_todo (set_routine i r q) = sz_todo q" "sz_offset (set_routine i r q) = sz_offset q" "sz_received (set_routine i r q) = sz_received q"
  "sz_firstError (set_routine i r q) = sz_firstError q" "sz_canceled (set_routine i r q) = sz_canceled q"
  "sz_closed (set_routine i r q) = sz_closed q" "sz_result (set_routine i r q) = sz_result q" "sz_env (set_routine i r q) = sz_env q"
  "sz_routines (set_routine i r q) = (sz_routines q)[i := r]"
  by (simp_all add: set_routine_def)

text \<open>A goroutine that goes on to \<open>r\<close>: what is due changes by what it delivers.\<close>

lemma sizes_inv_moves:
  assumes inv: "sizes_inv P ans names q" and at: "routine_at q i = r0" "r0 \<noteq> Gone" and ok: "routine_ok ans names (sz_canceled q) r"
    and q': "q' = set_routine i r q1" "sz_routines q1 = sz_routines q" "sz_todo q1 = sz_todo q" "sz_firstError q1 = sz_firstError q"
      "sz_canceled q1 = sz_canceled q" "sz_closed q1 = sz_closed q" "P (g_remote (sz_env q1))"
    and received: "\<And>e. sz_received q1 = Some e \<Longrightarrow> routine_ok ans names (sz_canceled q) (Sending e)"
    and balance: "\<not> sz_canceled q \<Longrightarrow>
      due_errors ans r + (if sz_received q1 = None then 0 else 1) = due_errors ans r0 + (if sz_received q = None then 0 else 1)"
      "\<not> sz_canceled q \<Longrightarrow> sz_offset q1 = wrap64 (sz_offset q + due_total ans r0 - due_total ans r)"
  shows "sizes_inv P ans names q'"
proof -
  note i = routine_at_in [OF at]
  have sums: "sum_list (map f ((sz_routines q)[i := r])) = sum_list (map f (sz_routines q)) + f r - f r0" for f :: "size_routine \<Rightarrow> int"
    using sum_list_set [of i "sz_routines q" f r] i by simp
  have oks: "\<forall>x \<in> set ((sz_routines q)[i := r]). routine_ok ans names (sz_canceled q) x"
    using set_update_subset_insert [of "sz_routines q" i r] inv ok by (auto simp: sizes_inv_def)
  have running: "\<not> sz_closed q" using inv i at(2) by (auto simp: sizes_inv_def)
  have moved: "sz_offset q1 = wrap64 (answer_total (map ans names) - answer_total (map ans (sz_todo q)) -
      (sum_list (map (due_total ans) (sz_routines q)) + due_total ans r - due_total ans r0))" if c: "\<not> sz_canceled q"
  proof -
    have "sz_offset q = wrap64 (answer_total (map ans names) - answer_total (map ans (sz_todo q)) -
        sum_list (map (due_total ans) (sz_routines q)))" using inv c by (simp add: sizes_inv_def)
    then show ?thesis by (simp only: balance(2) [OF c] wrap64_shift) (simp add: algebra_simps)
  qed
  have counted: "int (length (answer_errors (map ans names))) = int (length (answer_errors (map ans (sz_todo q)))) +
      (sum_list (map (due_errors ans) (sz_routines q)) + due_errors ans r - due_errors ans r0) + (if sz_received q1 = None then 0 else 1)"
    if c: "\<not> sz_canceled q"
  proof -
    have "int (length (answer_errors (map ans names))) = int (length (answer_errors (map ans (sz_todo q)))) +
        sum_list (map (due_errors ans) (sz_routines q)) + (if sz_received q = None then 0 else 1)" using inv c by (simp add: sizes_inv_def)
    with balance(1) [OF c] show ?thesis by linarith
  qed
  have "P (g_remote (sz_env q')) \<and> set (sz_todo q') \<subseteq> set names \<and> (\<forall>e. sz_received q' = Some e \<longrightarrow> routine_ok ans names (sz_canceled q') (Sending e)) \<and>
      (\<forall>e. sz_firstError q' = Some e \<longrightarrow> e \<in> set (answer_errors (map ans names))) \<and> (sz_canceled q' \<longrightarrow> sz_firstError q' \<noteq> None) \<and>
      (\<not> sz_canceled q' \<longrightarrow> sz_firstError q' = None) \<and> \<not> sz_closed q'"
    using inv running received by (simp add: sizes_inv_def q')
  moreover have "\<forall>r \<in> set (sz_routines q'). routine_ok ans names (sz_canceled q') r" using oks by (simp add: q')
  moreover have "\<not> sz_canceled q' \<Longrightarrow>
        int (length (answer_errors (map ans names))) =
          int (length (answer_errors (map ans (sz_todo q')))) + sum_list (map (due_errors ans) (sz_routines q')) +
          (if sz_received q' = None then 0 else 1) \<and>
        sz_offset q' = wrap64 (answer_total (map ans names) - answer_total (map ans (sz_todo q')) -
          sum_list (map (due_total ans) (sz_routines q')))"
    using counted moved by (simp only: q' set_routine_sel sums not_False_eq_True simp_thms)
  ultimately show ?thesis unfolding sizes_inv_def by blast
qed

lemma sizes_inv_answer:
  assumes laws: "steady_sizes store P ans names" and inv: "sizes_inv P ans names q"
    and at: "routine_at q i = Asking name" and call: "gcall (GetObjectSize (gcs_Service store) (gcs_Bucket store) name) (sz_env q) = (r, s)"
  shows "sizes_inv P ans names (answer_size i r (q\<lparr>sz_env := s\<rparr>))"
proof -
  have name: "name \<in> set names" using inv routine_at_in [OF at] by (force simp: sizes_inv_def routine_ok_def)
  with steady_call [OF laws this _ call] inv have r: "ans name = r" "P (g_remote s)" by (simp_all add: sizes_inv_def)
  have received: "routine_ok ans names (sz_canceled q) (Sending e)" if "sz_received q = Some e" for e
    using inv that by (simp add: sizes_inv_def)
  show ?thesis
  proof (cases r)
    case (Inl e)
    with name r have "e \<in> set (answer_errors (map ans names))" by (auto simp: answer_errors_set intro: rev_image_eqI)
    then have ok: "routine_ok ans names (sz_canceled q) (Sending e)" by (simp add: routine_ok_def)
    have "sz_offset q = wrap64 (sz_offset q)" if "\<not> sz_canceled q" using inv that by (simp add: sizes_inv_def)
    with r Inl received show ?thesis
      by (intro sizes_inv_moves [OF inv at _ ok, of _ "q\<lparr>sz_env := s\<rparr>"]) (simp_all add: answer_size_def due_errors_def due_total_def)
  next
    case (Inr n)
    have ok: "routine_ok ans names (sz_canceled q) Leaving" by (simp add: routine_ok_def)
    from r Inr received show ?thesis
      by (intro sizes_inv_moves [OF inv at _ ok, of _ "q\<lparr>sz_offset := add64 (sz_offset q) n, sz_env := s\<rparr>"])
        (simp_all add: answer_size_def due_errors_def due_total_def add64_def)
  qed
qed

lemma sizes_inv_step:
  assumes laws: "steady_sizes store P ans names" and act: "size_act store l q = Some q'" and inv: "sizes_inv P ans names q"
  shows "sizes_inv P ans names q'"
proof (cases l)
  case (Answer i)
  with act obtain name where at: "routine_at q i = Asking name" by (auto simp: size_act_def split: size_routine.splits)
  obtain r s where call: "gcall (GetObjectSize (gcs_Service store) (gcs_Bucket store) name) (sz_env q) = (r, s)" by (metis surj_pair)
  from sizes_inv_answer [OF laws inv at call] act Answer at call show ?thesis by (simp add: size_act_def)
next
  case StartRequest
  then obtain name rest where todo: "sz_todo q = name # rest" and q': "q' = q\<lparr>sz_todo := rest, sz_routines := sz_routines q @ [Asking name]\<rparr>"
    using act by (auto simp: size_act_def split: list.splits if_splits)
  have "int (length (answer_errors (map ans (sz_todo q)))) = due_errors ans (Asking name) + int (length (answer_errors (map ans rest)))"
    "answer_total (map ans (sz_todo q)) = due_total ans (Asking name) + answer_total (map ans rest)"
    using answer_Cons [of "ans name" "map ans rest"] by (simp_all add: todo due_errors_def due_total_def)
  moreover have "routine_ok ans names (sz_canceled q) (Asking name)" using inv by (simp add: sizes_inv_def todo routine_ok_def)
  moreover have "\<not> sz_closed q" using inv by (auto simp: sizes_inv_def todo)
  ultimately show ?thesis using inv by (simp add: q' sizes_inv_def todo algebra_simps)
next
  case (CancelAnswer i)
  then obtain name where at: "routine_at q i = Asking name" and q': "q' = set_routine i (Sending context_canceled) q" and c: "sz_canceled q"
    using act by (auto simp: size_act_def split: size_routine.splits if_splits)
  have ok: "routine_ok ans names (sz_canceled q) (Sending context_canceled)" using c by (simp add: routine_ok_def context_canceled_def)
  show ?thesis using inv c by (intro sizes_inv_moves [OF inv at _ ok q']) (simp_all add: sizes_inv_def)
next
  case (HandOver i)
  then obtain e where at: "routine_at q i = Sending e" and q': "q' = set_routine i Leaving (q\<lparr>sz_received := Some e\<rparr>)" and none: "sz_received q = None"
    using act by (auto simp: size_act_def split: size_routine.splits if_splits)
  have ok: "routine_ok ans names (sz_canceled q) Leaving" by (simp add: routine_ok_def)
  have sent: "routine_ok ans names (sz_canceled q) (Sending e)" using inv routine_at_in [OF at] by (force simp: sizes_inv_def)
  show ?thesis using inv none sent
    by (intro sizes_inv_moves [OF inv at _ ok q']) (simp_all add: sizes_inv_def due_errors_def due_total_def)
next
  case (Leave i)
  then have at: "routine_at q i = Leaving" and q': "q' = set_routine i Gone q" using act by (auto simp: size_act_def split: if_splits)
  have ok: "routine_ok ans names (sz_canceled q) Gone" by (simp add: routine_ok_def)
  show ?thesis using inv
    by (intro sizes_inv_moves [OF inv at _ ok q']) (simp_all add: sizes_inv_def due_errors_def due_total_def)
next
  case StoreError
  then obtain e where e: "sz_received q = Some e" and q': "q' = collect_error e q" using act by (auto simp: size_act_def)
  show ?thesis
  proof (cases "sz_canceled q")
    case True
    then have "q' = q\<lparr>sz_received := None\<rparr>" using inv by (auto simp: q' collect_error_def sizes_inv_def)
    with True inv show ?thesis by (simp add: sizes_inv_def)
  next
    case False
    with inv e have m: "e \<in> set (answer_errors (map ans names))" "sz_firstError q = None" by (auto simp: sizes_inv_def routine_ok_def)
    then have q1: "q' = q\<lparr>sz_received := None, sz_firstError := Some e, sz_canceled := True\<rparr>"
      using laws by (simp add: q' collect_error_def steady_sizes_def)
    have "routine_ok ans names True r" if "routine_ok ans names False r" for r
      using that by (auto simp: routine_ok_def split: size_routine.splits)
    with inv False m show ?thesis by (simp add: q1 sizes_inv_def)
  qed
next
  case CloseErrors
  with act inv show ?thesis
    by (auto simp: size_act_def sizes_inv_def slots_used_def filter_empty_conv split: if_splits)
next
  case ReadOffset
  with act obtain x where "q' = q\<lparr>sz_result := x\<rparr>" by (auto simp: size_act_def split: if_splits)
  with inv show ?thesis by (simp add: sizes_inv_def)
qed

text \<open>
  What \<^verbatim>\<open>GetInfo\<close> reports: an offset comes only when at most one request failed, and then leaves out its object.
\<close>

definition size_result_ok :: "gcs_error list \<Rightarrow> int \<Rightarrow> (err + int) option \<Rightarrow> bool" where
  "size_result_ok errs n0 res \<longleftrightarrow>
     (case res of
        None \<Rightarrow> True
      | Some (Inl x) \<Rightarrow> x \<in> ge_err ` set errs
      | Some (Inr n) \<Rightarrow> n = wrap64 n0 \<and> length errs \<le> 1)"

lemma gone_sums:
  "\<forall>r \<in> set rs. r = Gone \<Longrightarrow> sum_list (map (due_errors ans) rs) = 0 \<and> sum_list (map (due_total ans) rs) = 0"
  by (induction rs) (simp_all add: due_errors_def due_total_def)

lemma size_result_step:
  assumes act: "size_act store l q = Some q'" and inv: "sizes_inv P ans names q"
    and ok: "size_result_ok (answer_errors (map ans names)) (answer_total (map ans names)) (sz_result q)"
  shows "size_result_ok (answer_errors (map ans names)) (answer_total (map ans names)) (sz_result q')"
proof (cases "l = ReadOffset")
  case True
  with act have closed: "sz_closed q"
    and res: "sz_result q' = Some (case sz_firstError q of Some e \<Rightarrow> Inl (ge_err e) | None \<Rightarrow> Inr (sz_offset q))"
    by (auto simp: size_act_def split: if_splits)
  show ?thesis
  proof (cases "sz_firstError q")
    case (Some e)
    with inv res show ?thesis by (auto simp: size_result_ok_def sizes_inv_def)
  next
    case None
    with inv have "\<not> sz_canceled q" by (auto simp: sizes_inv_def)
    with inv closed gone_sums [of "sz_routines q" ans] have "sz_offset q = wrap64 (answer_total (map ans names))"
      "int (length (answer_errors (map ans names))) = (if sz_received q = None then 0 else 1)" by (simp_all add: sizes_inv_def)
    with None res show ?thesis by (simp add: size_result_ok_def split: if_splits)
  qed
next
  case False
  with act have "sz_result q' = sz_result q"
    by (auto simp: size_act_def answer_size_def collect_error_def split: size_label.splits list.splits size_routine.splits sum.splits prod.splits if_splits)
  with ok show ?thesis by simp
qed

lemma size_run_result:
  assumes "steady_sizes store P ans names"
  shows "size_run store ls q = Some q' \<Longrightarrow> sizes_inv P ans names q \<Longrightarrow>
    size_result_ok (answer_errors (map ans names)) (answer_total (map ans names)) (sz_result q) \<Longrightarrow>
    size_result_ok (answer_errors (map ans names)) (answer_total (map ans names)) (sz_result q')"
proof (induction ls arbitrary: q)
  case (Cons l ls)
  then obtain q1 where q1: "size_act store l q = Some q1" "size_run store ls q1 = Some q'" by (auto split: option.splits)
  from Cons.IH [OF q1(2) sizes_inv_step [OF assms q1(1) Cons.prems(2)] size_result_step [OF q1(1) Cons.prems(2,3)]] show ?case .
qed simp

lemma sizes_inv_start: "P (g_remote s) \<Longrightarrow> sizes_inv P ans names (start_sizes names s)"
  by (simp add: sizes_inv_def start_sizes_def wrap64_def)

lemma steady_sum_sizes:
  "steady_sizes store P ans (asked @ names) \<Longrightarrow> P (g_remote s) \<Longrightarrow> n = wrap64 m \<Longrightarrow>
   \<exists>s'. sum_sizes store names n errs s = ((wrap64 (m + answer_total (map ans names)), errs @ answer_errors (map ans names)), s')"
proof (induction names arbitrary: asked n m errs s)
  case (Cons name names)
  obtain r s1 where call: "gcall (GetObjectSize (gcs_Service store) (gcs_Bucket store) name) s = (r, s1)" by (metis surj_pair)
  from steady_call [OF Cons.prems(1) _ Cons.prems(2) call] have r: "ans name = r" "P (g_remote s1)" by simp_all
  have laws: "steady_sizes store P ans ((asked @ [name]) @ names)" using Cons.prems(1) by simp
  show ?case
  proof (cases r)
    case (Inl e)
    from Cons.IH [OF laws r(2) Cons.prems(3), of "errs @ [e]"] call r(1) Inl show ?thesis by simp
  next
    case (Inr k)
    have "add64 n k = wrap64 (m + k)" using wrap64_shift [of m k 0] Cons.prems(3) by (simp add: add64_def)
    from Cons.IH [OF laws r(2) this, of errs] call r(1) Inr show ?thesis by (simp add: add.assoc)
  qed
qed simp

text \<open>
  Property C31. The error of a size request can get lost. The answers of the service depend only on the
  objects, and \<open>errs\<close> are its errors, none of which is a cancellation. Whatever the order in which the
  goroutines of \<^verbatim>\<open>GetInfo\<close> run, its result is one of these errors, or, when there is at most one of
  them, the sum of the sizes that are known. With a single error both results are reached: the goroutine that
  stores the first error is not waited for, so that \<^verbatim>\<open>GetInfo\<close> can succeed with an offset that leaves out
  an object.
\<close>

theorem gcs_size_error_gets_lost:
  assumes "steady_sizes store P ans names" "P (g_remote s)" "errs = answer_errors (map ans names)"
  shows "(size_run store ls (start_sizes names s) = Some q \<and> sz_result q = Some res \<longrightarrow>
           (\<exists>e \<in> set errs. res = Inl (ge_err e)) \<or> length errs \<le> 1 \<and> res = Inr (wrap64 (answer_total (map ans names)))) \<and>
         (errs = [e] \<and> res \<in> {Inl (ge_err e), Inr (wrap64 (answer_total (map ans names)))} \<longrightarrow>
           (\<exists>ls q. size_run store ls (start_sizes names s) = Some q \<and> sz_result q = Some res))"
proof (intro conjI impI)
  assume run: "size_run store ls (start_sizes names s) = Some q \<and> sz_result q = Some res"
  with size_run_result [OF assms(1), of ls "start_sizes names s" q] sizes_inv_start [of P s ans names, OF assms(2)]
  have "size_result_ok errs (answer_total (map ans names)) (Some res)" by (simp add: assms(3) start_sizes_def size_result_ok_def)
  then show "(\<exists>e \<in> set errs. res = Inl (ge_err e)) \<or> length errs \<le> 1 \<and> res = Inr (wrap64 (answer_total (map ans names)))"
    by (auto simp: size_result_ok_def split: sum.splits)
next
  assume one: "errs = [e] \<and> res \<in> {Inl (ge_err e), Inr (wrap64 (answer_total (map ans names)))}"
  obtain s' where sums: "sum_sizes store names 0 [] s = ((wrap64 (answer_total (map ans names)), errs), s')"
    using steady_sum_sizes [of store P ans "[]" names s 0 0 "[]"] assms by (auto simp: wrap64_def)
  have "\<not> ge_canceled e" using assms(1) one unfolding steady_sizes_def assms(3) [symmetric] by simp
  with sum_sizes_is_a_run [OF sums, of True] sum_sizes_is_a_run [OF sums, of False] one
  show "\<exists>ls q. size_run store ls (start_sizes names s) = Some q \<and> sz_result q = Some res" by (auto simp: first_error_def)
qed

text \<open>An upload of two chunks: the attributes of the second one are refused, and two of its four bytes are reported.\<close>

definition refusing_gcs :: "mem_gcs GCSClient" where
  "refusing_gcs = (memory_gcs (\<lambda>_. False))\<lparr>cl_Attrs := \<lambda>b i s.
     if i = ''k_1'' then (Inl (mg_failure False ''unavailable''), s) else cl_Attrs (memory_gcs (\<lambda>_. False)) b i s\<rparr>"

definition refusing_answers :: "string \<Rightarrow> gcs_error + int" where
  "refusing_answers i = (if i = ''k_1'' then Inl (mg_failure False ''unavailable'') else Inr 2)"

lemma refusing_size:
  "gcs_GetObjectSize refusing_gcs b i x =
     (if i = ''k_1'' then (Inl (mg_failure False ''unavailable''), x)
      else (case map_of (mg_objs x) i of None \<Rightarrow> Inl (mg_failure True ''object not found'') | Some c \<Rightarrow> Inr (int (length c)),
            x\<lparr>mg_clock := Suc (mg_clock x)\<rparr>))"
  by (simp add: gcs_GetObjectSize_def gcs_GetObjectAttrs_def refusing_gcs_def memory_gcs_def mg_try_def mg_find_def mg_attrs_def
    Let_def split: option.splits)

lemma refusing_steady:
  "steady_sizes (cloud_store refusing_gcs ''b'' []) (\<lambda>x. mg_view x = map_of two_chunks) refusing_answers [''k_0'', ''k_1'']"
  by (auto simp: steady_sizes_def refusing_size refusing_answers_def mg_failure_def mg_view_def two_chunks_def)

theorem gcs_size_error_gets_lost_witness:
  "fst (gcs_FilterObjects refusing_gcs ''b'' ''k'' (g_remote (cloud_env False two_chunks))) = Inr [''k_0'', ''k_1''] \<and>
   (\<exists>ls q. size_run (cloud_store refusing_gcs ''b'' []) ls (start_sizes [''k_0'', ''k_1''] (cloud_env False two_chunks)) = Some q \<and>
     sz_result q = Some (Inr 2)) \<and>
   (\<exists>ls q. size_run (cloud_store refusing_gcs ''b'' []) ls (start_sizes [''k_0'', ''k_1''] (cloud_env False two_chunks)) = Some q \<and>
     sz_result q = Some (Inl (PlainError ''unavailable'')))"
proof -
  have errs: "[mg_failure False ''unavailable''] = answer_errors (map refusing_answers [''k_0'', ''k_1''])"
    "answer_total (map refusing_answers [''k_0'', ''k_1'']) = 2" by (simp_all add: refusing_answers_def)
  note refused = gcs_size_error_gets_lost [where s = "cloud_env False two_chunks" and e = "mg_failure False ''unavailable''",
      OF refusing_steady _ errs(1), unfolded errs(2)]
  have "mg_view (g_remote (cloud_env False two_chunks)) = map_of two_chunks" by (simp add: cloud_env_def mg_view_def)
  moreover have "wrap64 2 = 2" "ge_err (mg_failure False ''unavailable'') = PlainError ''unavailable''" by (simp_all add: wrap64_def mg_failure_def)
  moreover have "fst (gcs_FilterObjects refusing_gcs ''b'' ''k'' (g_remote (cloud_env False two_chunks))) = Inr [''k_0'', ''k_1'']" by code_simp
  ultimately show ?thesis
    using refused [THEN conjunct2, of "Inr 2"] refused [THEN conjunct2, of "Inl (PlainError ''unavailable'')"] by simp
qed

end
