(* ===== verification/Collector.thy ===== *)
theory Collector
  imports HttpTypes
begin

text \<open>
  The Prometheus collector (\<^verbatim>\<open>pkg/prometheuscollector\<close>): the usage counters of the handler,
  exposed as metrics. The metrics sent on a channel are the list of the sent values; a map is
  iterated in the order of its list. \<open>MustNewConstMetric\<close> panics when the number of label
  values is not the one its description names; a panic is \<open>None\<close>.
\<close>

section \<open>Conversion to floating point\<close>

text \<open>
  \<^verbatim>\<open>float64(n)\<close> of an unsigned integer: the nearest number with 53 significant bits, with
  ties to the even one. The value is an integer, so it is one here.
\<close>

definition bit_length :: "uint64 \<Rightarrow> nat" where
  "bit_length n = length (dropWhile Not (rev (map (bit n) [0..<64])))"

definition float64 :: "uint64 \<Rightarrow> nat" where
  "float64 n =
     (let excess = bit_length n - 53;
          unit = 2 ^ excess;
          q = unat n div unit; r = unat n mod unit
      in if excess = 0 then unat n
         else if 2 * r > unit \<or> (2 * r = unit \<and> odd q) then (q + 1) * unit else q * unit)"

section \<open>Descriptions and metrics\<close>

record Desc =
  fqName :: string
  helpText :: string
  variableLabels :: "string list"

definition requestsTotalDesc :: Desc where
  "requestsTotalDesc = \<lparr>fqName = ''tusd_requests_total'',
     helpText = ''Total number of requests served by tusd per method.'', variableLabels = [''method'']\<rparr>"

definition errorsTotalDesc :: Desc where
  "errorsTotalDesc = \<lparr>fqName = ''tusd_errors_total'',
     helpText = ''Total number of errors per status.'', variableLabels = [''status'', ''code'']\<rparr>"

definition bytesReceivedDesc :: Desc where
  "bytesReceivedDesc = \<lparr>fqName = ''tusd_bytes_received'',
     helpText = ''Number of bytes received for uploads.'', variableLabels = []\<rparr>"

definition uploadsCreatedDesc :: Desc where
  "uploadsCreatedDesc = \<lparr>fqName = ''tusd_uploads_created'',
     helpText = ''Number of created uploads.'', variableLabels = []\<rparr>"

definition uploadsFinishedDesc :: Desc where
  "uploadsFinishedDesc = \<lparr>fqName = ''tusd_uploads_finished'',
     helpText = ''Number of finished uploads.'', variableLabels = []\<rparr>"

definition uploadsTerminatedDesc :: Desc where
  "uploadsTerminatedDesc = \<lparr>fqName = ''tusd_uploads_terminated'',
     helpText = ''Number of terminated uploads.'', variableLabels = []\<rparr>"

lemmas desc_defs = requestsTotalDesc_def errorsTotalDesc_def bytesReceivedDesc_def
  uploadsCreatedDesc_def uploadsFinishedDesc_def uploadsTerminatedDesc_def

record ConstMetric =
  metric_desc :: Desc
  metric_value :: nat
  metric_labels :: "string list"

definition MustNewConstMetric :: "Desc \<Rightarrow> uint64 \<Rightarrow> string list \<Rightarrow> ConstMetric option" where
  "MustNewConstMetric desc n labels =
     (if length labels = length (variableLabels desc)
      then Some \<lparr>metric_desc = desc, metric_value = float64 n, metric_labels = labels\<rparr>
      else None)"

section \<open>The collector\<close>

definition Describe :: "Desc list" where
  "Describe = [requestsTotalDesc, errorsTotalDesc, bytesReceivedDesc, uploadsCreatedDesc,
     uploadsFinishedDesc, uploadsTerminatedDesc]"

definition Collect :: "Metrics \<Rightarrow> ConstMetric list option" where
  "Collect m =
     those
       (map (\<lambda>(method, value). MustNewConstMetric requestsTotalDesc value [method]) (RequestsTotal m) @
        map (\<lambda>(httpError, value).
               MustNewConstMetric errorsTotalDesc value
                 [FormatInt (EntryStatusCode httpError), EntryErrorCode httpError])
          (ErrorsTotal_Load (ErrorsTotal m)) @
        [MustNewConstMetric bytesReceivedDesc (BytesReceived m) [],
         MustNewConstMetric uploadsFinishedDesc (UploadsFinished m) [],
         MustNewConstMetric uploadsCreatedDesc (UploadsCreated m) [],
         MustNewConstMetric uploadsTerminatedDesc (UploadsTerminated m) []])"

section \<open>Facts\<close>

lemma bit_length_small:
  assumes "unat n < 2 ^ 53"
  shows "bit_length n \<le> 53"
proof -
  have high: "\<not> bit n i" if "53 \<le> i" for i
  proof -
    have "(2::nat) ^ 53 \<le> 2 ^ i" using that by (intro power_increasing) simp_all
    with assms have "unat n < 2 ^ i" by linarith
    then have "\<not> bit (unat n) i" by (simp add: bit_iff_odd)
    then show ?thesis by (simp add: bit_unsigned_iff)
  qed
  have "[0..<64] = [0..<53] @ [53..<64::nat]"
    using upt_add_eq_append [of 0 53 11] by simp
  then have "rev (map (bit n) [0..<64]) = rev (map (bit n) [53..<64]) @ rev (map (bit n) [0..<53])"
    by (simp del: upt_rec_numeral)
  then have "bit_length n = length (dropWhile Not (rev (map (bit n) [0..<53])))"
    using high by (simp add: bit_length_def dropWhile_append del: upt_rec_numeral)
  also have "\<dots> \<le> length (rev (map (bit n) [0..<53]))"
    by (rule length_dropWhile_le)
  finally show ?thesis by simp
qed

text \<open>Counters below $2^{53}$ are exposed without loss.\<close>

lemma float64_exact: "unat n < 2 ^ 53 \<Longrightarrow> float64 n = unat n"
  using bit_length_small [of n] by (simp add: float64_def Let_def)

lemma those_ne: "None \<notin> set xs \<Longrightarrow> those xs = Some (map the xs)"
proof (induction xs)
  case (Cons x xs)
  then show ?case by (cases x) auto
qed simp

text \<open>Collecting never panics, and every metric is one of the described ones.\<close>

lemma Collect_described:
  "\<exists>ms. Collect m = Some ms \<and> list_all (\<lambda>x. metric_desc x \<in> set Describe) ms \<and>
     length ms = length (RequestsTotal m) + length (ErrorsTotal_Load (ErrorsTotal m)) + 4"
  unfolding Collect_def
  by (subst those_ne)
    (auto simp: MustNewConstMetric_def desc_defs Describe_def list_all_iff split: prod.splits)

end
