(* ===== verification/Hooks.thy ===== *)
theory Hooks
  imports Server "HOL-Library.Multiset"
begin

text \<open>
  The hook system (\<^verbatim>\<open>pkg/hooks/hooks.go\<close>): the requests and responses exchanged with a hook
  backend, the callbacks that translate a response into what the handler understands, the
  construction of a handler with hooks and the goroutine that turns notifications into hook
  invocations. A hook backend is a record of its two methods. What a backend keeps for itself
  is not visible: its answer is a function of the request. The two counters of the package are
  the state that \<open>invokeHookSync\<close> threads; the callbacks installed in the configuration
  give their answer, which does not depend on the counters.
\<close>

section \<open>Requests and responses\<close>

type_synonym HookType = string

definition HookPostFinish :: HookType where "HookPostFinish = ''post-finish''"
definition HookPostTerminate :: HookType where "HookPostTerminate = ''post-terminate''"
definition HookPostReceive :: HookType where "HookPostReceive = ''post-receive''"
definition HookPostCreate :: HookType where "HookPostCreate = ''post-create''"
definition HookPreCreate :: HookType where "HookPreCreate = ''pre-create''"
definition HookPreFinish :: HookType where "HookPreFinish = ''pre-finish''"
definition HookPreTerminate :: HookType where "HookPreTerminate = ''pre-terminate''"

lemmas hook_type_defs = HookPostFinish_def HookPostTerminate_def HookPostReceive_def
  HookPostCreate_def HookPreCreate_def HookPreFinish_def HookPreTerminate_def

definition AvailableHooks :: "HookType list" where
  "AvailableHooks = [HookPreCreate, HookPostCreate, HookPostReceive, HookPreTerminate,
     HookPostTerminate, HookPostFinish, HookPreFinish]"

record HookRequest =
  HookReqType :: HookType
  HookReqEvent :: HookEvent

record HookResponse =
  HookHTTPResponse :: HTTPResponse
  RejectUpload :: bool
  RejectTermination :: bool
  ChangeFileInfo :: FileInfoChanges
  HookStopUpload :: bool

definition emptyHookResponse :: HookResponse where
  "emptyHookResponse =
     \<lparr>HookHTTPResponse = emptyResponse, RejectUpload = False, RejectTermination = False,
      ChangeFileInfo = noChanges, HookStopUpload = False\<rparr>"

text \<open>\<open>Setup\<close> is the error with which setting up the backend ends, if any.\<close>

record HookHandler =
  Setup :: "err option"
  InvokeHook :: "HookRequest \<Rightarrow> HookResponse \<times> err option"

section \<open>Counters\<close>

record HookMetrics =
  MetricsHookErrorsTotal :: "HookType \<rightharpoonup> nat"
  MetricsHookInvocationsTotal :: "HookType \<rightharpoonup> nat"

text \<open>\<^verbatim>\<open>WithLabelValues(l).Add(n)\<close>: a counter comes into being as zero.\<close>

definition counter_value :: "(HookType \<rightharpoonup> nat) \<Rightarrow> HookType \<Rightarrow> nat" where
  "counter_value m l = (case m l of None \<Rightarrow> 0 | Some k \<Rightarrow> k)"

definition counter_add :: "HookType \<Rightarrow> nat \<Rightarrow> (HookType \<rightharpoonup> nat) \<Rightarrow> (HookType \<rightharpoonup> nat)" where
  "counter_add l n m = m(l \<mapsto> counter_value m l + n)"

definition SetupHookMetrics :: "HookMetrics \<Rightarrow> HookMetrics" where
  "SetupHookMetrics m =
     (let ls = [HookPostFinish, HookPostTerminate, HookPostReceive, HookPostCreate, HookPreCreate,
                HookPreFinish, HookPreTerminate]
      in m\<lparr>MetricsHookErrorsTotal := fold (\<lambda>l. counter_add l 0) ls (MetricsHookErrorsTotal m),
           MetricsHookInvocationsTotal := fold (\<lambda>l. counter_add l 0) ls (MetricsHookInvocationsTotal m)\<rparr>)"

definition noHookMetrics :: HookMetrics where
  "noHookMetrics =
     \<lparr>MetricsHookErrorsTotal = (\<lambda>_. None), MetricsHookInvocationsTotal = (\<lambda>_. None)\<rparr>"

section \<open>Invoking hooks\<close>

definition invokeHookSync ::
  "HookType \<Rightarrow> HookEvent \<Rightarrow> HookHandler \<Rightarrow> HookMetrics \<Rightarrow> (bool \<times> HookResponse \<times> err option) \<times> HookMetrics" where
  "invokeHookSync typ event hookHandler m =
     (let m1 = m\<lparr>MetricsHookInvocationsTotal := counter_add typ 1 (MetricsHookInvocationsTotal m)\<rparr>
      in case InvokeHook hookHandler \<lparr>HookReqType = typ, HookReqEvent = event\<rparr> of
           (res, Some e) \<Rightarrow>
             ((False, emptyHookResponse, Some e),
              m1\<lparr>MetricsHookErrorsTotal := counter_add typ 1 (MetricsHookErrorsTotal m1)\<rparr>)
         | (res, None) \<Rightarrow> ((True, res, None), m1))"

text \<open>An error value with a response merged into its own.\<close>

definition with_response :: "Error \<Rightarrow> HTTPResponse \<Rightarrow> Error" where
  "with_response e res = e\<lparr>HTTPResp := MergeWith (HTTPResp e) res\<rparr>"

definition preCreateCallback ::
  "HookEvent \<Rightarrow> HookHandler \<Rightarrow> HookMetrics \<Rightarrow> (HTTPResponse \<times> FileInfoChanges \<times> err option) \<times> HookMetrics" where
  "preCreateCallback event hookHandler m =
     (case invokeHookSync HookPreCreate event hookHandler m of
        ((ok, hookRes, e), m1) \<Rightarrow>
          if \<not> ok \<or> e \<noteq> None then ((emptyResponse, noChanges, e), m1)
          else if RejectUpload hookRes then
            ((emptyResponse, noChanges,
              Some (TusError (with_response ErrUploadRejectedByServer (HookHTTPResponse hookRes)))), m1)
          else ((HookHTTPResponse hookRes, ChangeFileInfo hookRes, None), m1))"

definition preFinishCallback ::
  "HookEvent \<Rightarrow> HookHandler \<Rightarrow> HookMetrics \<Rightarrow> (HTTPResponse \<times> err option) \<times> HookMetrics" where
  "preFinishCallback event hookHandler m =
     (case invokeHookSync HookPreFinish event hookHandler m of
        ((ok, hookRes, e), m1) \<Rightarrow>
          if \<not> ok \<or> e \<noteq> None then ((emptyResponse, e), m1)
          else ((HookHTTPResponse hookRes, None), m1))"

definition preTerminateCallback ::
  "HookEvent \<Rightarrow> HookHandler \<Rightarrow> HookMetrics \<Rightarrow> (HTTPResponse \<times> err option) \<times> HookMetrics" where
  "preTerminateCallback event hookHandler m =
     (case invokeHookSync HookPreTerminate event hookHandler m of
        ((ok, hookRes, e), m1) \<Rightarrow>
          if \<not> ok \<or> e \<noteq> None then ((emptyResponse, e), m1)
          else if RejectTermination hookRes then
            ((emptyResponse,
              Some (TusError (with_response ErrUploadTerminationRejected (HookHTTPResponse hookRes)))), m1)
          else ((HookHTTPResponse hookRes, None), m1))"

text \<open>The error with which the request is cancelled when the hook stops its upload.\<close>

definition postReceiveCallback ::
  "HookEvent \<Rightarrow> HookHandler \<Rightarrow> HookMetrics \<Rightarrow> Error option \<times> HookMetrics" where
  "postReceiveCallback event hookHandler m =
     (case invokeHookSync HookPostReceive event hookHandler m of
        ((ok, hookRes, e), m1) \<Rightarrow>
          if \<not> ok then (None, m1)
          else if HookStopUpload hookRes
          then (StopUpload (Upload event) (HookHTTPResponse hookRes), m1)
          else (None, m1))"

section \<open>A handler with hooks\<close>

definition hooks_config ::
  "HookHandler \<Rightarrow> HookType list \<Rightarrow> ('s, 'u, 'l, 'k) Config \<Rightarrow> ('s, 'u, 'l, 'k) Config" where
  "hooks_config hookHandler enabledHooks cfg0 =
     (let cfg = cfg0\<lparr>
            NotifyCompleteUploads := (HookPostFinish \<in> set enabledHooks),
            NotifyTerminatedUploads := (HookPostTerminate \<in> set enabledHooks),
            NotifyUploadProgress := (HookPostReceive \<in> set enabledHooks),
            NotifyCreatedUploads := (HookPostCreate \<in> set enabledHooks)\<rparr>;
          cfg1 = (if HookPreCreate \<in> set enabledHooks
                  then cfg\<lparr>PreUploadCreateCallback :=
                             Some (\<lambda>event. fst (preCreateCallback event hookHandler noHookMetrics))\<rparr>
                  else cfg);
          cfg2 = (if HookPreFinish \<in> set enabledHooks
                  then cfg1\<lparr>PreFinishResponseCallback :=
                              Some (\<lambda>event. fst (preFinishCallback event hookHandler noHookMetrics))\<rparr>
                  else cfg1)
      in if HookPreTerminate \<in> set enabledHooks
         then cfg2\<lparr>PreUploadTerminateCallback :=
                     Some (\<lambda>event. fst (preTerminateCallback event hookHandler noHookMetrics))\<rparr>
         else cfg2)"

definition NewHandlerWithHooks ::
  "(string \<Rightarrow> err + bool) \<Rightarrow> ('s, 'u, 'l, 'k) Config \<Rightarrow> HookHandler \<Rightarrow> HookType list \<Rightarrow>
     err + (Request \<Rightarrow> (('s, 'l) world, unit) state)" where
  "NewHandlerWithHooks url_Parse cfg hookHandler enabledHooks =
     (case Setup hookHandler of
        Some e \<Rightarrow> Inl (PlainError (''unable to setup hooks for handler: '' @ err_text e))
      | None \<Rightarrow> NewHandler url_Parse (hooks_config hookHandler enabledHooks cfg))"

section \<open>Listening for notifications\<close>

text \<open>
  The goroutine of \<open>NewHandlerWithHooks\<close> receives from four channels and starts a
  goroutine for each event. A channel is the queue of the events that wait to be sent;
  \<open>d_running\<close> are the started goroutines that have not invoked their hook yet,
  \<open>d_done\<close> those that have, in that order, and \<open>d_stopped\<close> the uploads stopped.
\<close>

record Dispatcher =
  d_complete :: "HookEvent list"
  d_terminated :: "HookEvent list"
  d_created :: "HookEvent list"
  d_progress :: "HookEvent list"
  d_running :: "(HookType \<times> HookEvent) list"
  d_done :: "(HookType \<times> HookEvent) list"
  d_stopped :: "(HookEvent \<times> Error) list"
  d_metrics :: HookMetrics

text \<open>What a started goroutine does: \<open>invokeHookAsync\<close> or \<open>postReceiveCallback\<close>.\<close>

definition invokeHookAsync :: "HookType \<Rightarrow> HookEvent \<Rightarrow> HookHandler \<Rightarrow> HookMetrics \<Rightarrow> HookMetrics" where
  "invokeHookAsync typ event hookHandler m = snd (invokeHookSync typ event hookHandler m)"

definition hook_goroutine :: "HookHandler \<Rightarrow> HookType \<times> HookEvent \<Rightarrow> Dispatcher \<Rightarrow> Dispatcher" where
  "hook_goroutine hh g d =
     (case g of (typ, event) \<Rightarrow>
        let d1 = d\<lparr>d_done := d_done d @ [g]\<rparr>
        in if typ = HookPostReceive then
             (case postReceiveCallback event hh (d_metrics d) of
                (cause, m) \<Rightarrow>
                  d1\<lparr>d_metrics := m,
                     d_stopped := d_stopped d @ (case cause of None \<Rightarrow> [] | Some x \<Rightarrow> [(event, x)])\<rparr>)
           else d1\<lparr>d_metrics := invokeHookAsync typ event hh (d_metrics d)\<rparr>)"

inductive dispatch :: "HookHandler \<Rightarrow> Dispatcher \<Rightarrow> Dispatcher \<Rightarrow> bool" for hh where
  complete: "d_complete d = e # es \<Longrightarrow>
     dispatch hh d (d\<lparr>d_complete := es, d_running := d_running d @ [(HookPostFinish, e)]\<rparr>)"
| terminated: "d_terminated d = e # es \<Longrightarrow>
     dispatch hh d (d\<lparr>d_terminated := es, d_running := d_running d @ [(HookPostTerminate, e)]\<rparr>)"
| created: "d_created d = e # es \<Longrightarrow>
     dispatch hh d (d\<lparr>d_created := es, d_running := d_running d @ [(HookPostCreate, e)]\<rparr>)"
| progress: "d_progress d = e # es \<Longrightarrow>
     dispatch hh d (d\<lparr>d_progress := es, d_running := d_running d @ [(HookPostReceive, e)]\<rparr>)"
| run: "d_running d = gs @ g # hs \<Longrightarrow>
     dispatch hh d (hook_goroutine hh g (d\<lparr>d_running := gs @ hs\<rparr>))"

text \<open>The channels hold what a handled request has sent on them.\<close>

definition listening :: "('s, 'l) world \<Rightarrow> HookMetrics \<Rightarrow> Dispatcher" where
  "listening w m =
     \<lparr>d_complete = w_complete w, d_terminated = w_terminated w, d_created = w_created w,
      d_progress = w_progress w, d_running = [], d_done = [], d_stopped = [], d_metrics = m\<rparr>"

section \<open>Facts\<close>

text \<open>The events that wait to be received, each with the hook it is meant for.\<close>

definition waiting :: "Dispatcher \<Rightarrow> (HookType \<times> HookEvent) list" where
  "waiting d =
     map (Pair HookPostFinish) (d_complete d) @ map (Pair HookPostTerminate) (d_terminated d) @
     map (Pair HookPostCreate) (d_created d) @ map (Pair HookPostReceive) (d_progress d)"

text \<open>Each waiting event needs two steps, each started goroutine one.\<close>

definition steps_left :: "Dispatcher \<Rightarrow> nat" where
  "steps_left d = 2 * length (waiting d) + length (d_running d)"

definition events_of :: "Dispatcher \<Rightarrow> (HookType \<times> HookEvent) multiset" where
  "events_of d = mset (waiting d) + mset (d_running d) + mset (d_done d)"

definition times_invoked :: "Dispatcher \<Rightarrow> HookType \<Rightarrow> nat" where
  "times_invoked d t = counter_value (MetricsHookInvocationsTotal (d_metrics d)) t"

lemma counter_value_add [simp]:
  "counter_value (counter_add l n m) l' = counter_value m l' + (if l' = l then n else 0)"
  by (simp add: counter_value_def counter_add_def)

lemma invokeHookSync_invocations:
  "counter_value (MetricsHookInvocationsTotal (snd (invokeHookSync typ event hh m))) l =
     counter_value (MetricsHookInvocationsTotal m) l + (if l = typ then 1 else 0)"
  by (simp add: invokeHookSync_def Let_def split: prod.splits option.splits)

lemma postReceiveCallback_metrics:
  "snd (postReceiveCallback event hh m) = snd (invokeHookSync HookPostReceive event hh m)"
  by (simp add: postReceiveCallback_def split: prod.splits)

lemma hook_goroutine_fields [simp]:
  "d_complete (hook_goroutine hh g d) = d_complete d" "d_terminated (hook_goroutine hh g d) = d_terminated d"
  "d_created (hook_goroutine hh g d) = d_created d" "d_progress (hook_goroutine hh g d) = d_progress d"
  "d_running (hook_goroutine hh g d) = d_running d" "d_done (hook_goroutine hh g d) = d_done d @ [g]"
  by (simp_all add: hook_goroutine_def Let_def split: prod.splits)

lemma hook_goroutine_metrics:
  "d_metrics (hook_goroutine hh g d) = snd (invokeHookSync (fst g) (snd g) hh (d_metrics d))"
  by (simp add: hook_goroutine_def invokeHookAsync_def Let_def split: prod.splits)
    (metis postReceiveCallback_metrics snd_conv)

lemma waiting_hook_goroutine [simp]: "waiting (hook_goroutine hh g d) = waiting d"
  by (simp add: waiting_def)

lemma dispatch_steps_left: "dispatch hh d d' \<Longrightarrow> steps_left d = Suc (steps_left d')"
  by (induction rule: dispatch.induct) (simp_all add: steps_left_def waiting_def)

lemma dispatch_events_of: "dispatch hh d d' \<Longrightarrow> events_of d' = events_of d"
  by (induction rule: dispatch.induct) (simp_all add: events_of_def waiting_def)

lemma dispatch_times_invoked:
  "dispatch hh d d' \<Longrightarrow>
     times_invoked d' t + length (filter (\<lambda>g. fst g = t) (d_done d)) =
     times_invoked d t + length (filter (\<lambda>g. fst g = t) (d_done d'))"
  by (induction rule: dispatch.induct)
    (simp_all add: times_invoked_def hook_goroutine_metrics invokeHookSync_invocations)

lemma steps_left_dispatch: "steps_left d > 0 \<Longrightarrow> \<exists>d'. dispatch hh d d'"
proof -
  assume "steps_left d > 0"
  then consider "d_running d \<noteq> []" | "d_complete d \<noteq> []" | "d_terminated d \<noteq> []"
      | "d_created d \<noteq> []" | "d_progress d \<noteq> []"
    by (auto simp: steps_left_def waiting_def)
  then show ?thesis
  proof cases
    case 1
    then obtain g hs where "d_running d = [] @ g # hs"
      by (auto simp: neq_Nil_conv)
    from dispatch.run [OF this] show ?thesis by blast
  qed (auto simp: neq_Nil_conv intro: dispatch.intros)
qed

lemma dispatch_run:
  assumes "(dispatch hh ^^ n) d d'"
  shows "steps_left d = n + steps_left d' \<and> events_of d' = events_of d \<and>
    times_invoked d' t + length (filter (\<lambda>g. fst g = t) (d_done d)) =
    times_invoked d t + length (filter (\<lambda>g. fst g = t) (d_done d'))"
  using assms
proof (induction n arbitrary: d')
  case (Suc n)
  then obtain e where "(dispatch hh ^^ n) d e" and step: "dispatch hh e d'" by auto
  from Suc.IH [OF this(1)] dispatch_steps_left [OF step] dispatch_events_of [OF step]
    dispatch_times_invoked [OF step, of t]
  show ?case by simp
qed simp

lemma steps_left_listening: "steps_left (listening w m) = 2 * length (waiting (listening w m))"
  by (simp add: steps_left_def listening_def)

lemma no_steps_left: "steps_left d = 0 \<Longrightarrow> events_of d = mset (d_done d)"
  by (auto simp: steps_left_def events_of_def)

text \<open>
  Property C34. Every notification reaches its hook, exactly once: however the listening
  goroutine and the goroutines it starts are interleaved, they stop after two steps for each
  event sent, they never stop earlier, and then the hooks that have been invoked are those of
  the events, each as often as it was sent; the counter of each hook has grown by the number
  of its events.
\<close>

theorem notifications_reach_their_hooks:
  assumes "(dispatch hh ^^ n) (listening w m) d"
  shows "n \<le> 2 * length (waiting (listening w m)) \<and>
    (n < 2 * length (waiting (listening w m)) \<longrightarrow> (\<exists>d'. dispatch hh d d')) \<and>
    (n = 2 * length (waiting (listening w m)) \<longrightarrow>
       mset (d_done d) = mset (waiting (listening w m)) \<and>
       times_invoked d t = times_invoked (listening w m) t +
         length (filter (\<lambda>g. fst g = t) (waiting (listening w m))))"
proof -
  let ?s = "listening w m"
  from dispatch_run [OF assms, of t] have left: "2 * length (waiting ?s) = n + steps_left d"
    and ev: "events_of d = mset (waiting ?s)"
    and inv: "times_invoked d t = times_invoked ?s t + length (filter (\<lambda>g. fst g = t) (d_done d))"
    by (simp_all add: steps_left_listening events_of_def) (simp_all add: listening_def)
  have served: "mset (d_done d) = mset (waiting ?s)" if "steps_left d = 0"
    using no_steps_left [OF that] ev by simp
  then have "length (filter (\<lambda>g. fst g = t) (d_done d)) = length (filter (\<lambda>g. fst g = t) (waiting ?s))"
    if "steps_left d = 0"
    using that by (metis mset_filter size_mset)
  with left inv served steps_left_dispatch [of d hh] show ?thesis by auto
qed

subsection \<open>Creation\<close>

text \<open>
  What a request for the creation of an upload that is not a concatenation announces: the
  information that is handed to the pre-create hook, or the error of the checks before it.
\<close>

definition announced :: "('s, 'u, 'l, 'k) UnroutedHandler \<Rightarrow> Request \<Rightarrow> err + FileInfo" where
  "announced h r =
     (if usesIETFDraft h r then draft_info h r
      else case validateNewUploadLengthHeaders h (req_header r ''Upload-Length'')
                  (req_header r ''Upload-Defer-Length'') of
             Inl e \<Rightarrow> Inl e
           | Inr (total_size, deferred) \<Rightarrow>
               if MaxSize (config h) > 0 \<and> total_size > MaxSize (config h)
               then Inl (TusError ErrMaxSizeExceeded)
               else Inr (emptyFileInfo\<lparr>Size := total_size, SizeIsDeferred := deferred,
                           MetaData := ParseMetadataHeader (req_header r ''Upload-Metadata'')\<rparr>))"

text \<open>
  Why a pre-create hook refuses an upload: it failed, or its response rejects the upload, which
  is reported with the details the response gives.
\<close>

definition refusal :: "HookHandler \<Rightarrow> HookEvent \<Rightarrow> err option" where
  "refusal hh event =
     (case InvokeHook hh \<lparr>HookReqType = HookPreCreate, HookReqEvent = event\<rparr> of
        (res, Some e) \<Rightarrow> Some e
      | (res, None) \<Rightarrow>
          if RejectUpload res
          then Some (TusError (with_response ErrUploadRejectedByServer (HookHTTPResponse res)))
          else None)"

lemma preCreateCallback_refusal:
  "snd (snd (fst (preCreateCallback event hh m))) = refusal hh event"
  by (auto simp: preCreateCallback_def invokeHookSync_def refusal_def Let_def split: prod.splits option.splits)

lemma hooks_config_PreCreate:
  "HookPreCreate \<in> set enabled \<Longrightarrow>
     PreUploadCreateCallback (hooks_config hh enabled cfg) =
       Some (\<lambda>event. fst (preCreateCallback event hh noHookMetrics))"
  by (simp add: hooks_config_def Let_def)

lemma validate_PreCreate:
  "validate url_Parse cfg = Inr cfg' \<Longrightarrow> PreUploadCreateCallback cfg' = PreUploadCreateCallback cfg"
  by (auto simp: validate_def Let_def split: sum.splits option.splits if_splits)

lemma NewHandler_handler:
  fixes cfg :: "('s, 'u, 'l, 'k) Config"
  assumes "NewHandler url_Parse cfg = Inr serve"
  obtains h :: "('s, 'u, 'l, 'k) UnroutedHandler"
    and cfg1 where "validate url_Parse cfg = Inr cfg1" "NewUnroutedHandler url_Parse cfg1 = Inr h"
      "serve = ServeHTTP h" "PreUploadCreateCallback (config h) = PreUploadCreateCallback cfg"
proof -
  from assms obtain cfg1 h where v: "validate url_Parse cfg = Inr cfg1"
    and n: "NewUnroutedHandler url_Parse cfg1 = Inr h" and s: "serve = ServeHTTP h"
    by (auto simp: NewHandler_def split: sum.splits)
  from n obtain cfg2 c where "validate url_Parse cfg1 = Inr cfg2" "h = new_handler cfg2 c"
    by (auto simp: NewUnroutedHandler_def split: sum.splits option.splits)
  then have "PreUploadCreateCallback (config h) = PreUploadCreateCallback cfg1"
    by (simp add: validate_PreCreate new_handler_def)
  with that [OF v n s] validate_PreCreate [OF v] show thesis by simp
qed

lemma pre_create_refused:
  assumes "PreUploadCreateCallback (config h) = Some (\<lambda>event. fst (preCreateCallback event hh m))"
    and "refusal hh (newHookEvent c info) = Some e"
  shows "pre_create h c info resp = failE e"
proof -
  obtain res ch where "fst (preCreateCallback (newHookEvent c info) hh m) = (res, ch, Some e)"
    using preCreateCallback_refusal [of "newHookEvent c info" hh m] assms(2)
    by (metis prod.collapse)
  with assms(1) show ?thesis by (simp add: pre_create_def)
qed

lemma bindE_fail [simp]: "bindE (failE e) f = failE e"
  by (intro state.expand) (simp add: fun_eq_iff)

lemma return_bindE [simp]: "bindE (okE x) f = f x"
  by (intro state.expand) (simp add: fun_eq_iff)

lemma liftE_Inr: "liftE (Inr x) = okE x"
  by (simp add: liftE_def okE_def)

lemma return_bind_state [simp]: "State_Monad.bind (failE e) f = f (Inl e)"
  by (simp add: failE_def)

lemma create_upload_refused:
  assumes "PreUploadCreateCallback (config h) = Some (\<lambda>event. fst (preCreateCallback event hh m))"
    and "refusal hh (newHookEvent c info) = Some e"
  shows "create_upload h c r us info = failE e"
  by (simp add: create_upload_def pre_create_refused [OF assms])

lemma post_create_refused:
  assumes cb: "PreUploadCreateCallback (config h) = Some (\<lambda>event. fst (preCreateCallback event hh m))"
    and v1: "\<not> usesIETFDraft h r" and cat: "req_header r ''Upload-Concat'' = []"
    and ann: "announced h r = Inr info" and ref: "refusal hh (newHookEvent c info) = Some e"
  shows "post_create h c r b = failE e"
proof -
  from ann v1 obtain n d where len: "validateNewUploadLengthHeaders h (req_header r ''Upload-Length'')
        (req_header r ''Upload-Defer-Length'') = Inr (n, d)"
    and fits: "\<not> (MaxSize (config h) > 0 \<and> n > MaxSize (config h))"
    and info: "info = emptyFileInfo\<lparr>Size := n, SizeIsDeferred := d,
                 MetaData := ParseMetadataHeader (req_header r ''Upload-Metadata'')\<rparr>"
    by (auto simp: announced_def split: sum.splits if_splits)
  have "emptyFileInfo\<lparr>Size := n, SizeIsDeferred := d,
          MetaData := ParseMetadataHeader (req_header r ''Upload-Metadata''), IsPartial := False,
          IsFinal := False, PartialUploads := []\<rparr> = info"
    by (simp add: info emptyFileInfo_def)
  with create_upload_refused [OF cb ref] show ?thesis
    by (simp add: post_create_def cat parseConcat_def post_size_def len HasPrefix_def fits)
qed

lemma draft_create_refused:
  assumes cb: "PreUploadCreateCallback (config h) = Some (\<lambda>event. fst (preCreateCallback event hh m))"
    and v2: "usesIETFDraft h r" and ann: "announced h r = Inr info"
    and ref: "refusal hh (newHookEvent c info) = Some e"
  shows "draft_create h c r = failE e"
  using ann v2 by (simp add: announced_def draft_create_def liftE_Inr pre_create_refused [OF cb ref])

lemma PostFile_refused:
  assumes cb: "PreUploadCreateCallback (config h) = Some (\<lambda>event. fst (preCreateCallback event hh m))"
    and cat: "req_header r ''Upload-Concat'' = []"
    and ann: "announced h r = Inr info" and ref: "refusal hh (newHookEvent c info) = Some e"
  shows "PostFile h c r = fail_request c e"
  using post_create_refused [OF cb _ cat ann ref] draft_create_refused [OF cb _ ann ref]
  by (simp add: PostFile_def PostFileV2_def)

text \<open>
  Property C33. In a handler with a pre-create hook, a request for a new upload that the hook
  rejects, or for which the hook fails, does nothing but answer with the error: no upload is
  created, nothing is stored or locked and no event is sent. The error of a rejection is
  \<^verbatim>\<open>ErrUploadRejectedByServer\<close> with the response of the hook merged into it. This holds in both
  protocols, for every data store and for every state of the server.
\<close>

theorem rejected_upload_is_not_created:
  fixes cfg :: "('s, 'u, 'l, 'k) Config"
  assumes "NewHandlerWithHooks url_Parse cfg hh enabledHooks = Inr serve"
    and "HookPreCreate \<in> set enabledHooks"
  shows "\<exists>cfg1 (h :: ('s, 'u, 'l, 'k) UnroutedHandler).
    validate url_Parse (hooks_config hh enabledHooks cfg) = Inr cfg1 \<and>
    NewUnroutedHandler url_Parse cfg1 = Inr h \<and> serve = ServeHTTP h \<and>
    (\<forall>c r info e. req_header r ''Upload-Concat'' = [] \<longrightarrow> announced h r = Inr info \<longrightarrow>
       refusal hh (newHookEvent c info) = Some e \<longrightarrow> PostFile h c r = fail_request c e)"
proof -
  from assms(1) have "NewHandler url_Parse (hooks_config hh enabledHooks cfg) = Inr serve"
    by (simp add: NewHandlerWithHooks_def split: option.splits)
  from NewHandler_handler [OF this] obtain h cfg1
    where h: "validate url_Parse (hooks_config hh enabledHooks cfg) = Inr cfg1"
      "NewUnroutedHandler url_Parse cfg1 = Inr h" "serve = ServeHTTP h"
      "PreUploadCreateCallback (config h) = PreUploadCreateCallback (hooks_config hh enabledHooks cfg)"
    by metis
  from h(4) PostFile_refused [of h hh noHookMetrics]
  have "\<forall>c r info e. req_header r ''Upload-Concat'' = [] \<longrightarrow> announced h r = Inr info \<longrightarrow>
       refusal hh (newHookEvent c info) = Some e \<longrightarrow> PostFile h c r = fail_request c e"
    by (auto simp: hooks_config_PreCreate [OF assms(2)])
  with h(1-3) show ?thesis by blast
qed

subsection \<open>Examples\<close>

text \<open>A hook backend that rejects every upload with status 403.\<close>

definition rejecting_hooks :: HookHandler where
  "rejecting_hooks =
     \<lparr>Setup = None,
      InvokeHook = (\<lambda>req. (emptyHookResponse\<lparr>RejectUpload := True,
                             HookHTTPResponse := emptyResponse\<lparr>StatusCode := 403\<rparr>\<rparr>, None))\<rparr>"

definition post_request :: Request where
  "post_request = (plainRequest ''POST'' ''/'')\<lparr>ReqHeader := [(''Upload-Length'', [''5''])]\<rparr>"

definition hooked_config :: "(filesys, fileUpload, unit, unit) Config" where
  "hooked_config = demo_config\<lparr>Composer := Some (composer demo_handler)\<rparr>"

lemma hooked_setup: "Setup rejecting_hooks = None"
  by (simp add: rejecting_hooks_def)

lemma hooked_core: "\<not> Option.is_none (Core (composer demo_handler))"
  by (simp add: demo_handler_def file_handler_def new_handler_def file_composer_def UseIn_def Use_defs)

lemma hooked_handler:
  "\<exists>cfg1 h. validate (\<lambda>_. Inr False) (hooks_config rejecting_hooks [HookPreCreate] hooked_config) = Inr cfg1 \<and>
     NewUnroutedHandler (\<lambda>_. Inr False) cfg1 = Inr h"
  by (simp add: NewUnroutedHandler_def validate_def hooks_config_def hooked_config_def Let_def
      demo_config_def zeroConfig_def hooked_core hook_type_defs split: option.splits)

lemma hooked_announces:
  assumes "validate (\<lambda>_. Inr False) (hooks_config rejecting_hooks [HookPreCreate] hooked_config) = Inr cfg1"
    and "NewUnroutedHandler (\<lambda>_. Inr False) cfg1 = Inr h"
  shows "announced h post_request = Inr (emptyFileInfo\<lparr>Size := 5\<rparr>)"
proof -
  have "EnableExperimentalProtocol cfg1 = False \<and> MaxSize cfg1 = 0"
    using assms(1) by (auto simp: validate_def hooks_config_def hooked_config_def demo_config_def
        zeroConfig_def Let_def split: option.splits if_splits)
  then have "EnableExperimentalProtocol (config h) = False \<and> MaxSize (config h) = 0"
    using assms(2) by (auto simp: NewUnroutedHandler_def validate_def new_handler_def Let_def
        split: option.splits sum.splits if_splits)
  moreover have "req_header post_request ''Upload-Length'' = ''5''"
    "req_header post_request ''Upload-Defer-Length'' = []" "req_header post_request ''Upload-Metadata'' = []"
    "ParseInt ''5'' = Some 5" "ParseMetadataHeader [] = []"
    by code_simp+
  moreover have "emptyFileInfo\<lparr>Size := 5, SizeIsDeferred := False, MetaData := []\<rparr> = emptyFileInfo\<lparr>Size := 5\<rparr>"
    by (simp add: emptyFileInfo_def)
  ultimately show ?thesis
    by (simp add: announced_def usesIETFDraft_def validateNewUploadLengthHeaders_def UploadLengthDeferred_def
        Let_def)
qed

theorem rejected_upload_is_not_created_witness:
  "\<exists>h :: (filesys, fileUpload, unit, unit) UnroutedHandler. PostFile h post_request post_request =
     fail_request post_request (TusError (with_response ErrUploadRejectedByServer
       (emptyResponse\<lparr>StatusCode := 403\<rparr>)))"
proof -
  have "\<exists>serve. NewHandlerWithHooks (\<lambda>_. Inr False) hooked_config rejecting_hooks [HookPreCreate] = Inr serve"
    using hooked_handler by (auto simp: NewHandlerWithHooks_def NewHandler_def hooked_setup)
  then obtain serve where "NewHandlerWithHooks (\<lambda>_. Inr False) hooked_config rejecting_hooks [HookPreCreate] = Inr serve"
    by blast
  from rejected_upload_is_not_created [OF this] obtain cfg1 h
    where "validate (\<lambda>_. Inr False) (hooks_config rejecting_hooks [HookPreCreate] hooked_config) = Inr cfg1"
      "NewUnroutedHandler (\<lambda>_. Inr False) cfg1 = Inr h"
      and post: "\<And>c r info e. req_header r ''Upload-Concat'' = [] \<Longrightarrow> announced h r = Inr info \<Longrightarrow>
        refusal rejecting_hooks (newHookEvent c info) = Some e \<Longrightarrow> PostFile h c r = fail_request c e"
    by auto
  note ann = hooked_announces [OF this(1,2)]
  have "CanonicalHeaderKey ''Upload-Concat'' = ''Upload-Concat''" by code_simp
  then have "req_header post_request ''Upload-Concat'' = []"
    by (simp add: post_request_def header_Get_def)
  from post [OF this ann] show ?thesis
    by (auto simp: refusal_def rejecting_hooks_def emptyHookResponse_def)
qed

definition sent_event :: HookEvent where
  "sent_event = newHookEvent post_request emptyFileInfo"

theorem notifications_reach_their_hooks_witness:
  "\<exists>d. (dispatch rejecting_hooks ^^ 2)
         (listening ((demo_world (demo_fs 4 ''ab''))\<lparr>w_created := [sent_event]\<rparr>) noHookMetrics) d \<and>
       mset (d_done d) = {#(HookPostCreate, sent_event)#} \<and> times_invoked d HookPostCreate = 1"
proof -
  let ?w = "(demo_world (demo_fs 4 ''ab''))\<lparr>w_created := [sent_event]\<rparr>"
  let ?s = "listening ?w noHookMetrics"
  have w: "waiting ?s = [(HookPostCreate, sent_event)]"
    by (simp add: waiting_def listening_def demo_world_def)
  obtain d1 where one: "dispatch rejecting_hooks ?s d1"
    using steps_left_dispatch [of ?s rejecting_hooks] by (auto simp: steps_left_listening w)
  obtain d where two: "dispatch rejecting_hooks d1 d"
    using steps_left_dispatch [of d1 rejecting_hooks] dispatch_steps_left [OF one] by (auto simp: steps_left_listening w)
  have run: "(dispatch rejecting_hooks ^^ 2) ?s d"
    using one two by (auto simp: numeral_2_eq_2)
  have "times_invoked ?s HookPostCreate = 0"
    by (simp add: times_invoked_def listening_def noHookMetrics_def counter_value_def)
  with notifications_reach_their_hooks [OF run, of HookPostCreate] run show ?thesis
    by (intro exI [of _ d]) (simp add: w)
qed

text \<open>
  The checks before the hook differ between the protocols: in the IETF draft neither the
  maximum size nor the sign of the announced length is looked at.
\<close>

definition draft_request :: "string \<Rightarrow> Request" where
  "draft_request len = (plainRequest ''POST'' ''/'')\<lparr>ReqHeader :=
     [(''Upload-Draft-Interop-Version'', [''6'']), (''Upload-Complete'', [''?0'']), (''Upload-Length'', [len])]\<rparr>"

definition limited_handler :: "(unit, unit, unit, unit) UnroutedHandler" where
  "limited_handler = (bare_handler ''/files/'')\<lparr>config :=
     zeroConfig\<lparr>EnableExperimentalProtocol := True, MaxSize := 4\<rparr>\<rparr>"

lemma draft_ignores_max_size:
  "map_sum id Size (announced limited_handler (draft_request ''5'')) = Inr 5"
  "map_sum id Size (announced limited_handler (draft_request ''-5'')) = Inr (-5)"
  "MaxSize (config limited_handler) = 4"
  by code_simp+

end
