(* ===== verification/HookBackends.thy ===== *)
theory HookBackends
  imports Hooks
begin

text \<open>
  The hook backends: programs in a directory (\<^verbatim>\<open>pkg/hooks/file/file.go\<close>), an HTTP endpoint
  (\<^verbatim>\<open>pkg/hooks/http/http.go\<close>) and a gRPC endpoint (\<^verbatim>\<open>pkg/hooks/grpc/grpc.go\<close>). What they
  call is an argument: the encoding of requests and responses as JSON, the run of a program, the
  exchange with the HTTP endpoint (with its retries and its time limit) and the remote call.
\<close>

section \<open>Encoding\<close>

text \<open>
  \<open>Unmarshal\<close> fills a zero response and reports the text of its error, if any.
\<close>

record HookJson =
  Marshal :: "HookRequest \<Rightarrow> err + string"
  Unmarshal :: "string \<Rightarrow> HookResponse \<times> string option"

section \<open>File hooks\<close>

record Cmd =
  CmdPath :: string
  CmdEnv :: "string list"
  CmdDir :: string
  CmdStdin :: string

text \<open>How \<^verbatim>\<open>cmd.Output\<close> fails: the program ended with an exit code, or it could not be run.\<close>

datatype cmd_error = ExitError int | CmdError err

record FileHook =
  Directory :: string

definition file_hook_command :: "string list \<Rightarrow> FileHook \<Rightarrow> HookRequest \<Rightarrow> string \<Rightarrow> Cmd" where
  "file_hook_command environ h req jsonReq =
     (let upload = Upload (HookReqEvent req)
      in \<lparr>CmdPath = Directory h @ ''/'' @ HookReqType req,
          CmdEnv = environ @ [''TUS_ID='' @ ID upload, ''TUS_SIZE='' @ FormatInt (Size upload),
                              ''TUS_OFFSET='' @ FormatInt (Offset upload)],
          CmdDir = Directory h, CmdStdin = jsonReq\<rparr>)"

definition FileHook_InvokeHook ::
  "HookJson \<Rightarrow> string list \<Rightarrow> (Cmd \<Rightarrow> string \<times> cmd_error option) \<Rightarrow> FileHook \<Rightarrow> HookRequest \<Rightarrow>
     HookResponse \<times> err option" where
  "FileHook_InvokeHook json environ Output h req =
     (case Marshal json req of
        Inl e \<Rightarrow> (emptyHookResponse, Some e)
      | Inr jsonReq \<Rightarrow>
          (case Output (file_hook_command environ h req jsonReq) of
             (out, Some (ExitError code)) \<Rightarrow>
               (emptyHookResponse,
                Some (PlainError (''unexpected return code '' @ FormatInt code @ '' from hook endpoint: '' @ out)))
           | (out, Some (CmdError e)) \<Rightarrow>
               (emptyHookResponse, if IsNotExist e then None else Some e)
           | (out, None) \<Rightarrow>
               if length out > 0 then
                 (case Unmarshal json out of
                    (res, Some t) \<Rightarrow>
                      (res, Some (PlainError (''failed to parse hook response: '' @ t @ '', response was: '' @ out)))
                  | (res, None) \<Rightarrow> (res, None))
               else (emptyHookResponse, None)))"

definition file_hooks ::
  "HookJson \<Rightarrow> string list \<Rightarrow> (Cmd \<Rightarrow> string \<times> cmd_error option) \<Rightarrow> FileHook \<Rightarrow> HookHandler" where
  "file_hooks json environ Output h =
     \<lparr>Setup = None, InvokeHook = FileHook_InvokeHook json environ Output h\<rparr>"

section \<open>HTTP hooks\<close>

record HttpHook =
  HookEndpoint :: string
  HookMaxRetries :: int
  HookBackoff :: int
  HookForwardHeaders :: "string list"
  HookTimeout :: int
  SizeLimit :: int
  InsecureSkipVerify :: bool

text \<open>
  The request and the response of the endpoint. The body of the response is what its reads
  return: bytes, possibly with an error.
\<close>

record HookHttpRequest =
  hq_Method :: string
  hq_URL :: string
  hq_Header :: "string list gomap"
  hq_Body :: string

record HookHttpResponse =
  hp_StatusCode :: int
  hp_Header :: "string list gomap"
  hp_Body :: "(bytes \<times> err option) list"

text \<open>\<^verbatim>\<open>io.ReadAll(io.LimitReader(body, n))\<close>: reading ends after \<open>n\<close> bytes, without error.\<close>

fun read_limited :: "int \<Rightarrow> (bytes \<times> err option) list \<Rightarrow> bytes \<times> err option" where
  "read_limited n [] = ([], None)"
| "read_limited n ((bs, e) # reads) =
     (if n \<le> 0 then ([], None)
      else if int (length bs) > n then (take (nat n) bs, None)
      else case e of
             Some x \<Rightarrow> (bs, Some x)
           | None \<Rightarrow> (case read_limited (n - int (length bs)) reads of (rest, e') \<Rightarrow> (bs @ rest, e')))"

definition forward_headers :: "string list \<Rightarrow> string list gomap \<Rightarrow> string list gomap \<Rightarrow> string list gomap" where
  "forward_headers ks src hdr =
     fold (\<lambda>k hdr. case map_of src (CanonicalHeaderKey k) of
                     None \<Rightarrow> hdr | Some vals \<Rightarrow> map_set k vals hdr) ks hdr"

text \<open>
  The client that \<^verbatim>\<open>Setup\<close> makes: how often and after which delay a request is repeated, and the options
  of its transport. Durations are nanoseconds.
\<close>

record HookClient =
  hc_KeepLog :: bool
  hc_MaxRetries :: int
  hc_Backoff :: "int \<Rightarrow> int"
  hc_DialTimeout :: int
  hc_KeepAlive :: int
  hc_ForceAttemptHTTP2 :: bool
  hc_MaxIdleConns :: int
  hc_IdleConnTimeout :: int
  hc_TLSHandshakeTimeout :: int
  hc_ExpectContinueTimeout :: int
  hc_InsecureSkipVerify :: bool

definition HttpHook_Setup :: "HttpHook \<Rightarrow> HookClient" where
  "HttpHook_Setup h =
     \<lparr>hc_KeepLog = True, hc_MaxRetries = HookMaxRetries h, hc_Backoff = (\<lambda>_. HookBackoff h),
      hc_DialTimeout = 30000000000, hc_KeepAlive = 30000000000, hc_ForceAttemptHTTP2 = True, hc_MaxIdleConns = 100,
      hc_IdleConnTimeout = 90000000000, hc_TLSHandshakeTimeout = 10000000000, hc_ExpectContinueTimeout = 1000000000,
      hc_InsecureSkipVerify = InsecureSkipVerify h\<rparr>"

text \<open>
  The parameters of the exchange: \<open>NewRequest\<close> is the error of creating a request for the
  endpoint, \<open>Do\<close> the exchange by the client within a time limit, \<open>MediaType\<close> is \<^verbatim>\<open>mime.ParseMediaType\<close>, with the
  text of its error.
\<close>

record HookTransport =
  NewRequest :: "string \<Rightarrow> err option"
  Do :: "HookClient \<Rightarrow> int \<Rightarrow> HookHttpRequest \<Rightarrow> err + HookHttpResponse"
  MediaType :: "string \<Rightarrow> err + string"

definition http_hook_request :: "HttpHook \<Rightarrow> HookRequest \<Rightarrow> string \<Rightarrow> HookHttpRequest" where
  "http_hook_request h hookReq jsonInfo =
     \<lparr>hq_Method = ''POST'', hq_URL = HookEndpoint h,
      hq_Header = header_Set ''Content-Type'' ''application/json''
        (forward_headers (HookForwardHeaders h) (hr_Header (EventRequest (HookReqEvent hookReq))) []),
      hq_Body = jsonInfo\<rparr>"

definition http_hook_answer ::
  "HookJson \<Rightarrow> HookTransport \<Rightarrow> HttpHook \<Rightarrow> HookHttpResponse \<Rightarrow> HookResponse \<times> err option" where
  "http_hook_answer json tr h httpRes =
     (case read_limited (add64 (SizeLimit h) 1) (hp_Body httpRes) of
        (httpBody, Some e) \<Rightarrow> (emptyHookResponse, Some e)
      | (httpBody, None) \<Rightarrow>
          if hp_StatusCode httpRes < 200 \<or> hp_StatusCode httpRes \<ge> 300 then
            (emptyHookResponse, Some (PlainError (''unexpected response code from hook endpoint ('' @
               FormatInt (hp_StatusCode httpRes) @ ''): '' @ httpBody)))
          else if int (length httpBody) > SizeLimit h then
            (emptyHookResponse, Some (PlainError (''hook response exceeded maximum size of '' @
               FormatInt (SizeLimit h) @ '' bytes'')))
          else
            (let contentType = header_Get (hp_Header httpRes) ''Content-Type''
             in if contentType = [] then
                  (emptyHookResponse, Some (PlainError (''hook response does not contain the '' @ [CHR 0x27] @
                     ''Content-Type: application/json'' @ [CHR 0x27] @ '' header'')))
                else case MediaType tr contentType of
                  Inl e \<Rightarrow> (emptyHookResponse, Some (WrappedError ''failed to parse Content-Type header: '' e))
                | Inr mediaType \<Rightarrow>
                    if mediaType \<noteq> ''application/json'' then
                      (emptyHookResponse, Some (PlainError (''expected hook response Content-Type to be application/json, but got '' @
                         [CHR 0x27] @ contentType @ [CHR 0x27])))
                    else
                      (case Unmarshal json httpBody of
                         (res, Some t) \<Rightarrow> (res, Some (PlainError (''failed to parse hook response: '' @ t)))
                       | (res, None) \<Rightarrow> (res, None))))"

definition HttpHook_InvokeHook ::
  "HookJson \<Rightarrow> HookTransport \<Rightarrow> HttpHook \<Rightarrow> HookRequest \<Rightarrow> HookResponse \<times> err option" where
  "HttpHook_InvokeHook json tr h hookReq =
     (case Marshal json hookReq of
        Inl e \<Rightarrow> (emptyHookResponse, Some e)
      | Inr jsonInfo \<Rightarrow>
          (case NewRequest tr (HookEndpoint h) of
             Some e \<Rightarrow> (emptyHookResponse, Some e)
           | None \<Rightarrow>
               (case Do tr (HttpHook_Setup h) (HookTimeout h) (http_hook_request h hookReq jsonInfo) of
                  Inl e \<Rightarrow> (emptyHookResponse, Some e)
                | Inr httpRes \<Rightarrow> http_hook_answer json tr h httpRes)))"

definition http_hooks :: "HookJson \<Rightarrow> HookTransport \<Rightarrow> HttpHook \<Rightarrow> HookHandler" where
  "http_hooks json tr h = \<lparr>Setup = None, InvokeHook = HttpHook_InvokeHook json tr h\<rparr>"

section \<open>gRPC hooks\<close>

text \<open>The messages of \<^verbatim>\<open>hook.proto\<close>; a message field that is absent is \<open>None\<close>.\<close>

record PbFileInfo =
  pb_Id :: string
  pb_Size :: int
  pb_SizeIsDeferred :: bool
  pb_Offset :: int
  pb_MetaData :: "string gomap"
  pb_IsPartial :: bool
  pb_IsFinal :: bool
  pb_PartialUploads :: "string list"
  pb_Storage :: "string gomap"

record PbHookRequest =
  pb_Type :: string
  pb_Upload :: PbFileInfo
  pb_Method :: string
  pb_Uri :: string
  pb_RemoteAddr :: string
  pb_Header :: "string gomap"

record PbFileInfoChanges =
  pbc_Id :: string
  pbc_MetaData :: "string gomap option"
  pbc_Storage :: "string gomap option"

record PbHookResponse =
  pb_HttpResponse :: "HTTPResponse option"
  pb_RejectUpload :: bool
  pb_ChangeFileInfo :: "PbFileInfoChanges option"
  pb_StopUpload :: bool

record GrpcHook =
  GrpcEndpoint :: string
  GrpcMaxRetries :: int
  GrpcBackoff :: int
  GrpcSecure :: bool
  ServerTLSCertificateFilePath :: string
  ClientTLSCertificateFilePath :: string
  ClientTLSCertificateKeyFilePath :: string
  GrpcForwardHeaders :: "string list"

record GrpcLibrary =
  ReadFile :: "string \<Rightarrow> err option"
  LoadX509KeyPair :: "string \<Rightarrow> string \<Rightarrow> err option"
  GrpcNewClient :: "GrpcHook \<Rightarrow> err option"
  GrpcCall :: "GrpcHook \<Rightarrow> (string \<times> string) list \<Rightarrow> PbHookRequest \<Rightarrow> err + PbHookResponse"

definition GrpcHook_Setup :: "GrpcLibrary \<Rightarrow> GrpcHook \<Rightarrow> err option" where
  "GrpcHook_Setup lib g =
     (case (if GrpcSecure g then
              (if ServerTLSCertificateFilePath g = [] then
                 Some (PlainError ''hooks-grpc-secure was set to true but no gRPC server TLS certificate file was provided. A value for hooks-grpc-server-tls-certificate is missing'')
               else case ReadFile lib (ServerTLSCertificateFilePath g) of
                 Some e \<Rightarrow> Some e
               | None \<Rightarrow>
                   if ClientTLSCertificateFilePath g \<noteq> [] \<and> ClientTLSCertificateKeyFilePath g \<noteq> []
                   then LoadX509KeyPair lib (ClientTLSCertificateFilePath g) (ClientTLSCertificateKeyFilePath g)
                   else None)
            else None) of
        Some e \<Rightarrow> Some e
      | None \<Rightarrow> GrpcNewClient lib g)"

definition getHeader :: "string list gomap \<Rightarrow> string gomap" where
  "getHeader httpHeader =
     fold (\<lambda>(key, val) hookHeader.
             case val of
               v # vs \<Rightarrow> if key \<noteq> [] then map_set key v hookHeader else hookHeader
             | [] \<Rightarrow> hookHeader) httpHeader []"

definition pb_marshal :: "HookRequest \<Rightarrow> PbHookRequest" where
  "pb_marshal hookReq =
     (let event = HookReqEvent hookReq; upload = Upload event; req = EventRequest event
      in \<lparr>pb_Type = HookReqType hookReq,
          pb_Upload = \<lparr>pb_Id = ID upload, pb_Size = Size upload, pb_SizeIsDeferred = SizeIsDeferred upload,
             pb_Offset = Offset upload, pb_MetaData = MetaData upload, pb_IsPartial = IsPartial upload,
             pb_IsFinal = IsFinal upload, pb_PartialUploads = PartialUploads upload, pb_Storage = Storage upload\<rparr>,
          pb_Method = hr_Method req, pb_Uri = hr_URI req, pb_RemoteAddr = hr_RemoteAddr req,
          pb_Header = getHeader (hr_Header req)\<rparr>)"

definition pb_unmarshal :: "PbHookResponse \<Rightarrow> HookResponse" where
  "pb_unmarshal res =
     (let r1 = emptyHookResponse\<lparr>RejectUpload := pb_RejectUpload res, HookStopUpload := pb_StopUpload res\<rparr>;
          r2 = (case pb_HttpResponse res of None \<Rightarrow> r1 | Some httpRes \<Rightarrow> r1\<lparr>HookHTTPResponse := httpRes\<rparr>)
      in case pb_ChangeFileInfo res of
           None \<Rightarrow> r2
         | Some changes \<Rightarrow>
             r2\<lparr>ChangeFileInfo := \<lparr>ch_ID = pbc_Id changes, ch_MetaData = pbc_MetaData changes,
                                   ch_Storage = pbc_Storage changes\<rparr>\<rparr>)"

definition grpc_metadata :: "string list \<Rightarrow> string list gomap \<Rightarrow> (string \<times> string) list" where
  "grpc_metadata hs hdr =
     concat (map (\<lambda>h. let value = header_Get hdr h in if value \<noteq> [] then [(h, value)] else []) hs)"

definition GrpcHook_InvokeHook :: "GrpcLibrary \<Rightarrow> GrpcHook \<Rightarrow> HookRequest \<Rightarrow> HookResponse \<times> err option" where
  "GrpcHook_InvokeHook lib g hookReq =
     (case GrpcCall lib g
             (grpc_metadata (GrpcForwardHeaders g) (hr_Header (EventRequest (HookReqEvent hookReq))))
             (pb_marshal hookReq) of
        Inl e \<Rightarrow> (emptyHookResponse, Some e)
      | Inr res \<Rightarrow> (pb_unmarshal res, None))"

definition grpc_hooks :: "GrpcLibrary \<Rightarrow> GrpcHook \<Rightarrow> HookHandler" where
  "grpc_hooks lib g = \<lparr>Setup = GrpcHook_Setup lib g, InvokeHook = GrpcHook_InvokeHook lib g\<rparr>"

section \<open>Facts\<close>

text \<open>A body that ends below the limit has been read in full, and without an error.\<close>

lemma read_limited_whole:
  assumes "read_limited n reads = (bs, None)" and "int (length bs) < n"
  shows "bs = concat (map fst reads) \<and> list_all (\<lambda>p. snd p = None) reads"
  using assms
proof (induction n reads arbitrary: bs rule: read_limited.induct)
  case (2 n chunk e reads)
  from "2.prems" have pos: "\<not> n \<le> 0" by auto
  with "2.prems" have fits: "\<not> int (length chunk) > n" by (auto split: if_splits)
  with pos "2.prems"(1) have e: "e = None" by (auto split: option.splits)
  obtain rest e' where r: "read_limited (n - int (length chunk)) reads = (rest, e')" by fastforce
  with "2.prems" pos fits e have "e' = None" "bs = chunk @ rest" by auto
  with "2.IH" [OF pos fits e, of rest] r "2.prems"(2) e show ?case by simp
qed simp

lemma http_hook_answer_ok:
  assumes ok: "http_hook_answer json tr h httpRes = (res, None)"
    and lim: "is_int64 (SizeLimit h + 1)"
  shows "200 \<le> hp_StatusCode httpRes \<and> hp_StatusCode httpRes < 300 \<and>
    list_all (\<lambda>p. snd p = None) (hp_Body httpRes) \<and>
    int (length (concat (map fst (hp_Body httpRes)))) \<le> SizeLimit h \<and>
    MediaType tr (header_Get (hp_Header httpRes) ''Content-Type'') = Inr ''application/json'' \<and>
    Unmarshal json (concat (map fst (hp_Body httpRes))) = (res, None)"
proof -
  from ok obtain body where read: "read_limited (add64 (SizeLimit h) 1) (hp_Body httpRes) = (body, None)"
    and small: "int (length body) \<le> SizeLimit h"
    and rest: "200 \<le> hp_StatusCode httpRes" "hp_StatusCode httpRes < 300"
      "MediaType tr (header_Get (hp_Header httpRes) ''Content-Type'') = Inr ''application/json''"
      "Unmarshal json body = (res, None)"
    by (auto simp: http_hook_answer_def Let_def split: prod.splits option.splits sum.splits if_splits)
  have "body = concat (map fst (hp_Body httpRes)) \<and> list_all (\<lambda>p. snd p = None) (hp_Body httpRes)"
    using read small by (intro read_limited_whole) (simp_all add: add64_id [OF lim], linarith)
  with small rest show ?thesis by simp
qed

text \<open>A file hook that does not exist changes nothing and rejects nothing.\<close>

lemma missing_file_hook_ignored:
  assumes "Marshal json req = Inr j" and "IsNotExist e"
    and "Output (file_hook_command environ h req j) = (out, Some (CmdError e))"
  shows "InvokeHook (file_hooks json environ Output h) req = (emptyHookResponse, None)"
  using assms by (simp add: file_hooks_def FileHook_InvokeHook_def)

text \<open>
  Property C35. A response is taken from an HTTP hook only when the endpoint answered with a
  status of the class 2xx and the media type \<^verbatim>\<open>application/json\<close>, when its body was received in
  full, without an error, and has at most \<^verbatim>\<open>SizeLimit\<close> bytes; then the response is the one
  the whole body encodes. In particular no body that was cut off is ever decoded.
\<close>

theorem http_hook_response_is_complete:
  assumes "InvokeHook (http_hooks json tr h) req = (res, None)"
    and "is_int64 (SizeLimit h + 1)"
  shows "\<exists>jsonInfo httpRes. Marshal json req = Inr jsonInfo \<and>
    Do tr (HttpHook_Setup h) (HookTimeout h) (http_hook_request h req jsonInfo) = Inr httpRes \<and>
    200 \<le> hp_StatusCode httpRes \<and> hp_StatusCode httpRes < 300 \<and>
    list_all (\<lambda>p. snd p = None) (hp_Body httpRes) \<and>
    int (length (concat (map fst (hp_Body httpRes)))) \<le> SizeLimit h \<and>
    MediaType tr (header_Get (hp_Header httpRes) ''Content-Type'') = Inr ''application/json'' \<and>
    Unmarshal json (concat (map fst (hp_Body httpRes))) = (res, None)"
proof -
  from assms(1) obtain jsonInfo httpRes where sent: "Marshal json req = Inr jsonInfo"
      "Do tr (HttpHook_Setup h) (HookTimeout h) (http_hook_request h req jsonInfo) = Inr httpRes"
    and ok: "http_hook_answer json tr h httpRes = (res, None)"
    by (auto simp: http_hooks_def HttpHook_InvokeHook_def split: sum.splits option.splits)
  from sent http_hook_answer_ok [OF ok assms(2)] show ?thesis by blast
qed

text \<open>An endpoint that accepts everything.\<close>

definition accepting_json :: HookJson where
  "accepting_json = \<lparr>Marshal = (\<lambda>_. Inr ''{}''), Unmarshal = (\<lambda>_. (emptyHookResponse, None))\<rparr>"

definition accepting_endpoint :: HookTransport where
  "accepting_endpoint =
     \<lparr>NewRequest = (\<lambda>_. None),
      Do = (\<lambda>_ _ _. Inr \<lparr>hp_StatusCode = 200, hp_Header = [(''Content-Type'', [''application/json''])],
                       hp_Body = [(''{'', None), (''}'', None)]\<rparr>),
      MediaType = Inr\<rparr>"

definition demo_http_hook :: HttpHook where
  "demo_http_hook =
     \<lparr>HookEndpoint = ''http://localhost'', HookMaxRetries = 3, HookBackoff = 1, HookForwardHeaders = [],
      HookTimeout = 15, SizeLimit = 5120, InsecureSkipVerify = False\<rparr>"

theorem http_hook_response_is_complete_witness:
  "InvokeHook (http_hooks accepting_json accepting_endpoint demo_http_hook)
     \<lparr>HookReqType = HookPreCreate, HookReqEvent = sent_event\<rparr> = (emptyHookResponse, None) \<and>
   (\<exists>httpRes. Do accepting_endpoint (HttpHook_Setup demo_http_hook) 15 (http_hook_request demo_http_hook
        \<lparr>HookReqType = HookPreCreate, HookReqEvent = sent_event\<rparr> ''{}'') = Inr httpRes \<and>
      int (length (concat (map fst (hp_Body httpRes)))) \<le> 5120)"
proof -
  have ct: "CanonicalHeaderKey ''Content-Type'' = ''Content-Type''" by code_simp
  have lim: "is_int64 (SizeLimit demo_http_hook + 1)" "add64 5120 1 = 5121"
    by (simp_all add: demo_http_hook_def is_int64_def add64_def wrap64_def MinInt64_def MaxInt64_def)
  have ok: "InvokeHook (http_hooks accepting_json accepting_endpoint demo_http_hook)
     \<lparr>HookReqType = HookPreCreate, HookReqEvent = sent_event\<rparr> = (emptyHookResponse, None)"
    using lim by (simp add: http_hooks_def HttpHook_InvokeHook_def http_hook_answer_def accepting_json_def
        accepting_endpoint_def demo_http_hook_def header_Get_def ct Let_def)
  from http_hook_response_is_complete [OF ok lim(1)] ok show ?thesis
    by (auto simp: accepting_json_def demo_http_hook_def)
qed

text \<open>
  Property C36. A gRPC hook has no means to reject the termination of an upload: whatever the
  endpoint answers, the pre-terminate callback reports no error, so that the upload is
  terminated; it reports an error only when the call itself fails. The message
  \<^verbatim>\<open>HookResponse\<close> has no field for \<^verbatim>\<open>RejectTermination\<close>, and \<^verbatim>\<open>unmarshal\<close> leaves it false.
\<close>

theorem grpc_hooks_cannot_reject_terminations:
  "fst (preTerminateCallback event (grpc_hooks lib g) m) =
     (case GrpcCall lib g (grpc_metadata (GrpcForwardHeaders g) (hr_Header (EventRequest event)))
             (pb_marshal \<lparr>HookReqType = HookPreTerminate, HookReqEvent = event\<rparr>) of
        Inl e \<Rightarrow> (emptyResponse, Some e)
      | Inr res \<Rightarrow> (case pb_HttpResponse res of None \<Rightarrow> emptyResponse | Some x \<Rightarrow> x, None))"
  by (simp add: preTerminateCallback_def invokeHookSync_def grpc_hooks_def GrpcHook_InvokeHook_def
      pb_unmarshal_def emptyHookResponse_def Let_def split: sum.splits option.splits)

end
