(* ===== verification/PluginHooks.thy ===== *)
theory PluginHooks
  imports Hooks
begin

text \<open>
  Hooks in a plugin (\<^verbatim>\<open>pkg/hooks/plugin/plugin.go\<close>): a program that tusd starts and calls over RPC.
  Both ends of the connection are here, the client that tusd uses as hook backend and the
  server that runs in the plugin before its hooks, with the rules of Go's \<^verbatim>\<open>net/rpc\<close> between them.
  The start of the program and the connection are arguments. It is shown which hooks tusd sees.
\<close>

section \<open>Calls\<close>

text \<open>
  The arguments and replies of the two methods. A client answers a call with the reply, when it has
  received one, and an error.
\<close>

datatype rpc_args = SetupArgs | InvokeArgs HookRequest

datatype rpc_reply = SetupReply | InvokeReply HookResponse

type_synonym RpcClient = "string \<Rightarrow> rpc_args \<Rightarrow> rpc_reply option \<times> err option"

text \<open>
  The request as it is sent. The context is emptied, and the encoding leaves out what is not
  exported, the function that stops the upload.
\<close>

definition sent_request :: "HookRequest \<Rightarrow> HookRequest" where
  "sent_request req =
     req\<lparr>HookReqEvent := (HookReqEvent req)\<lparr>Upload := (Upload (HookReqEvent req))\<lparr>hasStop := False\<rparr>\<rparr>\<rparr>"

definition HookHandlerRPC_Setup :: "RpcClient \<Rightarrow> err option" where
  "HookHandlerRPC_Setup client = snd (client ''Plugin.Setup'' SetupArgs)"

definition HookHandlerRPC_InvokeHook :: "RpcClient \<Rightarrow> HookRequest \<Rightarrow> HookResponse \<times> err option" where
  "HookHandlerRPC_InvokeHook client req =
     (case client ''Plugin.InvokeHook'' (InvokeArgs (sent_request req)) of
        (Some (InvokeReply res), e) \<Rightarrow> (res, e)
      | (reply, e) \<Rightarrow> (emptyHookResponse, e))"

text \<open>The server in the plugin: the reply and the error of each method.\<close>

definition HookHandlerRPCServer_Setup :: "HookHandler \<Rightarrow> rpc_reply \<times> err option" where
  "HookHandlerRPCServer_Setup impl = (SetupReply, Setup impl)"

definition HookHandlerRPCServer_InvokeHook :: "HookHandler \<Rightarrow> HookRequest \<Rightarrow> rpc_reply \<times> err option" where
  "HookHandlerRPCServer_InvokeHook impl args =
     (case InvokeHook impl args of (res, e) \<Rightarrow> (InvokeReply res, e))"

text \<open>
  \<^verbatim>\<open>net/rpc\<close>: the text of an error is sent in place of the reply, and the client makes an error
  of it. The empty text stands for no error.
\<close>

definition rpc_answer :: "rpc_reply \<times> err option \<Rightarrow> rpc_reply option \<times> err option" where
  "rpc_answer a =
     (case a of
        (reply, None) \<Rightarrow> (Some reply, None)
      | (reply, Some e) \<Rightarrow> if err_text e = [] then (Some reply, None) else (None, Some (PlainError (err_text e))))"

text \<open>The plugin's \<^verbatim>\<open>Server\<close> and \<^verbatim>\<open>Client\<close>, which the library connects.\<close>

definition HookHandlerPlugin_Server :: "HookHandler \<Rightarrow> RpcClient" where
  "HookHandlerPlugin_Server impl method args =
     (case args of
        SetupArgs \<Rightarrow>
          if method = ''Plugin.Setup'' then rpc_answer (HookHandlerRPCServer_Setup impl)
          else (None, Some (PlainError (''rpc: can'' @ [CHR 0x27] @ ''t find method '' @ method)))
      | InvokeArgs req \<Rightarrow>
          if method = ''Plugin.InvokeHook'' then rpc_answer (HookHandlerRPCServer_InvokeHook impl req)
          else (None, Some (PlainError (''rpc: can'' @ [CHR 0x27] @ ''t find method '' @ method))))"

definition HookHandlerPlugin_Client :: "RpcClient \<Rightarrow> HookHandler" where
  "HookHandlerPlugin_Client c = \<lparr>Setup = HookHandlerRPC_Setup c, InvokeHook = HookHandlerRPC_InvokeHook c\<rparr>"

section \<open>The backend\<close>

record ClientConfig =
  ProtocolVersion :: int
  MagicCookieKey :: string
  MagicCookieValue :: string
  PluginNames :: "string list"
  PluginCmd :: string
  Managed :: bool
  JSONFormat :: bool

record PluginHook =
  PluginPath :: string
  JSONLogFormat :: bool
  handlerImpl :: "HookHandler option"

text \<open>
  Starting a plugin gives its method \<^verbatim>\<open>Dispense\<close>, which connects to one of the names that the
  plugin serves.
\<close>

record PluginLibrary =
  StartPlugin :: "ClientConfig \<Rightarrow> err + (string \<Rightarrow> err + RpcClient)"

definition plugin_config :: "PluginHook \<Rightarrow> ClientConfig" where
  "plugin_config h =
     \<lparr>ProtocolVersion = 1, MagicCookieKey = ''TUSD_PLUGIN'', MagicCookieValue = ''yes'',
      PluginNames = [''hookHandler''], PluginCmd = PluginPath h, Managed = True, JSONFormat = JSONLogFormat h\<rparr>"

text \<open>A left value is the text with which \<^verbatim>\<open>log.Fatal\<close> ends the program.\<close>

definition PluginHook_Setup :: "PluginLibrary \<Rightarrow> PluginHook \<Rightarrow> string + err option \<times> PluginHook" where
  "PluginHook_Setup lib h =
     (case StartPlugin lib (plugin_config h) of
        Inl e \<Rightarrow> Inl (err_text e)
      | Inr dispense \<Rightarrow>
          (case dispense ''hookHandler'' of
             Inl e \<Rightarrow> Inl (err_text e)
           | Inr raw \<Rightarrow>
               (let impl = HookHandlerPlugin_Client raw in Inr (Setup impl, h\<lparr>handlerImpl := Some impl\<rparr>))))"

definition PluginHook_InvokeHook :: "PluginHook \<Rightarrow> HookRequest \<Rightarrow> HookResponse \<times> err option" where
  "PluginHook_InvokeHook h req =
     (case handlerImpl h of
        None \<Rightarrow> (emptyHookResponse, Some (Panic ''nil pointer dereference''))
      | Some impl \<Rightarrow> InvokeHook impl req)"

text \<open>The backend with the outcome of its \<^verbatim>\<open>Setup\<close>.\<close>

definition plugin_hooks :: "PluginLibrary \<Rightarrow> PluginHook \<Rightarrow> string + HookHandler" where
  "plugin_hooks lib h =
     (case PluginHook_Setup lib h of
        Inl t \<Rightarrow> Inl t
      | Inr (e, h1) \<Rightarrow> Inr \<lparr>Setup = e, InvokeHook = PluginHook_InvokeHook h1\<rparr>)"

section \<open>Which hooks tusd sees\<close>

text \<open>The hooks of the plugin behind the connection.\<close>

definition behind_rpc :: "HookHandler \<Rightarrow> HookHandler" where
  "behind_rpc impl =
     \<lparr>Setup = (case Setup impl of None \<Rightarrow> None
                | Some e \<Rightarrow> if err_text e = [] then None else Some (PlainError (err_text e))),
      InvokeHook = (\<lambda>req.
        case InvokeHook impl (sent_request req) of
          (res, None) \<Rightarrow> (res, None)
        | (res, Some e) \<Rightarrow>
            if err_text e = [] then (res, None) else (emptyHookResponse, Some (PlainError (err_text e))))\<rparr>"

text \<open>The library starts the program and connects to its hooks.\<close>

definition serves :: "PluginLibrary \<Rightarrow> PluginHook \<Rightarrow> HookHandler \<Rightarrow> bool" where
  "serves lib h impl \<longleftrightarrow>
     (\<exists>dispense. StartPlugin lib (plugin_config h) = Inr dispense \<and>
        dispense ''hookHandler'' = Inr (HookHandlerPlugin_Server impl))"

lemma client_of_server: "HookHandlerPlugin_Client (HookHandlerPlugin_Server impl) = behind_rpc impl"
  by (auto simp: HookHandlerPlugin_Client_def HookHandlerPlugin_Server_def behind_rpc_def HookHandlerRPC_Setup_def
      HookHandlerRPC_InvokeHook_def HookHandlerRPCServer_Setup_def HookHandlerRPCServer_InvokeHook_def rpc_answer_def
      fun_eq_iff split: option.splits prod.splits)

lemma plugin_hooks_served: "serves lib h impl \<Longrightarrow> plugin_hooks lib h = Inr (behind_rpc impl)"
  by (auto simp: serves_def plugin_hooks_def PluginHook_Setup_def client_of_server PluginHook_InvokeHook_def fun_eq_iff
      behind_rpc_def [of impl] intro!: HookHandler.equality)

text \<open>
  Hooks that do not fail and do not look at the function that was left out, which they cannot,
  are called as if they were part of tusd.
\<close>

definition good_hooks :: "HookHandler \<Rightarrow> bool" where
  "good_hooks impl \<longleftrightarrow> Setup impl = None \<and>
     (\<forall>req. snd (InvokeHook impl req) = None \<and> InvokeHook impl (sent_request req) = InvokeHook impl req)"

lemma behind_good_hooks:
  assumes "good_hooks impl"
  shows "behind_rpc impl = impl"
proof -
  have "InvokeHook (behind_rpc impl) req = InvokeHook impl req" for req
    using assms by (cases "InvokeHook impl req") (auto simp: good_hooks_def behind_rpc_def dest: spec [of _ req])
  moreover have "Setup (behind_rpc impl) = Setup impl" using assms by (simp add: good_hooks_def behind_rpc_def)
  ultimately show ?thesis by (intro HookHandler.equality) (auto simp: fun_eq_iff)
qed

text \<open>What invoking such a hook gives: its response, or the text of its error.\<close>

lemma invoke_behind_rpc:
  assumes "InvokeHook impl (sent_request \<lparr>HookReqType = typ, HookReqEvent = event\<rparr>) = (res, e)"
  shows "fst (invokeHookSync typ event (behind_rpc impl) m) =
    (case e of
       None \<Rightarrow> (True, res, None)
     | Some x \<Rightarrow> if err_text x = [] then (True, res, None) else (False, emptyHookResponse, Some (PlainError (err_text x))))"
  using assms by (auto simp: invokeHookSync_def behind_rpc_def Let_def split: option.splits)

lemma plain_error_status: "StatusCode (HTTPResp (detailedErr c (PlainError t))) = 500"
  by (simp add: detailedErr_def NewError_def Let_def)

text \<open>
  Property C37. The hooks of a plugin act like hooks inside of tusd: when they do not fail, the
  handler with the plugin is the handler with these hooks. When a hook fails, its response is
  dropped, and of its error only the text arrives, so that the request is answered with the status
  500, whichever status the error had; an error without a text is not noticed at all.
\<close>

theorem plugin_hooks_are_transparent:
  assumes "serves lib h impl" "InvokeHook impl (sent_request \<lparr>HookReqType = typ, HookReqEvent = event\<rparr>) = (res, e)"
  shows "\<exists>hh. plugin_hooks lib h = Inr hh \<and>
    fst (invokeHookSync typ event hh m) =
      (case e of
         None \<Rightarrow> (True, res, None)
       | Some x \<Rightarrow> if err_text x = [] then (True, res, None) else (False, emptyHookResponse, Some (PlainError (err_text x)))) \<and>
    (\<forall>x. StatusCode (HTTPResp (detailedErr c (PlainError (err_text x)))) = 500) \<and>
    (good_hooks impl \<longrightarrow> NewHandlerWithHooks url_Parse cfg hh enabled = NewHandlerWithHooks url_Parse cfg impl enabled)"
  using plugin_hooks_served [OF assms(1)] invoke_behind_rpc [OF assms(2)] behind_good_hooks [of impl]
  by (simp add: plain_error_status)

text \<open>A plugin whose hooks fail with the error that an upload is not found.\<close>

definition failing_hooks :: HookHandler where
  "failing_hooks = \<lparr>Setup = None, InvokeHook = (\<lambda>req. (emptyHookResponse, Some (TusError ErrNotFound)))\<rparr>"

definition demo_plugins :: "HookHandler \<Rightarrow> PluginLibrary" where
  "demo_plugins impl =
     \<lparr>StartPlugin = (\<lambda>cfg. Inr (\<lambda>name.
        if List.member (PluginNames cfg) name then Inr (HookHandlerPlugin_Server impl)
        else Inl (PlainError (''unknown plugin type: '' @ name))))\<rparr>"

definition demo_plugin :: PluginHook where
  "demo_plugin = \<lparr>PluginPath = ''./hooks'', JSONLogFormat = False, handlerImpl = None\<rparr>"

theorem plugin_hooks_are_transparent_witness:
  "\<exists>hh. plugin_hooks (demo_plugins failing_hooks) demo_plugin = Inr hh \<and>
    fst (invokeHookSync HookPreCreate (newHookEvent post_request emptyFileInfo) hh noHookMetrics) =
      (False, emptyHookResponse, Some (PlainError (Error_text ErrNotFound))) \<and>
    StatusCode (HTTPResp (detailedErr post_request (PlainError (Error_text ErrNotFound)))) = 500 \<and>
    StatusCode (HTTPResp (detailedErr post_request (TusError ErrNotFound))) = 404"
proof -
  have "serves (demo_plugins failing_hooks) demo_plugin failing_hooks"
    by (simp add: serves_def demo_plugins_def plugin_config_def)
  moreover have "InvokeHook failing_hooks (sent_request \<lparr>HookReqType = HookPreCreate, HookReqEvent = newHookEvent post_request emptyFileInfo\<rparr>) =
      (emptyHookResponse, Some (TusError ErrNotFound))"
    by (simp add: failing_hooks_def)
  moreover have "Error_text ErrNotFound \<noteq> []" by (simp add: Error_text_def ErrNotFound_def NewError_def)
  moreover have "StatusCode (HTTPResp (detailedErr post_request (TusError ErrNotFound))) = 404"
    by (simp add: detailedErr_def ErrNotFound_def NewError_def Let_def)
  ultimately show ?thesis
    using plugin_hooks_are_transparent [of "demo_plugins failing_hooks" demo_plugin failing_hooks HookPreCreate
        "newHookEvent post_request emptyFileInfo" _ _ noHookMetrics post_request]
    by (fastforce simp: plain_error_status)
qed

end
