(* ===== verification/Cli.thy ===== *)
theory Cli
  imports MemoryLocker FileLocker S3Log GCSStore AzureStore HookBackends PluginHooks
begin

text \<open>
  The set-up of the server by the command line (\<^verbatim>\<open>cmd/tusd/cli\<close>): the flags with their
  defaults, the selected hooks (\<^verbatim>\<open>flags.go\<close>), the choice of the data store and the locker
  (\<^verbatim>\<open>composer.go\<close>), of the hook backend (\<^verbatim>\<open>hooks.go\<close>), the configuration of the handler and its
  routes (\<^verbatim>\<open>serve.go\<close>) and the socket (\<^verbatim>\<open>listener.go\<close>). A call of \<^verbatim>\<open>stderr.Fatalf\<close> ends the
  program; it is the left value with the printed text. What is printed otherwise is left out.
\<close>

section \<open>Flags\<close>

record Flags =
  HttpHost :: string
  HttpPort :: string
  HttpSock :: string
  EnableH2C :: bool
  fMaxSize :: int
  UploadDir :: string
  Basepath :: string
  ShowGreeting :: bool
  fDisableDownload :: bool
  fDisableTermination :: bool
  fDisableConcatenation :: bool
  DisableCors :: bool
  CorsAllowOrigin :: string
  CorsAllowCredentials :: bool
  CorsAllowMethods :: string
  CorsAllowHeaders :: string
  CorsMaxAge :: string
  CorsExposeHeaders :: string
  fNetworkTimeout :: int
  S3Bucket :: string
  S3ObjectPrefix :: string
  S3Endpoint :: string
  S3MinPartSize :: int
  S3PartSize :: int
  S3MaxBufferedParts :: int
  S3DisableContentHashes :: bool
  S3DisableSSL :: bool
  S3ConcurrentPartUploads :: int
  S3LogAPICalls :: bool
  GCSBucket :: string
  GCSObjectPrefix :: string
  GCSEndpoint :: string
  AzStorage :: string
  AzContainerAccessType :: string
  AzBlobAccessTier :: string
  AzObjectPrefix :: string
  AzEndpoint :: string
  EnabledHooksString :: string
  PluginHookPath :: string
  FileHooksDir :: string
  HttpHooksEndpoint :: string
  HttpHooksForwardHeaders :: string
  HttpHooksRetry :: int
  HttpHooksBackoff :: int
  HttpHooksTimeout :: int
  HttpHooksSizeLimit :: int
  HttpHooksInsecureSkipVerify :: bool
  GrpcHooksEndpoint :: string
  GrpcHooksRetry :: int
  GrpcHooksBackoff :: int
  GrpcHooksSecure :: bool
  GrpcHooksServerTLSCertFile :: string
  GrpcHooksClientTLSCertFile :: string
  GrpcHooksClientTLSKeyFile :: string
  GrpcHooksForwardHeaders :: string
  EnabledHooks :: "HookType list"
  ProgressHooksInterval :: int
  ShowVersion :: bool
  ExposeMetrics :: bool
  MetricsPath :: string
  ExposePprof :: bool
  PprofPath :: string
  PprofBlockProfileRate :: int
  PprofMutexProfileRate :: int
  BehindProxy :: bool
  VerboseOutput :: bool
  ShowStartupLogs :: bool
  LogFormat :: string
  S3TransferAcceleration :: bool
  TLSCertFile :: string
  TLSKeyFile :: string
  TLSMode :: string
  ShutdownTimeout :: int
  fAcquireLockTimeout :: int
  FilelockHolderPollInterval :: int
  FilelockAcquirerPollInterval :: int
  FilePerms :: int
  DirPerms :: int
  fGracefulRequestCompletionTimeout :: int
  ExperimentalProtocol :: bool

text \<open>The flags when none is given. Durations are nanoseconds.\<close>

definition defaultFlags :: Flags where
  "defaultFlags =
     \<lparr>HttpHost = ''0.0.0.0'', HttpPort = ''8080'', HttpSock = [], EnableH2C = False, fMaxSize = 0,
      UploadDir = ''./data'', Basepath = ''/files/'', ShowGreeting = True, fDisableDownload = False,
      fDisableTermination = False, fDisableConcatenation = False, DisableCors = False,
      CorsAllowOrigin = ''.*'', CorsAllowCredentials = False, CorsAllowMethods = [],
      CorsAllowHeaders = [], CorsMaxAge = ''86400'', CorsExposeHeaders = [],
      fNetworkTimeout = 60000000000, S3Bucket = [], S3ObjectPrefix = [], S3Endpoint = [],
      S3MinPartSize = 5 * 1024 * 1024, S3PartSize = 50 * 1024 * 1024, S3MaxBufferedParts = 20,
      S3DisableContentHashes = False, S3DisableSSL = False, S3ConcurrentPartUploads = 10,
      S3LogAPICalls = False, GCSBucket = [], GCSObjectPrefix = [], GCSEndpoint = [],
      AzStorage = [], AzContainerAccessType = [], AzBlobAccessTier = [], AzObjectPrefix = [],
      AzEndpoint = [],
      EnabledHooksString = ''pre-create,post-create,post-receive,post-terminate,post-finish'',
      PluginHookPath = [], FileHooksDir = [], HttpHooksEndpoint = [], HttpHooksForwardHeaders = [],
      HttpHooksRetry = 3, HttpHooksBackoff = 1000000000, HttpHooksTimeout = 15000000000,
      HttpHooksSizeLimit = 5 * 1024, HttpHooksInsecureSkipVerify = False, GrpcHooksEndpoint = [],
      GrpcHooksRetry = 3, GrpcHooksBackoff = 1000000000, GrpcHooksSecure = False,
      GrpcHooksServerTLSCertFile = [], GrpcHooksClientTLSCertFile = [],
      GrpcHooksClientTLSKeyFile = [], GrpcHooksForwardHeaders = [], EnabledHooks = [],
      ProgressHooksInterval = 1000000000, ShowVersion = False, ExposeMetrics = True,
      MetricsPath = ''/metrics'', ExposePprof = False, PprofPath = ''/debug/pprof/'',
      PprofBlockProfileRate = 0, PprofMutexProfileRate = 0, BehindProxy = False,
      VerboseOutput = True, ShowStartupLogs = True, LogFormat = ''text'',
      S3TransferAcceleration = False, TLSCertFile = [], TLSKeyFile = [], TLSMode = ''tls12'',
      ShutdownTimeout = 10000000000, fAcquireLockTimeout = 20000000000,
      FilelockHolderPollInterval = 5000000000, FilelockAcquirerPollInterval = 2000000000,
      FilePerms = 436, DirPerms = 509, fGracefulRequestCompletionTimeout = 10000000000,
      ExperimentalProtocol = False\<rparr>"

text \<open>
  The loop over the listed hooks. The trimmed name is stored in the slice, but the name as it
  was written is the one that is looked up and enabled.
\<close>

fun enable_hooks :: "string list \<Rightarrow> HookType list \<Rightarrow> string + HookType list" where
  "enable_hooks [] enabled = Inr enabled"
| "enable_hooks (h # slc) enabled =
     (if \<not> List.member AvailableHooks h
      then Inl (''Unknown hook event type in -hooks-enabled-events flag: '' @ h)
      else enable_hooks slc (enabled @ [h]))"

definition SetEnabledHooks :: "Flags \<Rightarrow> string + Flags" where
  "SetEnabledHooks fl =
     (case (if EnabledHooksString fl \<noteq> []
            then enable_hooks (Split (CHR '','') (EnabledHooksString fl)) (EnabledHooks fl)
            else Inr (EnabledHooks fl)) of
        Inl t \<Rightarrow> Inl t
      | Inr hs \<Rightarrow> Inr (fl\<lparr>EnabledHooks := (if hs = [] then AvailableHooks else hs)\<rparr>))"

text \<open>
  What \<^verbatim>\<open>ParseFlags\<close> does after parsing; an error of \<^verbatim>\<open>filepath.Abs\<close> leaves its empty result.
\<close>

definition check_flags :: "(string \<Rightarrow> err + string) \<Rightarrow> Flags \<Rightarrow> string + Flags" where
  "check_flags filepath_Abs fl0 =
     (case SetEnabledHooks fl0 of
        Inl t \<Rightarrow> Inl t
      | Inr fl \<Rightarrow>
          if EnableH2C fl \<and> TLSCertFile fl \<noteq> [] then
            Inl ''Unencrypted HTTP/2 is not available if TLS is configured. -enable-h2c flag must not be combined with -tls-certificate.''
          else if FileHooksDir fl \<noteq> [] then
            Inr (fl\<lparr>FileHooksDir := (case filepath_Abs (FileHooksDir fl) of Inl e \<Rightarrow> [] | Inr p \<Rightarrow> p)\<rparr>)
          else Inr fl)"

section \<open>The store and the locker\<close>

text \<open>
  What the set-up calls: the environment variables, the clients of the services, absolute paths and
  what the operations of the stores and lockers have as arguments.
\<close>

record ('a, 'b, 'c) Platform =
  Getenv :: "string \<Rightarrow> string"
  S3Config :: "err option"
  S3Client :: "Flags \<Rightarrow> 'a S3API"
  S3Logger :: Logger
  S3Sign :: "(string \<Rightarrow> string \<Rightarrow> string \<Rightarrow> int \<Rightarrow> err + string) option"
  S3Put :: "string \<Rightarrow> bytes \<Rightarrow> int \<Rightarrow> 'a \<Rightarrow> (err + int \<times> bytes \<times> string) \<times> 'a"
  S3ParseTime :: "string \<Rightarrow> int option"
  S3FormatTime :: "int \<Rightarrow> string"
  StorageClient :: "gcs_option list \<Rightarrow> err + 'b GCSClient"
  AzureLib :: "'c AzLibrary"
  FilepathAbs :: "string \<Rightarrow> err + string"
  ServeFile :: "bytes option \<Rightarrow> Request \<Rightarrow> ResponseWriter \<Rightarrow> ResponseWriter"
  LockCaller :: nat
  LockWaits :: "wait_event list"
  Lockfiles :: lockfile_ops
  LockPolls :: "poll_event list"

datatype ('a, 'b, 'c) backend =
    S3Backend "('a s3env, s3Upload, MemoryLocker, memoryLock) StoreComposer"
  | LoggedS3Backend "('a logged s3env, s3Upload, MemoryLocker, memoryLock) StoreComposer"
  | GCSBackend "('b gcsenv, gcsUpload, MemoryLocker, memoryLock) StoreComposer"
  | AzureBackend "('c azenv, AzUpload, MemoryLocker, memoryLock) StoreComposer"
  | FileBackend "(filesys, fileUpload, filesys, fileUploadLock) StoreComposer"

text \<open>The semaphore of the part uploads is a channel with this many slots; Go has none with fewer than zero.\<close>

definition SetConcurrentPartUploads :: "int \<Rightarrow> string + nat" where
  "SetConcurrentPartUploads limit = (if limit < 0 then Inl ''panic: makechan: size out of range'' else Inr (nat limit))"

definition s3_backend :: "('a, 'b, 'c) Platform \<Rightarrow> Flags \<Rightarrow> string + ('a, 'b, 'c) backend" where
  "s3_backend pf fl =
     (case S3Config pf of
        Some e \<Rightarrow> Inl (''Unable to load S3 configuration: '' @ err_text e)
      | None \<Rightarrow>
          if S3LogAPICalls fl \<and> \<not> VerboseOutput fl then
            Inl ''The -s3-log-api-calls flag requires verbose mode (-verbose) to be enabled''
          else
            (case SetConcurrentPartUploads (S3ConcurrentPartUploads fl) of Inl t \<Rightarrow> Inl t | Inr slots \<Rightarrow>
            (let store = (s3_New (S3Bucket fl) (S3Client pf fl) (S3Sign pf) (S3Put pf))\<lparr>
                   ObjectPrefix := S3ObjectPrefix fl, PreferredPartSize := S3PartSize fl,
                   MinPartSize := S3MinPartSize fl, MaxBufferedParts := S3MaxBufferedParts fl,
                   DisableContentHashes := S3DisableContentHashes fl\<rparr>
             in if S3LogAPICalls fl
                then Inr (LoggedS3Backend (ml_UseIn (LockCaller pf) (LockWaits pf)
                  (s3_UseIn (S3ParseTime pf) (S3FormatTime pf) (logging_store (S3Logger pf) store) NewStoreComposer)))
                else Inr (S3Backend (ml_UseIn (LockCaller pf) (LockWaits pf)
                  (s3_UseIn (S3ParseTime pf) (S3FormatTime pf) store NewStoreComposer))))))"

definition gcs_options :: "string \<Rightarrow> Flags \<Rightarrow> gcs_option list" where
  "gcs_options gcsSAF fl =
     [WithJSONReads] @ (if gcsSAF \<noteq> [] then [WithCredentialsFile gcsSAF] else []) @
     (if GCSEndpoint fl \<noteq> [] then [WithEndpoint (GCSEndpoint fl)] else [])"

definition gcs_backend :: "('a, 'b, 'c) Platform \<Rightarrow> Flags \<Rightarrow> string + ('a, 'b, 'c) backend" where
  "gcs_backend pf fl =
     (if GCSObjectPrefix fl \<noteq> [] \<and> List.member (GCSObjectPrefix fl) (CHR ''_'') then
        Inl (''gcs-object-prefix value ('' @ GCSObjectPrefix fl @ '') can'' @ [CHR 0x27] @
             ''t contain underscore. Please remove underscore from the value'')
      else case StorageClient pf (gcs_options (Getenv pf ''GCS_SERVICE_ACCOUNT_FILE'') fl) of
        Inl e \<Rightarrow> Inl (''Unable to create Google Cloud Storage client: '' @ err_text e @ [CHR 0x0A])
      | Inr client \<Rightarrow>
          (let store = (gcs_New (GCSBucket fl) (GCSService client))\<lparr>gcs_ObjectPrefix := GCSObjectPrefix fl\<rparr>
           in Inr (GCSBackend (ml_UseIn (LockCaller pf) (LockWaits pf) (gcs_UseIn store NewStoreComposer)))))"

definition azure_backend ::
  "('a, 'b, 'c) Platform \<Rightarrow> Flags \<Rightarrow> 'c \<Rightarrow> (string + ('a, 'b, 'c) backend) \<times> 'c" where
  "azure_backend pf fl s =
     (let accountName = Getenv pf ''AZURE_STORAGE_ACCOUNT''
      in if accountName = [] then
           (Inl (''No service account name for Azure BlockBlob Storage using the AZURE_STORAGE_ACCOUNT environment variable.'' @ [CHR 0x0A]), s)
         else
           (let azureEndpoint = (if AzEndpoint fl = []
                                 then ''https://'' @ accountName @ ''.blob.core.windows.net'' else AzEndpoint fl);
                azConfig = \<lparr>AccountName = accountName, AccountKey = Getenv pf ''AZURE_STORAGE_KEY'',
                  ConfigAccessTier = AzBlobAccessTier fl, ContainerName = AzStorage fl,
                  ContainerAccessType = AzContainerAccessType fl, Endpoint = azureEndpoint\<rparr>
            in case NewAzureService (AzureLib pf) azConfig s of
                 (Inl e, s1) \<Rightarrow> (Inl (''Unable to create Azure BlockBlob Storage service: '' @ err_text e), s1)
               | (Inr service, s1) \<Rightarrow>
                   (let store = (az_New service)\<lparr>az_ObjectPrefix := AzObjectPrefix fl, az_Container := AzStorage fl\<rparr>
                    in (Inr (AzureBackend (ml_UseIn (LockCaller pf) (LockWaits pf)
                          (az_UseIn store NewStoreComposer))), s1))))"

text \<open>The permission bits are \<^verbatim>\<open>os.FileMode(p) & os.ModePerm\<close>.\<close>

definition file_backend ::
  "('a, 'b, 'c) Platform \<Rightarrow> Flags \<Rightarrow> filesys \<Rightarrow> (string + ('a, 'b, 'c) backend) \<times> filesys" where
  "file_backend pf fl m =
     (case FilepathAbs pf (UploadDir fl) of
        Inl e \<Rightarrow> (Inl (''Unable to make absolute path: '' @ err_text e), m)
      | Inr dir \<Rightarrow>
          (case os_MkdirAll dir m of
             (Some e, m1) \<Rightarrow> (Inl (''Unable to ensure directory exists: '' @ err_text e), m1)
           | (None, m1) \<Rightarrow>
               (let store = (New dir)\<lparr>DirModePerm := DirPerms fl mod 512, FileModePerm := FilePerms fl mod 512\<rparr>;
                    locker = (fl_New dir)\<lparr>AcquirerPollInterval := FilelockAcquirerPollInterval fl,
                                          HolderPollInterval := FilelockHolderPollInterval fl\<rparr>
                in (Inr (FileBackend (fl_UseIn (FilepathAbs pf) (Lockfiles pf) locker (LockPolls pf)
                      (UseIn (ServeFile pf) store NewStoreComposer))), m1))))"

definition CreateComposer ::
  "('a, 'b, 'c) Platform \<Rightarrow> Flags \<Rightarrow> 'c \<Rightarrow> filesys \<Rightarrow> (string + ('a, 'b, 'c) backend) \<times> 'c \<times> filesys" where
  "CreateComposer pf fl s m =
     (if S3Bucket fl \<noteq> [] then (s3_backend pf fl, s, m)
      else if GCSBucket fl \<noteq> [] then (gcs_backend pf fl, s, m)
      else if AzStorage fl \<noteq> [] then (case azure_backend pf fl s of (b, s1) \<Rightarrow> (b, s1, m))
      else (case file_backend pf fl m of (b, m1) \<Rightarrow> (b, s, m1)))"

section \<open>The handler\<close>

text \<open>The regular expression for the origins is compiled by the argument.\<close>

definition getCorsConfig :: "(string \<Rightarrow> err + (string \<Rightarrow> bool)) \<Rightarrow> Flags \<Rightarrow> string + CorsConfig" where
  "getCorsConfig regexp_Compile fl =
     (let c0 = DefaultCorsConfig\<lparr>Disable := DisableCors fl, AllowCredentials := CorsAllowCredentials fl,
                 MaxAge := CorsMaxAge fl\<rparr>
      in case regexp_Compile (CorsAllowOrigin fl) of
           Inl e \<Rightarrow> Inl (''Invalid regular expression for -cors-allow-origin flag: '' @ err_text e)
         | Inr matches \<Rightarrow>
             (let c1 = c0\<lparr>AllowOrigin := matches\<rparr>;
                  c2 = (if CorsAllowHeaders fl \<noteq> []
                        then c1\<lparr>AllowHeaders := AllowHeaders c1 @ '', '' @ CorsAllowHeaders fl\<rparr> else c1);
                  c3 = (if CorsAllowMethods fl \<noteq> []
                        then c2\<lparr>AllowMethods := AllowMethods c2 @ '', '' @ CorsAllowMethods fl\<rparr> else c2)
              in Inr (if CorsExposeHeaders fl \<noteq> []
                      then c3\<lparr>ExposeHeaders := ExposeHeaders c3 @ '', '' @ CorsExposeHeaders fl\<rparr> else c3)))"

text \<open>
  The outside world of the hook backends. A plugin is loaded by its \<^verbatim>\<open>Setup\<close>, which may end the
  program.
\<close>

record HookPlatform =
  hk_json :: HookJson
  hk_environ :: "string list"
  hk_Output :: "Cmd \<Rightarrow> string \<times> cmd_error option"
  hk_transport :: HookTransport
  hk_grpc :: GrpcLibrary
  hk_plugin :: PluginLibrary

datatype hook_backend = ReadyHooks HookHandler | PluginHooks PluginHook

definition getHookHandler :: "HookPlatform \<Rightarrow> Flags \<Rightarrow> hook_backend option" where
  "getHookHandler hp fl =
     (if FileHooksDir fl \<noteq> [] then
        Some (ReadyHooks (file_hooks (hk_json hp) (hk_environ hp) (hk_Output hp) \<lparr>Directory = FileHooksDir fl\<rparr>))
      else if HttpHooksEndpoint fl \<noteq> [] then
        Some (ReadyHooks (http_hooks (hk_json hp) (hk_transport hp)
          \<lparr>HookEndpoint = HttpHooksEndpoint fl, HookMaxRetries = HttpHooksRetry fl,
           HookBackoff = HttpHooksBackoff fl,
           HookForwardHeaders = Split (CHR '','') (HttpHooksForwardHeaders fl),
           HookTimeout = HttpHooksTimeout fl, SizeLimit = HttpHooksSizeLimit fl,
           InsecureSkipVerify = HttpHooksInsecureSkipVerify fl\<rparr>))
      else if GrpcHooksEndpoint fl \<noteq> [] then
        Some (ReadyHooks (grpc_hooks (hk_grpc hp)
          \<lparr>GrpcEndpoint = GrpcHooksEndpoint fl, GrpcMaxRetries = GrpcHooksRetry fl,
           GrpcBackoff = GrpcHooksBackoff fl, GrpcSecure = GrpcHooksSecure fl,
           ServerTLSCertificateFilePath = GrpcHooksServerTLSCertFile fl,
           ClientTLSCertificateFilePath = GrpcHooksClientTLSCertFile fl,
           ClientTLSCertificateKeyFilePath = GrpcHooksClientTLSKeyFile fl,
           GrpcForwardHeaders = Split (CHR '','') (GrpcHooksForwardHeaders fl)\<rparr>))
      else if PluginHookPath fl \<noteq> [] then 
        Some (PluginHooks
          \<lparr>PluginPath = PluginHookPath fl, JSONLogFormat = (LogFormat fl = ''json''), handlerImpl = None\<rparr>)
      else None)"

definition prepared_hooks :: "HookPlatform \<Rightarrow> Flags \<Rightarrow> string + HookHandler option" where
  "prepared_hooks hp fl =
     (case getHookHandler hp fl of
        None \<Rightarrow> Inr None
      | Some (ReadyHooks hh) \<Rightarrow> Inr (Some hh)
      | Some (PluginHooks h) \<Rightarrow> (case plugin_hooks (hk_plugin hp) h of Inl t \<Rightarrow> Inl t | Inr hh \<Rightarrow> Inr (Some hh)))"

text \<open>
  The first two arguments are the functions of the standard library that stand beside the
  configuration: \<^verbatim>\<open>mime.ParseMediaType\<close> and \<^verbatim>\<open>strconv.Quote\<close>.
\<close>

definition serve_config ::
  "(string \<Rightarrow> err + string \<times> string gomap) \<Rightarrow> (string \<Rightarrow> string) \<Rightarrow> Flags \<Rightarrow> CorsConfig \<Rightarrow> ('s, 'u, 'l, 'k) StoreComposer \<Rightarrow> ('s, 'u, 'l, 'k) Config" where
  "serve_config media quote fl cors composer0 =
     zeroConfig\<lparr>MaxSize := fMaxSize fl, BasePath := Basepath fl, Cors := Some cors,
       RespectForwardedHeaders := BehindProxy fl, EnableExperimentalProtocol := ExperimentalProtocol fl,
       DisableDownload := fDisableDownload fl, DisableTermination := fDisableTermination fl,
       DisableConcatenation := fDisableConcatenation fl, Composer := Some composer0,
       UploadProgressInterval := ProgressHooksInterval fl, AcquireLockTimeout := fAcquireLockTimeout fl,
       GracefulRequestCompletionTimeout := fGracefulRequestCompletionTimeout fl,
       NetworkTimeout := fNetworkTimeout fl,
       ParseMediaType := media, Quote := quote\<rparr>"

definition serve_handler ::
  "(string \<Rightarrow> err + bool) \<Rightarrow> (string \<Rightarrow> err + (string \<Rightarrow> bool)) \<Rightarrow> HookPlatform \<Rightarrow>
     (string \<Rightarrow> err + string \<times> string gomap) \<Rightarrow> (string \<Rightarrow> string) \<Rightarrow> Flags \<Rightarrow> ('s, 'u, 'l, 'k) StoreComposer \<Rightarrow> string + (Request \<Rightarrow> (('s, 'l) world, unit) state)" where
  "serve_handler url_Parse regexp_Compile hp media quote fl composer0 =
     (case getCorsConfig regexp_Compile fl of
        Inl t \<Rightarrow> Inl t
      | Inr cors \<Rightarrow>
          (let cfg = serve_config media quote fl cors composer0
           in case prepared_hooks hp fl of
                Inl t \<Rightarrow> Inl t
              | Inr hooks \<Rightarrow>
             case (case hooks of
                      Some hh \<Rightarrow> NewHandlerWithHooks url_Parse cfg hh (EnabledHooks fl)
                    | None \<Rightarrow> NewHandler url_Parse cfg) of
                Inl e \<Rightarrow> Inl (''Unable to create handler: '' @ err_text e)
              | Inr serve \<Rightarrow> Inr serve))"

text \<open>
  The routes that \<^verbatim>\<open>Serve\<close> registers for uploads: each pattern with the prefix that is stripped
  from the path, and whether the greeting is shown at the root.
\<close>

definition serve_routes :: "Flags \<Rightarrow> (string \<times> string) list \<times> bool" where
  "serve_routes fl =
     (if Basepath fl = ''/'' then ([(''/'', ''/'')], False)
      else
        (let withoutSlash = TrimSuffix (Basepath fl) ''/''; withSlash = withoutSlash @ ''/''
         in ([(withSlash, withSlash), (withoutSlash, withoutSlash)], ShowGreeting fl)))"

section \<open>The socket\<close>

datatype file_mode = SocketMode | OtherMode

text \<open>\<^verbatim>\<open>NewUnixListener\<close>, with \<^verbatim>\<open>os.Stat\<close>, \<^verbatim>\<open>os.Remove\<close> and \<^verbatim>\<open>net.Listen\<close> as arguments.\<close>

definition NewUnixListener ::
  "(string \<Rightarrow> 's \<Rightarrow> err + file_mode) \<Rightarrow> (string \<Rightarrow> 's \<Rightarrow> err option \<times> 's) \<Rightarrow> (string \<Rightarrow> 's \<Rightarrow> (err + 'n) \<times> 's) \<Rightarrow>
     string \<Rightarrow> 's \<Rightarrow> (err + 'n) \<times> 's" where
  "NewUnixListener stat remove listen path s =
     (case stat path s of
        Inl e \<Rightarrow> if \<not> IsNotExist e then (Inl e, s) else listen path s
      | Inr SocketMode \<Rightarrow>
          (case remove path s of
             (Some e, s1) \<Rightarrow> (Inl e, s1)
           | (None, s1) \<Rightarrow> listen path s1)
      | Inr OtherMode \<Rightarrow> (Inl (PlainError ''specified path is not a socket''), s))"

section \<open>Facts\<close>

subsection \<open>Hooks\<close>

lemma enable_hooks_available:
  "enable_hooks slc enabled = Inr hs \<Longrightarrow> hs = enabled @ slc \<and> set slc \<subseteq> set AvailableHooks"
  by (induction slc enabled rule: enable_hooks.induct) (auto split: if_splits)

lemma SetEnabledHooks_available:
  assumes "SetEnabledHooks fl = Inr fl'" "set (EnabledHooks fl) \<subseteq> set AvailableHooks"
  shows "EnabledHooks fl' \<noteq> [] \<and> set (EnabledHooks fl') \<subseteq> set AvailableHooks"
proof -
  have "AvailableHooks \<noteq> []" by (simp add: AvailableHooks_def)
  with assms show ?thesis
    by (auto simp: SetEnabledHooks_def dest!: enable_hooks_available split: sum.splits if_splits)
qed

text \<open>
  White space after a comma is refused although it is trimmed, and an empty flag enables all
  hooks, more than the default events.
\<close>

lemma hook_names_are_not_trimmed:
  "SetEnabledHooks (defaultFlags\<lparr>EnabledHooksString := ''pre-create, post-create''\<rparr>) =
     Inl ''Unknown hook event type in -hooks-enabled-events flag:  post-create''"
  by (simp add: SetEnabledHooks_def defaultFlags_def AvailableHooks_def hook_type_defs)

lemma default_hooks:
  "map_sum id EnabledHooks (SetEnabledHooks defaultFlags) =
     Inr [HookPreCreate, HookPostCreate, HookPostReceive, HookPostTerminate, HookPostFinish]"
  "map_sum id EnabledHooks (SetEnabledHooks (defaultFlags\<lparr>EnabledHooksString := []\<rparr>)) = Inr AvailableHooks"
  by (simp_all add: SetEnabledHooks_def defaultFlags_def AvailableHooks_def hook_type_defs)

subsection \<open>Routes\<close>

text \<open>
  When the base path begins with a slash, the paths of uploads, which the handler prints with its
  own base path, are among the registered routes.
\<close>

lemma uploads_are_routed:
  assumes "HasPrefix (Basepath fl) ''/''"
  shows "(validate_base False (Basepath fl), validate_base False (Basepath fl)) \<in> set (fst (serve_routes fl))"
proof -
  from assms obtain p where p: "Basepath fl = CHR ''/'' # p"
    by (auto simp: HasPrefix_def prefix_def)
  show ?thesis
  proof (cases "HasSuffix (Basepath fl) ''/''")
    case True
    then obtain q where q: "Basepath fl = q @ ''/''" by (auto simp: HasSuffix_def suffix_def)
    have "hd (Basepath fl) = CHR ''/''" by (simp add: p)
    moreover have "last (Basepath fl) = CHR ''/''" by (simp add: q)
    ultimately have "validate_base False (Basepath fl) = Basepath fl"
      by (simp add: validate_base_def Let_def)
    then show ?thesis using q by (auto simp: serve_routes_def Let_def TrimSuffix_def HasSuffix_def)
  next
    case False
    have ne: "Basepath fl \<noteq> []" by (simp add: p)
    have "last (Basepath fl) \<noteq> CHR ''/''"
    proof
      assume "last (Basepath fl) = CHR ''/''"
      then have "Basepath fl = butlast (Basepath fl) @ ''/''" using append_butlast_last_id [OF ne] by simp
      with False show False by (metis HasSuffix_def suffixI)
    qed
    then have "validate_base False (Basepath fl) = Basepath fl @ ''/''"
      by (simp add: validate_base_def Let_def p)
    then show ?thesis using False by (auto simp: serve_routes_def Let_def TrimSuffix_def HasSuffix_def)
  qed
qed

subsection \<open>Start\<close>

text \<open>A composer with which the server can work: a core, a locker and termination.\<close>

definition complete_composer :: "('s, 'u, 'l, 'k) StoreComposer \<Rightarrow> bool" where
  "complete_composer c \<longleftrightarrow> composer_wf c \<and> Core c \<noteq> None \<and> UsesLocker c \<and> UsesTerminater c"

fun complete_backend :: "('a, 'b, 'c) backend \<Rightarrow> bool" where
  "complete_backend (S3Backend c) = complete_composer c"
| "complete_backend (LoggedS3Backend c) = complete_composer c"
| "complete_backend (GCSBackend c) = complete_composer c"
| "complete_backend (AzureBackend c) = complete_composer c"
| "complete_backend (FileBackend c) = complete_composer c"

lemmas composer_defs = complete_composer_def Use_defs is_none_iff ml_UseIn_def fl_UseIn_def s3_UseIn_def
  gcs_UseIn_def az_UseIn_def UseIn_def composer_wf_def NewStoreComposer_def

lemma s3_backend_complete: "s3_backend pf fl = Inr b \<Longrightarrow> complete_backend b"
  by (auto simp: s3_backend_def Let_def composer_defs split: option.splits sum.splits if_splits)

lemma gcs_backend_complete: "gcs_backend pf fl = Inr b \<Longrightarrow> complete_backend b"
  by (auto simp: gcs_backend_def Let_def composer_defs split: sum.splits if_splits)

lemma azure_backend_complete: "azure_backend pf fl s = (Inr b, s') \<Longrightarrow> complete_backend b"
  by (auto simp: azure_backend_def Let_def composer_defs split: sum.splits if_splits prod.splits)

lemma file_backend_complete: "file_backend pf fl m = (Inr b, m') \<Longrightarrow> complete_backend b"
  by (auto simp: file_backend_def Let_def composer_defs split: sum.splits option.splits prod.splits)

lemma CreateComposer_complete: "CreateComposer pf fl s m = (Inr b, s', m') \<Longrightarrow> complete_backend b"
  by (auto simp: CreateComposer_def split: if_splits prod.splits
      intro: s3_backend_complete gcs_backend_complete azure_backend_complete file_backend_complete)

lemma hooks_config_Composer [simp]: "Composer (hooks_config hh hs cfg) = Composer cfg"
  by (simp add: hooks_config_def Let_def)

lemma validate_ok:
  assumes "Composer cfg = Some c" "Core c \<noteq> None"
  shows "\<exists>cfg'. validate (\<lambda>p. Inr (isabs p)) cfg = Inr cfg' \<and> Composer cfg' = Some c"
  using assms by (auto simp: validate_def Let_def)

lemma NewHandler_ok:
  assumes "Composer cfg = Some c" "Core c \<noteq> None"
  shows "\<exists>serve. NewHandler (\<lambda>p. Inr (isabs p)) cfg = Inr serve"
proof -
  from validate_ok [OF assms, of isabs] obtain cfg1
    where v1: "validate (\<lambda>p. Inr (isabs p)) cfg = Inr cfg1" "Composer cfg1 = Some c" by blast
  from validate_ok [OF v1(2) assms(2), of isabs] obtain cfg2
    where "validate (\<lambda>p. Inr (isabs p)) cfg1 = Inr cfg2" "Composer cfg2 = Some c" by blast
  with v1 show ?thesis by (simp add: NewHandler_def NewUnroutedHandler_def)
qed

definition starts ::
  "(string \<Rightarrow> err + bool) \<Rightarrow> (string \<Rightarrow> err + (string \<Rightarrow> bool)) \<Rightarrow> HookPlatform \<Rightarrow>
     (string \<Rightarrow> err + string \<times> string gomap) \<Rightarrow> (string \<Rightarrow> string) \<Rightarrow> Flags \<Rightarrow> ('s, 'u, 'l, 'k) StoreComposer \<Rightarrow> bool" where
  "starts url_Parse regexp_Compile hp media quote fl c \<longleftrightarrow>
     (case serve_handler url_Parse regexp_Compile hp media quote fl c of Inl t \<Rightarrow> False | Inr serve \<Rightarrow> True)"

lemma starts_complete:
  assumes "complete_composer c" and "re (CorsAllowOrigin fl) = Inr matches"
    and "prepared_hooks hp fl = Inr hooks" "\<forall>hh. hooks = Some hh \<longrightarrow> Setup hh = None"
  shows "starts (\<lambda>p. Inr (isabs p)) re hp media quote fl c"
proof -
  from assms(2) obtain cors where cors: "getCorsConfig re fl = Inr cors"
    by (simp add: getCorsConfig_def Let_def)
  let ?cfg = "serve_config media quote fl cors c"
  have cmp: "Composer ?cfg = Some c" "Core c \<noteq> None"
    using assms(1) by (simp_all add: serve_config_def complete_composer_def)
  show ?thesis
  proof (cases hooks)
    case None
    with NewHandler_ok [OF cmp, of isabs] cors assms(3) show ?thesis
      by (auto simp: starts_def serve_handler_def Let_def)
  next
    case (Some hh)
    have "Composer (hooks_config hh (EnabledHooks fl) ?cfg) = Some c" using cmp(1) by simp
    from NewHandler_ok [OF this cmp(2), of isabs] Some assms(3,4) cors show ?thesis
      by (auto simp: starts_def serve_handler_def NewHandlerWithHooks_def Let_def)
  qed
qed

text \<open>The default flags on a machine without faults: uploads are kept in files.\<close>

definition demo_platform :: "(mem_s3, unit, unit) Platform" where
  "demo_platform =
     \<lparr>Getenv = (\<lambda>_. []), S3Config = None, S3Client = (\<lambda>_. memory_s3 2 (\<lambda>_. False)), S3Logger = demo_logger, S3Sign = None,
      S3Put = (\<lambda>_ _ _ s. (Inl EOF, s)), S3ParseTime = (\<lambda>_. None), S3FormatTime = FormatInt,
      StorageClient = (\<lambda>_. Inl EOF),
      AzureLib = \<lparr>NewClientWithSharedKeyCredential = (\<lambda>_ _ _. Inl EOF), NewClient = (\<lambda>_. Inl EOF),
                  CreateContainer = (\<lambda>_ _ s. (Some EOF, s))\<rparr>,
      FilepathAbs = (\<lambda>p. Inr (''/srv/'' @ p)), ServeFile = demo_serve, LockCaller = 0, LockWaits = [],
      Lockfiles = busy_locks, LockPolls = []\<rparr>"

definition demo_hook_platform :: HookPlatform where
  "demo_hook_platform =
     \<lparr>hk_json = accepting_json, hk_environ = [], hk_Output = (\<lambda>_. ([], None)), hk_transport = accepting_endpoint,
      hk_grpc = \<lparr>ReadFile = (\<lambda>_. None), LoadX509KeyPair = (\<lambda>_ _. None), GrpcNewClient = (\<lambda>_. None),
                 GrpcCall = (\<lambda>_ _ _. Inl EOF)\<rparr>,
      hk_plugin = demo_plugins rejecting_hooks\<rparr>"

lemma demo_backend:
  "\<exists>b m'. CreateComposer demo_platform defaultFlags () (demo_fs 0 []) = (Inr b, (), m')"
proof -
  have "fst (os_MkdirAll (''/srv/./data'') (demo_fs 0 [])) = None" by code_simp
  then obtain m' where "os_MkdirAll (''/srv/./data'') (demo_fs 0 []) = (None, m')"
    by (metis prod.collapse)
  then show ?thesis
    by (simp add: CreateComposer_def file_backend_def defaultFlags_def demo_platform_def Let_def)
qed

end
