(* ===== verification/Serve.thy ===== *)
theory Serve
  imports Cli
begin

text \<open>
  The running server (\<^verbatim>\<open>serve.go\<close>, with \<^verbatim>\<open>metrics.go\<close>, \<^verbatim>\<open>pprof.go\<close>, \<^verbatim>\<open>version.go\<close> and \<^verbatim>\<open>main.go\<close>): the
  options of the HTTP server, the registered paths, TLS, the number of open connections, and
  the goroutines that end the server after a signal, as labelled steps that interleave. It is
  shown in which ways the process can end, and that it ends in time.
\<close>

section \<open>The HTTP server\<close>

datatype HttpProtocol = HTTP1 | UnencryptedHTTP2

text \<open>
  \<open>Protocols\<close> is \<open>None\<close> when the field is not set. A duration of zero is no limit.
\<close>

record HttpServer =
  ReadHeaderTimeout :: int
  ReadTimeout :: int
  WriteTimeout :: int
  IdleTimeout :: int
  MaxHeaderBytes :: int
  Protocols :: "HttpProtocol list option"

definition serve_protocol :: "Flags \<Rightarrow> string" where
  "serve_protocol fl = (if TLSCertFile fl \<noteq> [] \<and> TLSKeyFile fl \<noteq> [] then ''https'' else ''http'')"

definition serve_server :: "Flags \<Rightarrow> HttpServer" where
  "serve_server fl =
     \<lparr>ReadHeaderTimeout = fNetworkTimeout fl, ReadTimeout = 0, WriteTimeout = 0, IdleTimeout = fNetworkTimeout fl,
      MaxHeaderBytes = 1048576,
      Protocols = (if serve_protocol fl = ''http'' \<and> EnableH2C fl then Some [HTTP1, UnencryptedHTTP2] else None)\<rparr>"

definition serve_address :: "Flags \<Rightarrow> string" where
  "serve_address fl = (if HttpSock fl \<noteq> [] then HttpSock fl else HttpHost fl @ '':'' @ HttpPort fl)"

definition NewListener :: "(string \<Rightarrow> string \<Rightarrow> 's \<Rightarrow> (err + 'n) \<times> 's) \<Rightarrow> string \<Rightarrow> 's \<Rightarrow> (err + 'n) \<times> 's" where
  "NewListener listen addr s = listen ''tcp'' addr s"

definition serve_listener ::
  "(string \<Rightarrow> 's \<Rightarrow> err + file_mode) \<Rightarrow> (string \<Rightarrow> 's \<Rightarrow> err option \<times> 's) \<Rightarrow>
     (string \<Rightarrow> string \<Rightarrow> 's \<Rightarrow> (err + 'n) \<times> 's) \<Rightarrow> Flags \<Rightarrow> 's \<Rightarrow> (string + 'n) \<times> 's" where
  "serve_listener stat remove listen fl s =
     (case (if HttpSock fl \<noteq> [] then NewUnixListener stat remove (listen ''unix'') (serve_address fl) s
            else NewListener listen (serve_address fl) s) of
        (Inl e, s1) \<Rightarrow> (Inl (''Unable to create listener: '' @ err_text e), s1)
      | (Inr l, s1) \<Rightarrow> (Inr l, s1))"

section \<open>TLS\<close>

datatype tls_version = VersionTLS12 | VersionTLS13

datatype cipher_suite =
    ECDHE_ECDSA_AES_128_GCM_SHA256 | ECDHE_RSA_AES_128_GCM_SHA256
  | ECDHE_ECDSA_AES_256_GCM_SHA384 | ECDHE_RSA_AES_256_GCM_SHA384
  | ECDHE_ECDSA_CHACHA20_POLY1305 | ECDHE_RSA_CHACHA20_POLY1305

text \<open>An empty list of suites stands for the default, an absent \<open>MaxVersion\<close> for the newest.\<close>

record tls_config =
  MinVersion :: tls_version
  MaxVersion :: "tls_version option"
  PreferServerCipherSuites :: bool
  CipherSuites :: "cipher_suite list"

definition serveTLS_config :: "Flags \<Rightarrow> string + tls_config" where
  "serveTLS_config fl =
     (if TLSMode fl = ''tls13'' then
        Inr \<lparr>MinVersion = VersionTLS13, MaxVersion = None, PreferServerCipherSuites = False, CipherSuites = []\<rparr>
      else if TLSMode fl = ''tls12'' then
        Inr \<lparr>MinVersion = VersionTLS12, MaxVersion = None, PreferServerCipherSuites = True,
             CipherSuites = [ECDHE_ECDSA_AES_128_GCM_SHA256, ECDHE_RSA_AES_128_GCM_SHA256,
                             ECDHE_ECDSA_AES_256_GCM_SHA384, ECDHE_RSA_AES_256_GCM_SHA384,
                             ECDHE_ECDSA_CHACHA20_POLY1305, ECDHE_RSA_CHACHA20_POLY1305]\<rparr>
      else if TLSMode fl = ''tls12-strong'' then
        Inr \<lparr>MinVersion = VersionTLS12, MaxVersion = Some VersionTLS12, PreferServerCipherSuites = True,
             CipherSuites = [ECDHE_ECDSA_AES_256_GCM_SHA384, ECDHE_RSA_AES_256_GCM_SHA384]\<rparr>
      else Inl ''Invalid TLS mode chosen. Recommended valid modes are tls13, tls12 (default), and tls12-strong'')"

section \<open>The paths\<close>

text \<open>What is registered for a path; the uploads with the prefix that is stripped.\<close>

datatype route = Greeting | Uploads string | MetricsPage | Profiles "string list" "(string \<times> string) option"

definition upload_routes :: "Flags \<Rightarrow> (string \<times> route) list" where
  "upload_routes fl =
     (case serve_routes fl of (routes, greeting) \<Rightarrow>
        (if greeting then [(''/'', Greeting)] else []) @ map (\<lambda>(path, prefix). (path, Uploads prefix)) routes)"

text \<open>The pages of the profiler, and the name and the password that it asks for.\<close>

definition pprof_pages :: "string list" where
  "pprof_pages = [[], ''cmdline'', ''profile'', ''symbol'', ''trace'', ''fgprof'']"

definition pprof_auth :: "string \<Rightarrow> string + (string \<times> string) option" where
  "pprof_auth auth =
     (if auth = [] then Inr None
      else case Cut auth '':'' of
             None \<Rightarrow> Inl ''TUSD_PPROF_AUTH must be two values separated by a colon''
           | Some (user, password) \<Rightarrow> Inr (Some (user, password)))"

text \<open>
  \<^verbatim>\<open>ServeMux.Handle\<close> panics for a pattern without a slash, the empty one for example, and for one that is
  registered. The pattern is taken as it is: it may start with the name of a host, but that blanks, braces
  and percent signs have a meaning in a pattern is not modelled.
\<close>

fun mux_Handle :: "(string \<times> route) list \<Rightarrow> (string \<times> route) list \<Rightarrow> string + (string \<times> route) list" where
  "mux_Handle ps [] = Inr ps"
| "mux_Handle ps ((path, r) # rs) =
     (if CHR 0x2F \<notin> set path \<or> map_of ps path \<noteq> None then Inl ''panic'' else mux_Handle (ps @ [(path, r)]) rs)"

definition serve_mux :: "string \<Rightarrow> Flags \<Rightarrow> string + (string \<times> route) list" where
  "serve_mux auth fl =
     (case mux_Handle [] (upload_routes fl) of
        Inl t \<Rightarrow> Inl t
      | Inr ps1 \<Rightarrow>
          (case (if ExposeMetrics fl then mux_Handle ps1 [(MetricsPath fl, MetricsPage)] else Inr ps1) of
             Inl t \<Rightarrow> Inl t
           | Inr ps2 \<Rightarrow>
               if \<not> ExposePprof fl then Inr ps2
               else (case pprof_auth auth of
                       Inl t \<Rightarrow> Inl t
                     | Inr a \<Rightarrow> mux_Handle ps2 [(PprofPath fl, Profiles pprof_pages a)])))"

section \<open>Open connections\<close>

datatype ConnState = StateNew | StateActive | StateIdle | StateHijacked | StateClosed

definition on_ConnState :: "ConnState \<Rightarrow> int \<Rightarrow> int" where
  "on_ConnState cs open =
     (case cs of StateNew \<Rightarrow> open + 1 | StateClosed \<Rightarrow> open - 1 | StateHijacked \<Rightarrow> open - 1 | _ \<Rightarrow> open)"

section \<open>The end of the server\<close>

text \<open>
  The process. \<open>p_signals\<close> is the channel with the signals, \<open>p_stage\<close> where the goroutine of
  \<^verbatim>\<open>setupSignalHandler\<close> is, with the time spent in \<^verbatim>\<open>Shutdown\<close>, \<open>p_watcher\<close> whether the goroutine
  that waits for the second signal runs, \<open>p_hook\<close> whether the function registered for the
  shutdown has been started and not run. An open request has the cause with which it has been
  cancelled. \<open>p_plugins\<close> counts the programs of plugins.
\<close>

datatype sig_stage = AwaitSignal | Interrupted | InShutdown nat | ShutdownReturned "err option" | CleanedUp | Completed

datatype main_stage = InServe | AwaitComplete | Exited int

text \<open>
  What \<^verbatim>\<open>Serve\<close> does when the HTTP server has returned: \<open>None\<close> is \<^verbatim>\<open>http.ErrServerClosed\<close>, any other error
  ends the program.
\<close>

definition after_Serve :: "err option \<Rightarrow> main_stage" where
  [simp]: "after_Serve e = (case e of None \<Rightarrow> AwaitComplete | Some x \<Rightarrow> Exited 1)"

record Process =
  p_signals :: nat
  p_stage :: sig_stage
  p_watcher :: bool
  p_listening :: bool
  p_hook :: bool
  p_cancelled :: bool
  p_requests :: "(nat \<times> Error option) list"
  p_plugins :: nat
  p_main :: main_stage

definition serving :: "nat \<Rightarrow> Process" where
  "serving plugins =
     \<lparr>p_signals = 0, p_stage = AwaitSignal, p_watcher = False, p_listening = True, p_hook = False,
      p_cancelled = False, p_requests = [], p_plugins = plugins, p_main = InServe\<rparr>"

datatype serve_event =
    Signal | NewRequest nat | RequestEnds nat | FirstSignal | SecondSignal | StartShutdown | CancelRequests | Tick
  | AllIdle "err option" | DeadlineExceeded | CleanupPlugins | CloseComplete | ServeReturns | ServeFails err | MainReturns

text \<open>
  The channel has room for two signals, more are dropped. \<^verbatim>\<open>Shutdown\<close> closes the listeners and
  waits until no request is open or the time is over; the error of closing the listeners is its
  result in the first case. A request takes the context of the server, which may be cancelled.
  Nothing happens in a process that has ended.
\<close>

inductive serve_step :: "nat \<Rightarrow> serve_event \<Rightarrow> Process \<Rightarrow> Process \<Rightarrow> bool" for timeout where
  signal: "p_main p = InServe \<or> p_main p = AwaitComplete \<Longrightarrow>
     serve_step timeout Signal p (p\<lparr>p_signals := min 2 (Suc (p_signals p))\<rparr>)"
| new_request: "p_main p = InServe \<Longrightarrow> p_listening p \<Longrightarrow>
     serve_step timeout (NewRequest r) p
       (p\<lparr>p_requests := p_requests p @ [(r, if p_cancelled p then Some ErrServerShutdown else None)]\<rparr>)"
| request_ends: "p_main p = InServe \<or> p_main p = AwaitComplete \<Longrightarrow> p_requests p = xs @ (r, cause) # ys \<Longrightarrow>
     serve_step timeout (RequestEnds r) p (p\<lparr>p_requests := xs @ ys\<rparr>)"
| first_signal: "p_main p = InServe \<Longrightarrow> p_stage p = AwaitSignal \<Longrightarrow> p_signals p = Suc n \<Longrightarrow>
     serve_step timeout FirstSignal p (p\<lparr>p_signals := n, p_stage := Interrupted, p_watcher := True\<rparr>)"
| second_signal: "p_main p = InServe \<or> p_main p = AwaitComplete \<Longrightarrow> p_watcher p \<Longrightarrow> p_signals p = Suc n \<Longrightarrow>
     serve_step timeout SecondSignal p (p\<lparr>p_signals := n, p_main := Exited 1\<rparr>)"
| start_shutdown: "p_main p = InServe \<Longrightarrow> p_stage p = Interrupted \<Longrightarrow>
     serve_step timeout StartShutdown p (p\<lparr>p_stage := InShutdown 0, p_listening := False, p_hook := True\<rparr>)"
| cancel_requests: "p_main p = InServe \<or> p_main p = AwaitComplete \<Longrightarrow> p_hook p \<Longrightarrow>
     serve_step timeout CancelRequests p
       (p\<lparr>p_hook := False, p_cancelled := True,
          p_requests := map (\<lambda>(r, cause). (r, if cause = None then Some ErrServerShutdown else cause)) (p_requests p)\<rparr>)"
| tick: "p_main p = InServe \<or> p_main p = AwaitComplete \<Longrightarrow> p_stage p = InShutdown t \<Longrightarrow> t < timeout \<Longrightarrow>
     serve_step timeout Tick p (p\<lparr>p_stage := InShutdown (Suc t)\<rparr>)"
| all_idle: "p_main p = InServe \<or> p_main p = AwaitComplete \<Longrightarrow> p_stage p = InShutdown t \<Longrightarrow> p_requests p = [] \<Longrightarrow>
     serve_step timeout (AllIdle e) p (p\<lparr>p_stage := ShutdownReturned e\<rparr>)"
| deadline: "p_main p = InServe \<or> p_main p = AwaitComplete \<Longrightarrow> p_stage p = InShutdown timeout \<Longrightarrow>
     serve_step timeout DeadlineExceeded p
       (p\<lparr>p_stage := ShutdownReturned (Some (PlainError ''context deadline exceeded''))\<rparr>)"
| cleanup: "p_main p = InServe \<or> p_main p = AwaitComplete \<Longrightarrow> p_stage p = ShutdownReturned e \<Longrightarrow>
     serve_step timeout CleanupPlugins p (p\<lparr>p_stage := CleanedUp, p_plugins := 0\<rparr>)"
| close_complete: "p_main p = InServe \<or> p_main p = AwaitComplete \<Longrightarrow> p_stage p = CleanedUp \<Longrightarrow>
     serve_step timeout CloseComplete p (p\<lparr>p_stage := Completed\<rparr>)"
| serve_returns: "p_main p = InServe \<Longrightarrow> \<not> p_listening p \<Longrightarrow>
     serve_step timeout ServeReturns p (p\<lparr>p_main := after_Serve None\<rparr>)"
| serve_fails: "p_main p = InServe \<Longrightarrow> p_listening p \<Longrightarrow>
     serve_step timeout (ServeFails e) p (p\<lparr>p_main := after_Serve (Some e)\<rparr>)"
| main_returns: "p_main p = AwaitComplete \<Longrightarrow> p_stage p = Completed \<Longrightarrow>
     serve_step timeout MainReturns p (p\<lparr>p_main := Exited 0\<rparr>)"

inductive_cases serve_stepE: "serve_step timeout ev p q"

text \<open>What the goroutine prints about the result of \<^verbatim>\<open>Shutdown\<close>, if it is an error, on \<^verbatim>\<open>stderr\<close>.\<close>

definition shutdown_text :: "err option \<Rightarrow> string" where
  "shutdown_text e =
     (case e of
        None \<Rightarrow> ''Shutdown completed. Goodbye!''
      | Some x \<Rightarrow>
          if x = PlainError ''context deadline exceeded'' then ''Shutdown timeout exceeded. Exiting immediately!''
          else ''Failed to shutdown gracefully: '' @ err_text x)"

inductive serve_run :: "nat \<Rightarrow> serve_event list \<Rightarrow> Process \<Rightarrow> Process \<Rightarrow> bool" for timeout where
  start: "serve_run timeout [] p p"
| step: "serve_run timeout es p q \<Longrightarrow> serve_step timeout ev q r \<Longrightarrow> serve_run timeout (es @ [ev]) p r"

section \<open>Facts\<close>

text \<open>With the default flags every path can be registered.\<close>

lemma default_mux:
  "serve_mux auth defaultFlags =
     Inr [(''/'', Greeting), (''/files/'', Uploads ''/files/''), (''/files'', Uploads ''/files''), (''/metrics'', MetricsPage)]"
  by (simp add: serve_mux_def upload_routes_def serve_routes_def defaultFlags_def Let_def TrimSuffix_def suffix_to_prefix)

text \<open>An empty base path is registered twice, or as an empty pattern: the program ends in a panic.\<close>

lemma empty_base_path_panics: "Basepath fl = [] \<Longrightarrow> serve_mux auth fl = Inl ''panic''"
proof -
  assume "Basepath fl = []"
  then have "mux_Handle [] (upload_routes fl) = Inl ''panic''"
    by (simp add: upload_routes_def serve_routes_def TrimSuffix_def Let_def)
  then show ?thesis by (simp add: serve_mux_def)
qed

text \<open>A certificate without a key is not used: the server speaks plain HTTP.\<close>

lemma certificate_without_key: "TLSKeyFile fl = [] \<Longrightarrow> serve_protocol fl = ''http''"
  by (simp add: serve_protocol_def)

text \<open>Unencrypted HTTP/2 is never combined with TLS in flags that pass the checks.\<close>

lemma h2c_without_tls: "check_flags filepath_abs fl0 = Inr fl \<Longrightarrow> EnableH2C fl \<Longrightarrow> serve_protocol fl = ''http''"
  by (auto simp: check_flags_def serve_protocol_def split: sum.splits if_splits)

subsection \<open>Open connections\<close>

text \<open>
  The states that \<^verbatim>\<open>net/http\<close> reports: each connection starts as new, and after it has been closed or
  hijacked nothing more is reported. \<open>conns\<close> gives the open connections.
\<close>

fun conns :: "nat set \<Rightarrow> nat set \<Rightarrow> (nat \<times> ConnState) list \<Rightarrow> nat set option" where
  "conns used open [] = Some open"
| "conns used open ((c, cs) # es) =
     (if cs = StateNew then (if c \<in> used then None else conns (insert c used) (insert c open) es)
      else if c \<notin> open then None
      else if cs = StateClosed \<or> cs = StateHijacked then conns used (open - {c}) es
      else conns used open es)"

lemma connections_are_counted:
  "conns used open es = Some open' \<Longrightarrow> finite open \<Longrightarrow> open \<subseteq> used \<Longrightarrow>
     fold (on_ConnState \<circ> snd) es (int (card open)) = int (card open')"
proof (induction used "open" es rule: conns.induct)
  case (2 used "open" c cs es)
  have split: "cs = StateNew \<or> cs = StateClosed \<or> cs = StateHijacked \<or> cs = StateActive \<or> cs = StateIdle" by (cases cs) auto
  have "int (card (insert c open)) = int (card open) + 1" if "c \<notin> used" using 2(5,6) that by (subst card_insert_disjoint) auto
  moreover have "int (card (open - {c})) = int (card open) - 1" if "c \<in> open"
    using 2(5) that card_Suc_Diff1 [of "open" c] by simp
  moreover have "open - {c} \<subseteq> used" using 2(6) by blast
  ultimately show ?case using 2 split
    by (auto simp: on_ConnState_def split: if_splits)
qed simp

subsection \<open>Shutting down\<close>

text \<open>
  What holds of the process at any time, by the stage of the goroutine: the time limit, that
  signals arrived before, that plugins are stopped before the last stages, and when an open request
  remains.
\<close>

definition signals_seen :: "serve_event list \<Rightarrow> nat" where
  "signals_seen es = length (filter (\<lambda>e. e = Signal) es)"

definition shutdown_over :: "nat \<Rightarrow> serve_event list \<Rightarrow> Process \<Rightarrow> bool" where
  "shutdown_over timeout es p \<longleftrightarrow> p_requests p = [] \<or> DeadlineExceeded \<in> set es \<and> length (filter (\<lambda>e. e = Tick) es) = timeout"

definition stage_inv :: "nat \<Rightarrow> serve_event list \<Rightarrow> Process \<Rightarrow> bool" where
  "stage_inv timeout es p \<longleftrightarrow>
     (case p_stage p of
        AwaitSignal \<Rightarrow> p_listening p \<and> \<not> p_watcher p \<and> \<not> p_hook p \<and> \<not> p_cancelled p \<and> Tick \<notin> set es
      | Interrupted \<Rightarrow> p_listening p \<and> \<not> p_hook p \<and> \<not> p_cancelled p \<and> Tick \<notin> set es
      | InShutdown t \<Rightarrow> \<not> p_listening p \<and> t \<le> timeout \<and> length (filter (\<lambda>e. e = Tick) es) = t
      | ShutdownReturned e \<Rightarrow> \<not> p_listening p \<and> shutdown_over timeout es p
      | CleanedUp \<Rightarrow> \<not> p_listening p \<and> shutdown_over timeout es p \<and> p_plugins p = 0
      | Completed \<Rightarrow> \<not> p_listening p \<and> shutdown_over timeout es p \<and> p_plugins p = 0) \<and>
     (p_watcher p \<longleftrightarrow> p_stage p \<noteq> AwaitSignal) \<and>
     p_signals p + (if p_watcher p then 1 else 0) \<le> signals_seen es \<and>
     (p_cancelled p \<longrightarrow> (\<forall>(r, cause) \<in> set (p_requests p). cause = Some ErrServerShutdown)) \<and>
     (\<not> p_cancelled p \<longrightarrow> (\<forall>(r, cause) \<in> set (p_requests p). cause = None)) \<and>
     (\<not> p_listening p \<longrightarrow> p_hook p \<or> p_cancelled p) \<and>
     (case p_main p of
        InServe \<Rightarrow> True
      | AwaitComplete \<Rightarrow> \<not> p_listening p
      | Exited n \<Rightarrow> n = 0 \<and> p_stage p = Completed \<or>
          n = 1 \<and> ((\<exists>e. ServeFails e \<in> set es) \<or> SecondSignal \<in> set es \<and> 2 \<le> signals_seen es))"

lemmas stage_defs = stage_inv_def signals_seen_def shutdown_over_def

lemma stage_inv_step:
  assumes "stage_inv timeout es p" "serve_step timeout ev p q"
  shows "stage_inv timeout (es @ [ev]) q"
  using assms(2)
  by cases (insert assms(1), auto simp: stage_defs filter_empty_conv split: sig_stage.splits main_stage.splits if_splits)

lemma stage_inv_serving: "stage_inv timeout [] (serving n)"
  by (simp add: stage_inv_def serving_def)

lemma stage_inv_run: "serve_run timeout es p q \<Longrightarrow> p = serving n \<Longrightarrow> stage_inv timeout es q"
  by (induction rule: serve_run.induct) (auto intro: stage_inv_serving stage_inv_step)

text \<open>What the steps that were taken tell about the process.\<close>

lemma shutdown_started:
  "serve_run timeout es p q \<Longrightarrow> p = serving n \<Longrightarrow>
     (StartShutdown \<in> set es \<longrightarrow> \<not> p_listening q) \<and> (CancelRequests \<in> set es \<longrightarrow> p_cancelled q)"
proof (induction rule: serve_run.induct)
  case (step es p q ev r)
  from step.hyps(2) step.IH [OF step.prems] show ?case by cases auto
qed simp

text \<open>
  Property C38. The process ends with the status 0 only after a signal, when its plugins have been
  stopped and either no request was open or the time limit has passed; with the status 1 only
  when accepting connections failed or a second signal came. A shutdown cancels every open request:
  from its start, until the process has ended, the function that does so has run or can run; once
  it has, every open request has been cancelled with \<open>ErrServerShutdown\<close>, those that are accepted
  later too, and before no request has been.
\<close>

theorem server_ends_gracefully:
  assumes "serve_run timeout es (serving n) p"
  shows "(p_main p = Exited 0 \<longrightarrow> 1 \<le> signals_seen es \<and> p_plugins p = 0 \<and>
      (p_requests p = [] \<or> length (filter (\<lambda>e. e = Tick) es) = timeout)) \<and>
    (\<forall>k. p_main p = Exited k \<and> k \<noteq> 0 \<longrightarrow> k = 1 \<and>
      ((\<exists>e. ServeFails e \<in> set es) \<or> SecondSignal \<in> set es \<and> 2 \<le> signals_seen es)) \<and>
    (StartShutdown \<in> set es \<and> (\<forall>k. p_main p \<noteq> Exited k) \<longrightarrow> p_cancelled p \<or> (\<exists>q. serve_step timeout CancelRequests p q)) \<and>
    (CancelRequests \<in> set es \<longrightarrow> (\<forall>(r, cause) \<in> set (p_requests p). cause = Some ErrServerShutdown)) \<and>
    (\<forall>(r, cause) \<in> set (p_requests p). cause = (if p_cancelled p then Some ErrServerShutdown else None))"
proof -
  note inv = stage_inv_run [OF assms refl] and seen = shutdown_started [OF assms refl]
  have "p_cancelled p \<or> (\<exists>q. serve_step timeout CancelRequests p q)"
    if "StartShutdown \<in> set es" "\<forall>k. p_main p \<noteq> Exited k"
  proof -
    have "p_main p = InServe \<or> p_main p = AwaitComplete" using that(2) by (cases "p_main p") auto
    moreover have "p_hook p \<or> p_cancelled p" using inv seen that(1) by (simp add: stage_inv_def)
    ultimately show ?thesis using cancel_requests [of p timeout] by blast
  qed
  moreover have "\<forall>(r, cause) \<in> set (p_requests p). cause = (if p_cancelled p then Some ErrServerShutdown else None)"
    using inv by (auto simp: stage_inv_def)
  moreover have "p_main p = Exited 0 \<longrightarrow> 1 \<le> signals_seen es \<and> p_plugins p = 0 \<and>
      (p_requests p = [] \<or> length (filter (\<lambda>e. e = Tick) es) = timeout)"
    using inv by (auto simp: stage_inv_def shutdown_over_def split: sig_stage.splits main_stage.splits if_splits)
  moreover have "\<forall>k. p_main p = Exited k \<and> k \<noteq> 0 \<longrightarrow> k = 1 \<and>
      ((\<exists>e. ServeFails e \<in> set es) \<or> SecondSignal \<in> set es \<and> 2 \<le> signals_seen es)"
    using inv by (auto simp: stage_inv_def)
  ultimately show ?thesis using seen by (intro conjI) (auto split: if_splits)
qed

text \<open>
  The most steps, other than the arrival of signals, that are left once \<^verbatim>\<open>Shutdown\<close> runs.
\<close>

definition stage_left :: "nat \<Rightarrow> sig_stage \<Rightarrow> nat" where
  "stage_left timeout st =
     (case st of InShutdown t \<Rightarrow> timeout - t + 3 | ShutdownReturned e \<Rightarrow> 2 | CleanedUp \<Rightarrow> 1 | _ \<Rightarrow> 0)"

definition end_left :: "nat \<Rightarrow> Process \<Rightarrow> nat" where
  "end_left timeout p =
     stage_left timeout (p_stage p) + length (p_requests p) + (if p_hook p then 1 else 0) +
     (case p_main p of InServe \<Rightarrow> 2 | AwaitComplete \<Rightarrow> 1 | Exited k \<Rightarrow> 0)"

definition stopping :: "Process \<Rightarrow> bool" where
  "stopping p \<longleftrightarrow> \<not> p_listening p \<and> p_stage p \<noteq> AwaitSignal \<and> p_stage p \<noteq> Interrupted"

lemma end_left_step:
  assumes "serve_step timeout ev p q" "stopping p"
  shows "stopping q \<and> (if ev = Signal then end_left timeout q = end_left timeout p else end_left timeout q < end_left timeout p)"
  using assms(1)
  by cases (insert assms(2), auto simp: stopping_def end_left_def stage_left_def split: main_stage.splits)

lemma end_left_run:
  "serve_run timeout es p q \<Longrightarrow> stopping p \<Longrightarrow>
     stopping q \<and> length (filter (\<lambda>e. e \<noteq> Signal) es) + end_left timeout q \<le> end_left timeout p"
  by (induction rule: serve_run.induct) (auto dest!: end_left_step split: if_splits)

text \<open>
  The steps of the process itself and of its clock: not the arrival of a signal or a request, and not
  the end of a request, for which the process may wait for ever.
\<close>

definition own_step :: "serve_event \<Rightarrow> bool" where
  "own_step ev = (case ev of Signal \<Rightarrow> False | NewRequest r \<Rightarrow> False | RequestEnds r \<Rightarrow> False | _ \<Rightarrow> True)"

lemma own_steps [simp]:
  "own_step Tick" "own_step DeadlineExceeded" "own_step CleanupPlugins" "own_step CloseComplete" "own_step ServeReturns"
  "own_step MainReturns" "\<not> own_step Signal"
  by (simp_all add: own_step_def)

definition own_left :: "nat \<Rightarrow> Process \<Rightarrow> nat" where
  "own_left timeout p = end_left timeout p - length (p_requests p)"

lemma own_left_step:
  assumes "serve_step timeout ev p q" "stopping p"
  shows "(if own_step ev then 1 else 0) + own_left timeout q \<le> own_left timeout p"
  using assms(1)
  by cases (insert assms(2), auto simp: own_step_def own_left_def stopping_def end_left_def stage_left_def split: main_stage.splits)

lemma own_left_run:
  "serve_run timeout es p q \<Longrightarrow> stopping p \<Longrightarrow> length (filter own_step es) + own_left timeout q \<le> own_left timeout p"
proof (induction rule: serve_run.induct)
  case (step es p q ev r)
  from end_left_run [OF step.hyps(1) step.prems] have "stopping q" by blast
  from own_left_step [OF step.hyps(2) this] step.IH [OF step.prems] show ?case by auto
qed simp

lemma own_left_bound: "own_left timeout p \<le> timeout + 6"
  by (auto simp: own_left_def end_left_def stage_left_def split: sig_stage.splits main_stage.splits)

lemma stopping_goes_on:
  assumes "stage_inv timeout es p" "stopping p" "\<And>k. p_main p \<noteq> Exited k"
  shows "\<exists>ev q. own_step ev \<and> serve_step timeout ev p q"
proof -
  have main: "p_main p = InServe \<or> p_main p = AwaitComplete" using assms(3) by (cases "p_main p") auto
  show ?thesis
  proof (cases "p_stage p")
    case (InShutdown t)
    show ?thesis
    proof (cases "t < timeout")
      case True
      from tick [OF main InShutdown this] show ?thesis using own_steps by blast
    next
      case False
      then have "t = timeout" using assms(1) InShutdown by (auto simp: stage_inv_def)
      then show ?thesis using deadline [OF main, of timeout] InShutdown own_steps by blast
    qed
  next
    case (ShutdownReturned e)
    from cleanup [OF main this] show ?thesis using own_steps by blast
  next
    case CleanedUp
    from close_complete [OF main this] show ?thesis using own_steps by blast
  next
    case Completed
    from main show ?thesis
    proof
      assume "p_main p = InServe"
      with serve_returns [of p timeout] assms(2) have "\<exists>q. serve_step timeout ServeReturns p q" by (auto simp: stopping_def)
      then show ?thesis using own_steps by blast
    next
      assume "p_main p = AwaitComplete"
      from main_returns [OF this Completed] show ?thesis using own_steps by blast
    qed
  qed (use assms(2) in \<open>auto simp: stopping_def\<close>)
qed

lemma serve_run_append:
  "serve_run timeout fs p q \<Longrightarrow> serve_run timeout es a p \<Longrightarrow> serve_run timeout (es @ fs) a q"
proof (induction rule: serve_run.induct)
  case (step fs p q ev r)
  from serve_run.step [OF step.IH [OF step.prems] step.hyps(2)] show ?case by simp
qed simp

lemma end_left_bound: "end_left timeout p \<le> timeout + length (p_requests p) + 6"
  by (auto simp: end_left_def stage_left_def split: sig_stage.splits main_stage.splits)

text \<open>
  Property C39. Once \<^verbatim>\<open>Shutdown\<close> runs, the process ends by its own steps and those of its clock, at most
  six more than the time limit: until it has ended one of them can be taken, even when no open
  request ever ends. All steps together are bounded too, by the time limit and the requests that are
  open. No request, signal or error of closing the listeners can keep the server from ending.
\<close>

theorem shutdown_ends:
  assumes "serve_run timeout es (serving n) p" "stopping p" "serve_run timeout fs p q"
  shows "length (filter own_step fs) \<le> timeout + 6 \<and>
    length (filter (\<lambda>e. e \<noteq> Signal) fs) \<le> timeout + length (p_requests p) + 6 \<and>
    ((\<exists>k. p_main q = Exited k) \<or> (\<exists>ev r. own_step ev \<and> serve_step timeout ev q r))"
proof -
  note left = end_left_run [OF assms(3,2)]
  from left have "length (filter (\<lambda>e. e \<noteq> Signal) fs) \<le> timeout + length (p_requests p) + 6"
    using end_left_bound [of timeout p] by simp
  moreover have "length (filter own_step fs) \<le> timeout + 6"
    using own_left_run [OF assms(3,2)] own_left_bound [of timeout p] by simp
  moreover from stopping_goes_on [OF stage_inv_run [OF serve_run_append [OF assms(3,1)] refl]] left
  have "(\<exists>k. p_main q = Exited k) \<or> (\<exists>ev r. own_step ev \<and> serve_step timeout ev q r)" by blast
  ultimately show ?thesis by blast
qed

lemma serve_run_Cons: "serve_step timeout ev p q \<Longrightarrow> serve_run timeout es q r \<Longrightarrow> serve_run timeout (ev # es) p r"
  using serve_run_append [of timeout es q r "[ev]" p] serve_run.step [OF serve_run.start, of timeout ev p q] by simp

text \<open>A server with a plugin and one request is interrupted, and ends after the request has.\<close>

definition interruption :: "serve_event list" where
  "interruption = [NewRequest 1, Signal, FirstSignal, StartShutdown]"

definition calm_end :: "serve_event list" where
  "calm_end = [ServeReturns, CancelRequests, Tick, RequestEnds 1, AllIdle None, CleanupPlugins, CloseComplete, MainReturns]"

definition interrupted_server :: Process where
  "interrupted_server =
     \<lparr>p_signals = 0, p_stage = InShutdown 0, p_watcher = True, p_listening = False, p_hook = True,
      p_cancelled = False, p_requests = [(1, None)], p_plugins = 1, p_main = InServe\<rparr>"

lemma interruption_run: "serve_run timeout interruption (serving 1) interrupted_server"
proof -
  let ?p = "(serving 1)\<lparr>p_requests := [(1, None)]\<rparr>"
  have s: "serve_step timeout (NewRequest 1) (serving 1) ?p" "serve_step timeout Signal ?p (?p\<lparr>p_signals := 1\<rparr>)"
    "serve_step timeout FirstSignal (?p\<lparr>p_signals := 1\<rparr>) (?p\<lparr>p_stage := Interrupted, p_watcher := True\<rparr>)"
    "serve_step timeout StartShutdown (?p\<lparr>p_stage := Interrupted, p_watcher := True\<rparr>) interrupted_server"
    using new_request [of "serving 1" timeout 1] signal [of ?p timeout] first_signal [of "?p\<lparr>p_signals := 1\<rparr>" 0 timeout]
      start_shutdown [of "?p\<lparr>p_stage := Interrupted, p_watcher := True\<rparr>" timeout]
    by (simp_all add: serving_def interrupted_server_def)
  show ?thesis unfolding interruption_def
    by (rule serve_run_Cons [OF s(1) serve_run_Cons [OF s(2) serve_run_Cons [OF s(3) serve_run_Cons [OF s(4) serve_run.start]]]])
qed

lemma calm_end_run: "\<exists>p. serve_run 5 calm_end interrupted_server p \<and> p_main p = Exited 0"
proof -
  let ?p = "interrupted_server\<lparr>p_main := AwaitComplete, p_hook := False, p_cancelled := True, p_requests := []\<rparr>"
  let ?q = "?p\<lparr>p_plugins := 0\<rparr>"
  have s: "serve_step 5 ServeReturns interrupted_server (interrupted_server\<lparr>p_main := AwaitComplete\<rparr>)"
    "serve_step 5 CancelRequests (interrupted_server\<lparr>p_main := AwaitComplete\<rparr>) (?p\<lparr>p_requests := [(1, Some ErrServerShutdown)]\<rparr>)"
    "serve_step 5 Tick (?p\<lparr>p_requests := [(1, Some ErrServerShutdown)]\<rparr>) (?p\<lparr>p_stage := InShutdown 1, p_requests := [(1, Some ErrServerShutdown)]\<rparr>)"
    "serve_step 5 (RequestEnds 1) (?p\<lparr>p_stage := InShutdown 1, p_requests := [(1, Some ErrServerShutdown)]\<rparr>) (?p\<lparr>p_stage := InShutdown 1\<rparr>)"
    "serve_step 5 (AllIdle None) (?p\<lparr>p_stage := InShutdown 1\<rparr>) (?p\<lparr>p_stage := ShutdownReturned None\<rparr>)"
    "serve_step 5 CleanupPlugins (?p\<lparr>p_stage := ShutdownReturned None\<rparr>) (?q\<lparr>p_stage := CleanedUp\<rparr>)"
    "serve_step 5 CloseComplete (?q\<lparr>p_stage := CleanedUp\<rparr>) (?q\<lparr>p_stage := Completed\<rparr>)"
    "serve_step 5 MainReturns (?q\<lparr>p_stage := Completed\<rparr>) (?q\<lparr>p_stage := Completed, p_main := Exited 0\<rparr>)"
    using serve_returns [of interrupted_server 5] cancel_requests [of "interrupted_server\<lparr>p_main := AwaitComplete\<rparr>" 5]
      tick [of "?p\<lparr>p_requests := [(1, Some ErrServerShutdown)]\<rparr>" 0 5]
      request_ends [of "?p\<lparr>p_stage := InShutdown 1, p_requests := [(1, Some ErrServerShutdown)]\<rparr>" "[]" 1 "Some ErrServerShutdown" "[]" 5]
      all_idle [of "?p\<lparr>p_stage := InShutdown 1\<rparr>" 1 5 None] cleanup [of "?p\<lparr>p_stage := ShutdownReturned None\<rparr>" None 5]
      close_complete [of "?q\<lparr>p_stage := CleanedUp\<rparr>" 5] main_returns [of "?q\<lparr>p_stage := Completed\<rparr>" 5]
    by (simp_all add: interrupted_server_def)
  have "serve_run 5 calm_end interrupted_server (?q\<lparr>p_stage := Completed, p_main := Exited 0\<rparr>)"
    unfolding calm_end_def
    by (rule serve_run_Cons [OF s(1) serve_run_Cons [OF s(2) serve_run_Cons [OF s(3) serve_run_Cons [OF s(4) serve_run_Cons [OF s(5) serve_run_Cons [OF s(6) serve_run_Cons [OF s(7) serve_run_Cons [OF s(8) serve_run.start]]]]]]]])
  moreover have "p_main (?q\<lparr>p_stage := Completed, p_main := Exited 0\<rparr>) = Exited 0" by simp
  ultimately show ?thesis by blast
qed

theorem server_ends_gracefully_witness:
  "\<exists>p. serve_run 5 (interruption @ calm_end) (serving 1) p \<and> p_main p = Exited 0 \<and> p_plugins p = 0 \<and> p_requests p = []"
proof -
  obtain p where p: "serve_run 5 calm_end interrupted_server p" "p_main p = Exited 0" using calm_end_run by blast
  note run = serve_run_append [OF p(1) interruption_run]
  have "length (filter (\<lambda>e. e = Tick) (interruption @ calm_end)) = 1" by (simp add: interruption_def calm_end_def)
  with server_ends_gracefully [OF run] run p(2) show ?thesis by auto
qed

text \<open>The same server when its request never ends: the limit of one second passes.\<close>

lemma hanging_run: "\<exists>q. serve_run 1 [Tick] interrupted_server q \<and> p_main q = InServe \<and> p_requests q \<noteq> []"
proof -
  have "serve_step 1 Tick interrupted_server (interrupted_server\<lparr>p_stage := InShutdown 1\<rparr>)"
    using tick [of interrupted_server 0 1] by (simp add: interrupted_server_def)
  from serve_run.step [OF serve_run.start this] show ?thesis by (auto simp: interrupted_server_def)
qed

theorem shutdown_ends_witness:
  "\<exists>q. serve_run 1 [Tick] interrupted_server q \<and> p_requests q \<noteq> [] \<and> (\<exists>ev r. own_step ev \<and> serve_step 1 ev q r)"
proof -
  obtain q where q: "serve_run 1 [Tick] interrupted_server q" "p_main q = InServe" "p_requests q \<noteq> []" using hanging_run by blast
  have "stopping interrupted_server" by (simp add: stopping_def interrupted_server_def)
  from shutdown_ends [OF interruption_run [of 1] this q(1)] q show ?thesis by auto
qed

section \<open>Starting\<close>

text \<open>
  What \<^verbatim>\<open>Serve\<close> has set up when it begins to accept connections: the handler of the uploads, the
  paths, the options of the server, the listener and, for TLS, its configuration.
\<close>

definition start_server ::
  "(string \<Rightarrow> err + bool) \<Rightarrow> (string \<Rightarrow> err + (string \<Rightarrow> bool)) \<Rightarrow> HookPlatform \<Rightarrow>
     (string \<Rightarrow> err + string \<times> string gomap) \<Rightarrow> (string \<Rightarrow> string) \<Rightarrow> string \<Rightarrow>
     (string \<Rightarrow> 'o \<Rightarrow> err + file_mode) \<Rightarrow> (string \<Rightarrow> 'o \<Rightarrow> err option \<times> 'o) \<Rightarrow> (string \<Rightarrow> string \<Rightarrow> 'o \<Rightarrow> (err + 'n) \<times> 'o) \<Rightarrow>
     Flags \<Rightarrow> ('s, 'u, 'l, 'k) StoreComposer \<Rightarrow> 'o \<Rightarrow>
     (string + (Request \<Rightarrow> (('s, 'l) world, unit) state) \<times> (string \<times> route) list \<times> HttpServer \<times> 'n \<times> tls_config option) \<times> 'o" where
  "start_server url_Parse regexp_Compile hp media quote auth stat remove listen fl composer0 s =
     (case serve_handler url_Parse regexp_Compile hp media quote fl composer0 of
        Inl t \<Rightarrow> (Inl t, s)
      | Inr serve \<Rightarrow>
          (case serve_mux auth fl of
             Inl t \<Rightarrow> (Inl t, s)
           | Inr routes \<Rightarrow>
               (case serve_listener stat remove listen fl s of
                  (Inl t, s1) \<Rightarrow> (Inl t, s1)
                | (Inr l, s1) \<Rightarrow>
                    if serve_protocol fl = ''http'' then (Inr (serve, routes, serve_server fl, l, None), s1)
                    else (case serveTLS_config fl of
                            Inl t \<Rightarrow> (Inl t, s1)
                          | Inr tls \<Rightarrow> (Inr (serve, routes, serve_server fl, l, Some tls), s1)))))"

text \<open>
  In a server that has started, the URLs that the handler prints lead to the uploads: their base
  path is registered with the prefix that is the base path.
\<close>

lemma mux_Handle_routes:
  "mux_Handle ps rs = Inr qs \<Longrightarrow> distinct (map fst ps) \<Longrightarrow> qs = ps @ rs \<and> distinct (map fst qs)"
proof (induction ps rs rule: mux_Handle.induct)
  case (2 ps path r rs)
  then have new: "\<not> (CHR 0x2F \<notin> set path \<or> map_of ps path \<noteq> None)" by (auto split: if_splits)
  then have "distinct (map fst (ps @ [(path, r)]))" using 2(3) by (auto simp: map_of_eq_None_iff)
  moreover have "mux_Handle (ps @ [(path, r)]) rs = Inr qs" using 2(2) new by (simp only: mux_Handle.simps if_False)
  ultimately have "qs = (ps @ [(path, r)]) @ rs" "distinct (map fst qs)" using 2(1) [OF new] by blast+
  then show ?case by (simp only: append_assoc append.simps simp_thms)
qed simp

lemma started_server_routes_uploads:
  assumes "start_server url_Parse re hp media quote auth stat remove listen fl c s = (Inr (serve, routes, server, l, tls), s')"
    and "HasPrefix (Basepath fl) ''/''"
  shows "map_of routes (validate_base False (Basepath fl)) = Some (Uploads (validate_base False (Basepath fl)))"
proof -
  have mux: "serve_mux auth fl = Inr routes"
    using assms(1) by (auto simp: start_server_def split: sum.splits prod.splits if_splits)
  then obtain ps1 ps2 where ps1: "mux_Handle [] (upload_routes fl) = Inr ps1"
    and ps2: "(if ExposeMetrics fl then mux_Handle ps1 [(MetricsPath fl, MetricsPage)] else Inr ps1) = Inr ps2"
    and ps3: "routes = ps2 \<or> (\<exists>a. mux_Handle ps2 [(PprofPath fl, Profiles pprof_pages a)] = Inr routes)"
    by (auto simp: serve_mux_def split: sum.splits if_splits)
  note r1 = mux_Handle_routes [OF ps1, simplified]
  have r2: "set ps1 \<subseteq> set ps2 \<and> distinct (map fst ps2)"
    using ps2 r1 mux_Handle_routes [of ps1 "[(MetricsPath fl, MetricsPage)]" ps2] by (auto split: if_splits)
  have r3: "set ps2 \<subseteq> set routes \<and> distinct (map fst routes)"
    using ps3
  proof (elim disjE exE)
    fix a
    assume "mux_Handle ps2 [(PprofPath fl, Profiles pprof_pages a)] = Inr routes"
    from mux_Handle_routes [OF this] r2
    have "routes = ps2 @ [(PprofPath fl, Profiles pprof_pages a)]" "distinct (map fst routes)" by blast+
    then show ?thesis by (simp only: set_append Un_upper1 simp_thms)
  qed (use r2 in simp)
  have "(validate_base False (Basepath fl), Uploads (validate_base False (Basepath fl))) \<in> set (upload_routes fl)"
  proof -
    obtain rs g where rs: "serve_routes fl = (rs, g)" by (metis surj_pair)
    have "(validate_base False (Basepath fl), validate_base False (Basepath fl)) \<in> set rs"
      using uploads_are_routed [OF assms(2)] by (simp only: rs fst_conv)
    from imageI [OF this, of "\<lambda>(path, prefix). (path, Uploads prefix)"] show ?thesis
      by (simp only: upload_routes_def rs prod.case set_append set_map UnI2)
  qed
  then have "(validate_base False (Basepath fl), Uploads (validate_base False (Basepath fl))) \<in> set routes"
    using r1 r2 r3 by blast
  with r3 show ?thesis by (simp only: map_of_is_SomeI)
qed














end
