(* ===== verification/Spec2Isabelle.thy ===== *)
theory Spec2Isabelle
  imports Posting Addressing MemoryLocker FileLocker CloudSession S3Workers S3Holes GCSSizes Collector Serve
begin

text \<open>
  A verification of tusd, the reference server of the tus protocol for resumable uploads.

  \<^bold>\<open>The program.\<close> A client creates an upload with POST, asks for its offset with HEAD, appends
  bytes at that offset with PATCH, reads it with GET and removes it with DELETE; uploads can be
  concatenated, and their length can be declared later. The handlers of \<^verbatim>\<open>pkg/handler\<close> parse
  the request, take the lock of the upload from a locker, call the operations of a data store
  and write a response. Stores and lockers are interfaces; this development models the four stores
  (local files, S3, Google Cloud Storage, Azure) and both lockers of the repository. Hooks
  are told about uploads and may reject or stop them; the command line puts the parts together.

  \<^bold>\<open>The theories.\<close>
  \<^item> \<open>Prelude\<close>: actions that thread a state and may fail (\<open>action\<close>, \<open>run_state\<close>), their Hoare
    triples, and the lemmas on lists, maps and 64-bit arithmetic that the rest uses.
  \<^item> \<open>GoLib\<close>: what the program uses of Go's standard library: decimal numbers, trimming and
    splitting of strings, base64, header keys, paths, UTF-8 repair.
  \<^item> \<open>HttpTypes\<close>: \<^verbatim>\<open>http.go\<close>, \<^verbatim>\<open>error.go\<close>, \<^verbatim>\<open>metrics.go\<close> and the error values.
  \<^item> \<open>BodyReader\<close>: \<^verbatim>\<open>body_reader.go\<close>. A request body is a list of reads, each with its bytes
    and possibly an error, so that interruptions at any point are covered.
  \<^item> \<open>DataStore\<close>: the interfaces of \<^verbatim>\<open>datastore.go\<close> as records of operations, \<^verbatim>\<open>composer.go\<close>,
    \<^verbatim>\<open>config.go\<close> and the hook events.
  \<^item> \<open>HeaderParsing\<close>: the functions of \<^verbatim>\<open>unrouted_handler.go\<close> that read and print headers,
    URLs and identifiers, and the constructor of the handler. \<open>Addressing\<close> adds what \<^verbatim>\<open>net/url\<close> and
    \<^verbatim>\<open>ServeMux\<close> do to the path of a request before the handler sees it (\<open>handler_path\<close>).
  \<^item> \<open>Handler\<close>: the handlers themselves with their error paths, the middleware and the routing of
    \<^verbatim>\<open>handler.go\<close> (\<open>ServeHTTP\<close>), over a world with store, locks, counters, notifications and
    response writer. The store and the locker are parameters.
  \<^item> \<open>FileStore\<close>: \<^verbatim>\<open>filestore.go\<close> and \<^verbatim>\<open>uid.go\<close> over a file system in which every call may fail
    (\<open>fs_faults\<close>).
  \<^item> \<open>MemoryLocker\<close>, \<open>FileLocker\<close>: the two lockers. For the memory locker the steps between the
    sections of its mutex interleave freely (\<open>lock_step\<close>).
  \<^item> \<open>StoreContract\<close>: what a data store promises to the handlers, as locales over an abstract view
    that gives each identifier its information and bytes, with what follows for each handler.
    \<open>Reliability\<close> adds that the store does not fail, \<open>Server\<close> and \<open>Posting\<close> extend the contract to
    whole requests and to creation. The interpretations on the file store are \<open>file_server\<close>
    (\<open>FileHandler\<close>), \<open>calm_server\<close>, \<open>file_site\<close> and \<open>file_maker\<close>, the last over \<open>Creation\<close>.
  \<^item> \<open>RequestContext\<close>: \<^verbatim>\<open>context.go\<close> and the mutex sections of \<^verbatim>\<open>body_reader.go\<close> as labelled steps of the
    goroutines of a request (\<open>ctx_act\<close>), whose interleavings have the outcomes of the atomic reader
    of \<open>BodyReader\<close>. \<open>Session\<close> runs a client's PATCH requests through the handler for any store that meets
    the locale \<open>resumable_store\<close>; \<open>CloudSession\<close> interprets it on the three cloud stores
    (\<open>gcs_session\<close>, \<open>az_session\<close>, \<open>s3_session\<close>).
  \<^item> \<open>S3Store\<close>: \<^verbatim>\<open>s3store.go\<close>, \<^verbatim>\<open>s3store_part_producer.go\<close> and \<^verbatim>\<open>serve_content.go\<close> over a client
    that is a record of the calls used. \<open>S3Parts\<close> is about part sizes, identifiers and the part
    producer, \<open>S3Service\<close> states the documented behaviour of the service (\<open>s3_reliable\<close>) and has an
    in-memory service that meets it, \<open>S3Facts\<close> and \<open>S3Upload\<close> relate an upload to its bytes.
    \<open>S3Workers\<close> has the goroutines that upload parts at the same time and their semaphore as steps
    (\<open>part_act\<close>), \<open>S3Requests\<close> the requests that fetch the information of an upload or terminate it.
    \<open>S3Holes\<close> is about a service that refuses some parts (\<open>refuse_parts\<close>). \<open>S3Log\<close> is \<^verbatim>\<open>internal/s3log\<close>,
    the client that logs its calls.
  \<^item> \<open>GCSStore\<close>: \<^verbatim>\<open>gcsstore.go\<close> and \<^verbatim>\<open>gcsservice.go\<close>. \<open>GCSFacts\<close> is about checksums, names and the
    order of chunks. \<open>GCSUpload\<close> states what the store needs of the service (the locale \<open>gcs_api\<close>)
    and derives the behaviour of uploads; \<open>GCSCloud\<close> shows that the modelled service meets it
    (\<open>cloud\<close>) when its client library does (\<open>gcs_reliable\<close>, with an in-memory library). \<open>GCSSizes\<close> has the
    goroutines of \<^verbatim>\<open>GetInfo\<close> that ask for the sizes as steps (\<open>size_act\<close>); the requests of \<open>gcs_GetInfo\<close>, which
    makes them one after the other, are one of their interleavings.
  \<^item> \<open>AzureStore\<close>: \<^verbatim>\<open>azurestore.go\<close> and \<^verbatim>\<open>azureservice.go\<close>; \<open>AzureFacts\<close> and \<open>AzureUpload\<close> as for S3
    (\<open>az_reliable\<close>). The locale \<open>reliable_writer\<close> of \<open>Reliability\<close> is about copying a body to a
    writer; its interpretations \<open>gcs_writer\<close> and \<open>az_tmp_writer\<close> serve these two stores.
  \<^item> \<open>Hooks\<close>: \<^verbatim>\<open>pkg/hooks/hooks.go\<close>, with the goroutine that dispatches notifications as a step
    relation (\<open>dispatch\<close>). \<open>HookBackends\<close>: the file, HTTP and gRPC backends. \<open>PluginHooks\<close>: hooks in a
    plugin, with both ends of the RPC connection.
  \<^item> \<open>Collector\<close>: \<^verbatim>\<open>pkg/prometheuscollector\<close>.
  \<^item> \<open>Cli\<close>: \<^verbatim>\<open>cmd/tusd/cli\<close>, which reads the flags and puts store, locker, hooks and handler together.
    \<open>Serve\<close>: \<^verbatim>\<open>serve.go\<close>, the paths, the listener, TLS, and the end of the server after a signal as a step
    relation (\<open>serve_step\<close>).

  \<^bold>\<open>What is shown.\<close> This theory holds the properties of the server on the file store: stored bytes
  are never changed, acknowledged bytes are stored, wrong requests change nothing, good requests
  succeed when the file system does not fail, and clients that resume end up with their data.
  \<open>HeaderParsing\<close> shows that printed headers are parsed back and which values are accepted, \<open>Addressing\<close>
  which of the accepted identifiers the URL of an upload leads back to,
  \<open>MemoryLocker\<close> mutual exclusion and the release of locks after every request, \<open>FileLocker\<close> where
  its locks come from. \<open>RequestContext\<close> shows that an interrupted body is never taken for a complete one and
  that an interrupted reader stops: until the handler is answered it has a step that needs neither the
  client nor the clock. For the S3, Google Cloud and Azure stores it is shown that writing
  appends to what is stored, that what was written and finished is what is read back, that a client that
  uploads in several requests gets the right answers and its data stored, with the logging of calls to
  S3 as without, that requests sent at the same time have the result of sending them one after the other, that parts respect
  the limits of the service, that optimised and plain concatenation agree, and where the code falls
  short of this: a late length or a failed part on S3, a panic when a failed request is logged, empty
  uploads, common prefixes of identifiers and lost errors on Google Cloud. For hooks it is shown that a
  rejected upload leaves no trace, that every notification reaches its hook exactly once, which HTTP
  responses are accepted, that gRPC hooks cannot reject terminations, and what a plugin's hooks lose on
  the way; \<open>Cli\<close> shows that every composer it builds is complete, \<open>Serve\<close> for which flags the server gets
  as far as accepting connections, how the process ends, that a shutdown cancels every open request, and
  that the process ends even when a request never does.

  \<^bold>\<open>Bounds.\<close> Every Go \<^verbatim>\<open>int64\<close> is an \<open>int\<close> with the wrap-around written out where an operation can
  overflow; the hypotheses \<open>fits\<close> and \<open>all_fit\<close> keep the stored sizes below \<open>MaxInt64\<close>. Bodies,
  waiting times and polls are lists of events, and all functions are total. The only fuel is
  \<open>maxPages\<close>, the number of pages that the listing of the parts of an S3 upload asks for; a
  reliable service needs no more pages than there are parts, and the lemmas assume that much.

  \<^bold>\<open>Parameters.\<close> The clients of the cloud services, the lockfile package, the encoding as JSON, the
  run of programs, the start of plugins and the HTTP and gRPC clients of the hooks are arguments. What is
  assumed of the services is what their documentation promises when no request fails (a put object is
  read back, parts are listed by number, composed objects are concatenations, committed blocks are
  the blob); each assumption is a predicate with an in-memory instance that satisfies it, on which
  the examples run.

  \<^bold>\<open>Not modelled.\<close> Logging other than that of the calls to S3, the deadlines for writing responses and
  informational 1xx responses other than 104. In the handlers the timers and goroutines of \<^verbatim>\<open>context.go\<close>
  are events of the body; \<open>RequestContext\<close> justifies this. The order of concurrent requests on the same
  world is left out except in \<open>MemoryLocker\<close>, \<open>S3Workers\<close>, \<open>S3Requests\<close> and \<open>resume_step\<close>; the copies of a concatenation
  on S3 are made one after the other, and the duration metrics of its store are left out. Not modelled are further the generated gRPC code, the registration of metrics with the Prometheus library, the help of the flags and the texts that the
  command line prints. Of \<^verbatim>\<open>ServeMux\<close> only patterns without wildcards, methods and hosts are modelled; the
  routing of a request to one of the registered paths is left to \<^verbatim>\<open>net/http\<close>.
\<close>

section \<open>The server on the local file system\<close>

definition all_fit :: "uploads \<Rightarrow> Request \<Rightarrow> bool" where
  "all_fit v c \<longleftrightarrow> int (length (request_bytes c)) \<le> MaxInt64 \<and> (\<forall>j. fits (v j) c)"

text \<open>
  Property C1. No request, of any method and with any outcome, with or without failing file
  operations, changes a byte that has been stored: afterwards an upload either has its old
  bytes followed by some first bytes of the request's body, and is of the same kind and, once
  known, of the same size, or it has been removed. The place of a new upload must be free,
  which holds for identifiers that are not in use.
\<close>

theorem stored_bytes_are_kept:
  assumes "ok_world store w" "all_fit (uploads_in store w) c"
    "place_is_free (fs_fresh store) (file_handler serve store locker cfg) c (w_store w)"
    "run_state (ServeHTTP (file_handler serve store locker cfg) c) w = (u, w')"
  shows "ok_world store w' \<and>
    (\<forall>j info content. uploads_in store w j = Some (info, content) \<longrightarrow>
       uploads_in store w' j = None \<or>
       (\<exists>info' m. uploads_in store w' j = Some (info', content @ take m (request_bytes c)) \<and> kind_kept info info'))"
proof -
  have "int (length c0) + int (length (request_bytes c)) \<le> MaxInt64" if "uploads_in store w j = Some (info0, c0)" for j info0 c0
    using assms(2) that by (auto simp: all_fit_def fits_def dest: spec [of _ j])
  moreover have "int (length (request_bytes c)) \<le> MaxInt64" using assms(2) by (simp add: all_fit_def)
  ultimately have "ok_world store w' \<and> (\<forall>j x. uploads_in store w j = Some x \<longrightarrow> advances (request_bytes c) x (uploads_in store w' j))"
    using tripleD [OF file_maker.ServeHTTP_any [where v = "uploads_in store w" and c = c] _ assms(4)] assms(1,3)
    by auto
  then show ?thesis by (auto simp: advances_def)
qed

text \<open>The first identifier that is drawn in the example.\<close>

definition demo_id :: string where
  "demo_id = ''30313233343536373839616263646566''"

lemma demo_free: "place_is_free (fs_fresh (New ''d'')) demo_handler c (demo_fs n bs)"
proof -
  have hex: "hex_encode ''0123456789abcdef'' = demo_id" by (simp add: hex_char_def demo_id_def)
  have paths: "infoPath (New ''d'') demo_id = ''d/'' @ demo_id @ ''.info''" "FilepathJoin ''d'' demo_id = ''d/'' @ demo_id"
    by (simp_all add: infoPath_def demo_id_def New_def FilepathJoin_def Clean_def Let_def)
  have "FilepathDir (''d/'' @ demo_id) = ''d''" "FilepathDir (''d/'' @ demo_id @ ''.info'') = ''d''"
    by (simp_all add: FilepathDir_def Clean_def demo_id_def Let_def)
  then have dirs: "made_dirs (''d/'' @ demo_id) = [''d'']" "made_dirs (''d/'' @ demo_id @ ''.info'') = [''d'']"
    by (simp_all add: made_dirs_def parent_dirs_def)
  have utf8: "to_valid_utf8 (''d/'' @ demo_id) = ''d/'' @ demo_id"
    by (rule ascii_valid) (simp add: demo_id_def in_range_def)
  have "fs_fresh (New ''d'') info (demo_fs n bs)" if info: "ID info = []" "Storage info = []" for info
  proof -
    let ?u = "newFileUpload (New ''d'') (info\<lparr>ID := demo_id\<rparr>)"
    have bin: "fu_binPath ?u = ''d/'' @ demo_id"
      using info paths(2) by (simp add: chooseBinPath_def map_str_def defaultBinPath_def New_def Let_def)
    have "\<And>j x. files_of (demo_fs n bs) j = Some [J x] \<Longrightarrow> storedBinPath (New ''d'') x = ''d/a''"
      by (auto simp: demo_fs_def split: if_splits)
    moreover have "files_of (demo_fs n bs) (''d/'' @ demo_id) = None" "files_of (demo_fs n bs) (''d/'' @ demo_id @ ''.info'') = None"
      by (simp_all add: demo_fs_def demo_id_def)
    ultimately have "free_paths (New ''d'') ?u (demo_fs n bs)"
      unfolding free_paths_def bin using utf8 paths(1) dirs by (auto simp: demo_id_def)
    then show ?thesis using info hex by (simp add: fs_fresh_def new_id_def demo_fs_def)
  qed
  then show ?thesis
    by (auto simp: place_is_free_def demo_handler_def pre_create_def)
qed

lemma demo_contents:
  assumes "fs_view (New ''d'') (files_of (demo_fs n bs)) j = Some (info, content)"
  shows "content = bs"
proof -
  from assms obtain x f where "files_of (demo_fs n bs) (infoPath (New ''d'') j) = Some [J x]"
    "files_of (demo_fs n bs) (storedBinPath (New ''d'') x) = Some f" "bytes_of f = Some content"
    by (auto simp: fs_view_def stored_Some split: option.splits)
  moreover from this(1) have "x = demo_info n" by (auto simp: demo_fs_def split: if_splits)
  ultimately show ?thesis by (auto simp: demo_fs_def)
qed

lemma demo_fits:
  assumes "length bs + length data \<le> 100"
  shows "all_fit (uploads_in (New ''d'') (demo_world (demo_fs n bs))) (demo_patch data)"
  using assms by (auto simp: all_fit_def fits_def MaxInt64_def dest: demo_contents split: option.splits)

lemma demo_ok: "ok_world (New ''d'') (demo_world (demo_fs n bs))"
  by simp

lemma demo_stored:
  "uploads_in (New ''d'') (demo_world (demo_fs n bs)) ''a'' = Some ((demo_info n)\<lparr>Offset := int (length bs)\<rparr>, bs)"
  by simp

theorem stored_bytes_are_kept_witness:
  "let w' = snd (run_state (ServeHTTP demo_handler (demo_patch ''cd'')) (demo_world (demo_fs 4 ''ab'')))
   in ok_world (New ''d'') w' \<and>
      (uploads_in (New ''d'') w' ''a'' = None \<or>
       (\<exists>info' m. uploads_in (New ''d'') w' ''a'' = Some (info', ''ab'' @ take m ''cd'') \<and>
          kind_kept ((demo_info 4)\<lparr>Offset := 2\<rparr>) info'))"
proof -
  have "place_is_free (fs_fresh (New ''d'')) demo_handler (demo_patch ''cd'') (w_store (demo_world (demo_fs 4 ''ab'')))"
    using demo_free by simp
  note t = stored_bytes_are_kept [of "New ''d''" "demo_world (demo_fs 4 ''ab'')" "demo_patch ''cd''" demo_serve None demo_config,
      folded demo_handler_def, OF demo_ok demo_fits this prod.collapse [symmetric]]
  have "length ''ab'' + length ''cd'' \<le> 100" by simp
  note kept = conjunct1 [OF t [OF this]] conjunct2 [OF t [OF this], rule_format, OF demo_stored]
  from kept show ?thesis by (simp add: Let_def)
qed

lemma demo_headers [simp]: "req_header (demo_patch bs) k = []"
  by (simp add: demo_patch_def plainRequest_def)

lemma demo_calm: "fs_calm (demo_fs n bs)"
  by (auto simp: fs_calm_def demo_fs_def split: if_splits)

lemma demo_patch_run:
  "\<exists>resp w'. run_state (patch_upload demo_handler (demo_patch ''cd'') (demo_patch ''cd'') ''a'' 2) (demo_world (demo_fs 4 ''ab'')) = (Inr resp, w')"
  using calm_server.patch_upload_ok [where cfg = demo_config and serve = demo_serve and locker = None, OF demo_ok _ demo_stored,
      of 4 "''ab''" "demo_patch ''cd''" "demo_patch ''cd''"]
  by (auto simp: demo_calm demo_handler_def MaxInt64_def)

section \<open>Appending\<close>

text \<open>
  Property C2. When the server acknowledges a PATCH request, the client's offset was the number
  of bytes stored, and all bytes of the request are now stored behind them (an upload that was
  complete before stays as it is). Without a hook that changes the response, the
  \<^verbatim>\<open>Upload-Offset\<close> of the response is the number of bytes stored now.
\<close>

theorem acknowledged_bytes_are_stored:
  assumes "ok_world store w" "fits (uploads_in store w i) c"
    "run_state (patch_upload (file_handler serve store locker cfg) c r i offset) w = (Inr resp, w')"
  shows "\<exists>info content info' content'. uploads_in store w i = Some (info, content) \<and> \<not> IsFinal info \<and>
    offset = int (length content) \<and> uploads_in store w' i = Some (info', content') \<and>
    (if \<not> SizeIsDeferred info \<and> Size info = int (length content) then content' = content
     else content' = content @ request_bytes c \<and> request_err c = None) \<and>
    (PreFinishResponseCallback cfg = None \<longrightarrow>
       map_of (Header resp) ''Upload-Offset'' = Some (FormatInt (int (length content'))))"
proof -
  have "int (length c0) + int (length (request_bytes c)) \<le> MaxInt64" if "uploads_in store w i = Some (info0, c0)" for info0 c0
    using assms(2) that by (simp add: fits_def)
  from tripleD [OF file_server.patch_upload_spec [where v = "uploads_in store w" and i = i and c = c, OF this] _ assms(3)] assms(1)
  have "patch_success (file_handler serve store locker cfg) c offset (uploads_in store w i) (uploads_in store w' i) resp" by simp
  then show ?thesis by (fastforce simp: patch_success_def appended_def split: if_splits)
qed

theorem acknowledged_bytes_are_stored_witness:
  "\<exists>resp w' info'. run_state (patch_upload demo_handler (demo_patch ''cd'') (demo_patch ''cd'') ''a'' 2) (demo_world (demo_fs 4 ''ab'')) = (Inr resp, w') \<and>
    uploads_in (New ''d'') w' ''a'' = Some (info', ''abcd'') \<and> map_of (Header resp) ''Upload-Offset'' = Some (FormatInt 4)"
proof -
  obtain resp w' where run: "run_state (patch_upload demo_handler (demo_patch ''cd'') (demo_patch ''cd'') ''a'' 2) (demo_world (demo_fs 4 ''ab'')) = (Inr resp, w')"
    using demo_patch_run by blast
  have "fits (uploads_in (New ''d'') (demo_world (demo_fs 4 ''ab'')) ''a'') (demo_patch ''cd'')"
    by (simp add: fits_def MaxInt64_def)
  from acknowledged_bytes_are_stored [OF demo_ok this run [unfolded demo_handler_def]] run
  show ?thesis by auto
qed

text \<open>
  Property C7. A PATCH request for a final upload, or at an offset other than the number of bytes
  stored, is refused and changes no upload.
\<close>

theorem wrong_patch_changes_nothing:
  assumes "ok_world store w" "uploads_in store w i = Some (info, content)" "IsFinal info \<or> offset \<noteq> int (length content)"
    "run_state (patch_upload (file_handler serve store locker cfg) c r i offset) w = (res, w')"
  shows "uploads_in store w' = uploads_in store w \<and> (\<exists>e. res = Inl e)"
  using file_server.patch_refused [OF assms(1,2,3,4)] by simp

theorem wrong_patch_changes_nothing_witness:
  "let (res, w') = run_state (patch_upload demo_handler (demo_patch ''cd'') (demo_patch ''cd'') ''a'' 1) (demo_world (demo_fs 4 ''ab''))
   in uploads_in (New ''d'') w' = uploads_in (New ''d'') (demo_world (demo_fs 4 ''ab'')) \<and> (\<exists>e. res = Inl e)"
proof -
  have "IsFinal ((demo_info 4)\<lparr>Offset := int (length ''ab'')\<rparr>) \<or> 1 \<noteq> int (length ''ab'')" by simp
  from wrong_patch_changes_nothing [OF demo_ok demo_stored this prod.collapse [symmetric], of demo_serve None demo_config]
  show ?thesis unfolding demo_handler_def by (simp only: case_prod_beta Let_def)
qed

text \<open>
  Property C4. Without failing file operations, a PATCH request at the right offset succeeds: the
  upload is unfinished and its size is known, the body arrives completely and fits, and its
  length is announced truthfully or not at all. All bytes are stored then.
\<close>

theorem patch_succeeds:
  assumes "ok_world store w" "fs_calm (w_store w)" "uploads_in store w i = Some (info, content)"
    "\<not> IsFinal info" "\<not> SizeIsDeferred info" "Size info \<le> MaxInt64" "int (length content) < Size info"
    "req_header r ''Upload-Length'' = []" "ReqBody c = Some src" "request_err c = None"
    "ContentLength c = int (length (request_bytes c)) \<or> ContentLength c = -1"
    "int (length content) + int (length (request_bytes c)) \<le> Size info" "PreFinishResponseCallback cfg = None"
  shows "\<exists>resp w' info'. run_state (patch_upload (file_handler serve store locker cfg) c r i (int (length content))) w = (Inr resp, w') \<and>
    uploads_in store w' i = Some (info', content @ request_bytes c) \<and> ok_world store w' \<and> fs_calm (w_store w')"
proof -
  from assms(11) have "ContentLength c \<le> 0 \<and> MinInt64 \<le> ContentLength c \<or> ContentLength c = int (length (request_bytes c))"
    by (auto simp: int64_defs)
  with calm_server.patch_upload_ok [OF assms(1,2,3,4,5,6,8,9,10) _ assms(12), where cfg = cfg and serve = serve and locker = locker] assms(13)
  obtain resp w' where run: "run_state (patch_upload (file_handler serve store locker cfg) c r i (int (length content))) w = (Inr resp, w')"
    "fs_calm (w_store w')" by auto
  have "int (length c0) + int (length (request_bytes c)) \<le> MaxInt64" if "uploads_in store w i = Some (info0, c0)" for info0 c0
    using assms(3,6,12) that by simp
  from tripleD [OF file_server.patch_upload_spec [where v = "uploads_in store w" and i = i and c = c, OF this] _ run(1)] assms(1)
  have "ok_world store w'"
    "patch_success (file_handler serve store locker cfg) c (int (length content)) (uploads_in store w i) (uploads_in store w' i) resp" by simp_all
  with run assms(3,4,5,7) show ?thesis by (fastforce simp: patch_success_def appended_def)
qed

theorem patch_succeeds_witness:
  "\<exists>resp w' info'. run_state (patch_upload demo_handler (demo_patch ''cd'') (demo_patch ''cd'') ''a'' 2) (demo_world (demo_fs 4 ''ab'')) = (Inr resp, w') \<and>
    uploads_in (New ''d'') w' ''a'' = Some (info', ''abcd'')"
proof -
  have "\<exists>resp w' info'. run_state (patch_upload (file_handler demo_serve (New ''d'') None demo_config) (demo_patch ''cd'') (demo_patch ''cd'') ''a''
      (int (length ''ab''))) (demo_world (demo_fs 4 ''ab'')) = (Inr resp, w') \<and>
    uploads_in (New ''d'') w' ''a'' = Some (info', ''ab'' @ request_bytes (demo_patch ''cd'')) \<and> ok_world (New ''d'') w' \<and> fs_calm (w_store w')"
    by (rule patch_succeeds [OF demo_ok _ demo_stored]) (simp_all add: demo_calm MaxInt64_def)
  then show ?thesis unfolding demo_handler_def by auto
qed

section \<open>Reading, deleting and resuming\<close>

text \<open>
  The \<^verbatim>\<open>Upload-Offset\<close> of a HEAD response is the number of bytes stored for the
  upload, and the request changes nothing.
\<close>

theorem head_reports_stored_bytes:
  assumes "ok_world store w" "run_state (head_upload (file_handler serve store locker cfg) r i) w = (Inr resp, w')"
  shows "\<exists>info content. uploads_in store w i = Some (info, content) \<and>
    map_of (Header resp) ''Upload-Offset'' = Some (FormatInt (int (length content))) \<and>
    ok_world store w' \<and> uploads_in store w' = uploads_in store w"
  using file_server.head_offset [OF assms] by metis

lemma demo_head_run:
  "\<exists>resp w'. run_state (head_upload demo_handler (demo_patch []) ''a'') (demo_world (demo_fs n bs)) = (Inr resp, w')"
proof -
  obtain u s' where "fs_GetUpload (New ''d'') ''a'' (demo_fs n bs) = (Inr u, s')"
    using fs_GetUpload_calm [OF demo_calm demo_view] by blast
  then show ?thesis
    by (simp add: head_upload_def core_GetUpload_def upload_GetInfo_def store_op_def fileStore_def fs_GetInfo_def demo_handler_def)
qed

theorem head_reports_stored_bytes_witness:
  "\<exists>resp w'. run_state (head_upload demo_handler (demo_patch []) ''a'') (demo_world (demo_fs 4 ''ab'')) = (Inr resp, w') \<and>
    map_of (Header resp) ''Upload-Offset'' = Some (FormatInt 2)"
proof -
  obtain resp w' where run: "run_state (head_upload demo_handler (demo_patch []) ''a'') (demo_world (demo_fs 4 ''ab'')) = (Inr resp, w')"
    using demo_head_run by blast
  from head_reports_stored_bytes [OF demo_ok run [unfolded demo_handler_def]] run show ?thesis by auto
qed

text \<open>
  Property C8. A DELETE request changes no other upload, and leaves its own as it was or removed;
  when it succeeds the upload was there and is gone.
\<close>

theorem delete_removes_only_its_upload:
  assumes "ok_world store w" "run_state (delete_upload (file_handler serve store locker cfg) c i) w = (res, w')"
  shows "ok_world store w' \<and>
    (\<forall>j. infoPath store j \<noteq> infoPath store i \<longrightarrow> uploads_in store w' j = uploads_in store w j) \<and>
    (uploads_in store w' i = None \<or> uploads_in store w' i = uploads_in store w i) \<and>
    (\<forall>resp. res = Inr resp \<longrightarrow> uploads_in store w i \<noteq> None \<and> uploads_in store w' i = None)"
  using tripleD [OF file_server.delete_upload_spec [where v = "uploads_in store w"] _ assms(2)] assms(1)
  by (auto simp: frame_def fs_same_def)

theorem delete_removes_only_its_upload_witness:
  "let (res, w') = run_state (delete_upload demo_handler (demo_patch []) ''a'') (demo_world (demo_fs 4 ''ab''))
   in ok_world (New ''d'') w' \<and> \<not> isl res \<and> uploads_in (New ''d'') w' ''a'' = None"
proof -
  have "\<not> isl (fst (run_state (delete_upload demo_handler (demo_patch []) ''a'') (demo_world (demo_fs 4 ''ab''))))" by code_simp
  then obtain resp w' where run: "run_state (delete_upload demo_handler (demo_patch []) ''a'') (demo_world (demo_fs 4 ''ab'')) = (Inr resp, w')"
    by (metis prod.collapse sum.collapse(2))
  from delete_removes_only_its_upload [OF demo_ok run [unfolded demo_handler_def]] show ?thesis by (simp add: run)
qed

text \<open>
  A client that uploads \<open>data\<close> to \<open>i\<close>: it asks for the offset and sends a PATCH request with the
  bytes that follow in \<open>data\<close>, of which any number may arrive. Meanwhile other clients read, append
  to and delete other uploads.
\<close>

inductive resume_step ::
  "(filesys, fileUpload, 'l, 'k) UnroutedHandler \<Rightarrow> FileStore \<Rightarrow> string \<Rightarrow> bytes \<Rightarrow>
     (filesys, 'l) world \<Rightarrow> (filesys, 'l) world \<Rightarrow> bool"
  for h store i data where
  send: "run_state (head_upload h r0 i) w = (Inr resp, w1) \<Longrightarrow>
    map_of (Header resp) ''Upload-Offset'' = Some t \<Longrightarrow> ParseInt t = Some offset \<Longrightarrow>
    prefix (request_bytes c) (drop (nat offset) data) \<Longrightarrow>
    run_state (patch_upload h c r i offset) w1 = (res, w2) \<Longrightarrow> resume_step h store i data w w2"
| other_patch: "infoPath store j \<noteq> infoPath store i \<Longrightarrow> fits (uploads_in store w j) c \<Longrightarrow>
    run_state (patch_upload h c r j offset) w = (res, w') \<Longrightarrow> resume_step h store i data w w'"
| other_delete: "infoPath store j \<noteq> infoPath store i \<Longrightarrow>
    run_state (delete_upload h c j) w = (res, w') \<Longrightarrow> resume_step h store i data w w'"
| any_head: "run_state (head_upload h r j) w = (res, w') \<Longrightarrow> resume_step h store i data w w'"

text \<open>The upload holds what was there at first and, after it, a part of the client's data, or it is gone.\<close>

definition resumable :: "FileStore \<Rightarrow> string \<Rightarrow> bytes \<Rightarrow> bytes \<Rightarrow> (filesys, 'l) world \<Rightarrow> bool" where
  "resumable store i data c0 w \<longleftrightarrow> ok_world store w \<and>
     (uploads_in store w i = None \<or>
      (\<exists>info content. uploads_in store w i = Some (info, content) \<and> prefix c0 content \<and> prefix content data))"

lemma advances_resumable:
  assumes "ok_world store w'" "uploads_in store w i = Some (info, content)" "prefix c0 content" "prefix content data"
    "prefix d (drop (length content) data)" "advances d (info, content) (uploads_in store w' i)"
  shows "resumable store i data c0 w'"
proof -
  have "prefix (content @ take m d) data" for m
  proof -
    obtain z where "data = content @ z" using assms(4) by (auto simp: prefix_def)
    moreover have "prefix (take m d) d" by (rule take_is_prefix)
    ultimately show ?thesis using assms(5) by (auto intro: prefix_order.trans)
  qed
  with assms(1,3,6) show ?thesis by (auto simp: resumable_def advances_def)
qed

lemma resume_step_resumable:
  assumes step: "resume_step (file_handler serve store locker cfg) store i data w w'"
    and inv: "resumable store i data c0 w" and len: "int (length data) \<le> MaxInt64"
  shows "resumable store i data c0 w'"
  using step
proof cases
  case (send r0 resp w1 t offset c r res)
  have ok: "ok_world store w" using inv by (simp add: resumable_def)
  from file_server.head_offset [OF ok send(1)] obtain info content where
    u: "uploads_in store w i = Some (info, content)" "uploads_in store w1 = uploads_in store w" "ok_world store w1"
      "map_of (Header resp) ''Upload-Offset'' = Some (FormatInt (int (length content)))" by metis
  from u(1) inv have pre: "prefix c0 content" "prefix content data" by (auto simp: resumable_def)
  then have "length content \<le> length data" by (auto dest: prefix_length_le)
  with len have "is_int64 (int (length content))" by (simp add: int64_defs)
  with u(4) send(2,3) have off: "offset = int (length content)" by (simp add: ParseInt_FormatInt)
  have "length (request_bytes c) \<le> length data - length content"
    using send(4) off prefix_length_le by fastforce
  with len \<open>length content \<le> length data\<close>
  have "int (length c1) + int (length (request_bytes c)) \<le> MaxInt64" if "uploads_in store w1 i = Some (info1, c1)" for info1 c1
    using that u(1,2) by auto
  from tripleD [OF file_server.patch_upload_spec [where v = "uploads_in store w1" and i = i and c = c, OF this] _ send(5)] u(3)
  have post: "ok_world store w'" "patch_effect c offset (uploads_in store w1 i) (uploads_in store w' i)" by auto
  then have "advances (request_bytes c) (info, content) (uploads_in store w' i)"
    using u(1,2) by (auto simp: patch_effect_def split: if_splits)
  from advances_resumable [OF post(1) u(1) pre _ this] send(4) off show ?thesis by simp
next
  case (other_patch j c r offset res)
  have "int (length c1) + int (length (request_bytes c)) \<le> MaxInt64" if "uploads_in store w j = Some (info1, c1)" for info1 c1
    using other_patch(2) that by (simp add: fits_def)
  from tripleD [OF file_server.patch_upload_spec [where v = "uploads_in store w" and i = j and c = c, OF this] _ other_patch(3)]
  show ?thesis using inv other_patch(1) by (auto simp: resumable_def frame_def fs_same_def)
next
  case (other_delete j c res)
  from tripleD [OF file_server.delete_upload_spec [where v = "uploads_in store w"] _ other_delete(2)]
  show ?thesis using inv other_delete(1) by (auto simp: resumable_def frame_def fs_same_def)
next
  case (any_head r j res)
  from file_server.head_upload_spec [OF _ any_head(1)] inv show ?thesis by (auto simp: resumable_def)
qed

text \<open>
  Property C3. Resuming is safe: after any number of attempts of a client, interrupted at any
  point, with failing file operations and with other clients' requests in between, the upload
  holds the first bytes of the client's data and never less than before, unless it is gone.
\<close>

theorem resuming_keeps_a_prefix:
  assumes "(resume_step (file_handler serve store locker cfg) store i data)\<^sup>*\<^sup>* w w'" "ok_world store w"
    "uploads_in store w i = Some (info, c0)" "prefix c0 data" "int (length data) \<le> MaxInt64"
  shows "ok_world store w' \<and>
    (uploads_in store w' i = None \<or>
     (\<exists>info' content. uploads_in store w' i = Some (info', content) \<and> prefix c0 content \<and> prefix content data))"
proof -
  have "resumable store i data c0 w" using assms(2-4) by (simp add: resumable_def)
  with assms(1) have "resumable store i data c0 w'"
    by (induction rule: rtranclp_induct) (auto intro: resume_step_resumable [OF _ _ assms(5)])
  then show ?thesis by (simp add: resumable_def)
qed

lemma demo_resume_step: "\<exists>w'. resume_step demo_handler (New ''d'') ''a'' ''abcd'' (demo_world (demo_fs 4 ''ab'')) w'"
proof -
  obtain resp w1 where head: "run_state (head_upload demo_handler (demo_patch []) ''a'') (demo_world (demo_fs 4 ''ab'')) = (Inr resp, w1)"
    using demo_head_run by blast
  from file_server.head_offset [OF demo_ok head [unfolded demo_handler_def]]
  have off: "map_of (Header resp) ''Upload-Offset'' = Some (FormatInt 2)" by fastforce
  obtain res w2 where "run_state (patch_upload demo_handler (demo_patch ''cd'') (demo_patch ''cd'') ''a'' 2) w1 = (res, w2)" by force
  with send [OF head off _ _ this, of "''abcd''" "New ''d''"] show ?thesis by (auto simp: ParseInt_FormatInt int64_defs intro!: exI [of _ w2])
qed

theorem resuming_keeps_a_prefix_witness:
  "\<exists>w'. resume_step demo_handler (New ''d'') ''a'' ''abcd'' (demo_world (demo_fs 4 ''ab'')) w' \<and> ok_world (New ''d'') w' \<and>
    (uploads_in (New ''d'') w' ''a'' = None \<or>
     (\<exists>info' content. uploads_in (New ''d'') w' ''a'' = Some (info', content) \<and> prefix ''ab'' content \<and> prefix content ''abcd''))"
proof -
  obtain w' where step: "resume_step demo_handler (New ''d'') ''a'' ''abcd'' (demo_world (demo_fs 4 ''ab'')) w'"
    using demo_resume_step by blast
  then have "(resume_step demo_handler (New ''d'') ''a'' ''abcd'')\<^sup>*\<^sup>* (demo_world (demo_fs 4 ''ab'')) w'" by blast
  from resuming_keeps_a_prefix [OF this [unfolded demo_handler_def] demo_ok demo_stored] step
  show ?thesis by (auto simp: MaxInt64_def)
qed

section \<open>Creating\<close>

text \<open>What \<open>post_create\<close> leaves behind, in terms of the file store.\<close>

lemma post_create_result:
  assumes "ok_world store w" "place_is_free (fs_fresh store) (file_handler serve store locker cfg) c (w_store w)"
    "run_state (post_create (file_handler serve store locker cfg) c r containsChunk) w = (Inr cr, w')"
    "parseConcat (req_header r ''Upload-Concat'') (BasePath cfg) = Inr (isPartial, isFinal, ids)"
  shows "ok_world store w'" "uploads_in store w (ID (cr_info cr)) = None"
    "\<And>j. infoPath store j \<noteq> infoPath store (ID (cr_info cr)) \<Longrightarrow> uploads_in store w' j = uploads_in store w j"
    "\<exists>info'. uploads_in store w' (ID (cr_info cr)) = Some (info', if isFinal then contents_of (uploads_in store w) ids else []) \<and>
       Size info' = cr_size cr \<and> SizeIsDeferred info' = cr_deferred cr \<and> IsFinal info' = isFinal"
    "\<not> isFinal \<Longrightarrow> validateNewUploadLengthHeaders (file_handler serve store locker cfg) (req_header r ''Upload-Length'')
        (req_header r ''Upload-Defer-Length'') = Inr (cr_size cr, cr_deferred cr) \<and>
      map_of (Header (cr_resp cr)) ''Location'' = Some (absFileURL (file_handler serve store locker cfg) r (ID (cr_info cr)))"
proof -
  have concat: "parseConcat (if UsesConcater (composer (file_handler serve store locker cfg)) then req_header r ''Upload-Concat'' else [])
      (basePath (file_handler serve store locker cfg)) = Inr (isPartial, isFinal, ids)" using assms(4) by simp
  note spec = file_maker.post_create_spec(3) [where v = "uploads_in store w", OF conjI [OF assms(1) refl] assms(2,3) refl concat]
  then show "ok_world store w'" "uploads_in store w (ID (cr_info cr)) = None" by blast+
  show "uploads_in store w' j = uploads_in store w j" if "infoPath store j \<noteq> infoPath store (ID (cr_info cr))" for j
    using spec that by (simp add: frame_def fs_same_def)
  show "\<exists>info'. uploads_in store w' (ID (cr_info cr)) = Some (info', if isFinal then contents_of (uploads_in store w) ids else []) \<and>
       Size info' = cr_size cr \<and> SizeIsDeferred info' = cr_deferred cr \<and> IsFinal info' = isFinal"
    using spec by blast
  show "validateNewUploadLengthHeaders (file_handler serve store locker cfg) (req_header r ''Upload-Length'')
        (req_header r ''Upload-Defer-Length'') = Inr (cr_size cr, cr_deferred cr) \<and>
      map_of (Header (cr_resp cr)) ''Location'' = Some (absFileURL (file_handler serve store locker cfg) r (ID (cr_info cr)))"
    if "\<not> isFinal" using spec that by blast
qed

text \<open>
  Property C6. A POST request that is not for a final upload creates, under an identifier that was
  not in use, an empty upload of the size that the request's headers announce, changes no other
  upload, and answers with the new upload's URL.
\<close>

theorem post_creates_an_empty_upload:
  assumes "ok_world store w" "place_is_free (fs_fresh store) (file_handler serve store locker cfg) c (w_store w)"
    "run_state (post_create (file_handler serve store locker cfg) c r containsChunk) w = (Inr cr, w')"
    "parseConcat (req_header r ''Upload-Concat'') (BasePath cfg) = Inr (isPartial, False, ids)"
  shows "\<exists>i info. uploads_in store w i = None \<and> uploads_in store w' i = Some (info, []) \<and> \<not> IsFinal info \<and>
    validateNewUploadLengthHeaders (file_handler serve store locker cfg) (req_header r ''Upload-Length'')
      (req_header r ''Upload-Defer-Length'') = Inr (Size info, SizeIsDeferred info) \<and>
    (\<forall>j. infoPath store j \<noteq> infoPath store i \<longrightarrow> uploads_in store w' j = uploads_in store w j) \<and>
    map_of (Header (cr_resp cr)) ''Location'' = Some (absFileURL (file_handler serve store locker cfg) r i)"
  using post_create_result [OF assms] by (intro exI [of _ "ID (cr_info cr)"]) auto

definition demo_post :: Request where
  "demo_post = (plainRequest ''POST'' ''/'')\<lparr>ReqHeader := [(''Upload-Length'', [''5''])]\<rparr>"

definition demo_final :: Request where
  "demo_final = (plainRequest ''POST'' ''/'')\<lparr>ReqHeader := [(''Upload-Concat'', [''final;/files/a /files/a''])]\<rparr>"

lemma demo_post_run:
  "\<exists>cr w'. run_state (post_create demo_handler demo_post demo_post False) (demo_world (demo_fs 4 ''ab'')) = (Inr cr, w')"
proof -
  have "\<not> isl (fst (run_state (post_create demo_handler demo_post demo_post False) (demo_world (demo_fs 4 ''ab''))))"
    by code_simp
  then show ?thesis by (metis isl_def prod.collapse sum.exhaust_sel)
qed

lemma demo_final_run:
  "\<exists>cr w'. run_state (post_create demo_handler demo_final demo_final False) (demo_world (demo_fs 2 ''ab'')) = (Inr cr, w')"
proof -
  have "\<not> isl (fst (run_state (post_create demo_handler demo_final demo_final False) (demo_world (demo_fs 2 ''ab''))))"
    by code_simp
  then show ?thesis by (metis isl_def prod.collapse sum.exhaust_sel)
qed

lemma demo_config_base: "BasePath demo_config = ''/files/''"
  by (simp add: demo_config_def)

theorem post_creates_an_empty_upload_witness:
  "\<exists>cr w' i info. run_state (post_create demo_handler demo_post demo_post False) (demo_world (demo_fs 4 ''ab'')) = (Inr cr, w') \<and>
     uploads_in (New ''d'') w' i = Some (info, []) \<and> Size info = 5"
proof -
  obtain cr w' where run: "run_state (post_create demo_handler demo_post demo_post False) (demo_world (demo_fs 4 ''ab'')) = (Inr cr, w')"
    using demo_post_run by blast
  have free: "place_is_free (fs_fresh (New ''d'')) demo_handler demo_post (w_store (demo_world (demo_fs 4 ''ab'')))"
    using demo_free by simp
  have concat: "parseConcat (req_header demo_post ''Upload-Concat'') (BasePath demo_config) = Inr (False, False, [])"
    unfolding demo_config_base by code_simp
  have "validateNewUploadLengthHeaders h (req_header demo_post ''Upload-Length'') (req_header demo_post ''Upload-Defer-Length'') = Inr (5, False)"
    for h :: "(filesys, fileUpload, unit, unit) UnroutedHandler"
  proof -
    have "req_header demo_post ''Upload-Length'' = ''5''" "req_header demo_post ''Upload-Defer-Length'' = []" "ParseInt ''5'' = Some 5"
      by code_simp+
    then show ?thesis by (simp add: validateNewUploadLengthHeaders_def UploadLengthDeferred_def Let_def)
  qed
  with post_creates_an_empty_upload [OF demo_ok free [unfolded demo_handler_def] run [unfolded demo_handler_def] concat] run
  show ?thesis by auto
qed

text \<open>
  Property C5. A POST request for a final upload creates an upload whose content is the contents of
  the partial uploads, in the order of the request, and leaves the partial uploads as they are.
\<close>

theorem final_upload_is_the_concatenation:
  assumes "ok_world store w" "place_is_free (fs_fresh store) (file_handler serve store locker cfg) c (w_store w)"
    "run_state (post_create (file_handler serve store locker cfg) c r containsChunk) w = (Inr cr, w')"
    "parseConcat (req_header r ''Upload-Concat'') (BasePath cfg) = Inr (isPartial, True, ids)"
  shows "\<exists>i info. uploads_in store w i = None \<and>
    uploads_in store w' i = Some (info, concat (map (\<lambda>j. snd (the (uploads_in store w j))) ids)) \<and> IsFinal info \<and>
    (\<forall>j. infoPath store j \<noteq> infoPath store i \<longrightarrow> uploads_in store w' j = uploads_in store w j)"
  using post_create_result [OF assms] by (intro exI [of _ "ID (cr_info cr)"]) (auto simp: contents_of_def)

theorem final_upload_is_the_concatenation_witness:
  "\<exists>cr w' i info. run_state (post_create demo_handler demo_final demo_final False) (demo_world (demo_fs 2 ''ab'')) = (Inr cr, w') \<and>
     uploads_in (New ''d'') w' i = Some (info, ''abab'') \<and> IsFinal info"
proof -
  obtain cr w' where run: "run_state (post_create demo_handler demo_final demo_final False) (demo_world (demo_fs 2 ''ab'')) = (Inr cr, w')"
    using demo_final_run by blast
  have free: "place_is_free (fs_fresh (New ''d'')) demo_handler demo_final (w_store (demo_world (demo_fs 2 ''ab'')))"
    using demo_free by simp
  have concat: "parseConcat (req_header demo_final ''Upload-Concat'') (BasePath demo_config) = Inr (False, True, [''a'', ''a''])"
    unfolding demo_config_base by code_simp
  from final_upload_is_the_concatenation [OF demo_ok free [unfolded demo_handler_def] run [unfolded demo_handler_def] concat] run
  show ?thesis by auto
qed

end
